(* ===== verification/GoPrelude.thy ===== *)
theory GoPrelude
  imports Main "HOL-Library.Sublist" "HOL-Library.AList"
begin

text \<open>
  Shared vocabulary of the development: the part of Go's language and standard library the
  modelled packages use.  A Go \<^verbatim>\<open>string\<close> is a sequence of bytes, so it is a HOL
  \<open>string\<close> (a \<open>char\<close> is one byte).  The functions of package \<^verbatim>\<open>strings\<close> are modelled on bytes:
  white space is the set of UTF-8 encodings of \<^verbatim>\<open>unicode.IsSpace\<close>.
  \<open>None\<close> in the result of an indexing function stands for a Go run-time panic.
\<close>

named_theorems go_simps \<open>definitions of the Go library model that evaluate on literals\<close>

type_synonym bytes = string

section \<open>Machine integers\<close>

text \<open>A Go \<^verbatim>\<open>int\<close> (64 bit, two's complement): the wrap-around of an exact result.\<close>

definition wrap64 :: "int \<Rightarrow> int" where
  "wrap64 x = (x + 2 ^ 63) mod 2 ^ 64 - 2 ^ 63"

definition in_int64 :: "int \<Rightarrow> bool" where
  "in_int64 x \<longleftrightarrow> - (2 ^ 63) \<le> x \<and> x < 2 ^ 63"

lemma wrap64_id [simp]: "in_int64 x \<Longrightarrow> wrap64 x = x"
  by (simp add: wrap64_def in_int64_def)

lemma wrap64_range: "in_int64 (wrap64 x)"
proof -
  have "0 \<le> (x + 2 ^ 63) mod (2 ^ 64 :: int)" "(x + 2 ^ 63) mod (2 ^ 64 :: int) < 2 ^ 64"
    by simp_all
  then show ?thesis by (simp add: wrap64_def in_int64_def)
qed

section \<open>Slices\<close>

text \<open>Indexing with the run-time bounds check; \<open>None\<close> is the panic.\<close>

definition idx :: "'a list \<Rightarrow> int \<Rightarrow> 'a option" where
  "idx xs i = (if 0 \<le> i \<and> i < int (length xs) then Some (xs ! nat i) else None)"

definition upd :: "'a list \<Rightarrow> int \<Rightarrow> 'a \<Rightarrow> 'a list option" where
  "upd xs i v = (if 0 \<le> i \<and> i < int (length xs) then Some (xs[nat i := v]) else None)"

lemma idx_Some_iff: "idx xs i = Some v \<longleftrightarrow> 0 \<le> i \<and> i < int (length xs) \<and> xs ! nat i = v"
  by (auto simp: idx_def)

lemma idx_in [simp]: "0 \<le> i \<Longrightarrow> i < int (length xs) \<Longrightarrow> idx xs i = Some (xs ! nat i)"
  by (simp add: idx_def)

lemma upd_in [simp]: "0 \<le> i \<Longrightarrow> i < int (length xs) \<Longrightarrow> upd xs i v = Some (xs[nat i := v])"
  by (simp add: upd_def)

section \<open>Package strings\<close>

definition has_prefix :: "bytes \<Rightarrow> bytes \<Rightarrow> bool" where
  "has_prefix s p = prefix p s"

definition has_suffix :: "bytes \<Rightarrow> bytes \<Rightarrow> bool" where
  "has_suffix s p = suffix p s"

definition trim_prefix :: "bytes \<Rightarrow> bytes \<Rightarrow> bytes" where
  "trim_prefix s p = (if prefix p s then drop (length p) s else s)"

definition trim_suffix :: "bytes \<Rightarrow> bytes \<Rightarrow> bytes" where
  "trim_suffix s p = (if suffix p s then take (length s - length p) s else s)"

definition contains_any :: "bytes \<Rightarrow> bytes \<Rightarrow> bool" where
  "contains_any s cs = list_ex (\<lambda>c. c \<in> set cs) s"

lemmas [go_simps] = has_prefix_def has_suffix_def trim_prefix_def trim_suffix_def contains_any_def

subsection \<open>White space\<close>

text \<open>
  The encodings of the runes \<^verbatim>\<open>unicode.IsSpace\<close> accepts: the six ASCII ones, U+0085, U+00A0,
  U+1680, U+2000 to U+200A, U+2028, U+2029, U+202F, U+205F and U+3000.  None of them starts
  with a continuation byte, so scanning byte by byte finds the same separators as scanning
  rune by rune, in valid and in invalid UTF-8.
\<close>

definition space_encodings :: "bytes list" where
  "space_encodings =
     [[CHR 0x20], [CHR 0x09], [CHR 0x0A], [CHR 0x0B], [CHR 0x0C], [CHR 0x0D],
      [CHR 0xC2, CHR 0x85], [CHR 0xC2, CHR 0xA0], [CHR 0xE1, CHR 0x9A, CHR 0x80],
      [CHR 0xE2, CHR 0x80, CHR 0x80], [CHR 0xE2, CHR 0x80, CHR 0x81],
      [CHR 0xE2, CHR 0x80, CHR 0x82], [CHR 0xE2, CHR 0x80, CHR 0x83],
      [CHR 0xE2, CHR 0x80, CHR 0x84], [CHR 0xE2, CHR 0x80, CHR 0x85],
      [CHR 0xE2, CHR 0x80, CHR 0x86], [CHR 0xE2, CHR 0x80, CHR 0x87],
      [CHR 0xE2, CHR 0x80, CHR 0x88], [CHR 0xE2, CHR 0x80, CHR 0x89],
      [CHR 0xE2, CHR 0x80, CHR 0x8A], [CHR 0xE2, CHR 0x80, CHR 0xA8],
      [CHR 0xE2, CHR 0x80, CHR 0xA9], [CHR 0xE2, CHR 0x80, CHR 0xAF],
      [CHR 0xE2, CHR 0x81, CHR 0x9F], [CHR 0xE3, CHR 0x80, CHR 0x80]]"

definition lead_enc :: "bytes list \<Rightarrow> bytes \<Rightarrow> bytes option" where
  "lead_enc encs s = find (\<lambda>e. e \<noteq> [] \<and> prefix e s) encs"

lemma lead_enc_SomeD: "lead_enc encs s = Some e \<Longrightarrow> e \<in> set encs \<and> e \<noteq> [] \<and> prefix e s"
  by (auto simp: lead_enc_def find_Some_iff)

lemma lead_enc_NoneD: "lead_enc encs s = None \<Longrightarrow> e \<in> set encs \<Longrightarrow> e \<noteq> [] \<Longrightarrow> \<not> prefix e s"
  by (auto simp: lead_enc_def find_None_iff)

function trim_with :: "bytes list \<Rightarrow> bytes \<Rightarrow> bytes" where
  "trim_with encs s =
     (case lead_enc encs s of None \<Rightarrow> s | Some e \<Rightarrow> trim_with encs (drop (length e) s))"
  by pat_completeness auto
termination
proof (relation "measure (length \<circ> snd)")
  fix encs s e
  assume "lead_enc encs s = Some e"
  then have "e \<noteq> []" "prefix e s" by (auto dest: lead_enc_SomeD)
  then have "0 < length e" "length e \<le> length s" by (simp_all add: prefix_length_le)
  then have "length s - length e < length s" by linarith
  then show "((encs, drop (length e) s), (encs, s)) \<in> measure (length \<circ> snd)" by simp
qed simp

declare trim_with.simps [simp del]

definition trim_left :: "bytes \<Rightarrow> bytes" where
  "trim_left s = trim_with space_encodings s"

definition trim_right :: "bytes \<Rightarrow> bytes" where
  "trim_right s = rev (trim_with (map rev space_encodings) (rev s))"

text \<open>\<^verbatim>\<open>strings.TrimSpace\<close>.\<close>

definition trim_space :: "bytes \<Rightarrow> bytes" where
  "trim_space s = trim_right (trim_left s)"

lemma trim_with_none: "lead_enc encs (trim_with encs s) = None"
proof (induction encs s rule: trim_with.induct)
  case (1 encs s)
  then show ?case by (subst trim_with.simps) (auto split: option.splits)
qed

lemma trim_with_suffix: "suffix (trim_with encs s) s"
proof (induction encs s rule: trim_with.induct)
  case (1 encs s)
  show ?case
  proof (cases "lead_enc encs s")
    case None
    then show ?thesis by (simp add: trim_with.simps)
  next
    case (Some e)
    with 1 have "suffix (trim_with encs (drop (length e) s)) (drop (length e) s)" by simp
    also have "suffix (drop (length e) s) s" by (rule suffix_drop)
    finally show ?thesis using Some by (simp add: trim_with.simps [of encs s])
  qed
qed

lemma trim_with_idem [simp]: "trim_with encs (trim_with encs s) = trim_with encs s"
  by (subst trim_with.simps) (simp add: trim_with_none)

lemma trim_with_Nil [simp]: "trim_with encs [] = []"
  using trim_with_suffix [of encs "[]"] by simp

lemma trim_with_id: "lead_enc encs s = None \<Longrightarrow> trim_with encs s = s"
  by (simp add: trim_with.simps)

lemma lead_enc_prefix_None: "lead_enc encs s = None \<Longrightarrow> prefix t s \<Longrightarrow> lead_enc encs t = None"
  by (auto simp: lead_enc_def find_None_iff intro: prefix_order.trans)

lemma trim_right_prefix: "prefix (trim_right s) s"
  using trim_with_suffix [of "map rev space_encodings" "rev s"]
  by (simp add: trim_right_def suffix_to_prefix)

lemma trim_right_idem [simp]: "trim_right (trim_right s) = trim_right s"
  by (simp add: trim_right_def)

lemma trim_left_trim_right [simp]: "trim_left (trim_right (trim_left s)) = trim_right (trim_left s)"
proof -
  have "lead_enc space_encodings (trim_left s) = None"
    by (simp add: trim_left_def trim_with_none)
  then have "lead_enc space_encodings (trim_right (trim_left s)) = None"
    by (rule lead_enc_prefix_None [OF _ trim_right_prefix])
  then show ?thesis by (simp add: trim_left_def trim_with_id)
qed

lemma trim_space_idem [simp]: "trim_space (trim_space s) = trim_space s"
  by (simp add: trim_space_def)

lemma trim_space_Nil [simp]: "trim_space [] = []"
  by (simp add: trim_space_def trim_left_def trim_right_def)

lemma set_trim_space: "set (trim_space s) \<subseteq> set s"
proof -
  have "set (trim_right (trim_left s)) \<subseteq> set (trim_left s)"
    by (rule set_mono_prefix [OF trim_right_prefix])
  also have "\<dots> \<subseteq> set s"
    by (simp add: trim_left_def set_mono_suffix [OF trim_with_suffix])
  finally show ?thesis by (simp add: trim_space_def)
qed

text \<open>\<^verbatim>\<open>strings.Fields\<close>: the maximal runs of bytes that start no white space.\<close>

function fields_from :: "bytes \<Rightarrow> bytes \<Rightarrow> bytes list" where
  "fields_from cur [] = (if cur = [] then [] else [cur])"
| "fields_from cur (c # s) =
     (case lead_enc space_encodings (c # s) of
        None \<Rightarrow> fields_from (cur @ [c]) s
      | Some e \<Rightarrow> (if cur = [] then [] else [cur]) @ fields_from [] (drop (length e) (c # s)))"
  by pat_completeness auto
termination
proof (relation "measure (length \<circ> snd)")
  fix cur :: bytes and c s e
  assume "lead_enc space_encodings (c # s) = Some e"
  then have "e \<noteq> []" by (auto dest: lead_enc_SomeD)
  then show "(([], drop (length e) (c # s)), (cur, c # s)) \<in> measure (length \<circ> snd)"
    by (cases e) auto
qed auto

definition Fields :: "bytes \<Rightarrow> bytes list" where
  "Fields s = fields_from [] s"

lemma fields_from_nonempty: "f \<in> set (fields_from cur s) \<Longrightarrow> f \<noteq> []"
  by (induction cur s rule: fields_from.induct) (auto split: option.splits if_splits)

lemma fields_from_cur: "cur \<noteq> [] \<Longrightarrow> fields_from cur s \<noteq> []"
  by (induction cur s rule: fields_from.induct) (auto split: option.splits)

lemma fields_nonempty: "f \<in> set (Fields s) \<Longrightarrow> f \<noteq> []"
  by (simp add: Fields_def fields_from_nonempty)

lemma fields_lead_None: "s \<noteq> [] \<Longrightarrow> lead_enc space_encodings s = None \<Longrightarrow> Fields s \<noteq> []"
  by (cases s) (auto simp: Fields_def fields_from_cur)

lemma trim_space_fields: "trim_space s \<noteq> [] \<Longrightarrow> Fields (trim_space s) \<noteq> []"
proof -
  assume "trim_space s \<noteq> []"
  moreover have "lead_enc space_encodings (trim_space s) = None"
    unfolding trim_space_def
    by (rule lead_enc_prefix_None [OF _ trim_right_prefix]) (simp add: trim_left_def trim_with_none)
  ultimately show ?thesis by (rule fields_lead_None)
qed

subsection \<open>Letter case\<close>

text \<open>
  \<^verbatim>\<open>strings.ToLower\<close> as far as a comparison with an ASCII word can tell: ASCII letters are
  lowered, the two other runes that lower to an ASCII letter (U+212A to k, U+0130 to i) are
  lowered, and every other byte, whose rune lowers to a rune outside ASCII, stays.
\<close>

definition lower_char :: "char \<Rightarrow> char" where
  "lower_char c = (if 65 \<le> (of_char c :: nat) \<and> of_char c \<le> (90 :: nat)
     then char_of (of_char c + (32 :: nat)) else c)"

function to_lower :: "bytes \<Rightarrow> bytes" where
  "to_lower [] = []"
| "to_lower (c # s) =
     (if prefix [CHR 0xE2, CHR 0x84, CHR 0xAA] (c # s) then CHR ''k'' # to_lower (drop 2 s)
      else if prefix [CHR 0xC4, CHR 0xB0] (c # s) then CHR ''i'' # to_lower (drop 1 s)
      else lower_char c # to_lower s)"
  by pat_completeness auto
termination by (relation "measure length") auto

subsection \<open>Splitting\<close>

text \<open>\<^verbatim>\<open>strings.Split\<close> with a separator of one byte.\<close>

fun split_on :: "char \<Rightarrow> bytes \<Rightarrow> bytes list" where
  "split_on d [] = [[]]"
| "split_on d (c # s) =
     (if c = d then [] # split_on d s
      else (case split_on d s of [] \<Rightarrow> [[c]] | w # ws \<Rightarrow> (c # w) # ws))"

lemma split_on_not_Nil [simp]: "split_on d s \<noteq> []"
  by (cases s) (auto split: list.splits)

text \<open>\<^verbatim>\<open>strings.Join\<close>.\<close>

fun join :: "bytes \<Rightarrow> bytes list \<Rightarrow> bytes" where
  "join sep [] = []"
| "join sep [x] = x"
| "join sep (x # y # xs) = x @ sep @ join sep (y # xs)"

lemma join_Cons: "xs \<noteq> [] \<Longrightarrow> join sep (x # xs) = x @ sep @ join sep xs"
  by (cases xs) auto

lemma join_split_on: "join [d] (split_on d s) = s"
proof (induction d s rule: split_on.induct)
  case (2 d c s)
  show ?case
  proof (cases "c = d")
    case True
    with 2 show ?thesis by (simp add: join_Cons)
  next
    case False
    obtain w ws where w: "split_on d s = w # ws" by (cases "split_on d s") auto
    with False 2 show ?thesis by (cases ws) auto
  qed
qed simp

subsection \<open>Decimal numbers\<close>

text \<open>\<^verbatim>\<open>fmt.Sprintf("%d", n)\<close> on a natural number.\<close>

fun digits_of :: "nat \<Rightarrow> bytes" where
  "digits_of n = (if n < 10 then [char_of (48 + n)]
     else digits_of (n div 10) @ [char_of (48 + n mod 10)])"

declare digits_of.simps [simp del]

fun undigits :: "nat \<Rightarrow> bytes \<Rightarrow> nat" where
  "undigits acc [] = acc"
| "undigits acc (c # s) = undigits (10 * acc + (of_char c - 48)) s"

lemma undigits_snoc: "undigits acc (s @ [c]) = 10 * undigits acc s + (of_char c - 48)"
  by (induction s arbitrary: acc) auto

lemma undigits_digits_of: "undigits 0 (digits_of n) = n"
proof (induction n rule: digits_of.induct)
  case (1 n)
  show ?case
  proof (cases "n < 10")
    case True
    then show ?thesis by (simp add: digits_of.simps)
  next
    case False
    with 1 have "undigits 0 (digits_of (n div 10)) = n div 10" by simp
    with False show ?thesis by (simp add: digits_of.simps [of n] undigits_snoc)
  qed
qed

lemma digits_of_inject [simp]: "digits_of m = digits_of n \<longleftrightarrow> m = n"
  by (metis undigits_digits_of)

section \<open>Tables and windows\<close>

text \<open>Association lists as the tables of the components, and the end of a byte sequence.\<close>

lemma delete_filter: "AList.delete k xs = filter (\<lambda>e. fst e \<noteq> k) xs"
  by (simp add: AList.delete_eq case_prod_unfold eq_commute)

lemma set_update_sub: "set (AList.update k v xs) \<subseteq> insert (k, v) (set xs)"
  by (induction xs) auto

lemma length_filter_mono: "(\<And>x. x \<in> set xs \<Longrightarrow> P x \<Longrightarrow> Q x) \<Longrightarrow> length (filter P xs) \<le> length (filter Q xs)"
  by (induction xs) (auto simp: le_SucI)

definition last_bytes :: "nat \<Rightarrow> bytes \<Rightarrow> bytes" where
  "last_bytes n s = drop (length s - n) s"

lemma last_bytes_append: "last_bytes n (last_bytes n s @ p) = last_bytes n (s @ p)"
proof (cases "length s \<le> n")
  case False
  then have "length s + length p - (length s - n + n) + (length s - n) = length s + length p - n" by simp
  then show ?thesis by (simp add: last_bytes_def)
qed (simp add: last_bytes_def)

end
