(* ===== verification/TurnQueue.thy ===== *)
theory TurnQueue
  imports GoPrelude "HOL-Library.Word" "HOL-Library.Multiset"
begin

text \<open>
  The message queue of a running turn: \<^verbatim>\<open>internal/session/turn_queue.go\<close>,
  \<^verbatim>\<open>internal/session/turn_interrupt.go\<close>, the queue calls of \<^verbatim>\<open>manager_queue.go\<close> and the
  console widget that shows a queue (\<^verbatim>\<open>external/cli/queue.go\<close>).  Every operation is one
  critical section under \<^verbatim>\<open>queueMu\<close>; a \<^verbatim>\<open>*queuedPromptReceipt\<close> is an index into the table
  \<open>receipts\<close>, so two holders of one pointer see each other's flags.  The two process-wide
  counters are 64-bit words.
\<close>

section \<open>Data\<close>

record image_part_ref =
  ip_DataURL :: bytes
  ip_Name :: bytes

type_synonym queue_mode = bytes

definition QueueModeSteer :: queue_mode where "QueueModeSteer = ''steer''"
definition QueueModeAfterTurn :: queue_mode where "QueueModeAfterTurn = ''after_turn''"

definition ValidQueueMode :: "queue_mode \<Rightarrow> bool" where
  "ValidQueueMode m \<longleftrightarrow> m = QueueModeSteer \<or> m = QueueModeAfterTurn"

record queued_message =
  qm_ID :: bytes
  qm_Text :: bytes
  qm_Mode :: queue_mode
  qm_ImageParts :: "image_part_ref list"
  qm_CreatedAt :: bytes

datatype queue_error =
    ErrInvalidMode queue_mode
  | ErrEmptyMessage
  | ErrNoActiveTurn
  | ErrQueueFull
  | ErrQueuedMessageNotFound
  | ErrGoalCommandAfterTurn

definition MaxQueuedMessages :: nat where "MaxQueuedMessages = 20"
definition maxQueuedFollowUpRuns :: nat where "maxQueuedFollowUpRuns = MaxQueuedMessages"

text \<open>A receipt owns the original rows of a prompt until their append starts.\<close>

record receipt =
  rc_rows :: "queued_message list"
  rc_batch :: bool
  rc_claimed :: bool
  rc_read :: bool
  rc_transferred :: bool

text \<open>
  \<^verbatim>\<open>queuedTurnInterrupt\<close>: \<open>qi_armed\<close> says that \<^verbatim>\<open>cancel\<close> is set, \<open>qi_root_done\<close> that
  \<^verbatim>\<open>root.Err()\<close> is not nil, and \<open>qi_cause\<close> that the context of the current child run was
  cancelled with \<^verbatim>\<open>errQueuedTurnInterrupt\<close>.
\<close>

record interrupt =
  qi_armed :: bool
  qi_root_done :: bool
  qi_cause :: bool
  qi_input :: "nat option"
  qi_pending :: "nat option"

text \<open>A published frame: the whole queue and the version that names it.\<close>

type_synonym frame = "queued_message list \<times> 64 word"

record qstate =
  queue :: "queued_message list"
  queueOpen :: bool
  queueVersion :: "64 word"
  queueRetained :: "bytes set"
  queueInterrupt :: "interrupt option"
  notifier :: bool
  userCancelled :: bool
  runBudget :: nat
  receipts :: "receipt list"
  queuedMessageSeq :: "64 word"
  queueVersionSeq :: "64 word"
  published :: "frame list"

definition init_qstate :: qstate where
  "init_qstate = \<lparr>queue = [], queueOpen = False, queueVersion = 0, queueRetained = {},
     queueInterrupt = None, notifier = False, userCancelled = False, runBudget = 0,
     receipts = [], queuedMessageSeq = 0, queueVersionSeq = 0, published = []\<rparr>"

section \<open>Operations of the queue\<close>

definition QueueSnapshot :: "qstate \<Rightarrow> frame" where
  "QueueSnapshot s = (queue s, queueVersion s)"

definition bumpQueueLocked :: "qstate \<Rightarrow> qstate" where
  "bumpQueueLocked s =
     (let v = queueVersionSeq s + 1 in s\<lparr>queueVersionSeq := v, queueVersion := v\<rparr>)"

text \<open>The manager's publisher reads the queue back through \<^verbatim>\<open>QueueSnapshot\<close>.\<close>

definition PublishMessageQueue :: "qstate \<Rightarrow> qstate" where
  "PublishMessageQueue s = s\<lparr>published := published s @ [QueueSnapshot s]\<rparr>"

definition notifyQueue :: "qstate \<Rightarrow> qstate" where
  "notifyQueue s = (if notifier s then PublishMessageQueue s else s)"

definition SetQueueNotifier :: "bool \<Rightarrow> qstate \<Rightarrow> qstate" where
  "SetQueueNotifier fn s = s\<lparr>notifier := fn\<rparr>"

definition takeSteer :: "queued_message list \<Rightarrow> queued_message list" where
  "takeSteer rows = filter (\<lambda>r. qm_Mode r \<noteq> QueueModeAfterTurn) rows"

definition keepAfterTurn :: "queued_message list \<Rightarrow> queued_message list" where
  "keepAfterTurn rows = filter (\<lambda>r. qm_Mode r = QueueModeAfterTurn) rows"

definition OpenMessageQueue :: "qstate \<Rightarrow> qstate" where
  "OpenMessageQueue s =
     (let q = (if queueOpen s then keepAfterTurn (queue s) else queue s)
      in notifyQueue (bumpQueueLocked (s\<lparr>queue := q, queueOpen := True, queueRetained := {}\<rparr>)))"

text \<open>The rows a close keeps: after-turn rows and the ones a Stop retained.\<close>

definition stays :: "qstate \<Rightarrow> queued_message \<Rightarrow> bool" where
  "stays s q \<longleftrightarrow> qm_Mode q = QueueModeAfterTurn \<or> qm_ID q \<in> queueRetained s"

definition CloseMessageQueue :: "qstate \<Rightarrow> queued_message list \<times> qstate" where
  "CloseMessageQueue s =
     (let kept = filter (stays s) (queue s);
          left = filter (\<lambda>q. \<not> stays s q) (queue s);
          changed = (queueOpen s \<or> left \<noteq> []);
          s1 = s\<lparr>queue := kept, queueOpen := False\<rparr>
      in (left, if changed then notifyQueue (bumpQueueLocked s1) else s1))"

text \<open>The rows of the interrupt's pending batch, when there is one.\<close>

definition pending_receipt :: "qstate \<Rightarrow> nat option" where
  "pending_receipt s = Option.bind (queueInterrupt s) qi_pending"

definition pending_rows :: "qstate \<Rightarrow> queued_message list" where
  "pending_rows s = (case pending_receipt s of None \<Rightarrow> [] | Some r \<Rightarrow> rc_rows (receipts s ! r))"

definition waiting :: "qstate \<Rightarrow> nat" where
  "waiting s = length (queue s) + length (pending_rows s)"

definition message_id :: "64 word \<Rightarrow> bytes" where
  "message_id n = ''q_'' @ digits_of (unat n)"

definition EnqueueMessageWithMode ::
  "bytes \<Rightarrow> queue_mode \<Rightarrow> image_part_ref list \<Rightarrow> bytes \<Rightarrow> qstate
   \<Rightarrow> (queue_error + queued_message) \<times> qstate" where
  "EnqueueMessageWithMode text mode parts now s =
     (let body = trim_space text in
      if \<not> ValidQueueMode mode then (Inl (ErrInvalidMode mode), s)
      else if body = [] \<and> parts = [] then (Inl ErrEmptyMessage, s)
      else if \<not> queueOpen s then (Inl ErrNoActiveTurn, s)
      else if MaxQueuedMessages \<le> waiting s then (Inl ErrQueueFull, s)
      else
        (let n = queuedMessageSeq s + 1;
             msg = \<lparr>qm_ID = message_id n, qm_Text = body, qm_Mode = mode,
                    qm_ImageParts = parts, qm_CreatedAt = now\<rparr>
         in (Inr msg,
             notifyQueue (bumpQueueLocked
               (s\<lparr>queuedMessageSeq := n, queue := queue s @ [msg]\<rparr>)))))"

fun take_out :: "bytes \<Rightarrow> queued_message list \<Rightarrow> (queued_message \<times> queued_message list) option" where
  "take_out want [] = None"
| "take_out want (m # ms) =
     (if qm_ID m = want then Some (m, ms)
      else map_option (\<lambda>(t, rest). (t, m # rest)) (take_out want ms))"

definition TakeBackQueuedMessage :: "bytes \<Rightarrow> qstate \<Rightarrow> queued_message option \<times> qstate" where
  "TakeBackQueuedMessage mid s =
     (let want = trim_space mid in
      if want = [] then (None, s)
      else (case take_out want (queue s) of
              None \<Rightarrow> (None, s)
            | Some (t, rest) \<Rightarrow> (Some t, notifyQueue (bumpQueueLocked (s\<lparr>queue := rest\<rparr>)))))"

fun set_mode_first :: "bytes \<Rightarrow> queue_mode \<Rightarrow> queued_message list \<Rightarrow> queued_message list option" where
  "set_mode_first mid m [] = None"
| "set_mode_first mid m (q # qs) =
     (if qm_ID q = mid then Some (q\<lparr>qm_Mode := m\<rparr> # qs)
      else map_option ((#) q) (set_mode_first mid m qs))"

definition SetQueuedMessageMode :: "bytes \<Rightarrow> queue_mode \<Rightarrow> qstate \<Rightarrow> bool \<times> qstate" where
  "SetQueuedMessageMode mid mode s =
     (if \<not> ValidQueueMode mode then (False, s)
      else (case set_mode_first mid mode (queue s) of
              None \<Rightarrow> (False, s)
            | Some q \<Rightarrow> (True, notifyQueue (bumpQueueLocked (s\<lparr>queue := q\<rparr>)))))"

definition ClearQueuedMessages :: "qstate \<Rightarrow> queued_message list \<times> qstate" where
  "ClearQueuedMessages s =
     (let dropped = queue s; s1 = bumpQueueLocked (s\<lparr>queue := []\<rparr>)
      in (dropped, if dropped \<noteq> [] then notifyQueue s1 else s1))"

definition TakeQueuedMessages :: "qstate \<Rightarrow> queued_message list \<times> qstate" where
  "TakeQueuedMessages s =
     (if pending_receipt s \<noteq> None then ([], s)
      else (let taken = takeSteer (queue s);
                s1 = bumpQueueLocked (s\<lparr>queue := keepAfterTurn (queue s)\<rparr>)
            in (taken, if taken \<noteq> [] then notifyQueue s1 else s1)))"

definition TakeQueuedMessagesOrClose :: "qstate \<Rightarrow> (queued_message list \<times> bool) \<times> qstate" where
  "TakeQueuedMessagesOrClose s =
     (if pending_receipt s \<noteq> None then (([], False), s)
      else (let taken = takeSteer (queue s) in
        if taken \<noteq> [] then
          ((taken, True), notifyQueue (bumpQueueLocked (s\<lparr>queue := keepAfterTurn (queue s)\<rparr>)))
        else (case queue s of
            q # qs \<Rightarrow> (([q], True), notifyQueue (bumpQueueLocked (s\<lparr>queue := qs\<rparr>)))
          | [] \<Rightarrow> (([], False), bumpQueueLocked (s\<lparr>queueOpen := False\<rparr>)))))"

definition ReturnQueuedMessages :: "queued_message list \<Rightarrow> qstate \<Rightarrow> qstate" where
  "ReturnQueuedMessages msgs s =
     (if msgs = [] then s
      else notifyQueue (bumpQueueLocked (s\<lparr>queue := msgs @ queue s\<rparr>)))"

definition QueuedPromptText :: "queued_message list \<Rightarrow> bytes" where
  "QueuedPromptText msgs = join [CHR 0x0A, CHR 0x0A] (map qm_Text msgs)"

section \<open>Receipts and the interruptible run\<close>

definition set_receipt :: "nat \<Rightarrow> (receipt \<Rightarrow> receipt) \<Rightarrow> qstate \<Rightarrow> qstate" where
  "set_receipt r f s =
     (if r < length (receipts s) then s\<lparr>receipts := (receipts s)[r := f (receipts s ! r)]\<rparr> else s)"

definition withQueuedPromptReceipt :: "queued_message list \<Rightarrow> bool \<Rightarrow> qstate \<Rightarrow> nat \<times> qstate" where
  "withQueuedPromptReceipt rows batch s =
     (length (receipts s),
      s\<lparr>receipts := receipts s @ [\<lparr>rc_rows = rows, rc_batch = batch, rc_claimed = False,
           rc_read = False, rc_transferred = False\<rparr>]\<rparr>)"

text \<open>A context without a receipt of this session is the argument \<open>None\<close> (\<^verbatim>\<open>queuedPromptOf\<close>).\<close>

definition hasQueuedPromptBatch :: "nat option \<Rightarrow> qstate \<Rightarrow> bool" where
  "hasQueuedPromptBatch ro s =
     (case ro of None \<Rightarrow> False
      | Some r \<Rightarrow> let x = receipts s ! r in rc_batch x \<and> \<not> rc_claimed x \<and> \<not> rc_read x)"

definition TakeQueuedPromptBatch :: "nat option \<Rightarrow> qstate \<Rightarrow> queued_message list option \<times> qstate" where
  "TakeQueuedPromptBatch ro s =
     (case ro of None \<Rightarrow> (None, s)
      | Some r \<Rightarrow> let x = receipts s ! r in
          if \<not> rc_batch x \<or> rc_claimed x then (None, s)
          else (Some (rc_rows x), set_receipt r (\<lambda>x. x\<lparr>rc_claimed := True\<rparr>) s))"

definition clear_pending :: "nat \<Rightarrow> interrupt \<Rightarrow> interrupt" where
  "clear_pending r c = (if qi_pending c = Some r then c\<lparr>qi_pending := None\<rparr> else c)"

definition BeginQueuedPromptRead :: "bool \<Rightarrow> nat option \<Rightarrow> qstate \<Rightarrow> bool \<times> qstate" where
  "BeginQueuedPromptRead ctx_err ro s =
     (case ro of None \<Rightarrow> (True, s)
      | Some r \<Rightarrow>
          if ctx_err \<or> rc_transferred (receipts s ! r) then (False, s)
          else (True,
            (set_receipt r (\<lambda>x. x\<lparr>rc_read := True\<rparr>) s)
              \<lparr>queueInterrupt := map_option (clear_pending r) (queueInterrupt s)\<rparr>))"

definition unread_input :: "interrupt \<Rightarrow> qstate \<Rightarrow> queued_message list" where
  "unread_input c s = (case qi_input c of None \<Rightarrow> []
     | Some r \<Rightarrow> let x = receipts s ! r in
         if \<not> rc_read x \<and> \<not> rc_transferred x then rc_rows x else [])"

definition TryInterruptQueuedTurn :: "qstate \<Rightarrow> bool \<times> qstate" where
  "TryInterruptQueuedTurn s =
     (case queueInterrupt s of
        None \<Rightarrow> (False, s)
      | Some c \<Rightarrow>
          if \<not> qi_armed c \<or> qi_pending c \<noteq> None \<or> qi_root_done c \<or> \<not> queueOpen s \<or> userCancelled s
          then (False, s)
          else (let rows = unread_input c s @ queue s in
            if rows = [] then (False, s)
            else (let s1 = (case qi_input c of None \<Rightarrow> s
                        | Some r \<Rightarrow> if rc_read (receipts s ! r) then s
                                    else set_receipt r (\<lambda>x. x\<lparr>rc_transferred := True\<rparr>) s);
                      (p, s2) = withQueuedPromptReceipt rows True s1
                  in (True, notifyQueue (bumpQueueLocked
                       (s2\<lparr>queueInterrupt := Some (c\<lparr>qi_pending := Some p, qi_cause := True\<rparr>),
                           queue := []\<rparr>))))))"

text \<open>
  \<^verbatim>\<open>runInterruptibleTurn\<close>, cut at its critical sections; the supervised run itself goes on
  between \<open>armRun\<close> and \<open>settleRun\<close>, while any other operation may be taken.
\<close>

definition startRun :: "nat option \<Rightarrow> bool \<Rightarrow> qstate \<Rightarrow> qstate" where
  "startRun input root_done s =
     s\<lparr>queueInterrupt := Some \<lparr>qi_armed = False, qi_root_done = root_done, qi_cause = False,
          qi_input = input, qi_pending = None\<rparr>\<rparr>"

definition armRun :: "qstate \<Rightarrow> bool \<times> qstate" where
  "armRun s =
     (case queueInterrupt s of
        None \<Rightarrow> (False, s)
      | Some c \<Rightarrow>
          if qi_root_done c \<or> userCancelled s then (False, s)
          else (True, s\<lparr>queueInterrupt := Some (c\<lparr>qi_armed := True, qi_cause := False\<rparr>)\<rparr>))"

datatype run_err = NoErr | CanceledErr | OtherErr

datatype settled =
    RunReturned run_err
  | RunUnread
  | RunCancelled
  | RunCapped
  | RunContinue bytes

definition settleRun :: "run_err \<Rightarrow> qstate \<Rightarrow> settled \<times> qstate" where
  "settleRun err s =
     (case queueInterrupt s of
        None \<Rightarrow> (RunReturned err, s)
      | Some c0 \<Rightarrow>
        (let c = c0\<lparr>qi_armed := False\<rparr>; s1 = s\<lparr>queueInterrupt := Some c\<rparr> in
         case qi_pending c of
           None \<Rightarrow>
             (let unread = (case qi_input c of None \<Rightarrow> False
                  | Some r \<Rightarrow> rc_batch (receipts s ! r) \<and> \<not> rc_read (receipts s ! r))
              in (if unread \<and> err = NoErr then RunUnread else RunReturned err, s1))
         | Some p \<Rightarrow>
             if qi_root_done c \<or> userCancelled s then (RunCancelled, s1)
             else if \<not> qi_cause c \<or> err = OtherErr then
               (if qi_input c = Some p \<and> err = NoErr then RunUnread else RunReturned err, s1)
             else if maxQueuedFollowUpRuns \<le> runBudget s then (RunCapped, s1)
             else (RunContinue (QueuedPromptText (rc_rows (receipts s ! p))),
                   s1\<lparr>runBudget := Suc (runBudget s),
                      queueInterrupt := Some (c\<lparr>qi_input := Some p\<rparr>)\<rparr>)))"

definition finishQueuedInterrupt :: "qstate \<Rightarrow> qstate" where
  "finishQueuedInterrupt s =
     (case queueInterrupt s of
        None \<Rightarrow> s
      | Some c \<Rightarrow>
        (case qi_pending c of
           None \<Rightarrow> s\<lparr>queueInterrupt := None\<rparr>
         | Some r \<Rightarrow>
             let x = receipts s ! r in
             if rc_read x then s\<lparr>queueInterrupt := None\<rparr>
             else notifyQueue (bumpQueueLocked
               (s\<lparr>queue := rc_rows x @ queue s,
                  queueRetained := queueRetained s \<union> set (map qm_ID (rc_rows x)),
                  queueInterrupt := None\<rparr>))))"

section \<open>The manager's calls\<close>

definition TakeBackQueuedTurnMessage ::
  "bytes \<Rightarrow> qstate \<Rightarrow> (queue_error + queued_message) \<times> qstate" where
  "TakeBackQueuedTurnMessage mid s =
     (case TakeBackQueuedMessage mid s of
        (None, s1) \<Rightarrow> (Inl ErrQueuedMessageNotFound, s1)
      | (Some t, s1) \<Rightarrow> (Inr t, if queueOpen s1 then s1 else PublishMessageQueue s1))"

text \<open>\<open>is_goal\<close> stands for \<^verbatim>\<open>ParseGoalCommand(text).Kind != GoalCommandNone\<close>.\<close>

definition SetQueuedTurnMessageMode ::
  "(bytes \<Rightarrow> bool) \<Rightarrow> bytes \<Rightarrow> queue_mode \<Rightarrow> qstate \<Rightarrow> (queue_error + unit) \<times> qstate" where
  "SetQueuedTurnMessageMode is_goal mid mode s =
     (if \<not> ValidQueueMode mode then (Inl (ErrInvalidMode mode), s)
      else if mode = QueueModeSteer \<and> list_ex (\<lambda>q. qm_ID q = mid \<and> is_goal (qm_Text q)) (queue s)
        then (Inl ErrGoalCommandAfterTurn, s)
      else (case SetQueuedMessageMode mid mode s of
              (False, s1) \<Rightarrow> (Inl ErrQueuedMessageNotFound, s1)
            | (True, s1) \<Rightarrow> (Inr (), if queueOpen s1 then s1 else PublishMessageQueue s1)))"

definition ClearQueuedTurnMessages :: "qstate \<Rightarrow> queued_message list \<times> qstate" where
  "ClearQueuedTurnMessages s =
     (let (dropped, s1) = ClearQueuedMessages s
      in (dropped, if queueOpen s1 then s1 else PublishMessageQueue s1))"

text \<open>
  \<open>runs_agent\<close> stands for \<^verbatim>\<open>turnRunsAnAgent\<close>: the session's model is served by a local agent,
  whose prompt is the whole turn.
\<close>

definition steerAgentTurn :: "bool \<Rightarrow> queue_mode \<Rightarrow> qstate \<Rightarrow> qstate" where
  "steerAgentTurn runs_agent mode s =
     (if mode \<noteq> QueueModeSteer \<or> \<not> runs_agent then s
      else if list_ex (\<lambda>q. qm_Mode q = QueueModeAfterTurn) (queue s) then s
      else snd (TryInterruptQueuedTurn s))"

definition EnqueueTurnMessageWithMode ::
  "(bytes \<Rightarrow> bool) \<Rightarrow> bool \<Rightarrow> bytes \<Rightarrow> queue_mode \<Rightarrow> image_part_ref list \<Rightarrow> bytes \<Rightarrow> qstate
   \<Rightarrow> (queue_error + queued_message) \<times> qstate" where
  "EnqueueTurnMessageWithMode is_goal runs_agent text mode parts now s =
     (let mode = (if is_goal text then QueueModeAfterTurn else mode) in
      case EnqueueMessageWithMode text mode parts now s of
        (Inl e, s1) \<Rightarrow> (Inl e, s1)
      | (Inr msg, s1) \<Rightarrow> (Inr msg, steerAgentTurn runs_agent mode s1))"

section \<open>The console widget that shows a queue\<close>

text \<open>\<^verbatim>\<open>queueWidget\<close>: the rows on screen and the highest version rendered.\<close>

type_synonym ('r, 'v) queue_widget = "'r \<times> 'v"

definition queueWidget_Apply ::
  "'r \<times> 'v::linorder \<Rightarrow> ('r, 'v) queue_widget \<Rightarrow> ('r, 'v) queue_widget" where
  "queueWidget_Apply f w =
     (let (rows, version) = f in if version < snd w then w else (rows, version))"

definition queueWidget_Reset :: "'r \<Rightarrow> ('r, 64 word) queue_widget" where
  "queueWidget_Reset nil = (nil, 0)"

end
