(* ===== verification/TurnQueue_Correct.thy ===== *)
theory TurnQueue_Correct
  imports TurnQueue
begin

text \<open>
  What the queue of a turn promises.  An event is one call of the queue under its lock; a run
  is any sequence of events.  The first part is about the versions that let a client drop a
  stale frame, the second about the messages: none is lost, none is answered twice.
\<close>

section \<open>Runs\<close>

datatype qevent =
    EvTurnStart
  | EvTurnFinish
  | EvEnqueue bytes queue_mode "image_part_ref list" bytes
  | EvTakeBack bytes
  | EvSetMode bytes queue_mode
  | EvClear
  | EvTake
  | EvBoundary
  | EvReturn "queued_message list"
  | EvReceipt "queued_message list" bool
  | EvClaim "nat option"
  | EvBeginRead bool "nat option"
  | EvInterrupt
  | EvRunStart "nat option" bool
  | EvRunArm
  | EvRunSettle run_err
  | EvRunFinish
  | EvRootDone
  | EvUserCancel
  | EvOtherSession

text \<open>
  The calls of the turn's own goroutine happen while the turn runs, which is when its
  notifier is installed; one turn is admitted at a time, so a run starts when no other run
  is registered; a receipt named by an event exists.  \<open>EvOtherSession\<close> is another session using the
  two process-wide counters.
\<close>

definition valid_ref :: "nat option \<Rightarrow> qstate \<Rightarrow> bool" where
  "valid_ref ro s \<longleftrightarrow> (case ro of None \<Rightarrow> True | Some r \<Rightarrow> r < length (receipts s))"

fun qstep :: "(bytes \<Rightarrow> bool) \<Rightarrow> bool \<Rightarrow> qevent \<Rightarrow> qstate \<Rightarrow> qstate" where
  "qstep G A EvTurnStart s = OpenMessageQueue (SetQueueNotifier True s)"
| "qstep G A EvTurnFinish s =
     (if notifier s then SetQueueNotifier False (snd (CloseMessageQueue s)) else s)"
| "qstep G A (EvEnqueue body m ps now) s = snd (EnqueueTurnMessageWithMode G A body m ps now s)"
| "qstep G A (EvTakeBack mid) s = snd (TakeBackQueuedTurnMessage mid s)"
| "qstep G A (EvSetMode mid m) s = snd (SetQueuedTurnMessageMode G mid m s)"
| "qstep G A EvClear s = snd (ClearQueuedTurnMessages s)"
| "qstep G A EvTake s = (if notifier s then snd (TakeQueuedMessages s) else s)"
| "qstep G A EvBoundary s = (if notifier s then snd (TakeQueuedMessagesOrClose s) else s)"
| "qstep G A (EvReturn rows) s = (if notifier s then ReturnQueuedMessages rows s else s)"
| "qstep G A (EvReceipt rows b) s = snd (withQueuedPromptReceipt rows b s)"
| "qstep G A (EvClaim ro) s = (if valid_ref ro s then snd (TakeQueuedPromptBatch ro s) else s)"
| "qstep G A (EvBeginRead ce ro) s =
     (if valid_ref ro s then snd (BeginQueuedPromptRead ce ro s) else s)"
| "qstep G A EvInterrupt s = snd (TryInterruptQueuedTurn s)"
| "qstep G A (EvRunStart input d) s =
     (if queueInterrupt s = None \<and> valid_ref input s then startRun input d s else s)"
| "qstep G A EvRunArm s = snd (armRun s)"
| "qstep G A (EvRunSettle e) s = snd (settleRun e s)"
| "qstep G A EvRunFinish s = (if notifier s then finishQueuedInterrupt s else s)"
| "qstep G A EvRootDone s =
     s\<lparr>queueInterrupt := map_option (\<lambda>c. c\<lparr>qi_root_done := True\<rparr>) (queueInterrupt s)\<rparr>"
| "qstep G A EvUserCancel s = s\<lparr>userCancelled := True\<rparr>"
| "qstep G A EvOtherSession s =
     s\<lparr>queueVersionSeq := queueVersionSeq s + 1, queuedMessageSeq := queuedMessageSeq s + 1\<rparr>"

definition qrun :: "(bytes \<Rightarrow> bool) \<Rightarrow> bool \<Rightarrow> qevent list \<Rightarrow> qstate \<Rightarrow> qstate" where
  "qrun G A es s = fold (qstep G A) es s"

lemma qrun_Nil [simp]: "qrun G A [] s = s"
  by (simp add: qrun_def)

lemma qrun_snoc: "qrun G A (es @ [e]) s = qstep G A e (qrun G A es s)"
  by (simp add: qrun_def)

lemmas qop_defs =
  OpenMessageQueue_def CloseMessageQueue_def EnqueueMessageWithMode_def
  TakeBackQueuedMessage_def SetQueuedMessageMode_def ClearQueuedMessages_def
  TakeQueuedMessages_def TakeQueuedMessagesOrClose_def ReturnQueuedMessages_def
  withQueuedPromptReceipt_def TakeQueuedPromptBatch_def BeginQueuedPromptRead_def
  TryInterruptQueuedTurn_def startRun_def armRun_def settleRun_def finishQueuedInterrupt_def
  TakeBackQueuedTurnMessage_def SetQueuedTurnMessageMode_def ClearQueuedTurnMessages_def
  steerAgentTurn_def EnqueueTurnMessageWithMode_def SetQueueNotifier_def set_receipt_def

text \<open>What a version bump and a notification leave alone.\<close>

lemma bump_fields [simp]:
  "queue (bumpQueueLocked s) = queue s" "queueOpen (bumpQueueLocked s) = queueOpen s"
  "queueRetained (bumpQueueLocked s) = queueRetained s"
  "queueInterrupt (bumpQueueLocked s) = queueInterrupt s"
  "notifier (bumpQueueLocked s) = notifier s" "userCancelled (bumpQueueLocked s) = userCancelled s"
  "runBudget (bumpQueueLocked s) = runBudget s" "receipts (bumpQueueLocked s) = receipts s"
  "queuedMessageSeq (bumpQueueLocked s) = queuedMessageSeq s"
  "queueVersionSeq (bumpQueueLocked s) = queueVersionSeq s + 1"
  "queueVersion (bumpQueueLocked s) = queueVersionSeq s + 1"
  "published (bumpQueueLocked s) = published s"
  by (simp_all add: bumpQueueLocked_def Let_def)

lemma publish_fields [simp]:
  "queue (PublishMessageQueue s) = queue s" "queueOpen (PublishMessageQueue s) = queueOpen s"
  "queueRetained (PublishMessageQueue s) = queueRetained s"
  "queueInterrupt (PublishMessageQueue s) = queueInterrupt s"
  "notifier (PublishMessageQueue s) = notifier s"
  "userCancelled (PublishMessageQueue s) = userCancelled s"
  "runBudget (PublishMessageQueue s) = runBudget s" "receipts (PublishMessageQueue s) = receipts s"
  "queuedMessageSeq (PublishMessageQueue s) = queuedMessageSeq s"
  "queueVersionSeq (PublishMessageQueue s) = queueVersionSeq s"
  "queueVersion (PublishMessageQueue s) = queueVersion s"
  by (simp_all add: PublishMessageQueue_def)

lemma notify_fields [simp]:
  "queue (notifyQueue s) = queue s" "queueOpen (notifyQueue s) = queueOpen s"
  "queueRetained (notifyQueue s) = queueRetained s"
  "queueInterrupt (notifyQueue s) = queueInterrupt s"
  "notifier (notifyQueue s) = notifier s" "userCancelled (notifyQueue s) = userCancelled s"
  "runBudget (notifyQueue s) = runBudget s" "receipts (notifyQueue s) = receipts s"
  "queuedMessageSeq (notifyQueue s) = queuedMessageSeq s"
  "queueVersionSeq (notifyQueue s) = queueVersionSeq s"
  "queueVersion (notifyQueue s) = queueVersion s"
  by (simp_all add: notifyQueue_def)

section \<open>The version names the content\<close>

text \<open>
  The interface between a publisher of whole snapshots and a client that may see the frames
  late, twice and in any order: a version names one content, and the frame with the highest
  version holds the current content.
\<close>

locale versioned_frames =
  fixes frames :: "'s \<Rightarrow> ('c \<times> 'v::linorder) list"
    and content :: "'s \<Rightarrow> 'c"
    and ok :: "'s \<Rightarrow> bool"
    and start :: 'c
    and bottom :: 'v
  assumes functional: "ok s \<Longrightarrow> (q, v) \<in> set (frames s) \<Longrightarrow> (q', v) \<in> set (frames s) \<Longrightarrow> q = q'"
    and newest: "ok s \<Longrightarrow> frames s \<noteq> [] \<Longrightarrow>
      \<exists>v. (content s, v) \<in> set (frames s) \<and> (\<forall>(q', v') \<in> set (frames s). v' \<le> v)"
    and untouched: "ok s \<Longrightarrow> frames s = [] \<Longrightarrow> content s = start"
    and bottom: "bottom \<le> v"
begin

lemma fold_Apply:
  "fold queueWidget_Apply xs w \<in> insert w (set xs) \<and>
   snd w \<le> snd (fold queueWidget_Apply xs w) \<and> (\<forall>f \<in> set xs. snd f \<le> snd (fold queueWidget_Apply xs w))"
proof (induction xs arbitrary: w)
  case (Cons x xs)
  let ?w = "queueWidget_Apply x w"
  have w: "?w \<in> {x, w}" "snd w \<le> snd ?w" "snd x \<le> snd ?w"
    by (auto simp: queueWidget_Apply_def Let_def split: prod.splits)
  have "fold queueWidget_Apply xs ?w \<in> insert ?w (set xs)" "snd ?w \<le> snd (fold queueWidget_Apply xs ?w)"
    "\<forall>f \<in> set xs. snd f \<le> snd (fold queueWidget_Apply xs ?w)"
    using Cons.IH [of ?w] by auto
  with w show ?case by (auto intro: order.trans)
qed simp

lemma converges:
  assumes ok: "ok s" and xs: "set xs = set (frames s)"
  shows "fst (fold queueWidget_Apply xs (start, bottom)) = content s"
proof (cases "frames s = []")
  case True
  with xs ok show ?thesis by (simp add: untouched)
next
  case False
  let ?w = "fold queueWidget_Apply xs (start, bottom)"
  obtain v where v: "(content s, v) \<in> set (frames s)" "\<forall>(q', v') \<in> set (frames s). v' \<le> v"
    using newest [OF ok False] by blast
  obtain x ys where cons: "xs = x # ys" using xs False by (cases xs) auto
  have first: "queueWidget_Apply x (start, bottom) = x"
    using bottom [of "snd x"] by (auto simp: queueWidget_Apply_def Let_def split: prod.splits)
  have "?w \<in> insert x (set ys)"
    using fold_Apply [of ys x] by (simp add: cons first)
  then have mem: "?w \<in> set (frames s)" using xs cons by auto
  have "v \<le> snd ?w"
    using fold_Apply [of xs "(start, bottom)"] v(1) xs by fastforce
  moreover have "snd ?w \<le> v" using mem v(2) by (metis case_prodD prod.collapse)
  ultimately have "snd ?w = v" by simp
  with mem have "(fst ?w, v) \<in> set (frames s)" by (metis prod.collapse)
  with v(1) show ?thesis by (rule functional [OF ok, symmetric])
qed

end

definition frames_ok :: "('c \<times> 'v::linorder) list \<Rightarrow> 'c \<Rightarrow> 'v \<Rightarrow> 'c \<Rightarrow> bool" where
  "frames_ok fs q v q0 \<longleftrightarrow>
     (\<forall>f \<in> set fs. snd f \<le> v \<and> (snd f = v \<longrightarrow> fst f = q)) \<and>
     (\<forall>f \<in> set fs. \<forall>g \<in> set fs. snd f = snd g \<longrightarrow> fst f = fst g) \<and>
     (fs = [] \<longrightarrow> q = q0) \<and>
     (fs \<noteq> [] \<longrightarrow> fst (last fs) = q \<and> (\<forall>f \<in> set fs. snd f \<le> snd (last fs)))"

lemma frames_okI:
  assumes "\<And>f. f \<in> set fs \<Longrightarrow> snd f \<le> v" "\<And>f. f \<in> set fs \<Longrightarrow> snd f = v \<Longrightarrow> fst f = q"
    and "\<And>f g. f \<in> set fs \<Longrightarrow> g \<in> set fs \<Longrightarrow> snd f = snd g \<Longrightarrow> fst f = fst g"
    and "fs = [] \<Longrightarrow> q = q0" "fs \<noteq> [] \<Longrightarrow> fst (last fs) = q"
    and "\<And>f. f \<in> set fs \<Longrightarrow> snd f \<le> snd (last fs)"
  shows "frames_ok fs q v q0"
  unfolding frames_ok_def using assms by blast

lemma frames_okD:
  assumes "frames_ok fs q v q0"
  shows "\<And>f. f \<in> set fs \<Longrightarrow> snd f \<le> v" "\<And>f. f \<in> set fs \<Longrightarrow> snd f = v \<Longrightarrow> fst f = q"
    and "\<And>f g. f \<in> set fs \<Longrightarrow> g \<in> set fs \<Longrightarrow> snd f = snd g \<Longrightarrow> fst f = fst g"
    and "fs = [] \<Longrightarrow> q = q0" "fs \<noteq> [] \<Longrightarrow> fst (last fs) = q"
    and "\<And>f. f \<in> set fs \<Longrightarrow> snd f \<le> snd (last fs)"
proof -
  have all: "\<forall>f \<in> set fs. snd f \<le> v \<and> (snd f = v \<longrightarrow> fst f = q)"
    "\<forall>f \<in> set fs. \<forall>g \<in> set fs. snd f = snd g \<longrightarrow> fst f = fst g"
    "fs = [] \<longrightarrow> q = q0"
    "fs \<noteq> [] \<longrightarrow> fst (last fs) = q \<and> (\<forall>f \<in> set fs. snd f \<le> snd (last fs))"
    using assms unfolding frames_ok_def by blast+
  show "f \<in> set fs \<Longrightarrow> snd f \<le> v" for f using all(1) by blast
  show "f \<in> set fs \<Longrightarrow> snd f = v \<Longrightarrow> fst f = q" for f using all(1) by blast
  show "f \<in> set fs \<Longrightarrow> g \<in> set fs \<Longrightarrow> snd f = snd g \<Longrightarrow> fst f = fst g" for f g
    using all(2) by blast
  show "fs = [] \<Longrightarrow> q = q0" using all(3) by blast
  show "fs \<noteq> [] \<Longrightarrow> fst (last fs) = q" using all(4) by blast
  show "f \<in> set fs \<Longrightarrow> snd f \<le> snd (last fs)" for f using all(4) by (cases fs) auto
qed

lemma frames_ok_change:
  assumes ok: "frames_ok fs q v q0" and less: "v < v'"
  shows "frames_ok (fs @ [(q', v')]) q' v' q0"
proof -
  have "snd f < v'" if "f \<in> set fs" for f
    using frames_okD(1) [OF ok that] less by (rule order.strict_trans1)
  then have lt: "f \<in> set fs \<Longrightarrow> snd f < v'" for f .
  show ?thesis
  proof (rule frames_okI)
    fix f g
    assume "f \<in> set (fs @ [(q', v')])" "g \<in> set (fs @ [(q', v')])" "snd f = snd g"
    then show "fst f = fst g" using lt frames_okD(3) [OF ok, of f g] by (auto dest: lt)
  qed (auto dest: lt)
qed

lemma frames_ok_bump:
  assumes ok: "frames_ok fs q v q0" and less: "v < v'"
  shows "frames_ok fs q v' q0"
proof -
  have lt: "f \<in> set fs \<Longrightarrow> snd f < v'" for f
    using frames_okD(1) [OF ok] less order.strict_trans1 by blast
  show ?thesis
  proof (rule frames_okI)
    fix f assume f: "f \<in> set fs"
    show "snd f \<le> v'" using lt [OF f] by (rule less_imp_le)
    show "snd f = v' \<Longrightarrow> fst f = q" using lt [OF f] by simp
  qed (fact frames_okD [OF ok])+
qed

lemma frames_ok_repeat:
  assumes ok: "frames_ok fs q v q0"
  shows "frames_ok (fs @ [(q, v)]) q v q0"
proof (rule frames_okI)
  fix f g
  assume "f \<in> set (fs @ [(q, v)])" "g \<in> set (fs @ [(q, v)])" "snd f = snd g"
  then show "fst f = fst g"
    using frames_okD(2,3) [OF ok] by (metis UnE empty_iff empty_set fst_conv list.set_intros(1) set_ConsD set_append snd_conv)
qed (use frames_okD(1,2) [OF ok] in auto)

lemma frames_ok_newest:
  assumes ok: "frames_ok fs q v q0" and "fs \<noteq> []"
  shows "\<exists>u. (q, u) \<in> set fs \<and> (\<forall>(q', v') \<in> set fs. v' \<le> u)"
proof (intro exI conjI)
  show "(q, snd (last fs)) \<in> set fs"
    using frames_okD(5) [OF ok] \<open>fs \<noteq> []\<close> by (metis last_in_set prod.collapse)
  show "\<forall>(q', v') \<in> set fs. v' \<le> snd (last fs)"
    using frames_okD(6) [OF ok] by fastforce
qed

definition version_inv :: "qstate \<Rightarrow> bool" where
  "version_inv s \<longleftrightarrow>
     queueVersion s \<le> queueVersionSeq s \<and>
     frames_ok (published s) (queue s) (queueVersion s) [] \<and>
     (queueOpen s \<longrightarrow> notifier s)"

definition room :: "qstate \<Rightarrow> bool" where
  "room s \<longleftrightarrow> unat (queueVersionSeq s) + 2 < 2 ^ 64"

lemma unat_Suc64: "unat (w :: 64 word) + 1 < 2 ^ 64 \<Longrightarrow> unat (w + 1) = unat w + 1"
  by (simp add: unat_word_ariths)

lemma word_less_Suc: "unat (w :: 64 word) + 1 < 2 ^ 64 \<Longrightarrow> w < w + 1"
  by (simp add: word_less_nat_alt unat_Suc64)

text \<open>The three shapes every operation has: a changed queue under a new version, published by
  the notifier or by the manager; a new version for the same queue; a repeated frame.\<close>

lemma version_inv_change:
  assumes "version_inv s" "unat (queueVersionSeq s) + 1 < 2 ^ 64"
    and "published t = published s" "queueVersionSeq t = queueVersionSeq s" "notifier t"
  shows "version_inv (notifyQueue (bumpQueueLocked t))"
proof -
  have "queueVersion s < queueVersionSeq s + 1"
    using assms(1) word_less_Suc [OF assms(2)] by (auto simp: version_inv_def)
  then show ?thesis
    using assms
    by (simp add: version_inv_def notifyQueue_def bumpQueueLocked_def PublishMessageQueue_def
        QueueSnapshot_def Let_def frames_ok_change [of "published s" "queue s" "queueVersion s"])
qed

lemma version_inv_bump:
  assumes "version_inv s" "unat (queueVersionSeq s) + 1 < 2 ^ 64"
    and "published t = published s" "queueVersionSeq t = queueVersionSeq s"
    and "queue t = queue s" "queueOpen t \<longrightarrow> notifier t"
  shows "version_inv (bumpQueueLocked t)"
proof -
  have "queueVersion s < queueVersionSeq s + 1"
    using assms(1) word_less_Suc [OF assms(2)] by (auto simp: version_inv_def)
  then show ?thesis
    using assms by (simp add: version_inv_def bumpQueueLocked_def Let_def
        frames_ok_bump [of "published s" "queue s" "queueVersion s"])
qed

lemma version_inv_publish: "version_inv s \<Longrightarrow> version_inv (PublishMessageQueue s)"
  by (simp add: version_inv_def PublishMessageQueue_def QueueSnapshot_def frames_ok_repeat)

lemma version_inv_change_publish:
  assumes "version_inv s" "unat (queueVersionSeq s) + 1 < 2 ^ 64"
    and "published t = published s" "queueVersionSeq t = queueVersionSeq s"
    and "queueOpen t \<longrightarrow> notifier t"
  shows "version_inv (PublishMessageQueue (notifyQueue (bumpQueueLocked t)))"
proof (cases "notifier t")
  case True
  with assms show ?thesis by (intro version_inv_publish version_inv_change [of s]) auto
next
  case False
  then have "PublishMessageQueue (notifyQueue (bumpQueueLocked t))
    = (notifyQueue (bumpQueueLocked (t\<lparr>notifier := True\<rparr>)))\<lparr>notifier := False\<rparr>"
    by (simp add: PublishMessageQueue_def notifyQueue_def bumpQueueLocked_def QueueSnapshot_def Let_def)
  moreover have "version_inv (notifyQueue (bumpQueueLocked (t\<lparr>notifier := True\<rparr>)))"
    using assms by (intro version_inv_change [of s]) auto
  moreover have "\<not> queueOpen t" using False assms by simp
  ultimately show ?thesis
    by (simp add: version_inv_def notifyQueue_def bumpQueueLocked_def PublishMessageQueue_def Let_def)
qed

lemma version_inv_frame:
  assumes "version_inv s" "published t = published s" "queue t = queue s"
    and "queueVersion t = queueVersion s" "queueVersionSeq t = queueVersionSeq s"
    and "queueOpen t \<longrightarrow> notifier t"
  shows "version_inv t"
  using assms by (simp add: version_inv_def)

definition one_room :: "qstate \<Rightarrow> bool" where
  "one_room s \<longleftrightarrow> unat (queueVersionSeq s) + 1 < 2 ^ 64"

lemma version_inv_open: "version_inv s \<Longrightarrow> queueOpen s \<Longrightarrow> notifier s"
  by (simp add: version_inv_def)

lemma Open_version_inv:
  assumes "version_inv s" "one_room s"
  shows "version_inv (OpenMessageQueue (SetQueueNotifier True s))"
  unfolding OpenMessageQueue_def Let_def
  by (rule version_inv_change [OF assms(1) assms(2) [unfolded one_room_def]])
    (simp_all add: SetQueueNotifier_def)

lemma Close_version_inv:
  assumes "version_inv s" "one_room s" "notifier s"
  shows "version_inv (snd (CloseMessageQueue s))"
proof (cases "queueOpen s \<or> filter (\<lambda>q. \<not> stays s q) (queue s) \<noteq> []")
  case True
  then show ?thesis
    unfolding CloseMessageQueue_def Let_def snd_conv if_P [OF True]
    by (intro version_inv_change [OF assms(1) assms(2) [unfolded one_room_def]])
      (simp_all add: assms(3))
next
  case False
  then have "filter (stays s) (queue s) = queue s" by (auto simp: filter_empty_conv)
  with False show ?thesis
    unfolding CloseMessageQueue_def Let_def snd_conv if_not_P [OF False]
    by (intro version_inv_frame [OF assms(1)]) simp_all
qed

lemma Enqueue_version_inv:
  assumes "version_inv s" "one_room s"
  shows "version_inv (snd (EnqueueMessageWithMode body m ps now s))"
  unfolding EnqueueMessageWithMode_def Let_def
  using assms(1) version_inv_open [OF assms(1)]
  by (auto intro!: version_inv_change [OF assms(1) assms(2) [unfolded one_room_def]])

lemma Interrupt_version_inv:
  assumes "version_inv s" "one_room s"
  shows "version_inv (snd (TryInterruptQueuedTurn s))"
  unfolding TryInterruptQueuedTurn_def Let_def withQueuedPromptReceipt_def
  using assms(1) version_inv_open [OF assms(1)]
  by (auto simp: set_receipt_def split: option.splits
      intro!: version_inv_change [OF assms(1) assms(2) [unfolded one_room_def]])

lemma EnqueueMessage_seq:
  "queueVersionSeq (snd (EnqueueMessageWithMode body m ps now s)) \<in>
     {queueVersionSeq s, queueVersionSeq s + 1}"
  by (auto simp: EnqueueMessageWithMode_def Let_def notifyQueue_def PublishMessageQueue_def
      bumpQueueLocked_def)

lemma Interrupt_seq:
  "queueVersionSeq (snd (TryInterruptQueuedTurn s)) \<in> {queueVersionSeq s, queueVersionSeq s + 1}"
  by (auto simp: TryInterruptQueuedTurn_def Let_def notifyQueue_def PublishMessageQueue_def
      bumpQueueLocked_def withQueuedPromptReceipt_def set_receipt_def split: option.splits)

lemma one_room_after: "room s \<Longrightarrow> queueVersionSeq t \<in> {queueVersionSeq s, queueVersionSeq s + 1} \<Longrightarrow> one_room t"
  by (auto simp: room_def one_room_def unat_Suc64)

lemma steer_version_inv:
  "version_inv t \<Longrightarrow> one_room t \<Longrightarrow> version_inv (steerAgentTurn A m t)"
  by (simp add: steerAgentTurn_def Interrupt_version_inv)

lemma EnqueueTurn_version_inv:
  assumes "version_inv s" "room s"
  shows "version_inv (snd (EnqueueTurnMessageWithMode G A body m ps now s))"
proof -
  define m' where "m' = (if G body then QueueModeAfterTurn else m)"
  let ?t = "snd (EnqueueMessageWithMode body m' ps now s)"
  have one: "one_room s" using assms(2) by (rule one_room_after) simp
  have t: "version_inv ?t" using assms(1) one by (rule Enqueue_version_inv)
  have "one_room ?t" using assms(2) EnqueueMessage_seq by (rule one_room_after)
  with t have "version_inv (steerAgentTurn A m' ?t)" by (rule steer_version_inv)
  then show ?thesis
    using t unfolding EnqueueTurnMessageWithMode_def m'_def [symmetric] Let_def
    by (auto split: prod.splits sum.splits)
qed

lemma TakeBack_version_inv:
  assumes "version_inv s" "one_room s"
  shows "version_inv (snd (TakeBackQueuedTurnMessage mid s))"
  unfolding TakeBackQueuedTurnMessage_def TakeBackQueuedMessage_def Let_def
  using assms(1) version_inv_open [OF assms(1)] assms(2) [unfolded one_room_def]
  by (auto split: option.splits prod.splits
      intro!: version_inv_change_publish [OF assms(1)] version_inv_change [OF assms(1)])

lemma SetMode_version_inv:
  assumes "version_inv s" "one_room s"
  shows "version_inv (snd (SetQueuedTurnMessageMode G mid m s))"
  unfolding SetQueuedTurnMessageMode_def SetQueuedMessageMode_def Let_def
  using assms(1) version_inv_open [OF assms(1)] assms(2) [unfolded one_room_def]
  by (auto split: option.splits prod.splits bool.splits
      intro!: version_inv_change_publish [OF assms(1)] version_inv_change [OF assms(1)])

lemma Clear_version_inv:
  assumes "version_inv s" "one_room s"
  shows "version_inv (snd (ClearQueuedTurnMessages s))"
proof (cases "queue s = []")
  case True
  have "version_inv (bumpQueueLocked (s\<lparr>queue := []\<rparr>))"
    using assms version_inv_open [OF assms(1)] True
    by (intro version_inv_bump [OF assms(1)]) (simp_all add: one_room_def)
  with True show ?thesis
    by (simp add: ClearQueuedTurnMessages_def ClearQueuedMessages_def Let_def version_inv_publish)
next
  case False
  then show ?thesis
    unfolding ClearQueuedTurnMessages_def ClearQueuedMessages_def Let_def
    using assms(1) version_inv_open [OF assms(1)] assms(2) [unfolded one_room_def]
    by (auto intro!: version_inv_change_publish [OF assms(1)] version_inv_change [OF assms(1)])
qed

lemma takeSteer_empty: "takeSteer q = [] \<Longrightarrow> keepAfterTurn q = q"
  by (auto simp: takeSteer_def keepAfterTurn_def filter_empty_conv filter_id_conv)

lemma Take_version_inv:
  assumes "version_inv s" "one_room s" "notifier s"
  shows "version_inv (snd (TakeQueuedMessages s))"
  unfolding TakeQueuedMessages_def Let_def
  using assms(1) assms(2) [unfolded one_room_def] assms(3)
  by (auto intro!: version_inv_change [OF assms(1)] version_inv_bump [OF assms(1)]
      dest: takeSteer_empty)

lemma Boundary_version_inv:
  assumes "version_inv s" "one_room s" "notifier s"
  shows "version_inv (snd (TakeQueuedMessagesOrClose s))"
  unfolding TakeQueuedMessagesOrClose_def Let_def
  using assms(1) assms(2) [unfolded one_room_def] assms(3)
  by (auto split: list.splits
      intro!: version_inv_change [OF assms(1)] version_inv_bump [OF assms(1)])

lemma Finish_version_inv:
  assumes "version_inv s" "one_room s" "notifier s"
  shows "version_inv (finishQueuedInterrupt s)"
  unfolding finishQueuedInterrupt_def Let_def
  using assms(1) assms(2) [unfolded one_room_def] assms(3)
  by (auto split: option.splits
      intro!: version_inv_change [OF assms(1)] version_inv_frame [OF assms(1)])

lemma qstep_version_inv:
  assumes inv: "version_inv s" and room: "room s"
  shows "version_inv (qstep G A e s)"
proof -
  have one: "one_room s" using room by (rule one_room_after) simp
  note vi = inv one
  show ?thesis
  proof (cases e)
    case EvTurnStart
    then show ?thesis using Open_version_inv [OF vi] by simp
  next
    case EvTurnFinish
    have "\<not> queueOpen (snd (CloseMessageQueue s))"
      by (simp add: CloseMessageQueue_def Let_def)
    with EvTurnFinish show ?thesis
      using inv by (auto simp: SetQueueNotifier_def intro!: version_inv_frame [OF Close_version_inv [OF vi]])
  next
    case EvEnqueue
    then show ?thesis using EnqueueTurn_version_inv [OF inv room] by simp
  next
    case EvTakeBack
    then show ?thesis using TakeBack_version_inv [OF vi] by simp
  next
    case EvSetMode
    then show ?thesis using SetMode_version_inv [OF vi] by simp
  next
    case EvClear
    then show ?thesis using Clear_version_inv [OF vi] by simp
  next
    case EvTake
    then show ?thesis using inv Take_version_inv [OF vi] by simp
  next
    case EvBoundary
    then show ?thesis using inv Boundary_version_inv [OF vi] by simp
  next
    case (EvReturn rows)
    then show ?thesis
      using inv one by (auto simp: ReturnQueuedMessages_def one_room_def
          intro!: version_inv_change [OF inv])
  next
    case EvInterrupt
    then show ?thesis using Interrupt_version_inv [OF vi] by simp
  next
    case EvRunFinish
    then show ?thesis using inv Finish_version_inv [OF vi] by simp
  next
    case EvOtherSession
    have "queueVersion s \<le> queueVersionSeq s + 1"
      using inv word_less_Suc [of "queueVersionSeq s"] one
      by (auto simp: version_inv_def one_room_def)
    with EvOtherSession inv show ?thesis by (simp add: version_inv_def)
  qed (use inv in \<open>auto simp: withQueuedPromptReceipt_def TakeQueuedPromptBatch_def Let_def
      BeginQueuedPromptRead_def startRun_def armRun_def settleRun_def set_receipt_def
      split: option.splits intro!: version_inv_frame [OF inv] dest: version_inv_open\<close>)
qed

lemma qstep_seq:
  assumes "room s"
  shows "unat (queueVersionSeq (qstep G A e s)) \<le> unat (queueVersionSeq s) + 2"
proof -
  have two: "unat (queueVersionSeq s + 1) = unat (queueVersionSeq s) + 1"
    "unat (queueVersionSeq s + 1 + 1) = unat (queueVersionSeq s) + 2"
    using assms unat_Suc64 [of "queueVersionSeq s"] unat_Suc64 [of "queueVersionSeq s + 1"]
    by (simp_all add: room_def)
  have "queueVersionSeq (qstep G A e s) \<in>
      {queueVersionSeq s, queueVersionSeq s + 1, queueVersionSeq s + 1 + 1}"
    by (cases e) (auto simp: qop_defs Let_def split: option.splits prod.splits list.splits)
  with two show ?thesis by auto
qed

lemma qrun_seq:
  "2 * length es < 2 ^ 64 - 2 \<Longrightarrow>
   unat (queueVersionSeq (qrun G A es init_qstate)) \<le> 2 * length es"
proof (induction es rule: rev_induct)
  case (snoc e es)
  let ?t = "qrun G A es init_qstate"
  have le: "unat (queueVersionSeq ?t) \<le> 2 * length es" using snoc by simp
  with snoc.prems have "room ?t" by (simp add: room_def)
  then have "unat (queueVersionSeq (qstep G A e ?t)) \<le> unat (queueVersionSeq ?t) + 2"
    by (rule qstep_seq)
  with le show ?case by (simp add: qrun_snoc)
qed (simp add: init_qstate_def)

lemma qrun_version_inv:
  "2 * length es < 2 ^ 64 - 2 \<Longrightarrow> version_inv (qrun G A es init_qstate)"
proof (induction es rule: rev_induct)
  case Nil
  show ?case by (simp add: init_qstate_def version_inv_def frames_ok_def)
next
  case (snoc e es)
  let ?t = "qrun G A es init_qstate"
  have "unat (queueVersionSeq ?t) \<le> 2 * length es" using snoc.prems by (intro qrun_seq) simp
  with snoc.prems have "room ?t" by (simp add: room_def)
  with snoc show ?case by (simp add: qrun_snoc qstep_version_inv)
qed

interpretation queue_frames: versioned_frames published queue version_inv "[]" "0 :: 64 word"
proof unfold_locales
  fix s q q' and v :: "64 word"
  assume inv: "version_inv s" and "(q, v) \<in> set (published s)" "(q', v) \<in> set (published s)"
  then show "q = q'"
    using frames_okD(3) [of "published s" "queue s" "queueVersion s" "[]" "(q, v)" "(q', v)"]
    by (simp add: version_inv_def)
next
  fix s
  assume "version_inv s" "published s \<noteq> []"
  then show "\<exists>v. (queue s, v) \<in> set (published s) \<and> (\<forall>(q', v') \<in> set (published s). v' \<le> v)"
    by (auto simp: version_inv_def dest: frames_ok_newest)
next
  fix s
  assume "version_inv s" "published s = []"
  then show "queue s = []"
    by (simp add: version_inv_def frames_ok_def)
qed simp

text \<open>
  C40: A client that receives every frame a session published, in any order and any number of
  times each, and drops the ones older than what it shows, ends up showing exactly the queue
  as it stands.  The bound keeps the 64-bit version counter from wrapping.
\<close>

theorem queue_client_converges:
  assumes "length es < 2 ^ 62"
    and "set xs = set (published (qrun G A es init_qstate))"
  shows "fst (fold queueWidget_Apply xs (queueWidget_Reset [])) = queue (qrun G A es init_qstate)"
  unfolding queueWidget_Reset_def using assms
  by (intro queue_frames.converges qrun_version_inv) simp_all

text \<open>Two messages are queued while a turn runs; the client gets the frames newest first and twice.\<close>

definition two_messages :: "qevent list" where
  "two_messages =
     [EvTurnStart, EvEnqueue ''one'' QueueModeSteer [] ''t1'', EvEnqueue ''two'' QueueModeSteer [] ''t2'']"

lemma queue_client_converges_witness:
  "(let s = qrun (\<lambda>_. True) True two_messages init_qstate;
        xs = rev (published s) @ published s
    in length (queue s) = 2 \<and> length (published s) = 3 \<and>
       fst (fold queueWidget_Apply xs (queueWidget_Reset [])) = queue s)"
proof -
  let ?s = "qrun (\<lambda>_. True) True two_messages init_qstate"
  have "fst (fold queueWidget_Apply (rev (published ?s) @ published ?s) (queueWidget_Reset [])) = queue ?s"
    by (rule queue_client_converges) (simp_all add: two_messages_def)
  moreover have "length (queue ?s) = 2 \<and> length (published ?s) = 3"
    by code_simp
  ultimately show ?thesis by (simp add: Let_def)
qed

section \<open>No message is lost, none is answered twice\<close>

definition ids :: "queued_message list \<Rightarrow> bytes multiset" where
  "ids rows = mset (map qm_ID rows)"

text \<open>What the session holds: the queue and the batch an interrupt reserved.\<close>

definition held :: "qstate \<Rightarrow> bytes multiset" where
  "held s = ids (queue s) + ids (pending_rows s)"

definition receipt_inv :: "qstate \<Rightarrow> bool" where
  "receipt_inv s \<longleftrightarrow>
     (\<forall>x \<in> set (receipts s). \<not> (rc_read x \<and> rc_transferred x)) \<and>
     (\<forall>c. queueInterrupt s = Some c \<longrightarrow>
        (\<forall>r. qi_pending c = Some r \<longrightarrow> r < length (receipts s) \<and>
           \<not> rc_read (receipts s ! r) \<and> \<not> rc_transferred (receipts s ! r)) \<and>
        (\<forall>r. qi_input c = Some r \<longrightarrow> r < length (receipts s)))"

text \<open>The rows an interrupt takes over from a run that has not read its input yet.\<close>

definition reclaimed :: "qstate \<Rightarrow> bytes multiset" where
  "reclaimed s = (if fst (TryInterruptQueuedTurn s)
     then (case queueInterrupt s of None \<Rightarrow> {#} | Some c \<Rightarrow> ids (unread_input c s)) else {#})"

definition steered :: "bool \<Rightarrow> queue_mode \<Rightarrow> qstate \<Rightarrow> bool" where
  "steered A m s \<longleftrightarrow> m = QueueModeSteer \<and> A \<and>
     \<not> list_ex (\<lambda>q. qm_Mode q = QueueModeAfterTurn) (queue s)"

text \<open>What an event brings into the session's care and what it takes out of it.\<close>

fun qin :: "(bytes \<Rightarrow> bool) \<Rightarrow> bool \<Rightarrow> qevent \<Rightarrow> qstate \<Rightarrow> bytes multiset" where
  "qin G A (EvEnqueue body m ps now) s =
     (let m' = (if G body then QueueModeAfterTurn else m) in
      case EnqueueMessageWithMode body m' ps now s of
        (Inl _, _) \<Rightarrow> {#}
      | (Inr msg, t) \<Rightarrow> {#qm_ID msg#} + (if steered A m' t then reclaimed t else {#}))"
| "qin G A (EvReturn rows) s = (if notifier s then ids rows else {#})"
| "qin G A EvInterrupt s = reclaimed s"
| "qin G A _ s = {#}"

fun qout :: "(bytes \<Rightarrow> bool) \<Rightarrow> bool \<Rightarrow> qevent \<Rightarrow> qstate \<Rightarrow> bytes multiset" where
  "qout G A EvTurnStart s = (if queueOpen s then ids (takeSteer (queue s)) else {#})"
| "qout G A EvTurnFinish s = (if notifier s then ids (fst (CloseMessageQueue s)) else {#})"
| "qout G A (EvTakeBack mid) s =
     (case fst (TakeBackQueuedTurnMessage mid s) of Inl _ \<Rightarrow> {#} | Inr m \<Rightarrow> {#qm_ID m#})"
| "qout G A EvClear s = ids (fst (ClearQueuedTurnMessages s))"
| "qout G A EvTake s = (if notifier s then ids (fst (TakeQueuedMessages s)) else {#})"
| "qout G A EvBoundary s = (if notifier s then ids (fst (fst (TakeQueuedMessagesOrClose s))) else {#})"
| "qout G A (EvBeginRead ce ro) s =
     (if valid_ref ro s \<and> fst (BeginQueuedPromptRead ce ro s) \<and> ro \<noteq> None \<and> pending_receipt s = ro
      then ids (pending_rows s) else {#})"
| "qout G A _ s = {#}"

lemma ids_simps [simp]:
  "ids [] = {#}" "ids (x # xs) = {#qm_ID x#} + ids xs" "ids (xs @ ys) = ids xs + ids ys"
  by (simp_all add: ids_def)

lemma ids_filter: "ids (filter P xs) + ids (filter (\<lambda>x. \<not> P x) xs) = ids xs"
  by (induction xs) (auto simp: ids_def)

lemma ids_split: "ids (keepAfterTurn xs) + ids (takeSteer xs) = ids xs"
  using ids_filter [of "\<lambda>r. qm_Mode r = QueueModeAfterTurn" xs]
  by (simp add: keepAfterTurn_def takeSteer_def)

lemma ids_take_out: "take_out w xs = Some (t, rest) \<Longrightarrow> ids xs = {#qm_ID t#} + ids rest \<and> qm_ID t = w"
  by (induction xs arbitrary: rest) (auto split: if_splits)

lemma ids_set_mode_first: "set_mode_first w m xs = Some ys \<Longrightarrow> ids ys = ids xs"
  by (induction xs arbitrary: ys) (auto split: if_splits)

lemma pending_rows_simps [simp]:
  "pending_rows (bumpQueueLocked s) = pending_rows s"
  "pending_rows (notifyQueue s) = pending_rows s"
  "pending_rows (PublishMessageQueue s) = pending_rows s"
  "pending_rows (s\<lparr>queue := q\<rparr>) = pending_rows s"
  "pending_rows (s\<lparr>queueOpen := b\<rparr>) = pending_rows s"
  "pending_rows (s\<lparr>notifier := b\<rparr>) = pending_rows s"
  "pending_rows (s\<lparr>queueRetained := x\<rparr>) = pending_rows s"
  "pending_rows (s\<lparr>queuedMessageSeq := n\<rparr>) = pending_rows s"
  "pending_rows (s\<lparr>queueVersionSeq := n\<rparr>) = pending_rows s"
  "pending_rows (s\<lparr>userCancelled := b\<rparr>) = pending_rows s"
  "pending_rows (s\<lparr>runBudget := k\<rparr>) = pending_rows s"
  by (simp_all add: pending_rows_def pending_receipt_def split: option.split)

lemma held_cong: "ids (queue t) = ids (queue s) \<Longrightarrow> pending_rows t = pending_rows s \<Longrightarrow> held t = held s"
  by (simp add: held_def)

lemma Interrupt_balance:
  assumes "receipt_inv s"
  shows "held (snd (TryInterruptQueuedTurn s)) = held s + reclaimed s"
proof (cases "fst (TryInterruptQueuedTurn s)")
  case True
  then obtain c where c: "queueInterrupt s = Some c" "qi_pending c = None"
    by (auto simp: TryInterruptQueuedTurn_def split: option.splits if_splits)
  with True show ?thesis
    by (auto simp: TryInterruptQueuedTurn_def withQueuedPromptReceipt_def reclaimed_def held_def
        pending_rows_def pending_receipt_def set_receipt_def Let_def nth_append
        split: option.splits if_splits)
next
  case False
  then have "snd (TryInterruptQueuedTurn s) = s"
    by (auto simp: TryInterruptQueuedTurn_def Let_def split: option.splits if_splits prod.splits)
  with False show ?thesis by (simp add: reclaimed_def)
qed

lemma TakeBack_balance:
  "held (snd (TakeBackQueuedTurnMessage mid s)) + qout G A (EvTakeBack mid) s = held s"
  by (auto simp: TakeBackQueuedTurnMessage_def TakeBackQueuedMessage_def Let_def held_def
      split: option.splits prod.splits dest: ids_take_out)

lemma SetMode_balance: "held (snd (SetQueuedTurnMessageMode G mid m s)) = held s"
  by (auto simp: SetQueuedTurnMessageMode_def SetQueuedMessageMode_def held_def
      split: option.splits prod.splits bool.splits dest: ids_set_mode_first)

lemma Clear_balance:
  "held (snd (ClearQueuedTurnMessages s)) + ids (fst (ClearQueuedTurnMessages s)) = held s"
  by (auto simp: ClearQueuedTurnMessages_def ClearQueuedMessages_def Let_def held_def)

lemma Take_balance: "held (snd (TakeQueuedMessages s)) + ids (fst (TakeQueuedMessages s)) = held s"
  using ids_split [of "queue s"]
  by (auto simp: TakeQueuedMessages_def Let_def held_def ac_simps)

lemma Boundary_balance:
  "held (snd (TakeQueuedMessagesOrClose s)) + ids (fst (fst (TakeQueuedMessagesOrClose s))) = held s"
  using ids_split [of "queue s"]
  by (auto simp: TakeQueuedMessagesOrClose_def Let_def held_def ac_simps split: list.splits)

lemma Close_balance: "held (snd (CloseMessageQueue s)) + ids (fst (CloseMessageQueue s)) = held s"
  using ids_filter [of "stays s" "queue s"]
  by (auto simp: CloseMessageQueue_def Let_def held_def ac_simps)

lemma Open_balance:
  "held (OpenMessageQueue s) + (if queueOpen s then ids (takeSteer (queue s)) else {#}) = held s"
  using ids_split [of "queue s"]
  by (auto simp: OpenMessageQueue_def Let_def held_def ac_simps)

lemma Enqueue_balance:
  "held (snd (EnqueueMessageWithMode body m ps now s)) =
     held s + (case fst (EnqueueMessageWithMode body m ps now s) of Inl _ \<Rightarrow> {#} | Inr x \<Rightarrow> {#qm_ID x#})"
  by (auto simp: EnqueueMessageWithMode_def Let_def held_def)

lemma receipt_inv_frame:
  "receipt_inv s \<Longrightarrow> receipts t = receipts s \<Longrightarrow> queueInterrupt t = queueInterrupt s \<Longrightarrow> receipt_inv t"
  by (simp add: receipt_inv_def)

lemma Enqueue_receipt_inv:
  "receipt_inv s \<Longrightarrow> receipt_inv (snd (EnqueueMessageWithMode body m ps now s))"
  by (erule receipt_inv_frame) (auto simp: EnqueueMessageWithMode_def Let_def)

lemma EnqueueTurn_balance:
  assumes "receipt_inv s"
  shows "held (snd (EnqueueTurnMessageWithMode G A body m ps now s)) =
    held s + qin G A (EvEnqueue body m ps now) s"
proof -
  define m' where "m' = (if G body then QueueModeAfterTurn else m)"
  obtain r t where rt: "EnqueueMessageWithMode body m' ps now s = (r, t)" by fastforce
  have t: "receipt_inv t" using Enqueue_receipt_inv [OF assms, of body m' ps now] rt by simp
  have "held t = held s + (case r of Inl _ \<Rightarrow> {#} | Inr x \<Rightarrow> {#qm_ID x#})"
    using Enqueue_balance [of body m' ps now s] rt by simp
  then show ?thesis
    using Interrupt_balance [OF t]
    unfolding EnqueueTurnMessageWithMode_def qin.simps Let_def m'_def [symmetric] rt
    by (auto simp: steerAgentTurn_def steered_def split: sum.splits)
qed

lemma Finish_balance: "receipt_inv s \<Longrightarrow> held (finishQueuedInterrupt s) = held s"
  by (auto simp: finishQueuedInterrupt_def held_def pending_rows_def pending_receipt_def receipt_inv_def
      Let_def split: option.splits)

lemma BeginRead_balance:
  assumes inv: "receipt_inv s" and "valid_ref ro s"
  shows "held (snd (BeginQueuedPromptRead ce ro s)) + qout G A (EvBeginRead ce ro) s = held s"
proof (cases ro)
  case None
  then show ?thesis by (simp add: BeginQueuedPromptRead_def)
next
  case (Some r)
  then have r: "r < length (receipts s)" using assms(2) by (simp add: valid_ref_def)
  show ?thesis
  proof (cases "queueInterrupt s")
    case None
    then show ?thesis
      using Some r by (simp add: BeginQueuedPromptRead_def held_def pending_rows_def
          pending_receipt_def set_receipt_def)
  next
    case (Some c)
    show ?thesis
      using Some \<open>ro = Some r\<close> r
      by (cases "qi_pending c")
        (auto simp: BeginQueuedPromptRead_def held_def pending_rows_def pending_receipt_def
          valid_ref_def set_receipt_def clear_pending_def nth_list_update)
  qed
qed

lemma pending_valid:
  "receipt_inv s \<Longrightarrow> pending_receipt s = Some r \<Longrightarrow>
   r < length (receipts s) \<and> \<not> rc_read (receipts s ! r) \<and> \<not> rc_transferred (receipts s ! r)"
  by (cases "queueInterrupt s") (auto simp: receipt_inv_def pending_receipt_def)

lemma qstep_balance:
  assumes inv: "receipt_inv s"
  shows "held (qstep G A e s) + qout G A e s = held s + qin G A e s"
proof (cases e)
  case EvTurnStart
  then show ?thesis
    using Open_balance [of "SetQueueNotifier True s"]
    by (cases "queueOpen s") (simp_all add: SetQueueNotifier_def held_def)
next
  case EvTurnFinish
  then show ?thesis using Close_balance [of s] by (simp add: SetQueueNotifier_def held_def)
next
  case EvEnqueue
  then show ?thesis using EnqueueTurn_balance [OF inv] by (simp del: qin.simps)
next
  case EvTakeBack
  then show ?thesis using TakeBack_balance [of _ s] by simp
next
  case EvSetMode
  then show ?thesis by (simp add: SetMode_balance)
next
  case EvClear
  then show ?thesis using Clear_balance [of s] by simp
next
  case EvTake
  then show ?thesis using Take_balance [of s] by simp
next
  case EvBoundary
  then show ?thesis using Boundary_balance [of s] by simp
next
  case EvReturn
  then show ?thesis by (simp add: ReturnQueuedMessages_def held_def)
next
  case (EvBeginRead ce ro)
  then show ?thesis
    using BeginRead_balance [OF inv, of ro ce G A] by (cases "valid_ref ro s") simp_all
next
  case EvInterrupt
  then show ?thesis using Interrupt_balance [OF inv] by simp
next
  case EvRunFinish
  then show ?thesis using Finish_balance [OF inv] by simp
next
  case (EvReceipt rows b)
  then show ?thesis
    using pending_valid [OF inv]
    by (auto simp: held_def pending_rows_def withQueuedPromptReceipt_def nth_append
        pending_receipt_def split: option.splits)
next
  case EvRootDone
  then show ?thesis
    by (cases "queueInterrupt s")
      (simp_all add: held_def pending_rows_def pending_receipt_def split: option.split)
qed (auto simp: held_def pending_rows_def pending_receipt_def withQueuedPromptReceipt_def
    TakeQueuedPromptBatch_def startRun_def armRun_def settleRun_def set_receipt_def valid_ref_def
    nth_list_update nth_append Let_def split: option.splits)

lemma set_receipt_inv:
  assumes inv: "\<forall>x \<in> set xs. \<not> (rc_read x \<and> rc_transferred x)" and r: "r < length xs"
    and f: "\<not> (rc_read (f (xs ! r)) \<and> rc_transferred (f (xs ! r)))"
  shows "\<forall>x \<in> set (xs[r := f (xs ! r)]). \<not> (rc_read x \<and> rc_transferred x)"
  using assms by (auto dest!: subsetD [OF set_update_subset_insert])

lemma Interrupt_receipt_inv:
  assumes inv: "receipt_inv s"
  shows "receipt_inv (snd (TryInterruptQueuedTurn s))"
proof (cases "fst (TryInterruptQueuedTurn s)")
  case False
  then have "snd (TryInterruptQueuedTurn s) = s"
    by (auto simp: TryInterruptQueuedTurn_def Let_def split: option.splits if_splits prod.splits)
  with inv show ?thesis by simp
next
  case True
  then obtain c where c: "queueInterrupt s = Some c" "qi_pending c = None"
    by (auto simp: TryInterruptQueuedTurn_def split: option.splits if_splits)
  show ?thesis
  proof (cases "qi_input c")
    case None
    then show ?thesis
      using inv c True
      by (auto simp: receipt_inv_def TryInterruptQueuedTurn_def withQueuedPromptReceipt_def Let_def
          nth_append split: if_splits)
  next
    case (Some r)
    then have r: "r < length (receipts s)" using inv c by (simp add: receipt_inv_def)
    show ?thesis
    proof (cases "rc_read (receipts s ! r)")
      case True
      then show ?thesis
        using inv c Some \<open>fst (TryInterruptQueuedTurn s)\<close> r
        by (auto simp: receipt_inv_def TryInterruptQueuedTurn_def withQueuedPromptReceipt_def Let_def
            nth_append split: if_splits)
    next
      case False
      have "\<forall>x \<in> set ((receipts s)[r := (receipts s ! r)\<lparr>rc_transferred := True\<rparr>]).
          \<not> (rc_read x \<and> rc_transferred x)"
        using inv r False by (intro set_receipt_inv) (simp_all add: receipt_inv_def)
      then show ?thesis
        using inv c Some \<open>fst (TryInterruptQueuedTurn s)\<close> r False
        by (auto simp: receipt_inv_def TryInterruptQueuedTurn_def withQueuedPromptReceipt_def Let_def
            nth_append set_receipt_def split: if_splits)
    qed
  qed
qed

lemma clear_pending_fields [simp]:
  "qi_pending (clear_pending r c) = (if qi_pending c = Some r then None else qi_pending c)"
  "qi_input (clear_pending r c) = qi_input c"
  by (simp_all add: clear_pending_def)

lemma BeginRead_receipt_inv:
  assumes inv: "receipt_inv s" and "valid_ref ro s"
  shows "receipt_inv (snd (BeginQueuedPromptRead ce ro s))"
proof (cases ro)
  case None
  with inv show ?thesis by (simp add: BeginQueuedPromptRead_def)
next
  case (Some r)
  then have r: "r < length (receipts s)" using assms(2) by (simp add: valid_ref_def)
  show ?thesis
  proof (cases "ce \<or> rc_transferred (receipts s ! r)")
    case True
    with Some inv show ?thesis by (auto simp: BeginQueuedPromptRead_def)
  next
    case False
    then have "\<forall>x \<in> set ((receipts s)[r := (receipts s ! r)\<lparr>rc_read := True\<rparr>]).
        \<not> (rc_read x \<and> rc_transferred x)"
      using inv r by (intro set_receipt_inv) (simp_all add: receipt_inv_def)
    then show ?thesis
      using inv Some r False
      by (auto simp: BeginQueuedPromptRead_def receipt_inv_def set_receipt_def
          nth_list_update split: if_splits)
  qed
qed

lemma Claim_receipt_inv:
  assumes inv: "receipt_inv s" and "valid_ref ro s"
  shows "receipt_inv (snd (TakeQueuedPromptBatch ro s))"
proof (cases ro)
  case None
  with inv show ?thesis by (simp add: TakeQueuedPromptBatch_def)
next
  case (Some r)
  then have r: "r < length (receipts s)" using assms(2) by (simp add: valid_ref_def)
  then have "\<forall>x \<in> set ((receipts s)[r := (receipts s ! r)\<lparr>rc_claimed := True\<rparr>]).
      \<not> (rc_read x \<and> rc_transferred x)"
    using inv nth_mem [OF r] by (intro set_receipt_inv) (auto simp: receipt_inv_def)
  then show ?thesis
    using inv Some r
    by (auto simp: TakeQueuedPromptBatch_def receipt_inv_def set_receipt_def nth_list_update Let_def)
qed

lemma qstep_receipt_inv:
  assumes inv: "receipt_inv s"
  shows "receipt_inv (qstep G A e s)"
proof (cases e)
  case (EvEnqueue body m ps now)
  have "receipt_inv (steerAgentTurn A k t)" if "receipt_inv t" for k t
    using that Interrupt_receipt_inv by (simp add: steerAgentTurn_def)
  then show ?thesis
    using EvEnqueue Enqueue_receipt_inv [OF inv]
    by (auto simp: EnqueueTurnMessageWithMode_def Let_def split: prod.splits sum.splits)
      (metis snd_conv)+
next
  case (EvClaim ro)
  then show ?thesis using inv Claim_receipt_inv [OF inv] by simp
next
  case (EvBeginRead ce ro)
  then show ?thesis using inv BeginRead_receipt_inv [OF inv] by simp
next
  case EvInterrupt
  then show ?thesis using Interrupt_receipt_inv [OF inv] by simp
next
  case (EvReceipt rows b)
  then show ?thesis
    using inv by (auto simp: receipt_inv_def withQueuedPromptReceipt_def nth_append)
next
  case (EvRunStart input d)
  then show ?thesis
    using inv by (auto simp: receipt_inv_def startRun_def valid_ref_def split: option.splits)
next
  case EvRunArm
  then show ?thesis using inv by (auto simp: receipt_inv_def armRun_def split: option.splits)
next
  case (EvRunSettle err)
  then show ?thesis
    using inv by (auto simp: receipt_inv_def settleRun_def Let_def split: option.splits)
next
  case EvRunFinish
  then show ?thesis
    using inv by (auto simp: receipt_inv_def finishQueuedInterrupt_def Let_def split: option.splits)
next
  case EvRootDone
  then show ?thesis using inv by (auto simp: receipt_inv_def)
qed (use inv in \<open>auto simp: qop_defs Let_def split: option.splits prod.splits list.splits
    intro: receipt_inv_frame [OF inv]\<close>)

text \<open>The ledger of a whole run.\<close>

fun run_in :: "(bytes \<Rightarrow> bool) \<Rightarrow> bool \<Rightarrow> qevent list \<Rightarrow> qstate \<Rightarrow> bytes multiset" where
  "run_in G A [] s = {#}"
| "run_in G A (e # es) s = qin G A e s + run_in G A es (qstep G A e s)"

fun run_out :: "(bytes \<Rightarrow> bool) \<Rightarrow> bool \<Rightarrow> qevent list \<Rightarrow> qstate \<Rightarrow> bytes multiset" where
  "run_out G A [] s = {#}"
| "run_out G A (e # es) s = qout G A e s + run_out G A es (qstep G A e s)"

lemma qrun_balance:
  "receipt_inv s \<Longrightarrow> held (qrun G A es s) + run_out G A es s = held s + run_in G A es s"
proof (induction es arbitrary: s)
  case (Cons e es)
  let ?t = "qstep G A e s"
  have "held (qrun G A es ?t) + run_out G A es ?t = held ?t + run_in G A es ?t"
    using Cons.IH Cons.prems qstep_receipt_inv by blast
  moreover have "held ?t + qout G A e s = held s + qin G A e s"
    using Cons.prems by (rule qstep_balance)
  ultimately show ?case
    by (simp add: qrun_def ac_simps)
qed simp

lemma init_receipt_inv: "receipt_inv init_qstate"
  by (simp add: receipt_inv_def init_qstate_def)

lemma qrun_receipt_inv: "receipt_inv s \<Longrightarrow> receipt_inv (qrun G A es s)"
  by (induction es rule: rev_induct) (simp_all add: qrun_snoc qstep_receipt_inv)

text \<open>
  C4: Over any sequence of calls, the messages a session was handed (accepted, returned, or
  taken over from a run that had not read them) are exactly the ones it still holds plus the
  ones that left it by a read, a take-back, a clear or a reported drop: none is lost or copied.
\<close>

theorem queue_conservation:
  "held (qrun G A es init_qstate) + run_out G A es init_qstate = run_in G A es init_qstate"
  using qrun_balance [OF init_receipt_inv, of G A es]
  by (simp add: held_def init_qstate_def pending_rows_def pending_receipt_def)

text \<open>
  C5: Whatever is called in whatever order, no prompt is both read by the run it was made for
  and handed over to an interrupt, and the batch an interrupt reserved exists and is unread.
\<close>

theorem queue_handover_exclusive:
  fixes G A es
  defines "s \<equiv> qrun G A es init_qstate"
  shows "list_all (\<lambda>x. \<not> (rc_read x \<and> rc_transferred x)) (receipts s) \<and>
    (case pending_receipt s of None \<Rightarrow> True
     | Some r \<Rightarrow> r < length (receipts s) \<and> \<not> rc_read (receipts s ! r))"
proof -
  have inv: "receipt_inv s" unfolding s_def by (rule qrun_receipt_inv [OF init_receipt_inv])
  then show ?thesis
    using pending_valid [OF inv] by (auto simp: receipt_inv_def list_all_iff split: option.split)
qed

lemma TryInterrupt_cases:
  assumes inv: "receipt_inv s" and acc: "fst (TryInterruptQueuedTurn s)"
  obtains c where "queueInterrupt s = Some c" "qi_pending c = None" "queueOpen s"
    "\<And>r. qi_input c = Some r \<Longrightarrow> r < length (receipts s)"
  using assms
  by (auto simp: TryInterruptQueuedTurn_def receipt_inv_def split: if_splits option.splits)

text \<open>
  An accepted interrupt reserves the unread input of the run and then every waiting
  message, in that order, leaves the queue empty, and forbids the old run to append its input;
  until the batch is read no second interrupt is accepted.  A refused one changes nothing.
\<close>

theorem interrupt_reserves_fifo:
  fixes G A es
  defines "s \<equiv> qrun G A es init_qstate"
  shows "(case TryInterruptQueuedTurn s of
     (True, t) \<Rightarrow> (case queueInterrupt s of None \<Rightarrow> False | Some c \<Rightarrow>
        pending_rows t = unread_input c s @ queue s \<and> queue t = [] \<and>
        \<not> fst (TryInterruptQueuedTurn t) \<and>
        (unread_input c s = [] \<or> fst (BeginQueuedPromptRead False (qi_input c) t) = False))
   | (False, t) \<Rightarrow> t = s)"
proof (cases "fst (TryInterruptQueuedTurn s)")
  case False
  then show ?thesis
    by (auto simp: TryInterruptQueuedTurn_def Let_def split: option.splits if_splits prod.splits)
next
  case True
  have inv: "receipt_inv s" unfolding s_def by (rule qrun_receipt_inv [OF init_receipt_inv])
  obtain c where c: "queueInterrupt s = Some c" "qi_pending c = None"
    "\<And>r. qi_input c = Some r \<Longrightarrow> r < length (receipts s)"
    using TryInterrupt_cases [OF inv True] by metis
  obtain t where t: "TryInterruptQueuedTurn s = (True, t)" using True by (cases "TryInterruptQueuedTurn s") auto
  have "pending_rows t = unread_input c s @ queue s" "queue t = []"
    and second: "\<not> fst (TryInterruptQueuedTurn t)"
    using t c
    by (auto simp: TryInterruptQueuedTurn_def withQueuedPromptReceipt_def pending_rows_def
        pending_receipt_def Let_def nth_append set_receipt_def split: if_splits option.splits)
  moreover have "\<not> fst (BeginQueuedPromptRead False (qi_input c) t)" if "unread_input c s \<noteq> []"
    using t c that
    by (auto simp: TryInterruptQueuedTurn_def withQueuedPromptReceipt_def unread_input_def
        BeginQueuedPromptRead_def Let_def nth_append set_receipt_def split: if_splits option.splits)
  ultimately show ?thesis using t c by auto
qed

text \<open>
  The turn boundary hands back every steer message at once, or else the oldest waiting
  message alone; finding nothing it closes the queue in the same step, after which every message
  is refused, so none is accepted by a turn that is over.  While a batch is reserved it does
  nothing.
\<close>

theorem boundary_takes_or_closes:
  "(case TakeQueuedMessagesOrClose s of ((taken, again), t) \<Rightarrow>
     if pending_receipt s \<noteq> None then taken = [] \<and> again = False \<and> t = s
     else if takeSteer (queue s) \<noteq> [] then
       again \<and> taken = takeSteer (queue s) \<and> queue t = keepAfterTurn (queue s)
     else if queue s \<noteq> [] then again \<and> taken = [hd (queue s)] \<and> queue t = tl (queue s)
     else again = False \<and> taken = [] \<and> queue t = [] \<and>
       isl (fst (EnqueueMessageWithMode body m ps now t)))"
  by (auto simp: TakeQueuedMessagesOrClose_def Let_def EnqueueMessageWithMode_def takeSteer_def
      split: list.splits)

text \<open>
  A message is accepted only while fewer than the allowed number wait, counting the batch an
  interrupt reserved; it goes to the end of the queue, trimmed, with the next id, and a refused
  one leaves the state as it was and says why.
\<close>

theorem enqueue_spec:
  "(case EnqueueMessageWithMode body m ps now s of
      (Inr msg, t) \<Rightarrow>
        ValidQueueMode m \<and> queueOpen s \<and> waiting s < MaxQueuedMessages \<and>
        qm_Text msg = trim_space body \<and> qm_Mode msg = m \<and>
        queue t = queue s @ [msg] \<and> waiting t = Suc (waiting s) \<and>
        qm_ID msg = message_id (queuedMessageSeq s + 1) \<and>
        queuedMessageSeq t = queuedMessageSeq s + 1
    | (Inl e, t) \<Rightarrow> t = s \<and>
        e = (if \<not> ValidQueueMode m then ErrInvalidMode m
             else if trim_space body = [] \<and> ps = [] then ErrEmptyMessage
             else if \<not> queueOpen s then ErrNoActiveTurn else ErrQueueFull))"
  by (auto simp: EnqueueMessageWithMode_def Let_def waiting_def split: prod.splits)

text \<open>
  What a Stop finds reserved but unread is kept: once the run has unwound, closing the
  turn's queue drops none of it, whatever the mode of each message, and it waits first in line.
\<close>

theorem stop_keeps_reserved:
  fixes G A es
  defines "s \<equiv> qrun G A es init_qstate"
  shows "prefix (pending_rows s) (queue (snd (CloseMessageQueue (finishQueuedInterrupt s))))"
proof (cases "pending_receipt s")
  case None
  then show ?thesis by (simp add: pending_rows_def)
next
  case (Some r)
  have "receipt_inv s" unfolding s_def by (rule qrun_receipt_inv [OF init_receipt_inv])
  then have r: "\<not> rc_read (receipts s ! r)" using pending_valid Some by blast
  obtain c where c: "queueInterrupt s = Some c" "qi_pending c = Some r"
    using Some by (auto simp: pending_receipt_def bind_eq_Some_conv)
  let ?f = "finishQueuedInterrupt s"
  have f: "queue ?f = pending_rows s @ queue s" "set (map qm_ID (pending_rows s)) \<subseteq> queueRetained ?f"
    using c r by (auto simp: finishQueuedInterrupt_def pending_rows_def pending_receipt_def Let_def)
  then have "filter (stays ?f) (pending_rows s) = pending_rows s"
    by (auto simp: filter_id_conv stays_def)
  moreover have "queue (snd (CloseMessageQueue ?f)) = filter (stays ?f) (queue ?f)"
    by (auto simp: CloseMessageQueue_def Let_def)
  ultimately show ?thesis using f(1) by simp
qed

end
