(* ===== verification/CommandSegments.thy ===== *)
theory CommandSegments
  imports GoPrelude
begin

text \<open>
  Which shell commands run without asking because of the operator's allowlist:
  \<^verbatim>\<open>internal/tooling/command_segments.go\<close> and \<^verbatim>\<open>Env.CommandAllowed\<close> of \<^verbatim>\<open>internal/tooling/env.go\<close>.
  The one-pass reader is compared with a reader that first tags every byte with the way a
  POSIX shell reads it and only then looks for operators.
\<close>

section \<open>The reader of a command line\<close>

datatype ShellKind = ShellPwsh | ShellPowerShell | ShellCmd | ShellBash | ShellSh

datatype quote_state = Unquoted | InSingle | InDouble

definition windowsMetacharacters :: bytes where
  "windowsMetacharacters =
     ''|&;<>()$'' @ [CHR 0x60] @ ''^%'' @ [CHR 0x0A, CHR 0x0D]"

definition plainSegment :: "bytes \<Rightarrow> bytes list option" where
  "plainSegment cmd =
     (if cmd = [] \<or> contains_any cmd windowsMetacharacters then None else Some [cmd])"

definition flush :: "bytes \<Rightarrow> bytes list \<Rightarrow> bytes list" where
  "flush cur segs = (let s = trim_space cur in if s \<noteq> [] then segs @ [s] else segs)"

definition wordStart :: "bytes \<Rightarrow> bool" where
  "wordStart cur \<longleftrightarrow> cur = [] \<or> last cur = CHR '' '' \<or> last cur = CHR 0x09"

text \<open>The byte after the current one, 0 at the end.\<close>

definition next_byte :: "bytes \<Rightarrow> char" where
  "next_byte rest = (case rest of [] \<Rightarrow> CHR 0x00 | c # _ \<Rightarrow> c)"

definition expands :: "char \<Rightarrow> bool" where
  "expands n \<longleftrightarrow> n = CHR ''('' \<or> n = CHR ''{'' \<or> n = CHR ''[''"

definition is_operator :: "char \<Rightarrow> bool" where
  "is_operator c \<longleftrightarrow> c = CHR '';'' \<or> c = CHR ''&'' \<or> c = CHR ''|'' \<or> c = CHR 0x0A"

definition is_refused :: "char \<Rightarrow> bool" where
  "is_refused c \<longleftrightarrow> c = CHR 0x60 \<or> c = CHR ''<'' \<or> c = CHR ''>'' \<or> c = CHR ''('' \<or> c = CHR '')''"

function posix_loop :: "quote_state \<Rightarrow> bytes \<Rightarrow> bytes list \<Rightarrow> bytes \<Rightarrow> bytes list option" where
  "posix_loop st cur segs [] =
     (if st \<noteq> Unquoted then None
      else (let segs = flush cur segs in if segs = [] then None else Some segs))"
| "posix_loop InSingle cur segs (c # rest) =
     posix_loop (if c = CHR 0x27 then Unquoted else InSingle) (cur @ [c]) segs rest"
| "posix_loop InDouble cur segs (c # rest) =
     (if c = CHR 0x60 \<or> c = CHR ''$'' \<and> expands (next_byte rest) then None
      else if c = CHR 0x5C \<and> rest \<noteq> [] then
        posix_loop InDouble (cur @ [c, hd rest]) segs (tl rest)
      else if c = CHR 0x22 then posix_loop Unquoted (cur @ [c]) segs rest
      else posix_loop InDouble (cur @ [c]) segs rest)"
| "posix_loop Unquoted cur segs (c # rest) =
     (if is_refused c then None
      else if c = CHR ''$'' then
        (if expands (next_byte rest) \<or> next_byte rest = CHR 0x27 then None
         else posix_loop Unquoted (cur @ [c]) segs rest)
      else if c = CHR ''#'' then
        (if wordStart cur then None else posix_loop Unquoted (cur @ [c]) segs rest)
      else if c = CHR 0x5C then
        (if rest = [] then posix_loop Unquoted (cur @ [c]) segs rest
         else if hd rest = CHR 0x0A then posix_loop Unquoted cur segs (tl rest)
         else posix_loop Unquoted (cur @ [c, hd rest]) segs (tl rest))
      else if c = CHR 0x27 then posix_loop InSingle (cur @ [c]) segs rest
      else if c = CHR 0x22 then posix_loop InDouble (cur @ [c]) segs rest
      else if is_operator c then posix_loop Unquoted [] (flush cur segs) rest
      else posix_loop Unquoted (cur @ [c]) segs rest)"
  by pat_completeness auto
termination by (relation "measure (\<lambda>(st, cur, segs, rest). length rest)") auto

definition posixSegments :: "bytes \<Rightarrow> bytes list option" where
  "posixSegments cmd = posix_loop Unquoted [] [] cmd"

definition commandSegments :: "ShellKind \<Rightarrow> bytes \<Rightarrow> bytes list option" where
  "commandSegments shell cmd =
     (case shell of ShellBash \<Rightarrow> posixSegments cmd | ShellSh \<Rightarrow> posixSegments cmd
      | _ \<Rightarrow> plainSegment cmd)"

section \<open>The allowlist\<close>

definition segmentAllowed :: "bytes list \<Rightarrow> bytes \<Rightarrow> bool" where
  "segmentAllowed entries segment =
     list_ex (\<lambda>allowed. segment = allowed \<or> has_prefix segment (allowed @ '' '')) entries"

text \<open>The first loop: \<open>None\<close> is its early return, \<open>Some\<close> the entries it collected.\<close>

fun collect_entries :: "bytes \<Rightarrow> bytes list \<Rightarrow> bytes list option" where
  "collect_entries cmd [] = Some []"
| "collect_entries cmd (a # as) =
     (let allowed = trim_space a in
      if allowed = [] then collect_entries cmd as
      else if allowed = ''*'' \<or> cmd = allowed then None
      else map_option ((#) allowed) (collect_entries cmd as))"

definition CommandAllowed :: "ShellKind \<Rightarrow> bytes list \<Rightarrow> bytes \<Rightarrow> bool" where
  "CommandAllowed shell allowlist command =
     (let cmd = trim_space command in
      case collect_entries cmd allowlist of
        None \<Rightarrow> True
      | Some entries \<Rightarrow>
          if entries = [] then False
          else (case commandSegments shell cmd of
                  None \<Rightarrow> False
                | Some segments \<Rightarrow> list_all (segmentAllowed entries) segments))"

section \<open>How a shell reads the bytes\<close>

text \<open>
  The tag of a byte: \<open>Bare\<close> is read as syntax, \<open>Within\<close> stands in double quotes (only
  substitutions are read there), \<open>Literal\<close> is quoted or escaped, or is a quote or backslash
  doing the quoting, and \<open>Joined\<close> belongs to a line continuation the shell removes.
\<close>

datatype tag = Bare | Within | Literal | Joined

function tags :: "quote_state \<Rightarrow> bytes \<Rightarrow> (tag \<times> char) list" where
  "tags st [] = []"
| "tags InSingle (c # rest) =
     (Literal, c) # tags (if c = CHR 0x27 then Unquoted else InSingle) rest"
| "tags InDouble (c # rest) =
     (if c = CHR 0x5C \<and> rest \<noteq> [] then (Literal, c) # (Literal, hd rest) # tags InDouble (tl rest)
      else if c = CHR 0x22 then (Literal, c) # tags Unquoted rest
      else (Within, c) # tags InDouble rest)"
| "tags Unquoted (c # rest) =
     (if c = CHR 0x5C \<and> rest \<noteq> [] then
        (if hd rest = CHR 0x0A then (Joined, c) # (Joined, hd rest) # tags Unquoted (tl rest)
         else (Literal, c) # (Literal, hd rest) # tags Unquoted (tl rest))
      else if c = CHR 0x5C then (Literal, c) # tags Unquoted rest
      else if c = CHR 0x27 then (Literal, c) # tags InSingle rest
      else if c = CHR 0x22 then (Literal, c) # tags InDouble rest
      else (Bare, c) # tags Unquoted rest)"
  by pat_completeness auto
termination by (relation "measure (\<lambda>(st, rest). length rest)") auto

text \<open>The quoting state at the end of the line.\<close>

function end_state :: "quote_state \<Rightarrow> bytes \<Rightarrow> quote_state" where
  "end_state st [] = st"
| "end_state InSingle (c # rest) = end_state (if c = CHR 0x27 then Unquoted else InSingle) rest"
| "end_state InDouble (c # rest) =
     (if c = CHR 0x5C \<and> rest \<noteq> [] then end_state InDouble (tl rest)
      else if c = CHR 0x22 then end_state Unquoted rest else end_state InDouble rest)"
| "end_state Unquoted (c # rest) =
     (if c = CHR 0x5C \<and> rest \<noteq> [] then end_state Unquoted (tl rest)
      else if c = CHR 0x5C then end_state Unquoted rest
      else if c = CHR 0x27 then end_state InSingle rest
      else if c = CHR 0x22 then end_state InDouble rest
      else end_state Unquoted rest)"
  by pat_completeness auto
termination by (relation "measure (\<lambda>(st, rest). length rest)") auto

text \<open>
  A byte that runs or writes something no single segment shows, given the bytes after it: a
  backquote, redirection or parenthesis outside quotes, and a substitution outside single quotes.
\<close>

definition hides :: "tag \<Rightarrow> char \<Rightarrow> char \<Rightarrow> bool" where
  "hides t c n \<longleftrightarrow>
     t = Bare \<and> (is_refused c \<or> c = CHR ''$'' \<and> (expands n \<or> n = CHR 0x27)) \<or>
     t = Within \<and> (c = CHR 0x60 \<or> c = CHR ''$'' \<and> expands n)"

definition next_char :: "(tag \<times> char) list \<Rightarrow> char" where
  "next_char ts = (case ts of [] \<Rightarrow> CHR 0x00 | (_, c) # _ \<Rightarrow> c)"

fun hidden :: "(tag \<times> char) list \<Rightarrow> bool" where
  "hidden [] = False"
| "hidden ((t, c) # ts) = (hides t c (next_char ts) \<or> hidden ts)"

text \<open>The commands: the bytes between two bare operators, without the removed ones.\<close>

fun commands :: "bytes \<Rightarrow> (tag \<times> char) list \<Rightarrow> bytes list" where
  "commands cur [] = [cur]"
| "commands cur ((t, c) # ts) =
     (if t = Bare \<and> is_operator c then cur # commands [] ts
      else if t = Joined then commands cur ts
      else commands (cur @ [c]) ts)"

definition simple_commands :: "bytes \<Rightarrow> bytes list" where
  "simple_commands cmd = filter (\<lambda>s. s \<noteq> []) (map trim_space (commands [] (tags Unquoted cmd)))"

text \<open>A comment starts at a bare # at the start of a word.\<close>

fun comment :: "bytes \<Rightarrow> (tag \<times> char) list \<Rightarrow> bool" where
  "comment cur [] = False"
| "comment cur ((t, c) # ts) =
     (if t = Bare \<and> is_operator c then comment [] ts
      else if t = Joined then comment cur ts
      else t = Bare \<and> c = CHR ''#'' \<and> wordStart cur \<or> comment (cur @ [c]) ts)"

definition readable :: "bytes \<Rightarrow> bool" where
  "readable cmd \<longleftrightarrow> \<not> hidden (tags Unquoted cmd) \<and> \<not> comment [] (tags Unquoted cmd) \<and>
     end_state Unquoted cmd = Unquoted"

lemma next_char_tags [simp]: "next_char (tags st rest) = next_byte rest"
  by (cases "(st, rest)" rule: tags.cases) (auto simp: next_char_def next_byte_def)

lemma is_operator_not_special: "is_operator c \<Longrightarrow> \<not> is_refused c \<and> c \<noteq> CHR ''$'' \<and> c \<noteq> CHR ''#'' \<and>
    c \<noteq> CHR 0x5C \<and> c \<noteq> CHR 0x27 \<and> c \<noteq> CHR 0x22"
  by (auto simp: is_operator_def is_refused_def)

lemma flush_eq: "flush cur segs = segs @ filter (\<lambda>s. s \<noteq> []) [trim_space cur]"
  by (simp add: flush_def Let_def)

lemma posix_loop_reads:
  "posix_loop st cur segs rest =
    (let ts = tags st rest;
         out = segs @ filter (\<lambda>s. s \<noteq> []) (map trim_space (commands cur ts))
     in if hidden ts \<or> comment cur ts \<or> end_state st rest \<noteq> Unquoted \<or> out = [] then None else Some out)"
proof (induction st cur segs rest rule: posix_loop.induct)
  case (1 st cur segs)
  then show ?case by (simp add: Let_def flush_eq)
next
  case (2 cur segs c rest)
  then show ?case by (simp add: Let_def hides_def)
next
  case (3 cur segs c rest)
  consider (refused) "c = CHR 0x60 \<or> c = CHR ''$'' \<and> expands (next_byte rest)"
    | (escape) "c = CHR 0x5C" "rest \<noteq> []" | (quote) "c = CHR 0x22"
    | (plain) "\<not> (c = CHR 0x60 \<or> c = CHR ''$'' \<and> expands (next_byte rest))"
        "\<not> (c = CHR 0x5C \<and> rest \<noteq> [])" "c \<noteq> CHR 0x22"
    by auto
  then show ?case
  proof cases
    case refused
    then have "c \<noteq> CHR 0x22" "c \<noteq> CHR 0x5C" by auto
    with refused show ?thesis by (simp add: Let_def hides_def)
  next
    case escape
    then obtain d ds where "rest = d # ds" by (cases rest) auto
    with escape 3(1) show ?thesis by (simp add: Let_def hides_def)
  next
    case quote
    with 3(2) show ?thesis by (simp add: Let_def hides_def)
  next
    case plain
    with 3(3) show ?thesis by (simp add: Let_def hides_def)
  qed
next
  case (4 cur segs c rest)
  consider (operator) "is_operator c" | (dollar) "c = CHR ''$''" | (hash) "c = CHR ''#''"
    | (backslash) "c = CHR 0x5C" | (single) "c = CHR 0x27" | (double) "c = CHR 0x22"
    | (refused) "is_refused c"
    | (plain) "\<not> is_operator c" "\<not> is_refused c"
        "c \<notin> {CHR ''$'', CHR ''#'', CHR 0x5C, CHR 0x27, CHR 0x22}"
    by auto
  then show ?case
  proof cases
    case operator
    with 4 is_operator_not_special [OF operator] show ?thesis
      by (simp add: Let_def hides_def flush_eq)
  next
    case dollar
    then have *: "\<not> is_refused c" "\<not> is_operator c" by (simp_all add: is_refused_def is_operator_def)
    show ?thesis
    proof (cases "expands (next_byte rest) \<or> next_byte rest = CHR 0x27")
      case True
      with dollar * show ?thesis by (simp add: Let_def hides_def)
    next
      case False
      with 4(1) dollar * show ?thesis by (simp add: Let_def hides_def)
    qed
  next
    case hash
    then have *: "\<not> is_refused c" "\<not> is_operator c" by (simp_all add: is_refused_def is_operator_def)
    show ?thesis
    proof (cases "wordStart cur")
      case True
      with hash * show ?thesis by (simp add: Let_def hides_def)
    next
      case False
      with 4(2) hash * show ?thesis by (simp add: Let_def hides_def)
    qed
  next
    case backslash
    show ?thesis
    proof (cases rest)
      case Nil
      with backslash show ?thesis
        by (simp add: Let_def flush_eq hides_def is_refused_def is_operator_def)
    next
      case (Cons d ds)
      with backslash 4(4,5) show ?thesis
        by (cases "d = CHR 0x0A") (simp_all add: Let_def hides_def is_refused_def is_operator_def)
    qed
  next
    case single
    with 4(6) show ?thesis by (simp add: Let_def hides_def is_refused_def is_operator_def)
  next
    case double
    with 4(7) show ?thesis by (simp add: Let_def hides_def is_refused_def is_operator_def)
  next
    case refused
    then have "c \<notin> {CHR ''$'', CHR ''#'', CHR 0x5C, CHR 0x27, CHR 0x22}" "\<not> is_operator c"
      by (auto simp: is_refused_def is_operator_def)
    with refused show ?thesis by (simp add: Let_def hides_def)
  next
    case plain
    with 4(9) show ?thesis by (simp add: Let_def hides_def)
  qed
qed

lemma posixSegments_eq:
  "posixSegments cmd =
     (if readable cmd \<and> simple_commands cmd \<noteq> [] then Some (simple_commands cmd) else None)"
  by (auto simp: posixSegments_def posix_loop_reads readable_def simple_commands_def Let_def)



end
