(* ===== verification/Permission.thy ===== *)
theory Permission
  imports CommandSegments
begin

text \<open>
  The permission gate: \<^verbatim>\<open>internal/permission\<close> (permission.go, grants.go, program.go, http.go),
  the grants a session keeps (\<^verbatim>\<open>internal/session/state.go\<close>) and the http allowlist
  (\<^verbatim>\<open>internal/config/http_request.go\<close>).  Decoded JSON arguments, parsed URLs and parsed
  http requests are inputs of the model; the file system is the record \<open>path_lib\<close>.
\<close>

section \<open>Session grants\<close>

record grants =
  PermissionCommandGrants :: "bytes list"
  PermissionWriteGrants :: "bytes list"
  PermissionHTTPGrants :: "bytes list"

definition add_if_new :: "bytes \<Rightarrow> bytes list \<Rightarrow> bytes list" where
  "add_if_new key gs =
     (let k = trim_space key in if k = [] \<or> k \<in> set gs then gs else gs @ [k])"

definition AddCommandGrantIfNew :: "bytes \<Rightarrow> grants \<Rightarrow> grants" where
  "AddCommandGrantIfNew cmd st =
     st\<lparr>PermissionCommandGrants := add_if_new cmd (PermissionCommandGrants st)\<rparr>"

definition AddWriteGrantIfNew :: "bytes \<Rightarrow> grants \<Rightarrow> grants" where
  "AddWriteGrantIfNew key st =
     st\<lparr>PermissionWriteGrants := add_if_new key (PermissionWriteGrants st)\<rparr>"

definition AddHTTPGrantIfNew :: "bytes \<Rightarrow> grants \<Rightarrow> grants" where
  "AddHTTPGrantIfNew key st =
     st\<lparr>PermissionHTTPGrants := add_if_new key (PermissionHTTPGrants st)\<rparr>"

section \<open>Shell commands\<close>

definition shellMetacharacters :: bytes where
  "shellMetacharacters =
     ''|&;<>()$'' @ [CHR 0x60, CHR 0x0A, CHR 0x0D] @ ''*?[]{}!#~%@''"

definition multiplexers :: "bytes list" where
  "multiplexers =
     [''apt'', ''apt-get'', ''brew'', ''cargo'', ''docker'', ''docker-compose'', ''gh'', ''git'',
      ''go'', ''helm'', ''kubectl'', ''make'', ''npm'', ''npx'', ''pip'', ''pip3'', ''pnpm'',
      ''poetry'', ''systemctl'', ''terraform'', ''uv'', ''yarn'']"

text \<open>The part after the last slash or backslash.\<close>

definition programBase :: "bytes \<Rightarrow> bytes" where
  "programBase program =
     rev (takeWhile (\<lambda>c. c \<noteq> CHR ''/'' \<and> c \<noteq> CHR 0x5C) (rev program))"

definition isPlainInvocation :: "bytes \<Rightarrow> bool" where
  "isPlainInvocation command =
     (let cmd = trim_space command in
      if cmd = [] then False
      else if contains_any cmd shellMetacharacters then False
      else (case Fields cmd of
              [] \<Rightarrow> False
            | program # _ \<Rightarrow>
                if CHR ''='' \<in> set program then False
                else if has_suffix program ''/'' \<or> has_suffix program [CHR 0x5C] then False
                else True))"

fun grant_loop :: "bool \<Rightarrow> bytes list \<Rightarrow> bytes \<Rightarrow> bool" where
  "grant_loop plain [] cmd = False"
| "grant_loop plain (g # gs) cmd =
     (let grant = trim_space g in
      if grant = [] then grant_loop plain gs cmd
      else if grant = cmd then True
      else if plain \<and> has_prefix cmd (grant @ '' '') then True
      else grant_loop plain gs cmd)"

definition sessionGrantAllows :: "bytes list \<Rightarrow> bytes \<Rightarrow> bool" where
  "sessionGrantAllows gs command =
     (let cmd = trim_space command in
      if cmd = [] then False else grant_loop (isPlainInvocation cmd) gs cmd)"

text \<open>The part of \<^verbatim>\<open>tooling.Env\<close> the gate reads; \<open>Shell\<close> is the resolved shell kind.\<close>

record env =
  Shell :: ShellKind
  CommandAllowlist :: "bytes list"
  HTTPAllowlist :: "bytes list"
  PermissionMode :: bytes

definition PermModeAsk :: bytes where "PermModeAsk = ''ask''"
definition PermModeAcceptEdits :: bytes where "PermModeAcceptEdits = ''accept_edits''"
definition PermModeBypass :: bytes where "PermModeBypass = ''bypass''"

definition CommandAllowedWithSession :: "env option \<Rightarrow> bytes list \<Rightarrow> bytes \<Rightarrow> bool" where
  "CommandAllowedWithSession e gs cmd =
     (if (case e of None \<Rightarrow> False
          | Some env \<Rightarrow> CommandAllowed (Shell env) (CommandAllowlist env) cmd) then True
      else sessionGrantAllows gs cmd)"

definition ProgramGrant :: "bytes \<Rightarrow> bytes option" where
  "ProgramGrant command =
     (let cmd = trim_space command in
      if \<not> isPlainInvocation cmd then None
      else (case Fields cmd of
              [] \<Rightarrow> None
            | program # rest \<Rightarrow>
                if programBase program \<notin> set multiplexers then Some program
                else (case rest of
                        [] \<Rightarrow> Some program
                      | subcommand # _ \<Rightarrow>
                          if has_prefix subcommand ''-'' then Some program
                          else Some (program @ '' '' @ subcommand))))"

section \<open>Dialog options and answers\<close>

definition OptionAllowAlwaysProgram :: bytes where "OptionAllowAlwaysProgram = ''allow_always_program''"
definition OptionAllow :: bytes where "OptionAllow = ''allow''"
definition OptionAllowAlways :: bytes where "OptionAllowAlways = ''allow_always''"
definition OptionReject :: bytes where "OptionReject = ''reject''"
definition OutcomeCancelled :: bytes where "OutcomeCancelled = ''cancelled''"
definition OptionAllowSessionBypass :: bytes where "OptionAllowSessionBypass = ''allow_session_bypass''"
definition OptionAllowSessionAcceptEdits :: bytes where
  "OptionAllowSessionAcceptEdits = ''allow_session_accept_edits''"
definition OptionAllowAlwaysURL :: bytes where "OptionAllowAlwaysURL = ''allow_always_url''"
definition OptionAllowAlwaysOrigin :: bytes where "OptionAllowAlwaysOrigin = ''allow_always_origin''"

lemmas option_ids = OptionAllowAlwaysProgram_def OptionAllow_def OptionAllowAlways_def
  OptionReject_def OutcomeCancelled_def OptionAllowSessionBypass_def
  OptionAllowSessionAcceptEdits_def OptionAllowAlwaysURL_def OptionAllowAlwaysOrigin_def

record permission_result =
  Outcome :: bytes
  res_OptionID :: bytes

record permission_option =
  OptionID :: bytes
  opt_Name :: bytes
  opt_Kind :: bytes

record request_params =
  EffectivePermissionMode :: bytes
  SessionPermissionMode :: bytes
  Forced :: bool

definition Approved :: "permission_result option \<Rightarrow> bool" where
  "Approved res =
     (case res of
        None \<Rightarrow> False
      | Some r \<Rightarrow> if Outcome r = OutcomeCancelled then False else res_OptionID r \<noteq> OptionReject)"

definition SessionModeOption :: "permission_result option \<Rightarrow> bytes" where
  "SessionModeOption res =
     (case res of
        None \<Rightarrow> []
      | Some r \<Rightarrow>
          let o' = trim_space (res_OptionID r) in
          if o' = OptionAllowSessionBypass then PermModeBypass
          else if o' = OptionAllowSessionAcceptEdits then PermModeAcceptEdits
          else [])"

definition AutoApproves :: "request_params \<Rightarrow> bytes \<Rightarrow> bool" where
  "AutoApproves params configMode =
     (if Forced params then False
      else let m = trim_space (EffectivePermissionMode params) in
        if m \<noteq> [] then m = PermModeBypass
        else let m = trim_space (SessionPermissionMode params) in
          if m \<noteq> [] then m = PermModeBypass
          else configMode = PermModeBypass)"

definition ChatApproves :: "request_params \<Rightarrow> bool" where
  "ChatApproves params =
     (if Forced params then False
      else let m = trim_space (EffectivePermissionMode params) in m = [] \<or> m = PermModeBypass)"

section \<open>File writes\<close>

text \<open>
  What \<^verbatim>\<open>json.Unmarshal\<close> reads from the arguments of a call, and \<^verbatim>\<open>path/filepath\<close>.  The two
  decodings a handler can ask for fail on their own (\<open>None\<close>).
\<close>

record call_args =
  args_blank :: bool
  arg_command :: "bytes option"
  arg_path :: "bytes option"
  arg_src_dst :: "(bytes \<times> bytes) option"

record path_lib =
  IsAbs :: "bytes \<Rightarrow> bool"
  Join :: "bytes \<Rightarrow> bytes \<Rightarrow> bytes"
  Abs :: "bytes \<Rightarrow> bytes option"

definition ResolvePath :: "path_lib \<Rightarrow> bytes \<Rightarrow> bytes \<Rightarrow> bytes" where
  "ResolvePath L p cwd = (if IsAbs L p then p else Join L cwd p)"

definition ExtractRunCommand :: "call_args \<Rightarrow> bytes" where
  "ExtractRunCommand a = (case arg_command a of None \<Rightarrow> [] | Some c \<Rightarrow> trim_space c)"

definition write_tools :: "bytes list" where
  "write_tools = [''write'', ''edit'', ''apply_patch'', ''mkdir'', ''rmdir'', ''touch'', ''rm'']"

definition mv_key :: "path_lib \<Rightarrow> bytes \<Rightarrow> bytes \<Rightarrow> bytes list" where
  "mv_key L cwd p =
     (if trim_space p \<noteq> [] then
        (case Abs L (ResolvePath L (trim_space p) cwd) of
           None \<Rightarrow> [] | Some full \<Rightarrow> [''mv|'' @ full])
      else [])"

definition WriteGrantKeys :: "path_lib \<Rightarrow> bytes \<Rightarrow> call_args \<Rightarrow> bytes \<Rightarrow> bytes list" where
  "WriteGrantKeys L toolName a dir =
     (let cwd = trim_space dir in
      if cwd = [] \<or> args_blank a then []
      else if toolName \<in> set write_tools then
        (case arg_path a of
           None \<Rightarrow> []
         | Some raw \<Rightarrow>
             let p = trim_space raw in
             if p = [] then []
             else (case Abs L (ResolvePath L p cwd) of
                     None \<Rightarrow> [] | Some full \<Rightarrow> [toolName @ ''|'' @ full]))
      else if toolName = ''mv'' then
        (case arg_src_dst a of
           None \<Rightarrow> []
         | Some (src, dst) \<Rightarrow> mv_key L cwd src @ mv_key L cwd dst)
      else [])"

definition writeKeyGranted :: "bytes list \<Rightarrow> bytes \<Rightarrow> bool" where
  "writeKeyGranted gs key = list_ex (\<lambda>g. g = key) gs"

definition AllWriteKeysGranted :: "bytes list \<Rightarrow> bytes list \<Rightarrow> bool" where
  "AllWriteKeysGranted gs keys = (if keys = [] then False else list_all (writeKeyGranted gs) keys)"

section \<open>HTTP requests\<close>

text \<open>What the accessors of a parsed \<^verbatim>\<open>net/url.URL\<close> return.\<close>

record url =
  Scheme :: bytes
  Hostname :: bytes
  Port :: bytes
  EscapedPath :: bytes

definition defaultPort :: "bytes \<Rightarrow> bytes" where
  "defaultPort scheme =
     (let s = to_lower scheme in
      if s = ''http'' then ''80'' else if s = ''https'' then ''443'' else [])"

text \<open>\<^verbatim>\<open>net.JoinHostPort\<close>: a host with a colon is bracketed.\<close>

definition joinHostPort :: "bytes \<Rightarrow> bytes \<Rightarrow> bytes" where
  "joinHostPort host port =
     (if CHR '':'' \<in> set host then ''['' @ host @ '']:'' @ port else host @ '':'' @ port)"

definition trim_brackets :: "bytes \<Rightarrow> bytes" where
  "trim_brackets s =
     (let drop_b = dropWhile (\<lambda>c. c = CHR ''['' \<or> c = CHR '']'') in rev (drop_b (rev (drop_b s))))"

definition originOf :: "url \<Rightarrow> bytes" where
  "originOf u =
     (let scheme = to_lower (Scheme u); host = to_lower (Hostname u);
          host = (if CHR '':'' \<in> set host then ''['' @ host @ '']'' else host);
          host = (if Port u \<noteq> [] \<and> Port u \<noteq> defaultPort scheme
                  then joinHostPort (trim_brackets host) (Port u) else host)
      in scheme @ ''://'' @ host)"

definition addressOf :: "url \<Rightarrow> bytes" where
  "addressOf u = originOf u @ (if EscapedPath u = [] then ''/'' else EscapedPath u)"

record http_request =
  URL :: url
  Files :: "bytes list"
  OutputFile :: bytes
  Proxy :: "url option"
  InsecureTLS :: bool

definition ProxyOrigin :: "http_request \<Rightarrow> bytes" where
  "ProxyOrigin r = (case Proxy r of None \<Rightarrow> [] | Some p \<Rightarrow> originOf p)"

definition httpGrantOrigin :: bytes where "httpGrantOrigin = ''origin|''"
definition httpGrantURL :: bytes where "httpGrantURL = ''url|''"
definition httpGrantFile :: bytes where "httpGrantFile = ''file|''"
definition httpGrantProxy :: bytes where "httpGrantProxy = ''proxy|''"
definition httpGrantInsecure :: bytes where "httpGrantInsecure = ''insecure|''"
definition httpGrantOutput :: bytes where "httpGrantOutput = ''output|''"

lemmas http_keys = httpGrantOrigin_def httpGrantURL_def httpGrantFile_def httpGrantProxy_def
  httpGrantInsecure_def httpGrantOutput_def

datatype extra_kind = FileExtra | ProxyExtra | InsecureExtra | OutputExtra

record http_extra =
  extra_kind :: extra_kind
  extra_key :: bytes

definition httpExtras :: "http_request \<Rightarrow> http_extra list" where
  "httpExtras req =
     (let origin = originOf (URL req) in
      map (\<lambda>p. \<lparr>extra_kind = FileExtra, extra_key = httpGrantFile @ origin @ ''|'' @ p\<rparr>) (Files req) @
      (if ProxyOrigin req \<noteq> []
       then [\<lparr>extra_kind = ProxyExtra, extra_key = httpGrantProxy @ origin @ ''|'' @ ProxyOrigin req\<rparr>]
       else []) @
      (if InsecureTLS req
       then [\<lparr>extra_kind = InsecureExtra, extra_key = httpGrantInsecure @ origin\<rparr>] else []) @
      (if OutputFile req \<noteq> []
       then [\<lparr>extra_kind = OutputExtra, extra_key = httpGrantOutput @ OutputFile req\<rparr>] else []))"

definition hasGrant :: "bytes list \<Rightarrow> bytes \<Rightarrow> bool" where
  "hasGrant gs key = list_ex (\<lambda>g. g = key) gs"

subsection \<open>The allowlist of destinations\<close>

record httpAllowRule =
  rule_any :: bool
  rule_scheme :: bytes
  rule_host :: bytes
  rule_wildcard :: bool
  rule_port :: bytes
  rule_path :: bytes

definition rule_matches :: "httpAllowRule \<Rightarrow> url \<Rightarrow> bool" where
  "rule_matches r u =
     (if rule_any r then True
      else let scheme = to_lower (Scheme u); host = to_lower (Hostname u) in
        if rule_scheme r \<noteq> [] \<and> rule_scheme r \<noteq> scheme then False
        else if rule_wildcard r \<and> \<not> has_suffix host (''.'' @ rule_host r) then False
        else if \<not> rule_wildcard r \<and> host \<noteq> rule_host r then False
        else if rule_port r \<noteq> [] \<and>
            (if Port u = [] then defaultPort scheme else Port u) \<noteq> rule_port r then False
        else if rule_path r \<noteq> [] then
          (let p = (if EscapedPath u = [] then ''/'' else EscapedPath u) in
           if has_suffix (rule_path r) ''/'' then has_prefix p (rule_path r)
           else p = rule_path r \<or> has_prefix p (rule_path r @ ''/''))
        else True)"

text \<open>\<open>parse\<close> is \<^verbatim>\<open>parseHTTPAllowRule\<close>: it parses an entry with \<^verbatim>\<open>net/url\<close>, \<open>None\<close> is its error.\<close>

definition HTTPAllowlistAllows ::
    "(bytes \<Rightarrow> httpAllowRule option) \<Rightarrow> bytes list \<Rightarrow> url option \<Rightarrow> bool" where
  "HTTPAllowlistAllows parse entries url =
     (case url of
        None \<Rightarrow> False
      | Some u \<Rightarrow> list_ex (\<lambda>entry. case parse (trim_space entry) of
                              None \<Rightarrow> False | Some rule \<Rightarrow> rule_matches rule u) entries)"

definition extra_covered ::
    "(bytes \<Rightarrow> httpAllowRule option) \<Rightarrow> env \<Rightarrow> bool \<Rightarrow> http_request \<Rightarrow> http_extra \<Rightarrow> bool" where
  "extra_covered parse e allowlisted req x =
     (case extra_kind x of
        FileExtra \<Rightarrow> allowlisted
      | InsecureExtra \<Rightarrow> allowlisted
      | ProxyExtra \<Rightarrow> HTTPAllowlistAllows parse (HTTPAllowlist e) (Proxy req)
      | OutputExtra \<Rightarrow> PermissionMode e = PermModeAcceptEdits)"

definition HTTPRequestAllowedWithSession ::
    "(bytes \<Rightarrow> httpAllowRule option) \<Rightarrow> env option \<Rightarrow> bytes list \<Rightarrow> http_request option \<Rightarrow> bool" where
  "HTTPRequestAllowedWithSession parse env gs parsed =
     (case env of
        None \<Rightarrow> False
      | Some e \<Rightarrow>
          if PermissionMode e = PermModeBypass then True
          else (case parsed of
                  None \<Rightarrow> False
                | Some req \<Rightarrow>
                    let allowlisted = HTTPAllowlistAllows parse (HTTPAllowlist e) (Some (URL req)) in
                    if \<not> allowlisted \<and> \<not> hasGrant gs (httpGrantOrigin @ originOf (URL req)) \<and>
                       \<not> hasGrant gs (httpGrantURL @ addressOf (URL req)) then False
                    else list_all (\<lambda>x. extra_covered parse e allowlisted req x \<or>
                                       hasGrant gs (extra_key x)) (httpExtras req)))"

definition recordHTTPGrants :: "http_request option \<Rightarrow> bytes \<Rightarrow> grants \<Rightarrow> grants" where
  "recordHTTPGrants parsed optionID st =
     (case parsed of
        None \<Rightarrow> st
      | Some req \<Rightarrow>
          let add_extras = (\<lambda>st. foldl (\<lambda>st x. AddHTTPGrantIfNew (extra_key x) st) st (httpExtras req)) in
          if optionID = OptionAllowAlwaysOrigin
          then add_extras (AddHTTPGrantIfNew (httpGrantOrigin @ originOf (URL req)) st)
          else if optionID = OptionAllowAlwaysURL \<or> optionID = OptionAllowAlways
          then add_extras (AddHTTPGrantIfNew (httpGrantURL @ addressOf (URL req)) st)
          else st)"

definition ToolHTTPRequest :: bytes where "ToolHTTPRequest = ''http_request''"

definition RecordAllowAlways ::
    "path_lib \<Rightarrow> bytes \<Rightarrow> call_args \<Rightarrow> http_request option \<Rightarrow> bytes \<Rightarrow>
     permission_result option \<Rightarrow> grants \<Rightarrow> grants" where
  "RecordAllowAlways L tool a parsed cwd res st =
     (case res of
        None \<Rightarrow> st
      | Some r \<Rightarrow>
          let toolName = trim_space tool in
          if toolName = ToolHTTPRequest then recordHTTPGrants parsed (res_OptionID r) st
          else if res_OptionID r \<noteq> OptionAllowAlways \<and> res_OptionID r \<noteq> OptionAllowAlwaysProgram
          then st
          else if toolName = ''run_command'' then
            (let cmd = ExtractRunCommand a in
             if cmd = [] then st
             else if res_OptionID r = OptionAllowAlwaysProgram then
               (case ProgramGrant cmd of None \<Rightarrow> st | Some grant \<Rightarrow> AddCommandGrantIfNew grant st)
             else AddCommandGrantIfNew cmd st)
          else if res_OptionID r \<noteq> OptionAllowAlways then st
          else foldl (\<lambda>st k. AddWriteGrantIfNew k st) st (WriteGrantKeys L toolName a cwd))"

subsection \<open>The options of a dialog\<close>

text \<open>\<open>dest\<close> is \<^verbatim>\<open>HTTPRequestDestination\<close>: the URL of the arguments, when it parses.\<close>

definition httpRequestOptions :: "url option \<Rightarrow> permission_option list" where
  "httpRequestOptions dest =
     \<lparr>OptionID = OptionAllow, opt_Name = ''Allow'', opt_Kind = ''allow_once''\<rparr> #
     (case dest of
        None \<Rightarrow> []
      | Some u \<Rightarrow>
          (if addressOf u \<noteq> originOf u @ ''/''
           then [\<lparr>OptionID = OptionAllowAlwaysURL, opt_Name = ''Always allow '' @ addressOf u,
                  opt_Kind = ''allow_always''\<rparr>] else []) @
          [\<lparr>OptionID = OptionAllowAlwaysOrigin, opt_Name = ''Always allow '' @ originOf u,
            opt_Kind = ''allow_always''\<rparr>]) @
     [\<lparr>OptionID = OptionReject, opt_Name = ''Reject'', opt_Kind = ''reject_once''\<rparr>]"

definition baseOptions :: "bytes \<Rightarrow> call_args \<Rightarrow> url option \<Rightarrow> bool \<Rightarrow> permission_option list" where
  "baseOptions toolName a dest exactGrantOnly =
     (if trim_space toolName = ToolHTTPRequest then httpRequestOptions dest
      else
        [\<lparr>OptionID = OptionAllow, opt_Name = ''Allow'', opt_Kind = ''allow_once''\<rparr>,
         \<lparr>OptionID = OptionAllowAlways, opt_Name = ''Allow always'', opt_Kind = ''allow_always''\<rparr>] @
        (if trim_space toolName = ''run_command'' \<and> \<not> exactGrantOnly then
           (case ProgramGrant (ExtractRunCommand a) of
              None \<Rightarrow> []
            | Some grant \<Rightarrow>
                [\<lparr>OptionID = OptionAllowAlwaysProgram, opt_Name = ''Always allow '' @ grant,
                  opt_Kind = ''allow_always''\<rparr>])
         else []) @
        [\<lparr>OptionID = OptionReject, opt_Name = ''Reject'', opt_Kind = ''reject_once''\<rparr>])"

record option_context =
  oc_Mode :: bytes
  SessionSwitch :: bool
  ExactGrantOnly :: bool

definition OptionsFor ::
    "path_lib \<Rightarrow> bytes \<Rightarrow> call_args \<Rightarrow> url option \<Rightarrow> option_context \<Rightarrow> permission_option list" where
  "OptionsFor L toolName a dest oc =
     (let options = baseOptions toolName a dest (ExactGrantOnly oc) in
      if \<not> SessionSwitch oc \<or> oc_Mode oc \<noteq> PermModeAsk then options
      else
        (let name = trim_space toolName;
             extra =
               (if WriteGrantKeys L name a ''/'' \<noteq> [] then
                  [\<lparr>OptionID = OptionAllowSessionAcceptEdits,
                    opt_Name = ''Allow edits for this session'', opt_Kind = ''allow_always''\<rparr>]
                else []) @
               (if name \<noteq> ''config_commit'' \<and> name \<noteq> ''config_rollback'' then
                  [\<lparr>OptionID = OptionAllowSessionBypass, opt_Name = ''Bypass for this session'',
                    opt_Kind = ''allow_always''\<rparr>]
                else [])
         in if extra = [] then options
            else butlast options @ extra @ [last options]))"

end
