(* ===== verification/GoWords.thy ===== *)
theory GoWords
  imports GoPrelude
begin

text \<open>
  Words, numbers and searching in Go strings: what \<^verbatim>\<open>strings.Fields\<close> finds, reading back the decimal
  numbers the program prints, and the search and replacement functions of \<^verbatim>\<open>package strings\<close>.
\<close>

section \<open>Words\<close>

lemma space_only_alone: "e \<in> set space_encodings \<Longrightarrow> CHR '' '' \<notin> set (tl e)"
  by (auto simp: space_encodings_def)

lemma space_alone: "e \<in> set space_encodings \<Longrightarrow> CHR '' '' \<in> set e \<Longrightarrow> e = '' ''"
  by (auto simp: space_encodings_def)

lemma space_encodings_nonempty: "e \<in> set space_encodings \<Longrightarrow> e \<noteq> []"
  by (auto simp: space_encodings_def)

lemma prefix_before_space:
  assumes "e \<in> set space_encodings" "s \<noteq> []"
  shows "prefix e (s @ CHR '' '' # b) \<longleftrightarrow> prefix e s"
proof
  assume "prefix e (s @ CHR '' '' # b)"
  then consider "prefix e s" | us where "e = s @ us" "prefix us (CHR '' '' # b)"
    by (auto simp: prefix_append)
  then show "prefix e s"
  proof cases
    case 2
    then have "us = []"
      using space_only_alone [OF assms(1)] assms(2) by (cases us; cases s) auto
    with 2 show ?thesis by simp
  qed
qed (simp add: prefix_prefix)

lemma find_cong_on: "(\<And>x. x \<in> set xs \<Longrightarrow> P x = Q x) \<Longrightarrow> find P xs = find Q xs"
  by (induction xs) auto

lemma lead_enc_before_space:
  "s \<noteq> [] \<Longrightarrow> lead_enc space_encodings (s @ CHR '' '' # b) = lead_enc space_encodings s"
  unfolding lead_enc_def by (rule find_cong_on) (simp add: prefix_before_space)

lemma lead_enc_space [simp]: "lead_enc space_encodings (CHR '' '' # b) = Some '' ''"
  by (simp add: lead_enc_def space_encodings_def)

lemma fields_from_space:
  "fields_from cur (a @ CHR '' '' # b) = fields_from cur a @ fields_from [] b"
proof (induction cur a rule: fields_from.induct)
  case (2 cur c s)
  have "lead_enc space_encodings (c # s @ CHR '' '' # b) = lead_enc space_encodings (c # s)"
    using lead_enc_before_space [of "c # s" b] by simp
  moreover have "length e \<le> length (c # s)" if "lead_enc space_encodings (c # s) = Some e" for e
    using lead_enc_SomeD [OF that] by (auto dest: prefix_length_le)
  moreover have "drop (length e) (c # s @ CHR '' '' # b) = drop (length e) (c # s) @ CHR '' '' # b"
    if "length e \<le> length (c # s)" for e :: bytes
    using drop_append [of "length e" "c # s"] that by simp
  ultimately show ?case using 2 by (auto split: option.split)
qed simp

lemma Fields_space: "Fields (a @ '' '' @ b) = Fields a @ Fields b"
  using fields_from_space [of "[]" a b] by (simp add: Fields_def)

text \<open>A word: white space starts nowhere in it.\<close>

definition word_like :: "bytes \<Rightarrow> bool" where
  "word_like w \<longleftrightarrow> w \<noteq> [] \<and> (\<forall>us vs. w = us @ vs \<longrightarrow> vs \<noteq> [] \<longrightarrow> lead_enc space_encodings vs = None)"

lemma fields_from_word_like:
  assumes "\<forall>us vs. cur = us @ vs \<longrightarrow> vs \<noteq> [] \<longrightarrow> lead_enc space_encodings (vs @ s) = None"
    and "w \<in> set (fields_from cur s)"
  shows "word_like w"
  using assms
proof (induction cur s rule: fields_from.induct)
  case (1 cur)
  then show ?case by (auto simp: word_like_def split: if_splits)
next
  case (2 cur c s)
  show ?case
  proof (cases "lead_enc space_encodings (c # s)")
    case None
    have "lead_enc space_encodings (vs @ s) = None" if *: "cur @ [c] = us @ vs" "vs \<noteq> []" for us vs
    proof -
      from * obtain ws where ws: "vs = ws @ [c]" "cur = us @ ws"
        by (cases vs rule: rev_cases) auto
      show ?thesis
      proof (cases "ws = []")
        case True
        with None ws show ?thesis by simp
      next
        case False
        with 2(3) ws show ?thesis by simp
      qed
    qed
    with 2(1) None 2(4) show ?thesis by (simp add: None)
  next
    case (Some e)
    with 2(4) consider (word) "w = cur" "cur \<noteq> []"
      | (later) "w \<in> set (fields_from [] (drop (length e) (c # s)))"
      by (auto split: if_splits)
    then show ?thesis
    proof cases
      case word
      have "lead_enc space_encodings vs = None" if "cur = us @ vs" "vs \<noteq> []" for us vs
        by (rule lead_enc_prefix_None [of _ "vs @ c # s"]) (use 2(3) that in auto)
      with word show ?thesis by (auto simp: word_like_def)
    next
      case later
      with 2(2) [OF Some] show ?thesis by simp
    qed
  qed
qed

lemma Fields_word_like: "w \<in> set (Fields s) \<Longrightarrow> word_like w"
  unfolding Fields_def by (rule fields_from_word_like) auto

lemma trim_right_id:
  assumes "\<And>us e. s = us @ e \<Longrightarrow> e \<in> set space_encodings \<Longrightarrow> False"
  shows "trim_right s = s"
proof -
  have "lead_enc (map rev space_encodings) (rev s) = None"
  proof (rule ccontr)
    assume "lead_enc (map rev space_encodings) (rev s) \<noteq> None"
    then obtain e where "e \<in> set (map rev space_encodings)" "prefix e (rev s)"
      by (auto dest: lead_enc_SomeD)
    then obtain e' where "e' \<in> set space_encodings" "prefix (rev e') (rev s)" by auto
    then show False using assms by (auto simp: suffix_to_prefix [symmetric] suffix_def)
  qed
  then show ?thesis by (simp add: trim_right_def trim_with_id)
qed

lemma word_like_tail: "word_like w \<Longrightarrow> w = us @ e \<Longrightarrow> e \<in> set space_encodings \<Longrightarrow> False"
  using lead_enc_NoneD [of space_encodings e e]
  by (auto simp: word_like_def dest: space_encodings_nonempty)

lemma word_like_trim [simp]: "word_like w \<Longrightarrow> trim_space w = w"
proof -
  assume w: "word_like w"
  then have "trim_left w = w" by (simp add: word_like_def trim_left_def trim_with_id)
  with w show ?thesis by (auto simp: trim_space_def intro: trim_right_id word_like_tail)
qed

lemma two_words_trim [simp]:
  assumes p: "word_like p" and q: "word_like q"
  shows "trim_space (p @ '' '' @ q) = p @ '' '' @ q"
proof -
  have "lead_enc space_encodings (p @ CHR '' '' # q) = None"
    using p by (simp add: lead_enc_before_space word_like_def)
  then have left: "trim_left (p @ '' '' @ q) = p @ '' '' @ q" by (simp add: trim_left_def trim_with_id)
  have "trim_right (p @ '' '' @ q) = p @ '' '' @ q"
  proof (rule trim_right_id)
    fix us e
    assume eq: "p @ '' '' @ q = us @ e" and e: "e \<in> set space_encodings"
    then consider vs where "q = vs @ e" | vs where "e = vs @ CHR '' '' # q"
      by (auto simp: append_eq_append_conv2 Cons_eq_append_conv append_eq_Cons_conv)
    then show False
    proof cases
      case 1
      with q e show ?thesis by (blast intro: word_like_tail)
    next
      case 2
      with e have "e = '' ''" by (intro space_alone) auto
      with 2 q show ?thesis by (cases vs) (auto simp: word_like_def)
    qed
  qed
  with left show ?thesis by (simp add: trim_space_def)
qed

lemma fields_from_word:
  "(\<And>us vs. w = us @ vs \<Longrightarrow> vs \<noteq> [] \<Longrightarrow> lead_enc space_encodings vs = None) \<Longrightarrow>
    cur @ w \<noteq> [] \<Longrightarrow> fields_from cur w = [cur @ w]"
proof (induction w arbitrary: cur)
  case (Cons c w)
  have "lead_enc space_encodings (c # w) = None" using Cons.prems(1) [of "[]" "c # w"] by simp
  moreover have "fields_from (cur @ [c]) w = [(cur @ [c]) @ w]"
    by (rule Cons.IH) (use Cons.prems(1) [of "c # us" vs for us vs] in auto)
  ultimately show ?case by simp
qed simp

lemma Fields_word [simp]: "word_like w \<Longrightarrow> Fields w = [w]"
  by (simp add: Fields_def word_like_def fields_from_word)

lemma lead_enc_hd: "(\<And>e. e \<in> set encs \<Longrightarrow> hd e \<noteq> c) \<Longrightarrow> lead_enc encs (c # cs) = None"
  unfolding lead_enc_def find_None_iff by (metis hd_append2 list.sel(1) prefix_def)

section \<open>Numbers\<close>

text \<open>\<^verbatim>\<open>strconv.Atoi\<close>: an optional sign and decimal digits, inside the 64-bit range.\<close>

definition is_digit :: "char \<Rightarrow> bool" where
  "is_digit c \<longleftrightarrow> 48 \<le> (of_char c :: nat) \<and> (of_char c :: nat) \<le> 57"

definition Atoi :: "bytes \<Rightarrow> int option" where
  "Atoi s =
     (let neg = (case s of [] \<Rightarrow> False | c # _ \<Rightarrow> c = CHR ''-'');
          ds = (case s of [] \<Rightarrow> [] | c # cs \<Rightarrow> if c = CHR ''-'' \<or> c = CHR ''+'' then cs else s);
          v = (if neg then - int (undigits 0 ds) else int (undigits 0 ds))
      in if ds \<noteq> [] \<and> list_all is_digit ds \<and> in_int64 v then Some v else None)"

lemma digits_of_digits: "list_all is_digit (digits_of n)"
proof (induction n rule: digits_of.induct)
  case (1 n)
  have d: "is_digit (char_of (48 + n mod 10))" for n :: nat
  proof -
    have "48 + n mod 10 < 256" by simp
    then have "(of_char (char_of (48 + n mod 10)) :: nat) = 48 + n mod 10" by (subst of_char_of) simp
    then show ?thesis by (simp add: is_digit_def)
  qed
  show ?case using 1 d[of n] by (subst digits_of.simps) (auto simp: list_all_append)
qed

lemma digits_of_ne [simp]: "digits_of n \<noteq> []"
  by (subst digits_of.simps) simp

lemma Atoi_digits: "in_int64 (int n) \<Longrightarrow> Atoi (digits_of n) = Some (int n)"
proof -
  assume n: "in_int64 (int n)"
  obtain c cs where ds: "digits_of n = c # cs" using digits_of_ne by (cases "digits_of n") auto
  have "is_digit c" using digits_of_digits[of n] by (simp add: ds)
  then have "c \<noteq> CHR ''-''" "c \<noteq> CHR ''+''" by (auto simp: is_digit_def)
  then show ?thesis
    using n undigits_digits_of[of n] digits_of_digits[of n] by (simp add: Atoi_def ds)
qed

section \<open>Searching and replacing\<close>

text \<open>\<^verbatim>\<open>strings.Index\<close>, \<^verbatim>\<open>strings.Contains\<close>, \<^verbatim>\<open>strings.Cut\<close>, and \<^verbatim>\<open>strings.ReplaceAll\<close> of a non-empty text.\<close>

fun str_index :: "bytes \<Rightarrow> bytes \<Rightarrow> nat option" where
  "str_index pat [] = (if pat = [] then Some 0 else None)"
| "str_index pat (c # s) = (if prefix pat (c # s) then Some 0 else map_option Suc (str_index pat s))"

definition str_contains :: "bytes \<Rightarrow> bytes \<Rightarrow> bool" where
  "str_contains s pat \<longleftrightarrow> str_index pat s \<noteq> None"

definition str_cut :: "bytes \<Rightarrow> bytes \<Rightarrow> bytes \<times> bytes \<times> bool" where
  "str_cut sep s = (case str_index sep s of None \<Rightarrow> (s, [], False) | Some i \<Rightarrow> (take i s, drop (i + length sep) s, True))"

function replace_all :: "bytes \<Rightarrow> bytes \<Rightarrow> bytes \<Rightarrow> bytes" where
  "replace_all old new [] = []"
| "replace_all old new (c # s) =
     (if old \<noteq> [] \<and> prefix old (c # s) then new @ replace_all old new (drop (length old) (c # s))
      else c # replace_all old new s)"
  by pat_completeness auto
termination
  by (relation "measure (\<lambda>(old, new, s). length s)") (auto simp: neq_Nil_conv)

lemma str_index_Some:
  "str_index pat s = Some i \<Longrightarrow> i + length pat \<le> length s \<and> prefix pat (drop i s) \<and> (\<forall>j<i. \<not> prefix pat (drop j s))"
proof (induction pat s arbitrary: i rule: str_index.induct)
  case (2 pat c s)
  show ?case
  proof (cases "prefix pat (c # s)")
    case True
    with 2 show ?thesis by (auto dest: prefix_length_le)
  next
    case False
    with 2 obtain k where k: "i = Suc k" "str_index pat s = Some k" by (auto split: if_splits)
    from 2(1) [OF False k(2)] False show ?thesis by (auto simp: k(1) less_Suc_eq_0_disj)
  qed
qed (auto split: if_splits)

lemma str_index_None: "str_index pat s = None \<Longrightarrow> \<not> prefix pat (drop j s)"
proof (induction pat s arbitrary: j rule: str_index.induct)
  case (2 pat c s)
  then show ?case by (cases j) (auto split: if_splits)
qed (auto split: if_splits)

end
