(* ===== verification/Permission_Correct.thy ===== *)
theory Permission_Correct
  imports Permission GoWords
begin

text \<open>
  The permission gate never answers for more than a person approved: what a session grant can
  reach, what the dialog offers, what an answer stores, and what a stored http grant covers.
\<close>

section \<open>What a session grant reaches\<close>

lemma grant_loop_iff:
  "grant_loop plain gs cmd \<longleftrightarrow>
     list_ex (\<lambda>g. trim_space g \<noteq> [] \<and>
       (trim_space g = cmd \<or> plain \<and> prefix (trim_space g @ '' '') cmd)) gs"
  by (induction gs) (auto simp: Let_def has_prefix_def)

lemma sessionGrantAllows_iff:
  "sessionGrantAllows gs command \<longleftrightarrow>
     (let cmd = trim_space command in cmd \<noteq> [] \<and>
       list_ex (\<lambda>g. trim_space g \<noteq> [] \<and> (trim_space g = cmd \<or>
         isPlainInvocation cmd \<and> prefix (trim_space g @ '' '') cmd)) gs)"
  by (simp add: sessionGrantAllows_def grant_loop_iff Let_def)

lemma sessionGrantAllows_append:
  "sessionGrantAllows (gs @ hs) cmd \<longleftrightarrow> sessionGrantAllows gs cmd \<or> sessionGrantAllows hs cmd"
  by (auto simp: sessionGrantAllows_iff Let_def)

lemma isPlain_trim [simp]: "isPlainInvocation (trim_space cmd) = isPlainInvocation cmd"
  by (simp add: isPlainInvocation_def)

lemma map_snd_tags: "map snd (tags st s) = s"
  by (induction st s rule: tags.induct) (simp_all, metis list.collapse)

lemma snd_tags: "(t, c) \<in> set (tags st s) \<Longrightarrow> c \<in> set s"
  by (metis map_snd_tags image_eqI list.set_map snd_conv)

lemma no_operator_one_command:
  "(\<And>t c. (t, c) \<in> set ts \<Longrightarrow> \<not> is_operator c) \<Longrightarrow> length (commands cur ts) = 1"
  by (induction cur ts rule: commands.induct) (auto split: if_splits)

lemma hides_needs: "hides t c n \<Longrightarrow> is_refused c \<or> c = CHR ''$''"
  by (auto simp: hides_def is_refused_def)

lemma hidden_needs:
  "hidden ts \<Longrightarrow> \<exists>t c. (t, c) \<in> set ts \<and> (is_refused c \<or> c = CHR ''$'')"
proof (induction ts rule: hidden.induct)
  case (2 t c ts)
  then show ?case by (cases "hides t c (next_char ts)") (auto dest: hides_needs)
qed simp

lemma plain_no_metachar:
  "isPlainInvocation cmd \<Longrightarrow> c \<in> set (trim_space cmd) \<Longrightarrow> c \<notin> set shellMetacharacters"
  by (auto simp: isPlainInvocation_def Let_def contains_any_def list_ex_iff split: if_splits)

lemma plain_runs_one:
  assumes "isPlainInvocation cmd"
  shows "\<not> hidden (tags Unquoted (trim_space cmd)) \<and> length (simple_commands (trim_space cmd)) \<le> 1"
proof
  let ?ts = "tags Unquoted (trim_space cmd)"
  have chars: "c \<notin> set shellMetacharacters" if "(t, c) \<in> set ?ts" for t c
    using that assms by (blast dest: snd_tags plain_no_metachar)
  show "\<not> hidden ?ts"
    by (auto dest!: hidden_needs chars simp: shellMetacharacters_def is_refused_def)
  have "length (commands [] ?ts) = 1"
    by (rule no_operator_one_command)
      (use chars in \<open>auto simp: shellMetacharacters_def is_operator_def\<close>)
  then show "length (simple_commands (trim_space cmd)) \<le> 1"
    unfolding simple_commands_def by (metis length_filter_le length_map)
qed

text \<open>
  C21: a command that the session's grants let through is either, up to surrounding white space,
  a string one of the grants holds, or a single simple command that begins with a grant: as a
  POSIX shell reads it, it runs at most one command and hides no substitution, redirection or
  subshell.  A grant for one program is never a way to run a second one.
\<close>

theorem session_grant_single_command:
  assumes "sessionGrantAllows gs cmd"
  shows "trim_space cmd \<in> set (map trim_space gs) \<or>
    \<not> hidden (tags Unquoted (trim_space cmd)) \<and>
    length (simple_commands (trim_space cmd)) \<le> 1 \<and>
    list_ex (\<lambda>g. prefix (trim_space g @ '' '') (trim_space cmd)) gs"
proof -
  obtain g where g: "g \<in> set gs" "trim_space g = trim_space cmd \<or>
      isPlainInvocation cmd \<and> prefix (trim_space g @ '' '') (trim_space cmd)"
    using assms by (auto simp: sessionGrantAllows_iff Let_def list_ex_iff)
  show ?thesis
  proof (cases "trim_space g = trim_space cmd")
    case True
    with g(1) show ?thesis by (metis image_eqI set_map)
  next
    case False
    with g plain_runs_one [of cmd] show ?thesis by (auto simp: list_ex_iff)
  qed
qed

theorem session_grant_single_command_witness:
  "trim_space ''git status --short'' \<in> set (map trim_space [''git status'']) \<or>
    \<not> hidden (tags Unquoted (trim_space ''git status --short'')) \<and>
    length (simple_commands (trim_space ''git status --short'')) \<le> 1 \<and>
    list_ex (\<lambda>g. prefix (trim_space g @ '' '') (trim_space ''git status --short'')) [''git status'']"
  by (rule session_grant_single_command) code_simp

section \<open>The program-wide grant\<close>

text \<open>The words of a command the program-wide grant keeps.\<close>

definition granted_words :: "bytes \<Rightarrow> bytes list" where
  "granted_words cmd =
     (let ws = Fields (trim_space cmd) in
      take (if programBase (hd ws) \<in> set multiplexers \<and> 2 \<le> length ws \<and>
              \<not> has_prefix (ws ! 1) ''-'' then 2 else 1) ws)"

lemma ProgramGrant_words:
  assumes "ProgramGrant cmd = Some g"
  shows "isPlainInvocation cmd \<and> g = join '' '' (granted_words cmd) \<and>
    Fields g = granted_words cmd \<and> trim_space g = g \<and> g \<noteq> []"
proof -
  have plain: "isPlainInvocation cmd"
    using assms by (auto simp: ProgramGrant_def Let_def split: if_splits)
  obtain p ws where ws: "Fields (trim_space cmd) = p # ws"
    using assms by (auto simp: ProgramGrant_def Let_def split: if_splits list.splits)
  then have p: "word_like p" using Fields_word_like [of p "trim_space cmd"] by simp
  then have "p \<noteq> []" by (simp add: word_like_def)
  show ?thesis
  proof (cases "programBase p \<in> set multiplexers \<and> ws \<noteq> [] \<and> \<not> has_prefix (hd ws) ''-''")
    case True
    then obtain q rest where q: "ws = q # rest" by (cases ws) auto
    then have "word_like q" using Fields_word_like [of q "trim_space cmd"] ws by simp
    moreover have "g = p @ '' '' @ q" "granted_words cmd = [p, q]"
      using assms plain ws q True by (auto simp: ProgramGrant_def granted_words_def Let_def)
    ultimately show ?thesis
      using plain p \<open>p \<noteq> []\<close> Fields_space [of p q] two_words_trim [of p q] by simp
  next
    case False
    then have "g = p" "granted_words cmd = [p]"
      using assms plain ws
      by (cases ws; auto simp: ProgramGrant_def granted_words_def Let_def split: if_splits)+
    with plain p \<open>p \<noteq> []\<close> show ?thesis by simp
  qed
qed

text \<open>
  The program-wide grant the dialog names is never wider than the program, and for a
  multiplexer such as git or kubectl never wider than its subcommand: every command it lets
  through begins, word for word, with the words of the approved command that the grant keeps.
\<close>

theorem program_grant_keeps_words:
  assumes "ProgramGrant cmd = Some g" and "sessionGrantAllows [g] cmd'"
  shows "prefix (granted_words cmd) (Fields (trim_space cmd'))"
proof -
  have g: "Fields g = granted_words cmd" "trim_space g = g"
    using ProgramGrant_words [OF assms(1)] by blast+
  with assms(2) consider "trim_space cmd' = g" | r where "trim_space cmd' = g @ '' '' @ r"
    by (auto simp: sessionGrantAllows_iff Let_def prefix_def)
  then show ?thesis
  proof cases
    case 1
    with g show ?thesis by simp
  next
    case 2
    with g show ?thesis using Fields_space [of g r] by simp
  qed
qed

theorem program_grant_keeps_words_witness:
  "prefix (granted_words ''git status --short'') (Fields (trim_space ''git status -v src''))"
  by (rule program_grant_keeps_words [of _ "''git status''"]) code_simp+

text \<open>
  the program-wide grant covers the command it was derived from, when single spaces separate
  the words of that command, and whatever else the session has granted.
\<close>

theorem program_grant_covers:
  assumes "ProgramGrant cmd = Some g" and "join '' '' (Fields (trim_space cmd)) = trim_space cmd"
  shows "sessionGrantAllows (gs @ [g] @ hs) cmd"
proof -
  note g = ProgramGrant_words [OF assms(1)]
  define ws where "ws = Fields (trim_space cmd)"
  define n where "n = (if programBase (hd ws) \<in> set multiplexers \<and> 2 \<le> length ws \<and>
      \<not> has_prefix (ws ! 1) ''-'' then 2 else 1 :: nat)"
  have split: "join '' '' (take n ws) = join '' '' ws \<or>
      prefix (join '' '' (take n ws) @ '' '') (join '' '' ws)"
    by (cases ws rule: remdups_adj.cases; cases "tl (tl ws)")
      (auto simp: n_def numeral_2_eq_2 join_Cons)
  have words: "granted_words cmd = take n ws"
    by (simp add: granted_words_def ws_def n_def Let_def)
  have "g = trim_space cmd \<or> prefix (g @ '' '') (trim_space cmd)"
    using g split assms(2) by (simp add: words flip: ws_def)
  moreover from this have "trim_space cmd \<noteq> []" using g by auto
  ultimately show ?thesis
    using g by (auto simp: sessionGrantAllows_iff Let_def)
qed

theorem program_grant_covers_witness:
  "sessionGrantAllows ([] @ [''git status''] @ []) ''git status --short''"
  by (rule program_grant_covers) code_simp+

section \<open>Answers\<close>

lemma add_if_new_set: "trim_space key \<noteq> [] \<Longrightarrow> set (add_if_new key gs) = insert (trim_space key) (set gs)"
  by (auto simp: add_if_new_def Let_def)

lemma sessionGrantAllows_trim [simp]:
  "sessionGrantAllows [trim_space g] cmd = sessionGrantAllows [g] cmd"
  by (simp add: sessionGrantAllows_iff)

lemma sessionGrantAllows_mem:
  "g \<in> set gs \<Longrightarrow> sessionGrantAllows [g] cmd \<Longrightarrow> sessionGrantAllows gs cmd"
  by (auto simp: sessionGrantAllows_iff Let_def list_ex_iff)

lemma sessionGrantAllows_blank: "trim_space g = [] \<Longrightarrow> \<not> sessionGrantAllows [g] cmd"
  by (auto simp: sessionGrantAllows_iff Let_def)

lemma sessionGrantAllows_add:
  "sessionGrantAllows (add_if_new g gs) cmd \<longleftrightarrow> sessionGrantAllows gs cmd \<or> sessionGrantAllows [g] cmd"
proof (cases "trim_space g = [] \<or> trim_space g \<in> set gs")
  case True
  then show ?thesis
    using sessionGrantAllows_mem [of "trim_space g" gs cmd]
    by (auto simp: add_if_new_def dest: sessionGrantAllows_blank)
next
  case False
  then show ?thesis by (simp add: add_if_new_def Let_def sessionGrantAllows_append)
qed

text \<open>The entry an answer to a run_command prompt stores.\<close>

definition answer_entry :: "bytes \<Rightarrow> bytes \<Rightarrow> bytes option" where
  "answer_entry optionID cmd =
     (if cmd = [] then None
      else if optionID = OptionAllowAlways then Some cmd
      else if optionID = OptionAllowAlwaysProgram then ProgramGrant cmd
      else None)"

text \<open>
  an answer to a shell command's prompt widens the session by exactly one entry: afterwards
  a command may run without asking iff it could before or the stored entry (the command itself
  for "allow always", the named grant for the program-wide option, nothing for any other answer)
  lets it through.  The grants of the other tools stay as they are.
\<close>

theorem record_command_exact:
  "let st' = RecordAllowAlways L ''run_command'' a parsed cwd (Some r) st in
   sessionGrantAllows (PermissionCommandGrants st') cmd' =
     (sessionGrantAllows (PermissionCommandGrants st) cmd' \<or>
      (case answer_entry (res_OptionID r) (ExtractRunCommand a) of
         None \<Rightarrow> False | Some g \<Rightarrow> sessionGrantAllows [g] cmd')) \<and>
   PermissionWriteGrants st' = PermissionWriteGrants st \<and>
   PermissionHTTPGrants st' = PermissionHTTPGrants st"
proof -
  have "trim_space ''run_command'' = ''run_command''" by code_simp
  then show ?thesis
    by (auto simp: RecordAllowAlways_def answer_entry_def Let_def AddCommandGrantIfNew_def
        sessionGrantAllows_add ToolHTTPRequest_def option_ids split: option.split)
qed

text \<open>
  A subagent narrowed below bypass is asked by every sender, a forced prompt is answered by
  a person only, and otherwise the first mode that is set decides: the asking agent's, the
  session's, the configuration's.
\<close>

theorem auto_approval_precedence:
  "AutoApproves p m =
     (\<not> Forced p \<and>
      hd (filter (\<lambda>x. x \<noteq> []) (map trim_space [EffectivePermissionMode p, SessionPermissionMode p]) @ [m])
        = PermModeBypass) \<and>
   ChatApproves p =
     (\<not> Forced p \<and> trim_space (EffectivePermissionMode p) \<in> {[], PermModeBypass})"
  by (auto simp: AutoApproves_def ChatApproves_def Let_def)

lemma OptionsFor_extra:
  assumes "SessionSwitch oc" "oc_Mode oc = PermModeAsk"
  shows "\<exists>extra. OptionsFor L toolName a dest oc =
      butlast (baseOptions toolName a dest (ExactGrantOnly oc)) @ extra @
      [last (baseOptions toolName a dest (ExactGrantOnly oc))] \<and>
    map OptionID extra =
      (if WriteGrantKeys L (trim_space toolName) a ''/'' \<noteq> [] then [OptionAllowSessionAcceptEdits] else []) @
      (if trim_space toolName \<notin> {''config_commit'', ''config_rollback''}
       then [OptionAllowSessionBypass] else [])"
proof -
  have "baseOptions toolName a dest (ExactGrantOnly oc) \<noteq> []"
    by (simp add: baseOptions_def httpRequestOptions_def)
  then show ?thesis using assms by (simp add: OptionsFor_def Let_def)
qed

definition base_ids :: "bytes \<Rightarrow> call_args \<Rightarrow> url option \<Rightarrow> bool \<Rightarrow> bytes list" where
  "base_ids toolName a dest exact =
     (if trim_space toolName = ToolHTTPRequest then
        (case dest of
           None \<Rightarrow> []
         | Some u \<Rightarrow> (if addressOf u = originOf u @ ''/'' then [] else [OptionAllowAlwaysURL]) @
             [OptionAllowAlwaysOrigin])
      else OptionAllowAlways #
        (if trim_space toolName = ''run_command'' \<and> \<not> exact \<and>
            ProgramGrant (ExtractRunCommand a) \<noteq> None then [OptionAllowAlwaysProgram] else []))"

lemma base_ids: "map OptionID (butlast (tl (baseOptions toolName a dest exact))) = base_ids toolName a dest exact"
  by (cases dest; cases "ProgramGrant (ExtractRunCommand a)")
    (auto simp: baseOptions_def httpRequestOptions_def base_ids_def)

text \<open>
  every dialog offers "allow" first and "reject" last and no choice twice, whatever the
  arguments; switching the session to bypass is offered only while it asks, only on the session's
  own unforced prompts, and never on committing or rolling back the configuration.
\<close>

theorem options_shape:
  "let ids = map OptionID (OptionsFor L toolName a dest oc) in
   hd ids = OptionAllow \<and> last ids = OptionReject \<and> distinct ids \<and>
   (OptionAllowSessionBypass \<in> set ids \<longleftrightarrow>
      SessionSwitch oc \<and> oc_Mode oc = PermModeAsk \<and>
      trim_space toolName \<notin> {''config_commit'', ''config_rollback''}) \<and>
   (OptionAllowSessionAcceptEdits \<in> set ids \<longleftrightarrow>
      SessionSwitch oc \<and> oc_Mode oc = PermModeAsk \<and>
      WriteGrantKeys L (trim_space toolName) a ''/'' \<noteq> []) \<and>
   (OptionAllowAlwaysProgram \<in> set ids \<longleftrightarrow>
      trim_space toolName = ''run_command'' \<and> \<not> ExactGrantOnly oc \<and>
      ProgramGrant (ExtractRunCommand a) \<noteq> None)"
proof -
  define base where "base = baseOptions toolName a dest (ExactGrantOnly oc)"
  define mid where "mid = butlast (tl base)"
  have base: "base = \<lparr>OptionID = OptionAllow, opt_Name = ''Allow'', opt_Kind = ''allow_once''\<rparr> #
      mid @ [\<lparr>OptionID = OptionReject, opt_Name = ''Reject'', opt_Kind = ''reject_once''\<rparr>]"
    by (cases dest; cases "ProgramGrant (ExtractRunCommand a)")
      (simp_all add: mid_def base_def baseOptions_def httpRequestOptions_def)
  define ids where "ids = map OptionID mid"
  have ids: "ids = base_ids toolName a dest (ExactGrantOnly oc)"
    by (simp add: ids_def mid_def base_def base_ids)
  have mid: "distinct ids \<and> set ids \<subseteq>
      {OptionAllowAlways, OptionAllowAlwaysProgram, OptionAllowAlwaysURL, OptionAllowAlwaysOrigin}"
    unfolding ids base_ids_def by (cases dest) (auto simp: option_ids)
  have program: "OptionAllowAlwaysProgram \<in> set ids \<longleftrightarrow>
      trim_space toolName = ''run_command'' \<and> \<not> ExactGrantOnly oc \<and>
      ProgramGrant (ExtractRunCommand a) \<noteq> None"
    unfolding ids base_ids_def by (cases dest) (auto simp: option_ids ToolHTTPRequest_def)
  show ?thesis
  proof (cases "SessionSwitch oc \<and> oc_Mode oc = PermModeAsk")
    case False
    then have "OptionsFor L toolName a dest oc = base" by (simp add: OptionsFor_def base_def)
    then have "map OptionID (OptionsFor L toolName a dest oc) = OptionAllow # ids @ [OptionReject]"
      by (simp add: base ids_def)
    with False mid program show ?thesis by (auto simp: option_ids)
  next
    case True
    then obtain extra where opts: "OptionsFor L toolName a dest oc = butlast base @ extra @ [last base]"
      and extra: "map OptionID extra =
        (if WriteGrantKeys L (trim_space toolName) a ''/'' \<noteq> [] then [OptionAllowSessionAcceptEdits] else []) @
        (if trim_space toolName \<notin> {''config_commit'', ''config_rollback''}
         then [OptionAllowSessionBypass] else [])"
      using OptionsFor_extra [of oc L toolName a dest] by (auto simp: base_def)
    have "map OptionID (OptionsFor L toolName a dest oc) =
        OptionAllow # ids @ map OptionID extra @ [OptionReject]"
      by (simp add: opts base ids_def butlast_append)
    with True mid program show ?thesis
      unfolding extra by (auto simp: option_ids)
  qed
qed

section \<open>Stored grants of files and requests\<close>

lemma option_neq [simp]:
  "OptionAllowAlways \<noteq> OptionAllowAlwaysProgram" "OptionAllowAlways \<noteq> OptionAllowAlwaysOrigin"
  "OptionAllowAlwaysURL \<noteq> OptionAllowAlwaysOrigin" "OptionAllowAlwaysProgram \<noteq> OptionAllowAlways"
  "OptionAllowAlwaysOrigin \<noteq> OptionAllowAlways" "OptionAllowAlwaysOrigin \<noteq> OptionAllowAlwaysURL"
  by (simp_all add: option_ids)

lemma set_foldl_add:
  "set (foldl (\<lambda>gs k. add_if_new k gs) gs keys) = set gs \<union> (trim_space ` set keys - {[]})"
  by (induction keys arbitrary: gs) (auto simp: add_if_new_def Let_def)

lemma write_foldl:
  "PermissionWriteGrants (foldl (\<lambda>st k. AddWriteGrantIfNew k st) st keys) =
     foldl (\<lambda>gs k. add_if_new k gs) (PermissionWriteGrants st) keys"
  by (induction keys arbitrary: st) (simp_all add: AddWriteGrantIfNew_def)

lemma http_foldl:
  "PermissionHTTPGrants (foldl (\<lambda>st x. AddHTTPGrantIfNew (extra_key x) st) st xs) =
     foldl (\<lambda>gs k. add_if_new k gs) (PermissionHTTPGrants st) (map extra_key xs)"
  by (induction xs arbitrary: st) (simp_all add: AddHTTPGrantIfNew_def)

lemma PermissionHTTPGrants_add [simp]:
  "PermissionHTTPGrants (AddHTTPGrantIfNew k st) = add_if_new k (PermissionHTTPGrants st)"
  by (simp add: AddHTTPGrantIfNew_def)

lemma hasGrant_iff: "hasGrant gs key \<longleftrightarrow> key \<in> set gs"
  by (auto simp: hasGrant_def list_ex_iff)

lemma mv_key_nonempty: "list_all (\<lambda>k. k \<noteq> []) (mv_key L cwd p)"
  by (simp add: mv_key_def split: option.split)

lemma write_keys_nonempty: "list_all (\<lambda>k. k \<noteq> []) (WriteGrantKeys L tool a cwd)"
  by (auto simp: WriteGrantKeys_def Let_def mv_key_nonempty split: option.split)

text \<open>
  "allow always" on a file tool stores exactly the keys of that call: afterwards the same
  tool on the same paths is granted (given paths without trailing white space, which the store
  trims away), and no key that was not granted before and is not one of the call's becomes one.
\<close>

theorem record_write_exact:
  assumes "trim_space tool = tool" "tool \<notin> {ToolHTTPRequest, ''run_command''}"
    and "WriteGrantKeys L tool a cwd \<noteq> []"
    and "map trim_space (WriteGrantKeys L tool a cwd) = WriteGrantKeys L tool a cwd"
  shows "let gs = PermissionWriteGrants
           (RecordAllowAlways L tool a parsed cwd (Some \<lparr>Outcome = o', res_OptionID = OptionAllowAlways\<rparr>) st)
         in AllWriteKeysGranted gs (WriteGrantKeys L tool a cwd) \<and>
            set gs \<subseteq> set (PermissionWriteGrants st) \<union> set (WriteGrantKeys L tool a cwd)"
proof -
  let ?keys = "WriteGrantKeys L tool a cwd"
  have trim: "trim_space ` set ?keys = set ?keys" using assms(4) by (metis list.set_map)
  have nonempty: "[] \<notin> set ?keys" using write_keys_nonempty [of L tool a cwd] by (auto simp: list_all_iff)
  show ?thesis
    using assms(1-3) trim nonempty
    by (simp add: RecordAllowAlways_def Let_def write_foldl set_foldl_add AllWriteKeysGranted_def
        writeKeyGranted_def list_all_iff list_ex_iff)
qed

definition unix_paths :: path_lib where
  "unix_paths = \<lparr>IsAbs = (\<lambda>p. has_prefix p ''/''), Join = (\<lambda>c p. c @ ''/'' @ p), Abs = Some\<rparr>"

theorem record_write_exact_witness:
  "let L = unix_paths;
       a = \<lparr>args_blank = False, arg_command = None, arg_path = Some ''a.txt'', arg_src_dst = None\<rparr>;
       gs = PermissionWriteGrants (RecordAllowAlways L ''write'' a None ''/w''
         (Some \<lparr>Outcome = [], res_OptionID = OptionAllowAlways\<rparr>) \<lparr>PermissionCommandGrants = [], PermissionWriteGrants = [], PermissionHTTPGrants = []\<rparr>)
   in AllWriteKeysGranted gs (WriteGrantKeys L ''write'' a ''/w'') \<and>
      set gs \<subseteq> set [] \<union> set (WriteGrantKeys L ''write'' a ''/w'')"
proof -
  let ?a = "\<lparr>args_blank = False, arg_command = None, arg_path = Some ''a.txt'', arg_src_dst = None\<rparr>"
  let ?st = "\<lparr>PermissionCommandGrants = [], PermissionWriteGrants = [], PermissionHTTPGrants = []\<rparr>"
  have "trim_space ''write'' = ''write''" "''write'' \<notin> {ToolHTTPRequest, ''run_command''}"
    "WriteGrantKeys unix_paths ''write'' ?a ''/w'' \<noteq> []"
    "map trim_space (WriteGrantKeys unix_paths ''write'' ?a ''/w'') =
     WriteGrantKeys unix_paths ''write'' ?a ''/w''"
    by code_simp+
  from record_write_exact [OF this, of None "[]" ?st] show ?thesis by (simp add: Let_def)
qed

text \<open>The key an "always" answer stores for the destination.\<close>

definition dest_key :: "bytes \<Rightarrow> http_request \<Rightarrow> bytes" where
  "dest_key optionID req =
     (if optionID = OptionAllowAlwaysOrigin then httpGrantOrigin @ originOf (URL req)
      else httpGrantURL @ addressOf (URL req))"

definition always_http :: "bytes \<Rightarrow> bool" where
  "always_http optionID \<longleftrightarrow>
     optionID \<in> {OptionAllowAlwaysOrigin, OptionAllowAlwaysURL, OptionAllowAlways}"

lemma record_http_set:
  assumes "always_http optionID"
  shows "set (PermissionHTTPGrants (recordHTTPGrants (Some req) optionID st)) =
    set (PermissionHTTPGrants st) \<union>
      (trim_space ` ({dest_key optionID req} \<union> extra_key ` set (httpExtras req)) - {[]})"
proof -
  have "set (PermissionHTTPGrants (recordHTTPGrants (Some req) optionID st)) =
      set (foldl (\<lambda>gs k. add_if_new k gs) (add_if_new (dest_key optionID req) (PermissionHTTPGrants st))
        (map extra_key (httpExtras req)))"
    using assms http_foldl [of "AddHTTPGrantIfNew (dest_key optionID req) st" "httpExtras req"]
    by (auto simp: recordHTTPGrants_def dest_key_def always_http_def PermissionHTTPGrants_add)
  also have "\<dots> = set (foldl (\<lambda>gs k. add_if_new k gs) (PermissionHTTPGrants st)
      (dest_key optionID req # map extra_key (httpExtras req)))"
    by simp
  finally show ?thesis unfolding set_foldl_add by simp
qed

text \<open>The strings the grant keys of a request are built from hold no white space at their ends.\<close>

definition clean_keys :: "bytes \<Rightarrow> http_request \<Rightarrow> bool" where
  "clean_keys optionID req \<longleftrightarrow>
     list_all (\<lambda>k. trim_space k = k) (dest_key optionID req # map extra_key (httpExtras req))"

lemma clean_keys_set:
  assumes "clean_keys optionID req"
  shows "trim_space ` ({dest_key optionID req} \<union> extra_key ` set (httpExtras req)) =
    {dest_key optionID req} \<union> extra_key ` set (httpExtras req)"
  using assms by (force simp: clean_keys_def list_all_iff image_iff)

lemma key_nonempty:
  "[] \<notin> {dest_key optionID req} \<union> extra_key ` set (httpExtras req)"
  by (auto simp: dest_key_def httpExtras_def http_keys Let_def split: if_splits)

lemma record_http_grants:
  assumes "always_http optionID" "clean_keys optionID req"
  shows "set (PermissionHTTPGrants (recordHTTPGrants (Some req) optionID st)) =
    set (PermissionHTTPGrants st) \<union> {dest_key optionID req} \<union> extra_key ` set (httpExtras req)"
  unfolding record_http_set [OF assms(1)] clean_keys_set [OF assms(2)]
  using key_nonempty [of optionID req] by auto

text \<open>
  An "always" answer on an http request is remembered: the same request asks no second time,
  with everything it carries (files, proxy, unchecked certificate, saved file), whatever else the
  session had granted and whatever the operator's allowlist says.
\<close>

theorem http_grant_roundtrip:
  assumes "always_http optionID" "clean_keys optionID req"
  shows "HTTPRequestAllowedWithSession parse (Some e)
    (PermissionHTTPGrants (recordHTTPGrants (Some req) optionID st)) (Some req)"
  using record_http_grants [OF assms, of st] assms(1)
  by (auto simp: HTTPRequestAllowedWithSession_def Let_def hasGrant_iff list_all_iff dest_key_def
      split: if_splits)

definition example_request :: http_request where
  "example_request =
     \<lparr>URL = \<lparr>Scheme = ''https'', Hostname = ''API.example.com'', Port = ''443'', EscapedPath = ''/v1''\<rparr>,
      Files = [''/w/a.bin''], OutputFile = ''/w/out'', Proxy = None, InsecureTLS = True\<rparr>"

definition no_grants :: grants where
  "no_grants = \<lparr>PermissionCommandGrants = [], PermissionWriteGrants = [], PermissionHTTPGrants = []\<rparr>"

theorem http_grant_roundtrip_witness:
  "HTTPRequestAllowedWithSession (\<lambda>_. None)
     (Some \<lparr>Shell = ShellBash, CommandAllowlist = [], HTTPAllowlist = [], PermissionMode = PermModeAsk\<rparr>)
     (PermissionHTTPGrants (recordHTTPGrants (Some example_request) OptionAllowAlwaysOrigin no_grants))
     (Some example_request)"
  by (rule http_grant_roundtrip) code_simp+

subsection \<open>A grant stays with its origin\<close>

lemma append_sep_inject:
  assumes "c \<notin> set a" "c \<notin> set a'" "a @ c # b = a' @ c # b'"
  shows "a = a' \<and> b = b'"
proof -
  have "takeWhile (\<lambda>x. x \<noteq> c) (a @ c # b) = a" "takeWhile (\<lambda>x. x \<noteq> c) (a' @ c # b') = a'"
    using assms(1,2) by (auto simp: takeWhile_append)
  with assms(3) show ?thesis by simp
qed

lemma extra_cases:
  assumes "x \<in> set (httpExtras r)"
  shows "(\<exists>p\<in>set (Files r). extra_key x = httpGrantFile @ originOf (URL r) @ ''|'' @ p) \<or>
    extra_key x = httpGrantProxy @ originOf (URL r) @ ''|'' @ ProxyOrigin r \<and> ProxyOrigin r \<noteq> [] \<or>
    extra_key x = httpGrantInsecure @ originOf (URL r) \<and> InsecureTLS r \<or>
    extra_key x = httpGrantOutput @ OutputFile r \<and> OutputFile r \<noteq> []"
  using assms by (auto simp: httpExtras_def Let_def split: if_splits)

text \<open>
  What an approval of \<open>req\<close> lets \<open>r\<close> do: the destination must be the approved one, and everything
  \<open>r\<close> carries must have been carried by \<open>req\<close>, to the same origin.
\<close>

definition within_approval :: "bytes \<Rightarrow> env \<Rightarrow> http_request \<Rightarrow> http_request \<Rightarrow> bool" where
  "within_approval optionID e req r \<longleftrightarrow>
     (if optionID = OptionAllowAlwaysOrigin then originOf (URL r) = originOf (URL req)
      else addressOf (URL r) = addressOf (URL req)) \<and>
     list_all (\<lambda>p. originOf (URL r) = originOf (URL req) \<and> p \<in> set (Files req)) (Files r) \<and>
     (ProxyOrigin r = [] \<or> originOf (URL r) = originOf (URL req) \<and> ProxyOrigin r = ProxyOrigin req) \<and>
     (\<not> InsecureTLS r \<or> originOf (URL r) = originOf (URL req) \<and> InsecureTLS req) \<and>
     (OutputFile r = [] \<or> PermissionMode e = PermModeAcceptEdits \<or> OutputFile r = OutputFile req)"

lemma file_key_within:
  assumes "httpGrantFile @ originOf (URL r) @ ''|'' @ p \<in> extra_key ` set (httpExtras req)"
    and "CHR ''|'' \<notin> set (originOf (URL req))" "CHR ''|'' \<notin> set (originOf (URL r))"
  shows "originOf (URL r) = originOf (URL req) \<and> p \<in> set (Files req)"
proof -
  obtain y where "y \<in> set (httpExtras req)"
    and key: "httpGrantFile @ originOf (URL r) @ ''|'' @ p = extra_key y"
    using assms(1) by blast
  from extra_cases [OF this(1)] obtain p' where "p' \<in> set (Files req)"
    "originOf (URL r) @ CHR ''|'' # p = originOf (URL req) @ CHR ''|'' # p'"
    unfolding key [symmetric] by (auto simp: http_keys)
  with append_sep_inject [OF assms(3,2)] show ?thesis by blast
qed

lemma proxy_key_within:
  assumes "httpGrantProxy @ originOf (URL r) @ ''|'' @ q \<in> extra_key ` set (httpExtras req)"
    and "CHR ''|'' \<notin> set (originOf (URL req))" "CHR ''|'' \<notin> set (originOf (URL r))"
  shows "originOf (URL r) = originOf (URL req) \<and> q = ProxyOrigin req"
proof -
  obtain y where "y \<in> set (httpExtras req)"
    and key: "httpGrantProxy @ originOf (URL r) @ ''|'' @ q = extra_key y"
    using assms(1) by blast
  from extra_cases [OF this(1)]
  have "originOf (URL r) @ CHR ''|'' # q = originOf (URL req) @ CHR ''|'' # ProxyOrigin req"
    unfolding key [symmetric] by (auto simp: http_keys)
  with append_sep_inject [OF assms(3,2)] show ?thesis by blast
qed

lemma insecure_key_within:
  assumes "httpGrantInsecure @ origin \<in> extra_key ` set (httpExtras req)"
  shows "origin = originOf (URL req) \<and> InsecureTLS req"
proof -
  obtain y where "y \<in> set (httpExtras req)" and key: "httpGrantInsecure @ origin = extra_key y"
    using assms(1) by blast
  from extra_cases [OF this(1)] show ?thesis
    unfolding key [symmetric] by (auto simp: http_keys)
qed

lemma output_key_within:
  assumes "httpGrantOutput @ f \<in> extra_key ` set (httpExtras req)"
  shows "f = OutputFile req"
proof -
  obtain y where "y \<in> set (httpExtras req)" and key: "httpGrantOutput @ f = extra_key y"
    using assms(1) by blast
  from extra_cases [OF this(1)] show ?thesis
    unfolding key [symmetric] by (auto simp: http_keys)
qed

lemma dest_not_extra:
  "httpGrantOrigin @ s \<notin> extra_key ` set (httpExtras req)"
  "httpGrantURL @ s \<notin> extra_key ` set (httpExtras req)"
proof -
  have "hd (extra_key y) \<in> set ''fpi'' \<or> prefix httpGrantOutput (extra_key y)" if "y \<in> set (httpExtras req)" for y
    using extra_cases [OF that] by (auto simp: http_keys)
  then have "extra_key y \<noteq> httpGrantOrigin @ s \<and> extra_key y \<noteq> httpGrantURL @ s"
    if "y \<in> set (httpExtras req)" for y
    using that by (fastforce simp: http_keys)
  then show "httpGrantOrigin @ s \<notin> extra_key ` set (httpExtras req)"
    "httpGrantURL @ s \<notin> extra_key ` set (httpExtras req)" by (metis imageE)+
qed

lemma extra_not_dest:
  "httpGrantFile @ s \<noteq> dest_key optionID req" "httpGrantProxy @ s \<noteq> dest_key optionID req"
  "httpGrantInsecure @ s \<noteq> dest_key optionID req" "httpGrantOutput @ s \<noteq> dest_key optionID req"
  by (simp_all add: dest_key_def http_keys)



section \<open>Two corners of the grants\<close>

text \<open>
  The grant "allow always" stores for one exact command is also read as a prefix, so it reaches
  longer plain commands; and the program-wide grant of a command whose words two spaces separate
  does not cover that command.
\<close>

lemma exact_grant_reaches_further:
  "sessionGrantAllows [''rm -rf build''] ''rm -rf build /home''"
  by code_simp

lemma program_grant_misses_wide_spacing:
  "ProgramGrant ''git  status'' = Some ''git status'' \<and>
   \<not> sessionGrantAllows [''git status''] ''git  status''"
  by code_simp

end
