(* ===== verification/LineDiff.thy ===== *)
theory LineDiff
  imports GoPrelude
begin

text \<open>
  Line differences of two file contents: \<^verbatim>\<open>internal/linediff/linediff.go\<close>.  Slices are lists,
  indexing and slicing check their bounds (\<open>None\<close> is the run-time panic), loops are recursive
  functions, and the two arrays of the snake search are passed and returned.
\<close>

section \<open>Lines and operations\<close>

datatype op_kind = opEqual | opDelete | opInsert

instantiation op_kind :: linorder
begin

fun rank :: "op_kind \<Rightarrow> nat" where
  "rank opEqual = 0" | "rank opDelete = 1" | "rank opInsert = 2"

definition less_eq_op_kind :: "op_kind \<Rightarrow> op_kind \<Rightarrow> bool" where
  "less_eq_op_kind x y \<longleftrightarrow> rank x \<le> rank y"

definition less_op_kind :: "op_kind \<Rightarrow> op_kind \<Rightarrow> bool" where
  "less_op_kind x y \<longleftrightarrow> rank x < rank y"

lemma rank_inject: "rank x = rank y \<Longrightarrow> x = y"
  by (cases x; cases y) simp_all

instance
  by standard (auto simp: less_eq_op_kind_def less_op_kind_def rank_inject)

end

record op =
  kind :: op_kind
  line :: bytes

definition newline :: char where "newline = CHR 0x0A"

text \<open>\<^verbatim>\<open>strings.SplitAfter(s, "\n")\<close>.\<close>

fun split_after :: "bytes \<Rightarrow> bytes list" where
  "split_after [] = [[]]"
| "split_after (c # s) =
     (if c = newline then [c] # split_after s
      else (case split_after s of [] \<Rightarrow> [[c]] | w # ws \<Rightarrow> (c # w) # ws))"

definition splitLines :: "bytes \<Rightarrow> bytes list" where
  "splitLines s =
     (if s = [] then []
      else let lines = split_after s in if last lines = [] then butlast lines else lines)"

definition equal_op :: "bytes \<Rightarrow> op" where "equal_op t = \<lparr>kind = opEqual, line = t\<rparr>"
definition delete_op :: "bytes \<Rightarrow> op" where "delete_op t = \<lparr>kind = opDelete, line = t\<rparr>"
definition insert_op :: "bytes \<Rightarrow> op" where "insert_op t = \<lparr>kind = opInsert, line = t\<rparr>"

section \<open>The middle snake\<close>

definition snakeBudget :: int where "snakeBudget = 16000000"

text \<open>The inner loop of the forward search, and of the backward one.\<close>

function slide :: "bytes list \<Rightarrow> bytes list \<Rightarrow> int \<Rightarrow> int \<Rightarrow> (int \<times> int) option" where
  "slide a b px py =
     (if px < int (length a) \<and> py < int (length b) then
        (case idx a px of None \<Rightarrow> None | Some s \<Rightarrow>
         case idx b py of None \<Rightarrow> None | Some t \<Rightarrow>
           if s = t then slide a b (px + 1) (py + 1) else Some (px, py))
      else Some (px, py))"
  by pat_completeness auto
termination by (relation "measure (\<lambda>(a, b, px, py). nat (int (length a) - px))") auto

function back_slide :: "bytes list \<Rightarrow> bytes list \<Rightarrow> int \<Rightarrow> int \<Rightarrow> (int \<times> int) option" where
  "back_slide a b px py =
     (if px < int (length a) \<and> py < int (length b) then
        (case idx a (int (length a) - 1 - px) of None \<Rightarrow> None | Some s \<Rightarrow>
         case idx b (int (length b) - 1 - py) of None \<Rightarrow> None | Some t \<Rightarrow>
           if s = t then back_slide a b (px + 1) (py + 1) else Some (px, py))
      else Some (px, py))"
  by pat_completeness auto
termination by (relation "measure (\<lambda>(a, b, px, py). nat (int (length a) - px))") auto

declare slide.simps [simp del] back_slide.simps [simp del]

text \<open>The choice of the predecessor diagonal; the code reads the left slot only when it must.\<close>

definition furthest :: "int list \<Rightarrow> int \<Rightarrow> int \<Rightarrow> int \<Rightarrow> int option" where
  "furthest V off d k =
     (if k = - d then idx V (off + k + 1)
      else if k \<noteq> d then
        (case idx V (off + k - 1) of None \<Rightarrow> None | Some l \<Rightarrow>
         case idx V (off + k + 1) of None \<Rightarrow> None | Some r \<Rightarrow>
           if l < r then Some r else Some (l + 1))
      else map_option (\<lambda>l. l + 1) (idx V (off + k - 1)))"

datatype row = Row (slots: "int list") | Found int int int int

text \<open>One edit distance of the forward search, from diagonal \<open>k\<close> on.\<close>

function forward_row ::
    "bytes list \<Rightarrow> bytes list \<Rightarrow> int \<Rightarrow> int \<Rightarrow> int list \<Rightarrow> int list \<Rightarrow> int \<Rightarrow> row option" where
  "forward_row a b off d backward forward k =
     (if k > d then Some (Row forward)
      else
        (case furthest forward off d k of None \<Rightarrow> None | Some startX \<Rightarrow>
         let startY = startX - k; delta = int (length a) - int (length b); reverseK = delta - k in
         case slide a b startX startY of None \<Rightarrow> None | Some (px, py) \<Rightarrow>
         case upd forward (off + k) px of None \<Rightarrow> None | Some forward' \<Rightarrow>
           if delta mod 2 \<noteq> 0 \<and> - (d - 1) \<le> reverseK \<and> reverseK \<le> d - 1 then
             (case idx backward (off + reverseK) of None \<Rightarrow> None | Some q \<Rightarrow>
                if px + q \<ge> int (length a) then Some (Found startX startY px py)
                else forward_row a b off d backward forward' (k + 2))
           else forward_row a b off d backward forward' (k + 2)))"
  by pat_completeness auto
termination by (relation "measure (\<lambda>(a, b, off, d, backward, forward, k). nat (d + 1 - k))") auto

function backward_row ::
    "bytes list \<Rightarrow> bytes list \<Rightarrow> int \<Rightarrow> int \<Rightarrow> int list \<Rightarrow> int list \<Rightarrow> int \<Rightarrow> row option" where
  "backward_row a b off d forward backward k =
     (if k > d then Some (Row backward)
      else
        (case furthest backward off d k of None \<Rightarrow> None | Some startX \<Rightarrow>
         let startY = startX - k; n = int (length a); m = int (length b); delta = n - m;
             forwardK = delta - k in
         case back_slide a b startX startY of None \<Rightarrow> None | Some (px, py) \<Rightarrow>
         case upd backward (off + k) px of None \<Rightarrow> None | Some backward' \<Rightarrow>
           if delta mod 2 = 0 \<and> - d \<le> forwardK \<and> forwardK \<le> d then
             (case idx forward (off + forwardK) of None \<Rightarrow> None | Some q \<Rightarrow>
                if px + q \<ge> n then Some (Found (n - px) (m - py) (n - startX) (m - startY))
                else backward_row a b off d forward backward' (k + 2))
           else backward_row a b off d forward backward' (k + 2)))"
  by pat_completeness auto
termination by (relation "measure (\<lambda>(a, b, off, d, forward, backward, k). nat (d + 1 - k))") auto

declare forward_row.simps [simp del] backward_row.simps [simp del]

text \<open>\<open>Some None\<close> is the search that ran out of its budget.\<close>

function snake_loop ::
    "bytes list \<Rightarrow> bytes list \<Rightarrow> int \<Rightarrow> int \<Rightarrow> int list \<Rightarrow> int list \<Rightarrow> int \<Rightarrow>
     (int \<times> int \<times> int \<times> int) option option" where
  "snake_loop a b off maxD forward backward d =
     (if d > maxD then Some None
      else
        (case forward_row a b off d backward forward (- d) of
           None \<Rightarrow> None
         | Some (Found x y u v) \<Rightarrow> Some (Some (x, y, u, v))
         | Some (Row forward') \<Rightarrow>
             (case backward_row a b off d forward' backward (- d) of
                None \<Rightarrow> None
              | Some (Found x y u v) \<Rightarrow> Some (Some (x, y, u, v))
              | Some (Row backward') \<Rightarrow> snake_loop a b off maxD forward' backward' (d + 1))))"
  by pat_completeness auto
termination by (relation "measure (\<lambda>(a, b, off, maxD, forward, backward, d). nat (maxD + 1 - d))") auto

declare snake_loop.simps [simp del]

definition middleSnake :: "bytes list \<Rightarrow> bytes list \<Rightarrow> (int \<times> int \<times> int \<times> int) option option" where
  "middleSnake a b =
     (let span = int (length a) + int (length b); off = span + 1;
          zeros = replicate (nat (2 * span + 3)) 0;
          budget = snakeBudget div (span + 1);
          maxD = (span + 1) div 2;
          maxD = (if budget < maxD then budget else maxD)
      in case upd zeros (off + 1) 0 of
           None \<Rightarrow> None
         | Some V \<Rightarrow> snake_loop a b off maxD V V 0)"

section \<open>The edit script\<close>

fun common :: "bytes list \<Rightarrow> bytes list \<Rightarrow> nat" where
  "common (s # a) (t # b) = (if s = t then Suc (common a b) else 0)"
| "common _ _ = 0"

text \<open>\<^verbatim>\<open>a[:x]\<close> and \<^verbatim>\<open>a[x:]\<close>.\<close>

definition slice_to :: "'a list \<Rightarrow> int \<Rightarrow> 'a list option" where
  "slice_to a x = (if 0 \<le> x \<and> x \<le> int (length a) then Some (take (nat x) a) else None)"

definition slice_from :: "'a list \<Rightarrow> int \<Rightarrow> 'a list option" where
  "slice_from a x = (if 0 \<le> x \<and> x \<le> int (length a) then Some (drop (nat x) a) else None)"

text \<open>The loop that emits the lines of the snake.\<close>

function equal_run :: "bytes list \<Rightarrow> int \<Rightarrow> int \<Rightarrow> op list option" where
  "equal_run a i u =
     (if i < u then
        (case idx a i of None \<Rightarrow> None
         | Some t \<Rightarrow> map_option ((#) (equal_op t)) (equal_run a (i + 1) u))
      else Some [])"
  by pat_completeness auto
termination by (relation "measure (\<lambda>(a, i, u). nat (u - i))") auto

declare equal_run.simps [simp del]

text \<open>The lines left once the common prefix and then the common suffix are peeled.\<close>

definition peel_prefix :: "bytes list \<Rightarrow> bytes list \<Rightarrow> nat" where
  "peel_prefix a b = common a b"

definition peel_suffix :: "bytes list \<Rightarrow> bytes list \<Rightarrow> nat" where
  "peel_suffix a b = common (rev a) (rev b)"

end
