(* ===== verification/LineDiff_Snake.thy ===== *)
theory LineDiff_Snake
  imports LineDiff
begin

text \<open>
  The middle-snake search never indexes out of bounds and returns a snake inside the grid that
  splits the problem into two smaller ones.  The arrays are compared with the function \<open>far\<close>:
  the furthest x coordinate on a diagonal after d edits.
\<close>

section \<open>Sliding along a diagonal\<close>

definition reach :: "bytes list \<Rightarrow> bytes list \<Rightarrow> int \<Rightarrow> int \<Rightarrow> int" where
  "reach a b x y = x + int (common (drop (nat x) a) (drop (nat y) b))"

lemma common_le: "common xs ys \<le> length xs" "common xs ys \<le> length ys"
  by (induction xs ys rule: common.induct) auto

lemma common_take: "take (common xs ys) xs = take (common xs ys) ys"
  by (induction xs ys rule: common.induct) auto

lemma common_zero_iff: "common xs ys = 0 \<longleftrightarrow> xs = [] \<or> ys = [] \<or> hd xs \<noteq> hd ys"
  by (cases xs; cases ys) auto

lemma common_Nil [simp]: "common [] ys = 0" "common xs [] = 0"
  by (cases xs; simp)+

lemma reach_ge: "x \<le> reach a b x y"
  by (simp add: reach_def)

lemma common_drop:
  assumes "0 \<le> x" "0 \<le> y"
  shows "int (common (drop (nat x) a) (drop (nat y) b)) \<le> max 0 (int (length a) - x)"
    "int (common (drop (nat x) a) (drop (nat y) b)) \<le> max 0 (int (length b) - y)"
  using common_le [of "drop (nat x) a" "drop (nat y) b"] assms by simp_all linarith+

lemma reach_le:
  assumes "0 \<le> x" "0 \<le> y"
  shows "reach a b x y \<le> max x (int (length a))" "y + (reach a b x y - x) \<le> max y (int (length b))"
  using common_drop [OF assms, of a b] by (auto simp: reach_def)

lemma reach_moved:
  assumes "0 \<le> x" "0 \<le> y" "x < reach a b x y"
  shows "reach a b x y \<le> int (length a) \<and> y + (reach a b x y - x) \<le> int (length b)"
proof -
  have "x < int (length a)" "y < int (length b)"
    using common_drop [OF assms(1,2), of a b] assms(3) by (auto simp: reach_def)
  with reach_le [OF assms(1,2), of a b] show ?thesis by auto
qed

lemma reach_snake:
  "take (nat (reach a b x y - x)) (drop (nat x) a) = take (nat (reach a b x y - x)) (drop (nat y) b)"
  using common_take by (simp add: reach_def)

lemma drop_at:
  assumes "0 \<le> p" "p < int (length xs)"
  shows "drop (nat p) xs = xs ! nat p # drop (nat (p + 1)) xs"
proof -
  have "nat (p + 1) = Suc (nat p)" "nat p < length xs" using assms by auto
  then show ?thesis by (metis Cons_nth_drop_Suc)
qed

lemma slide_reach:
  assumes "0 \<le> px" "0 \<le> py"
  shows "slide a b px py = Some (reach a b px py, py + (reach a b px py - px))"
  using assms
proof (induction a b px py rule: slide.induct)
  case (1 a b px py)
  show ?case
  proof (cases "px < int (length a) \<and> py < int (length b)")
    case True
    then have drops: "drop (nat px) a = a ! nat px # drop (nat (px + 1)) a"
      "drop (nat py) b = b ! nat py # drop (nat (py + 1)) b"
      using 1(2,3) drop_at by blast+
    show ?thesis
    proof (cases "a ! nat px = b ! nat py")
      case eq: True
      then have "slide a b (px + 1) (py + 1) =
          Some (reach a b (px + 1) (py + 1), py + 1 + (reach a b (px + 1) (py + 1) - (px + 1)))"
        using 1 True by simp
      then show ?thesis using 1(2,3) True eq drops by (subst slide.simps) (simp add: reach_def)
    next
      case False
      then show ?thesis using 1(2,3) True drops by (subst slide.simps) (simp add: reach_def)
    qed
  next
    case False
    then show ?thesis using 1(2,3) by (subst slide.simps) (auto simp: reach_def)
  qed
qed

lemma idx_mirror: "p < int (length xs) \<Longrightarrow> idx xs (int (length xs) - 1 - p) = idx (rev xs) p"
proof -
  assume p: "p < int (length xs)"
  show ?thesis
  proof (cases "0 \<le> p")
    case True
    with p have "nat (int (length xs) - 1 - p) = length xs - Suc (nat p)" by linarith
    with True p show ?thesis by (simp add: rev_nth)
  qed (use p in \<open>auto simp: idx_def\<close>)
qed

lemma back_slide_rev: "back_slide a b px py = slide (rev a) (rev b) px py"
proof (induction a b px py rule: back_slide.induct)
  case (1 a b px py)
  show ?case
  proof (cases "px < int (length a) \<and> py < int (length b)")
    case True
    note slide.simps [of "rev a" "rev b" px py] back_slide.simps [of a b px py]
    then show ?thesis
      using 1 True idx_mirror [of px a] idx_mirror [of py b] by (simp split: option.split)
  next
    case False
    then show ?thesis
      by (simp only: back_slide.simps [of a b px py] slide.simps [of "rev a" "rev b" px py] length_rev if_False)
  qed
qed

section \<open>The furthest points\<close>

definition start_of :: "(int \<Rightarrow> int) \<Rightarrow> int \<Rightarrow> int \<Rightarrow> int" where
  "start_of prev d k =
     (if k = - d \<or> k \<noteq> d \<and> prev (k - 1) < prev (k + 1) then prev (k + 1) else prev (k - 1) + 1)"

fun far :: "bytes list \<Rightarrow> bytes list \<Rightarrow> nat \<Rightarrow> int \<Rightarrow> int" where
  "far a b 0 k = reach a b 0 0"
| "far a b (Suc d) k =
     (let x = start_of (far a b d) (int (Suc d)) k in reach a b x (x - k))"

definition far_from :: "bytes list \<Rightarrow> bytes list \<Rightarrow> nat \<Rightarrow> int \<Rightarrow> int" where
  "far_from a b d k = (case d of 0 \<Rightarrow> 0 | Suc d' \<Rightarrow> start_of (far a b d') (int d) k)"

text \<open>The diagonals visited at distance d.\<close>

definition visits :: "nat \<Rightarrow> int \<Rightarrow> bool" where
  "visits d k \<longleftrightarrow> \<bar>k\<bar> \<le> int d \<and> even (int d + k)"

lemma visits_0 [simp]: "visits 0 k \<longleftrightarrow> k = 0"
  by (auto simp: visits_def)

lemma visits_Suc_cases:
  assumes "visits (Suc d) k"
  obtains "k = - int (Suc d)" "visits d (k + 1)" | "k = int (Suc d)" "visits d (k - 1)"
    | "k \<noteq> - int (Suc d)" "k \<noteq> int (Suc d)" "visits d (k - 1)" "visits d (k + 1)"
proof -
  consider "k = - int (Suc d)" | "k = int (Suc d)" | "k \<noteq> - int (Suc d)" "k \<noteq> int (Suc d)" by blast
  then show thesis
  proof cases
    case 1
    then show ?thesis by (intro that(1)) (simp_all add: visits_def)
  next
    case 2
    then show ?thesis by (intro that(2)) (simp_all add: visits_def)
  next
    case 3
    then have *: "\<bar>k\<bar> < int (Suc d)" "even (int (Suc d) + k)" using assms by (auto simp: visits_def)
    have "\<bar>k\<bar> \<noteq> int d"
    proof
      assume "\<bar>k\<bar> = int d"
      then have "int d + k = 2 * k \<or> int d + k = 0" by linarith
      then have "even (int d + k)" by (metis dvd_0_right dvd_triv_left)
      with *(2) show False by simp
    qed
    with * have "\<bar>k\<bar> \<le> int d" "\<bar>k\<bar> \<noteq> int d" by auto
    then have "visits d (k - 1)" "visits d (k + 1)"
      using *(2) by (auto simp: visits_def)
    with 3 show ?thesis by (rule that(3))
  qed
qed

lemma far_reach: "visits d k \<Longrightarrow> far a b d k = reach a b (far_from a b d k) (far_from a b d k - k)"
  by (cases d) (auto simp: far_from_def Let_def)

text \<open>The point on diagonal k is reached from a point on a neighbour diagonal.\<close>

lemma far_from_cases:
  assumes "visits (Suc d) k"
  obtains (down) "visits d (k + 1)" "far_from a b (Suc d) k = far a b d (k + 1)"
    | (right) "visits d (k - 1)" "far_from a b (Suc d) k = far a b d (k - 1) + 1"
proof -
  have start: "far_from a b (Suc d) k = start_of (far a b d) (int (Suc d)) k" by (simp add: far_from_def)
  from assms show thesis
  proof (cases rule: visits_Suc_cases)
    case 1
    then have "far_from a b (Suc d) k = far a b d (k + 1)" unfolding start start_of_def by simp
    with 1 show ?thesis by (intro down)
  next
    case 2
    then have "far_from a b (Suc d) k = far a b d (k - 1) + 1" unfolding start start_of_def by simp
    with 2 show ?thesis by (intro right)
  next
    case 3
    then show ?thesis
      by (cases "far a b d (k - 1) < far a b d (k + 1)") (simp_all add: start start_of_def down right)
  qed
qed

lemma far_from_bounds:
  "visits d k \<Longrightarrow> max 0 k \<le> far_from a b d k \<and> far_from a b d k \<le> far a b d k \<and>
     int d \<le> 2 * far_from a b d k - k"
proof (induction d arbitrary: k)
  case 0
  then show ?case using reach_ge [of 0 a b 0] by (simp add: far_from_def)
next
  case (Suc d)
  have up: "far_from a b (Suc d) k \<le> far a b (Suc d) k"
    unfolding far_reach [OF Suc.prems] by (rule reach_ge)
  from Suc.prems show ?case
  proof (cases rule: far_from_cases [where a = a and b = b])
    case down
    with Suc.IH [OF down(1)] up show ?thesis by auto
  next
    case right
    with Suc.IH [OF right(1)] up show ?thesis by auto
  qed
qed

lemma far_lower: "visits d k \<Longrightarrow> 0 \<le> far a b d k \<and> k \<le> far a b d k \<and> int d \<le> 2 * far a b d k - k"
  using far_from_bounds [of d k a b] by auto

lemma far_mono:
  assumes "visits d k"
  shows "far a b d k + 1 \<le> far a b (Suc d) (k + 1)" "far a b d k \<le> far a b (Suc d) (k - 1)"
proof -
  have v: "visits (Suc d) (k + 1)" "visits (Suc d) (k - 1)" "k + 1 \<noteq> - int (Suc d)" "k - 1 \<noteq> int (Suc d)"
    using assms by (auto simp: visits_def)
  then have "far a b d k + 1 \<le> far_from a b (Suc d) (k + 1)" "far a b d k \<le> far_from a b (Suc d) (k - 1)"
    by (auto simp: far_from_def start_of_def add.commute)
  then show "far a b d k + 1 \<le> far a b (Suc d) (k + 1)" "far a b d k \<le> far a b (Suc d) (k - 1)"
    using far_from_bounds [OF v(1), of a b] far_from_bounds [OF v(2), of a b] by auto
qed

text \<open>A move that slides stays in the grid, so points leave it one step at a time.\<close>

lemma far_slid:
  assumes "visits d k"
  shows "far a b d k = far_from a b d k \<or>
    far a b d k \<le> int (length a) \<and> far a b d k - k \<le> int (length b)"
proof -
  have "0 \<le> far_from a b d k" "0 \<le> far_from a b d k - k"
    using far_from_bounds [OF assms, of a b] by auto
  from reach_moved [OF this, of a b] show ?thesis
    using far_reach [OF assms, of a b] far_from_bounds [OF assms, of a b] by auto
qed

lemma overshoot:
  "visits d k \<Longrightarrow> max 0 (far a b d k - int (length a)) + max 0 (far a b d k - k - int (length b)) \<le> int d"
proof (induction d arbitrary: k)
  case 0
  then show ?case using far_slid [of 0 k a b] by (auto simp: far_from_def)
next
  case (Suc d)
  from far_slid [OF Suc.prems, of a b] show ?case
  proof
    assume stay: "far a b (Suc d) k = far_from a b (Suc d) k"
    from Suc.prems show ?thesis
    proof (cases rule: far_from_cases [where a = a and b = b])
      case down
      with Suc.IH [OF down(1)] stay show ?thesis by auto
    next
      case right
      with Suc.IH [OF right(1)] stay show ?thesis by auto
    qed
  qed auto
qed

lemma beyond_x:
  "visits d k \<Longrightarrow> int (length a) < far a b d k \<Longrightarrow>
     0 < d \<and> visits (d - 1) (k - 1) \<and> int (length a) \<le> far a b (d - 1) (k - 1)"
proof (induction d arbitrary: k)
  case 0
  then show ?case using far_slid [of 0 k a b] by (auto simp: far_from_def)
next
  case (Suc d)
  then have stay: "far a b (Suc d) k = far_from a b (Suc d) k" using far_slid [of "Suc d" k a b] by auto
  from Suc.prems(1) show ?case
  proof (cases rule: far_from_cases [where a = a and b = b])
    case down
    with Suc stay have *: "0 < d" "visits (d - 1) k" "int (length a) \<le> far a b (d - 1) k"
      using Suc.IH [OF down(1)] by auto
    then have "far a b (d - 1) k \<le> far a b d (k - 1)" using far_mono(2) [OF *(2), of a b] by simp
    moreover have "visits d (k - 1)" using * by (auto simp: visits_def)
    ultimately show ?thesis using * by simp
  next
    case right
    with Suc.prems stay show ?thesis by auto
  qed
qed

lemma beyond_y:
  "visits d k \<Longrightarrow> int (length b) < far a b d k - k \<Longrightarrow>
     0 < d \<and> visits (d - 1) (k + 1) \<and> int (length b) \<le> far a b (d - 1) (k + 1) - (k + 1)"
proof (induction d arbitrary: k)
  case 0
  then show ?case using far_slid [of 0 k a b] by (auto simp: far_from_def)
next
  case (Suc d)
  then have stay: "far a b (Suc d) k = far_from a b (Suc d) k" using far_slid [of "Suc d" k a b] by auto
  from Suc.prems(1) show ?case
  proof (cases rule: far_from_cases [where a = a and b = b])
    case right
    with Suc stay have *: "0 < d" "visits (d - 1) k" "int (length b) \<le> far a b (d - 1) k - k"
      using Suc.IH [OF right(1)] by auto
    then have "far a b (d - 1) k + 1 \<le> far a b d (k + 1)" using far_mono(1) [OF *(2), of a b] by simp
    moreover have "visits d (k + 1)" using * by (auto simp: visits_def)
    ultimately show ?thesis using * by simp
  next
    case down
    with Suc.prems stay show ?thesis by auto
  qed
qed

section \<open>The first overlap\<close>

text \<open>
  The check at distance d against the other search at distance e (d - 1 in the forward search, d
  in the backward one); \<open>a'\<close>, \<open>b'\<close> are the lists that search walks.
\<close>

definition overlap ::
    "bytes list \<Rightarrow> bytes list \<Rightarrow> bytes list \<Rightarrow> bytes list \<Rightarrow> nat \<Rightarrow> int \<Rightarrow> int \<Rightarrow> bool" where
  "overlap a b a' b' d e k \<longleftrightarrow>
     (let delta = int (length a) - int (length b) in
      visits d k \<and> \<bar>delta - k\<bar> \<le> e \<and>
      int (length a) \<le> far a b d k + far a' b' (nat e) (delta - k))"

lemma first_overlap_in_grid:
  assumes hit: "overlap a b a' b' d e k" and e: "e = int d \<or> e = int d - 1"
    and parity: "even (e + (int (length a) - int (length b) - k))"
    and first: "\<And>k'. 0 < d \<Longrightarrow> \<not> overlap a b a' b' (d - 1) (e - 1) k'"
  shows "far a b d k \<le> int (length a) \<and> far a b d k - k \<le> int (length b)"
proof
  let ?delta = "int (length a) - int (length b)"
  have v: "visits d k" and range: "\<bar>?delta - k\<bar> \<le> e"
    using hit by (auto simp: overlap_def Let_def)
  have other: "0 \<le> far a' b' (nat (e - 1)) j \<and> j \<le> far a' b' (nat (e - 1)) j"
    if "\<bar>j\<bar> \<le> e - 1" "even (e - 1 + j)" for j
  proof -
    have "0 < e" using that(1) by linarith
    then have "visits (nat (e - 1)) j" using that by (simp add: visits_def)
    then show ?thesis using far_lower by blast
  qed
  show "far a b d k \<le> int (length a)"
  proof (rule ccontr)
    assume "\<not> ?thesis"
    then have x: "int (length a) < far a b d k" by simp
    from beyond_x [OF v x] have p: "0 < d" "visits (d - 1) (k - 1)" "int (length a) \<le> far a b (d - 1) (k - 1)"
      by auto
    show False
    proof (cases "\<bar>?delta - (k - 1)\<bar> \<le> e - 1")
      case True
      moreover have "even (e - 1 + (?delta - (k - 1)))" using parity by auto
      ultimately show False
        using first [OF p(1), of "k - 1"] p other [of "?delta - (k - 1)"]
        by (auto simp: overlap_def Let_def)
    next
      case False
      then have "?delta - k = e" using range parity by presburger
      then have "far a b d k - k - int (length b) = (far a b d k - int (length a)) + e" by simp
      with overshoot [OF v, of a b] x e range show False by auto
    qed
  qed
  show "far a b d k - k \<le> int (length b)"
  proof (rule ccontr)
    assume "\<not> ?thesis"
    then have y: "int (length b) < far a b d k - k" by simp
    from beyond_y [OF v y] have p: "0 < d" "visits (d - 1) (k + 1)"
      "int (length b) \<le> far a b (d - 1) (k + 1) - (k + 1)" by auto
    show False
    proof (cases "\<bar>?delta - (k + 1)\<bar> \<le> e - 1")
      case True
      moreover have "even (e - 1 + (?delta - (k + 1)))" using parity by auto
      ultimately show False
        using first [OF p(1), of "k + 1"] p other [of "?delta - (k + 1)"]
        by (auto simp: overlap_def Let_def)
    next
      case False
      then have "k - ?delta = e" using range parity by presburger
      then have "far a b d k - int (length a) = (far a b d k - k - int (length b)) + e" by simp
      with overshoot [OF v, of a b] y e range show False by auto
    qed
  qed
qed

text \<open>The ends of the two lists differ, so the snake does not start in the far corner.\<close>

lemma first_overlap_start:
  assumes hit: "overlap a b a' b' d e k" and e: "e = int d \<or> e = int d - 1"
    and parity: "even (e + (int (length a) - int (length b) - k))"
    and first: "\<And>k'. 0 < d \<Longrightarrow> \<not> overlap a b a' b' (d - 1) (e - 1) k'"
    and ends: "a \<noteq> []" "b \<noteq> []" "hd a \<noteq> hd b" and d: "0 < d"
  shows "\<not> (far_from a b d k = int (length a) \<and> far_from a b d k - k = int (length b))"
proof
  let ?delta = "int (length a) - int (length b)"
  assume corner: "far_from a b d k = int (length a) \<and> far_from a b d k - k = int (length b)"
  then have k: "k = ?delta" by simp
  obtain d' where d': "d = Suc d'" using d by (cases d) auto
  have zero: "far a b 0 j = 0" for j using ends by (simp add: reach_def common_zero_iff)
  have v: "visits (Suc d') k" using hit d' by (simp add: overlap_def Let_def)
  have "d' \<noteq> 0"
  proof
    assume "d' = 0"
    from v corner show False
      by (cases rule: far_from_cases [where a = a and b = b])
        (use \<open>d' = 0\<close> d' zero ends in auto)
  qed
  then have e2: "2 \<le> e" using e parity k d' by auto
  have other: "0 \<le> far a' b' (nat (e - 1)) (- 1) \<and> 1 \<le> far a' b' (nat (e - 1)) 1"
  proof -
    have "visits (nat (e - 1)) (- 1)" "visits (nat (e - 1)) 1"
      using e2 parity k by (auto simp: visits_def)
    then show ?thesis using far_lower by blast
  qed
  from v show False
  proof (cases rule: far_from_cases [where a = a and b = b])
    case down
    with corner other e2 k have "overlap a b a' b' d' (e - 1) (k + 1)"
      by (simp add: overlap_def Let_def d')
    with first [of "k + 1"] d' show False by simp
  next
    case right
    with corner other e2 k have "overlap a b a' b' d' (e - 1) (k - 1)"
      by (simp add: overlap_def Let_def d')
    with first [of "k - 1"] d' show False by simp
  qed
qed

section \<open>The arrays\<close>

text \<open>
  Both rows are one row over the lists a search walks; \<open>chk\<close> says whether this search checks for
  an overlap, \<open>e\<close> how far the other search has come.
\<close>

function gen_row ::
    "bytes list \<Rightarrow> bytes list \<Rightarrow> int \<Rightarrow> int \<Rightarrow> bool \<Rightarrow> int \<Rightarrow> int list \<Rightarrow> int list \<Rightarrow> int \<Rightarrow> row option" where
  "gen_row a b off d chk e Q V k =
     (if k > d then Some (Row V)
      else
        (case furthest V off d k of None \<Rightarrow> None | Some sx \<Rightarrow>
         case slide a b sx (sx - k) of None \<Rightarrow> None | Some (px, py) \<Rightarrow>
         case upd V (off + k) px of None \<Rightarrow> None | Some V' \<Rightarrow>
           let j = int (length a) - int (length b) - k in
           if chk \<and> - e \<le> j \<and> j \<le> e then
             (case idx Q (off + j) of None \<Rightarrow> None | Some q \<Rightarrow>
                if px + q \<ge> int (length a) then Some (Found sx (sx - k) px py)
                else gen_row a b off d chk e Q V' (k + 2))
           else gen_row a b off d chk e Q V' (k + 2)))"
  by pat_completeness auto
termination by (relation "measure (\<lambda>(a, b, off, d, chk, e, Q, V, k). nat (d + 1 - k))") auto

declare gen_row.simps [simp del]

lemma forward_row_gen:
  "forward_row a b off d Q V k =
     gen_row a b off d ((int (length a) - int (length b)) mod 2 \<noteq> 0) (d - 1) Q V k"
proof (induction a b off d Q V k rule: forward_row.induct)
  case (1 a b off d Q V k)
  show ?case
    by (subst forward_row.simps, subst gen_row.simps)
      (auto simp: 1 Let_def split: option.split)
qed

definition flip_found :: "int \<Rightarrow> int \<Rightarrow> row \<Rightarrow> row" where
  "flip_found n m r =
     (case r of Row V \<Rightarrow> Row V | Found x y u v \<Rightarrow> Found (n - u) (m - v) (n - x) (m - y))"

lemma flip_found_simps [simp]:
  "flip_found n m (Row V) = Row V"
  "flip_found n m (Found x y u v) = Found (n - u) (m - v) (n - x) (m - y)"
  by (simp_all add: flip_found_def)

definition array_for :: "bytes list \<Rightarrow> bytes list \<Rightarrow> int \<Rightarrow> nat \<Rightarrow> int list \<Rightarrow> bool" where
  "array_for a b off d V \<longleftrightarrow>
     int (length V) = 2 * off + 1 \<and> (\<forall>k. visits d k \<longrightarrow> V ! nat (off + k) = far a b d k)"

definition array_before :: "bytes list \<Rightarrow> bytes list \<Rightarrow> int \<Rightarrow> nat \<Rightarrow> int list \<Rightarrow> bool" where
  "array_before a b off d V \<longleftrightarrow>
     int (length V) = 2 * off + 1 \<and>
     (if d = 0 then V ! nat (off + 1) = 0
      else \<forall>k. visits (d - 1) k \<longrightarrow> V ! nat (off + k) = far a b (d - 1) k)"

lemma furthest_far_from:
  assumes V: "array_before a b off d V" and k: "visits d k" and d: "int d + 1 \<le> off"
  shows "furthest V off (int d) k = Some (far_from a b d k)"
proof (cases d)
  case 0
  with assms show ?thesis
    by (auto simp: furthest_def array_before_def far_from_def)
next
  case (Suc d')
  have slot: "idx V (off + j) = Some (far a b d' j)" if "visits d' j" for j
    using V that d Suc by (auto simp: array_before_def idx_def visits_def)
  have right: "idx V (off + k + 1) = Some (far a b d' (k + 1))" if "visits d' (k + 1)"
    using slot [OF that] by (simp add: add.assoc)
  have left: "idx V (off + k - 1) = Some (far a b d' (k - 1))" if "visits d' (k - 1)"
    using slot [OF that] by (simp add: add_diff_eq)
  have start: "far_from a b d k = start_of (far a b d') (int d) k" by (simp add: far_from_def Suc)
  from k have "visits (Suc d') k" using Suc by simp
  then show ?thesis
  proof (cases rule: visits_Suc_cases)
    case 1
    then show ?thesis unfolding furthest_def start start_of_def using right Suc by simp
  next
    case 2
    then show ?thesis unfolding furthest_def start start_of_def using left Suc by simp
  next
    case 3
    then show ?thesis unfolding furthest_def start start_of_def using left right Suc by simp
  qed
qed

definition row_ok ::
    "bytes list \<Rightarrow> bytes list \<Rightarrow> bytes list \<Rightarrow> bytes list \<Rightarrow> int \<Rightarrow> nat \<Rightarrow> bool \<Rightarrow> int \<Rightarrow> row option \<Rightarrow> bool" where
  "row_ok a b a' b' off d chk e r \<longleftrightarrow>
     (case r of
        None \<Rightarrow> False
      | Some (Row V) \<Rightarrow> array_for a b off d V \<and> (chk \<longrightarrow> (\<forall>k. \<not> overlap a b a' b' d e k))
      | Some (Found x y u v) \<Rightarrow>
          \<exists>k. chk \<and> overlap a b a' b' d e k \<and> x = far_from a b d k \<and> y = x - k \<and>
              u = far a b d k \<and> v = u - k)"

lemma gen_row_ok:
  assumes "array_before a b off d V" "int d + 1 \<le> off"
    and Q: "\<And>j. chk \<Longrightarrow> \<bar>j\<bar> \<le> e \<Longrightarrow> even (e + j) \<Longrightarrow> idx Q (off + j) = Some (far a' b' (nat e) j)"
    and e: "e \<le> int d" "chk \<Longrightarrow> even (e + (int (length a) - int (length b)) + int d)"
    and k: "visits d k \<or> k = int d + 2"
    and "\<And>j. visits d j \<Longrightarrow> j < k \<Longrightarrow> V ! nat (off + j) = far a b d j \<and> \<not> (chk \<and> overlap a b a' b' d e j)"
  shows "row_ok a b a' b' off d chk e (gen_row a b off (int d) chk e Q V k)"
  using assms(1,7) k
proof (induction "nat (int d + 2 - k)" arbitrary: k V rule: less_induct)
  case less
  let ?delta = "int (length a) - int (length b)"
  show ?case
  proof (cases "k > int d")
    case True
    then have "visits d j \<Longrightarrow> j < k" for j by (auto simp: visits_def)
    with less(2,3) True show ?thesis
      by (subst gen_row.simps) (auto simp: row_ok_def array_for_def array_before_def overlap_def Let_def)
  next
    case False
    with less(4) have v: "visits d k" by auto
    define x where "x = far_from a b d k"
    have x: "0 \<le> x" "0 \<le> x - k" using far_from_bounds [OF v, of a b] by (auto simp: x_def)
    have px: "reach a b x (x - k) = far a b d k" using far_reach [OF v, of a b] by (simp add: x_def)
    define V' where "V' = V[nat (off + k) := far a b d k]"
    have len: "int (length V) = 2 * off + 1" using less(2) by (simp add: array_before_def)
    have bound: "0 \<le> off + k" "off + k < int (length V)" using v assms(2) len by (auto simp: visits_def)
    have rest: "row_ok a b a' b' off d chk e (gen_row a b off (int d) chk e Q V' (k + 2))"
      if "\<not> (chk \<and> overlap a b a' b' d e k)"
    proof (rule less(1))
      show "nat (int d + 2 - (k + 2)) < nat (int d + 2 - k)" using False by simp
      have other: "nat (off + k) \<noteq> nat (off + j)" if "visits (d - 1) j" "0 < d" for j
      proof -
        have "j \<noteq> k" "0 \<le> off + j" using that v assms(2) by (auto simp: visits_def of_nat_diff)
        then show ?thesis using bound by auto
      qed
      have "nat (off + k) \<noteq> nat (off + 1)" if "d = 0" using that v assms(2) by auto
      with less(2) other show "array_before a b off d V'"
        by (simp add: array_before_def V'_def nth_list_update_neq)
      show "V' ! nat (off + j) = far a b d j \<and> \<not> (chk \<and> overlap a b a' b' d e j)"
        if "visits d j" "j < k + 2" for j
      proof (cases "j = k")
        case True
        then show ?thesis using \<open>\<not> (chk \<and> overlap a b a' b' d e k)\<close> bound by (auto simp: V'_def)
      next
        case False
        have "j < k"
        proof (rule ccontr)
          assume "\<not> j < k"
          with False that have "j = k + 1" by simp
          with that v show False by (simp add: visits_def)
        qed
        moreover have "0 \<le> off + j" using that(1) assms(2) by (auto simp: visits_def)
        then have "nat (off + j) \<noteq> nat (off + k)" using bound \<open>j < k\<close> by auto
        ultimately show ?thesis using less(3) [OF that(1)] by (simp add: V'_def)
      qed
      have "k + 1 \<noteq> int d"
      proof
        assume "k + 1 = int d"
        then have "int d + k = 2 * k + 1" by simp
        moreover have "even (int d + k)" using v by (simp add: visits_def)
        ultimately show False by simp
      qed
      then have "k + 2 \<le> int d \<or> k + 2 = int d + 2" using False by auto
      then show "visits d (k + 2) \<or> k + 2 = int d + 2" using v by (auto simp: visits_def)
    qed
    have step: "gen_row a b off (int d) chk e Q V k =
       (if chk \<and> - e \<le> ?delta - k \<and> ?delta - k \<le> e then
          (case idx Q (off + (?delta - k)) of None \<Rightarrow> None | Some q \<Rightarrow>
             if far a b d k + q \<ge> int (length a) then Some (Found x (x - k) (far a b d k) (far a b d k - k))
             else gen_row a b off (int d) chk e Q V' (k + 2))
        else gen_row a b off (int d) chk e Q V' (k + 2))"
      using False furthest_far_from [OF less(2) v assms(2)] slide_reach [OF x, of a b] bound px
      unfolding V'_def by (subst gen_row.simps) (simp add: x_def [symmetric] Let_def)
    show ?thesis
    proof (cases "chk \<and> - e \<le> ?delta - k \<and> ?delta - k \<le> e")
      case True
      then have range: "\<bar>?delta - k\<bar> \<le> e" by auto
      have "even (int d + k)" using v by (simp add: visits_def)
      then have "even (e + (?delta - k))" using e(2) True by auto
      with Q range True have q: "idx Q (off + (?delta - k)) = Some (far a' b' (nat e) (?delta - k))" by blast
      show ?thesis
      proof (cases "overlap a b a' b' d e k")
        case True
        with q range \<open>chk \<and> _\<close> show ?thesis
          unfolding step by (auto simp: row_ok_def overlap_def Let_def x_def)
      next
        case False
        with q range \<open>chk \<and> _\<close> v rest show ?thesis
          unfolding step by (auto simp: overlap_def Let_def)
      qed
    next
      case False
      then have "\<not> (chk \<and> overlap a b a' b' d e k)" by (auto simp: overlap_def Let_def)
      with False rest show ?thesis unfolding step by auto
    qed
  qed
qed

lemma backward_row_gen:
  "backward_row a b off d Q V k =
     map_option (flip_found (int (length a)) (int (length b)))
       (gen_row (rev a) (rev b) off d ((int (length a) - int (length b)) mod 2 = 0) d Q V k)"
proof (induction a b off d Q V k rule: backward_row.induct)
  case (1 a b off d Q V k)
  show ?case
    by (subst backward_row.simps, subst gen_row.simps)
      (auto simp: 1 Let_def back_slide_rev split: option.split)
qed

section \<open>The search\<close>

text \<open>What a returned snake is good for.\<close>

definition good_snake :: "bytes list \<Rightarrow> bytes list \<Rightarrow> int \<Rightarrow> int \<Rightarrow> int \<Rightarrow> int \<Rightarrow> bool" where
  "good_snake a b x y u v \<longleftrightarrow>
     0 \<le> x \<and> x \<le> u \<and> u \<le> int (length a) \<and> 0 \<le> y \<and> y \<le> v \<and> v \<le> int (length b) \<and>
     u - x = v - y \<and>
     take (nat (u - x)) (drop (nat x) a) = take (nat (u - x)) (drop (nat y) b) \<and>
     x + y < int (length a) + int (length b) \<and> 0 < u + v"

lemma first_overlap_good:
  assumes hit: "overlap a b a' b' d e k" and e: "e = int d \<or> e = int d - 1"
    and parity: "even (e + (int (length a) - int (length b) + int d))"
    and first: "\<And>k'. 0 < d \<Longrightarrow> \<not> overlap a b a' b' (d - 1) (e - 1) k'"
    and ends: "a \<noteq> []" "b \<noteq> []" "hd a \<noteq> hd b" and d: "0 < d"
  shows "good_snake a b (far_from a b d k) (far_from a b d k - k) (far a b d k) (far a b d k - k)"
proof -
  have v: "visits d k" using hit by (simp add: overlap_def Let_def)
  then have "even (int d + k)" by (simp add: visits_def)
  with parity have parity': "even (e + (int (length a) - int (length b) - k))" by auto
  note bounds = far_from_bounds [OF v, of a b]
  moreover note first_overlap_in_grid [OF hit e parity' first]
  moreover note first_overlap_start [OF hit e parity' first ends d]
  moreover have "take (nat (far a b d k - far_from a b d k)) (drop (nat (far_from a b d k)) a) =
      take (nat (far a b d k - far_from a b d k)) (drop (nat (far_from a b d k - k)) b)"
    using reach_snake [of a b "far_from a b d k" "far_from a b d k - k"]
    by (simp add: far_reach [OF v, of a b])
  ultimately show ?thesis using d unfolding good_snake_def by auto
qed

lemma take_drop_rev:
  assumes "x \<le> u" "u \<le> length xs"
  shows "take (u - x) (drop (length xs - u) (rev xs)) = rev (take (u - x) (drop x xs))"
proof -
  have "drop (length xs - u) (rev xs) = rev (take u xs)" using assms by (simp add: rev_take)
  also have "take u xs = take x xs @ take (u - x) (drop x xs)"
    using assms by (metis le_add_diff_inverse take_add)
  finally show ?thesis using assms by simp
qed

lemma good_snake_flip:
  assumes "good_snake (rev a) (rev b) x y u v"
  shows "good_snake a b (int (length a) - u) (int (length b) - v) (int (length a) - x) (int (length b) - y)"
proof -
  define x' y' u' v' where "x' = nat x" "y' = nat y" "u' = nat u" "v' = nat v"
  have xs: "x = int x'" "y = int y'" "u = int u'" "v = int v'"
    using assms by (auto simp: good_snake_def x'_y'_u'_v'_def)
  have b: "x' \<le> u'" "u' \<le> length a" "y' \<le> v'" "v' \<le> length b" "u' - x' = v' - y'"
    and snake: "take (u' - x') (drop x' (rev a)) = take (v' - y') (drop y' (rev b))"
  proof -
    have diff: "nat (int p - int q) = p - q" for p q by simp
    show "x' \<le> u'" "u' \<le> length a" "y' \<le> v'" "v' \<le> length b" "u' - x' = v' - y'"
      using assms by (auto simp: good_snake_def xs)
    then show "take (u' - x') (drop x' (rev a)) = take (v' - y') (drop y' (rev b))"
      using assms by (auto simp: good_snake_def xs diff)
  qed
  have "take (u' - x') (drop (length a - u') a) = rev (take (u' - x') (drop x' (rev a)))"
    using take_drop_rev [of x' u' "rev a"] b by simp
  also have "\<dots> = take (v' - y') (drop (length b - v') b)"
    using take_drop_rev [of y' v' "rev b"] b snake by simp
  finally have "take (u' - x') (drop (length a - u') a) = take (u' - x') (drop (length b - v') b)"
    using b by simp
  then show ?thesis
    using assms b by (auto simp: good_snake_def xs nat_diff_distrib of_nat_diff)
qed

lemma array_next: "array_for a b off d V \<Longrightarrow> array_before a b off (Suc d) V"
  by (simp add: array_for_def array_before_def)

lemma array_slot:
  "array_for a b off d V \<Longrightarrow> int d \<le> off \<Longrightarrow> visits d j \<Longrightarrow> idx V (off + j) = Some (far a b d j)"
  by (auto simp: array_for_def idx_def visits_def)

lemma array_before_slot:
  "array_before a b off d V \<Longrightarrow> 0 < d \<Longrightarrow> int d \<le> off \<Longrightarrow> visits (d - 1) j \<Longrightarrow>
     idx V (off + j) = Some (far a b (d - 1) j)"
  by (auto simp: array_before_def idx_def visits_def)

text \<open>No overlap was found at any smaller distance, in either direction.\<close>

definition quiet :: "bytes list \<Rightarrow> bytes list \<Rightarrow> nat \<Rightarrow> bool" where
  "quiet a b d \<longleftrightarrow> 0 < d \<longrightarrow>
     (if (int (length a) - int (length b)) mod 2 = 0
      then \<forall>k. \<not> overlap (rev a) (rev b) a b (d - 1) (int (d - 1)) k
      else \<forall>k. \<not> overlap a b (rev a) (rev b) (d - 1) (int (d - 1) - 1) k)"

definition ends_differ :: "bytes list \<Rightarrow> bytes list \<Rightarrow> bool" where
  "ends_differ a b \<longleftrightarrow> a \<noteq> [] \<and> b \<noteq> [] \<and> hd a \<noteq> hd b \<and> last a \<noteq> last b"

lemma forward_row_ok:
  assumes "array_before a b off d F" "array_before (rev a) (rev b) off d B" "int d + 1 \<le> off"
  shows "row_ok a b (rev a) (rev b) off d ((int (length a) - int (length b)) mod 2 \<noteq> 0) (int d - 1)
    (forward_row a b off (int d) B F (- int d))"
  unfolding forward_row_gen
proof (rule gen_row_ok [OF assms(1,3)])
  fix j assume j: "\<bar>j\<bar> \<le> int d - 1" "even (int d - 1 + j)"
  then have "0 < d" "visits (d - 1) j" by (auto simp: visits_def of_nat_diff)
  moreover from \<open>0 < d\<close> have "nat (int d - 1) = d - 1" by simp
  ultimately show "idx B (off + j) = Some (far (rev a) (rev b) (nat (int d - 1)) j)"
    using array_before_slot [OF assms(2), of j] assms(3) by simp
next
  assume "(int (length a) - int (length b)) mod 2 \<noteq> 0"
  then show "even (int d - 1 + (int (length a) - int (length b)) + int d)"
    unfolding even_iff_mod_2_eq_zero [symmetric] by auto
qed (auto simp: visits_def)

lemma backward_row_ok:
  assumes "array_for a b off d F" "array_before (rev a) (rev b) off d B" "int d + 1 \<le> off"
  shows "row_ok (rev a) (rev b) a b off d ((int (length a) - int (length b)) mod 2 = 0) (int d)
    (gen_row (rev a) (rev b) off (int d) ((int (length a) - int (length b)) mod 2 = 0) (int d) F B (- int d))"
proof (rule gen_row_ok [OF assms(2,3)])
  fix j assume j: "\<bar>j\<bar> \<le> int d" "even (int d + j)"
  then have "visits d j" by (simp add: visits_def)
  then show "idx F (off + j) = Some (far a b (nat (int d)) j)"
    using array_slot [OF assms(1), of j] assms(3) by simp
next
  assume "(int (length a) - int (length b)) mod 2 = 0"
  then show "even (int d + (int (length (rev a)) - int (length (rev b))) + int d)"
    unfolding even_iff_mod_2_eq_zero [symmetric] by auto
qed (auto simp: visits_def)

lemma forward_found_good:
  assumes "ends_differ a b" "quiet a b d"
    and "row_ok a b (rev a) (rev b) off d ((int (length a) - int (length b)) mod 2 \<noteq> 0) (int d - 1)
      (Some (Found x y u v))"
  shows "good_snake a b x y u v"
proof -
  obtain k where odd: "(int (length a) - int (length b)) mod 2 \<noteq> 0"
    and hit: "overlap a b (rev a) (rev b) d (int d - 1) k"
    and xs: "x = far_from a b d k" "y = x - k" "u = far a b d k" "v = u - k"
    using assms(3) by (auto simp: row_ok_def)
  have d: "0 < d" using hit by (auto simp: overlap_def Let_def)
  have "even (int d - 1 + (int (length a) - int (length b)) + int d)"
    using odd unfolding even_iff_mod_2_eq_zero [symmetric] by auto
  moreover have "\<not> overlap a b (rev a) (rev b) (d - 1) (int d - 1 - 1) k'" for k'
    using assms(2) odd d by (simp add: quiet_def of_nat_diff)
  ultimately show ?thesis
    unfolding xs using first_overlap_good [OF hit] assms(1) d by (simp add: ends_differ_def)
qed

lemma backward_found_good:
  assumes "ends_differ a b" "quiet a b d"
    and "row_ok (rev a) (rev b) a b off d ((int (length a) - int (length b)) mod 2 = 0) (int d)
      (Some (Found x y u v))"
  shows "good_snake (rev a) (rev b) x y u v"
proof -
  obtain k where even: "(int (length a) - int (length b)) mod 2 = 0"
    and hit: "overlap (rev a) (rev b) a b d (int d) k"
    and xs: "x = far_from (rev a) (rev b) d k" "y = x - k" "u = far (rev a) (rev b) d k" "v = u - k"
    using assms(3) by (auto simp: row_ok_def)
  have ends: "rev a \<noteq> []" "rev b \<noteq> []" "hd (rev a) \<noteq> hd (rev b)"
    using assms(1) by (simp_all add: ends_differ_def hd_rev)
  have d: "0 < d"
  proof (rule ccontr)
    assume "\<not> ?thesis"
    then have "d = 0" by simp
    have "far (rev a) (rev b) 0 k = 0" "far a b 0 j = 0" for j
      using assms(1) by (auto simp: reach_def common_zero_iff ends_differ_def hd_rev)
    with hit \<open>d = 0\<close> show False using ends by (auto simp: overlap_def Let_def)
  qed
  have "even (int d + (int (length (rev a)) - int (length (rev b))) + int d)"
    using even unfolding even_iff_mod_2_eq_zero [symmetric] by auto
  moreover have "\<not> overlap (rev a) (rev b) a b (d - 1) (int d - 1) k'" for k'
    using assms(2) even d by (simp add: quiet_def of_nat_diff)
  ultimately show ?thesis
    unfolding xs using first_overlap_good [OF hit] ends d by simp
qed

lemma snake_loop_good:
  assumes "ends_differ a b" "array_before a b off d F" "array_before (rev a) (rev b) off d B"
    and "quiet a b d" "maxD < off"
  shows "case snake_loop a b off maxD F B (int d) of
    None \<Rightarrow> False | Some None \<Rightarrow> True | Some (Some (x, y, u, v)) \<Rightarrow> good_snake a b x y u v"
  using assms(2-4)
proof (induction "nat (maxD + 1 - int d)" arbitrary: d F B rule: less_induct)
  case less
  show ?case
  proof (cases "int d > maxD")
    case True
    then show ?thesis by (subst snake_loop.simps) simp
  next
    case False
    then have d: "int d + 1 \<le> off" using assms(5) by simp
    note fwd = forward_row_ok [OF less(2,3) d]
    show ?thesis
    proof (cases "forward_row a b off (int d) B F (- int d)")
      case None
      with fwd show ?thesis by (simp add: row_ok_def)
    next
      case (Some r)
      show ?thesis
      proof (cases r)
        case (Found x y u v)
        with Some fwd forward_found_good [OF assms(1) less(4)] have "good_snake a b x y u v" by simp
        with Some Found False show ?thesis by (subst snake_loop.simps) simp
      next
        case (Row F')
        have F': "array_for a b off d F'" using fwd Some Row by (simp add: row_ok_def)
        define bwd where "bwd = gen_row (rev a) (rev b) off (int d)
          ((int (length a) - int (length b)) mod 2 = 0) (int d) F' B (- int d)"
        have ok: "row_ok (rev a) (rev b) a b off d ((int (length a) - int (length b)) mod 2 = 0) (int d) bwd"
          unfolding bwd_def by (rule backward_row_ok [OF F' less(3) d])
        then obtain r' where r': "bwd = Some r'" by (cases bwd) (auto simp: row_ok_def)
        have brow: "backward_row a b off (int d) F' B (- int d) =
            Some (flip_found (int (length a)) (int (length b)) r')"
          by (simp add: backward_row_gen bwd_def [symmetric] r')
        show ?thesis
        proof (cases r')
          case (Found x y u v)
          with ok r' backward_found_good [OF assms(1) less(4)]
          have "good_snake (rev a) (rev b) x y u v" by simp
          then show ?thesis using good_snake_flip Some Row False brow Found
            by (subst snake_loop.simps) simp
        next
          case again: (Row B')
          have "array_for (rev a) (rev b) off d B'" using ok r' again by (simp add: row_ok_def)
          moreover have "quiet a b (Suc d)"
            using ok r' again fwd Some Row by (auto simp: quiet_def row_ok_def)
          ultimately have "case snake_loop a b off maxD F' B' (int (Suc d)) of
              None \<Rightarrow> False | Some None \<Rightarrow> True | Some (Some (x, y, u, v)) \<Rightarrow> good_snake a b x y u v"
            using False F' by (intro less(1)) (auto intro: array_next)
          moreover have "snake_loop a b off maxD F B (int d) = snake_loop a b off maxD F' B' (int (Suc d))"
            using Some Row False brow again by (subst snake_loop.simps) (simp add: add.commute)
          ultimately show ?thesis by simp
        qed
      qed
    qed
  qed
qed

text \<open>
  The search as a whole: on lists whose first lines differ and whose last lines differ it never
  reads or writes outside its arrays, and what it returns splits the problem.
\<close>

lemma middleSnake_good:
  assumes "ends_differ a b"
  shows "case middleSnake a b of
    None \<Rightarrow> False | Some None \<Rightarrow> True | Some (Some (x, y, u, v)) \<Rightarrow> good_snake a b x y u v"
proof -
  define span where "span = int (length a) + int (length b)"
  define V where "V = replicate (nat (2 * span + 3)) (0 :: int)"
  have span: "2 \<le> span"
    using assms by (cases a; cases b) (auto simp: ends_differ_def span_def)
  have V: "upd V (span + 1 + 1) 0 = Some V" using span
    by (simp add: V_def upd_def) (rule nth_equalityI; simp add: nth_list_update)
  have "array_before a' b' (span + 1) 0 V" for a' b'
    using span by (simp add: array_before_def V_def)
  moreover have "quiet a b 0" by (simp add: quiet_def)
  moreover have "(span + 1) div 2 < span + 1" using span by linarith
  ultimately have "case snake_loop a b (span + 1)
        (if snakeBudget div (span + 1) < (span + 1) div 2 then snakeBudget div (span + 1) else (span + 1) div 2)
        V V (int 0) of
      None \<Rightarrow> False | Some None \<Rightarrow> True | Some (Some (x, y, u, v)) \<Rightarrow> good_snake a b x y u v"
    by (intro snake_loop_good [OF assms]) auto
  then show ?thesis
    using V by (simp add: middleSnake_def Let_def span_def [symmetric] V_def [symmetric])
qed

end
