(* ===== verification/LineDiff_Script.thy ===== *)
theory LineDiff_Script
  imports LineDiff_Snake
begin

text \<open>
  The edit script and the unified patch: \<^verbatim>\<open>myersOps\<close>, \<^verbatim>\<open>diffOps\<close>, \<^verbatim>\<open>removalsFirst\<close>, \<^verbatim>\<open>Stat\<close>,
  \<^verbatim>\<open>Unified\<close> and \<^verbatim>\<open>hunkRanges\<close> of \<^verbatim>\<open>internal/linediff/linediff.go\<close>.  The recursion of \<^verbatim>\<open>myersOps\<close>
  ends because the middle snake splits a region into two smaller ones.
\<close>

section \<open>Peeling equal ends\<close>

definition peel :: "bytes list \<Rightarrow> bytes list \<Rightarrow> bytes list \<times> bytes list \<times> bytes list \<times> bytes list" where
  "peel a b =
     (let p = common a b; a1 = drop p a; b1 = drop p b;
          s = common (rev a1) (rev b1)
      in (take p a, take (length a1 - s) a1, take (length b1 - s) b1, drop (length a1 - s) a1))"

lemma common_rest: "drop (common xs ys) xs \<noteq> [] \<Longrightarrow> drop (common xs ys) ys \<noteq> [] \<Longrightarrow>
    hd (drop (common xs ys) xs) \<noteq> hd (drop (common xs ys) ys)"
  by (induction xs ys rule: common.induct) auto

lemma common_suffix:
  "drop (length xs - common (rev xs) (rev ys)) xs = drop (length ys - common (rev xs) (rev ys)) ys"
proof -
  let ?s = "common (rev xs) (rev ys)"
  have "take ?s (rev xs) = take ?s (rev ys)" by (rule common_take)
  then have "rev (take ?s (rev xs)) = rev (take ?s (rev ys))" by simp
  then show ?thesis by (simp add: take_rev)
qed

lemma rev_common_rest:
  assumes "take (length xs - common (rev xs) (rev ys)) xs \<noteq> []"
    and "take (length ys - common (rev xs) (rev ys)) ys \<noteq> []"
  shows "last (take (length xs - common (rev xs) (rev ys)) xs) \<noteq>
    last (take (length ys - common (rev xs) (rev ys)) ys)"
proof -
  let ?s = "common (rev xs) (rev ys)"
  have rest: "drop ?s (rev xs) = rev (take (length xs - ?s) xs)"
    "drop ?s (rev ys) = rev (take (length ys - ?s) ys)"
    using common_le [of "rev xs" "rev ys"] by (simp_all add: rev_take)
  with common_rest [of "rev xs" "rev ys"] assms show ?thesis by (simp add: hd_rev)
qed

lemma hd_take: "take k xs \<noteq> [] \<Longrightarrow> hd (take k xs) = hd xs"
  by (cases k; cases xs) auto

lemma peel_spec:
  assumes "peel a b = (pre, a', b', suf)"
  shows "a = pre @ a' @ suf" "b = pre @ b' @ suf"
    "a' \<noteq> [] \<Longrightarrow> b' \<noteq> [] \<Longrightarrow> ends_differ a' b'"
proof -
  define p where "p = common a b"
  define s where "s = common (rev (drop p a)) (rev (drop p b))"
  have parts: "pre = take p a" "a' = take (length (drop p a) - s) (drop p a)"
    "b' = take (length (drop p b) - s) (drop p b)" "suf = drop (length (drop p a) - s) (drop p a)"
    using assms by (simp_all add: peel_def Let_def p_def s_def)
  have pre: "take p a = take p b" unfolding p_def by (rule common_take)
  have suf: "suf = drop (length (drop p b) - s) (drop p b)"
    unfolding parts s_def by (rule common_suffix)
  show "a = pre @ a' @ suf" unfolding parts by (simp only: append_take_drop_id)
  show "b = pre @ b' @ suf"
    unfolding suf parts(1,3) pre by (simp only: append_take_drop_id)
  assume ne: "a' \<noteq> []" "b' \<noteq> []"
  have "last a' \<noteq> last b'" using ne unfolding parts s_def by (rule rev_common_rest)
  moreover have "hd a' = hd (drop p a)" "hd b' = hd (drop p b)"
    using ne hd_take parts by metis+
  moreover have "drop p a \<noteq> []" "drop p b \<noteq> []" using ne parts by auto
  ultimately show "ends_differ a' b'"
    using ne common_rest [of a b] by (simp add: ends_differ_def p_def)
qed

lemma peel_length:
  "peel a b = (pre, a', b', suf) \<Longrightarrow> length a' \<le> length a \<and> length b' \<le> length b"
  using peel_spec(1,2) [of a b pre a' b' suf] by (auto dest: arg_cong [of _ _ length])

lemma rec_smaller:
  assumes "peel a0 b0 = (pre, a, b, suf)" "a \<noteq> []" "b \<noteq> []"
    and "middleSnake a b = Some (Some (x, y, u, v))"
  shows "slice_to a x = Some a1 \<Longrightarrow> slice_to b y = Some b1 \<Longrightarrow>
      length a1 + length b1 < length a0 + length b0"
    and "slice_from a u = Some a2 \<Longrightarrow> slice_from b v = Some b2 \<Longrightarrow>
      length a2 + length b2 < length a0 + length b0"
proof -
  have "good_snake a b x y u v"
    using middleSnake_good [OF peel_spec(3) [OF assms(1-3)]] assms(4) by simp
  then have "x + y < int (length a) + int (length b)" "0 < u + v" "0 \<le> u" "0 \<le> v"
    by (auto simp: good_snake_def)
  then show "slice_to a x = Some a1 \<Longrightarrow> slice_to b y = Some b1 \<Longrightarrow>
      length a1 + length b1 < length a0 + length b0"
    and "slice_from a u = Some a2 \<Longrightarrow> slice_from b v = Some b2 \<Longrightarrow>
      length a2 + length b2 < length a0 + length b0"
    using peel_length [OF assms(1)] by (auto simp: slice_to_def slice_from_def split: if_splits)
qed

section \<open>The model\<close>

text \<open>\<^verbatim>\<open>rec\<close> of \<^verbatim>\<open>myersOps\<close>, returning the operations it appends to \<^verbatim>\<open>out\<close>.\<close>

function myers_rec :: "bytes list \<Rightarrow> bytes list \<Rightarrow> op list option" where
  "myers_rec a0 b0 =
     (case peel a0 b0 of (pre, a, b, suf) \<Rightarrow>
        map_option (\<lambda>mid. map equal_op pre @ mid @ map equal_op suf)
         (if a = [] then Some (map insert_op b)
          else if b = [] then Some (map delete_op a)
          else
            (case middleSnake a b of
               None \<Rightarrow> None
             | Some None \<Rightarrow> Some (map delete_op a @ map insert_op b)
             | Some (Some (x, y, u, v)) \<Rightarrow>
                 (case slice_to a x of None \<Rightarrow> None | Some a1 \<Rightarrow>
                  case slice_to b y of None \<Rightarrow> None | Some b1 \<Rightarrow>
                  case myers_rec a1 b1 of None \<Rightarrow> None | Some before \<Rightarrow>
                  case equal_run a x u of None \<Rightarrow> None | Some run \<Rightarrow>
                  case slice_from a u of None \<Rightarrow> None | Some a2 \<Rightarrow>
                  case slice_from b v of None \<Rightarrow> None | Some b2 \<Rightarrow>
                  case myers_rec a2 b2 of None \<Rightarrow> None | Some after \<Rightarrow>
                    Some (before @ run @ after)))))"
  by pat_completeness auto
termination by (relation "measure (\<lambda>(a, b). length a + length b)")
  (auto intro: rec_smaller [OF sym])

declare myers_rec.simps [simp del]

definition myersOps :: "bytes list \<Rightarrow> bytes list \<Rightarrow> op list option" where
  "myersOps a b = myers_rec a b"

text \<open>\<^verbatim>\<open>slices.SortStableFunc\<close> by kind is \<open>sort_key\<close>, which is stable.\<close>

function removalsFirst :: "op list \<Rightarrow> op list" where
  "removalsFirst [] = []"
| "removalsFirst (x # ops) =
     (if kind x = opEqual then x # removalsFirst ops
      else sort_key kind (takeWhile (\<lambda>y. kind y \<noteq> opEqual) (x # ops)) @
           removalsFirst (dropWhile (\<lambda>y. kind y \<noteq> opEqual) (x # ops)))"
  by pat_completeness auto
termination
  by (relation "measure length") (auto simp: le_imp_less_Suc length_dropWhile_le)

declare removalsFirst.simps(2) [simp del]

definition diffOps :: "bytes list \<Rightarrow> bytes list \<Rightarrow> op list option" where
  "diffOps a b =
     (case peel a b of (pre, midA, midB, suf) \<Rightarrow>
        map_option (\<lambda>mid. removalsFirst (map equal_op pre @ mid @ map equal_op suf))
          (myersOps midA midB))"

definition Stat :: "bytes \<Rightarrow> bytes \<Rightarrow> (int \<times> int) option" where
  "Stat before after =
     (if before = after then Some (0, 0)
      else map_option
        (\<lambda>ops. (int (length (filter (\<lambda>x. kind x = opInsert) ops)),
                int (length (filter (\<lambda>x. kind x = opDelete) ops))))
        (diffOps (splitLines before) (splitLines after)))"

section \<open>Hunks\<close>

record hunkRange =
  h_start :: int
  h_end :: int

definition padHunk :: "int \<Rightarrow> int \<Rightarrow> int \<Rightarrow> int \<Rightarrow> hunkRange" where
  "padHunk first final count context =
     (let start = first - context; start = (if start < 0 then 0 else start);
          stop = final + 1 + context; stop = (if stop > count then count else stop)
      in \<lparr>h_start = start, h_end = stop\<rparr>)"

fun group_changes :: "int \<Rightarrow> int \<Rightarrow> int \<Rightarrow> int \<Rightarrow> int list \<Rightarrow> hunkRange list" where
  "group_changes context count groupStart prev [] = [padHunk groupStart prev count context]"
| "group_changes context count groupStart prev (i # changed) =
     (if i - prev > 2 * context + 1
      then padHunk groupStart prev count context # group_changes context count i i changed
      else group_changes context count groupStart i changed)"

fun changed_from :: "int \<Rightarrow> op list \<Rightarrow> int list" where
  "changed_from i [] = []"
| "changed_from i (x # ops) =
     (if kind x \<noteq> opEqual then i # changed_from (i + 1) ops else changed_from (i + 1) ops)"

definition hunkRanges :: "op list \<Rightarrow> int \<Rightarrow> hunkRange list" where
  "hunkRanges ops context =
     (case changed_from 0 ops of
        [] \<Rightarrow> []
      | i # changed \<Rightarrow> group_changes context (int (length ops)) i i changed)"

section \<open>The patch\<close>

definition maxPatchBytes :: nat where "maxPatchBytes = 256 * 1024"

text \<open>The line numbers each operation occupies, \<^verbatim>\<open>oldNo\<close> and \<^verbatim>\<open>newNo\<close>.\<close>

fun op_numbers :: "int \<Rightarrow> int \<Rightarrow> op list \<Rightarrow> (int \<times> int) list" where
  "op_numbers oldCursor newCursor [] = []"
| "op_numbers oldCursor newCursor (x # ops) =
     (oldCursor, newCursor) #
     (case kind x of
        opEqual \<Rightarrow> op_numbers (oldCursor + 1) (newCursor + 1) ops
      | opDelete \<Rightarrow> op_numbers (oldCursor + 1) newCursor ops
      | opInsert \<Rightarrow> op_numbers oldCursor (newCursor + 1) ops)"

fun count_sides :: "op list \<Rightarrow> int \<times> int" where
  "count_sides [] = (0, 0)"
| "count_sides (x # ops) =
     (let (oldCount, newCount) = count_sides ops in
      case kind x of
        opEqual \<Rightarrow> (oldCount + 1, newCount + 1)
      | opDelete \<Rightarrow> (oldCount + 1, newCount)
      | opInsert \<Rightarrow> (oldCount, newCount + 1))"

text \<open>A hunk as Unified describes it: the four numbers of its header and its operations.\<close>

record hunk =
  oldStart :: int
  oldCount :: int
  newStart :: int
  newCount :: int
  hunk_ops :: "op list"

definition slice :: "'a list \<Rightarrow> int \<Rightarrow> int \<Rightarrow> 'a list option" where
  "slice xs i j =
     (if 0 \<le> i \<and> i \<le> j \<and> j \<le> int (length xs) then Some (take (nat (j - i)) (drop (nat i) xs)) else None)"

definition hunk_of :: "op list \<Rightarrow> hunkRange \<Rightarrow> hunk option" where
  "hunk_of ops h =
     (case slice ops (h_start h) (h_end h) of None \<Rightarrow> None | Some part \<Rightarrow>
      case idx (op_numbers 0 0 ops) (h_start h) of None \<Rightarrow> None | Some (oldNo, newNo) \<Rightarrow>
        let (oc, nc) = count_sides part in
        Some \<lparr>oldStart = (if oc > 0 then oldNo + 1 else oldNo), oldCount = oc,
              newStart = (if nc > 0 then newNo + 1 else newNo), newCount = nc, hunk_ops = part\<rparr>)"

text \<open>Numbers in headers are never negative.\<close>

definition number :: "int \<Rightarrow> bytes" where "number i = digits_of (nat i)"

definition hunk_header :: "hunk \<Rightarrow> bytes" where
  "hunk_header h =
     ''@@ -'' @ number (oldStart h) @ '','' @ number (oldCount h) @ '' +'' @
     number (newStart h) @ '','' @ number (newCount h) @ '' @@'' @ [newline]"

definition marker :: "op_kind \<Rightarrow> bytes" where
  "marker k = (case k of opEqual \<Rightarrow> '' '' | opDelete \<Rightarrow> ''-'' | opInsert \<Rightarrow> ''+'')"

definition op_text :: "op \<Rightarrow> bytes" where
  "op_text x =
     marker (kind x) @ trim_suffix (line x) [newline] @ [newline] @
     (if \<not> has_suffix (line x) [newline]
      then [CHR 0x5C] @ '' No newline at end of file'' @ [newline] else [])"

text \<open>The writing loops; \<open>True\<close> is the early return of a truncated patch.\<close>

fun write_ops :: "bytes \<Rightarrow> op list \<Rightarrow> bytes \<times> bool" where
  "write_ops b [] = (b, False)"
| "write_ops b (x # ops) =
     (let b' = b @ op_text x in
      if length b' > maxPatchBytes then (b', True) else write_ops b' ops)"

fun write_hunks :: "op list \<Rightarrow> bytes \<Rightarrow> hunkRange list \<Rightarrow> (bytes \<times> bool) option" where
  "write_hunks ops b [] = Some (b, False)"
| "write_hunks ops b (r # rs) =
     (case hunk_of ops r of
        None \<Rightarrow> None
      | Some h \<Rightarrow>
          (case write_ops (b @ hunk_header h) (hunk_ops h) of
             (b', truncated) \<Rightarrow> if truncated then Some (b', True) else write_hunks ops b' rs))"

definition file_header :: "bytes \<Rightarrow> bytes" where
  "file_header path = ''--- a/'' @ path @ [newline] @ ''+++ b/'' @ path @ [newline]"

definition Unified :: "bytes \<Rightarrow> bytes \<Rightarrow> bytes \<Rightarrow> int \<Rightarrow> (bytes \<times> bool) option" where
  "Unified path before after context =
     (if before = after then Some ([], False)
      else
        (let context = (if context < 0 then 0 else context) in
         case diffOps (splitLines before) (splitLines after) of
           None \<Rightarrow> None
         | Some ops \<Rightarrow> write_hunks ops (file_header path) (hunkRanges ops context)))"

section \<open>Edit scripts\<close>

text \<open>The two sides of a script.\<close>

definition old_lines :: "op list \<Rightarrow> bytes list" where
  "old_lines ops = map line (filter (\<lambda>x. kind x \<noteq> opInsert) ops)"

definition new_lines :: "op list \<Rightarrow> bytes list" where
  "new_lines ops = map line (filter (\<lambda>x. kind x \<noteq> opDelete) ops)"

lemma sides_append [simp]:
  "old_lines (xs @ ys) = old_lines xs @ old_lines ys"
  "new_lines (xs @ ys) = new_lines xs @ new_lines ys"
  by (simp_all add: old_lines_def new_lines_def)

lemma sides_Nil [simp]: "old_lines [] = []" "new_lines [] = []"
  by (simp_all add: old_lines_def new_lines_def)

lemma sides_ops [simp]:
  "old_lines (map equal_op ts) = ts" "new_lines (map equal_op ts) = ts"
  "old_lines (map delete_op ts) = ts" "new_lines (map delete_op ts) = []"
  "old_lines (map insert_op ts) = []" "new_lines (map insert_op ts) = ts"
  by (induction ts) (auto simp: old_lines_def new_lines_def equal_op_def delete_op_def insert_op_def)

lemma equal_run_eq:
  "0 \<le> i \<Longrightarrow> i \<le> u \<Longrightarrow> u \<le> int (length a) \<Longrightarrow>
     equal_run a i u = Some (map equal_op (take (nat (u - i)) (drop (nat i) a)))"
proof (induction a i u rule: equal_run.induct)
  case (1 a i u)
  show ?case
  proof (cases "i < u")
    case True
    with 1 have "equal_run a (i + 1) u =
        Some (map equal_op (take (nat (u - (i + 1))) (drop (nat (i + 1)) a)))" by simp
    moreover have "nat (u - i) = Suc (nat (u - (i + 1)))" using True by simp
    ultimately show ?thesis
      using True 1(2-4) drop_at [of i a] by (subst equal_run.simps) simp
  next
    case False
    with 1 show ?thesis by (subst equal_run.simps) simp
  qed
qed

lemma split_at_snake:
  assumes "0 \<le> x" "x \<le> u"
  shows "take (nat x) a @ take (nat (u - x)) (drop (nat x) a) @ drop (nat u) a = a"
proof -
  have "drop (nat u) a = drop (nat (u - x)) (drop (nat x) a)"
    using assms by (simp add: nat_diff_distrib)
  then show ?thesis by (simp only: append_take_drop_id)
qed

lemma myers_rec_total:
  "\<exists>ops. myers_rec a b = Some ops \<and> old_lines ops = a \<and> new_lines ops = b"
proof (induction "length a + length b" arbitrary: a b rule: less_induct)
  case less
  obtain pre a' b' suf where p: "peel a b = (pre, a', b', suf)" by (metis prod_cases4)
  note ab = peel_spec(1,2) [OF p]
  show ?case
  proof (cases "a' = [] \<or> b' = []")
    case True
    define mid where "mid = (if a' = [] then map insert_op b' else map delete_op a')"
    have "myers_rec a b = Some (map equal_op pre @ mid @ map equal_op suf)"
      using True by (subst myers_rec.simps) (auto simp: p mid_def)
    moreover have "old_lines mid = a'" "new_lines mid = b'" using True by (auto simp: mid_def)
    ultimately show ?thesis by (simp flip: ab)
  next
    case False
    then have ne: "a' \<noteq> []" "b' \<noteq> []" by auto
    show ?thesis
    proof (cases "middleSnake a' b'")
      case None
      with middleSnake_good [OF peel_spec(3) [OF p ne]] show ?thesis by simp
    next
      case (Some r)
      show ?thesis
      proof (cases r)
        case None
        define mid where "mid = map delete_op a' @ map insert_op b'"
        have "myers_rec a b = Some (map equal_op pre @ mid @ map equal_op suf)"
          using ne Some None by (subst myers_rec.simps) (simp add: p mid_def)
        moreover have "old_lines mid = a'" "new_lines mid = b'" by (simp_all add: mid_def)
        ultimately show ?thesis by (simp flip: ab)
      next
        case r: (Some quad)
        obtain x y u v where "quad = (x, y, u, v)" by (metis prod_cases4)
        with Some r have snake: "middleSnake a' b' = Some (Some (x, y, u, v))" by simp
        with middleSnake_good [OF peel_spec(3) [OF p ne]] have g: "good_snake a' b' x y u v" by simp
        have to: "slice_to a' x = Some (take (nat x) a')" "slice_to b' y = Some (take (nat y) b')"
          and frm: "slice_from a' u = Some (drop (nat u) a')" "slice_from b' v = Some (drop (nat v) b')"
          using g by (auto simp: good_snake_def slice_to_def slice_from_def)
        from less [OF rec_smaller(1) [OF p ne snake to]] obtain before where
          before: "myers_rec (take (nat x) a') (take (nat y) b') = Some before"
            "old_lines before = take (nat x) a'" "new_lines before = take (nat y) b'" by blast
        from less [OF rec_smaller(2) [OF p ne snake frm]] obtain after where
          after: "myers_rec (drop (nat u) a') (drop (nat v) b') = Some after"
            "old_lines after = drop (nat u) a'" "new_lines after = drop (nat v) b'" by blast
        define run where "run = take (nat (u - x)) (drop (nat x) a')"
        have run: "equal_run a' x u = Some (map equal_op run)"
          using g by (simp add: run_def good_snake_def equal_run_eq)
        have ends: "take (nat x) a' @ run @ drop (nat u) a' = a'" "take (nat y) b' @ run @ drop (nat v) b' = b'"
          using g split_at_snake [of x u a'] split_at_snake [of y v b'] by (auto simp: run_def good_snake_def)
        define mid where "mid = before @ map equal_op run @ after"
        have "myers_rec a b = Some (map equal_op pre @ mid @ map equal_op suf)"
          using ne snake to frm before(1) after(1) run by (subst myers_rec.simps) (simp add: p mid_def)
        moreover have "old_lines mid = a'" "new_lines mid = b'"
          using before(2,3) after(2,3) ends by (simp_all add: mid_def)
        ultimately show ?thesis by (simp flip: ab)
      qed
    qed
  qed
qed

section \<open>Removals first\<close>

lemma removalsFirst_Cons:
  "removalsFirst (x # ops) =
     (if kind x = opEqual then x # removalsFirst ops
      else sort_key kind (takeWhile (\<lambda>y. kind y \<noteq> opEqual) (x # ops)) @
           removalsFirst (dropWhile (\<lambda>y. kind y \<noteq> opEqual) (x # ops)))"
  by (rule removalsFirst.simps)

lemma filter_kind_eq:
  "list_all (\<lambda>y. kind y \<noteq> opEqual) ys \<Longrightarrow> k \<noteq> opEqual \<Longrightarrow>
     filter (\<lambda>y. kind y \<noteq> k) ys = filter (\<lambda>y. kind y = (if k = opInsert then opDelete else opInsert)) ys"
  by (induction ys) (auto, (metis op_kind.exhaust)+)

lemma filter_sort_run:
  assumes "list_all (\<lambda>y. kind y \<noteq> opEqual) ys" "k \<noteq> opEqual"
  shows "filter (\<lambda>y. kind y \<noteq> k) (sort_key kind ys) = filter (\<lambda>y. kind y \<noteq> k) ys"
proof -
  have "list_all (\<lambda>y. kind y \<noteq> opEqual) (sort_key kind ys)"
    using assms(1) by (simp add: list_all_iff)
  then show ?thesis using assms by (simp add: filter_kind_eq sort_key_stable)
qed

lemma removalsFirst_filter:
  "k \<noteq> opEqual \<Longrightarrow> filter (\<lambda>y. kind y \<noteq> k) (removalsFirst ops) = filter (\<lambda>y. kind y \<noteq> k) ops"
proof (induction ops rule: removalsFirst.induct)
  case (2 x ops)
  show ?case
  proof (cases "kind x = opEqual")
    case True
    with 2 show ?thesis by (simp add: removalsFirst_Cons)
  next
    case False
    define run where "run = takeWhile (\<lambda>y. kind y \<noteq> opEqual) (x # ops)"
    define rest where "rest = dropWhile (\<lambda>y. kind y \<noteq> opEqual) (x # ops)"
    have split: "x # ops = run @ rest" by (simp only: run_def rest_def takeWhile_dropWhile_id)
    have "removalsFirst (x # ops) = sort_key kind run @ removalsFirst rest"
      using False by (simp only: removalsFirst_Cons if_False run_def rest_def)
    moreover have "list_all (\<lambda>y. kind y \<noteq> opEqual) run"
      unfolding run_def list_all_iff by (blast dest: set_takeWhileD)
    moreover have "filter (\<lambda>y. kind y \<noteq> k) (removalsFirst rest) = filter (\<lambda>y. kind y \<noteq> k) rest"
      using 2(2) [OF False 2(3)] by (simp only: rest_def)
    ultimately show ?thesis unfolding split using 2(3) by (simp add: filter_sort_run)
  qed
qed simp

lemma removalsFirst_sides [simp]:
  "old_lines (removalsFirst ops) = old_lines ops" "new_lines (removalsFirst ops) = new_lines ops"
  by (simp_all add: old_lines_def new_lines_def removalsFirst_filter)

text \<open>No insertion stands directly before a removal.\<close>

definition removals_lead :: "op list \<Rightarrow> bool" where
  "removals_lead ops \<longleftrightarrow>
     successively (\<lambda>x y. \<not> (kind x = opInsert \<and> kind y = opDelete)) ops"

lemma sorted_lead: "sorted (map kind ops) \<Longrightarrow> removals_lead ops"
  unfolding removals_lead_def
  by (induction ops rule: induct_list012) (auto simp: less_eq_op_kind_def)

lemma removals_lead_append:
  "removals_lead xs \<Longrightarrow> removals_lead ys \<Longrightarrow> ys = [] \<or> kind (hd ys) = opEqual \<Longrightarrow> removals_lead (xs @ ys)"
  by (auto simp: removals_lead_def successively_append_iff)

lemma removalsFirst_hd: "ops = [] \<or> kind (hd ops) = opEqual \<Longrightarrow>
    removalsFirst ops = [] \<or> kind (hd (removalsFirst ops)) = opEqual"
  by (cases ops) (auto simp: removalsFirst_Cons)

lemma removalsFirst_lead: "removals_lead (removalsFirst ops)"
proof (induction ops rule: removalsFirst.induct)
  case 1
  then show ?case by (simp add: removals_lead_def)
next
  case (2 x ops)
  show ?case
  proof (cases "kind x = opEqual")
    case True
    with 2(1) show ?thesis
      by (cases "removalsFirst ops") (auto simp: removalsFirst_Cons removals_lead_def)
  next
    case False
    define rest where "rest = dropWhile (\<lambda>y. kind y \<noteq> opEqual) (x # ops)"
    have "rest = [] \<or> kind (hd rest) = opEqual"
      unfolding rest_def using hd_dropWhile [of "\<lambda>y. kind y \<noteq> opEqual" "x # ops"] by blast
    moreover have "removals_lead (removalsFirst rest)" using 2(2) [OF False] by (simp only: rest_def)
    moreover have "removals_lead (sort_key kind (takeWhile (\<lambda>y. kind y \<noteq> opEqual) (x # ops)))"
      by (rule sorted_lead) (rule sorted_sort_key)
    ultimately show ?thesis
      using False removalsFirst_hd [of rest]
      by (simp only: removalsFirst_Cons if_False rest_def [symmetric]) (blast intro: removals_lead_append)
  qed
qed

lemma diffOps_total:
  "\<exists>ops. diffOps a b = Some ops \<and> old_lines ops = a \<and> new_lines ops = b \<and> removals_lead ops"
proof -
  obtain pre a' b' suf where p: "peel a b = (pre, a', b', suf)" by (metis prod_cases4)
  obtain mid where "myers_rec a' b' = Some mid" "old_lines mid = a'" "new_lines mid = b'"
    using myers_rec_total by blast
  then have "diffOps a b = Some (removalsFirst (map equal_op pre @ mid @ map equal_op suf))"
    "old_lines (map equal_op pre @ mid @ map equal_op suf) = a"
    "new_lines (map equal_op pre @ mid @ map equal_op suf) = b"
    by (simp_all add: diffOps_def p myersOps_def flip: peel_spec(1,2) [OF p])
  then show ?thesis by (simp add: removalsFirst_lead)
qed

text \<open>
  C19: the line diff always returns: its search of the edit graph stays inside its arrays and the
  two texts whatever they are, its recursion ends, and the script it returns, read without the
  insertions, is the old text line by line, and read without the removals the new one.  In every
  run of changes the removals come before the insertions.
\<close>

theorem diffOps_correct:
  "case diffOps a b of
     None \<Rightarrow> False
   | Some ops \<Rightarrow> old_lines ops = a \<and> new_lines ops = b \<and> removals_lead ops"
  using diffOps_total [of a b] by auto

section \<open>Counts\<close>

lemma concat_split_after: "concat (split_after s) = s"
  by (induction s rule: split_after.induct) (auto split: list.splits)

lemma split_after_not_Nil [simp]: "split_after s \<noteq> []"
  by (cases s) (auto split: list.splits)

lemma concat_splitLines: "concat (splitLines s) = s"
proof (cases "s = []")
  case False
  have "concat (split_after s) = concat (butlast (split_after s)) @ last (split_after s)"
    by (metis append_butlast_last_id concat.simps concat_append append_Nil2 split_after_not_Nil)
  then have "last (split_after s) = [] \<Longrightarrow> concat (butlast (split_after s)) = s"
    by (simp add: concat_split_after)
  with False show ?thesis
    by (simp add: splitLines_def Let_def concat_split_after)
qed (simp add: splitLines_def)

lemma splitLines_inject: "splitLines s = splitLines t \<longleftrightarrow> s = t"
  by (metis concat_splitLines)

definition count_kind :: "op_kind \<Rightarrow> op list \<Rightarrow> int" where
  "count_kind k ops = int (length (filter (\<lambda>x. kind x = k) ops))"

lemma side_lengths:
  "int (length (old_lines ops)) = count_kind opEqual ops + count_kind opDelete ops"
  "int (length (new_lines ops)) = count_kind opEqual ops + count_kind opInsert ops"
  by (induction ops) (auto simp: old_lines_def new_lines_def count_kind_def; metis op_kind.exhaust)+

lemma no_change_same_sides:
  "count_kind opInsert ops = 0 \<Longrightarrow> count_kind opDelete ops = 0 \<Longrightarrow> old_lines ops = new_lines ops"
  by (simp add: count_kind_def old_lines_def new_lines_def filter_empty_conv)

text \<open>
  the counts on the plate are right: whatever the two contents, the count is computed, the
  added lines minus the removed ones are the growth of the file in lines, and nothing is reported
  as changed exactly when the contents are equal.
\<close>

theorem Stat_correct:
  "case Stat before after of
     None \<Rightarrow> False
   | Some (added, deleted) \<Rightarrow>
       0 \<le> added \<and> 0 \<le> deleted \<and>
       added - deleted = int (length (splitLines after)) - int (length (splitLines before)) \<and>
       (added = 0 \<and> deleted = 0 \<longleftrightarrow> before = after)"
proof (cases "before = after")
  case False
  obtain ops where ops: "diffOps (splitLines before) (splitLines after) = Some ops"
    "old_lines ops = splitLines before" "new_lines ops = splitLines after"
    using diffOps_total by blast
  have "Stat before after = Some (count_kind opInsert ops, count_kind opDelete ops)"
    using False ops(1) by (simp add: Stat_def count_kind_def)
  moreover have "\<not> (count_kind opInsert ops = 0 \<and> count_kind opDelete ops = 0)"
    using no_change_same_sides [of ops] False ops(2,3) splitLines_inject by metis
  moreover have "0 \<le> count_kind k ops" for k by (simp add: count_kind_def)
  ultimately show ?thesis using False side_lengths [of ops] ops(2,3) by simp
qed (simp add: Stat_def)

section \<open>The hunks cover the changes\<close>

fun covers :: "op list \<Rightarrow> int \<Rightarrow> hunkRange list \<Rightarrow> bool" where
  "covers ops p [] \<longleftrightarrow> (\<forall>i. p \<le> int i \<and> i < length ops \<longrightarrow> kind (ops ! i) = opEqual)"
| "covers ops p (r # rs) \<longleftrightarrow>
     p \<le> h_start r \<and> h_start r < h_end r \<and> h_end r \<le> int (length ops) \<and>
     (\<forall>i. p \<le> int i \<and> int i < h_start r \<longrightarrow> kind (ops ! i) = opEqual) \<and>
     covers ops (h_end r) rs"

lemma set_changed_from:
  "set (changed_from k ops) = {k + int j | j. j < length ops \<and> kind (ops ! j) \<noteq> opEqual}"
proof (induction ops arbitrary: k)
  case (Cons x ops)
  have "{k + int j | j. j < length (x # ops) \<and> kind ((x # ops) ! j) \<noteq> opEqual} =
      (if kind x \<noteq> opEqual then {k} else {}) \<union>
      {k + 1 + int j | j. j < length ops \<and> kind (ops ! j) \<noteq> opEqual}" (is "?l = ?r")
  proof
    show "?l \<subseteq> ?r"
    proof
      fix z assume "z \<in> ?l"
      then obtain j where "z = k + int j" "j < length (x # ops)" "kind ((x # ops) ! j) \<noteq> opEqual" by blast
      then show "z \<in> ?r" by (cases j) auto
    qed
    show "?r \<subseteq> ?l"
    proof
      fix z assume "z \<in> ?r"
      then consider "kind x \<noteq> opEqual" "z = k"
        | j where "z = k + 1 + int j" "j < length ops" "kind (ops ! j) \<noteq> opEqual"
        by (auto split: if_splits)
      then show "z \<in> ?l"
      proof cases
        case 1
        then show ?thesis by force
      next
        case 2
        then have "z = k + int (Suc j)" "Suc j < length (x # ops)" "kind ((x # ops) ! Suc j) \<noteq> opEqual" by auto
        then show ?thesis by blast
      qed
    qed
  qed
  with Cons show ?case by auto
qed simp

lemma sorted_changed_from: "sorted_wrt (<) (changed_from k ops)"
  by (induction ops arbitrary: k) (auto simp: set_changed_from)

lemma group_covers:
  assumes "0 \<le> context" "0 \<le> p" "p \<le> max 0 (gs - context)" "0 \<le> gs \<and> gs \<le> prev" "prev < int (length ops)"
    and "sorted_wrt (<) (prev # changed)"
    and "\<And>i. prev < int i \<Longrightarrow> i < length ops \<Longrightarrow> kind (ops ! i) \<noteq> opEqual \<Longrightarrow> int i \<in> set changed"
    and "\<And>i. i \<in> set changed \<Longrightarrow> i < int (length ops)"
    and "\<And>i. p \<le> int i \<Longrightarrow> int i < gs \<Longrightarrow> kind (ops ! i) = opEqual"
  shows "covers ops p (group_changes context (int (length ops)) gs prev changed)"
  using assms(2-)
proof (induction changed arbitrary: p gs prev)
  case Nil
  have "kind (ops ! i) = opEqual" if "prev + 1 + context \<le> int i" "i < length ops" for i
    using Nil.prems(6) [of i] that assms(1) by fastforce
  with Nil.prems assms(1) show ?case by (auto simp: padHunk_def Let_def)
next
  case (Cons i changed)
  show ?case
  proof (cases "i - prev > 2 * context + 1")
    case True
    define r where "r = padHunk gs prev (int (length ops)) context"
    have r: "h_start r = max 0 (gs - context)" "h_end r = min (int (length ops)) (prev + 1 + context)"
      by (auto simp: r_def padHunk_def Let_def)
    have "covers ops (h_end r) (group_changes context (int (length ops)) i i changed)"
    proof (rule Cons.IH)
      show "0 \<le> h_end r" "h_end r \<le> max 0 (i - context)"
        using Cons.prems(1-4) True assms(1) by (auto simp: r)
      show "i < int (length ops)" using Cons.prems(7) by simp
      show "sorted_wrt (<) (i # changed)" using Cons.prems(5) by simp
      show "int j \<in> set changed" if "i < int j" "j < length ops" "kind (ops ! j) \<noteq> opEqual" for j
        using Cons.prems(5) Cons.prems(6) [of j] that by auto
      show "kind (ops ! j) = opEqual" if "h_end r \<le> int j" "int j < i" for j
      proof (rule ccontr)
        assume changed: "kind (ops ! j) \<noteq> opEqual"
        have "j < length ops" using that(2) Cons.prems(7) [of i] by simp
        moreover from this have "prev < int j" using that(1) assms(1) by (auto simp: r)
        ultimately have "int j \<in> set (i # changed)" using Cons.prems(6) changed by blast
        with Cons.prems(5) that(2) show False by auto
      qed
    qed (use Cons.prems(3,5,7) in auto)
    with True Cons.prems(1-4,8) assms(1) show ?thesis
      by (auto simp: r_def [symmetric] r)
  next
    case False
    have "covers ops p (group_changes context (int (length ops)) gs i changed)"
    proof (rule Cons.IH)
      show "int j \<in> set changed" if "i < int j" "j < length ops" "kind (ops ! j) \<noteq> opEqual" for j
        using Cons.prems(5) Cons.prems(6) [of j] that by auto
    qed (use Cons.prems in auto)
    with False show ?thesis by simp
  qed
qed

lemma hunkRanges_cover:
  assumes "0 \<le> context"
  shows "covers ops 0 (hunkRanges ops context)"
proof (cases "changed_from 0 ops")
  case Nil
  then have "set (changed_from 0 ops) = {}" by simp
  then have "\<And>i. i < length ops \<Longrightarrow> kind (ops ! i) = opEqual" unfolding set_changed_from by blast
  with Nil show ?thesis by (simp add: hunkRanges_def)
next
  case (Cons i changed)
  have mem: "j \<in> set (i # changed) \<longleftrightarrow> (\<exists>n. j = int n \<and> n < length ops \<and> kind (ops ! n) \<noteq> opEqual)" for j
    using set_changed_from [of 0 ops] Cons by auto
  have sorted: "sorted_wrt (<) (i # changed)" using sorted_changed_from [of 0 ops] Cons by simp
  have "covers ops 0 (group_changes context (int (length ops)) i i changed)"
  proof (rule group_covers [OF assms])
    show "i < int (length ops)" "0 \<le> i \<and> i \<le> i" using mem [of i] by auto
    show "int j \<in> set changed" if "i < int j" "j < length ops" "kind (ops ! j) \<noteq> opEqual" for j
      using mem [of "int j"] that by auto
    show "j < int (length ops)" if "j \<in> set changed" for j using mem [of j] that by auto
    show "kind (ops ! j) = opEqual" if "0 \<le> int j" "int j < i" for j
    proof (rule ccontr)
      assume "kind (ops ! j) \<noteq> opEqual"
      moreover have "j < length ops" using that(2) mem [of i] by auto
      ultimately have "int j \<in> set (i # changed)" using mem by blast
      with sorted that(2) show False by auto
    qed
  qed (use sorted in auto)
  with Cons show ?thesis by (simp add: hunkRanges_def)
qed

section \<open>A patch applies\<close>

text \<open>
  What a patch reader does with the hunks: it copies the old lines up to the hunk, checks that
  the hunk's old side stands at the line its header names and its new side starts at the line it
  names, checks both counts, and writes the new side.
\<close>

fun apply_patch :: "bytes list \<Rightarrow> nat \<Rightarrow> bytes list \<Rightarrow> hunk list \<Rightarrow> bytes list option" where
  "apply_patch old cursor out [] = Some (out @ drop cursor old)"
| "apply_patch old cursor out (h # hs) =
     (let first = nat (if oldCount h > 0 then oldStart h - 1 else oldStart h);
          new_first = nat (if newCount h > 0 then newStart h - 1 else newStart h);
          removed = old_lines (hunk_ops h); added = new_lines (hunk_ops h);
          out = out @ take (first - cursor) (drop cursor old)
      in if cursor \<le> first \<and> length out = new_first \<and>
            oldCount h = int (length removed) \<and> newCount h = int (length added) \<and>
            take (length removed) (drop first old) = removed
         then apply_patch old (first + length removed) (out @ added) hs
         else None)"

lemma count_sides_lengths:
  "count_sides ops = (int (length (old_lines ops)), int (length (new_lines ops)))"
  by (induction ops) (auto simp: old_lines_def new_lines_def split: op_kind.splits)

lemma op_numbers_nth:
  "i < length ops \<Longrightarrow> op_numbers oc nc ops ! i =
     (oc + int (length (old_lines (take i ops))), nc + int (length (new_lines (take i ops))))"
proof (induction ops arbitrary: i oc nc)
  case (Cons x ops)
  then show ?case
    by (cases i) (auto simp: old_lines_def new_lines_def split: op_kind.split)
qed simp

lemma length_op_numbers [simp]: "length (op_numbers oc nc ops) = length ops"
  by (induction ops arbitrary: oc nc) (auto split: op_kind.split)

lemma all_equal_sides:
  "list_all (\<lambda>x. kind x = opEqual) ops \<Longrightarrow> old_lines ops = new_lines ops"
  by (induction ops) (auto simp: old_lines_def new_lines_def)

definition range_ops :: "op list \<Rightarrow> int \<Rightarrow> int \<Rightarrow> op list" where
  "range_ops ops i j = take (nat (j - i)) (drop (nat i) ops)"

lemma range_ops_take:
  "0 \<le> i \<Longrightarrow> i \<le> j \<Longrightarrow> take (nat j) ops = take (nat i) ops @ range_ops ops i j"
  unfolding range_ops_def by (simp flip: take_add nat_add_distrib)

lemma hunk_of_range:
  assumes "0 \<le> h_start r" "h_start r < h_end r" "h_end r \<le> int (length ops)"
  shows "\<exists>h. hunk_of ops r = Some h \<and> hunk_ops h = range_ops ops (h_start r) (h_end r) \<and>
    oldCount h = int (length (old_lines (hunk_ops h))) \<and>
    newCount h = int (length (new_lines (hunk_ops h))) \<and>
    (if oldCount h > 0 then oldStart h - 1 else oldStart h) = int (length (old_lines (take (nat (h_start r)) ops))) \<and>
    (if newCount h > 0 then newStart h - 1 else newStart h) = int (length (new_lines (take (nat (h_start r)) ops)))"
  using assms
  by (simp add: hunk_of_def slice_def range_ops_def count_sides_lengths op_numbers_nth)

lemma apply_step:
  assumes old: "old = A @ G @ P @ R"
    and "old_lines (hunk_ops h) = P" "oldCount h = int (length P)"
    and "newCount h = int (length (new_lines (hunk_ops h)))"
    and "(if oldCount h > 0 then oldStart h - 1 else oldStart h) = int (length A + length G)"
    and "(if newCount h > 0 then newStart h - 1 else newStart h) = int (length B + length G)"
  shows "apply_patch old (length A) B (h # hs) =
    apply_patch old (length A + length G + length P) (B @ G @ new_lines (hunk_ops h)) hs"
  unfolding apply_patch.simps assms(5,6) by (simp add: Let_def assms(2-4) old del: of_nat_add)

lemma apply_covers:
  assumes "covers ops p rs" "0 \<le> p" "p \<le> int (length ops)"
  shows "\<exists>hs. map (hunk_of ops) rs = map Some hs \<and>
    apply_patch (old_lines ops) (length (old_lines (take (nat p) ops))) (new_lines (take (nat p) ops)) hs =
      Some (new_lines ops)"
  using assms
proof (induction rs arbitrary: p)
  case Nil
  have "list_all (\<lambda>x. kind x = opEqual) (drop (nat p) ops)"
    using Nil by (auto simp: list_all_length)
  then have "old_lines (drop (nat p) ops) = new_lines (drop (nat p) ops)" by (rule all_equal_sides)
  moreover have "old_lines ops = old_lines (take (nat p) ops) @ old_lines (drop (nat p) ops)"
    "new_lines ops = new_lines (take (nat p) ops) @ new_lines (drop (nat p) ops)"
    by (simp_all flip: sides_append)
  ultimately show ?case by (auto intro!: exI [of _ "[]"])
next
  case (Cons r rs)
  then have r: "p \<le> h_start r" "0 \<le> h_start r" "h_start r < h_end r" "h_end r \<le> int (length ops)" by auto
  obtain hs where hs: "map (hunk_of ops) rs = map Some hs"
    "apply_patch (old_lines ops) (length (old_lines (take (nat (h_end r)) ops)))
       (new_lines (take (nat (h_end r)) ops)) hs = Some (new_lines ops)"
    using Cons.IH [of "h_end r"] Cons.prems(1) r by auto
  obtain h where h: "hunk_of ops r = Some h" "hunk_ops h = range_ops ops (h_start r) (h_end r)"
    "oldCount h = int (length (old_lines (hunk_ops h)))"
    "newCount h = int (length (new_lines (hunk_ops h)))"
    "(if oldCount h > 0 then oldStart h - 1 else oldStart h) = int (length (old_lines (take (nat (h_start r)) ops)))"
    "(if newCount h > 0 then newStart h - 1 else newStart h) = int (length (new_lines (take (nat (h_start r)) ops)))"
    using hunk_of_range [OF r(2-4)] by blast
  define gap where "gap = range_ops ops p (h_start r)"
  define part where "part = range_ops ops (h_start r) (h_end r)"
  define rest where "rest = drop (nat (h_end r)) ops"
  have upto: "take (nat (h_start r)) ops = take (nat p) ops @ gap"
    unfolding gap_def by (rule range_ops_take) (use Cons.prems r in auto)
  have upto': "take (nat (h_end r)) ops = take (nat p) ops @ gap @ part"
    using range_ops_take [of "h_start r" "h_end r" ops] r upto by (simp add: part_def)
  have ops: "ops = take (nat p) ops @ gap @ part @ rest"
    using upto' unfolding rest_def by (metis append.assoc append_take_drop_id)
  have "list_all (\<lambda>x. kind x = opEqual) gap"
    using Cons.prems r by (auto simp: gap_def range_ops_def list_all_length)
  then have gap: "old_lines gap = new_lines gap" by (rule all_equal_sides)
  have old: "old_lines ops = old_lines (take (nat p) ops) @ old_lines gap @ old_lines part @ old_lines rest"
    by (subst ops) simp
  have ops_h: "hunk_ops h = part" by (simp add: h(2) part_def)
  have "apply_patch (old_lines ops) (length (old_lines (take (nat p) ops))) (new_lines (take (nat p) ops)) (h # hs) =
      apply_patch (old_lines ops)
        (length (old_lines (take (nat p) ops)) + length (old_lines gap) + length (old_lines part))
        (new_lines (take (nat p) ops) @ old_lines gap @ new_lines (hunk_ops h)) hs"
    by (rule apply_step [OF old]) (use h(3-6) ops_h upto gap in simp_all)
  also have "\<dots> = apply_patch (old_lines ops) (length (old_lines (take (nat (h_end r)) ops)))
        (new_lines (take (nat (h_end r)) ops)) hs"
    by (simp add: upto' gap ops_h add.assoc)
  finally have step: "apply_patch (old_lines ops) (length (old_lines (take (nat p) ops)))
      (new_lines (take (nat p) ops)) (h # hs) = Some (new_lines ops)"
    using hs(2) by simp
  from hs(1) h(1) step show ?case by (intro exI [of _ "h # hs"]) simp
qed


section \<open>The text of a patch\<close>

definition hunk_text :: "hunk \<Rightarrow> bytes" where
  "hunk_text h = hunk_header h @ concat (map op_text (hunk_ops h))"

lemma write_ops_text:
  "case write_ops b ops of (b', truncated) \<Rightarrow>
     prefix b' (b @ concat (map op_text ops)) \<and> prefix b b' \<and>
     (if truncated then maxPatchBytes < length b'
      else b' = b @ concat (map op_text ops) \<and> (ops = [] \<or> length b' \<le> maxPatchBytes))"
proof (induction b ops rule: write_ops.induct)
  case (2 b x ops)
  show ?case
  proof (cases "length (b @ op_text x) > maxPatchBytes")
    case True
    then show ?thesis by (simp add: Let_def)
  next
    case False
    obtain b' t where w: "write_ops (b @ op_text x) ops = (b', t)" by force
    have "prefix b b'" if "prefix (b @ op_text x) b'" using that by (rule append_prefixD)
    with 2 [OF refl False] False w show ?thesis by (cases ops) (auto simp: Let_def split: if_splits)
  qed
qed simp

lemma write_hunks_text:
  "map (hunk_of ops) rs = map Some hs \<Longrightarrow>
   case write_hunks ops b rs of
     None \<Rightarrow> False
   | Some (b', truncated) \<Rightarrow>
       prefix b' (b @ concat (map hunk_text hs)) \<and>
       (if truncated then maxPatchBytes < length b' else b' = b @ concat (map hunk_text hs))"
proof (induction rs arbitrary: b hs)
  case (Cons r rs)
  then obtain h hs' where hs: "hs = h # hs'" "hunk_of ops r = Some h" "map (hunk_of ops) rs = map Some hs'"
    by (cases hs) auto
  obtain b' t where w: "write_ops (b @ hunk_header h) (hunk_ops h) = (b', t)" by force
  note wt = write_ops_text [of "b @ hunk_header h" "hunk_ops h", unfolded w prod.case]
  show ?case
  proof (cases t)
    case True
    with wt have "prefix b' (b @ hunk_text h)" by (simp add: hunk_text_def)
    then have "prefix b' (b @ hunk_text h @ concat (map hunk_text hs'))"
      by (metis append.assoc prefix_prefix)
    with True wt w hs show ?thesis by simp
  next
    case False
    with wt have b': "b' = b @ hunk_text h" by (simp add: hunk_text_def)
    have step: "write_hunks ops b (r # rs) = write_hunks ops b' rs" using False w hs by simp
    have whole: "b @ concat (map hunk_text hs) = b' @ concat (map hunk_text hs')" using b' hs by simp
    show ?thesis unfolding step whole by (rule Cons.IH [OF hs(3)])
  qed
qed simp

text \<open>
  The rendered patch.  It is empty exactly for equal contents; otherwise it is the file
  header followed by the text of the hunks that \<open>hunks_apply\<close> shows to be right, all of it unless
  the patch is reported as truncated, and a truncated one is a prefix of that text longer than the
  size limit.
\<close>

theorem Unified_text:
  "case Unified path before after context of
     None \<Rightarrow> False
   | Some (patch, truncated) \<Rightarrow>
       (patch = [] \<longleftrightarrow> before = after) \<and>
       (before = after \<or>
        (\<exists>ops hs. diffOps (splitLines before) (splitLines after) = Some ops \<and>
           map (hunk_of ops) (hunkRanges ops (max 0 context)) = map Some hs \<and>
           (let full = file_header path @ concat (map hunk_text hs) in
            if truncated then prefix patch full \<and> maxPatchBytes < length patch else patch = full)))"
proof (cases "before = after")
  case False
  obtain ops where ops: "diffOps (splitLines before) (splitLines after) = Some ops"
    using diffOps_total by blast
  define rs where "rs = hunkRanges ops (max 0 context)"
  have "covers ops 0 rs" unfolding rs_def by (rule hunkRanges_cover) simp
  from apply_covers [OF this] obtain hs where hs: "map (hunk_of ops) rs = map Some hs" by auto
  have "max 0 context = (if context < 0 then 0 else context)" by auto
  then have unified: "Unified path before after context = write_hunks ops (file_header path) rs"
    using False ops by (simp add: Unified_def Let_def rs_def)
  note wt = write_hunks_text [OF hs, of "file_header path"]
  then obtain patch t where w: "write_hunks ops (file_header path) rs = Some (patch, t)"
    by (auto split: option.splits)
  with wt have t: "prefix patch (file_header path @ concat (map hunk_text hs))"
    "if t then maxPatchBytes < length patch else patch = file_header path @ concat (map hunk_text hs)"
    by simp_all
  then have "patch \<noteq> []" by (auto simp: file_header_def split: if_splits)
  with False ops hs t show ?thesis
    unfolding unified w by (auto simp: Let_def rs_def split: if_splits)
qed (simp add: Unified_def)

end
