(* ===== verification/Transcript.thy ===== *)
theory Transcript
  imports GoPrelude
begin

text \<open>
  The conversation history of a session (\<^verbatim>\<open>internal/session\<close>): the window of it the model reads
  and where a compaction may cut it (compaction.go), the pages a client reads it by
  (message_window.go), and the rewind of it and the undo of that (rewind.go, rewind_undo.go).
  Indexes are Go ints, modelled as \<open>int\<close>; a slice or an index outside the history is \<open>None\<close>.
\<close>

section \<open>Messages\<close>

datatype Role = RoleSystem | RoleUser | RoleAssistant | RoleTool

record ToolCall =
  call_ID :: bytes
  call_Name :: bytes
  InputJSON :: bytes

record image_part =
  DataURL :: bytes
  MIMEType :: bytes
  Size :: int
  part_Name :: bytes
  FilePath :: bytes

text \<open>
  The fields of \<^verbatim>\<open>llm.Message\<close> the modelled code reads; \<open>PlanDocument\<close> is whether it is set, and
  \<open>Artifacts\<close> are the ids of the artifacts.
\<close>

record message =
  role :: Role
  Content :: bytes
  Reasoning :: bytes
  Truncated :: bool
  ToolCalls :: "ToolCall list"
  ToolCallID :: bytes
  PlanDocument :: bool
  CompactionSummary :: bool
  CompactionBlock :: bool
  FollowUp :: bool
  msg_Model :: bytes
  CreatedAt :: bytes
  ImageParts :: "image_part list"
  Artifacts :: "bytes list"
  ReasoningSignature :: bytes
  Rules :: bytes
  Ephemeral :: bool

record ui_entry =
  ui_ID :: bytes
  UserTurnIndex :: int
  ui_Message :: bytes

definition CountUserTurns :: "message list \<Rightarrow> int" where
  "CountUserTurns msgs = int (length (filter (\<lambda>m. role m = RoleUser) msgs))"

section \<open>Compaction\<close>

definition compactionSummaryPreamble :: bytes where
  "compactionSummaryPreamble =
     ''The earlier conversation was compacted. Summary of the compacted part:'' @ [CHR 0x0A, CHR 0x0A]"

definition compactionBlockPreamble :: bytes where
  "compactionBlockPreamble =
     ''The conversation after the summary above was compacted as well. Summary of the compacted part:''
     @ [CHR 0x0A, CHR 0x0A]"

definition inTurnSummaryPreamble :: bytes where
  "inTurnSummaryPreamble =
     ''The text above is the message this turn started with, verbatim. Coddy compacted the '' @
     ''conversation before this point, including the earlier steps of the work on it. Summary of the compacted part:''
     @ [CHR 0x0A, CHR 0x0A]"

definition StopHookPrefix :: bytes where "StopHookPrefix = ''[Stop hook] ''"

text \<open>The scan for the last summary row, from \<open>i\<close> down; \<open>-1\<close> when there is none.\<close>

fun last_summary :: "message list \<Rightarrow> nat \<Rightarrow> int" where
  "last_summary msgs 0 = - 1"
| "last_summary msgs (Suc i) =
     (if CompactionSummary (msgs ! i) then int i else last_summary msgs i)"

text \<open>The scan that collects the chain; it is started inside the history.\<close>

fun chain_from :: "message list \<Rightarrow> nat \<Rightarrow> int list" where
  "chain_from msgs 0 = []"
| "chain_from msgs (Suc i) =
     (if \<not> CompactionSummary (msgs ! i) then chain_from msgs i
      else if \<not> CompactionBlock (msgs ! i) then [int i]
      else int i # chain_from msgs i)"

definition LLMWindow :: "message list \<Rightarrow> int list \<times> int" where
  "LLMWindow msgs =
     (let final = last_summary msgs (length msgs) in
      if final < 0 then ([], 0)
      else (rev (chain_from msgs (Suc (nat final))), final + 1))"

definition MessagesForLLM :: "message list \<Rightarrow> message list option" where
  "MessagesForLLM msgs =
     (case LLMWindow msgs of
        ([], _) \<Rightarrow> Some msgs
      | ([b], _) \<Rightarrow> (if 0 \<le> b \<and> b \<le> int (length msgs) then Some (drop (nat b) msgs) else None)
      | (blocks, tailStart) \<Rightarrow>
          (if list_all (\<lambda>b. idx msgs b \<noteq> None) blocks \<and> 0 \<le> tailStart \<and> tailStart \<le> int (length msgs)
           then Some (map (\<lambda>b. msgs ! nat b) blocks @ drop (nat tailStart) msgs) else None))"

definition isRealUser :: "message \<Rightarrow> bool" where
  "isRealUser m \<longleftrightarrow> role m = RoleUser \<and> \<not> CompactionSummary m"

definition isFollowUp :: "message \<Rightarrow> bool" where
  "isFollowUp m \<longleftrightarrow> FollowUp m \<or> has_prefix (Content m) StopHookPrefix"

fun opening_from :: "message list \<Rightarrow> nat \<Rightarrow> int option" where
  "opening_from msgs 0 = None"
| "opening_from msgs (Suc i) =
     (if isRealUser (msgs ! i) \<and> \<not> isFollowUp (msgs ! i) then Some (int i) else opening_from msgs i)"

definition OpeningPromptIndex :: "message list \<Rightarrow> int option" where
  "OpeningPromptIndex msgs = opening_from msgs (length msgs)"

text \<open>The indexes in \<open>[from, stop)\<close> whose message satisfies \<open>P\<close>, in order.\<close>

definition indexes :: "(message \<Rightarrow> bool) \<Rightarrow> message list \<Rightarrow> int \<Rightarrow> int \<Rightarrow> int list" where
  "indexes P msgs from stop = filter (\<lambda>i. P (msgs ! nat i)) [from..stop - 1]"

definition CompactionSplitIndexUpTo :: "message list \<Rightarrow> int \<Rightarrow> int \<Rightarrow> int option" where
  "CompactionSplitIndexUpTo msgs keep lastTurnStart =
     (let keepRecentTurns = (if keep < 0 then 0 else keep);
          (blocks, start) = LLMWindow msgs;
          userIdx = (if blocks \<noteq> [] \<and> start < int (length msgs) \<and> role (msgs ! nat start) = RoleAssistant
                     then [start - 1] else []);
          userIdx = userIdx @ indexes isRealUser msgs start (min (int (length msgs)) (lastTurnStart + 1))
      in if int (length userIdx) \<le> keepRecentTurns then None
         else if keepRecentTurns = 0 then Some (int (length msgs))
         else idx userIdx (int (length userIdx) - keepRecentTurns))"

definition CompactionSplitIndex :: "message list \<Rightarrow> int \<Rightarrow> int option" where
  "CompactionSplitIndex msgs keep = CompactionSplitIndexUpTo msgs keep (int (length msgs) - 1)"

definition isUIOnlyRow :: "message \<Rightarrow> bool" where
  "isUIOnlyRow m \<longleftrightarrow>
     PlanDocument m \<and> trim_space (Content m) = [] \<and> ToolCalls m = [] \<and> trim_space (Reasoning m) = []"

definition turnSteps :: "message list \<Rightarrow> int list" where
  "turnSteps msgs =
     (let (blocks, start) = LLMWindow msgs;
          from = (case OpeningPromptIndex msgs of Some p \<Rightarrow> if p \<ge> start then p else - 1 | None \<Rightarrow> - 1);
          from = (if from < 0 \<and> blocks \<noteq> [] then start - 1 else from)
      in if from < 0 then []
         else indexes (\<lambda>m. role m = RoleAssistant \<and> \<not> isUIOnlyRow m) msgs (from + 1) (int (length msgs)))"

definition TurnStepCount :: "message list \<Rightarrow> int" where
  "TurnStepCount msgs = int (length (turnSteps msgs))"

definition TurnStepSplitIndex :: "message list \<Rightarrow> int \<Rightarrow> int option" where
  "TurnStepSplitIndex msgs keep =
     (let keepSteps = (if keep < 0 then 0 else keep); steps = turnSteps msgs in
      if int (length steps) \<le> keepSteps then None
      else if keepSteps = 0 then Some (int (length msgs))
      else idx steps (int (length steps) - keepSteps))"

text \<open>\<open>now\<close> is the time stamp of the row.\<close>

definition NewCompactionSummaryMessage :: "bytes \<Rightarrow> bytes \<Rightarrow> bytes \<Rightarrow> message" where
  "NewCompactionSummaryMessage now summary model =
     \<lparr>role = RoleUser, Content = compactionSummaryPreamble @ trim_space summary, Reasoning = [],
      Truncated = False, ToolCalls = [], ToolCallID = [], PlanDocument = False,
      CompactionSummary = True, CompactionBlock = False, FollowUp = False, msg_Model = model,
      CreatedAt = now, ImageParts = [], Artifacts = [], ReasoningSignature = [], Rules = [], Ephemeral = False\<rparr>"

definition NewCompactionBlockMessage :: "bytes \<Rightarrow> bytes \<Rightarrow> bytes \<Rightarrow> bool \<Rightarrow> message" where
  "NewCompactionBlockMessage now summary model continues =
     (let m = (NewCompactionSummaryMessage now summary model)\<lparr>CompactionBlock := True\<rparr> in
      if continues then m\<lparr>Content := compactionBlockPreamble @ trim_space summary\<rparr> else m)"

definition NewInTurnCompactionSummaryMessage :: "bytes \<Rightarrow> bytes \<Rightarrow> bytes \<Rightarrow> bytes \<Rightarrow> message" where
  "NewInTurnCompactionSummaryMessage now prompt summary model =
     (NewCompactionSummaryMessage now summary model)
       \<lparr>Content := prompt @ [CHR 0x0A, CHR 0x0A] @ inTurnSummaryPreamble @ trim_space summary\<rparr>"

text \<open>\<^verbatim>\<open>strings.Cut\<close>: around the first occurrence of a separator.\<close>

fun cut :: "bytes \<Rightarrow> bytes \<Rightarrow> (bytes \<times> bytes) option" where
  "cut sep [] = (if sep = [] then Some ([], []) else None)"
| "cut sep (c # s) =
     (if prefix sep (c # s) then Some ([], drop (length sep) (c # s))
      else map_option (\<lambda>(before, after). (c # before, after)) (cut sep s))"

definition SplitInTurnSummary :: "bytes \<Rightarrow> (bytes \<times> bytes) option" where
  "SplitInTurnSummary content =
     (if has_prefix content compactionSummaryPreamble \<or> has_prefix content compactionBlockPreamble
      then None
      else cut ([CHR 0x0A, CHR 0x0A] @ inTurnSummaryPreamble) content)"

definition SummaryReplayText :: "bytes \<Rightarrow> bytes" where
  "SummaryReplayText content =
     (case SplitInTurnSummary content of
        Some (_, summary) \<Rightarrow> inTurnSummaryPreamble @ summary | None \<Rightarrow> content)"

text \<open>\<^verbatim>\<open>State.InsertCompactionSummary\<close> on the history, and whether it counts as an append.\<close>

definition InsertCompactionSummary :: "int \<Rightarrow> message \<Rightarrow> message list \<Rightarrow> message list \<times> bool" where
  "InsertCompactionSummary i m msgs =
     (let i = (if i < 0 \<or> i > int (length msgs) then int (length msgs) else i);
          msgs' = take (nat i) msgs @ [m] @ drop (nat i) msgs
      in (msgs', i = int (length msgs') - 1))"

section \<open>Pages\<close>

record MessagePageQuery =
  From :: int
  Before :: int
  Limit :: int

record MessagePage =
  Offset :: int
  End :: int
  Total :: int
  TurnsBefore :: int
  UserRowsBefore :: int

fun follows_from :: "message list \<Rightarrow> bool" where
  "follows_from [] = False"
| "follows_from (m # before) =
     (if role m = RoleAssistant \<and> trim_space (Content m) = [] \<and> ToolCalls m = []
      then follows_from before
      else role m = RoleAssistant \<and> Truncated m)"

definition FollowsTruncated :: "message list \<Rightarrow> bool" where
  "FollowsTruncated msgs = follows_from (rev msgs)"

definition continuesTruncated :: "message list \<Rightarrow> nat \<Rightarrow> bool" where
  "continuesTruncated msgs i \<longleftrightarrow>
     role (msgs ! i) = RoleAssistant \<and> FollowsTruncated (take i msgs)"

definition opensTurn :: "message \<Rightarrow> bool" where
  "opensTurn m \<longleftrightarrow> role m = RoleUser \<and> \<not> CompactionSummary m"

fun step_start :: "message list \<Rightarrow> nat \<Rightarrow> nat" where
  "step_start msgs 0 = 0"
| "step_start msgs (Suc i) =
     (if Suc i < length msgs \<and>
         (role (msgs ! Suc i) = RoleTool \<or> continuesTruncated msgs (Suc i))
      then step_start msgs i else Suc i)"

definition stepStart :: "message list \<Rightarrow> int \<Rightarrow> int" where
  "stepStart msgs i = (if i > 0 then int (step_start msgs (nat i)) else i)"

text \<open>The search for a prompt from \<open>i\<close> down to \<open>low\<close>.\<close>

function turn_opening :: "message list \<Rightarrow> int \<Rightarrow> int \<Rightarrow> int option option" where
  "turn_opening msgs low i =
     (if i \<ge> 0 \<and> i \<ge> low then
        (case idx msgs i of
           None \<Rightarrow> None
         | Some m \<Rightarrow> if opensTurn m then Some (Some i) else turn_opening msgs low (i - 1))
      else Some None)"
  by pat_completeness auto
termination by (relation "measure (\<lambda>(msgs, low, i). nat (i + 1))") auto

declare turn_opening.simps [simp del]

definition pageStart :: "message list \<Rightarrow> int \<Rightarrow> int \<Rightarrow> int option" where
  "pageStart msgs stop limit =
     (let from = stop - limit in
      if from \<le> 0 then Some 0
      else (case turn_opening msgs (from - limit div 2) from of
              None \<Rightarrow> None | Some (Some i) \<Rightarrow> Some i | Some None \<Rightarrow> Some (stepStart msgs from)))"

definition PageMessages :: "message list \<Rightarrow> MessagePageQuery \<Rightarrow> MessagePage option" where
  "PageMessages msgs q =
     (let total = int (length msgs);
          stop = (if Before q \<ge> 0 \<and> Before q < total then stepStart msgs (Before q) else total)
      in case (if From q \<ge> 0 then Some (stepStart msgs (min (From q) stop))
               else if Limit q > 0 then pageStart msgs stop (Limit q)
               else Some 0) of
           None \<Rightarrow> None
         | Some start \<Rightarrow>
             if 0 \<le> start \<and> start \<le> total then
               (let before = take (nat start) msgs in
                Some \<lparr>Offset = start, End = stop, Total = total,
                  TurnsBefore = int (length (filter (\<lambda>m. role m = RoleUser \<and> \<not> CompactionSummary m) before)),
                  UserRowsBefore = int (length (filter (\<lambda>m. role m = RoleUser) before))\<rparr>)
             else None)"

definition UILog :: "MessagePage \<Rightarrow> message list \<Rightarrow> ui_entry list \<Rightarrow> ui_entry list" where
  "UILog p msgs log =
     (let userRows = indexes (\<lambda>m. role m = RoleUser) msgs 0 (int (length msgs)) in
      filter (\<lambda>e. let t = max (UserTurnIndex e) 1 in
                if t \<ge> int (length userRows) then End p = Total p
                else (let pos = userRows ! nat t in Offset p \<le> pos \<and> pos < End p)) log)"

section \<open>Artifacts placed in answers\<close>

text \<open>
  \<^verbatim>\<open>coddyFileMarker\<close>, at the start of the text: what follows the marker. The parts of the pattern
  are disjoint from what follows them, so there is one way to match it.
\<close>

definition marker_space :: "char \<Rightarrow> bool" where
  "marker_space c \<longleftrightarrow> c \<in> {CHR '' '', CHR 0x09, CHR 0x0A, CHR 0x0C, CHR 0x0D}"

definition quoted_rest :: "bytes \<Rightarrow> bytes option" where
  "quoted_rest s =
     (case s of
        [] \<Rightarrow> None
      | q # t \<Rightarrow>
          if q \<noteq> CHR 0x22 \<and> q \<noteq> CHR 0x27 then None
          else (case dropWhile (\<lambda>c. c \<noteq> q) t of [] \<Rightarrow> None | _ # u \<Rightarrow> Some u))"

definition char_rest :: "char \<Rightarrow> bytes \<Rightarrow> bytes option" where
  "char_rest c s = (case s of d # t \<Rightarrow> if c = d then Some t else None | [] \<Rightarrow> None)"

definition marker_rest :: "bytes \<Rightarrow> bytes option" where
  "marker_rest s =
     (let t = drop 11 s; u = dropWhile marker_space t in
      if map lower_char (take 11 s) \<noteq> ''<coddy_file'' \<or> u = t \<or> map lower_char (take 2 u) \<noteq> ''id'' then None
      else Option.bind (char_rest (CHR ''='') (dropWhile marker_space (drop 2 u))) (\<lambda>v.
           Option.bind (quoted_rest (dropWhile marker_space v)) (\<lambda>w.
           Option.bind (char_rest (CHR ''/'') (dropWhile marker_space w)) (\<lambda>x.
           char_rest (CHR ''>'') (dropWhile marker_space x)))))"

lemma char_rest_shorter: "char_rest c s = Some t \<Longrightarrow> length t < length s"
  by (auto simp: char_rest_def split: list.splits if_splits)

lemma quoted_rest_shorter: "quoted_rest s = Some t \<Longrightarrow> length t < length s"
proof -
  assume *: "quoted_rest s = Some t"
  then obtain q r where s: "s = q # r" by (auto simp: quoted_rest_def split: list.splits)
  then show ?thesis
    using * length_dropWhile_le [of "\<lambda>c. c \<noteq> q" r] by (auto simp: quoted_rest_def split: list.splits if_splits)
qed

lemma marker_rest_shorter: "marker_rest s = Some t \<Longrightarrow> length t < length s"
proof -
  assume "marker_rest s = Some t"
  then obtain u v w x where *: "u = dropWhile marker_space (drop 11 s)"
      "char_rest (CHR ''='') (dropWhile marker_space (drop 2 u)) = Some v"
      "quoted_rest (dropWhile marker_space v) = Some w"
      "char_rest (CHR ''/'') (dropWhile marker_space w) = Some x"
      "char_rest (CHR ''>'') (dropWhile marker_space x) = Some t"
    by (auto simp: marker_rest_def Let_def split: if_splits Option.bind_splits)
  note d = length_dropWhile_le [of marker_space]
  show ?thesis
    using char_rest_shorter [OF *(2)] quoted_rest_shorter [OF *(3)] char_rest_shorter [OF *(4)] char_rest_shorter [OF *(5)]
      d [of x] d [of w] d [of v] d [of "drop 2 u"] d [of "drop 11 s"] by (simp add: *(1))
qed

text \<open>\<^verbatim>\<open>coddyFileMarker.ReplaceAllString(content, "")\<close>.\<close>

function strip_markers :: "bytes \<Rightarrow> bytes" where
  "strip_markers [] = []"
| "strip_markers (c # s) =
     (case marker_rest (c # s) of Some rest \<Rightarrow> strip_markers rest | None \<Rightarrow> c # strip_markers s)"
  by pat_completeness auto
termination
  by (relation "measure length") (auto dest: marker_rest_shorter)

definition StripArtifactMarkers :: "bytes \<Rightarrow> bytes" where
  "StripArtifactMarkers content = trim_space (strip_markers content)"

definition leading_space :: "bytes \<Rightarrow> bytes" where
  "leading_space s = take (length s - length (trim_left s)) s"

definition StripAssistantContent :: "bytes \<Rightarrow> bool \<Rightarrow> bool \<Rightarrow> bytes" where
  "StripAssistantContent content keepStart keepEnd =
     (let s = strip_markers content; core = trim_space s in
      if core = [] then []
      else (if keepStart then leading_space s else []) @ core @
           (if keepEnd then drop (length (trim_right s)) s else []))"

definition safe_marker_id :: "bytes \<Rightarrow> bool" where
  "safe_marker_id s \<longleftrightarrow>
     s \<noteq> [] \<and> list_all (\<lambda>c. c \<in> set ''ABCDEFGHIJKLMNOPQRSTUVWXYZabcdefghijklmnopqrstuvwxyz0123456789_-'') s"

definition ArtifactMarkers :: "bytes list \<Rightarrow> bytes" where
  "ArtifactMarkers ids =
     join [CHR 0x0A] (map (\<lambda>i. ''<coddy_file id='' @ [CHR 0x22] @ i @ [CHR 0x22] @ ''/>'') (filter safe_marker_id ids))"

text \<open>The walk back from a message to the start of the text it goes on from; \<open>before\<close> is reversed.\<close>

fun continued :: "message list \<Rightarrow> bytes \<Rightarrow> bytes" where
  "continued [] text = text"
| "continued (m # before) text =
     (if role m = RoleAssistant \<and> trim_space (Content m) = [] \<and> ToolCalls m = [] then continued before text
      else if role m \<noteq> RoleAssistant \<or> \<not> Truncated m \<or> ToolCalls m \<noteq> [] then text
      else continued before (Content m @ text))"

definition ContinuedAnswer :: "message list \<Rightarrow> nat \<Rightarrow> bytes" where
  "ContinuedAnswer msgs i = continued (rev (take i msgs)) (Content (msgs ! i))"

text \<open>The ids that are new, each at its first place.\<close>

fun pending_artifacts :: "bytes list \<Rightarrow> bytes list \<Rightarrow> bytes list" where
  "pending_artifacts placed [] = []"
| "pending_artifacts placed (i # ids) =
     (if i = [] \<or> List.member placed i then pending_artifacts placed ids else i # pending_artifacts (i # placed) ids)"

definition placePendingArtifacts :: "message list \<Rightarrow> message \<Rightarrow> message" where
  "placePendingArtifacts msgs m =
     (if role m \<noteq> RoleAssistant then m
      else
        (let keepStart = FollowsTruncated msgs;
             m = m\<lparr>Content := StripAssistantContent (Content m) keepStart (Truncated m)\<rparr> in
         if Content m = [] \<or> Truncated m then m
         else
           (let placed = concat (map Artifacts (filter (\<lambda>r. role r = RoleAssistant) msgs)) @ Artifacts m;
                pending = pending_artifacts placed (concat (map Artifacts (filter (\<lambda>r. role r = RoleTool) msgs))) in
            if pending = [] then m
            else m\<lparr>Artifacts := Artifacts m @ pending,
                   Content := (if keepStart then leading_space (Content m) else []) @ trim_space (Content m) @
                     [CHR 0x0A, CHR 0x0A] @ ArtifactMarkers pending\<rparr>)))"

section \<open>Rewinding\<close>

datatype rewind_error = ErrRewindOutOfRange | ErrSessionTurnActive | ErrRewindUndoUnavailable

fun nth_user :: "message list \<Rightarrow> int \<Rightarrow> int \<Rightarrow> int \<Rightarrow> int" where
  "nth_user [] i count n = - 1"
| "nth_user (m # msgs) i count n =
     (if role m = RoleUser \<and> \<not> CompactionSummary m then
        (if count = n then i else nth_user msgs (i + 1) (count + 1) n)
      else nth_user msgs (i + 1) count n)"

definition nthUserMessageIndex :: "message list \<Rightarrow> int \<Rightarrow> int" where
  "nthUserMessageIndex msgs n = nth_user msgs 0 0 n"

text \<open>The part of the session state a rewind touches, with the two history revisions.\<close>

record history =
  Messages :: "message list"
  ui_log :: "ui_entry list"
  msgRev :: nat
  msgEditRev :: nat

definition markMessagesEdited :: "history \<Rightarrow> history" where
  "markMessagesEdited s = s\<lparr>msgRev := msgRev s + 1, msgEditRev := msgEditRev s + 1\<rparr>"

definition markMessagesAppended :: "history \<Rightarrow> history" where
  "markMessagesAppended s = s\<lparr>msgRev := msgRev s + 1\<rparr>"

text \<open>The row that is stored; the goal a row is stamped with is added in the supervisor's theories.\<close>

definition AddMessage :: "message \<Rightarrow> history \<Rightarrow> history" where
  "AddMessage m s = markMessagesAppended (s\<lparr>Messages := Messages s @ [placePendingArtifacts (Messages s) m]\<rparr>)"

text \<open>\<open>turnActive\<close> is the answer of the recheck under the lock.\<close>

definition TruncateMessagesBeforeUserN ::
    "int \<Rightarrow> bool \<Rightarrow> history \<Rightarrow> rewind_error + (message list \<times> ui_entry list) \<times> history" where
  "TruncateMessagesBeforeUserN n turnActive s =
     (let i = nthUserMessageIndex (Messages s) n in
      if i < 0 then Inl ErrRewindOutOfRange
      else if turnActive then Inl ErrSessionTurnActive
      else
        (let kept = take (nat i) (Messages s); bound = CountUserTurns kept in
         Inr ((drop (nat i) (Messages s), filter (\<lambda>e. \<not> UserTurnIndex e \<le> bound) (ui_log s)),
              markMessagesEdited (s\<lparr>Messages := kept,
                ui_log := filter (\<lambda>e. UserTurnIndex e \<le> bound) (ui_log s)\<rparr>))))"

text \<open>The snapshot; \<open>digest\<close> is \<^verbatim>\<open>sha256\<close> over the framed fields \<open>prefixDigest\<close> writes.\<close>

record undo_snapshot =
  UserMessageIndex :: int
  BaseLen :: int
  PrefixDigest :: bytes
  snap_Messages :: "message list"
  snap_UILog :: "ui_entry list"

definition digest_input :: "message list \<Rightarrow> bytes" where
  "digest_input msgs = concat (map (\<lambda>m.
     (case role m of RoleSystem \<Rightarrow> ''system'' | RoleUser \<Rightarrow> ''user''
      | RoleAssistant \<Rightarrow> ''assistant'' | RoleTool \<Rightarrow> ''tool'') @ [CHR 0x00] @
     (if CompactionBlock m then ''2'' else if CompactionSummary m then ''1'' else ''0'') @ [CHR 0x00] @
     Content m @ [CHR 0x00] @ join '','' (map call_ID (ToolCalls m)) @ [CHR 0x00] @
     ToolCallID m @ [CHR 0x1E]) msgs)"

definition prefixDigest :: "(bytes \<Rightarrow> bytes) \<Rightarrow> message list \<Rightarrow> bytes" where
  "prefixDigest sha256 msgs = sha256 (digest_input msgs)"

text \<open>The record \<^verbatim>\<open>RewindSession\<close> writes after a cut.\<close>

definition rewind_snapshot ::
    "(bytes \<Rightarrow> bytes) \<Rightarrow> int \<Rightarrow> message list \<Rightarrow> ui_entry list \<Rightarrow> history \<Rightarrow> undo_snapshot" where
  "rewind_snapshot sha256 n cutMsgs cutLog s =
     \<lparr>UserMessageIndex = n, BaseLen = int (length (Messages s)),
      PrefixDigest = prefixDigest sha256 (Messages s), snap_Messages = cutMsgs, snap_UILog = cutLog\<rparr>"

fun at_most_one_user :: "int \<Rightarrow> message list \<Rightarrow> bool" where
  "at_most_one_user userRows [] = True"
| "at_most_one_user userRows (m # msgs) =
     (if role m = RoleUser then
        (if userRows + 1 > 1 then False else at_most_one_user (userRows + 1) msgs)
      else at_most_one_user userRows msgs)"

definition rewindUndoValid :: "(bytes \<Rightarrow> bytes) \<Rightarrow> message list \<Rightarrow> undo_snapshot \<Rightarrow> bool" where
  "rewindUndoValid sha256 msgs snap =
     (if int (length msgs) < BaseLen snap then False
      else if prefixDigest sha256 (take (nat (BaseLen snap)) msgs) \<noteq> PrefixDigest snap then False
      else at_most_one_user 0 (drop (nat (BaseLen snap)) msgs))"

definition restoreRewoundTail ::
    "int \<Rightarrow> message list \<Rightarrow> ui_entry list \<Rightarrow> bool \<Rightarrow> history \<Rightarrow> rewind_error + history" where
  "restoreRewoundTail baseLen tail tailLog turnActive s =
     (if turnActive then Inl ErrSessionTurnActive
      else if int (length (Messages s)) < baseLen then Inl ErrRewindUndoUnavailable
      else
        (let base = take (nat baseLen) (Messages s); bound = CountUserTurns base in
         Inr (markMessagesEdited (s\<lparr>Messages := base @ tail,
           ui_log := filter (\<lambda>e. UserTurnIndex e \<le> bound) (ui_log s) @ tailLog\<rparr>))))"

definition toolCallIDsInMessages :: "message list \<Rightarrow> bytes set" where
  "toolCallIDsInMessages msgs =
     \<Union> (set (map (\<lambda>m. set (filter (\<lambda>s. s \<noteq> []) (map call_ID (ToolCalls m))) \<union>
       (if ToolCallID m \<noteq> [] then {ToolCallID m} else {})) msgs))"

end
