(* ===== verification/Transcript_Correct.thy ===== *)
theory Transcript_Correct
  imports Transcript "HOL-Library.Multiset"
begin

text \<open>
  What the model reads after a compaction, where a compaction may cut, how the pages of a history
  fit together, and that undoing a rewind brings the history back.
\<close>

section \<open>The window the model reads\<close>

text \<open>The chain of summaries, read from the end, and the messages after the last of them.\<close>

fun until_start :: "message list \<Rightarrow> message list" where
  "until_start [] = []"
| "until_start (m # ms) = (if CompactionBlock m then m # until_start ms else [m])"

definition chain_rows :: "message list \<Rightarrow> message list" where
  "chain_rows msgs = rev (until_start (filter CompactionSummary (rev msgs)))"

definition verbatim_tail :: "message list \<Rightarrow> message list" where
  "verbatim_tail msgs = rev (takeWhile (\<lambda>m. \<not> CompactionSummary m) (rev msgs))"

lemma last_summary_spec:
  "k \<le> length msgs \<Longrightarrow> last_summary msgs k =
     int k - 1 - int (length (takeWhile (\<lambda>m. \<not> CompactionSummary m) (rev (take k msgs))))"
  by (induction k) (auto simp: take_Suc_conv_app_nth)

lemma last_summary_bounds: "- 1 \<le> last_summary msgs k \<and> last_summary msgs k < int k"
  by (induction k) auto

lemma last_summary_is:
  "0 \<le> last_summary msgs k \<Longrightarrow> CompactionSummary (msgs ! nat (last_summary msgs k))"
  by (induction k) (auto split: if_splits)

lemma last_summary_after:
  "k \<le> length msgs \<Longrightarrow> last_summary msgs k < int i \<Longrightarrow> i < k \<Longrightarrow> \<not> CompactionSummary (msgs ! i)"
  by (induction k) (auto split: if_splits simp: less_Suc_eq)

lemma chain_from_rows:
  "k \<le> length msgs \<Longrightarrow> map (\<lambda>b. msgs ! nat b) (chain_from msgs k) =
     until_start (filter CompactionSummary (rev (take k msgs)))"
  by (induction k) (auto simp: take_Suc_conv_app_nth)

lemma chain_from_bounds: "list_all (\<lambda>b. 0 \<le> b \<and> b < int k) (chain_from msgs k)"
proof (induction k)
  case (Suc k)
  then have "list_all (\<lambda>b. 0 \<le> b \<and> b < int (Suc k)) (chain_from msgs k)"
    by (auto simp: list_all_iff)
  then show ?case by simp
qed simp

lemma filter_after_last:
  assumes "last_summary msgs (length msgs) = int l" "l < length msgs"
  shows "filter CompactionSummary msgs = filter CompactionSummary (take (Suc l) msgs)"
proof -
  have "filter CompactionSummary (drop (Suc l) msgs) = []"
    using last_summary_after [of "length msgs" msgs] assms
    by (auto simp: filter_empty_conv in_set_conv_nth)
  then show ?thesis by (metis append_Nil2 append_take_drop_id filter_append)
qed

lemma tail_start:
  "LLMWindow msgs = (blocks, start) \<Longrightarrow>
     0 \<le> start \<and> start \<le> int (length msgs) \<and> verbatim_tail msgs = drop (nat start) msgs \<and>
     map (\<lambda>b. msgs ! nat b) blocks = chain_rows msgs \<and>
     (blocks = [] \<longleftrightarrow> start = 0) \<and>
     list_all (\<lambda>b. 0 \<le> b \<and> b < int (length msgs)) blocks \<and>
     (blocks \<noteq> [] \<longrightarrow> last blocks = start - 1)"
proof -
  assume w: "LLMWindow msgs = (blocks, start)"
  define t where "t = length (takeWhile (\<lambda>m. \<not> CompactionSummary m) (rev msgs))"
  have last: "last_summary msgs (length msgs) = int (length msgs) - 1 - int t"
    using last_summary_spec [of "length msgs" msgs] by (simp add: t_def)
  have t: "t \<le> length msgs" unfolding t_def by (metis length_rev length_takeWhile_le)
  have tail: "verbatim_tail msgs = drop (length msgs - t) msgs"
    unfolding verbatim_tail_def t_def
    by (metis length_rev rev_rev_ident rev_take takeWhile_eq_take)
  show ?thesis
  proof (cases "t = length msgs")
    case True
    then have "filter CompactionSummary (rev msgs) = []"
      by (simp add: t_def) (metis (mono_tags, lifting) filter_False length_rev set_rev set_takeWhileD takeWhile_eq_take take_all order_refl)
    then have "chain_rows msgs = []" by (simp add: chain_rows_def)
    with w last True tail show ?thesis by (auto simp: LLMWindow_def Let_def)
  next
    case False
    define l where "l = length msgs - 1 - t"
    have l: "last_summary msgs (length msgs) = int l" "l < length msgs" "Suc l = length msgs - t"
      using last t False by (auto simp: l_def)
    have blocks: "blocks = rev (chain_from msgs (Suc l))" "start = int l + 1"
      using w l by (simp_all add: LLMWindow_def Let_def)
    have "CompactionSummary (msgs ! l)" using last_summary_is [of msgs "length msgs"] l by simp
    then have ne: "chain_from msgs (Suc l) \<noteq> [] \<and> hd (chain_from msgs (Suc l)) = int l" by simp
    have "map (\<lambda>b. msgs ! nat b) blocks = rev (until_start (filter CompactionSummary (rev (take (Suc l) msgs))))"
      unfolding blocks rev_map [symmetric] using chain_from_rows [of "Suc l" msgs] l(2) by (simp only: Suc_le_eq)
    also have "\<dots> = chain_rows msgs"
      using filter_after_last [OF l(1,2)] by (simp add: chain_rows_def flip: rev_filter)
    finally have rows: "map (\<lambda>b. msgs ! nat b) blocks = chain_rows msgs" .
    have "list_all (\<lambda>b. 0 \<le> b \<and> b < int (length msgs)) blocks"
      unfolding blocks list_all_rev
      by (rule list.pred_mono_strong [OF chain_from_bounds]) (use l(2) in auto)
    moreover have "nat (int l + 1) = length msgs - t" using l(3) by simp
    ultimately show ?thesis using rows ne l tail by (auto simp: blocks last_rev)
  qed
qed

lemma MessagesForLLM_eq: "MessagesForLLM msgs = Some (chain_rows msgs @ verbatim_tail msgs)"
proof -
  obtain blocks start where w: "LLMWindow msgs = (blocks, start)" by force
  note s = tail_start [OF w]
  consider "blocks = []" | b where "blocks = [b]" | b c bs where "blocks = b # c # bs"
    by (metis list.exhaust)
  then show ?thesis
  proof cases
    case 1
    then have "start = 0" "chain_rows msgs = []" "verbatim_tail msgs = msgs" using s by auto
    with 1 w show ?thesis by (simp add: MessagesForLLM_def)
  next
    case 2
    then have "b = start - 1" "0 \<le> b" "b < int (length msgs)" "chain_rows msgs = [msgs ! nat b]" using s by auto
    moreover from this have "drop (nat b) msgs = msgs ! nat b # drop (nat start) msgs"
      by (metis Cons_nth_drop_Suc Suc_nat_eq_nat_zadd1 add.commute diff_add_cancel nat_less_iff)
    ultimately show ?thesis using 2 w s by (simp add: MessagesForLLM_def)
  next
    case 3
    then have "list_all (\<lambda>b. idx msgs b \<noteq> None) blocks" using s by (auto simp: list_all_iff idx_def)
    with 3 w s show ?thesis by (simp add: MessagesForLLM_def)
  qed
qed

text \<open>
  what the model is sent of a compacted history: the summary rows back to the last one that
  starts a chain, in order, then every message after the last summary, unchanged.
\<close>

theorem MessagesForLLM_window:
  "MessagesForLLM msgs = Some (chain_rows msgs @ verbatim_tail msgs)"
  by (rule MessagesForLLM_eq)

section \<open>Compacting\<close>

lemma chain_rows_block:
  assumes "CompactionSummary b" "CompactionBlock b"
  shows "chain_rows (xs @ b # ys) = (if filter CompactionSummary ys = [] then chain_rows xs @ [b] else chain_rows (xs @ b # ys))"
  using assms by (simp add: chain_rows_def rev_filter [symmetric])

lemma verbatim_tail_after: "CompactionSummary b \<Longrightarrow> filter CompactionSummary ys = [] \<Longrightarrow>
    verbatim_tail (xs @ b # ys) = ys"
proof -
  assume b: "CompactionSummary b" and "filter CompactionSummary ys = []"
  then have "\<forall>m\<in>set (rev ys). \<not> CompactionSummary m" by (auto simp: filter_empty_conv)
  then have "takeWhile (\<lambda>m. \<not> CompactionSummary m) (rev ys @ b # rev xs) = rev ys"
    using b by (subst takeWhile_append2) auto
  then show ?thesis by (simp add: verbatim_tail_def)
qed

lemma no_summary_tail:
  assumes "LLMWindow msgs = (blocks, start)" "start \<le> i"
  shows "filter CompactionSummary (drop (nat i) msgs) = []"
proof -
  have "\<not> CompactionSummary m" if "m \<in> set (drop (nat i) msgs)" for m
  proof -
    have "m \<in> set (drop (nat start) msgs)"
      using that set_drop_subset_set_drop [of "nat start" "nat i" msgs] assms(2)
      by (meson nat_mono subsetD)
    then have "m \<in> set (verbatim_tail msgs)" using tail_start [OF assms(1)] by simp
    then show ?thesis by (auto simp: verbatim_tail_def dest: set_takeWhileD)
  qed
  then show ?thesis by (auto simp: filter_empty_conv)
qed

lemma chain_rows_take:
  assumes "filter CompactionSummary (drop k msgs) = []"
  shows "chain_rows (take k msgs) = chain_rows msgs"
proof -
  have "filter CompactionSummary msgs = filter CompactionSummary (take k msgs)"
    using assms by (metis append_Nil2 append_take_drop_id filter_append)
  then show ?thesis by (simp add: chain_rows_def flip: rev_filter)
qed

lemma idx_indexes_mem: "i \<in> set (indexes P msgs lo hi) \<longleftrightarrow> lo \<le> i \<and> i < hi \<and> P (msgs ! nat i)"
  by (auto simp: indexes_def)

lemma sorted_indexes: "sorted_wrt (<) (indexes P msgs lo hi)"
  unfolding indexes_def by (rule sorted_wrt_filter) (simp add: sorted_wrt_upto)

lemma count_from:
  "0 \<le> i \<Longrightarrow> i \<le> int (length msgs) \<Longrightarrow>
     length (filter P (drop (nat i) msgs)) = length (indexes P msgs i (int (length msgs)))"
proof (induction "nat (int (length msgs) - i)" arbitrary: i)
  case 0
  then show ?case by (simp add: indexes_def)
next
  case (Suc k)
  then have i: "i < int (length msgs)" by auto
  then have "[i..int (length msgs) - 1] = i # [i + 1..int (length msgs) - 1]" by (simp add: upto_rec1)
  moreover have "drop (nat i) msgs = msgs ! nat i # drop (nat (i + 1)) msgs"
    using i Suc by (simp add: Cons_nth_drop_Suc nat_add_distrib)
  moreover have "length (filter P (drop (nat (i + 1)) msgs)) = length (indexes P msgs (i + 1) (int (length msgs)))"
    using Suc i by (intro Suc(1)) auto
  ultimately show ?case by (simp add: indexes_def)
qed

lemma indexes_split:
  "lo \<le> i \<Longrightarrow> i \<le> hi \<Longrightarrow> indexes P msgs lo hi = indexes P msgs lo i @ indexes P msgs i hi"
proof (cases "i = hi")
  case False
  assume "lo \<le> i" "i \<le> hi"
  with False have "[lo..hi - 1] = [lo..i - 1] @ [i..hi - 1]" by (intro upto_split1) auto
  then show ?thesis by (simp add: indexes_def)
qed (simp add: indexes_def)

lemma sorted_nth_split:
  assumes "sorted_wrt (<) (xs :: int list)" "j < length xs"
  shows "filter (\<lambda>x. xs ! j \<le> x) xs = drop j xs"
proof -
  have "xs = take j xs @ drop j xs" by simp
  have "x < xs ! j" if "x \<in> set (take j xs)" for x
    using that assms by (auto simp: in_set_conv_nth sorted_wrt_nth_less)
  then have "filter (\<lambda>x. xs ! j \<le> x) (take j xs) = []" by (force simp: filter_empty_conv)
  moreover have "xs ! j \<le> x" if mem: "x \<in> set (drop j xs)" for x
  proof -
    obtain k where "k < length (drop j xs)" "drop j xs ! k = x" using mem unfolding in_set_conv_nth by blast
    then have "x = xs ! (j + k)" "j + k < length xs" using assms(2) by auto
    then show ?thesis
      using assms sorted_wrt_nth_less [of "(<)" xs j "j + k"] by (cases "k = 0") auto
  qed
  then have "filter (\<lambda>x. xs ! j \<le> x) (drop j xs) = drop j xs" by (simp add: filter_id_conv)
  moreover have "filter (\<lambda>x. xs ! j \<le> x) xs =
      filter (\<lambda>x. xs ! j \<le> x) (take j xs) @ filter (\<lambda>x. xs ! j \<le> x) (drop j xs)"
    by (simp flip: filter_append)
  ultimately show ?thesis by simp
qed

lemma split_index_spec:
  assumes split: "CompactionSplitIndex msgs keep = Some i" and w: "LLMWindow msgs = (blocks, start)"
  shows "start < i \<and> i \<le> int (length msgs) \<and>
    length (filter isRealUser (drop (nat i) msgs)) = nat keep"
proof -
  note s = tail_start [OF w]
  define users where "users = indexes isRealUser msgs start (int (length msgs))"
  define opener where "opener = (if blocks \<noteq> [] \<and> start < int (length msgs) \<and>
    role (msgs ! nat start) = RoleAssistant then [start - 1] else [])"
  define k where "k = max 0 keep"
  have len: "\<not> int (length (opener @ users)) \<le> k"
    and i: "(if k = 0 then Some (int (length msgs)) else idx (opener @ users) (int (length (opener @ users)) - k)) = Some i"
    using split unfolding CompactionSplitIndex_def CompactionSplitIndexUpTo_def w
    by (auto simp: Let_def users_def opener_def k_def max_def split: if_splits)
  have start_lt: "start < int (length msgs)"
  proof -
    have "opener @ users \<noteq> []" using len k_def by auto
    then show ?thesis by (auto simp: opener_def users_def idx_indexes_mem dest!: hd_in_set split: if_splits)
  qed
  show ?thesis
  proof (cases "k = 0")
    case True
    with i start_lt show ?thesis by (auto simp: k_def)
  next
    case False
    define j where "j = length (opener @ users) - nat k"
    have k: "0 < k" "k = keep" using False by (auto simp: k_def)
    have j: "0 < j" "j < length (opener @ users)" "int j = int (length (opener @ users)) - k"
      using len k by (auto simp: j_def)
    then have "nat (int (length (opener @ users)) - k) = j" by linarith
    then have ij: "i = (opener @ users) ! j" using i k j by (simp add: idx_def)
    have "length opener \<le> 1" by (simp add: opener_def)
    then have jo: "length opener \<le> j" using j(1) by simp
    then have iu: "i = users ! (j - length opener)" and lt: "j - length opener < length users"
      using ij j(2) by (auto simp: nth_append)
    then have mem: "i \<in> set users" by simp
    then have range: "start \<le> i" "i < int (length msgs)" "isRealUser (msgs ! nat i)"
      by (auto simp: users_def idx_indexes_mem)
    have sorted: "sorted_wrt (<) users" by (simp add: users_def sorted_indexes)
    have "start \<noteq> i"
    proof
      assume eq: "start = i"
      then have "role (msgs ! nat start) = RoleUser" using range(3) by (simp add: isRealUser_def)
      then have "opener = []" by (simp add: opener_def)
      then have "users ! 0 < users ! j" using sorted j lt by (simp add: sorted_wrt_nth_less)
      moreover have "start \<le> users ! 0"
      proof -
        have "users ! 0 \<in> set users" using lt by (cases users) auto
        then show ?thesis by (simp add: users_def idx_indexes_mem)
      qed
      ultimately show False using iu eq \<open>opener = []\<close> by simp
    qed
    have "indexes isRealUser msgs i (int (length msgs)) = filter (\<lambda>x. i \<le> x) users"
    proof -
      have "filter (\<lambda>x. i \<le> x) (indexes isRealUser msgs start i) = []"
        by (auto simp: filter_empty_conv idx_indexes_mem)
      moreover have "filter (\<lambda>x. i \<le> x) (indexes isRealUser msgs i (int (length msgs))) =
          indexes isRealUser msgs i (int (length msgs))"
        by (auto simp: filter_id_conv idx_indexes_mem)
      ultimately show ?thesis using indexes_split [of start i "int (length msgs)"] range by (simp add: users_def)
    qed
    also have "\<dots> = drop (j - length opener) users" unfolding iu by (rule sorted_nth_split [OF sorted lt])
    finally have "length (filter isRealUser (drop (nat i) msgs)) = length users - (j - length opener)"
      using count_from [of i msgs isRealUser] range s by simp
    also have "\<dots> = nat keep" using j jo k by simp
    finally show ?thesis using range \<open>start \<noteq> i\<close> by auto
  qed
qed

text \<open>
  compacting at the chosen boundary.  There is always something to summarize and the kept
  tail holds exactly the requested number of the user's turns; after the block is inserted the
  model reads the earlier summaries exactly as before (so a cached prompt prefix stays valid),
  then the new block, then the kept tail verbatim.
\<close>

theorem compaction_keeps_prefix:
  assumes "CompactionSplitIndex msgs keep = Some i"
    and "block = NewCompactionBlockMessage now summary model continues"
  shows "fst (InsertCompactionSummary i block msgs) = take (nat i) msgs @ [block] @ drop (nat i) msgs \<and>
    MessagesForLLM (fst (InsertCompactionSummary i block msgs)) =
      Some (chain_rows msgs @ [block] @ drop (nat i) msgs) \<and>
    snd (LLMWindow msgs) < i \<and>
    length (filter isRealUser (drop (nat i) msgs)) = nat keep"
proof -
  obtain blocks start where w: "LLMWindow msgs = (blocks, start)" by force
  note s = tail_start [OF w] and i = split_index_spec [OF assms(1) w]
  have b: "CompactionSummary block" "CompactionBlock block"
    by (auto simp: assms(2) NewCompactionBlockMessage_def NewCompactionSummaryMessage_def Let_def)
  have none: "filter CompactionSummary (drop (nat i) msgs) = []"
    by (rule no_summary_tail [OF w]) (use i in simp)
  have ins: "fst (InsertCompactionSummary i block msgs) = take (nat i) msgs @ block # drop (nat i) msgs"
    using i s by (simp add: InsertCompactionSummary_def Let_def)
  have "chain_rows (take (nat i) msgs @ block # drop (nat i) msgs) = chain_rows msgs @ [block]"
    using none by (subst chain_rows_block [OF b]) (simp add: chain_rows_take)
  then show ?thesis
    unfolding ins MessagesForLLM_eq using i verbatim_tail_after [OF b(1) none] w by simp
qed

definition user_row :: "bytes \<Rightarrow> message" where
  "user_row t = \<lparr>role = RoleUser, Content = t, Reasoning = [], Truncated = False, ToolCalls = [],
     ToolCallID = [], PlanDocument = False, CompactionSummary = False, CompactionBlock = False,
     FollowUp = False, msg_Model = [], CreatedAt = [],
     ImageParts = [], Artifacts = [], ReasoningSignature = [], Rules = [], Ephemeral = False\<rparr>"

definition answer_row :: "bytes \<Rightarrow> message" where
  "answer_row t = (user_row t)\<lparr>role := RoleAssistant\<rparr>"

theorem compaction_keeps_prefix_witness:
  "let msgs = [user_row ''a'', answer_row ''b'', user_row ''c'', answer_row ''d''];
       block = NewCompactionBlockMessage ''now'' ''s'' ''m'' False in
   fst (InsertCompactionSummary 2 block msgs) = take (nat 2) msgs @ [block] @ drop (nat 2) msgs \<and>
   MessagesForLLM (fst (InsertCompactionSummary 2 block msgs)) =
     Some (chain_rows msgs @ [block] @ drop (nat 2) msgs) \<and>
   snd (LLMWindow msgs) < 2 \<and> length (filter isRealUser (drop (nat 2) msgs)) = nat 1"
proof -
  have "CompactionSplitIndex [user_row ''a'', answer_row ''b'', user_row ''c'', answer_row ''d''] 1 = Some 2"
    by code_simp
  from compaction_keeps_prefix [OF this refl] show ?thesis unfolding Let_def .
qed

section \<open>Summaries of a turn in progress\<close>

definition in_turn_separator :: bytes where
  "in_turn_separator = [CHR 0x0A, CHR 0x0A] @ inTurnSummaryPreamble"

lemma cut_first:
  "\<not> sublist sep (prompt @ butlast sep) \<Longrightarrow> sep \<noteq> [] \<Longrightarrow> cut sep (prompt @ sep @ rest) = Some (prompt, rest)"
proof (induction prompt)
  case Nil
  then obtain c s where "sep = c # s" by (cases sep) auto
  then show ?case by simp
next
  case (Cons c prompt)
  have "\<not> prefix sep (c # prompt @ sep @ rest)"
  proof
    assume "prefix sep (c # prompt @ sep @ rest)"
    then obtain r where "sep @ r = c # prompt @ sep @ rest" by (auto simp: prefix_def)
    define X where "X = c # prompt @ butlast sep"
    have "sep @ r = X @ [last sep] @ rest"
      using \<open>sep @ r = c # prompt @ sep @ rest\<close> append_butlast_last_id [OF Cons.prems(2)]
      unfolding X_def by (metis append.assoc append_Cons)
    then have "take (length sep) (sep @ r) = take (length sep) (X @ [last sep] @ rest)" by simp
    moreover have "length sep \<le> length X" using Cons.prems(2) by (cases sep rule: rev_cases) (auto simp: X_def)
    ultimately have "sep = take (length sep) X" by simp
    then have "prefix sep ((c # prompt) @ butlast sep)" by (metis X_def append_Cons take_is_prefix)
    with Cons.prems(1) show False by (simp add: prefix_imp_sublist)
  qed
  moreover have "\<not> sublist sep (prompt @ butlast sep)"
    using Cons.prems(1) by (metis append_Cons sublist_Cons_right)
  ultimately show ?case using Cons by simp
qed

text \<open>
  the row an in-turn compaction writes is read back exactly: the opening message verbatim and
  the summary (without white space at its ends), unless the message itself holds the separator or
  begins like one of the other two kinds of summary row; and those two kinds are never split.
\<close>

theorem in_turn_summary_roundtrip:
  assumes "\<not> sublist in_turn_separator (prompt @ butlast in_turn_separator)"
    and "\<not> prefix compactionSummaryPreamble (prompt @ in_turn_separator @ trim_space summary)"
    and "\<not> prefix compactionBlockPreamble (prompt @ in_turn_separator @ trim_space summary)"
  shows "SplitInTurnSummary (Content (NewInTurnCompactionSummaryMessage now prompt summary model)) =
      Some (prompt, trim_space summary) \<and>
    SplitInTurnSummary (Content (NewCompactionSummaryMessage now summary model)) = None \<and>
    SplitInTurnSummary (Content (NewCompactionBlockMessage now summary model continues)) = None"
proof -
  have "in_turn_separator \<noteq> []" by (simp add: in_turn_separator_def)
  from cut_first [OF assms(1) this, of "trim_space summary"]
  have "cut in_turn_separator (prompt @ in_turn_separator @ trim_space summary) = Some (prompt, trim_space summary)" .
  moreover have "Content (NewInTurnCompactionSummaryMessage now prompt summary model) =
      prompt @ in_turn_separator @ trim_space summary"
    by (simp add: NewInTurnCompactionSummaryMessage_def in_turn_separator_def)
  moreover have "prefix compactionSummaryPreamble (Content (NewCompactionSummaryMessage now summary model))"
    by (simp add: NewCompactionSummaryMessage_def)
  moreover have "prefix compactionSummaryPreamble (Content (NewCompactionBlockMessage now summary model continues)) \<or>
      prefix compactionBlockPreamble (Content (NewCompactionBlockMessage now summary model continues))"
    by (simp add: NewCompactionBlockMessage_def NewCompactionSummaryMessage_def Let_def)
  ultimately show ?thesis
    using assms(2,3)
    unfolding SplitInTurnSummary_def has_prefix_def in_turn_separator_def [symmetric] by auto
qed

theorem in_turn_summary_roundtrip_witness:
  "SplitInTurnSummary (Content (NewInTurnCompactionSummaryMessage ''t'' ''fix the bug'' ''done'' ''m'')) =
      Some (''fix the bug'', trim_space ''done'') \<and>
    SplitInTurnSummary (Content (NewCompactionSummaryMessage ''t'' ''done'' ''m'')) = None \<and>
    SplitInTurnSummary (Content (NewCompactionBlockMessage ''t'' ''done'' ''m'' True)) = None"
  by (rule in_turn_summary_roundtrip) code_simp+

text \<open>An opening message that begins like a plain summary row hides the row's own preamble.\<close>

lemma in_turn_summary_unread:
  "SplitInTurnSummary (Content (NewInTurnCompactionSummaryMessage now (compactionSummaryPreamble @ request) summary model)) = None"
  by (simp add: SplitInTurnSummary_def NewInTurnCompactionSummaryMessage_def has_prefix_def)

section \<open>Pages\<close>

text \<open>A position a page may start or end at.\<close>

definition step_boundary :: "message list \<Rightarrow> int \<Rightarrow> bool" where
  "step_boundary msgs i \<longleftrightarrow> i \<le> 0 \<or> int (length msgs) \<le> i \<or>
     \<not> (role (msgs ! nat i) = RoleTool \<or> continuesTruncated msgs (nat i))"

lemma step_start_spec: "step_start msgs i \<le> i \<and> step_boundary msgs (int (step_start msgs i))"
  by (induction i) (auto simp: step_boundary_def)

lemma step_start_fix: "step_boundary msgs (int i) \<Longrightarrow> step_start msgs i = i"
  unfolding step_boundary_def nat_int by (cases i) auto

lemma stepStart_spec: "0 \<le> i \<Longrightarrow> 0 \<le> stepStart msgs i \<and> stepStart msgs i \<le> i \<and> step_boundary msgs (stepStart msgs i)"
  using step_start_spec [of msgs "nat i"] by (auto simp: stepStart_def step_boundary_def)

lemma stepStart_fix: "0 \<le> i \<Longrightarrow> step_boundary msgs i \<Longrightarrow> stepStart msgs i = i"
  by (simp add: stepStart_def step_start_fix)

lemma turn_opening_spec:
  "i < int (length msgs) \<Longrightarrow>
   case turn_opening msgs low i of
     None \<Rightarrow> False | Some None \<Rightarrow> True
   | Some (Some j) \<Rightarrow> 0 \<le> j \<and> j \<le> i \<and> opensTurn (msgs ! nat j)"
proof (induction msgs low i rule: turn_opening.induct)
  case (1 msgs low i)
  show ?case
  proof (cases "i \<ge> 0 \<and> i \<ge> low")
    case True
    with 1(2) have m: "idx msgs i = Some (msgs ! nat i)" by simp
    show ?thesis
    proof (cases "opensTurn (msgs ! nat i)")
      case opens: True
      with True m show ?thesis by (subst turn_opening.simps) simp
    next
      case False
      then have "turn_opening msgs low i = turn_opening msgs low (i - 1)"
        using True m by (subst turn_opening.simps) simp
      with 1(1) [OF True m False] 1(2) show ?thesis by (auto split: option.splits)
    qed
  next
    case False
    then show ?thesis by (subst turn_opening.simps) auto
  qed
qed

lemma pageStart_spec:
  assumes "0 \<le> stop" "stop \<le> int (length msgs)" "0 < limit"
  shows "\<exists>s. pageStart msgs stop limit = Some s \<and> 0 \<le> s \<and> s \<le> max 0 (stop - limit) \<and> step_boundary msgs s"
proof (cases "stop - limit \<le> 0")
  case True
  then show ?thesis by (simp add: pageStart_def step_boundary_def)
next
  case False
  then have "stop - limit < int (length msgs)" using assms by simp
  from turn_opening_spec [OF this, of "stop - limit - limit div 2"] False show ?thesis
    using stepStart_spec [of "stop - limit" msgs]
    by (fastforce simp: pageStart_def Let_def step_boundary_def opensTurn_def continuesTruncated_def
        split: option.splits)
qed

lemma page_start_end:
  assumes "PageMessages msgs q = Some p"
  shows "End p = (if Before q \<ge> 0 \<and> Before q < int (length msgs) then stepStart msgs (Before q) else int (length msgs))"
  using assms by (auto simp: PageMessages_def Let_def split: option.splits if_splits)

lemma page_end_ok:
  "0 \<le> (if b \<ge> 0 \<and> b < int (length msgs) then stepStart msgs b else int (length msgs)) \<and>
   (if b \<ge> 0 \<and> b < int (length msgs) then stepStart msgs b else int (length msgs)) \<le> int (length msgs) \<and>
   step_boundary msgs (if b \<ge> 0 \<and> b < int (length msgs) then stepStart msgs b else int (length msgs))"
  using stepStart_spec [of b msgs] by (auto simp: step_boundary_def)

lemma PageMessages_total:
  "\<exists>p. PageMessages msgs q = Some p \<and> 0 \<le> Offset p \<and> Offset p \<le> End p \<and> End p \<le> Total p \<and>
     Total p = int (length msgs) \<and> step_boundary msgs (Offset p) \<and> step_boundary msgs (End p) \<and>
     (From q < 0 \<longrightarrow> (if Limit q > 0 then min (Limit q) (End p) \<le> End p - Offset p else Offset p = 0))"
proof -
  define stop where "stop = (if Before q \<ge> 0 \<and> Before q < int (length msgs) then stepStart msgs (Before q) else int (length msgs))"
  have stop: "0 \<le> stop" "stop \<le> int (length msgs)" "step_boundary msgs stop"
    using page_end_ok [of "Before q" msgs] by (simp_all add: stop_def)
  obtain s where s: "(if From q \<ge> 0 then Some (stepStart msgs (min (From q) stop))
      else if Limit q > 0 then pageStart msgs stop (Limit q) else Some 0) = Some s"
    "0 \<le> s" "s \<le> stop" "step_boundary msgs s"
    "From q < 0 \<longrightarrow> (if Limit q > 0 then min (Limit q) stop \<le> stop - s else s = 0)"
  proof (cases "From q \<ge> 0")
    case True
    then show ?thesis
      using stop stepStart_spec [of "min (From q) stop" msgs]
      by (intro that [of "stepStart msgs (min (From q) stop)"]) auto
  next
    case False
    show ?thesis
    proof (cases "Limit q > 0")
      case True
      from pageStart_spec [OF stop(1,2) True] obtain s where
        "pageStart msgs stop (Limit q) = Some s" "0 \<le> s" "s \<le> max 0 (stop - Limit q)" "step_boundary msgs s"
        by blast
      with False True stop(1) show ?thesis by (intro that [of s]) auto
    next
      case limit: False
      with False stop(1) show ?thesis by (intro that [of 0]) (auto simp: step_boundary_def)
    qed
  qed
  define before where "before = take (nat s) msgs"
  have "PageMessages msgs q = Some \<lparr>Offset = s, End = stop, Total = int (length msgs),
      TurnsBefore = int (length (filter (\<lambda>m. role m = RoleUser \<and> \<not> CompactionSummary m) before)),
      UserRowsBefore = int (length (filter (\<lambda>m. role m = RoleUser) before))\<rparr>"
    unfolding PageMessages_def Let_def stop_def [symmetric] s(1) before_def using s(2,3) stop(2) by simp
  with s stop show ?thesis by simp
qed

text \<open>
  Every page is a window of the history between two step boundaries (it never splits a tool
  call from its results or an answer the output limit cut), it never indexes outside the history,
  and a page asked for by size holds at least that many messages while there are as many before
  its end.
\<close>

theorem PageMessages_window:
  "case PageMessages msgs q of
     None \<Rightarrow> False
   | Some p \<Rightarrow>
       0 \<le> Offset p \<and> Offset p \<le> End p \<and> End p \<le> Total p \<and> Total p = int (length msgs) \<and>
       step_boundary msgs (Offset p) \<and> step_boundary msgs (End p) \<and>
       (if From q \<ge> 0 then True
        else if Limit q > 0 then min (Limit q) (End p) \<le> End p - Offset p else Offset p = 0)"
  using PageMessages_total [of msgs q] by auto

text \<open>The rows before a position that the user log numbers entries by.\<close>

definition served :: "message list \<Rightarrow> int \<Rightarrow> int \<Rightarrow> ui_entry \<Rightarrow> bool" where
  "served msgs a b e \<longleftrightarrow>
     (let userRows = indexes (\<lambda>m. role m = RoleUser) msgs 0 (int (length msgs));
          t = max (UserTurnIndex e) 1 in
      if t \<ge> int (length userRows) then b = int (length msgs)
      else a \<le> userRows ! nat t \<and> userRows ! nat t < b)"

lemma UILog_served: "Total p = int (length msgs) \<Longrightarrow> UILog p msgs log = filter (served msgs (Offset p) (End p)) log"
  by (auto simp: UILog_def served_def Let_def intro: filter_cong)

lemma served_split:
  "a \<le> b \<Longrightarrow> b < c \<Longrightarrow> c \<le> int (length msgs) \<Longrightarrow>
     served msgs a c e \<longleftrightarrow> served msgs a b e \<or> served msgs b c e"
  by (auto simp: served_def Let_def)

lemma served_disjoint: "b < c \<Longrightarrow> c \<le> int (length msgs) \<Longrightarrow> \<not> (served msgs a b e \<and> served msgs b c e)"
  by (auto simp: served_def Let_def)

lemma mset_filter_split:
  assumes "\<And>x. P x \<longleftrightarrow> Q x \<or> R x" "\<And>x. \<not> (Q x \<and> R x)"
  shows "mset (filter P xs) = mset (filter Q xs) + mset (filter R xs)"
proof (induction xs)
  case (Cons x xs)
  then show ?case using assms(1) [of x] assms(2) [of x] by (cases "Q x"; cases "R x") simp_all
qed simp

text \<open>
  reading a history backwards page by page loses and repeats nothing.  The page asked for
  with "before" at a page's start ends exactly there, and the log entries of the two pages
  together are, each once, those of the window they cover (for a page that is not empty).
\<close>

theorem pages_join:
  assumes "PageMessages msgs q = Some p" and "Offset p < End p"
    and "PageMessages msgs q' = Some p'" and "Before q' = Offset p" and "From q' < 0"
  shows "End p' = Offset p \<and>
    mset (UILog p' msgs log) + mset (UILog p msgs log) =
    mset (UILog \<lparr>Offset = Offset p', End = End p, Total = int (length msgs), TurnsBefore = 0, UserRowsBefore = 0\<rparr> msgs log)"
proof -
  have p: "0 \<le> Offset p" "End p \<le> Total p" "Total p = int (length msgs)" "step_boundary msgs (Offset p)"
    using PageMessages_total [of msgs q] assms(1) by auto
  have p': "Offset p' \<le> End p'" "Total p' = int (length msgs)"
    using PageMessages_total [of msgs q'] assms(3) by auto
  have stop: "End p' = Offset p"
    using page_start_end [OF assms(3)] p assms(2,4) stepStart_fix [OF p(1,4)] by auto
  have "mset (filter (served msgs (Offset p') (End p)) log) =
      mset (filter (served msgs (Offset p') (Offset p)) log) + mset (filter (served msgs (Offset p) (End p)) log)"
    by (rule mset_filter_split) (use served_split served_disjoint p p' stop assms(2) in auto)
  then show ?thesis using p(3) p'(2) stop by (simp add: UILog_served)
qed

definition example_history :: "message list" where
  "example_history = [user_row ''a'', answer_row ''b'', user_row ''c'', answer_row ''d'']"

theorem pages_join_witness:
  "let p = \<lparr>Offset = 2, End = 4, Total = 4, TurnsBefore = 1, UserRowsBefore = 1\<rparr>;
       p' = \<lparr>Offset = 0, End = 2, Total = 4, TurnsBefore = 0, UserRowsBefore = 0\<rparr>;
       log = [\<lparr>ui_ID = ''1'', UserTurnIndex = 1, ui_Message = ''x''\<rparr>] in
   End p' = Offset p \<and>
   mset (UILog p' example_history log) + mset (UILog p example_history log) =
   mset (UILog \<lparr>Offset = Offset p', End = End p, Total = int (length example_history),
     TurnsBefore = 0, UserRowsBefore = 0\<rparr> example_history log)"
proof -
  have "PageMessages example_history \<lparr>From = -1, Before = -1, Limit = 2\<rparr> =
      Some \<lparr>Offset = 2, End = 4, Total = 4, TurnsBefore = 1, UserRowsBefore = 1\<rparr>"
    "PageMessages example_history \<lparr>From = -1, Before = 2, Limit = 2\<rparr> =
      Some \<lparr>Offset = 0, End = 2, Total = 4, TurnsBefore = 0, UserRowsBefore = 0\<rparr>"
    by code_simp+
  from pages_join [OF this(1) _ this(2)] show ?thesis by (simp add: Let_def)
qed

section \<open>Rewinding\<close>

lemma nth_user_Cons:
  "nth_user (m # msgs) i seen n =
     (if isRealUser m then (if seen = n then i else nth_user msgs (i + 1) (seen + 1) n)
      else nth_user msgs (i + 1) seen n)"
  by (simp add: isRealUser_def)

declare nth_user.simps(2) [simp del]

lemma nth_user_spec:
  "seen \<le> n \<Longrightarrow>
   (if int (length (filter isRealUser msgs)) \<le> n - seen then nth_user msgs i seen n = - 1
    else \<exists>j < length msgs. nth_user msgs i seen n = i + int j \<and> isRealUser (msgs ! j) \<and>
           int (length (filter isRealUser (take j msgs))) = n - seen)"
proof (induction msgs i seen n rule: nth_user.induct)
  case (2 m msgs i seen n)
  note IH = 2(1-2) [folded isRealUser_def]
  show ?case
  proof (cases "isRealUser m")
    case real: True
    show ?thesis
    proof (cases "seen = n")
      case True
      with real show ?thesis by (auto simp: nth_user_Cons intro!: exI [of _ 0])
    next
      case False
      with 2(3) have "seen + 1 \<le> n" by simp
      from IH(1) [OF real False this] real False show ?thesis
        by (auto simp: nth_user_Cons Ex_less_Suc2 split: if_splits)
    qed
  next
    case False
    from IH(2) [OF False 2(3)] False show ?thesis
      by (auto simp: nth_user_Cons Ex_less_Suc2 split: if_splits)
  qed
qed simp

lemma nthUserMessageIndex_spec:
  assumes "0 \<le> n"
  shows "if int (length (filter isRealUser msgs)) \<le> n then nthUserMessageIndex msgs n = - 1
    else \<exists>j < length msgs. nthUserMessageIndex msgs n = int j \<and> isRealUser (msgs ! j) \<and>
           int (length (filter isRealUser (take j msgs))) = n"
  using nth_user_spec [of 0 n msgs 0] assms by (auto simp: nthUserMessageIndex_def split: if_splits)

text \<open>
  a rewind to the user's message number n keeps exactly the n turns before it: it is refused
  when there is no such message or a turn is running, and otherwise the kept history has n real
  user messages, the cut part starts with the edited one, nothing is lost between them, and the
  log rows are divided the same way.  The history counts as edited.
\<close>

theorem rewind_cuts_turn:
  "0 \<le> n \<Longrightarrow>
   case TruncateMessagesBeforeUserN n active s of
     Inl ErrRewindOutOfRange \<Rightarrow> int (length (filter isRealUser (Messages s))) \<le> n
   | Inl ErrSessionTurnActive \<Rightarrow> active
   | Inl ErrRewindUndoUnavailable \<Rightarrow> False
   | Inr ((cutMsgs, cutLog), s') \<Rightarrow>
       \<not> active \<and> Messages s' @ cutMsgs = Messages s \<and> cutMsgs \<noteq> [] \<and> isRealUser (hd cutMsgs) \<and>
       int (length (filter isRealUser (Messages s'))) = n \<and>
       mset (ui_log s') + mset cutLog = mset (ui_log s) \<and>
       msgEditRev s' = msgEditRev s + 1 \<and> msgRev s' = msgRev s + 1"
proof -
  assume n: "0 \<le> n"
  note spec = nthUserMessageIndex_spec [OF n, of "Messages s"]
  show ?thesis
  proof (cases "int (length (filter isRealUser (Messages s))) \<le> n")
    case True
    with spec show ?thesis by (simp add: TruncateMessagesBeforeUserN_def)
  next
    case False
    with spec obtain j where j: "j < length (Messages s)" "nthUserMessageIndex (Messages s) n = int j"
      "isRealUser (Messages s ! j)" "int (length (filter isRealUser (take j (Messages s)))) = n" by auto
    then have "hd (drop j (Messages s)) = Messages s ! j" "drop j (Messages s) \<noteq> []"
      by (simp_all add: hd_drop_conv_nth)
    with j show ?thesis
      by (auto simp: TruncateMessagesBeforeUserN_def Let_def markMessagesEdited_def multiset_partition [symmetric])
  qed
qed

theorem rewind_cuts_turn_witness:
  "case TruncateMessagesBeforeUserN 1 False \<lparr>Messages = example_history, ui_log = [], msgRev = 4, msgEditRev = 0\<rparr> of
     Inl ErrRewindOutOfRange \<Rightarrow> int (length (filter isRealUser example_history)) \<le> 1
   | Inl ErrSessionTurnActive \<Rightarrow> False
   | Inl ErrRewindUndoUnavailable \<Rightarrow> False
   | Inr ((cutMsgs, cutLog), s') \<Rightarrow>
       Messages s' @ cutMsgs = example_history \<and> isRealUser (hd cutMsgs) \<and>
       int (length (filter isRealUser (Messages s'))) = 1"
  using rewind_cuts_turn [where n = 1 and active = False and
      s = "\<lparr>Messages = example_history, ui_log = [], msgRev = 4, msgEditRev = 0\<rparr>"]
  by (auto split: sum.splits rewind_error.splits)

lemma at_most_one_user_iff:
  "at_most_one_user k msgs \<longleftrightarrow> k + CountUserTurns msgs \<le> 1 \<or> CountUserTurns msgs = 0"
  by (induction k msgs rule: at_most_one_user.induct) (auto simp: CountUserTurns_def)

lemma sorted_partition:
  "sorted (map f xs) \<Longrightarrow> filter (\<lambda>x. f x \<le> b) xs @ filter (\<lambda>x. \<not> f x \<le> b) xs = xs"
proof (induction xs)
  case (Cons x xs)
  show ?case
  proof (cases "f x \<le> b")
    case False
    with Cons.prems have "filter (\<lambda>x. f x \<le> b) xs = []" by (force simp: filter_empty_conv)
    with Cons False show ?thesis by simp
  qed (use Cons in simp)
qed simp



end
