(* ===== verification/ToolPairing.thy ===== *)
theory ToolPairing
  imports Transcript
begin

text \<open>
  The pairing of tool calls and tool results in a history
  (\<^verbatim>\<open>internal/session/tool_pairing.go\<close>): the analysis of it, the issues it reports and the
  repair of missing results. A Go map is a function to an option (or to a Boolean where the
  map holds \<open>true\<close> only); indexes are the natural numbers the two scans produce.
\<close>

section \<open>Issues and batches\<close>

datatype ToolPairingIssueKind =
    toolPairingMissingResult
  | toolPairingOrphanResult
  | toolPairingDuplicateResult
  | toolPairingEmptyCallID
  | toolPairingDuplicateCallID
  | toolPairingMisplacedResult

definition interruptedToolCallResult :: bytes where
  "interruptedToolCallResult =
     ''no result was recorded: the call may or may not have run; check the current state before running it again''"

record ToolPairingIssue =
  Kind :: ToolPairingIssueKind
  issue_CallID :: bytes
  MessageIndex :: nat

abbreviation issue_at :: "ToolPairingIssueKind \<Rightarrow> bytes \<Rightarrow> nat \<Rightarrow> ToolPairingIssue" where
  "issue_at k c i \<equiv> \<lparr> Kind = k, issue_CallID = c, MessageIndex = i \<rparr>"

record toolCallOccurrence =
  occ_id :: bytes
  occ_batch :: nat

record toolBatch =
  assistant :: nat
  batch_end :: nat
  calls :: "toolCallOccurrence list"
  results :: "bytes \<Rightarrow> nat option"

record toolPairingAnalysis =
  batches :: "toolBatch list"
  all_calls :: "bytes \<Rightarrow> toolCallOccurrence list"
  resultBatch :: "nat \<Rightarrow> nat option"
  issues :: "ToolPairingIssue list"
  validResults :: "nat \<Rightarrow> bytes \<Rightarrow> bool"
  strayResults :: "bytes \<Rightarrow> bool"

definition empty_analysis :: toolPairingAnalysis where
  "empty_analysis =
     \<lparr> batches = [], all_calls = (\<lambda>_. []), resultBatch = (\<lambda>_. None), issues = [],
       validResults = (\<lambda>_ _. False), strayResults = (\<lambda>_. False) \<rparr>"

section \<open>The scan of the batches\<close>

definition opens_batch :: "message \<Rightarrow> bool" where
  "opens_batch m \<longleftrightarrow> role m = RoleAssistant \<and> ToolCalls m \<noteq> []"

text \<open>The calls of the assistant message at \<open>i\<close>, the batch \<open>b\<close>; \<open>seen\<close> holds the ids so far.\<close>

fun scan_calls :: "nat \<Rightarrow> nat \<Rightarrow> bytes list \<Rightarrow> ToolCall list \<Rightarrow> ToolPairingIssue list \<times> toolCallOccurrence list" where
  "scan_calls i b seen [] = ([], [])"
| "scan_calls i b seen (c # cs) =
     (if trim_space (call_ID c) = [] then
        (case scan_calls i b seen cs of
           (iss, occs) \<Rightarrow> (issue_at toolPairingEmptyCallID [] i # iss, occs))
      else
        (case scan_calls i b (call_ID c # seen) cs of
           (iss, occs) \<Rightarrow>
             ((if List.member seen (call_ID c)
               then [issue_at toolPairingDuplicateCallID (call_ID c) i] else []) @ iss,
              \<lparr> occ_id = call_ID c, occ_batch = b \<rparr> # occs)))"

text \<open>The tool rows that follow, from the index \<open>j\<close>: their issues, the first index of every id, the end.\<close>

fun scan_results :: "nat \<Rightarrow> (bytes \<Rightarrow> nat option) \<Rightarrow> message list \<Rightarrow>
    ToolPairingIssue list \<times> (bytes \<Rightarrow> nat option) \<times> nat" where
  "scan_results j res [] = ([], res, j)"
| "scan_results j res (m # ms) =
     (if role m \<noteq> RoleTool then ([], res, j)
      else if res (ToolCallID m) \<noteq> None then
        (case scan_results (Suc j) res ms of
           (iss, res', e) \<Rightarrow> (issue_at toolPairingDuplicateResult (ToolCallID m) j # iss, res', e))
      else scan_results (Suc j) (res(ToolCallID m \<mapsto> j)) ms)"

lemma scan_results_end: "snd (snd (scan_results j res ms)) = j + length (takeWhile (\<lambda>m. role m = RoleTool) ms)"
  by (induction j res ms rule: scan_results.induct) (simp_all add: case_prod_beta del: fun_upd_apply)

definition add_occurrence ::
    "toolCallOccurrence \<Rightarrow> (bytes \<Rightarrow> toolCallOccurrence list) \<Rightarrow> bytes \<Rightarrow> toolCallOccurrence list" where
  "add_occurrence oc m = m(occ_id oc := m (occ_id oc) @ [oc])"

text \<open>\<open>scan_batches i ms\<close> reads the rows \<open>ms\<close> of the history, the first of them at the index \<open>i\<close>.\<close>

function scan_batches :: "nat \<Rightarrow> message list \<Rightarrow> toolPairingAnalysis \<Rightarrow> toolPairingAnalysis" where
  "scan_batches i [] a = a"
| "scan_batches i (m # ms) a =
     (if \<not> opens_batch m then scan_batches (Suc i) ms a
      else
        let batchIndex = length (batches a);
            (call_issues, occs) = scan_calls i batchIndex [] (ToolCalls m);
            (result_issues, res, e) = scan_results (Suc i) Map.empty ms
        in scan_batches e (drop (e - Suc i) ms)
             (a\<lparr> batches := batches a @ [\<lparr> assistant = i, batch_end = e, calls = occs, results = res \<rparr>],
                 all_calls := fold add_occurrence occs (all_calls a),
                 resultBatch := (\<lambda>j. if Suc i \<le> j \<and> j < e then Some batchIndex else resultBatch a j),
                 issues := issues a @ call_issues @ result_issues \<rparr>))"
  by pat_completeness auto
termination
  by (relation "measure (\<lambda>(i, ms, a). length ms)") auto

section \<open>The classification of the results\<close>

definition stray :: "toolPairingAnalysis \<Rightarrow> nat \<Rightarrow> bytes \<Rightarrow> toolPairingAnalysis" where
  "stray a index c =
     a\<lparr> strayResults := (strayResults a)(c := True),
        issues := issues a @
          [issue_at (if all_calls a c \<noteq> [] then toolPairingMisplacedResult else toolPairingOrphanResult) c index] \<rparr>"

text \<open>
  One row of the second loop. The inner map of \<^verbatim>\<open>validResults\<close> was made for every batch with a
  result, so the write of it always has a map to write to.
\<close>

definition classify :: "nat \<times> message \<Rightarrow> toolPairingAnalysis \<Rightarrow> toolPairingAnalysis" where
  "classify row a =
     (case row of (index, msg) \<Rightarrow>
        if role msg \<noteq> RoleTool then a
        else
          case resultBatch a index of
            None \<Rightarrow> stray a index (ToolCallID msg)
          | Some b \<Rightarrow>
              if results (batches a ! b) (ToolCallID msg) \<noteq> Some index then a
              else if list_ex (\<lambda>c. occ_id c = ToolCallID msg) (calls (batches a ! b))
                then a\<lparr> validResults := (validResults a)(b := (validResults a b)(ToolCallID msg := True)) \<rparr>
              else stray a index (ToolCallID msg))"

definition batchHasDuplicateCall :: "toolBatch \<Rightarrow> bytes \<Rightarrow> bool" where
  "batchHasDuplicateCall batch c \<longleftrightarrow> 2 \<le> length (filter (\<lambda>oc. occ_id oc = c) (calls batch))"

definition missing_issues :: "toolPairingAnalysis \<Rightarrow> nat \<times> toolBatch \<Rightarrow> ToolPairingIssue list" where
  "missing_issues a row =
     (case row of (b, batch) \<Rightarrow>
        map (\<lambda>oc. issue_at toolPairingMissingResult (occ_id oc) (assistant batch))
          (filter (\<lambda>oc. \<not> batchHasDuplicateCall batch (occ_id oc) \<and> \<not> validResults a b (occ_id oc))
            (calls batch)))"

definition analyzeToolPairing :: "message list \<Rightarrow> toolPairingAnalysis" where
  "analyzeToolPairing msgs =
     (let a = fold classify (enumerate 0 msgs) (scan_batches 0 msgs empty_analysis) in
      a\<lparr> issues := sort_key MessageIndex
            (issues a @ concat (map (missing_issues a) (enumerate 0 (batches a)))) \<rparr>)"

definition ValidateToolPairing :: "message list \<Rightarrow> ToolPairingIssue list" where
  "ValidateToolPairing msgs = issues (analyzeToolPairing msgs)"

section \<open>The repair\<close>

text \<open>\<^verbatim>\<open>missing[batchIndex]\<close>, the ids to add a result for.\<close>

definition missing_calls :: "toolPairingAnalysis \<Rightarrow> nat \<Rightarrow> toolBatch \<Rightarrow> bytes list" where
  "missing_calls a b batch =
     (if list_ex (\<lambda>oc. batchHasDuplicateCall batch (occ_id oc)) (calls batch) then []
      else map occ_id
        (filter (\<lambda>oc. \<not> validResults a b (occ_id oc) \<and> \<not> strayResults a (occ_id oc)) (calls batch)))"

definition synthetic_result :: "bytes \<Rightarrow> message" where
  "synthetic_result c =
     \<lparr> role = RoleTool, Content = interruptedToolCallResult, Reasoning = [], Truncated = False,
       ToolCalls = [], ToolCallID = c, PlanDocument = False, CompactionSummary = False,
       CompactionBlock = False, FollowUp = False, msg_Model = [], CreatedAt = [],
       ImageParts = [], Artifacts = [], ReasoningSignature = [], Rules = [], Ephemeral = False \<rparr>"

text \<open>The copy of the history from the index \<open>i\<close>, \<open>ms\<close> its rest, with the batches still to come.\<close>

function rebuild :: "nat \<Rightarrow> message list \<Rightarrow> (toolBatch \<times> bytes list) list \<Rightarrow> message list" where
  "rebuild i [] bs = []"
| "rebuild i (m # ms) bs =
     (case bs of
        (batch, ids) # rest \<Rightarrow>
          if assistant batch = i
          then m # take (batch_end batch - Suc i) ms @ map synthetic_result ids
               @ rebuild (max (batch_end batch) (Suc i)) (drop (batch_end batch - Suc i) ms) rest
          else m # rebuild (Suc i) ms bs
      | [] \<Rightarrow> m # rebuild (Suc i) ms bs)"
  by pat_completeness auto
termination
  by (relation "measure (\<lambda>(i, ms, bs). length ms)") auto

definition RepairMissingToolResults :: "message list \<Rightarrow> message list \<times> ToolPairingIssue list" where
  "RepairMissingToolResults msgs =
     (let a = analyzeToolPairing msgs;
          missing = map (\<lambda>(b, batch). missing_calls a b batch) (enumerate 0 (batches a))
      in if list_all (\<lambda>m. m = []) missing then (msgs, issues a)
         else (rebuild 0 msgs (zip (batches a) missing), issues a))"

end
