(* ===== verification/ToolPairing_Correct.thy ===== *)
theory ToolPairing_Correct
  imports ToolPairing
begin

text \<open>
  The tool-call pairing of a history: a structural definition of a well paired history, that
  \<open>ValidateToolPairing\<close> reports nothing on exactly those, and that the repair keeps every row,
  adds one result per unanswered call and is complete when nothing else is wrong.
\<close>

section \<open>The segments of a history\<close>

abbreviation tool_row :: "message \<Rightarrow> bool" where
  "tool_row m \<equiv> role m = RoleTool"

text \<open>A history is a list of rows outside every batch and of batches with their results.\<close>

datatype segment = Plain message | Batch message "message list"

fun segments :: "message list \<Rightarrow> segment list" where
  "segments [] = []"
| "segments (m # ms) =
     (if opens_batch m then Batch m (takeWhile tool_row ms) # segments (drop (length (takeWhile tool_row ms)) ms)
      else Plain m # segments ms)"

primrec rows :: "segment \<Rightarrow> message list" where
  "rows (Plain m) = [m]"
| "rows (Batch m rs) = m # rs"

definition flat :: "segment list \<Rightarrow> message list" where
  "flat ss = concat (map rows ss)"

lemma flat_simps [simp]:
  "flat [] = []" "flat (s # ss) = rows s @ flat ss"
  by (simp_all add: flat_def)

lemma flat_segments [simp]: "flat (segments ms) = ms"
  by (induction ms rule: segments.induct) (simp_all add: takeWhile_eq_take [symmetric] dropWhile_eq_drop [symmetric])

text \<open>The ids a batch can be answered by: the calls whose id is not blank.\<close>

definition call_ids :: "message \<Rightarrow> bytes list" where
  "call_ids m = filter (\<lambda>c. trim_space c \<noteq> []) (map call_ID (ToolCalls m))"

definition result_ids :: "message list \<Rightarrow> bytes list" where
  "result_ids rs = map ToolCallID rs"

text \<open>The ids of the results that answer no call of their batch.\<close>

primrec stray_ids :: "segment \<Rightarrow> bytes set" where
  "stray_ids (Plain m) = (if tool_row m then {ToolCallID m} else {})"
| "stray_ids (Batch m rs) = set (result_ids rs) - set (call_ids m)"

fun well_formed :: "segment list \<Rightarrow> bool" where
  "well_formed [] = True"
| "well_formed (Plain m # ss) \<longleftrightarrow> \<not> opens_batch m \<and> well_formed ss"
| "well_formed (Batch m rs # ss) \<longleftrightarrow>
     opens_batch m \<and> list_all tool_row rs \<and>
     (case ss of Plain m' # _ \<Rightarrow> \<not> tool_row m' | _ \<Rightarrow> True) \<and> well_formed ss"

lemma takeWhile_flat:
  "well_formed ss \<Longrightarrow> (case ss of Plain m' # _ \<Rightarrow> \<not> tool_row m' | _ \<Rightarrow> True) \<Longrightarrow>
   takeWhile tool_row (flat ss) = []"
  by (cases ss) (auto simp: opens_batch_def split: segment.splits)

lemma segments_flat: "well_formed ss \<Longrightarrow> segments (flat ss) = ss"
proof (induction ss rule: well_formed.induct)
  case (3 m rs ss)
  have tw: "takeWhile tool_row (rs @ flat ss) = rs"
    using "3.prems" takeWhile_flat [of ss] by (simp add: takeWhile_append list_all_iff)
  show ?case using 3 by (simp add: tw)
qed simp_all

lemma opens_batch_not_tool: "opens_batch m \<Longrightarrow> \<not> tool_row m"
  by (simp add: opens_batch_def)

lemma well_formed_segments [simp]: "well_formed (segments ms)"
proof (induction ms rule: segments.induct)
  case (2 m ms)
  show ?case
  proof (cases "opens_batch m")
    case True
    have "case segments (dropWhile tool_row ms) of Plain m' # _ \<Rightarrow> \<not> tool_row m' | _ \<Rightarrow> True"
      using hd_dropWhile [of tool_row ms] by (cases "dropWhile tool_row ms") (auto simp del: dropWhile_eq_Nil_conv)
    then show ?thesis
      using True 2(1) by (simp add: dropWhile_eq_drop list_all_iff) (metis set_takeWhileD)
  qed (use 2(2) in simp)
qed simp

text \<open>A well paired history, read from the front.\<close>

fun well_paired :: "message list \<Rightarrow> bool" where
  "well_paired [] = True"
| "well_paired (m # ms) =
     (if tool_row m then False
      else if opens_batch m then
        (let ids = map call_ID (ToolCalls m); n = length (takeWhile tool_row ms) in
         list_all (\<lambda>c. trim_space c \<noteq> []) ids \<and> distinct ids \<and>
         distinct (map ToolCallID (take n ms)) \<and> set (map ToolCallID (take n ms)) = set ids \<and>
         well_paired (drop n ms))
      else well_paired ms)"

primrec segment_paired :: "segment \<Rightarrow> bool" where
  "segment_paired (Plain m) \<longleftrightarrow> \<not> tool_row m"
| "segment_paired (Batch m rs) \<longleftrightarrow>
     call_ids m = map call_ID (ToolCalls m) \<and> distinct (call_ids m) \<and>
     distinct (result_ids rs) \<and> set (result_ids rs) = set (call_ids m)"

lemma well_paired_segments: "well_paired ms \<longleftrightarrow> list_all segment_paired (segments ms)"
proof (induction ms rule: segments.induct)
  case (2 m ms)
  have ids: "call_ids m = map call_ID (ToolCalls m) \<longleftrightarrow>
      list_all (\<lambda>c. trim_space c \<noteq> []) (map call_ID (ToolCalls m))"
    unfolding call_ids_def by (simp add: filter_id_conv list_all_iff)
  show ?case
    using 2 ids
    by (cases "opens_batch m"; cases "call_ids m = map call_ID (ToolCalls m)")
       (simp_all add: Let_def result_ids_def opens_batch_not_tool takeWhile_eq_take [symmetric] conj_ac)
qed simp

section \<open>What the scan records\<close>

lemma scan_calls_ids: "map occ_id (snd (scan_calls i b seen cs)) = filter (\<lambda>c. trim_space c \<noteq> []) (map call_ID cs)"
  by (induction cs arbitrary: seen) (simp_all add: case_prod_beta)

lemma scan_calls_quiet: "fst (scan_calls i b seen cs) = [] \<longleftrightarrow>
    list_all (\<lambda>c. trim_space (call_ID c) \<noteq> []) cs \<and>
    distinct (map call_ID cs) \<and> set seen \<inter> set (map call_ID cs) = {}"
  by (induction cs arbitrary: seen) (auto simp: case_prod_beta)

lemma call_ids_id: "call_ids m = map call_ID (ToolCalls m) \<longleftrightarrow> list_all (\<lambda>c. trim_space (call_ID c) \<noteq> []) (ToolCalls m)"
  by (simp add: call_ids_def filter_id_conv list_all_iff)

lemma scan_results_rows: "scan_results j res (takeWhile tool_row ms) = scan_results j res ms"
  by (induction j res ms rule: scan_results.induct) (simp_all add: case_prod_beta del: fun_upd_apply)

lemma scan_results_quiet: "list_all tool_row rs \<Longrightarrow>
    fst (scan_results j res rs) = [] \<longleftrightarrow>
    distinct (map ToolCallID rs) \<and> (\<forall>r \<in> set rs. res (ToolCallID r) = None)"
proof (induction j res rs rule: scan_results.induct)
  case (2 j res m ms)
  have "(\<forall>r \<in> set ms. (res(ToolCallID m \<mapsto> j)) (ToolCallID r) = None) \<longleftrightarrow>
      ToolCallID m \<notin> ToolCallID ` set ms \<and> (\<forall>r \<in> set ms. res (ToolCallID r) = None)"
    by (auto split: if_splits) (metis imageI)
  then show ?case using 2 by (auto simp add: case_prod_beta simp del: fun_upd_apply)
qed simp

lemma scan_results_keep: "res c = Some k \<Longrightarrow> fst (snd (scan_results j res rs)) c = Some k"
proof (induction j res rs rule: scan_results.induct)
  case (2 j res m ms)
  have "res (ToolCallID m) = None \<Longrightarrow> (res(ToolCallID m \<mapsto> j)) c = Some k"
    using "2.prems" by auto
  then show ?case using 2 by (simp add: case_prod_beta del: fun_upd_apply)
qed simp

lemma scan_results_dom: "list_all tool_row rs \<Longrightarrow>
    fst (snd (scan_results j res rs)) c = None \<longleftrightarrow> res c = None \<and> c \<notin> set (map ToolCallID rs)"
  by (induction j res rs rule: scan_results.induct) (auto simp: case_prod_beta)

lemma scan_results_index: "list_all tool_row rs \<Longrightarrow> res c = None \<Longrightarrow>
    fst (snd (scan_results j res rs)) c = Some k \<Longrightarrow>
    \<exists>n < length rs. k = j + n \<and> ToolCallID (rs ! n) = c"
proof (induction j res rs rule: scan_results.induct)
  case (2 j res m ms)
  show ?case
  proof (cases "res (ToolCallID m) = None \<and> ToolCallID m = c")
    case True
    then have "k = j" using 2 scan_results_keep [of "res(c \<mapsto> j)" c j "Suc j" ms] by (auto split: if_splits)
    then show ?thesis using True by (intro exI [of _ 0]) simp
  next
    case False
    then have "res (ToolCallID m) = None \<Longrightarrow> (res(ToolCallID m \<mapsto> j)) c = None"
      using "2.prems" by auto
    then have "\<exists>n < length ms. k = Suc j + n \<and> ToolCallID (ms ! n) = c"
      using 2 by (cases "res (ToolCallID m)") (auto simp: case_prod_beta simp del: fun_upd_apply)
    then obtain n where "n < length ms" "k = Suc j + n" "ToolCallID (ms ! n) = c" by blast
    then show ?thesis by (intro exI [of _ "Suc n"]) simp
  qed
qed simp

definition batch_of :: "nat \<Rightarrow> nat \<Rightarrow> message \<Rightarrow> message list \<Rightarrow> toolBatch" where
  "batch_of i b m rs =
     \<lparr> assistant = i, batch_end = Suc i + length rs, calls = snd (scan_calls i b [] (ToolCalls m)),
       results = fst (snd (scan_results (Suc i) Map.empty rs)) \<rparr>"

text \<open>The batches \<open>bs\<close> and the row table \<open>rb\<close> describe the segments that start at the index \<open>i\<close>.\<close>

fun describes :: "toolBatch list \<Rightarrow> (nat \<Rightarrow> nat option) \<Rightarrow> nat \<Rightarrow> nat \<Rightarrow> segment list \<Rightarrow> bool" where
  "describes bs rb i b [] \<longleftrightarrow> length bs = b"
| "describes bs rb i b (Plain m # ss) \<longleftrightarrow> rb i = None \<and> describes bs rb (Suc i) b ss"
| "describes bs rb i b (Batch m rs # ss) \<longleftrightarrow>
     b < length bs \<and> bs ! b = batch_of i b m rs \<and> list_all tool_row rs \<and> \<not> tool_row m \<and>
     (\<forall>j. i < j \<and> j < Suc i + length rs \<longrightarrow> rb j = Some b) \<and>
     describes bs rb (Suc i + length rs) (Suc b) ss"

definition segment_quiet :: "segment \<Rightarrow> bool" where
  "segment_quiet s = (case s of Plain m \<Rightarrow> True | Batch m rs \<Rightarrow>
     call_ids m = map call_ID (ToolCalls m) \<and> distinct (call_ids m) \<and> distinct (result_ids rs))"

definition next_analysis :: "nat \<Rightarrow> message \<Rightarrow> message list \<Rightarrow> toolPairingAnalysis \<Rightarrow> toolPairingAnalysis" where
  "next_analysis i m rs a =
     (let b = length (batches a); oc = scan_calls i b [] (ToolCalls m) in
      a\<lparr> batches := batches a @ [batch_of i b m rs],
         all_calls := fold add_occurrence (snd oc) (all_calls a),
         resultBatch := (\<lambda>j. if Suc i \<le> j \<and> j < Suc i + length rs then Some b else resultBatch a j),
         issues := issues a @ fst oc @ fst (scan_results (Suc i) Map.empty rs) \<rparr>)"

lemma scan_batches_Batch:
  assumes "opens_batch m"
  shows "scan_batches i (m # ms) a =
     scan_batches (Suc i + length (takeWhile tool_row ms)) (drop (length (takeWhile tool_row ms)) ms)
       (next_analysis i m (takeWhile tool_row ms) a)"
  using assms
  by (simp add: Let_def case_prod_beta next_analysis_def batch_of_def scan_results_end scan_results_rows)

lemma scan_batches_Plain: "\<not> opens_batch m \<Longrightarrow> scan_batches i (m # ms) a = scan_batches (Suc i) ms a"
  by simp

declare scan_batches.simps(2) [simp del]

lemma next_analysis_simps [simp]:
  "batches (next_analysis i m rs a) = batches a @ [batch_of i (length (batches a)) m rs]"
  "resultBatch (next_analysis i m rs a) j =
     (if Suc i \<le> j \<and> j < Suc i + length rs then Some (length (batches a)) else resultBatch a j)"
  "validResults (next_analysis i m rs a) = validResults a"
  "strayResults (next_analysis i m rs a) = strayResults a"
  by (simp_all add: next_analysis_def Let_def)

lemma scan_batches_keeps:
  "j < i \<Longrightarrow> resultBatch (scan_batches i ms a) j = resultBatch a j"
  "b < length (batches a) \<Longrightarrow> batches (scan_batches i ms a) ! b = batches a ! b"
  "length (batches a) \<le> length (batches (scan_batches i ms a))"
proof (induction ms arbitrary: i a rule: segments.induct)
  case (2 m ms) {
    case 1 then show ?case using "2.IH"(1) "2.IH"(4) by (cases "opens_batch m") (simp_all add: scan_batches_Batch scan_batches_Plain)
  next
    case 2 then show ?case using "2.IH"(2) "2.IH"(5) by (cases "opens_batch m") (simp_all add: scan_batches_Batch scan_batches_Plain nth_append)
  next
    case 3 then show ?case
      using "2.IH"(3) [of "next_analysis i m (takeWhile tool_row ms) a"] "2.IH"(6)
      by (cases "opens_batch m") (simp_all add: scan_batches_Batch scan_batches_Plain Suc_le_eq less_imp_le)
  }
qed simp_all

lemma scan_describes:
  "(\<And>j. i \<le> j \<Longrightarrow> resultBatch a j = None) \<Longrightarrow>
   describes (batches (scan_batches i ms a)) (resultBatch (scan_batches i ms a)) i (length (batches a)) (segments ms)"
proof (induction ms arbitrary: i a rule: segments.induct)
  case (2 m ms)
  show ?case
  proof (cases "opens_batch m")
    case True
    let ?rs = "takeWhile tool_row ms" and ?a = "next_analysis i m (takeWhile tool_row ms) a"
    have "list_all tool_row ?rs" by (auto simp: list_all_iff dest: set_takeWhileD)
    moreover have "describes (batches (scan_batches i (m # ms) a)) (resultBatch (scan_batches i (m # ms) a))
        (Suc i + length ?rs) (Suc (length (batches a))) (segments (drop (length ?rs) ms))"
      using "2.IH"(1) [OF True, of "Suc i + length ?rs" ?a] "2.prems" True
      by (simp add: scan_batches_Batch)
    moreover have "batches (scan_batches i (m # ms) a) ! length (batches a) = batch_of i (length (batches a)) m ?rs"
      "length (batches a) < length (batches (scan_batches i (m # ms) a))"
      using scan_batches_keeps(2) [of "length (batches a)" ?a "Suc i + length ?rs"]
        scan_batches_keeps(3) [of ?a "Suc i + length ?rs"] True
      by (simp_all add: scan_batches_Batch Suc_le_eq)
    moreover have "resultBatch (scan_batches i (m # ms) a) j = Some (length (batches a))"
      if "i < j \<and> j < Suc i + length ?rs" for j
      using that True by (simp add: scan_batches_Batch scan_batches_keeps(1))
    ultimately show ?thesis using True by (simp add: opens_batch_not_tool)
  next
    case False
    have "resultBatch (scan_batches (Suc i) ms a) i = None"
      using "2.prems" by (simp add: scan_batches_keeps(1))
    then show ?thesis
      using "2.IH"(2) [OF False, of "Suc i" a] "2.prems" False by (simp add: scan_batches_Plain)
  qed
qed simp

lemma scan_quiet: "issues (scan_batches i ms a) = [] \<longleftrightarrow> issues a = [] \<and> list_all segment_quiet (segments ms)"
proof (induction ms arbitrary: i a rule: segments.induct)
  case (2 m ms)
  have tool: "list_all tool_row (takeWhile tool_row ms)" by (auto simp: list_all_iff dest: set_takeWhileD)
  have quiet: "issues (next_analysis i m (takeWhile tool_row ms) a) = [] \<longleftrightarrow>
      issues a = [] \<and> segment_quiet (Batch m (takeWhile tool_row ms))"
    using tool by (auto simp: next_analysis_def Let_def scan_calls_quiet scan_results_quiet segment_quiet_def
      call_ids_id result_ids_def) (simp_all add: call_ids_id [symmetric])
  show ?case
  proof (cases "opens_batch m")
    case True
    then show ?thesis using "2.IH"(1) quiet by (simp add: scan_batches_Batch)
  next
    case False
    then show ?thesis using "2.IH"(2) by (simp add: scan_batches_Plain segment_quiet_def)
  qed
qed simp

lemma scan_keeps_marks:
  "validResults (scan_batches i ms a) = validResults a"
  "strayResults (scan_batches i ms a) = strayResults a"
proof (induction ms arbitrary: i a rule: segments.induct)
  case (2 m ms) {
    case 1 show ?case using "2.IH"(1) "2.IH"(3) by (cases "opens_batch m") (simp_all add: scan_batches_Batch scan_batches_Plain)
  next
    case 2 show ?case using "2.IH"(2) "2.IH"(4) by (cases "opens_batch m") (simp_all add: scan_batches_Batch scan_batches_Plain)
  }
qed simp_all

section \<open>What the classification records\<close>

definition row_valid :: "toolBatch list \<Rightarrow> (nat \<Rightarrow> nat option) \<Rightarrow> nat \<times> message \<Rightarrow> nat \<Rightarrow> bytes \<Rightarrow> bool" where
  "row_valid bs rb x b c \<longleftrightarrow> tool_row (snd x) \<and> ToolCallID (snd x) = c \<and> rb (fst x) = Some b \<and>
     results (bs ! b) c = Some (fst x) \<and> list_ex (\<lambda>oc. occ_id oc = c) (calls (bs ! b))"

definition row_stray :: "toolBatch list \<Rightarrow> (nat \<Rightarrow> nat option) \<Rightarrow> nat \<times> message \<Rightarrow> bool" where
  "row_stray bs rb x \<longleftrightarrow> tool_row (snd x) \<and>
     (case rb (fst x) of None \<Rightarrow> True
      | Some b \<Rightarrow> results (bs ! b) (ToolCallID (snd x)) = Some (fst x) \<and>
          \<not> list_ex (\<lambda>oc. occ_id oc = ToolCallID (snd x)) (calls (bs ! b)))"

lemma classify_keeps [simp]:
  "batches (classify x a) = batches a" "resultBatch (classify x a) = resultBatch a"
  by (auto simp: classify_def stray_def split: prod.splits option.splits)

lemma fold_classify_keeps [simp]:
  "batches (fold classify xs a) = batches a" "resultBatch (fold classify xs a) = resultBatch a"
  by (induction xs arbitrary: a) simp_all

lemma classify_marks:
  "validResults (classify x a) b c \<longleftrightarrow> validResults a b c \<or> row_valid (batches a) (resultBatch a) x b c"
  "strayResults (classify x a) c \<longleftrightarrow>
     strayResults a c \<or> row_stray (batches a) (resultBatch a) x \<and> ToolCallID (snd x) = c"
  "issues (classify x a) = [] \<longleftrightarrow> issues a = [] \<and> \<not> row_stray (batches a) (resultBatch a) x"
  by (auto simp: classify_def stray_def row_valid_def row_stray_def split: prod.splits option.splits)

lemma fold_classify_marks:
  "validResults (fold classify xs a) b c \<longleftrightarrow>
     validResults a b c \<or> (\<exists>x \<in> set xs. row_valid (batches a) (resultBatch a) x b c)"
  "strayResults (fold classify xs a) c \<longleftrightarrow>
     strayResults a c \<or> (\<exists>x \<in> set xs. row_stray (batches a) (resultBatch a) x \<and> ToolCallID (snd x) = c)"
  "issues (fold classify xs a) = [] \<longleftrightarrow>
     issues a = [] \<and> (\<forall>x \<in> set xs. \<not> row_stray (batches a) (resultBatch a) x)"
  by (induction xs arbitrary: a) (auto simp: classify_marks)

lemma calls_batch_of [simp]:
  "list_ex (\<lambda>oc. occ_id oc = c) (calls (batch_of i b m rs)) \<longleftrightarrow> c \<in> set (call_ids m)"
proof -
  have ex: "list_ex (\<lambda>oc. occ_id oc = c) xs \<longleftrightarrow> c \<in> set (map occ_id xs)" for xs
    by (auto simp: list_ex_iff)
  show ?thesis
    unfolding ex by (simp only: scan_calls_ids batch_of_def call_ids_def toolBatch.simps)
qed

lemma map_calls_batch_of [simp]: "map occ_id (calls (batch_of i b m rs)) = call_ids m"
  by (simp add: batch_of_def call_ids_def scan_calls_ids)

lemma enumerate_ex: "(\<exists>x \<in> set (enumerate k xs). P x) \<longleftrightarrow> (\<exists>n < length xs. P (k + n, xs ! n))"
proof
  assume "\<exists>x \<in> set (enumerate k xs). P x"
  then obtain j y where j: "(j, y) \<in> set (enumerate k xs)" "P (j, y)" by auto
  then show "\<exists>n < length xs. P (k + n, xs ! n)"
    by (intro exI [of _ "j - k"]) (auto simp: in_set_enumerate_eq)
qed (auto simp: in_set_enumerate_eq)

lemma batch_rows:
  assumes bs: "bs ! b = batch_of i b m rs" and tool: "list_all tool_row rs"
    and rb: "\<And>j. i < j \<Longrightarrow> j < Suc i + length rs \<Longrightarrow> rb j = Some b"
  shows "(\<exists>x \<in> set (enumerate (Suc i) rs). row_stray bs rb x \<and> ToolCallID (snd x) = c) \<longleftrightarrow>
      c \<in> set (result_ids rs) - set (call_ids m)"
    and "(\<exists>x \<in> set (enumerate (Suc i) rs). row_valid bs rb x b' c) \<longleftrightarrow>
      b' = b \<and> c \<in> set (result_ids rs) \<and> c \<in> set (call_ids m)"
proof -
  have res: "\<exists>n < length rs. results (batch_of i b m rs) c = Some (Suc i + n) \<and> ToolCallID (rs ! n) = c"
    if "c \<in> set (result_ids rs)"
  proof -
    have "results (batch_of i b m rs) c \<noteq> None"
      using that scan_results_dom [OF tool, of "Suc i" Map.empty c] by (simp add: batch_of_def result_ids_def)
    then obtain k where "results (batch_of i b m rs) c = Some k" by blast
    then show ?thesis
      using scan_results_index [OF tool, of Map.empty c "Suc i" k] by (auto simp: batch_of_def)
  qed
  then have first: "(\<exists>n < length rs. results (batch_of i b m rs) c = Some (Suc (i + n)) \<and> ToolCallID (rs ! n) = c) \<longleftrightarrow>
      c \<in> set (result_ids rs)"
    by (auto simp: result_ids_def)
  have row: "tool_row (rs ! n) \<and> rb (Suc (i + n)) = Some b" if "n < length rs" for n
    using that rb tool by (simp add: list_all_iff)
  show "(\<exists>x \<in> set (enumerate (Suc i) rs). row_stray bs rb x \<and> ToolCallID (snd x) = c) \<longleftrightarrow>
      c \<in> set (result_ids rs) - set (call_ids m)"
    unfolding enumerate_ex using row bs by (auto simp: row_stray_def first [symmetric])
  show "(\<exists>x \<in> set (enumerate (Suc i) rs). row_valid bs rb x b' c) \<longleftrightarrow>
      b' = b \<and> c \<in> set (result_ids rs) \<and> c \<in> set (call_ids m)"
    unfolding enumerate_ex using row bs by (auto simp: row_valid_def first [symmetric])
qed

text \<open>The batches of a history, in order.\<close>

fun batch_segments :: "segment list \<Rightarrow> (message \<times> message list) list" where
  "batch_segments [] = []"
| "batch_segments (Plain m # ss) = batch_segments ss"
| "batch_segments (Batch m rs # ss) = (m, rs) # batch_segments ss"

lemma describes_batches:
  "describes bs rb i b ss \<Longrightarrow> length bs = b + length (batch_segments ss)"
  "describes bs rb i b ss \<Longrightarrow> k < length (batch_segments ss) \<Longrightarrow>
     \<exists>i'. bs ! (b + k) = batch_of i' (b + k) (fst (batch_segments ss ! k)) (snd (batch_segments ss ! k))"
proof (induction bs rb i b ss arbitrary: k rule: describes.induct)
  case (3 bs rb i b m rs ss) {
    case 1 then show ?case using 3 by simp
  next
    case 2 then show ?case using "3.IH"(2) [of "k - 1"] by (cases k) auto
  }
qed auto

lemma describes_stray:
  "describes bs rb i b ss \<Longrightarrow>
   (\<exists>x \<in> set (enumerate i (flat ss)). row_stray bs rb x \<and> ToolCallID (snd x) = c) \<longleftrightarrow>
   (\<exists>s \<in> set ss. c \<in> stray_ids s)"
proof (induction bs rb i b ss rule: describes.induct)
  case (2 bs rb i b m ss)
  then show ?case by (auto simp: row_stray_def)
next
  case (3 bs rb i b m rs ss)
  have "\<not> row_stray bs rb (i, m)" using "3.prems" by (simp add: row_stray_def)
  then show ?case
    using 3 batch_rows(1) [of bs b i m rs rb c]
    by (simp add: enumerate_append_eq bex_Un)
qed simp

lemma describes_valid:
  "describes bs rb i b ss \<Longrightarrow>
   (\<exists>x \<in> set (enumerate i (flat ss)). row_valid bs rb x b' c) \<longleftrightarrow>
   (\<exists>k < length (batch_segments ss). b' = b + k \<and>
      c \<in> set (result_ids (snd (batch_segments ss ! k))) \<and> c \<in> set (call_ids (fst (batch_segments ss ! k))))"
proof (induction bs rb i b ss rule: describes.induct)
  case (2 bs rb i b m ss)
  then show ?case by (simp add: row_valid_def)
next
  case (3 bs rb i b m rs ss)
  have "\<not> row_valid bs rb (i, m) b' c" using "3.prems" by (simp add: row_valid_def)
  moreover have "(\<exists>k < Suc (length (batch_segments ss)). P k) \<longleftrightarrow>
      P 0 \<or> (\<exists>k < length (batch_segments ss). P (Suc k))" for P
    using Ex_less_Suc2 by blast
  ultimately show ?case
    using 3 batch_rows(2) [of bs b i m rs rb b' c]
    by (simp add: enumerate_append_eq bex_Un)
qed simp

text \<open>The state after the two loops, on the segments of the history.\<close>

definition analysed :: "message list \<Rightarrow> toolPairingAnalysis" where
  "analysed ms = fold classify (enumerate 0 ms) (scan_batches 0 ms empty_analysis)"

definition history_stray :: "segment list \<Rightarrow> bytes set" where
  "history_stray ss = (\<Union>s \<in> set ss. stray_ids s)"

lemma analysed_describes: "describes (batches (analysed ms)) (resultBatch (analysed ms)) 0 0 (segments ms)"
  using scan_describes [of 0 empty_analysis ms] by (simp add: analysed_def empty_analysis_def)

lemma analysed_stray: "strayResults (analysed ms) c \<longleftrightarrow> c \<in> history_stray (segments ms)"
  using describes_stray [OF analysed_describes [of ms], of c]
  by (simp add: analysed_def fold_classify_marks scan_keeps_marks empty_analysis_def history_stray_def)

lemma analysed_valid: "validResults (analysed ms) b c \<longleftrightarrow>
    (b < length (batch_segments (segments ms)) \<and>
     c \<in> set (result_ids (snd (batch_segments (segments ms) ! b))) \<and>
     c \<in> set (call_ids (fst (batch_segments (segments ms) ! b))))"
  using describes_valid [OF analysed_describes [of ms], of b c]
  by (auto simp add: analysed_def fold_classify_marks scan_keeps_marks empty_analysis_def)

lemma analysed_quiet: "issues (analysed ms) = [] \<longleftrightarrow>
    list_all segment_quiet (segments ms) \<and> history_stray (segments ms) = {}"
proof -
  have "(\<forall>x \<in> set (enumerate 0 ms). \<not> row_stray (batches (analysed ms)) (resultBatch (analysed ms)) x)
      \<longleftrightarrow> history_stray (segments ms) = {}"
    using describes_stray [OF analysed_describes [of ms]] by (auto simp: history_stray_def)
  then show ?thesis
    by (simp add: analysed_def fold_classify_marks scan_quiet empty_analysis_def)
qed

lemma analyze_simps:
  "batches (analyzeToolPairing ms) = batches (analysed ms)"
  "validResults (analyzeToolPairing ms) = validResults (analysed ms)"
  "strayResults (analyzeToolPairing ms) = strayResults (analysed ms)"
  "issues (analyzeToolPairing ms) =
     sort_key MessageIndex (issues (analysed ms) @
       concat (map (missing_issues (analysed ms)) (enumerate 0 (batches (analysed ms)))))"
  by (simp_all add: analyzeToolPairing_def analysed_def Let_def)

section \<open>The calls without a result\<close>

lemma filter_count_pos: "1 \<le> length (filter (\<lambda>x. x = c) xs) \<longleftrightarrow> c \<in> set xs"
  by (induction xs) auto

lemma distinct_count: "distinct xs \<longleftrightarrow> (\<forall>c \<in> set xs. \<not> 2 \<le> length (filter (\<lambda>x. x = c) xs))"
proof (induction xs)
  case (Cons x xs)
  have step: "2 \<le> length (filter (\<lambda>y. y = c) (x # xs)) \<longleftrightarrow>
      (if c = x then x \<in> set xs else 2 \<le> length (filter (\<lambda>y. y = c) xs))" for c
    using filter_count_pos [of x xs] by auto
  show ?case unfolding step using Cons by auto
qed simp

lemma filter_occ:
  "length (filter (\<lambda>oc. P (occ_id oc)) xs) = length (filter P (map occ_id xs))"
  "map occ_id (filter (\<lambda>oc. P (occ_id oc)) xs) = filter P (map occ_id xs)"
  "list_ex (\<lambda>oc. P (occ_id oc)) xs \<longleftrightarrow> (\<exists>c \<in> set (map occ_id xs). P c)"
  by (simp_all add: filter_map o_def list_ex_iff)

lemma batchHasDuplicateCall_batch_of [simp]:
  "batchHasDuplicateCall (batch_of i b m rs) c \<longleftrightarrow> 2 \<le> length (filter (\<lambda>x. x = c) (call_ids m))"
  by (simp only: batchHasDuplicateCall_def filter_occ(1) [where P = "\<lambda>x. x = c"] map_calls_batch_of)

text \<open>The ids of the calls of a batch that get a result, \<open>S\<close> the ids of the stray results.\<close>

definition answers :: "bytes set \<Rightarrow> message \<Rightarrow> message list \<Rightarrow> bytes list" where
  "answers S m rs =
     (if distinct (call_ids m) then filter (\<lambda>c. c \<notin> set (result_ids rs) \<and> c \<notin> S) (call_ids m) else [])"

primrec repaired_segment :: "bytes set \<Rightarrow> segment \<Rightarrow> segment" where
  "repaired_segment S (Plain m) = Plain m"
| "repaired_segment S (Batch m rs) = Batch m (rs @ map synthetic_result (answers S m rs))"

lemma missing_calls_batch_of:
  "missing_calls a b (batch_of i b' m rs) =
     (if distinct (call_ids m)
      then filter (\<lambda>c. \<not> validResults a b c \<and> \<not> strayResults a c) (call_ids m) else [])"
  by (simp only: missing_calls_def batchHasDuplicateCall_batch_of map_calls_batch_of
      filter_occ(2) [where P = "\<lambda>c. \<not> validResults a b c \<and> \<not> strayResults a c"]
      filter_occ(3) [where P = "\<lambda>c. 2 \<le> length (filter (\<lambda>x. x = c) (call_ids m))"]
      distinct_count [of "call_ids m"]) auto

lemma missing_issues_batch_of:
  "missing_issues a (b, batch_of i b' m rs) = [] \<longleftrightarrow>
     (\<forall>c \<in> set (call_ids m). 2 \<le> length (filter (\<lambda>x. x = c) (call_ids m)) \<or> validResults a b c)"
proof -
  have "filter (\<lambda>oc. P (occ_id oc)) xs = [] \<longleftrightarrow> (\<forall>c \<in> set (map occ_id xs). \<not> P c)" for P xs
    by (auto simp: filter_empty_conv)
  from this [of "\<lambda>c. \<not> batchHasDuplicateCall (batch_of i b' m rs) c \<and> \<not> validResults a b c" "calls (batch_of i b' m rs)"]
  show ?thesis
    unfolding missing_issues_def prod.case Nil_is_map_conv map_calls_batch_of by auto
qed

lemma analysed_batch:
  assumes "b < length (batch_segments (segments ms))"
  obtains i where "batches (analysed ms) ! b =
      batch_of i b (fst (batch_segments (segments ms) ! b)) (snd (batch_segments (segments ms) ! b))"
  using describes_batches(2) [OF analysed_describes [of ms] assms] by auto

lemma analysed_length: "length (batches (analysed ms)) = length (batch_segments (segments ms))"
  using describes_batches(1) [OF analysed_describes [of ms]] by simp

lemma missing_calls_answers:
  "map (\<lambda>(b, batch). missing_calls (analyzeToolPairing ms) b batch) (enumerate 0 (batches (analyzeToolPairing ms))) =
   map (\<lambda>(m, rs). answers (history_stray (segments ms)) m rs) (batch_segments (segments ms))"
proof (rule nth_equalityI)
  fix b assume "b < length (map (\<lambda>(b, batch). missing_calls (analyzeToolPairing ms) b batch)
      (enumerate 0 (batches (analyzeToolPairing ms))))"
  then have b: "b < length (batch_segments (segments ms))" by (simp add: analyze_simps analysed_length)
  obtain i where i: "batches (analysed ms) ! b =
      batch_of i b (fst (batch_segments (segments ms) ! b)) (snd (batch_segments (segments ms) ! b))"
    using analysed_batch [OF b] .
  have "missing_calls (analyzeToolPairing ms) b (batches (analysed ms) ! b) =
      answers (history_stray (segments ms)) (fst (batch_segments (segments ms) ! b)) (snd (batch_segments (segments ms) ! b))"
    unfolding i missing_calls_batch_of answers_def
    using b by (auto simp: analyze_simps analysed_valid analysed_stray intro!: filter_cong)
  then show "map (\<lambda>(b, batch). missing_calls (analyzeToolPairing ms) b batch)
      (enumerate 0 (batches (analyzeToolPairing ms))) ! b =
      map (\<lambda>(m, rs). answers (history_stray (segments ms)) m rs) (batch_segments (segments ms)) ! b"
    using b by (simp add: analyze_simps analysed_length nth_enumerate_eq case_prod_beta)
qed (simp add: analyze_simps analysed_length)

section \<open>The issues\<close>

lemma missing_quiet:
  "concat (map (missing_issues (analysed ms)) (enumerate 0 (batches (analysed ms)))) = [] \<longleftrightarrow>
   (\<forall>(m, rs) \<in> set (batch_segments (segments ms)). \<forall>c \<in> set (call_ids m).
      2 \<le> length (filter (\<lambda>x. x = c) (call_ids m)) \<or> c \<in> set (result_ids rs))"
proof -
  have "(missing_issues (analysed ms) (b, batches (analysed ms) ! b) = []) \<longleftrightarrow>
      (case batch_segments (segments ms) ! b of (m, rs) \<Rightarrow> \<forall>c \<in> set (call_ids m).
        2 \<le> length (filter (\<lambda>x. x = c) (call_ids m)) \<or> c \<in> set (result_ids rs))"
    if b: "b < length (batch_segments (segments ms))" for b
  proof -
    obtain i where i: "batches (analysed ms) ! b =
        batch_of i b (fst (batch_segments (segments ms) ! b)) (snd (batch_segments (segments ms) ! b))"
      using analysed_batch [OF b] .
    show ?thesis unfolding i missing_issues_batch_of using b by (auto simp: analysed_valid case_prod_beta)
  qed
  then show ?thesis
    by (auto simp: list_all_iff [symmetric] list_all_length analysed_length nth_enumerate_eq
      simp del: concat_eq_Nil_conv simp add: concat_eq_Nil_conv)
qed

lemma batch_segments_all:
  "(\<forall>(m, rs) \<in> set (batch_segments ss). P m rs) \<longleftrightarrow> (\<forall>s \<in> set ss. case s of Plain m \<Rightarrow> True | Batch m rs \<Rightarrow> P m rs)"
  by (induction ss rule: batch_segments.induct) auto

lemma quiet_paired:
  "list_all segment_quiet ss \<and> history_stray ss = {} \<and>
   (\<forall>(m, rs) \<in> set (batch_segments ss). \<forall>c \<in> set (call_ids m).
      2 \<le> length (filter (\<lambda>x. x = c) (call_ids m)) \<or> c \<in> set (result_ids rs)) \<longleftrightarrow>
   list_all segment_paired ss"
proof -
  have key: "segment_quiet s \<and> stray_ids s = {} \<and> (case s of Plain m \<Rightarrow> True | Batch m rs \<Rightarrow>
      \<forall>c \<in> set (call_ids m). 2 \<le> length (filter (\<lambda>x. x = c) (call_ids m)) \<or> c \<in> set (result_ids rs)) \<longleftrightarrow>
      segment_paired s" for s
  proof (cases s)
    case (Batch m rs)
    show ?thesis
      using distinct_count [of "call_ids m"] unfolding Batch segment_quiet_def segment.simps segment_paired.simps stray_ids.simps
      by blast
  qed (simp add: segment_quiet_def)
  show ?thesis
    unfolding batch_segments_all list_all_iff key [symmetric] history_stray_def by blast
qed

lemma Validate_well_paired: "ValidateToolPairing msgs = [] \<longleftrightarrow> well_paired msgs"
proof -
  have "ValidateToolPairing msgs = [] \<longleftrightarrow>
      issues (analysed msgs) = [] \<and>
      concat (map (missing_issues (analysed msgs)) (enumerate 0 (batches (analysed msgs)))) = []"
    unfolding ValidateToolPairing_def analyze_simps
    by (simp only: append_is_Nil_conv flip: set_empty set_sort) simp
  then show ?thesis
    unfolding analysed_quiet missing_quiet well_paired_segments quiet_paired [symmetric] by blast
qed

text \<open>C35: \<open>ValidateToolPairing\<close> reports no issue on exactly the well paired histories: every tool
  result follows, without another row in between, an assistant message with calls; the calls of
  one message have distinct ids that are not blank; and the ids of the results are those of the
  calls, each once. The reference definition reads the history from the front, with no index and
  no table.\<close>
theorem ValidateToolPairing_iff: "ValidateToolPairing msgs = [] \<longleftrightarrow> well_paired msgs"
  by (rule Validate_well_paired)

section \<open>The repair\<close>

lemma describes_next: "describes bs rb i b ss \<Longrightarrow> b < length bs \<Longrightarrow> i \<le> assistant (bs ! b)"
  by (induction bs rb i b ss rule: describes.induct) (auto simp: batch_of_def)

lemma rebuild_flat:
  "describes bs rb i b ss \<Longrightarrow>
   rebuild i (flat ss) (zip (drop b bs) (map (\<lambda>(m, rs). answers S m rs) (batch_segments ss))) =
   flat (map (repaired_segment S) ss)"
proof (induction bs rb i b ss rule: describes.induct)
  case (2 bs rb i b m ss)
  then have IH: "rebuild (Suc i) (flat ss) (zip (drop b bs) (map (\<lambda>(m, rs). answers S m rs) (batch_segments ss))) =
      flat (map (repaired_segment S) ss)" by simp
  show ?case
  proof (cases "b < length bs")
    case True
    have "Suc i \<le> assistant (bs ! b)" using "2.prems" describes_next [of bs rb "Suc i" b ss] True by simp
    then show ?thesis
      using IH True by (cases "map (\<lambda>(m, rs). answers S m rs) (batch_segments ss)") (auto simp: Cons_nth_drop_Suc [symmetric])
  qed (use IH in simp)
next
  case (3 bs rb i b m rs ss)
  have "drop b bs = batch_of i b m rs # drop (Suc b) bs"
    using "3.prems" by (simp flip: Cons_nth_drop_Suc)
  moreover have "assistant (batch_of i b m rs) = i" "batch_end (batch_of i b m rs) = Suc i + length rs"
    by (simp_all add: batch_of_def)
  ultimately show ?case using 3 by simp
qed simp

lemma answers_none: "\<forall>(m, rs) \<in> set (batch_segments ss). answers S m rs = [] \<Longrightarrow> map (repaired_segment S) ss = ss"
  by (induction ss rule: batch_segments.induct) auto

lemma Repair_segments:
  "RepairMissingToolResults msgs =
     (flat (map (repaired_segment (history_stray (segments msgs))) (segments msgs)), ValidateToolPairing msgs)"
proof -
  let ?S = "history_stray (segments msgs)"
  have "rebuild 0 msgs (zip (batches (analysed msgs)) (map (\<lambda>(m, rs). answers ?S m rs) (batch_segments (segments msgs)))) =
      flat (map (repaired_segment ?S) (segments msgs))"
    using rebuild_flat [OF analysed_describes [of msgs], of ?S] by simp
  moreover have "flat (map (repaired_segment ?S) (segments msgs)) = msgs"
    if "list_all (\<lambda>m. m = []) (map (\<lambda>(m, rs). answers ?S m rs) (batch_segments (segments msgs)))"
    using that by (subst answers_none) (auto simp: list_all_iff)
  ultimately show ?thesis
    unfolding RepairMissingToolResults_def Let_def missing_calls_answers
    by (simp add: ValidateToolPairing_def analyze_simps)
qed

lemma well_formed_repaired: "well_formed ss \<Longrightarrow> well_formed (map (repaired_segment S) ss)"
proof (induction ss rule: well_formed.induct)
  case (3 m rs ss)
  have "(case map (repaired_segment S) ss of Plain m' # _ \<Rightarrow> \<not> tool_row m' | _ \<Rightarrow> True) \<longleftrightarrow>
      (case ss of Plain m' # _ \<Rightarrow> \<not> tool_row m' | _ \<Rightarrow> True)"
  proof (cases ss)
    case (Cons s ss')
    then show ?thesis by (cases s) simp_all
  qed simp
  moreover have "list_all tool_row (map synthetic_result ids)" for ids
    by (simp add: list_all_iff synthetic_result_def)
  ultimately show ?case using 3 by simp
qed simp_all

lemma segments_repaired:
  "segments (fst (RepairMissingToolResults msgs)) =
     map (repaired_segment (history_stray (segments msgs))) (segments msgs)"
  by (simp add: Repair_segments segments_flat well_formed_repaired)

lemma result_ids_synthetic: "result_ids (rs @ map synthetic_result ids) = result_ids rs @ ids"
  by (simp add: result_ids_def synthetic_result_def o_def)

lemma stray_repaired: "stray_ids (repaired_segment S s) = stray_ids s"
  by (cases s) (auto simp: result_ids_synthetic answers_def)

lemma answers_repaired: "answers S m (rs @ map synthetic_result (answers S m rs)) = []"
  by (auto simp: answers_def result_ids_synthetic filter_empty_conv)

lemma repaired_twice: "repaired_segment S (repaired_segment S s) = repaired_segment S s"
  by (cases s) (simp_all add: answers_repaired)

text \<open>C34: The repair writes the history anew, batch by batch: every row stays where it is, and the
  results it adds stand at the end of their batch, one for each call (in the order of the calls)
  that has no result there, unless a stray result somewhere carries its id or the batch repeats an
  id. The issues it returns are those of the history it was given, and a second repair changes
  nothing.\<close>
theorem RepairMissingToolResults_spec:
  "fst (RepairMissingToolResults msgs) =
     flat (map (repaired_segment (history_stray (segments msgs))) (segments msgs)) \<and>
   snd (RepairMissingToolResults msgs) = ValidateToolPairing msgs \<and>
   subseq msgs (fst (RepairMissingToolResults msgs)) \<and>
   fst (RepairMissingToolResults (fst (RepairMissingToolResults msgs))) = fst (RepairMissingToolResults msgs)"
proof (intro conjI)
  have "subseq (flat ss) (flat (map (repaired_segment S) ss))" for S ss
  proof (induction ss)
    case (Cons s ss)
    have "subseq (rows s) (rows (repaired_segment S s))"
      by (cases s) (simp_all add: list_emb_prefix)
    then show ?case using Cons by (simp add: list_emb_append_mono)
  qed simp
  from this [of "segments msgs"] show "subseq msgs (fst (RepairMissingToolResults msgs))"
    by (simp add: Repair_segments)
  have "history_stray (map (repaired_segment S) ss) = history_stray ss" for S ss
    by (simp add: history_stray_def stray_repaired)
  then show "fst (RepairMissingToolResults (fst (RepairMissingToolResults msgs))) = fst (RepairMissingToolResults msgs)"
    by (simp add: Repair_segments [of "fst (RepairMissingToolResults msgs)"] segments_repaired o_def repaired_twice)
       (simp add: Repair_segments)
qed (simp_all add: Repair_segments)

section \<open>A repair that completes the history\<close>

lemma scan_calls_kinds: "x \<in> set (fst (scan_calls i b seen cs)) \<Longrightarrow> Kind x \<noteq> toolPairingMissingResult"
  by (induction cs arbitrary: seen) (auto simp: case_prod_beta split: if_splits)

lemma scan_results_kinds: "x \<in> set (fst (scan_results j res rs)) \<Longrightarrow> Kind x \<noteq> toolPairingMissingResult"
  by (induction j res rs rule: scan_results.induct) (auto simp: case_prod_beta split: if_splits)

abbreviation no_missing :: "toolPairingAnalysis \<Rightarrow> bool" where
  "no_missing a \<equiv> (\<forall>x \<in> set (issues a). Kind x \<noteq> toolPairingMissingResult)"

lemma scan_batches_kinds: "no_missing a \<Longrightarrow> no_missing (scan_batches i ms a)"
proof (induction ms arbitrary: i a rule: segments.induct)
  case (2 m ms)
  have "no_missing (next_analysis i m (takeWhile tool_row ms) a)"
    using "2.prems" scan_calls_kinds scan_results_kinds by (fastforce simp: next_analysis_def Let_def)
  then show ?case using 2 by (cases "opens_batch m") (simp_all add: scan_batches_Batch scan_batches_Plain)
qed simp

lemma classify_kinds: "no_missing a \<Longrightarrow> no_missing (classify x a)"
  by (auto simp: classify_def stray_def split: prod.splits option.splits)

lemma fold_classify_kinds: "no_missing a \<Longrightarrow> no_missing (fold classify xs a)"
proof (induction xs arbitrary: a)
  case (Cons x xs)
  show ?case unfolding fold_simps by (rule Cons.IH) (rule classify_kinds, rule Cons.prems)
qed simp

lemma analysed_kinds: "no_missing (analysed msgs)"
  unfolding analysed_def by (intro fold_classify_kinds scan_batches_kinds) (simp add: empty_analysis_def)

lemma quiet_repaired:
  assumes "segment_quiet s" "stray_ids s = {}"
  shows "segment_paired (repaired_segment {} s)"
  using assms by (cases s) (auto simp: segment_quiet_def result_ids_synthetic answers_def split: if_splits)

text \<open>When missing results are all that is wrong with a history (an interrupted turn), the
  repaired history is well paired: the projection a provider is sent then answers every call.\<close>
theorem repair_completes:
  assumes "list_all (\<lambda>x. Kind x = toolPairingMissingResult) (ValidateToolPairing msgs)"
  shows "well_paired (fst (RepairMissingToolResults msgs))"
proof -
  have "\<forall>x \<in> set (issues (analysed msgs)). Kind x = toolPairingMissingResult"
    using assms by (auto simp: ValidateToolPairing_def analyze_simps list_all_iff)
  then have "issues (analysed msgs) = []"
    using analysed_kinds [of msgs] by (cases "issues (analysed msgs)") auto
  then have quiet: "list_all segment_quiet (segments msgs)" "history_stray (segments msgs) = {}"
    by (simp_all add: analysed_quiet)
  have "list_all segment_paired (map (repaired_segment {}) (segments msgs))"
    using quiet quiet_repaired by (auto simp: list_all_iff history_stray_def)
  then show ?thesis by (simp add: well_paired_segments segments_repaired quiet)
qed

definition interrupted_history :: "message list" where
  "interrupted_history =
     [(synthetic_result ''a'')\<lparr> role := RoleAssistant, ToolCallID := [],
        ToolCalls := [\<lparr> call_ID = ''a'', call_Name = ''read'', InputJSON = [] \<rparr>,
                      \<lparr> call_ID = ''b'', call_Name = ''grep'', InputJSON = [] \<rparr>] \<rparr>,
      synthetic_result ''b'',
      (synthetic_result [])\<lparr> role := RoleUser \<rparr>]"

lemma repair_completes_witness:
  "well_paired (fst (RepairMissingToolResults interrupted_history)) \<and>
   \<not> well_paired interrupted_history \<and>
   map ToolCallID (fst (RepairMissingToolResults interrupted_history)) = [[], ''b'', ''a'', []]"
proof (intro conjI)
  show "well_paired (fst (RepairMissingToolResults interrupted_history))"
    by (rule repair_completes) code_simp
  show "\<not> well_paired interrupted_history" by code_simp
  show "map ToolCallID (fst (RepairMissingToolResults interrupted_history)) = [[], ''b'', ''a'', []]"
    by code_simp
qed

end
