(* ===== verification/WebAuth.thy ===== *)
theory WebAuth
  imports GoPrelude "HOL-Library.AList" "HOL-Library.List_Lexorder" "HOL-Library.Product_Lexorder"
begin

text \<open>
  Signing in over the web (\<^verbatim>\<open>internal/webauth\<close>): the store of browser sessions (session.go) and
  the throttle that makes guessing a password slow (throttle.go). A Go map is an association list
  with distinct keys; instants and durations are integers in nanoseconds, a duration at its
  64-bit width where the code does arithmetic on it.
\<close>

section \<open>Browser sessions\<close>

definition DefaultSessionTTL :: int where
  "DefaultSessionTTL = 30 * 24 * 3600 * 1000000000"

definition maxSessions :: int where "maxSessions = 512"

record Session =
  User :: bytes
  Credential :: bytes
  IssuedAt :: int
  ExpiresAt :: int

type_synonym session_map = "(bytes \<times> Session) list"

definition sessions_sweepLocked :: "int \<Rightarrow> session_map \<Rightarrow> session_map" where
  "sessions_sweepLocked now m = filter (\<lambda>(tok, sess). now < ExpiresAt sess) m"

text \<open>The order of the rows: the instant of issue, then the token byte by byte.\<close>

definition row_key :: "bytes \<times> Session \<Rightarrow> int \<times> nat list" where
  "row_key r = (IssuedAt (snd r), map of_char (fst r))"

definition evictOldestLocked :: "int \<Rightarrow> session_map \<Rightarrow> session_map" where
  "evictOldestLocked k m =
     (let keep = (if k < 0 then 0 else k) in
      if int (length m) \<le> keep then m
      else fold (\<lambda>r. AList.delete (fst r)) (take (length m - nat keep) (sort_key row_key m)) m)"

text \<open>\<open>token\<close> is the encoding of the random bytes, \<open>None\<close> when \<^verbatim>\<open>rand.Read\<close> fails.\<close>

definition Issue :: "bytes \<Rightarrow> bytes \<Rightarrow> int \<Rightarrow> bytes option \<Rightarrow> int \<Rightarrow> session_map
    \<Rightarrow> (bytes \<times> Session) option \<times> session_map" where
  "Issue user credential ttl token now m =
     (case token of
        None \<Rightarrow> (None, m)
      | Some tok \<Rightarrow>
          let ttl = (if ttl \<le> 0 then DefaultSessionTTL else ttl);
              sess = \<lparr> User = user, Credential = credential, IssuedAt = now, ExpiresAt = now + ttl \<rparr>;
              m = evictOldestLocked (maxSessions - 1) (sessions_sweepLocked now m)
          in (Some (tok, sess), AList.update tok sess m))"

definition Lookup :: "bytes \<Rightarrow> bytes \<Rightarrow> int \<Rightarrow> session_map \<Rightarrow> Session option \<times> session_map" where
  "Lookup token credential now m =
     (if token = [] then (None, m)
      else (case map_of m token of
              None \<Rightarrow> (None, m)
            | Some sess \<Rightarrow>
                if \<not> now < ExpiresAt sess then (None, AList.delete token m)
                else if Credential sess \<noteq> credential then (None, AList.delete token m)
                else (Some sess, m)))"

definition Revoke :: "bytes \<Rightarrow> session_map \<Rightarrow> session_map" where
  "Revoke token m = (if token = [] then m else AList.delete token m)"

definition RevokeAll :: "session_map \<Rightarrow> session_map" where
  "RevokeAll m = []"

definition Len :: "int \<Rightarrow> session_map \<Rightarrow> int \<times> session_map" where
  "Len now m = (let m = sessions_sweepLocked now m in (int (length m), m))"

text \<open>\<open>sha256_hex8\<close> is the hexadecimal form of the first eight bytes of SHA-256.\<close>

definition CredentialFingerprint :: "(bytes \<Rightarrow> bytes) \<Rightarrow> bytes \<Rightarrow> bytes \<Rightarrow> bytes" where
  "CredentialFingerprint sha256_hex8 user hash = sha256_hex8 (user @ [CHR 0x00] @ hash)"

section \<open>Client addresses\<close>

text \<open>
  What the code uses of \<^verbatim>\<open>net\<close> and \<^verbatim>\<open>net/netip\<close>: the host part of a host and port, and for an
  address that parses, its unmapped form as text and whether that is a loopback address.
\<close>

record net_lib =
  SplitHostPort :: "bytes \<Rightarrow> bytes option"
  ParseAddr :: "bytes \<Rightarrow> (bytes \<times> bool) option"

definition trim_set :: "bytes \<Rightarrow> bytes \<Rightarrow> bytes" where
  "trim_set cs s = rev (dropWhile (\<lambda>c. c \<in> set cs) (rev (dropWhile (\<lambda>c. c \<in> set cs) s)))"

definition NormalizeAddr :: "net_lib \<Rightarrow> bytes \<Rightarrow> bytes" where
  "NormalizeAddr N a =
     (let addr = trim_space a in
      if addr = [] then []
      else let addr = (case SplitHostPort N addr of None \<Rightarrow> addr | Some host \<Rightarrow> host);
               addr = trim_set ''[]'' addr
           in (case ParseAddr N addr of Some (shown, _) \<Rightarrow> shown | None \<Rightarrow> addr))"

definition IsLoopbackAddr :: "net_lib \<Rightarrow> bytes \<Rightarrow> bool" where
  "IsLoopbackAddr N host =
     (if to_lower host = ''localhost'' \<or> to_lower host = [] then True
      else (case ParseAddr N host of Some (_, loopback) \<Rightarrow> loopback | None \<Rightarrow> False))"

definition ClientAddr :: "net_lib \<Rightarrow> bytes \<Rightarrow> bytes \<Rightarrow> bytes \<Rightarrow> bytes" where
  "ClientAddr N remoteAddr forwardedFor realIP =
     (let direct = NormalizeAddr N remoteAddr in
      if \<not> IsLoopbackAddr N direct then direct
      else let v = trim_space (hd (split_on (CHR '','') forwardedFor));
               host = (if v \<noteq> [] then NormalizeAddr N v else [])
           in if host \<noteq> [] then host
              else let host = NormalizeAddr N realIP in if host \<noteq> [] then host else direct)"

section \<open>The throttle\<close>

definition DefaultThrottleBase :: int where "DefaultThrottleBase = 250 * 1000000"
definition DefaultThrottleMax :: int where "DefaultThrottleMax = 5 * 1000000000"
definition DefaultThrottleWindow :: int where "DefaultThrottleWindow = 15 * 60 * 1000000000"
definition maxThrottleEntries :: nat where "maxThrottleEntries = 4096"

record throttleEntry =
  failures :: int
  last_seen :: int

record Throttle =
  Base :: int
  Max :: int
  Window :: int
  entries :: "(bytes \<times> throttleEntry) list"

definition throttle_base :: "Throttle \<Rightarrow> int" where
  "throttle_base t = (if Base t > 0 then Base t else DefaultThrottleBase)"

definition throttle_max :: "Throttle \<Rightarrow> int" where
  "throttle_max t = (if Max t > 0 then Max t else DefaultThrottleMax)"

definition throttle_window :: "Throttle \<Rightarrow> int" where
  "throttle_window t = (if Window t > 0 then Window t else DefaultThrottleWindow)"

text \<open>The doubling loop, \<open>k\<close> rounds of it left; \<^verbatim>\<open>d *= 2\<close> wraps at 64 bits.\<close>

fun double_delay :: "nat \<Rightarrow> int \<Rightarrow> int \<Rightarrow> int" where
  "double_delay 0 mx d = (if d > mx then mx else d)"
| "double_delay (Suc k) mx d =
     (let d = wrap64 (d * 2) in if d \<ge> mx then mx else double_delay k mx d)"

definition delayForLocked :: "Throttle \<Rightarrow> int \<Rightarrow> int" where
  "delayForLocked t attempts =
     (if attempts \<le> 1 then 0 else double_delay (nat (attempts - 2)) (throttle_max t) (throttle_base t))"

definition throttle_sweepLocked :: "int \<Rightarrow> Throttle \<Rightarrow> Throttle" where
  "throttle_sweepLocked now t =
     (let es = filter (\<lambda>(host, ent). \<not> now - last_seen ent > throttle_window t) (entries t)
      in t\<lparr> entries := (if length es \<ge> maxThrottleEntries then [] else es) \<rparr>)"

text \<open>A host without an entry reads the zero entry, whose count is zero whatever its age.\<close>

definition Penalize :: "net_lib \<Rightarrow> bytes \<Rightarrow> int \<Rightarrow> Throttle \<Rightarrow> int \<times> Throttle" where
  "Penalize N addr now t =
     (let host = NormalizeAddr N addr in
      if host = [] \<or> IsLoopbackAddr N host then (0, t)
      else let t = throttle_sweepLocked now t;
               n = (case map_of (entries t) host of
                      None \<Rightarrow> 0
                    | Some ent \<Rightarrow> if now - last_seen ent > throttle_window t then 0 else failures ent) + 1
           in (delayForLocked t n,
               t\<lparr> entries := AList.update host \<lparr> failures = n, last_seen = now \<rparr> (entries t) \<rparr>))"

definition Delay :: "net_lib \<Rightarrow> bytes \<Rightarrow> int \<Rightarrow> Throttle \<Rightarrow> int" where
  "Delay N addr now t =
     (let host = NormalizeAddr N addr in
      if host = [] \<or> IsLoopbackAddr N host then 0
      else (case map_of (entries t) host of
              None \<Rightarrow> 0
            | Some ent \<Rightarrow>
                if now - last_seen ent > throttle_window t then 0
                else delayForLocked t (failures ent + 1)))"

definition throttle_Reset :: "net_lib \<Rightarrow> bytes \<Rightarrow> Throttle \<Rightarrow> Throttle" where
  "throttle_Reset N addr t =
     (let host = NormalizeAddr N addr in
      if host = [] then t else t\<lparr> entries := AList.delete host (entries t) \<rparr>)"

end
