(* ===== verification/WebAuth_Correct.thy ===== *)
theory WebAuth_Correct
  imports WebAuth
begin

text \<open>
  What the sign-in tables promise. The interface both of them implement, a table that makes room
  before it takes an entry, is a locale, interpreted on the session store and on the throttle;
  then the life of a session over any sequence of calls, and the waits of the throttle.
\<close>

section \<open>A table of bounded size\<close>

locale capped_store =
  fixes size_of :: "'m \<Rightarrow> nat"
    and find :: "'m \<Rightarrow> 'k \<Rightarrow> 'v option"
    and room :: "'t \<Rightarrow> 'm \<Rightarrow> 'm"
    and put :: "'k \<Rightarrow> 'v \<Rightarrow> 'm \<Rightarrow> 'm"
    and ok :: "'m \<Rightarrow> bool"
    and cap :: nat
  assumes room_ok: "ok m \<Longrightarrow> ok (room t m)"
    and room_size: "ok m \<Longrightarrow> size_of (room t m) < cap"
    and room_find: "ok m \<Longrightarrow> find (room t m) k = Some v \<Longrightarrow> find m k = Some v"
    and put_ok: "ok m \<Longrightarrow> ok (put k v m)"
    and put_size: "ok m \<Longrightarrow> size_of (put k v m) \<le> Suc (size_of m)"
    and put_find: "ok m \<Longrightarrow> find (put k v m) k' = (if k' = k then Some v else find m k')"
begin

lemma add_ok: "ok m \<Longrightarrow> ok (put k v (room t m))"
  by (intro put_ok room_ok)

lemma add_size: "ok m \<Longrightarrow> size_of (put k v (room t m)) \<le> cap"
  using put_size [OF room_ok, of m k v t] room_size [of m t] by simp

lemma add_find: "ok m \<Longrightarrow> find (put k v (room t m)) k' = Some w \<Longrightarrow>
    (if k' = k then w = v else find m k' = Some w)"
  using room_find [of m t k' w] by (simp add: put_find room_ok split: if_splits)

lemma adds_bounded: "ok m \<Longrightarrow> size_of m \<le> cap \<Longrightarrow>
    size_of (fold (\<lambda>(t, k, v) m. put k v (room t m)) xs m) \<le> cap"
  by (induction xs arbitrary: m) (auto simp: add_ok add_size)

end

text \<open>The association lists of the model.\<close>

definition distinct_keys :: "('k \<times> 'v) list \<Rightarrow> bool" where
  "distinct_keys m \<longleftrightarrow> distinct (map fst m)"

lemma distinct_keys_update: "distinct_keys m \<Longrightarrow> distinct_keys (AList.update k v m)"
  by (simp add: distinct_keys_def AList.distinct_update)

lemma distinct_keys_filter: "distinct_keys m \<Longrightarrow> distinct_keys (filter P m)"
  by (simp add: distinct_keys_def distinct_map_filter)

lemma update_length: "length (AList.update k v m) \<le> Suc (length m)"
  by (induction m) auto

lemma map_of_filter_sub: "distinct_keys m \<Longrightarrow> map_of (filter P m) k = Some v \<Longrightarrow> map_of m k = Some v"
  unfolding distinct_keys_def using map_of_SomeD [of "filter P m" k v] map_of_is_SomeI [of m k v] by simp

lemma map_of_update: "map_of (AList.update k v m) k' = (if k' = k then Some v else map_of m k')"
  by (simp add: AList.update_conv')

lemma in_set_update: "(k', v') \<in> set m \<Longrightarrow> k' \<noteq> k \<Longrightarrow> (k', v') \<in> set (AList.update k v m)"
  by (induction m) auto

lemma in_set_update_same: "(k, v) \<in> set (AList.update k v m)"
  by (induction m) auto

lemma filter_update_length:
  "length (filter P (AList.update k v m)) \<le> Suc (length (filter P m))"
  by (induction m) auto

section \<open>The store of sessions\<close>

lemma fold_delete: "fold (\<lambda>r. AList.delete (fst r)) rs m = filter (\<lambda>r. fst r \<notin> fst ` set rs) m"
  by (induction rs arbitrary: m) (auto simp: delete_filter intro!: filter_cong)

lemma evict_filter:
  "\<exists>P. evictOldestLocked k m = filter P m"
proof (cases "int (length m) \<le> (if k < 0 then 0 else k)")
  case True
  then show ?thesis by (intro exI [of _ "\<lambda>_. True"]) (simp add: evictOldestLocked_def Let_def)
next
  case False
  then show ?thesis unfolding evictOldestLocked_def Let_def fold_delete by (simp only: if_False) blast
qed

lemma evict_length:
  assumes "distinct_keys m" "0 \<le> k"
  shows "length (evictOldestLocked k m) \<le> nat k"
proof (cases "int (length m) \<le> k")
  case False
  let ?old = "take (length m - nat k) (sort_key row_key m)"
  have "distinct (map fst (sort_key row_key m))"
    using assms(1) by (metis distinct_keys_def distinct_map distinct_sort set_sort)
  then have old: "distinct (map fst ?old)" by (metis distinct_take take_map)
  have keys: "fst ` set ?old \<subseteq> fst ` set m" using set_take_subset [of _ "sort_key row_key m"] by auto
  have "length (filter (\<lambda>r. fst r \<notin> fst ` set ?old) m) = card (fst ` set m - fst ` set ?old)"
    using assms(1) by (subst distinct_card [symmetric, of "map fst (filter (\<lambda>r. fst r \<notin> fst ` set ?old) m)", simplified])
      (auto simp: distinct_keys_def distinct_map_filter intro!: arg_cong [where f = card])
  also have "\<dots> = length m - card (fst ` set ?old)"
    using keys assms(1) by (simp add: card_Diff_subset distinct_keys_def) (metis distinct_card length_map list.set_map)
  also have "card (fst ` set ?old) = length m - nat k"
    using old by (metis distinct_card length_map list.set_map length_take length_sort diff_le_self min.absorb2)
  finally show ?thesis
    using False assms(2) by (simp add: evictOldestLocked_def Let_def fold_delete)
qed (use assms in \<open>simp add: evictOldestLocked_def Let_def\<close>)

text \<open>A row with fewer than \<open>k\<close> younger ones is kept.\<close>

lemma row_key_inj: "distinct_keys m \<Longrightarrow> r \<in> set m \<Longrightarrow> r' \<in> set m \<Longrightarrow> row_key r = row_key r' \<Longrightarrow> r = r'"
proof -
  assume "distinct_keys m" "r \<in> set m" "r' \<in> set m" "row_key r = row_key r'"
  moreover from this have "fst r = fst r'"
    by (simp add: row_key_def inj_map_eq_map [OF inj_of_char])
  ultimately show "r = r'" by (metis distinct_keys_def distinct_map inj_onD)
qed

lemma evict_keeps:
  assumes "distinct_keys m" "r \<in> set m" "length (filter (\<lambda>r'. row_key r < row_key r') m) < k"
  shows "r \<in> set (evictOldestLocked (int k) m)"
proof (cases "length m \<le> k")
  case False
  let ?ys = "sort_key row_key m" and ?n = "length m - k"
  have "fst r \<notin> fst ` set (take ?n ?ys)"
  proof
    assume "fst r \<in> fst ` set (take ?n ?ys)"
    then obtain i where i: "i < ?n" "fst (?ys ! i) = fst r" by (auto simp: in_set_conv_nth)
    have "?ys ! i \<in> set m" using i(1) by (metis diff_le_self length_sort nth_mem order_less_le_trans set_sort)
    then have r: "?ys ! i = r" using assms(1,2) i(2) by (metis distinct_keys_def distinct_map inj_onD)
    have d: "distinct ?ys" using assms(1) by (simp add: distinct_keys_def distinct_map)
    have "row_key r < row_key y" if y: "y \<in> set (drop (Suc i) ?ys)" for y
    proof -
      obtain j where j: "j < length m - Suc i" "y = ?ys ! (Suc i + j)" using y by (auto simp: in_set_conv_nth)
      then have "row_key r \<le> row_key y"
        using sorted_nth_mono [OF sorted_sort_key [of row_key m], of i "Suc i + j"] r by simp
      moreover have "y \<noteq> r" using nth_eq_iff_index_eq [OF d, of "Suc i + j" i] j r by simp
      moreover have "y \<in> set m" using y by (metis in_set_dropD set_sort)
      ultimately show ?thesis using row_key_inj [OF assms(1,2), of y] by (metis order_le_less)
    qed
    then have "set (drop (Suc i) ?ys) \<subseteq> set (filter (\<lambda>r'. row_key r < row_key r') m)"
      by (auto dest: in_set_dropD)
    then have "card (set (drop (Suc i) ?ys)) \<le> length (filter (\<lambda>r'. row_key r < row_key r') m)"
      by (meson List.finite_set card_length card_mono le_trans)
    moreover have "card (set (drop (Suc i) ?ys)) = length m - Suc i"
      using d by (simp add: distinct_card distinct_drop)
    ultimately show False using assms(3) i(1) by simp
  qed
  then show ?thesis using False assms(2) by (simp add: evictOldestLocked_def Let_def fold_delete)
qed (use assms in \<open>simp add: evictOldestLocked_def Let_def\<close>)

definition sessions_room :: "int \<Rightarrow> session_map \<Rightarrow> session_map" where
  "sessions_room now m = evictOldestLocked (maxSessions - 1) (sessions_sweepLocked now m)"

lemma sessions_room_filter: "\<exists>P. sessions_room now m = filter P m"
  using evict_filter [of "maxSessions - 1" "sessions_sweepLocked now m"]
  by (auto simp: sessions_room_def sessions_sweepLocked_def)

interpretation session_store: capped_store length map_of sessions_room AList.update distinct_keys "nat maxSessions"
proof unfold_locales
  fix m :: session_map and t k v k'
  assume m: "distinct_keys m"
  then show "distinct_keys (sessions_room t m)" using sessions_room_filter [of t m] distinct_keys_filter by metis
  show "length (sessions_room t m) < nat maxSessions"
    using evict_length [of "sessions_sweepLocked t m" "maxSessions - 1"] m
    by (simp add: sessions_room_def sessions_sweepLocked_def distinct_keys_filter maxSessions_def)
  show "map_of (sessions_room t m) k = Some v \<Longrightarrow> map_of m k = Some v"
    using sessions_room_filter [of t m] map_of_filter_sub [OF m] by metis
qed (simp_all add: distinct_keys_update update_length map_of_update)

section \<open>The life of a session\<close>

text \<open>One call of the store; a run is a sequence of calls with the instants they were made at.\<close>

datatype sevent =
    EvIssue bytes bytes int "bytes option"
  | EvLookup bytes bytes
  | EvRevoke bytes
  | EvRevokeAll
  | EvLen

fun sstep :: "int \<times> sevent \<Rightarrow> session_map \<Rightarrow> session_map" where
  "sstep (now, EvIssue user cred ttl token) m = snd (Issue user cred ttl token now m)"
| "sstep (now, EvLookup token cred) m = snd (Lookup token cred now m)"
| "sstep (now, EvRevoke token) m = Revoke token m"
| "sstep (now, EvRevokeAll) m = RevokeAll m"
| "sstep (now, EvLen) m = snd (Len now m)"

definition srun :: "(int \<times> sevent) list \<Rightarrow> session_map" where
  "srun es = fold sstep es []"

lemma srun_snoc: "srun (es @ [e]) = sstep e (srun es)"
  by (simp add: srun_def)

definition effective_ttl :: "int \<Rightarrow> int" where
  "effective_ttl ttl = (if ttl \<le> 0 then DefaultSessionTTL else ttl)"

abbreviation issued_session :: "bytes \<Rightarrow> bytes \<Rightarrow> int \<Rightarrow> int \<Rightarrow> Session" where
  "issued_session user cred ttl now \<equiv>
     \<lparr> User = user, Credential = cred, IssuedAt = now, ExpiresAt = now + effective_ttl ttl \<rparr>"

lemma Issue_room: "Issue user cred ttl (Some tok) now m =
    (Some (tok, issued_session user cred ttl now),
     AList.update tok (issued_session user cred ttl now) (sessions_room now m))"
  by (simp add: Issue_def Let_def effective_ttl_def sessions_room_def)

text \<open>The calls after which a token no longer names the session it named.\<close>

fun ends :: "bytes \<Rightarrow> sevent \<Rightarrow> bool" where
  "ends tok (EvRevoke tok') \<longleftrightarrow> tok' = tok"
| "ends tok EvRevokeAll \<longleftrightarrow> True"
| "ends tok (EvIssue _ _ _ token) \<longleftrightarrow> token = Some tok"
| "ends tok _ \<longleftrightarrow> False"

definition opened_by :: "(int \<times> sevent) list \<Rightarrow> bytes \<Rightarrow> Session \<Rightarrow> bool" where
  "opened_by es tok sess \<longleftrightarrow>
     (\<exists>es1 es2 ttl. es = es1 @ (IssuedAt sess, EvIssue (User sess) (Credential sess) ttl (Some tok)) # es2 \<and>
        ExpiresAt sess = IssuedAt sess + effective_ttl ttl \<and> (\<forall>x \<in> set es2. \<not> ends tok (snd x)))"

lemma opened_by_snoc: "opened_by es tok sess \<Longrightarrow> \<not> ends tok (snd e) \<Longrightarrow> opened_by (es @ [e]) tok sess"
  by (fastforce simp: opened_by_def)

lemma opened_by_issue: "opened_by (es @ [(now, EvIssue user cred ttl (Some tok))]) tok (issued_session user cred ttl now)"
  unfolding opened_by_def by (intro exI [of _ es] exI [of _ "[]"] exI [of _ ttl]) simp

text \<open>What a call leaves: rows of before, filtered, and the one it issues.\<close>

lemma sstep_cases:
  "(\<exists>P. sstep e m = filter P m \<and> (\<forall>r \<in> set m. P r \<longrightarrow> ends (fst r) (snd e) \<longrightarrow> fst r = [])) \<or>
   (\<exists>user cred ttl tok P. snd e = EvIssue user cred ttl (Some tok) \<and>
      sstep e m = AList.update tok (issued_session user cred ttl (fst e)) (filter P m))"
proof (cases "(e, m)" rule: sstep.cases)
  case (1 now user cred ttl token m')
  then show ?thesis
  proof (cases token)
    case None
    then show ?thesis using 1 by (intro disjI1 exI [of _ "\<lambda>_. True"]) (simp add: Issue_def)
  next
    case (Some tok)
    then show ?thesis using 1 sessions_room_filter [of now m] by (intro disjI2) (auto simp: Issue_room)
  qed
next
  case (2 now token cred m')
  then have "snd (Lookup token cred now m) = m \<or> snd (Lookup token cred now m) = AList.delete token m"
    by (auto simp: Lookup_def split: option.split)
  then show ?thesis
  proof
    assume "snd (Lookup token cred now m) = m"
    then show ?thesis using 2 by (intro disjI1 exI [of _ "\<lambda>_. True"]) simp
  next
    assume "snd (Lookup token cred now m) = AList.delete token m"
    then show ?thesis using 2 by (intro disjI1 exI [of _ "\<lambda>r. fst r \<noteq> token"]) (simp add: delete_filter)
  qed
next
  case (3 now token m')
  then show ?thesis
    by (intro disjI1 exI [of _ "\<lambda>r. token = [] \<or> fst r \<noteq> token"]) (auto simp: Revoke_def delete_filter)
next
  case (4 now m')
  then show ?thesis by (intro disjI1 exI [of _ "\<lambda>_. False"]) (simp add: RevokeAll_def)
next
  case (5 now m')
  then show ?thesis
    by (intro disjI1 exI [of _ "\<lambda>(tok, sess). now < ExpiresAt sess"])
       (auto simp: Len_def Let_def sessions_sweepLocked_def)
qed

lemma srun_inv:
  "distinct_keys (srun es) \<and> length (srun es) \<le> nat maxSessions \<and>
   (\<forall>r \<in> set (srun es). fst r \<noteq> [] \<longrightarrow> opened_by es (fst r) (snd r))"
proof (induction es rule: rev_induct)
  case (snoc e es)
  show ?case
    using sstep_cases [of e "srun es"]
  proof (elim disjE exE conjE)
    fix P assume P: "sstep e (srun es) = filter P (srun es)"
      "\<forall>r \<in> set (srun es). P r \<longrightarrow> ends (fst r) (snd e) \<longrightarrow> fst r = []"
    then show ?thesis
      using snoc by (auto simp: srun_snoc distinct_keys_filter intro!: opened_by_snoc
        intro: le_trans [OF length_filter_le])
  next
    fix user cred ttl tok P
    assume e: "snd e = EvIssue user cred ttl (Some tok)"
      "sstep e (srun es) = AList.update tok (issued_session user cred ttl (fst e)) (filter P (srun es))"
    have e': "e = (fst e, EvIssue user cred ttl (Some tok))" using e(1) by (metis prod.collapse)
    have "sstep e (srun es) = AList.update tok (issued_session user cred ttl (fst e)) (sessions_room (fst e) (srun es))"
      by (subst e') (simp add: Issue_room)
    then have "distinct_keys (sstep e (srun es)) \<and> length (sstep e (srun es)) \<le> nat maxSessions"
      using session_store.add_ok session_store.add_size snoc by simp
    moreover have "opened_by (es @ [e]) (fst r) (snd r)"
      if r: "r \<in> set (sstep e (srun es))" "fst r \<noteq> []" for r
    proof (cases "fst r = tok")
      case True
      have "distinct_keys (sstep e (srun es))" using calculation by simp
      then have "map_of (sstep e (srun es)) (fst r) = Some (snd r)"
        using r(1) by (simp add: distinct_keys_def)
      then have "snd r = issued_session user cred ttl (fst e)"
        using True by (simp add: e(2) map_of_update)
      then show ?thesis using True opened_by_issue e' by metis
    next
      case False
      then have "r \<in> set (srun es)"
        using r(1) set_update_sub [of tok "issued_session user cred ttl (fst e)" "filter P (srun es)"]
        by (cases r) (auto simp: e(2))
      then show ?thesis using snoc r(2) False e(1) by (auto intro!: opened_by_snoc)
    qed
    ultimately show ?thesis by (auto simp: srun_snoc)
  qed
qed (simp add: srun_def distinct_keys_def)

text \<open>C38: a request is let in only with a token the store issued, for the account that opened the
  session, before the session ran out, and not after a call that ended it: whatever calls were made
  in whatever order, a successful lookup names the sign-in it rests on. At every moment the store
  holds at most 512 sessions.\<close>
theorem session_lookup_authentic:
  assumes "fst (Lookup token cred now (srun es)) = Some sess"
  shows "Credential sess = cred \<and> now < ExpiresAt sess \<and> length (srun es) \<le> 512 \<and>
    (\<exists>es1 es2 ttl. es = es1 @ (IssuedAt sess, EvIssue (User sess) cred ttl (Some token)) # es2 \<and>
       ExpiresAt sess = IssuedAt sess + effective_ttl ttl \<and> list_all (\<lambda>x. \<not> ends token (snd x)) es2)"
proof -
  have look: "token \<noteq> []" "map_of (srun es) token = Some sess" "now < ExpiresAt sess" "Credential sess = cred"
    using assms by (auto simp: Lookup_def split: if_splits option.splits)
  then have "opened_by es token sess" using srun_inv [of es] map_of_SomeD by fastforce
  then show ?thesis using look srun_inv [of es] by (auto simp: opened_by_def list_all_iff maxSessions_def)
qed

definition one_login :: "(int \<times> sevent) list" where
  "one_login = [(1, EvIssue ''ann'' ''c'' 0 (Some ''t1'')), (5, EvLookup ''t1'' ''c'')]"

lemma session_lookup_authentic_witness:
  "fst (Lookup ''t1'' ''c'' 100 (srun one_login)) = Some (issued_session ''ann'' ''c'' 0 1) \<and>
   (\<exists>es1 es2 ttl. one_login = es1 @ (1, EvIssue ''ann'' ''c'' ttl (Some ''t1'')) # es2)"
proof -
  have look: "fst (Lookup ''t1'' ''c'' 100 (srun one_login)) = Some (issued_session ''ann'' ''c'' 0 1)"
    by code_simp
  have "\<exists>es1 es2 ttl. one_login = es1 @ (1, EvIssue ''ann'' ''c'' ttl (Some ''t1'')) # es2"
    using session_lookup_authentic [OF look] by auto
  then show ?thesis using look by simp
qed

section \<open>A session in use survives later sign-ins\<close>

fun signs_in :: "sevent \<Rightarrow> bool" where
  "signs_in (EvIssue _ _ _ (Some _)) \<longleftrightarrow> True"
| "signs_in _ \<longleftrightarrow> False"

text \<open>A call that leaves the session of \<open>tok\<close>, opened with \<open>cred\<close>, alone.\<close>

definition spares :: "bytes \<Rightarrow> bytes \<Rightarrow> sevent \<Rightarrow> bool" where
  "spares tok cred e \<longleftrightarrow> \<not> ends tok e \<and> (case e of EvLookup tok' c \<Rightarrow> tok' = tok \<longrightarrow> c = cred | _ \<Rightarrow> True)"

definition rivals :: "bytes \<Rightarrow> Session \<Rightarrow> session_map \<Rightarrow> nat" where
  "rivals tok sess m = length (filter (\<lambda>r. fst r \<noteq> tok \<and> IssuedAt sess \<le> IssuedAt (snd r)) m)"

definition holds_session :: "bytes \<Rightarrow> Session \<Rightarrow> nat \<Rightarrow> session_map \<Rightarrow> bool" where
  "holds_session tok sess k m \<longleftrightarrow> distinct_keys m \<and> (tok, sess) \<in> set m \<and> rivals tok sess m \<le> k"

lemma rivals_filter: "rivals tok sess (filter P m) \<le> rivals tok sess m"
proof -
  have "filter Q (filter P m) = filter P (filter Q m)" for Q by (simp add: conj_commute)
  then show ?thesis unfolding rivals_def by (metis length_filter_le)
qed

lemma holds_filter: "holds_session tok sess k m \<Longrightarrow> P (tok, sess) \<Longrightarrow> holds_session tok sess k (filter P m)"
  using rivals_filter [of tok sess P m] by (auto simp: holds_session_def distinct_keys_filter)

lemma holds_update: "holds_session tok sess k m \<Longrightarrow> tok' \<noteq> tok \<Longrightarrow>
    holds_session tok sess (Suc k) (AList.update tok' v m)"
  using filter_update_length [of "\<lambda>r. fst r \<noteq> tok \<and> IssuedAt sess \<le> IssuedAt (snd r)" tok' v m]
  by (auto simp: holds_session_def distinct_keys_update rivals_def in_set_update)

lemma holds_room:
  assumes holds: "holds_session tok sess k m" and k: "k < 511" and now: "now < ExpiresAt sess"
  shows "holds_session tok sess k (sessions_room now m)"
proof -
  let ?m = "sessions_sweepLocked now m"
  have m: "holds_session tok sess k ?m"
    unfolding sessions_sweepLocked_def using holds now by (intro holds_filter) simp_all
  have "row_key (tok, sess) < row_key r \<Longrightarrow> fst r \<noteq> tok \<and> IssuedAt sess \<le> IssuedAt (snd r)" if "r \<in> set ?m" for r
  proof -
    assume less: "row_key (tok, sess) < row_key r"
    have "fst r = tok \<Longrightarrow> r = (tok, sess)"
      using m that unfolding holds_session_def distinct_keys_def by (metis distinct_map fst_conv inj_onD)
    then show ?thesis using less by (cases r) (auto simp: row_key_def less_prod_def')
  qed
  then have "length (filter (\<lambda>r. row_key (tok, sess) < row_key r) ?m) \<le> rivals tok sess ?m"
    unfolding rivals_def by (intro length_filter_mono) simp
  then have "(tok, sess) \<in> set (evictOldestLocked (int 511) ?m)"
    using m k by (intro evict_keeps) (auto simp: holds_session_def)
  moreover obtain P where "evictOldestLocked (int 511) ?m = filter P ?m" using evict_filter by blast
  ultimately show ?thesis
    using holds_filter [OF m, of P] by (simp add: sessions_room_def maxSessions_def)
qed

lemma sstep_holds:
  assumes "holds_session tok sess k m" "tok \<noteq> []" "spares tok (Credential sess) (snd e)" "fst e < ExpiresAt sess"
    and "signs_in (snd e) \<Longrightarrow> k < 511"
  shows "holds_session tok sess (k + (if signs_in (snd e) then 1 else 0)) (sstep e m)"
proof (cases "(e, m)" rule: sstep.cases)
  case (1 now user cred ttl token m')
  show ?thesis
  proof (cases token)
    case (Some tok')
    then show ?thesis
      using assms 1 holds_update [OF holds_room, of tok sess k m "fst e" tok'] by (simp add: Issue_room spares_def)
  qed (use assms 1 in \<open>simp add: Issue_def\<close>)
next
  case (2 now token cred m')
  have "map_of m tok = Some sess" using assms(1) by (simp add: holds_session_def distinct_keys_def)
  then have "snd (Lookup token cred now m) = m \<or>
      token \<noteq> tok \<and> snd (Lookup token cred now m) = filter (\<lambda>r. fst r \<noteq> token) m"
    using assms 2 by (auto simp: Lookup_def delete_filter spares_def split: option.split)
  then show ?thesis using assms(1) 2 by (auto intro!: holds_filter)
next
  case (3 now token m')
  then show ?thesis using assms by (auto simp: Revoke_def delete_filter spares_def intro!: holds_filter)
next
  case (4 now m')
  then show ?thesis using assms by (simp add: spares_def)
next
  case (5 now m')
  then show ?thesis using assms by (auto simp: Len_def Let_def sessions_sweepLocked_def intro!: holds_filter)
qed

lemma srun_times: "r \<in> set (srun es) \<Longrightarrow> IssuedAt (snd r) \<in> fst ` set es"
proof (induction es arbitrary: r rule: rev_induct)
  case (snoc e es)
  show ?case
    using sstep_cases [of e "srun es"]
  proof (elim disjE exE conjE)
    fix P assume "sstep e (srun es) = filter P (srun es)"
    then have "r \<in> set (srun es)" using snoc.prems by (simp add: srun_snoc)
    then show ?thesis using snoc.IH [of r] by simp
  next
    fix user cred ttl tok P
    assume "sstep e (srun es) = AList.update tok (issued_session user cred ttl (fst e)) (filter P (srun es))"
    then have "r = (tok, issued_session user cred ttl (fst e)) \<or> r \<in> set (srun es)"
      using snoc.prems set_update_sub [of tok "issued_session user cred ttl (fst e)" "filter P (srun es)"]
      by (auto simp: srun_snoc)
    then show ?thesis using snoc.IH [of r] by auto
  qed
qed (simp add: srun_def)

text \<open>Signing in does not sign anybody else out for long: while the clock moves forward, a session
  stays good, for its own account, until it runs out, is ended, is asked for with another
  credential, or 512 later sign-ins have pushed it out of the table. It is the sign-ins after it that
  count, not the sessions used after it: the eviction goes by the instant of issue.\<close>
theorem session_survives:
  assumes clock: "sorted_wrt (<) (map fst (es1 @ (t0, EvIssue user cred ttl (Some tok)) # es2))"
    and spared: "list_all (\<lambda>x. spares tok cred (snd x) \<and> fst x < t0 + effective_ttl ttl) es2"
    and few: "length (filter (\<lambda>x. signs_in (snd x)) es2) < 512"
    and tok: "tok \<noteq> []" and now: "now < t0 + effective_ttl ttl"
  shows "fst (Lookup tok cred now (srun (es1 @ (t0, EvIssue user cred ttl (Some tok)) # es2))) =
    Some (issued_session user cred ttl t0)"
proof -
  let ?sess = "issued_session user cred ttl t0"
  let ?m = "srun (es1 @ [(t0, EvIssue user cred ttl (Some tok))])"
  have m: "?m = AList.update tok ?sess (sessions_room t0 (srun es1))" by (simp add: srun_snoc Issue_room)
  have "IssuedAt (snd r) < t0" if "r \<in> set (sessions_room t0 (srun es1))" for r
  proof -
    have "r \<in> set (srun es1)" using that sessions_room_filter [of t0 "srun es1"] by auto
    then show ?thesis using srun_times [of r es1] clock by (auto simp: sorted_wrt_append)
  qed
  moreover have "r = (tok, ?sess) \<or> IssuedAt (snd r) < t0" if "r \<in> set ?m" for r
    using that set_update_sub [of tok ?sess "sessions_room t0 (srun es1)"] calculation [of r] unfolding m by blast
  ultimately have "rivals tok ?sess ?m = 0" by (fastforce simp: rivals_def filter_empty_conv)
  moreover have "(tok, ?sess) \<in> set ?m"
    by (simp add: m in_set_update_same)
  ultimately have start: "holds_session tok ?sess 0 ?m"
    using srun_inv [of "es1 @ [(t0, EvIssue user cred ttl (Some tok))]"] by (simp add: holds_session_def)
  have "holds_session tok ?sess (length (filter (\<lambda>x. signs_in (snd x)) es2)) (fold sstep es2 ?m)"
    using spared few
  proof (induction es2 rule: rev_induct)
    case (snoc e es2)
    then show ?case
      using sstep_holds [of tok ?sess "length (filter (\<lambda>x. signs_in (snd x)) es2)" "fold sstep es2 ?m" e] tok
      by (auto split: if_splits)
  qed (simp add: start)
  moreover have "fold sstep es2 ?m = srun (es1 @ (t0, EvIssue user cred ttl (Some tok)) # es2)"
    by (simp add: srun_def)
  ultimately have "map_of (srun (es1 @ (t0, EvIssue user cred ttl (Some tok)) # es2)) tok = Some ?sess"
    by (simp add: holds_session_def distinct_keys_def)
  then show ?thesis using tok now by (simp add: Lookup_def)
qed

lemma session_survives_witness:
  "fst (Lookup ''t1'' ''c'' 9 (srun ([] @ (1, EvIssue ''ann'' ''c'' 0 (Some ''t1'')) #
      [(2, EvIssue ''bob'' ''d'' 60 (Some ''t2'')), (3, EvLookup ''t1'' ''c''), (4, EvRevoke ''t2'')]))) =
   Some (issued_session ''ann'' ''c'' 0 1)"
  by (rule session_survives)
     (simp_all add: spares_def effective_ttl_def DefaultSessionTTL_def)

section \<open>The throttle\<close>

definition throttle_room :: "int \<times> Throttle \<Rightarrow> (bytes \<times> throttleEntry) list \<Rightarrow> (bytes \<times> throttleEntry) list" where
  "throttle_room x es = entries (throttle_sweepLocked (fst x) ((snd x)\<lparr> entries := es \<rparr>))"

lemma throttle_window_update [simp]: "throttle_window (t\<lparr> entries := es \<rparr>) = throttle_window t"
  by (simp add: throttle_window_def)

lemma throttle_room_filter: "\<exists>P. throttle_room x es = filter P es"
  by (auto simp: throttle_room_def throttle_sweepLocked_def Let_def intro: exI [of _ "\<lambda>_. False"])

interpretation throttle_table: capped_store length map_of throttle_room AList.update distinct_keys maxThrottleEntries
proof unfold_locales
  fix m :: "(bytes \<times> throttleEntry) list" and t k v k'
  assume m: "distinct_keys m"
  then show "distinct_keys (throttle_room t m)" using throttle_room_filter [of t m] distinct_keys_filter by metis
  show "length (throttle_room t m) < maxThrottleEntries"
    by (simp add: throttle_room_def throttle_sweepLocked_def Let_def maxThrottleEntries_def)
  show "map_of (throttle_room t m) k = Some v \<Longrightarrow> map_of m k = Some v"
    using throttle_room_filter [of t m] map_of_filter_sub [OF m] by metis
qed (simp_all add: distinct_keys_update update_length map_of_update)

lemma throttle_settings [simp]:
  "throttle_base (t\<lparr> entries := es \<rparr>) = throttle_base t"
  "throttle_max (t\<lparr> entries := es \<rparr>) = throttle_max t"
  "delayForLocked (t\<lparr> entries := es \<rparr>) n = delayForLocked t n"
  by (simp_all add: throttle_base_def throttle_max_def delayForLocked_def)

text \<open>The wait doubles from the base up to the cap.\<close>

lemma double_delay_min:
  "0 < d \<Longrightarrow> 0 < mx \<Longrightarrow> mx < 2 ^ 62 \<Longrightarrow> d < 2 ^ 62 \<Longrightarrow> double_delay k mx d = min (d * 2 ^ k) mx"
proof (induction k arbitrary: d)
  case (Suc k)
  have w: "wrap64 (d * 2) = d * 2" using Suc.prems by (intro wrap64_id) (simp add: in_int64_def)
  show ?case
  proof (cases "mx \<le> d * 2")
    case True
    have "d * 2 * 1 \<le> d * 2 * 2 ^ k" using Suc.prems by (intro mult_left_mono) simp_all
    then show ?thesis using True by (simp add: w Let_def min_def mult.assoc)
  next
    case False
    then show ?thesis using Suc by (simp add: w Let_def mult.assoc)
  qed
qed (simp add: min_def)

definition sane_throttle :: "Throttle \<Rightarrow> bool" where
  "sane_throttle t \<longleftrightarrow> Base t < 2 ^ 62 \<and> Max t < 2 ^ 62"

lemma throttle_values: "sane_throttle t \<Longrightarrow>
    0 < throttle_base t \<and> throttle_base t < 2 ^ 62 \<and> 0 < throttle_max t \<and> throttle_max t < 2 ^ 62"
  by (simp add: sane_throttle_def throttle_base_def throttle_max_def DefaultThrottleBase_def DefaultThrottleMax_def)

lemma delay_formula: "sane_throttle t \<Longrightarrow> delayForLocked t n =
    (if n \<le> 1 then 0 else min (throttle_base t * 2 ^ nat (n - 2)) (throttle_max t))"
  using throttle_values [of t] by (simp add: delayForLocked_def double_delay_min)

text \<open>One attempt counted, on the normalized address.\<close>

definition counted :: "net_lib \<Rightarrow> bytes \<Rightarrow> bool" where
  "counted N addr \<longleftrightarrow> NormalizeAddr N addr \<noteq> [] \<and> \<not> IsLoopbackAddr N (NormalizeAddr N addr)"

definition prun :: "net_lib \<Rightarrow> (int \<times> bytes) list \<Rightarrow> Throttle \<Rightarrow> Throttle" where
  "prun N xs t = fold (\<lambda>(now, addr) t. snd (Penalize N addr now t)) xs t"

lemma Penalize_counted: "counted N addr \<Longrightarrow> Penalize N addr now t =
    (let es = throttle_room (now, t) (entries t); host = NormalizeAddr N addr;
         n = (case map_of es host of None \<Rightarrow> 0
              | Some ent \<Rightarrow> if now - last_seen ent > throttle_window t then 0 else failures ent) + 1
     in (delayForLocked t n, t\<lparr> entries := AList.update host \<lparr> failures = n, last_seen = now \<rparr> es \<rparr>))"
  by (auto simp: counted_def Penalize_def throttle_room_def Let_def throttle_sweepLocked_def
      delayForLocked_def throttle_max_def throttle_base_def throttle_window_def cong: option.case_cong)

lemma Penalize_settings:
  "Base (snd (Penalize N addr now t)) = Base t" "Max (snd (Penalize N addr now t)) = Max t"
  "Window (snd (Penalize N addr now t)) = Window t"
  by (simp_all add: Penalize_def throttle_sweepLocked_def Let_def)

definition attempts_of :: "net_lib \<Rightarrow> bytes \<Rightarrow> (int \<times> bytes) list \<Rightarrow> nat" where
  "attempts_of N host xs = length (filter (\<lambda>x. counted N (snd x) \<and> NormalizeAddr N (snd x) = host) xs)"

definition recent :: "int \<Rightarrow> Throttle \<Rightarrow> (int \<times> bytes) list \<Rightarrow> bool" where
  "recent s t xs \<longleftrightarrow> (\<forall>x \<in> set xs. s \<le> fst x \<and> fst x \<le> s + throttle_window t)"

text \<open>The table counts every attempt, and no entry of it is stale.\<close>

definition counts :: "net_lib \<Rightarrow> int \<Rightarrow> (int \<times> bytes) list \<Rightarrow> Throttle \<Rightarrow> bool" where
  "counts N s xs t \<longleftrightarrow> distinct_keys (entries t) \<and>
     fst ` set (entries t) \<subseteq> (\<lambda>x. NormalizeAddr N (snd x)) ` set xs \<and>
     (\<forall>r \<in> set (entries t). s \<le> last_seen (snd r) \<and> last_seen (snd r) \<le> s + throttle_window t) \<and>
     (\<forall>host. case map_of (entries t) host of None \<Rightarrow> attempts_of N host xs = 0
        | Some ent \<Rightarrow> failures ent = int (attempts_of N host xs))"

lemma countsD:
  assumes "counts N s xs t"
  shows "map_of (entries t) host = None \<Longrightarrow> attempts_of N host xs = 0"
    and "map_of (entries t) host = Some ent \<Longrightarrow> failures ent = int (attempts_of N host xs)"
    and "map_of (entries t) host = Some ent \<Longrightarrow> s \<le> last_seen ent"
proof -
  have "case map_of (entries t) host of None \<Rightarrow> attempts_of N host xs = 0
      | Some ent \<Rightarrow> failures ent = int (attempts_of N host xs)"
    using assms unfolding counts_def by blast
  then show "map_of (entries t) host = None \<Longrightarrow> attempts_of N host xs = 0"
    "map_of (entries t) host = Some ent \<Longrightarrow> failures ent = int (attempts_of N host xs)" by simp_all
  have "\<forall>r \<in> set (entries t). s \<le> last_seen (snd r)" using assms unfolding counts_def by blast
  then show "map_of (entries t) host = Some ent \<Longrightarrow> s \<le> last_seen ent"
    using map_of_SomeD [of "entries t" host ent] by fastforce
qed

lemma counts_room:
  assumes c: "counts N s xs t" and now: "s \<le> now" "now \<le> s + throttle_window t"
    and few: "card ((\<lambda>x. NormalizeAddr N (snd x)) ` set xs) < maxThrottleEntries"
  shows "throttle_room (now, t) (entries t) = entries t"
proof -
  have fresh: "filter (\<lambda>(host, ent). \<not> now - last_seen ent > throttle_window t) (entries t) = entries t"
    using c now by (fastforce simp: counts_def filter_id_conv)
  have "length (entries t) = card (fst ` set (entries t))"
    using c distinct_card [of "map fst (entries t)"] by (simp add: counts_def distinct_keys_def)
  also have "\<dots> \<le> card ((\<lambda>x. NormalizeAddr N (snd x)) ` set xs)"
    using c by (intro card_mono) (simp_all add: counts_def)
  finally show ?thesis
    using few fresh by (simp add: throttle_room_def throttle_sweepLocked_def Let_def)
qed

lemma counts_find:
  assumes "counts N s xs t" "now \<le> s + throttle_window t"
  shows "(case map_of (entries t) host of None \<Rightarrow> 0
      | Some ent \<Rightarrow> if now - last_seen ent > throttle_window t then 0 else failures ent) =
    int (attempts_of N host xs)"
  using countsD [OF assms(1), of host] assms(2) by (cases "map_of (entries t) host") fastforce+

lemma counts_step:
  assumes c: "counts N s xs t" and now: "s \<le> now" "now \<le> s + throttle_window t"
    and few: "card ((\<lambda>x. NormalizeAddr N (snd x)) ` set xs) < maxThrottleEntries"
  shows "counts N s (xs @ [(now, addr)]) (snd (Penalize N addr now t))"
    and "counted N addr \<Longrightarrow>
      fst (Penalize N addr now t) = delayForLocked t (int (attempts_of N (NormalizeAddr N addr) xs) + 1)"
proof -
  note find = counts_find [OF c now(2)] and room = counts_room [OF c now few]
  show "counts N s (xs @ [(now, addr)]) (snd (Penalize N addr now t))"
  proof (cases "counted N addr")
    case True
    let ?h = "NormalizeAddr N addr" and ?e = "\<lparr> failures = int (attempts_of N (NormalizeAddr N addr) xs) + 1, last_seen = now \<rparr>"
    have P: "snd (Penalize N addr now t) = t\<lparr> entries := AList.update ?h ?e (entries t) \<rparr>"
      using True by (simp add: Penalize_counted room find Let_def)
    show ?thesis
      unfolding P counts_def
    proof (intro conjI)
      show "distinct_keys (entries (t\<lparr> entries := AList.update ?h ?e (entries t) \<rparr>))"
        using c by (simp add: counts_def distinct_keys_update)
      show "fst ` set (entries (t\<lparr> entries := AList.update ?h ?e (entries t) \<rparr>)) \<subseteq>
          (\<lambda>x. NormalizeAddr N (snd x)) ` set (xs @ [(now, addr)])"
        using c by (auto simp: counts_def AList.dom_update)
      show "\<forall>r \<in> set (entries (t\<lparr> entries := AList.update ?h ?e (entries t) \<rparr>)).
          s \<le> last_seen (snd r) \<and> last_seen (snd r) \<le> s + throttle_window (t\<lparr> entries := AList.update ?h ?e (entries t) \<rparr>)"
        using c now set_update_sub [of ?h ?e "entries t"] by (auto simp: counts_def dest!: subsetD)
      have "attempts_of N host (xs @ [(now, addr)]) =
          (if host = ?h then Suc (attempts_of N host xs) else attempts_of N host xs)" for host
        using True by (simp add: attempts_of_def)
      then show "\<forall>host. case map_of (entries (t\<lparr> entries := AList.update ?h ?e (entries t) \<rparr>)) host of
          None \<Rightarrow> attempts_of N host (xs @ [(now, addr)]) = 0
        | Some ent \<Rightarrow> failures ent = int (attempts_of N host (xs @ [(now, addr)]))"
        using countsD(1,2) [OF c] by (simp add: map_of_update split: option.split)
    qed
  next
    case False
    then have "snd (Penalize N addr now t) = t" by (auto simp: Penalize_def counted_def Let_def)
    moreover have "attempts_of N host (xs @ [(now, addr)]) = attempts_of N host xs" for host
      using False by (simp add: attempts_of_def)
    ultimately show ?thesis using c by (auto simp: counts_def cong: option.case_cong)
  qed
  show "counted N addr \<Longrightarrow>
      fst (Penalize N addr now t) = delayForLocked t (int (attempts_of N (NormalizeAddr N addr) xs) + 1)"
    by (simp add: Penalize_counted room find Let_def)
qed

lemma prun_settings:
  "throttle_base (prun N xs t) = throttle_base t" "throttle_max (prun N xs t) = throttle_max t"
  "throttle_window (prun N xs t) = throttle_window t" "delayForLocked (prun N xs t) n = delayForLocked t n"
proof -
  have "Base (prun N xs t) = Base t \<and> Max (prun N xs t) = Max t \<and> Window (prun N xs t) = Window t"
    by (induction xs arbitrary: t) (auto simp: prun_def Penalize_settings)
  then show "throttle_base (prun N xs t) = throttle_base t" "throttle_max (prun N xs t) = throttle_max t"
    "throttle_window (prun N xs t) = throttle_window t" "delayForLocked (prun N xs t) n = delayForLocked t n"
    by (simp_all add: throttle_base_def throttle_max_def throttle_window_def delayForLocked_def)
qed

lemma prun_counts:
  assumes "entries t = []" "recent s t xs"
    and "card ((\<lambda>x. NormalizeAddr N (snd x)) ` set xs) < maxThrottleEntries"
  shows "counts N s xs (prun N xs t)"
  using assms
proof (induction xs rule: rev_induct)
  case Nil
  then show ?case by (simp add: counts_def prun_def distinct_keys_def attempts_of_def)
next
  case (snoc x xs)
  have "card ((\<lambda>x. NormalizeAddr N (snd x)) ` set xs) \<le> card ((\<lambda>x. NormalizeAddr N (snd x)) ` set (xs @ [x]))"
    by (intro card_mono) auto
  then have few: "card ((\<lambda>x. NormalizeAddr N (snd x)) ` set xs) < maxThrottleEntries"
    using snoc.prems(3) by linarith
  then have "counts N s xs (prun N xs t)" using snoc by (simp add: recent_def)
  moreover have "prun N (xs @ [x]) t = snd (Penalize N (snd x) (fst x) (prun N xs t))"
    by (simp add: prun_def case_prod_beta)
  ultimately show ?case
    using counts_step(1) [of N s xs "prun N xs t" "fst x" "snd x"] few snoc.prems(2)
    by (simp add: recent_def prun_settings)
qed

text \<open>guessing is slow from every address: within one window of quiet, and as long as fewer than
  4096 addresses try at all, the wait of the next attempt of an address is nothing for its first
  attempt, the base for its second, and doubles with every further one up to the cap, whatever the
  others do in between and however many of the attempts arrive at the same instant.\<close>
theorem throttle_doubles:
  assumes "sane_throttle t" "entries t = []" "recent s t (xs @ [(now, addr)])" "counted N addr"
    and "card ((\<lambda>x. NormalizeAddr N (snd x)) ` set xs) < 4096"
  shows "fst (Penalize N addr now (prun N xs t)) =
    (case attempts_of N (NormalizeAddr N addr) xs of 0 \<Rightarrow> 0
     | Suc k \<Rightarrow> min (throttle_base t * 2 ^ k) (throttle_max t))"
proof -
  have few: "card ((\<lambda>x. NormalizeAddr N (snd x)) ` set xs) < maxThrottleEntries"
    using assms(5) by (simp add: maxThrottleEntries_def)
  have "counts N s xs (prun N xs t)" using assms few by (intro prun_counts) (auto simp: recent_def)
  then have "fst (Penalize N addr now (prun N xs t)) =
      delayForLocked t (int (attempts_of N (NormalizeAddr N addr) xs) + 1)"
    using counts_step(2) [of N s xs "prun N xs t" now addr] assms few by (simp add: recent_def prun_settings)
  then show ?thesis using assms(1) by (simp add: delay_formula split: nat.split)
qed

text \<open>Plain host names, none of them a literal address.\<close>

definition name_net :: net_lib where
  "name_net = \<lparr> SplitHostPort = (\<lambda>_. None), ParseAddr = (\<lambda>_. None) \<rparr>"

definition default_throttle :: Throttle where
  "default_throttle = \<lparr> Base = 0, Max = 0, Window = 0, entries = [] \<rparr>"

lemma throttle_doubles_witness:
  "fst (Penalize name_net ''h1'' 9 (prun name_net [(1, ''h1''), (2, ''h2''), (2, ''h1''), (3, ''h1'')] default_throttle)) =
   1000000000"
proof -
  have "fst (Penalize name_net ''h1'' 9 (prun name_net [(1, ''h1''), (2, ''h2''), (2, ''h1''), (3, ''h1'')] default_throttle)) =
    (case attempts_of name_net (NormalizeAddr name_net ''h1'') [(1, ''h1''), (2, ''h2''), (2, ''h1''), (3, ''h1'')] of 0 \<Rightarrow> 0
     | Suc k \<Rightarrow> min (throttle_base default_throttle * 2 ^ k) (throttle_max default_throttle))"
  proof (rule throttle_doubles [where s = 0])
    show "sane_throttle default_throttle" "entries default_throttle = []"
      by (simp_all add: sane_throttle_def default_throttle_def)
    show "recent 0 default_throttle ([(1, ''h1''), (2, ''h2''), (2, ''h1''), (3, ''h1'')] @ [(9, ''h1'')])"
      by (simp add: recent_def default_throttle_def throttle_window_def DefaultThrottleWindow_def)
    show "counted name_net ''h1''" by code_simp
    have "card ((\<lambda>x. NormalizeAddr name_net (snd x)) ` set xs) \<le> length xs" for xs :: "(int \<times> bytes) list"
      by (metis card_length length_map list.set_map)
    from this [of "[(1, ''h1''), (2, ''h2''), (2, ''h1''), (3, ''h1'')]"]
    show "card ((\<lambda>x. NormalizeAddr name_net (snd x)) ` set [(1::int, ''h1''), (2, ''h2''), (2, ''h1''), (3, ''h1'')]) < 4096"
      by (rule le_less_trans) simp
  qed
  also have "\<dots> = 1000000000" by code_simp
  finally show ?thesis .
qed

text \<open>An attempt, or the correct password that clears an address.\<close>

datatype tevent = Attempt int bytes | Cleared bytes

fun tstep :: "net_lib \<Rightarrow> tevent \<Rightarrow> Throttle \<Rightarrow> Throttle" where
  "tstep N (Attempt now addr) t = snd (Penalize N addr now t)"
| "tstep N (Cleared addr) t = throttle_Reset N addr t"

definition trun :: "net_lib \<Rightarrow> tevent list \<Rightarrow> Throttle \<Rightarrow> Throttle" where
  "trun N es t = fold (tstep N) es t"

definition throttle_ok :: "Throttle \<Rightarrow> bool" where
  "throttle_ok t \<longleftrightarrow> sane_throttle t \<and> distinct_keys (entries t) \<and> length (entries t) \<le> maxThrottleEntries"

lemma tstep_ok: "throttle_ok t \<Longrightarrow> throttle_ok (tstep N e t)"
proof (cases e)
  case (Attempt now addr)
  assume ok: "throttle_ok t"
  show ?thesis
  proof (cases "counted N addr")
    case True
    then show ?thesis
      using ok throttle_table.add_ok throttle_table.add_size
      by (simp add: Attempt Penalize_counted Let_def throttle_ok_def sane_throttle_def)
  next
    case False
    then have "snd (Penalize N addr now t) = t" by (auto simp: Penalize_def counted_def Let_def)
    then show ?thesis using ok Attempt by simp
  qed
next
  case (Cleared addr)
  assume "throttle_ok t"
  then show ?thesis
    using Cleared le_trans [OF length_filter_le]
    by (auto simp: throttle_Reset_def Let_def throttle_ok_def sane_throttle_def delete_filter distinct_keys_filter)
qed

lemma trun_ok: "throttle_ok t \<Longrightarrow> throttle_ok (trun N es t)"
  by (induction es arbitrary: t) (auto simp: trun_def tstep_ok)

text \<open>Whatever was attempted and cleared before, a wait is never negative and never above the cap,
  the table holds at most 4096 addresses, this machine itself never waits and leaves no trace, and
  the attempt after a correct password from the same address does not wait.\<close>
theorem throttle_bounds:
  assumes "sane_throttle t" "entries t = []"
  shows "0 \<le> fst (Penalize N addr now (trun N es t)) \<and>
    fst (Penalize N addr now (trun N es t)) \<le> throttle_max (trun N es t) \<and>
    length (entries (trun N es t)) \<le> 4096 \<and>
    (IsLoopbackAddr N (NormalizeAddr N addr) \<longrightarrow> Penalize N addr now (trun N es t) = (0, trun N es t)) \<and>
    fst (Penalize N addr now (throttle_Reset N addr (trun N es t))) = 0"
proof -
  let ?t = "trun N es t"
  have ok: "throttle_ok ?t"
    using assms by (intro trun_ok) (simp add: throttle_ok_def distinct_keys_def)
  then have "sane_throttle ?t" by (simp add: throttle_ok_def)
  then have delay: "0 \<le> delayForLocked ?t n \<and> delayForLocked ?t n \<le> throttle_max ?t" for n
    using throttle_values [of ?t] by (simp add: delay_formula)
  then have "0 \<le> fst (Penalize N addr now ?t) \<and> fst (Penalize N addr now ?t) \<le> throttle_max ?t"
    using throttle_values [OF \<open>sane_throttle ?t\<close>]
    by (cases "counted N addr") (auto simp: Penalize_counted Let_def, auto simp: Penalize_def counted_def Let_def)
  moreover have "fst (Penalize N addr now (throttle_Reset N addr ?t)) = 0"
  proof (cases "counted N addr")
    case True
    then have r: "throttle_Reset N addr ?t = ?t\<lparr> entries := AList.delete (NormalizeAddr N addr) (entries ?t) \<rparr>"
      by (simp add: throttle_Reset_def counted_def Let_def)
    have "map_of (throttle_room x (AList.delete (NormalizeAddr N addr) (entries ?t))) (NormalizeAddr N addr) = None" for x
      using throttle_room_filter [of x "AList.delete (NormalizeAddr N addr) (entries ?t)"]
      by (auto simp: map_of_eq_None_iff delete_filter)
    then show ?thesis using True by (simp add: r Penalize_counted Let_def delayForLocked_def)
  qed (auto simp: Penalize_def counted_def Let_def throttle_Reset_def)
  ultimately show ?thesis using ok by (auto simp: throttle_ok_def maxThrottleEntries_def Penalize_def Let_def)
qed

lemma throttle_bounds_witness:
  "fst (Penalize name_net ''h1'' 9 (throttle_Reset name_net ''h1''
     (trun name_net [Attempt 1 ''h1'', Attempt 2 ''h1'', Cleared ''h2''] default_throttle))) = 0"
  using throttle_bounds [of default_throttle name_net "''h1''" 9 "[Attempt 1 ''h1'', Attempt 2 ''h1'', Cleared ''h2'']"]
  by (simp add: sane_throttle_def default_throttle_def)

text \<open>A header the client wrote is believed behind a proxy that keeps what it was sent.\<close>

lemma forwarded_loopback_is_exempt:
  assumes "NormalizeAddr N ''127.0.0.1'' = ''127.0.0.1''" "IsLoopbackAddr N ''127.0.0.1''"
  shows "Penalize N (ClientAddr N ''127.0.0.1'' ''127.0.0.1, 203.0.113.5'' []) now t = (0, t)"
proof -
  have "trim_space (hd (split_on (CHR '','') ''127.0.0.1, 203.0.113.5'')) = ''127.0.0.1''" by code_simp
  then show ?thesis using assms by (simp add: ClientAddr_def Penalize_def Let_def)
qed

end
