(* ===== verification/LoopGuard.thy ===== *)
theory LoopGuard
  imports GoPrelude
begin

text \<open>
  The runaway-loop detectors of a turn (\<^verbatim>\<open>internal/agent/loopguard.go\<close>): a streamed channel that
  repeats the same passage, and a model that repeats the same tool call. Indexes are Go ints; a
  slice outside its operand is \<open>None\<close>, the panic of the code.
\<close>

definition streamRepeatWindow :: nat where "streamRepeatWindow = 4096"
definition streamRepeatCheckEvery :: int where "streamRepeatCheckEvery = 128"
definition streamRepeatMinPeriod :: int where "streamRepeatMinPeriod = 12"
definition streamRepeatMaxPeriod :: int where "streamRepeatMaxPeriod = 512"
definition streamRepeatMinDistinctRunes :: nat where "streamRepeatMinDistinctRunes = 4"

definition loopGuardTruncationMarker :: bytes where
  "loopGuardTruncationMarker = [CHR 0x0A, CHR 0x0A] @
     ''[output truncated by the loop guard: the model repeated the same passage]''"

section \<open>Normalized text\<close>

definition between :: "nat \<Rightarrow> nat \<Rightarrow> char \<Rightarrow> bool" where
  "between lo hi c \<longleftrightarrow> lo \<le> of_char c \<and> of_char c \<le> hi"

definition is_blank :: "char \<Rightarrow> bool" where
  "is_blank c \<longleftrightarrow> c \<in> {CHR '' '', CHR 0x09, CHR 0x0A, CHR 0x0D, CHR 0x0B, CHR 0x0C}"

definition lower_ascii :: "char \<Rightarrow> char" where
  "lower_ascii c = (if between 0x41 0x5A c then char_of ((of_char c :: nat) + 32) else c)"

text \<open>The normalized bytes, each with the index of the byte it came from; \<open>i\<close> is the index of the first.\<close>

fun normalize_from :: "nat \<Rightarrow> bool \<Rightarrow> bytes \<Rightarrow> (char \<times> nat) list" where
  "normalize_from i lastWasSpace [] = []"
| "normalize_from i lastWasSpace (c # s) =
     (if is_blank c then
        (if lastWasSpace then normalize_from (Suc i) True s
         else (CHR '' '', i) # normalize_from (Suc i) True s)
      else (lower_ascii c, i) # normalize_from (Suc i) False s)"

definition normalizeForRepeat :: "bytes \<Rightarrow> bytes \<times> nat list" where
  "normalizeForRepeat s = (map fst (normalize_from 0 False s), map snd (normalize_from 0 False s))"

section \<open>Runes\<close>

text \<open>
  The decoding of \<^verbatim>\<open>for _, r := range string(b)\<close>: the bounds of the second byte by the first, and
  the replacement rune, one byte wide, for what is not UTF-8.
\<close>

definition rune_error :: nat where "rune_error = 0xFFFD"

definition second_bounds :: "nat \<Rightarrow> nat \<times> nat" where
  "second_bounds b =
     (if b = 0xE0 then (0xA0, 0xBF) else if b = 0xED then (0x80, 0x9F)
      else if b = 0xF0 then (0x90, 0xBF) else if b = 0xF4 then (0x80, 0x8F) else (0x80, 0xBF))"

definition rune_width :: "nat \<Rightarrow> nat" where
  "rune_width b = (if 0xC2 \<le> b \<and> b \<le> 0xDF then 2 else if 0xE0 \<le> b \<and> b \<le> 0xEF then 3
     else if 0xF0 \<le> b \<and> b \<le> 0xF4 then 4 else 1)"

definition cont :: "char \<Rightarrow> nat" where "cont c = of_char c mod 64"

fun decode_rune :: "bytes \<Rightarrow> nat \<times> nat" where
  "decode_rune [] = (rune_error, 0)"
| "decode_rune (c0 # s) =
     (let b = of_char c0; w = rune_width b in
      if b < 0x80 then (b, 1)
      else if w = 1 then (rune_error, 1)
      else (case s of
              [] \<Rightarrow> (rune_error, 1)
            | c1 # s1 \<Rightarrow>
                if \<not> between (fst (second_bounds b)) (snd (second_bounds b)) c1 then (rune_error, 1)
                else if w = 2 then ((b mod 32) * 64 + cont c1, 2)
                else (case s1 of
                        [] \<Rightarrow> (rune_error, 1)
                      | c2 # s2 \<Rightarrow>
                          if \<not> between 0x80 0xBF c2 then (rune_error, 1)
                          else if w = 3 then ((b mod 16) * 4096 + cont c1 * 64 + cont c2, 3)
                          else (case s2 of
                                  [] \<Rightarrow> (rune_error, 1)
                                | c3 # s3 \<Rightarrow>
                                    if \<not> between 0x80 0xBF c3 then (rune_error, 1)
                                    else ((b mod 8) * 262144 + cont c1 * 4096 + cont c2 * 64 + cont c3, 4)))))"

function runes :: "bytes \<Rightarrow> nat list" where
  "runes [] = []"
| "runes (c # s) = fst (decode_rune (c # s)) # runes (drop (snd (decode_rune (c # s)) - 1) s)"
  by pat_completeness auto
termination by (relation "measure length") (auto simp: less_Suc_eq_le)

text \<open>The encoding of a valid rune, as a conversion from a rune to a string writes it.\<close>

definition encode_rune :: "nat \<Rightarrow> bytes" where
  "encode_rune r =
     map (char_of :: nat \<Rightarrow> char)
       (if r < 0x80 then [r]
        else if r < 0x800 then [0xC0 + r div 64, 0x80 + r mod 64]
        else if r < 0x10000 then [0xE0 + r div 4096, 0x80 + r div 64 mod 64, 0x80 + r mod 64]
        else [0xF0 + r div 262144, 0x80 + r div 4096 mod 64, 0x80 + r div 64 mod 64, 0x80 + r mod 64])"

definition distinctRunes :: "bytes \<Rightarrow> nat" where
  "distinctRunes b = length (remdups (runes b))"

section \<open>The periodic tail\<close>

definition slc :: "bytes \<Rightarrow> int \<Rightarrow> int \<Rightarrow> bytes option" where
  "slc xs a b =
     (if 0 \<le> a \<and> a \<le> b \<and> b \<le> int (length xs) then Some (take (nat (b - a)) (drop (nat a) xs)) else None)"

text \<open>The blocks \<open>k\<close> to \<open>minCycles - 1\<close> before the tail.\<close>

function blocks_match :: "bytes \<Rightarrow> bytes \<Rightarrow> int \<Rightarrow> int \<Rightarrow> int \<Rightarrow> bool option" where
  "blocks_match norm unit p minCycles k =
     (if k < minCycles then
        (case slc norm (int (length norm) - (k + 1) * p) (int (length norm) - k * p) of
           None \<Rightarrow> None
         | Some block \<Rightarrow> if unit \<noteq> block then Some False else blocks_match norm unit p minCycles (k + 1))
      else Some True)"
  by pat_completeness auto
termination by (relation "measure (\<lambda>(norm, unit, p, minCycles, k). nat (minCycles - k))") auto

declare blocks_match.simps [simp del]

text \<open>The outer loop from \<open>p\<close>; \<^verbatim>\<open>p*minCycles\<close> wraps at 64 bits.\<close>

function period_loop :: "bytes \<Rightarrow> int \<Rightarrow> int \<Rightarrow> (int \<times> bool) option" where
  "period_loop norm minCycles p =
     (let n = int (length norm) in
      if p \<le> streamRepeatMaxPeriod then
        (if wrap64 (p * minCycles) > n then Some (0, False)
         else (case slc norm (n - p) n of
                 None \<Rightarrow> None
               | Some unit \<Rightarrow>
                   (case slc norm (n - 2 * p) (n - p) of
                      None \<Rightarrow> None
                    | Some block \<Rightarrow>
                        if unit \<noteq> block then period_loop norm minCycles (p + 1)
                        else (case blocks_match norm unit p minCycles 2 of
                                None \<Rightarrow> None
                              | Some matched \<Rightarrow>
                                  if \<not> matched then period_loop norm minCycles (p + 1)
                                  else if distinctRunes unit < streamRepeatMinDistinctRunes
                                    then period_loop norm minCycles (p + 1)
                                  else Some (p, True)))))
      else Some (0, False))"
  by pat_completeness auto
termination by (relation "measure (\<lambda>(norm, minCycles, p). nat (streamRepeatMaxPeriod + 1 - p))") auto

declare period_loop.simps [simp del]

definition periodicSuffix :: "bytes \<Rightarrow> int \<Rightarrow> (int \<times> bool) option" where
  "periodicSuffix norm minCycles =
     (if minCycles < 2 then Some (0, False) else period_loop norm minCycles streamRepeatMinPeriod)"

section \<open>Trimming a repeated tail\<close>

text \<open>The backward count; a period is at least one byte.\<close>

function count_cycles :: "bytes \<Rightarrow> bytes \<Rightarrow> int \<Rightarrow> int \<Rightarrow> int option" where
  "count_cycles norm unit period cycles =
     (let start = int (length norm) - period * (cycles + 1) in
      if 0 \<le> start \<and> 0 < period then
        (case slc norm start (start + period) of
           None \<Rightarrow> None
         | Some block \<Rightarrow> if unit \<noteq> block then Some cycles else count_cycles norm unit period (cycles + 1))
      else Some cycles)"
  by pat_completeness auto
termination
  by (relation "measure (\<lambda>(norm, unit, period, cycles). nat (int (length norm) - period * (cycles + 1) + 1))")
     (auto simp: Let_def algebra_simps)

declare count_cycles.simps [simp del]

definition trim_right_set :: "bytes \<Rightarrow> bytes \<Rightarrow> bytes" where
  "trim_right_set cs s = rev (dropWhile (\<lambda>c. c \<in> set cs) (rev s))"

definition trimRepeatedTail :: "bytes \<Rightarrow> int \<Rightarrow> (bytes \<times> bool) option" where
  "trimRepeatedTail s minCycles =
     (let norm = fst (normalizeForRepeat s); offsets = snd (normalizeForRepeat s) in
      case periodicSuffix norm minCycles of
        None \<Rightarrow> None
      | Some (period, False) \<Rightarrow> Some (s, False)
      | Some (period, True) \<Rightarrow>
          let n = int (length norm) in
          (case slc norm (n - period) n of
             None \<Rightarrow> None
           | Some unit \<Rightarrow>
               (case count_cycles norm unit period 1 of
                  None \<Rightarrow> None
                | Some cycles \<Rightarrow>
                    let keep = n - period * (cycles - 1) in
                    if keep \<ge> int (length offsets) then Some (s, False)
                    else (case idx offsets keep of
                            None \<Rightarrow> None
                          | Some off \<Rightarrow>
                              Some (trim_right_set [CHR '' '', CHR 0x09, CHR 0x0D, CHR 0x0A] (take off s)
                                      @ loopGuardTruncationMarker, True)))))"

section \<open>The detector of a streamed channel\<close>

text \<open>A nil detector is \<open>None\<close>.\<close>

record streamRepeatDetector =
  minCycles :: int
  tail :: bytes
  pending :: int
  inSpace :: bool

definition newStreamRepeatDetector :: "int \<Rightarrow> streamRepeatDetector option" where
  "newStreamRepeatDetector cycles =
     (if cycles < 2 then None else Some \<lparr> minCycles = cycles, tail = [], pending = 0, inSpace = False \<rparr>)"

text \<open>The normalized bytes of one delta, and whether the channel is inside white space after it.\<close>

fun scan_delta :: "bool \<Rightarrow> bytes \<Rightarrow> bytes \<times> bool" where
  "scan_delta sp [] = ([], sp)"
| "scan_delta sp (c # s) =
     (if is_blank c then
        (if sp then scan_delta True s
         else (case scan_delta True s of (out, sp') \<Rightarrow> (CHR '' '' # out, sp')))
      else (case scan_delta False s of (out, sp') \<Rightarrow> (lower_ascii c # out, sp')))"

definition stream_Add :: "bytes \<Rightarrow> streamRepeatDetector option
    \<Rightarrow> ((int \<times> bool) \<times> streamRepeatDetector option) option" where
  "stream_Add delta d =
     (case d of
        None \<Rightarrow> Some ((0, False), None)
      | Some d \<Rightarrow>
          if delta = [] then Some ((0, False), Some d)
          else (case scan_delta (inSpace d) delta of
                  (out, sp) \<Rightarrow>
                    let d = d\<lparr> inSpace := sp, tail := tail d @ out \<rparr> in
                    if out = [] then Some ((0, False), Some d)
                    else let d = d\<lparr> tail := drop (length (tail d) - streamRepeatWindow) (tail d),
                                    pending := pending d + int (length out) \<rparr> in
                         if pending d < streamRepeatCheckEvery then Some ((0, False), Some d)
                         else let d = d\<lparr> pending := 0 \<rparr> in
                              map_option (\<lambda>r. (r, Some d)) (periodicSuffix (tail d) (minCycles d))))"

section \<open>The detector of repeated tool calls\<close>

text \<open>\<open>Canonical\<close> is \<^verbatim>\<open>jsoncanon.Canonical\<close>, \<open>None\<close> for what is not one JSON value.\<close>

definition canonicalJSON :: "(bytes \<Rightarrow> bytes option) \<Rightarrow> bytes \<Rightarrow> bytes" where
  "canonicalJSON Canonical s =
     (let trimmed = trim_space s in
      if trimmed = [] then []
      else (case Canonical trimmed of
              None \<Rightarrow> ''raw:'' @ join '' '' (Fields trimmed)
            | Some b \<Rightarrow> b))"

definition canonicalToolCallKey :: "(bytes \<Rightarrow> bytes option) \<Rightarrow> bytes \<Rightarrow> bytes \<Rightarrow> bytes" where
  "canonicalToolCallKey Canonical name inputJSON = name @ [CHR 0x00] @ canonicalJSON Canonical inputJSON"

record toolRepeatDetector =
  det_limit :: int
  det_key :: bytes
  det_count :: int

definition newToolRepeatDetector :: "int \<Rightarrow> toolRepeatDetector option" where
  "newToolRepeatDetector limit =
     (if limit \<le> 0 then None else Some \<lparr> det_limit = limit, det_key = [], det_count = 0 \<rparr>)"

definition Observe :: "(bytes \<Rightarrow> bytes option) \<Rightarrow> bytes \<Rightarrow> bytes \<Rightarrow> toolRepeatDetector option
    \<Rightarrow> (int \<times> bool) \<times> toolRepeatDetector option" where
  "Observe Canonical name inputJSON d =
     (case d of
        None \<Rightarrow> ((0, False), None)
      | Some d \<Rightarrow>
          let key = canonicalToolCallKey Canonical name inputJSON;
              d = (if det_key d = key \<and> det_count d > 0 then d\<lparr> det_count := det_count d + 1 \<rparr>
                   else d\<lparr> det_key := key, det_count := 1 \<rparr>)
          in ((det_count d, det_count d \<ge> det_limit d), Some d))"

end
