(* ===== verification/LoopGuard_Correct.thy ===== *)
theory LoopGuard_Correct
  imports LoopGuard
begin

text \<open>
  The detectors against what they mean: a tail is periodic when it is a passage written several
  times back to back, trimming keeps the text before it and its first occurrence, the streamed
  detector sees the channel whatever the chunks it comes in, and the call counter counts the
  calls at the end of the turn that are the same.
\<close>

section \<open>Blocks\<close>

definition blk :: "bytes \<Rightarrow> nat \<Rightarrow> nat \<Rightarrow> bytes" where
  "blk norm p j = take p (drop (length norm - (j + 1) * p) norm)"

text \<open>The text ends in \<open>k\<close> copies of a passage of \<open>p\<close> bytes.\<close>

definition ends_in :: "bytes \<Rightarrow> nat \<Rightarrow> bytes \<Rightarrow> bool" where
  "ends_in norm k u \<longleftrightarrow> (\<exists>a. norm = a @ concat (replicate k u))"

definition repeats :: "bytes \<Rightarrow> nat \<Rightarrow> nat \<Rightarrow> bool" where
  "repeats norm k p \<longleftrightarrow>
     (\<exists>u. length u = p \<and> streamRepeatMinDistinctRunes \<le> distinctRunes u \<and> ends_in norm k u)"

lemma length_concat_replicate: "length (concat (replicate k u)) = k * length u"
  by (induction k) simp_all

lemma concat_replicate_snoc: "concat (replicate (Suc k) u) = concat (replicate k u) @ u"
  by (induction k) simp_all

lemma slc_blk:
  assumes "(j + 1) * p \<le> length norm"
  shows "slc norm (int (length norm) - (int j + 1) * int p) (int (length norm) - int j * int p) = Some (blk norm p j)"
proof -
  define q where "q = length norm - (j + 1) * p"
  have i: "int (length norm) - (int j + 1) * int p = int q"
    "int (length norm) - int j * int p = int q + int p"
    using assms by (simp_all add: q_def of_nat_diff algebra_simps)
  have "q + p \<le> length norm" using assms by (simp add: q_def)
  then show ?thesis unfolding slc_def i blk_def q_def [symmetric] by simp
qed

lemma blk_append: "(j + 1) * length u \<le> length b \<Longrightarrow> blk (a @ b) (length u) j = blk b (length u) j"
  by (simp add: blk_def)

lemma blk_replicate: "j < k \<Longrightarrow> blk (concat (replicate k u)) (length u) j = u"
proof -
  assume "j < k"
  then have k: "k = (k - Suc j) + Suc j" by simp
  have "concat (replicate k u) = concat (replicate (k - Suc j) u) @ u @ concat (replicate j u)"
    by (subst k, subst replicate_add) simp
  moreover have "length (concat (replicate k u)) - (j + 1) * length u = length (concat (replicate (k - Suc j) u))"
    by (simp add: length_concat_replicate diff_mult_distrib)
  ultimately show ?thesis by (simp add: blk_def)
qed

lemma ends_in_blk: "ends_in norm k u \<Longrightarrow> j < k \<Longrightarrow> blk norm (length u) j = u"
proof -
  assume "ends_in norm k u" "j < k"
  then obtain a where "norm = a @ concat (replicate k u)" by (auto simp: ends_in_def)
  moreover have "(j + 1) * length u \<le> length (concat (replicate k u))"
    using \<open>j < k\<close> by (simp only: length_concat_replicate mult_le_mono1 Suc_leI Suc_eq_plus1 [symmetric])
  ultimately show ?thesis using blk_replicate [OF \<open>j < k\<close>, of u] blk_append by metis
qed

lemma ends_in_length: "ends_in norm k u \<Longrightarrow> k * length u \<le> length norm"
  by (auto simp: ends_in_def length_concat_replicate)

lemma blk_ends_in:
  assumes "k * length u \<le> length norm" "\<And>j. j < k \<Longrightarrow> blk norm (length u) j = u"
  shows "drop (length norm - k * length u) norm = concat (replicate k u)"
  using assms
proof (induction k)
  case (Suc k)
  let ?i = "length norm - Suc k * length u"
  have "drop ?i norm = blk norm (length u) k @ drop (?i + length u) norm"
    by (simp add: blk_def add.commute flip: drop_drop)
  moreover have "?i + length u = length norm - k * length u" using Suc.prems(1) by simp
  ultimately show ?case using Suc by simp
qed simp

lemma ends_in_iff:
  "ends_in norm k u \<longleftrightarrow> k * length u \<le> length norm \<and> (\<forall>j < k. blk norm (length u) j = u)"
proof
  assume r: "k * length u \<le> length norm \<and> (\<forall>j < k. blk norm (length u) j = u)"
  then have "norm = take (length norm - k * length u) norm @ concat (replicate k u)"
    using blk_ends_in [of k u norm] append_take_drop_id [of "length norm - k * length u" norm] by metis
  then show "ends_in norm k u" unfolding ends_in_def by blast
qed (auto simp: ends_in_length ends_in_blk)

lemma length_blk: "(j + 1) * p \<le> length norm \<Longrightarrow> length (blk norm p j) = p"
  by (simp add: blk_def)

section \<open>The periodic tail\<close>

lemma blocks_match_blk:
  assumes "0 < p" "k \<le> mc" "mc * p \<le> length norm"
  shows "blocks_match norm unit (int p) (int mc) (int k) = Some (\<forall>j. k \<le> j \<and> j < mc \<longrightarrow> blk norm p j = unit)"
  using assms(2)
proof (induction "mc - k" arbitrary: k)
  case 0
  then have "k = mc" by simp
  then show ?case by (subst blocks_match.simps) auto
next
  case (Suc d)
  then have less: "k < mc" by simp
  then have "(k + 1) * p \<le> length norm"
    using assms(3) by (metis Suc_eq_plus1 Suc_leI le_trans mult_le_mono1)
  note b = slc_blk [OF this]
  have step: "(\<forall>j. k \<le> j \<and> j < mc \<longrightarrow> blk norm p j = unit) \<longleftrightarrow>
      blk norm p k = unit \<and> (\<forall>j. Suc k \<le> j \<and> j < mc \<longrightarrow> blk norm p j = unit)"
    using less by (metis Suc_leD Suc_leI le_eq_less_or_eq)
  have "blocks_match norm unit (int p) (int mc) (int k + 1) =
      Some (\<forall>j. Suc k \<le> j \<and> j < mc \<longrightarrow> blk norm p j = unit)"
    using Suc.hyps(1) [of "Suc k"] Suc.hyps(2) less by (simp add: add.commute)
  then show ?case
    unfolding step using less by (subst blocks_match.simps) (auto simp: b)
qed

text \<open>Whether the passage of \<open>p\<close> bytes at the end is one the loop reports.\<close>

lemma repeats_blk:
  assumes "2 \<le> k" "0 < p"
  shows "repeats norm k p \<longleftrightarrow> k * p \<le> length norm \<and> blk norm p 1 = blk norm p 0 \<and>
    (\<forall>j. 2 \<le> j \<and> j < k \<longrightarrow> blk norm p j = blk norm p 0) \<and>
    streamRepeatMinDistinctRunes \<le> distinctRunes (blk norm p 0)"
proof
  assume "repeats norm k p"
  then obtain u where u: "length u = p" "streamRepeatMinDistinctRunes \<le> distinctRunes u" "ends_in norm k u"
    by (auto simp: repeats_def)
  then have "blk norm p j = u" if "j < k" for j using ends_in_blk [OF u(3) that] by simp
  then show "k * p \<le> length norm \<and> blk norm p 1 = blk norm p 0 \<and>
      (\<forall>j. 2 \<le> j \<and> j < k \<longrightarrow> blk norm p j = blk norm p 0) \<and>
      streamRepeatMinDistinctRunes \<le> distinctRunes (blk norm p 0)"
    using u ends_in_length [OF u(3)] assms by auto
next
  assume r: "k * p \<le> length norm \<and> blk norm p 1 = blk norm p 0 \<and>
    (\<forall>j. 2 \<le> j \<and> j < k \<longrightarrow> blk norm p j = blk norm p 0) \<and>
    streamRepeatMinDistinctRunes \<le> distinctRunes (blk norm p 0)"
  have "(0 + 1) * p \<le> k * p" using assms by (intro mult_le_mono1) simp
  then have "(0 + 1) * p \<le> length norm" by (rule le_trans [OF _ conjunct1 [OF r]])
  then have len: "length (blk norm p 0) = p" by (rule length_blk)
  have "blk norm p j = blk norm p 0" if "j < k" for j
  proof (cases "j < 2")
    case True
    then have "j = 0 \<or> j = 1" by auto
    then show ?thesis using r by auto
  next
    case False
    then have "2 \<le> j \<and> j < k" using that by simp
    then show ?thesis using r by blast
  qed
  then have "ends_in norm k (blk norm p 0)" unfolding ends_in_iff len using r by blast
  then show "repeats norm k p" using r len unfolding repeats_def by blast
qed

definition reported :: "bytes \<Rightarrow> nat \<Rightarrow> nat \<Rightarrow> int \<times> bool \<Rightarrow> bool" where
  "reported norm k p r \<longleftrightarrow>
     (if snd r then int p \<le> fst r \<and> fst r \<le> 512 \<and> repeats norm k (nat (fst r)) \<and>
        (\<forall>q. p \<le> q \<and> q < nat (fst r) \<longrightarrow> \<not> repeats norm k q)
      else fst r = 0 \<and> (\<forall>q. p \<le> q \<and> q \<le> 512 \<longrightarrow> \<not> repeats norm k q))"

lemma reported_Suc: "reported norm k (Suc p) r \<Longrightarrow> \<not> repeats norm k p \<Longrightarrow> reported norm k p r"
  unfolding reported_def by (auto split: if_splits) (metis Suc_leI le_eq_less_or_eq of_nat_Suc)+

lemma period_loop_reports:
  assumes k: "2 \<le> k" "k < 2 ^ 54" and p: "0 < p" "p \<le> 513"
  shows "\<exists>r. period_loop norm (int k) (int p) = Some r \<and> reported norm k p r"
  using p
proof (induction "513 - p" arbitrary: p)
  case 0
  then show ?case
    by (subst period_loop.simps) (auto simp: streamRepeatMaxPeriod_def reported_def)
next
  case (Suc d)
  then have p: "0 < p" "p \<le> 512" by simp_all
  have "int p * int k \<le> 512 * int k" using p by (intro mult_right_mono) simp_all
  also have "\<dots> < 2 ^ 63" using k by simp
  finally have "in_int64 (int p * int k)"
    unfolding in_int64_def using mult_nonneg_nonneg [of "int p" "int k"] by linarith
  then have w: "wrap64 (int p * int k) = int (k * p)" by (simp add: mult.commute)
  have cmp: "int (length norm) < int k * int p \<longleftrightarrow> \<not> k * p \<le> length norm"
    by (metis linorder_not_le of_nat_le_iff of_nat_mult)
  have IH: "\<exists>r. period_loop norm (int k) (int p + 1) = Some r \<and> reported norm k (Suc p) r"
    using Suc.hyps(1) [of "Suc p"] Suc.hyps(2) p by (simp add: add.commute)
  show ?case
  proof (cases "k * p \<le> length norm")
    case False
    have "\<not> repeats norm k q" if "p \<le> q" for q
    proof
      assume "repeats norm k q"
      then have "k * q \<le> length norm" by (auto simp: repeats_def dest: ends_in_length)
      moreover have "k * p \<le> k * q" using that by simp
      ultimately show False using False by linarith
    qed
    moreover have "period_loop norm (int k) (int p) = Some (0, False)"
      using False p by (subst period_loop.simps) (simp add: Let_def streamRepeatMaxPeriod_def w cmp)
    ultimately show ?thesis by (auto simp: reported_def)
  next
    case True
    have "2 * p \<le> k * p" using k by (intro mult_le_mono1) simp
    then have "2 * p \<le> length norm" by (rule le_trans [OF _ True])
    then have le: "(0 + 1) * p \<le> length norm" "(1 + 1) * p \<le> length norm" by simp_all
    define u where "u = blk norm p 0"
    have s0: "slc norm (int (length norm) - int p) (int (length norm)) = Some u"
      using slc_blk [OF le(1)] by (simp add: u_def)
    have s1: "slc norm (int (length norm) - 2 * int p) (int (length norm) - int p) = Some (blk norm p 1)"
      using slc_blk [OF le(2)] by simp
    have m: "blocks_match norm u (int p) (int k) 2 = Some (\<forall>j. 2 \<le> j \<and> j < k \<longrightarrow> blk norm p j = u)"
      using blocks_match_blk [of p 2 k norm] p k True by simp
    note rep = repeats_blk [OF k(1) p(1), of norm, folded u_def]
    have eq: "period_loop norm (int k) (int p) =
        (if u \<noteq> blk norm p 1 then period_loop norm (int k) (int p + 1)
         else if \<not> (\<forall>j. 2 \<le> j \<and> j < k \<longrightarrow> blk norm p j = u) then period_loop norm (int k) (int p + 1)
         else if distinctRunes u < streamRepeatMinDistinctRunes then period_loop norm (int k) (int p + 1)
         else Some (int p, True))"
      using p True by (cases "blk norm p 1 = u"; subst period_loop.simps)
        (simp_all add: streamRepeatMaxPeriod_def w cmp s0 s1 m Let_def del: One_nat_def)
    show ?thesis
    proof (cases "repeats norm k p")
      case rp: True
      then have "period_loop norm (int k) (int p) = Some (int p, True)"
        unfolding eq using rep by auto
      then show ?thesis using rp p by (auto simp: reported_def)
    next
      case F: False
      then have "period_loop norm (int k) (int p) = period_loop norm (int k) (int p + 1)"
        unfolding eq using rep True by auto
      then show ?thesis using IH reported_Suc F by auto
    qed
  qed
qed

lemma periodicSuffix_reports:
  assumes "k < 2 ^ 54"
  shows "\<exists>r. periodicSuffix norm (int k) = Some r \<and>
    (if k < 2 then r = (0, False) else reported norm k 12 r)"
  using period_loop_reports [of k 12 norm] assms
  by (cases "k < 2") (auto simp: periodicSuffix_def streamRepeatMinPeriod_def)

text \<open>C39: the degeneration test, for any sane number of cycles: it never reads outside the text, it
  reports the smallest period between 12 and 512 bytes such that the text ends in that many copies
  of one passage with at least four different characters, and it reports nothing when there is no
  such period.\<close>
theorem periodicSuffix_correct:
  assumes "2 \<le> k" "k < 2 ^ 54"
  shows "case periodicSuffix norm (int k) of
      None \<Rightarrow> False
    | Some (p, True) \<Rightarrow> 12 \<le> p \<and> p \<le> 512 \<and> repeats norm k (nat p) \<and>
        (\<forall>q. 12 \<le> q \<and> q < nat p \<longrightarrow> \<not> repeats norm k q)
    | Some (p, False) \<Rightarrow> p = 0 \<and> (\<forall>q. 12 \<le> q \<and> q \<le> 512 \<longrightarrow> \<not> repeats norm k q)"
  using periodicSuffix_reports [of k norm] assms
  by (auto simp: reported_def split: bool.split)

definition looped_text :: bytes where
  "looped_text = ''the plan: '' @ concat (replicate 3 ''try again now, '')"

lemma periodicSuffix_correct_witness:
  "repeats looped_text 3 15 \<and> \<not> repeats looped_text 3 12"
proof -
  have "periodicSuffix looped_text (int 3) = Some (15, True)" by code_simp
  then show ?thesis using periodicSuffix_correct [of 3 looped_text] by simp
qed

text \<open>Without the bound on the number of cycles the product of the loop wraps and the slice is outside.\<close>

lemma periodicSuffix_overflow: "periodicSuffix ''short'' (2 ^ 60) = None"
  by code_simp

section \<open>Trimming\<close>

lemma normalize_length: "xs = normalize_from i sp s \<Longrightarrow> k < length xs \<Longrightarrow> i \<le> snd (xs ! k) \<and> snd (xs ! k) < i + length s"
proof (induction s arbitrary: i sp k xs)
  case (Cons c s)
  show ?case
  proof (cases "is_blank c \<and> sp")
    case True
    then show ?thesis using Cons.IH [of xs "Suc i" True k] Cons.prems by simp
  next
    case False
    then obtain y sp' where "xs = (y, i) # normalize_from (Suc i) sp' s" using Cons.prems(1) by (auto split: if_splits)
    then show ?thesis using Cons.IH [of "normalize_from (Suc i) sp' s" "Suc i" sp' "k - 1"] Cons.prems(2) by (cases k) auto
  qed
qed simp

lemma normalize_take:
  "k < length (normalize_from i sp s) \<Longrightarrow>
   normalize_from i sp (take (snd (normalize_from i sp s ! k) - i) s) = take k (normalize_from i sp s)"
proof (induction s arbitrary: i sp k)
  case (Cons c s)
  have idx: "snd (normalize_from (Suc i) sp' s ! k') - i = Suc (snd (normalize_from (Suc i) sp' s ! k') - Suc i)"
    if "k' < length (normalize_from (Suc i) sp' s)" for k' sp'
    using normalize_length [OF refl that] by linarith
  show ?case
  proof (cases "is_blank c \<and> sp")
    case True
    then show ?thesis using Cons.IH [of k "Suc i" True] Cons.prems idx [of k True] by simp
  next
    case False
    define sp' where "sp' \<longleftrightarrow> is_blank c"
    obtain y where n: "normalize_from i sp (c # t) = (y, i) # normalize_from (Suc i) sp' t" for t
      using False by (cases "is_blank c") (auto simp: sp'_def)
    show ?thesis
    proof (cases k)
      case (Suc k')
      then show ?thesis
        using Cons.IH [of k' "Suc i" sp'] Cons.prems idx [of k' sp'] unfolding n by (simp add: n del: normalize_from.simps)
    qed (simp add: n del: normalize_from.simps(2))
  qed
qed simp

abbreviation normal :: "bytes \<Rightarrow> bytes" where
  "normal s \<equiv> fst (normalizeForRepeat s)"

lemma normal_take:
  assumes "k < length (normal s)"
  shows "normal (take (snd (normalizeForRepeat s) ! k) s) = take k (normal s)"
  using normalize_take [of k 0 False s] assms by (simp add: normalizeForRepeat_def take_map)

lemma count_cycles_blk:
  assumes "0 < p" "c * p \<le> length norm" "\<And>j. j < c \<Longrightarrow> blk norm p j = unit"
  shows "\<exists>d \<ge> c. count_cycles norm unit (int p) (int c) = Some (int d) \<and> d * p \<le> length norm \<and>
    (\<forall>j < d. blk norm p j = unit) \<and> (length norm < Suc d * p \<or> blk norm p d \<noteq> unit)"
  using assms(2,3)
proof (induction "length norm - c * p" arbitrary: c rule: less_induct)
  case less
  show ?case
  proof (cases "Suc c * p \<le> length norm")
    case False
    then have "int (length norm) < int (Suc c * p)" by linarith
    then have "int (length norm) - int p * (int c + 1) < 0" by (simp add: algebra_simps)
    then have "count_cycles norm unit (int p) (int c) = Some (int c)"
      by (subst count_cycles.simps) (simp add: Let_def)
    then show ?thesis using False less.prems by (intro exI [of _ c]) simp
  next
    case True
    have start: "int (length norm) - int p * (int c + 1) = int (length norm) - (int c + 1) * int p"
      "int (length norm) - (int c + 1) * int p + int p = int (length norm) - int c * int p"
      by (simp_all add: algebra_simps)
    have "0 \<le> int (length norm) - (int c + 1) * int p"
      using True by (simp add: algebra_simps flip: of_nat_mult of_nat_add)
    then have eq: "count_cycles norm unit (int p) (int c) =
        (if blk norm p c = unit then count_cycles norm unit (int p) (int c + 1) else Some (int c))"
      using assms(1) slc_blk [of c p norm] True
      by (subst count_cycles.simps) (simp add: Let_def start)
    show ?thesis
    proof (cases "blk norm p c = unit")
      case same: True
      have "length norm - Suc c * p < length norm - c * p" using assms(1) True by simp
      moreover have "j < Suc c \<Longrightarrow> blk norm p j = unit" for j using less.prems(2) same by (auto simp: less_Suc_eq)
      ultimately have "\<exists>d \<ge> Suc c. count_cycles norm unit (int p) (int (Suc c)) = Some (int d) \<and> d * p \<le> length norm \<and>
          (\<forall>j < d. blk norm p j = unit) \<and> (length norm < Suc d * p \<or> blk norm p d \<noteq> unit)"
        using less.hyps [of "Suc c"] True by blast
      then show ?thesis using same by (auto simp: eq add.commute intro: Suc_leD)
    next
      case False
      then show ?thesis using less.prems by (intro exI [of _ c]) (simp add: eq)
    qed
  qed
qed

lemma offsets_length: "length (snd (normalizeForRepeat s)) = length (normal s)"
  by (simp add: normalizeForRepeat_def)

text \<open>The cycle the search counts is the longest one: what precedes it does not end in the unit.\<close>

lemma counted_tail:
  assumes "2 \<le> k" "0 < p" "repeats norm k p"
  obtains u a d where "length u = p" "slc norm (int (length norm) - int p) (int (length norm)) = Some u"
    "count_cycles norm u (int p) 1 = Some (int d)" "k \<le> d" "norm = a @ concat (replicate d u)" "\<not> suffix u a"
proof -
  obtain u where u: "length u = p" "ends_in norm k u" using assms(3) by (auto simp: repeats_def)
  have "blk norm p j = u" if "j < k" for j using ends_in_blk [OF u(2) that] u(1) by simp
  then have b: "blk norm p 0 = u" and c: "1 * p \<le> length norm" "\<And>j. j < 1 \<Longrightarrow> blk norm p j = u"
    using assms(1) ends_in_length [OF u(2)] u(1) le_trans [OF mult_le_mono1, of 1 k p] by auto
  obtain d where d: "count_cycles norm u (int p) (int 1) = Some (int d)" "d * p \<le> length norm"
    "\<forall>j < d. blk norm p j = u" "length norm < Suc d * p \<or> blk norm p d \<noteq> u"
    using count_cycles_blk [of p 1 norm u] c assms(2) by auto
  have longest: "\<not> ends_in norm (Suc d) u"
  proof
    assume e: "ends_in norm (Suc d) u"
    have "Suc d * p \<le> length norm" "blk norm p d = u"
      using ends_in_length [OF e] ends_in_blk [OF e, of d] u(1) by (simp_all del: mult_Suc)
    then show False using d(4) by (simp del: mult_Suc)
  qed
  have "k \<le> d"
  proof (rule ccontr)
    assume "\<not> k \<le> d"
    then have dk: "d < k" "Suc d \<le> k" by simp_all
    have "Suc d * p \<le> k * p" using dk(2) by (rule mult_le_mono1)
    then have "Suc d * p \<le> length norm" using ends_in_length [OF u(2)] unfolding u(1) by (rule le_trans)
    then show False using d(4) ends_in_blk [OF u(2) dk(1)] unfolding u(1) by (metis not_le)
  qed
  define a where "a = take (length norm - d * p) norm"
  have "ends_in norm d u" using d(2,3) u(1) by (simp add: ends_in_iff)
  then have "drop (length norm - d * p) norm = concat (replicate d u)"
    using blk_ends_in [of d u norm] d(2,3) unfolding u(1) by blast
  then have norm: "norm = a @ concat (replicate d u)"
    using append_take_drop_id [of "length norm - d * p" norm] by (simp add: a_def)
  then have "\<not> suffix u a" using longest by (auto simp: suffix_def ends_in_def)
  moreover have "slc norm (int (length norm) - int p) (int (length norm)) = Some u"
    using slc_blk [of 0 p norm] c(1) b by simp
  ultimately show thesis using that d(1) \<open>k \<le> d\<close> norm u(1) by simp
qed

lemma keep_one_cycle:
  assumes "norm = a @ concat (replicate d u)" "2 \<le> d" "0 < length u"
  obtains keep where "int (length norm) - int (length u) * (int d - 1) = int keep" "keep < length norm" "take keep norm = a @ u"
proof -
  obtain e where d: "d = Suc e" "0 < e" using assms(2) by (cases d) auto
  have norm: "norm = (a @ u) @ concat (replicate e u)" using assms(1) d(1) by simp
  have len: "length norm = length (a @ u) + e * length u" unfolding norm length_append length_concat_replicate by simp
  have "int (length norm) - int (length u) * (int d - 1) = int (length (a @ u))"
    unfolding len d(1) by (simp add: mult.commute)
  moreover have "length (a @ u) < length norm" using len d(2) assms(3) by simp
  moreover have "take (length (a @ u)) norm = a @ u" unfolding norm by simp
  ultimately show thesis by (rule that)
qed

text \<open>trimming a degenerate answer, for any sane number of cycles, always returns. When the text
  ends in a reported loop, what is kept is a piece of the start of the text, cut at white space, with
  the marker after it; the normalized form of that piece is everything before the loop and the
  passage once, the loop ran to the end of the text, and the passage does not come once more just
  before what is kept as its first occurrence. Otherwise the text is returned as it is.\<close>
theorem trimRepeatedTail_spec:
  assumes "2 \<le> k" "k < 2 ^ 54"
  shows "if \<exists>p. 12 \<le> p \<and> p \<le> 512 \<and> repeats (normal s) k p
    then \<exists>kept a u c. prefix kept s \<and> normal kept = a @ u \<and> normal s = a @ concat (replicate c u) \<and>
      k \<le> c \<and> 12 \<le> length u \<and> length u \<le> 512 \<and> \<not> suffix u a \<and>
      trimRepeatedTail s (int k) =
        Some (trim_right_set [CHR '' '', CHR 0x09, CHR 0x0D, CHR 0x0A] kept @ loopGuardTruncationMarker, True)
    else trimRepeatedTail s (int k) = Some (s, False)"
proof -
  let ?norm = "normal s" and ?offs = "snd (normalizeForRepeat s)"
  obtain r where r: "periodicSuffix ?norm (int k) = Some r" "reported ?norm k 12 r"
    using periodicSuffix_reports [OF assms(2), of ?norm] assms(1) by auto
  show ?thesis
  proof (cases "snd r")
    case False
    then have "\<not> (\<exists>p. 12 \<le> p \<and> p \<le> 512 \<and> repeats ?norm k p)" using r(2) by (auto simp: reported_def)
    moreover have "r = (0, False)" using False r(2) by (cases r) (simp add: reported_def)
    ultimately show ?thesis using r(1) by (simp add: trimRepeatedTail_def Let_def)
  next
    case True
    define p where "p = nat (fst r)"
    have "12 \<le> fst r \<and> fst r \<le> 512 \<and> repeats ?norm k p" using True r(2) by (simp add: reported_def p_def)
    then have p: "12 \<le> p" "p \<le> 512" "repeats ?norm k p" "r = (int p, True)"
      using True by (simp_all add: p_def prod_eq_iff nat_le_iff le_nat_iff)
    obtain u a d where u: "length u = p" "slc ?norm (int (length ?norm) - int p) (int (length ?norm)) = Some u"
      "count_cycles ?norm u (int p) 1 = Some (int d)" "k \<le> d" "?norm = a @ concat (replicate d u)" "\<not> suffix u a"
      by (rule counted_tail [OF assms(1) _ p(3)]) (use p(1) in simp)
    obtain keep where keep: "int (length ?norm) - int p * (int d - 1) = int keep" "keep < length ?norm" "take keep ?norm = a @ u"
      by (rule keep_one_cycle [OF u(5)]) (use u(1,4) assms(1) p(1) in auto)
    have "trimRepeatedTail s (int k) =
        Some (trim_right_set [CHR '' '', CHR 0x09, CHR 0x0D, CHR 0x0A] (take (?offs ! keep) s) @ loopGuardTruncationMarker, True)"
      using keep u(2,3) by (simp add: trimRepeatedTail_def Let_def r(1) p(4) offsets_length)
    moreover have "normal (take (?offs ! keep) s) = a @ u" using normal_take keep(2,3) by simp
    moreover have "prefix (take (?offs ! keep) s) s" by (rule take_is_prefix)
    ultimately have "\<exists>kept a u c. prefix kept s \<and> normal kept = a @ u \<and> ?norm = a @ concat (replicate c u) \<and>
      k \<le> c \<and> 12 \<le> length u \<and> length u \<le> 512 \<and> \<not> suffix u a \<and>
      trimRepeatedTail s (int k) =
        Some (trim_right_set [CHR '' '', CHR 0x09, CHR 0x0D, CHR 0x0A] kept @ loopGuardTruncationMarker, True)"
      using u p(1,2) by blast
    then show ?thesis using p by auto
  qed
qed

lemma trimRepeatedTail_spec_witness:
  "\<exists>kept. prefix kept looped_text \<and>
     trimRepeatedTail looped_text (int 3) =
       Some (trim_right_set [CHR '' '', CHR 0x09, CHR 0x0D, CHR 0x0A] kept @ loopGuardTruncationMarker, True)"
proof -
  have "periodicSuffix (normal looped_text) (int 3) = Some (15, True)" by code_simp
  then have "repeats (normal looped_text) 3 15"
    using periodicSuffix_reports [of 3 "normal looped_text"] by (simp add: reported_def)
  then have "\<exists>p. 12 \<le> p \<and> p \<le> 512 \<and> repeats (normal looped_text) 3 p"
    by (intro exI [of _ 15]) simp
  then show ?thesis using trimRepeatedTail_spec [of 3 looped_text] by auto
qed

section \<open>The streamed channel\<close>

text \<open>The deltas of a channel in order, with the answer of the last one.\<close>

fun feed :: "bytes list \<Rightarrow> (int \<times> bool) \<times> streamRepeatDetector option
    \<Rightarrow> ((int \<times> bool) \<times> streamRepeatDetector option) option" where
  "feed [] x = Some x"
| "feed (delta # ds) x = (case stream_Add delta (snd x) of None \<Rightarrow> None | Some y \<Rightarrow> feed ds y)"

lemma feed_append: "feed (ds @ es) x = (case feed ds x of None \<Rightarrow> None | Some y \<Rightarrow> feed es y)"
  by (induction ds arbitrary: x) (simp_all split: option.split)

lemma scan_delta_normalize: "fst (scan_delta sp s) = map fst (normalize_from i sp s)"
  by (induction s arbitrary: sp i) (auto simp: case_prod_beta)

lemma scan_delta_append:
  "scan_delta sp (s @ t) =
     (fst (scan_delta sp s) @ fst (scan_delta (snd (scan_delta sp s)) t), snd (scan_delta (snd (scan_delta sp s)) t))"
  by (induction s arbitrary: sp) (auto simp: case_prod_beta)

lemma normal_scan: "normal s = fst (scan_delta False s)"
  by (simp add: normalizeForRepeat_def scan_delta_normalize [of False s 0])

lemma ends_in_drop: "ends_in (drop n xs) k u \<Longrightarrow> ends_in xs k u"
  unfolding ends_in_def by (metis append.assoc append_take_drop_id)

lemma repeats_drop: "repeats (drop n xs) k p \<Longrightarrow> repeats xs k p"
  using ends_in_drop unfolding repeats_def by blast

text \<open>What the detector knows after the deltas, and what its last answer says of them.\<close>

definition watches :: "nat \<Rightarrow> bytes list \<Rightarrow> (int \<times> bool) \<times> streamRepeatDetector option \<Rightarrow> bool" where
  "watches k ds x \<longleftrightarrow> (\<exists>d. snd x = Some d \<and> minCycles d = int k \<and>
     tail d = last_bytes streamRepeatWindow (normal (concat ds)) \<and> inSpace d = snd (scan_delta False (concat ds)) \<and>
     (snd (fst x) \<longrightarrow> reported (last_bytes streamRepeatWindow (normal (concat ds))) k 12 (fst x)) \<and>
     0 \<le> pending d \<and> pending d < streamRepeatCheckEvery)"

lemma feed_watches:
  assumes k: "2 \<le> k" "k < 2 ^ 54" and x: "snd x = newStreamRepeatDetector (int k)" "\<not> snd (fst x)"
  shows "\<exists>y. feed ds x = Some y \<and> watches k ds y"
proof (induction ds rule: rev_induct)
  case Nil
  show ?case
    using k x by (auto simp: watches_def newStreamRepeatDetector_def normalizeForRepeat_def last_bytes_def
      streamRepeatCheckEvery_def)
next
  case (snoc delta ds)
  then obtain y d where y: "feed ds x = Some y" "snd y = Some d" "minCycles d = int k"
    "tail d = last_bytes streamRepeatWindow (normal (concat ds))" "inSpace d = snd (scan_delta False (concat ds))"
    "0 \<le> pending d" "pending d < streamRepeatCheckEvery"
    by (auto simp: watches_def)
  define out where "out = fst (scan_delta (inSpace d) delta)"
  have norm: "normal (concat (ds @ [delta])) = normal (concat ds) @ out"
    "snd (scan_delta False (concat (ds @ [delta]))) = snd (scan_delta (inSpace d) delta)"
    by (simp_all add: normal_scan scan_delta_append out_def y(5))
  have t: "drop (length (tail d @ out) - streamRepeatWindow) (tail d @ out) = last_bytes streamRepeatWindow (normal (concat ds) @ out)"
    using last_bytes_append by (simp add: y(4) last_bytes_def)
  have nothing: "out = [] \<Longrightarrow> tail d @ out = last_bytes streamRepeatWindow (normal (concat ds) @ out)" by (simp add: y(4))
  obtain r where r: "periodicSuffix (last_bytes streamRepeatWindow (normal (concat ds) @ out)) (int k) = Some r"
    "reported (last_bytes streamRepeatWindow (normal (concat ds) @ out)) k 12 r"
    using periodicSuffix_reports [OF k(2)] k(1) by (metis not_le)
  define sp where "sp = snd (scan_delta (inSpace d) delta)"
  have scan: "scan_delta (inSpace d) delta = (out, sp)" by (simp add: out_def sp_def)
  have "\<exists>z. stream_Add delta (Some d) = Some z \<and> watches k (ds @ [delta]) z"
  proof (cases "out = []")
    case True
    have "stream_Add delta (Some d) = Some ((0, False), Some (d\<lparr> inSpace := sp, tail := tail d \<rparr>))"
      using True scan by (cases "delta = []") (auto simp: stream_Add_def)
    then show ?thesis
      using y True unfolding watches_def norm by (simp add: sp_def)
  next
    case False
    let ?d = "d\<lparr> inSpace := sp, tail := last_bytes streamRepeatWindow (normal (concat ds) @ out), pending := pending d + int (length out) \<rparr>"
    have "delta \<noteq> []" using False by (auto simp: out_def)
    then have add: "stream_Add delta (Some d) =
        (if pending ?d < streamRepeatCheckEvery then Some ((0, False), Some ?d)
         else Some (r, Some (?d\<lparr> pending := 0 \<rparr>)))"
      using False t r(1) y(3) by (simp add: stream_Add_def scan Let_def)
    show ?thesis
      using y(3,6) r(2) unfolding add watches_def norm by (cases r) (auto simp: sp_def streamRepeatCheckEvery_def)
  qed
  then obtain z where "stream_Add delta (Some d) = Some z" "watches k (ds @ [delta]) z" by blast
  then show ?case using y(1,2) by (simp add: feed_append)
qed

text \<open>the guard of a streamed channel sees the text, not the chunks: however the channel is cut
  into deltas, the detector never stops the process, it holds the last 4096 bytes of the normalized
  text, and when it trips, the text streamed so far ends in that many copies of one passage of the
  reported length. Switched off (fewer than two cycles) it never trips.\<close>
theorem stream_detector_sound:
  assumes "k < 2 ^ 54"
  shows "\<exists>r d. feed ds ((0, False), newStreamRepeatDetector (int k)) = Some (r, d) \<and>
    (case d of None \<Rightarrow> k < 2 \<and> \<not> snd r
     | Some d \<Rightarrow> 2 \<le> k \<and> tail d = last_bytes streamRepeatWindow (normal (concat ds)) \<and>
         (snd r \<longrightarrow> 12 \<le> fst r \<and> fst r \<le> 512 \<and> repeats (normal (concat ds)) k (nat (fst r))))"
proof (cases "2 \<le> k")
  case True
  then obtain y where "feed ds ((0, False), newStreamRepeatDetector (int k)) = Some y" "watches k ds y"
    using feed_watches [OF True assms, of "((0, False), newStreamRepeatDetector (int k))" ds] by auto
  then show ?thesis
    using True repeats_drop [of _ "normal (concat ds)" k]
    by (cases y) (auto simp: watches_def reported_def last_bytes_def)
next
  case False
  have "feed ds ((0, False), None) = Some ((0, False), None)"
    by (induction ds) (simp_all add: stream_Add_def)
  then show ?thesis using False by (simp add: newStreamRepeatDetector_def)
qed

lemma stream_detector_sound_witness:
  "\<exists>r d. feed [''try again now, try again'', '' now, '', []] ((0, False), newStreamRepeatDetector (int 2)) = Some (r, d)"
  using stream_detector_sound [of 2 "[''try again now, try again'', '' now, '', []]"] by auto

section \<open>Repeated tool calls\<close>

fun observe_all :: "(bytes \<Rightarrow> bytes option) \<Rightarrow> (bytes \<times> bytes) list
    \<Rightarrow> (int \<times> bool) \<times> toolRepeatDetector option \<Rightarrow> (int \<times> bool) \<times> toolRepeatDetector option" where
  "observe_all C [] x = x"
| "observe_all C (c # cs) x = observe_all C cs (Observe C (fst c) (snd c) (snd x))"

lemma observe_all_snoc: "observe_all C (cs @ [c]) x = Observe C (fst c) (snd c) (snd (observe_all C cs x))"
  by (induction cs arbitrary: x) simp_all

text \<open>How many calls at the end of the turn have the key of the last one.\<close>

definition trailing :: "'a list \<Rightarrow> nat" where
  "trailing keys = length (takeWhile (\<lambda>x. x = last keys) (rev keys))"

lemma trailing_snoc: "trailing (ks @ [x]) = (if ks \<noteq> [] \<and> last ks = x then Suc (trailing ks) else 1)"
  by (cases ks rule: rev_cases) (auto simp: trailing_def)

lemma trailing_pos: "ks \<noteq> [] \<Longrightarrow> 0 < trailing ks"
  by (cases ks rule: rev_cases) (simp_all add: trailing_def)

text \<open>The guard of repeated calls counts exactly: after any calls of a turn its count is how many
  calls at the end have the name and the canonical arguments of the last one, and it trips exactly
  when they are as many as the limit; switched off (a limit of zero or less) it never does.\<close>
theorem tool_detector_counts:
  "fst (observe_all C (cs @ [c]) ((0, False), newToolRepeatDetector limit)) =
     (if limit \<le> 0 then (0, False)
      else let n = int (trailing (map (\<lambda>c. canonicalToolCallKey C (fst c) (snd c)) (cs @ [c]))) in (n, limit \<le> n))"
proof (cases "limit \<le> 0")
  case True
  have "observe_all C xs ((0, False), None) = ((0, False), None)" for xs
    by (induction xs) (simp_all add: Observe_def)
  then show ?thesis using True by (simp add: newToolRepeatDetector_def)
next
  case False
  let ?key = "\<lambda>c. canonicalToolCallKey C (fst c) (snd c)"
  have det: "\<exists>d. snd (observe_all C xs ((0, False), newToolRepeatDetector limit)) = Some d \<and> det_limit d = limit \<and>
      (if xs = [] then det_count d = 0 else det_key d = last (map ?key xs) \<and> det_count d = int (trailing (map ?key xs)))" for xs
  proof (induction xs rule: rev_induct)
    case Nil
    then show ?case using False by (simp add: newToolRepeatDetector_def)
  next
    case (snoc x xs)
    then show ?case
      using trailing_pos [of "map ?key xs"]
      by (auto simp: observe_all_snoc Observe_def Let_def trailing_snoc last_map split: if_splits)
  qed
  then obtain d where d: "snd (observe_all C cs ((0, False), newToolRepeatDetector limit)) = Some d" "det_limit d = limit"
    "if cs = [] then det_count d = 0 else det_key d = last (map ?key cs) \<and> det_count d = int (trailing (map ?key cs))"
    by blast
  then show ?thesis
    using False trailing_pos [of "map ?key cs"]
    by (auto simp: observe_all_snoc Observe_def Let_def trailing_snoc split: if_splits)
qed

end
