(* ===== verification/BgTask.thy ===== *)
theory BgTask
  imports GoWords "HOL-Library.AList" "HOL-Library.List_Lexorder" "HOL-Library.Product_Lexorder"
begin

text \<open>
  The pool of background tasks (\<^verbatim>\<open>internal/bgtask\<close>: task.go, pool.go, persist.go, output.go,
  default.go). A task is a cell of a heap, because the pool's table, the goroutine that supervises
  it and a caller that stops it share it by pointer; every critical section of the code is one
  operation, and the writes of the record and the publication a goroutine makes right after one are
  taken with it. The fields no operation reads (working directory, tool call, the creation time of
  the process) are left out. Instants are integers in nanoseconds; the counter of ids wraps at 64 bits.
  The records on disk are a table keyed by the session's bundle directory and the task id; a
  directory made for a task that has no record yet holds \<open>None\<close>.
\<close>

section \<open>Tasks\<close>

datatype Status =
    StatusQueued | StatusRunning | StatusSucceeded | StatusFailed
  | StatusTimedOut | StatusStopped | StatusOrphaned

definition Finished :: "Status \<Rightarrow> bool" where
  "Finished s = (case s of StatusQueued \<Rightarrow> False | StatusRunning \<Rightarrow> False | _ \<Rightarrow> True)"

definition KindCommand :: bytes where "KindCommand = ''command''"
definition KindAgent :: bytes where "KindAgent = ''agent''"
definition KindServer :: bytes where "KindServer = ''server''"

record AgentInfo =
  ag_Name :: bytes
  ag_SessionID :: bytes
  ag_System :: bool
  ag_Model :: bytes
  ag_Reasoning :: bytes
  InputTokens :: int
  OutputTokens :: int
  UsageIncomplete :: bool

text \<open>A \<open>spec_StartedAt\<close> of \<open>None\<close> is the zero time: work launched now.\<close>

record Spec =
  spec_SessionID :: bytes
  spec_Kind :: bytes
  spec_Label :: bytes
  spec_Command :: bytes
  spec_ExpectedSeconds :: int
  spec_TimeoutSeconds :: int
  spec_NoTimeout :: bool
  spec_URL :: bytes
  spec_NotifyOnFinish :: bool
  spec_StartedAt :: "int option"
  spec_Agent :: "AgentInfo option"

record Snapshot =
  ID :: bytes
  SessionID :: bytes
  Kind :: bytes
  Label :: bytes
  Command :: bytes
  Status :: Status
  ExitCode :: "int option"
  Error :: bytes
  StartedAt :: int
  FinishedAt :: "int option"
  ExpectedSeconds :: int
  TimeoutSeconds :: int
  OutputBytes :: int
  OutputTruncated :: bool
  NotifyOnFinish :: bool
  WokeAgent :: bool
  Agent :: "AgentInfo option"
  URL :: bytes
  PID :: int
  LastOutputAt :: "int option"

definition SystemTask :: "Snapshot \<Rightarrow> bool" where
  "SystemTask s = (case Agent s of None \<Rightarrow> False | Some a \<Rightarrow> ag_System a)"

definition SilentFor :: "Snapshot \<Rightarrow> int \<Rightarrow> int" where
  "SilentFor s now =
     (case LastOutputAt s of
        None \<Rightarrow> 0
      | Some l \<Rightarrow> if Finished (Status s) then 0 else if now < l then 0 else now - l)"

definition Elapsed :: "Snapshot \<Rightarrow> int \<Rightarrow> int" where
  "Elapsed s now =
     (let stop = (case FinishedAt s of None \<Rightarrow> now | Some f \<Rightarrow> f) in
      if stop < StartedAt s then 0 else stop - StartedAt s)"

definition Overdue :: "Snapshot \<Rightarrow> int \<Rightarrow> bool" where
  "Overdue s now =
     (if Finished (Status s) \<or> ExpectedSeconds s \<le> 0 then False
      else Elapsed s now > wrap64 (ExpectedSeconds s * 1000000000))"

definition deriveLabel :: "Spec \<Rightarrow> bytes" where
  "deriveLabel spec =
     (let label = trim_space (spec_Label spec) in
      if label \<noteq> [] then label
      else let command = trim_space (spec_Command spec) in
        if command = [] then
          (case spec_Agent spec of
             Some a \<Rightarrow> if spec_Kind spec = KindAgent \<and> trim_space (ag_Name a) \<noteq> []
                       then ''agent '' @ trim_space (ag_Name a)
                       else if trim_space (spec_URL spec) \<noteq> [] then trim_space (spec_URL spec) else spec_Kind spec
           | None \<Rightarrow> if trim_space (spec_URL spec) \<noteq> [] then trim_space (spec_URL spec) else spec_Kind spec)
        else
          let command = (if contains_any command [CHR 0x0D, CHR 0x0A]
                then trim_space (takeWhile (\<lambda>c. c \<noteq> CHR 0x0D \<and> c \<noteq> CHR 0x0A) command) else command)
          in if length command > 60 then take 59 command @ [CHR 0xE2, CHR 0x80, CHR 0xA6] else command)"

section \<open>Configuration and limits\<close>

definition defaultMaxConcurrent :: int where "defaultMaxConcurrent = 5"
definition defaultTimeoutSeconds :: int where "defaultTimeoutSeconds = 900"
definition defaultMaxTimeoutSeconds :: int where "defaultMaxTimeoutSeconds = 3600"
definition defaultOutputBufferBytes :: int where "defaultOutputBufferBytes = 256 * 1024"
definition timeoutEstimateMultiplier :: int where "timeoutEstimateMultiplier = 3"
definition minEstimatedTimeoutSeconds :: int where "minEstimatedTimeoutSeconds = 60"
definition maxClockTimeoutSeconds :: int where "maxClockTimeoutSeconds = (2 ^ 63 - 1) div 1000000000"

record Config =
  MaxConcurrent :: int
  DefaultTimeoutSeconds :: int
  MaxTimeoutSeconds :: int
  OutputBufferBytes :: int

definition normalised :: "Config \<Rightarrow> Config" where
  "normalised c =
     (let c = (if MaxConcurrent c \<le> 0 then c\<lparr> MaxConcurrent := defaultMaxConcurrent \<rparr> else c);
          c = (if DefaultTimeoutSeconds c \<le> 0 then c\<lparr> DefaultTimeoutSeconds := defaultTimeoutSeconds \<rparr> else c);
          c = (if MaxTimeoutSeconds c \<le> 0 then c\<lparr> MaxTimeoutSeconds := defaultMaxTimeoutSeconds \<rparr> else c);
          c = (if DefaultTimeoutSeconds c > MaxTimeoutSeconds c
               then c\<lparr> DefaultTimeoutSeconds := MaxTimeoutSeconds c \<rparr> else c)
      in (if OutputBufferBytes c \<le> 0 then c\<lparr> OutputBufferBytes := defaultOutputBufferBytes \<rparr> else c))"

definition resolveTimeoutSeconds :: "Spec \<Rightarrow> Config \<Rightarrow> int" where
  "resolveTimeoutSeconds spec cfg =
     (if spec_NoTimeout spec then min (max (spec_TimeoutSeconds spec) 0) maxClockTimeoutSeconds
      else let seconds =
             (if spec_TimeoutSeconds spec > 0 then spec_TimeoutSeconds spec
              else if spec_ExpectedSeconds spec > 0
                then max (wrap64 (spec_ExpectedSeconds spec * timeoutEstimateMultiplier)) minEstimatedTimeoutSeconds
              else DefaultTimeoutSeconds cfg)
           in min (min seconds (MaxTimeoutSeconds cfg)) maxClockTimeoutSeconds)"

section \<open>Captured output\<close>

record OutputSink =
  buf :: bytes
  sink_limit :: int
  sink_total :: int
  truncated :: bool
  lastWrite :: "int option"

definition NewOutputSink :: "int \<Rightarrow> OutputSink" where
  "NewOutputSink limit =
     \<lparr> buf = [], sink_limit = (if limit \<le> 0 then defaultOutputBufferBytes else limit), sink_total = 0,
       truncated = False, lastWrite = None \<rparr>"

text \<open>The window of \<^verbatim>\<open>OutputSink.Write\<close>; the log file it mirrors to is not modelled.\<close>

definition sink_Write :: "bytes \<Rightarrow> int \<Rightarrow> OutputSink \<Rightarrow> OutputSink" where
  "sink_Write p now s =
     (let s = s\<lparr> sink_total := sink_total s + int (length p), lastWrite := Some now, buf := buf s @ p \<rparr>
      in if int (length (buf s)) > sink_limit s
         then s\<lparr> buf := drop (length (buf s) - nat (sink_limit s)) (buf s), truncated := True \<rparr>
         else s)"

definition trim_newlines :: "bytes \<Rightarrow> bytes" where
  "trim_newlines s = rev (dropWhile (\<lambda>c. c = CHR 0x0A) (rev s))"

definition TailLines :: "bytes \<Rightarrow> int \<Rightarrow> bytes" where
  "TailLines body n =
     (if n \<le> 0 \<or> body = [] then body
      else let lines = split_on (CHR 0x0A) (trim_newlines body) in
           if int (length lines) \<le> n then join [CHR 0x0A] lines
           else join [CHR 0x0A] (drop (length lines - nat n) lines))"

section \<open>The pool\<close>

text \<open>
  The private bookkeeping of one task. \<open>dir\<close> is the bundle directory its own directory is under;
  \<open>handle\<close> says whether the runner has handed its handle over, \<open>stops\<close> counts the calls of
  \<^verbatim>\<open>handle.Stop\<close>, \<open>settled\<close> is a closed \<^verbatim>\<open>done\<close> channel.
\<close>

record task =
  snap :: Snapshot
  sink :: OutputSink
  dir :: "bytes option"
  handle :: bool
  settled :: bool
  termReason :: "Status option"
  exitObserved :: bool
  resultAcknowledged :: bool
  stops :: nat

record Pool =
  cfg :: Config
  tasks :: "(bytes \<times> nat) list"
  heap :: "task list"
  order :: "bytes list"
  seq :: int
  draining :: bool
  sessionDirs :: "(bytes \<times> bytes) list"
  disk :: "((bytes \<times> bytes) \<times> Snapshot option) list"
  notified :: "(nat \<times> Snapshot) list"

definition NewPool :: "Config \<Rightarrow> ((bytes \<times> bytes) \<times> Snapshot option) list \<Rightarrow> Pool" where
  "NewPool c records =
     \<lparr> cfg = normalised c, tasks = [], heap = [], order = [], seq = 0, draining = False,
       sessionDirs = [], disk = records, notified = [] \<rparr>"

datatype bg_error =
    ErrEmptyCommand | ErrDraining | ErrPoolFull int | ErrNotFound | ErrTaskRunning | ErrLaunch bytes

definition taskKey :: "bytes \<Rightarrow> bytes \<Rightarrow> bytes" where
  "taskKey sid tid = sid @ [CHR 0x00] @ tid"

definition taskIDPrefix :: bytes where "taskIDPrefix = ''bg_''"

definition task_number_id :: "int \<Rightarrow> bytes" where
  "task_number_id n = taskIDPrefix @ (if n < 0 then ''-'' else []) @ digits_of (nat (abs n))"

definition lookup_task :: "bytes \<Rightarrow> bytes \<Rightarrow> Pool \<Rightarrow> nat option" where
  "lookup_task sid tid p = map_of (tasks p) (taskKey (trim_space sid) (trim_space tid))"

definition upd_task :: "nat \<Rightarrow> (task \<Rightarrow> task) \<Rightarrow> Pool \<Rightarrow> Pool" where
  "upd_task r f p = (if r < length (heap p) then p\<lparr> heap := (heap p)[r := f (heap p ! r)] \<rparr> else p)"

definition Snapshot_of :: "task \<Rightarrow> Snapshot" where
  "Snapshot_of t =
     (let s = (snap t)\<lparr> OutputBytes := sink_total (sink t), OutputTruncated := truncated (sink t) \<rparr>
      in (case lastWrite (sink t) of None \<Rightarrow> s | Some w \<Rightarrow> s\<lparr> LastOutputAt := Some w \<rparr>))"

definition counted_task :: "bytes \<Rightarrow> Pool \<Rightarrow> bytes \<times> nat \<Rightarrow> bool" where
  "counted_task sid p e =
     (let t = heap p ! snd e in
      SessionID (snap t) = sid \<and> \<not> SystemTask (snap t) \<and> \<not> Finished (Status (snap t)))"

definition runningForSession :: "bytes \<Rightarrow> Pool \<Rightarrow> int" where
  "runningForSession sid p = int (length (filter (counted_task sid p) (tasks p)))"

definition RunningCount :: "bytes \<Rightarrow> Pool \<Rightarrow> int" where
  "RunningCount sid p = runningForSession (trim_space sid) p"

text \<open>\<^verbatim>\<open>persist\<close>: the record is written only where the task's directory still is; \<open>ok\<close> is whether the write succeeds.\<close>

definition persist :: "bool \<Rightarrow> nat \<Rightarrow> Pool \<Rightarrow> Pool" where
  "persist ok r p =
     (let t = heap p ! r in
      case dir t of
        None \<Rightarrow> p
      | Some d \<Rightarrow>
          (case map_of (disk p) (d, ID (snap t)) of
             None \<Rightarrow> p
           | Some _ \<Rightarrow> if ok then p\<lparr> disk := AList.update (d, ID (snap t)) (Some (Snapshot_of t)) (disk p) \<rparr> else p))"

definition bg_notify :: "nat \<Rightarrow> Pool \<Rightarrow> Pool" where
  "bg_notify r p = p\<lparr> notified := notified p @ [(r, Snapshot_of (heap p ! r))] \<rparr>"

definition cloneAgentInfo :: "AgentInfo option \<Rightarrow> AgentInfo option" where
  "cloneAgentInfo a = map_option (\<lambda>a. a\<lparr> ag_Name := trim_space (ag_Name a), ag_SessionID := trim_space (ag_SessionID a),
     ag_Model := trim_space (ag_Model a), ag_Reasoning := trim_space (ag_Reasoning a) \<rparr>) a"

definition registerLocked :: "task \<Rightarrow> Pool \<Rightarrow> Pool" where
  "registerLocked t p =
     (let key = taskKey (SessionID (snap t)) (ID (snap t)) in
      p\<lparr> heap := heap p @ [t], tasks := AList.update key (length (heap p)) (tasks p), order := order p @ [key] \<rparr>)"

text \<open>The task the admission registers; \<open>now\<close> is the pool's clock.\<close>

definition new_task :: "Spec \<Rightarrow> int \<Rightarrow> Pool \<Rightarrow> task" where
  "new_task spec now p =
     \<lparr> snap = \<lparr> ID = task_number_id (seq p), SessionID = spec_SessionID spec, Kind = spec_Kind spec,
                 Label = deriveLabel spec, Command = spec_Command spec, Status = StatusRunning, ExitCode = None,
                 Error = [], StartedAt = (case spec_StartedAt spec of None \<Rightarrow> now | Some s \<Rightarrow> s), FinishedAt = None,
                 ExpectedSeconds = spec_ExpectedSeconds spec, TimeoutSeconds = resolveTimeoutSeconds spec (cfg p),
                 OutputBytes = 0, OutputTruncated = False, NotifyOnFinish = spec_NotifyOnFinish spec,
                 WokeAgent = False, Agent = cloneAgentInfo (spec_Agent spec), URL = trim_space (spec_URL spec),
                 PID = 0, LastOutputAt = None \<rparr>,
       sink = NewOutputSink (OutputBufferBytes (cfg p)), dir = None, handle = False, settled = False,
       termReason = None, exitObserved = False, resultAcknowledged = False, stops = 0 \<rparr>"

definition spec_system :: "Spec \<Rightarrow> bool" where
  "spec_system spec = (case spec_Agent spec of None \<Rightarrow> False | Some a \<Rightarrow> ag_System a)"

text \<open>The request \<^verbatim>\<open>Adopt\<close> starts: work that already runs gets the configured maximum unless it named a limit.\<close>

definition Adopt :: "Spec \<Rightarrow> Pool \<Rightarrow> Spec" where
  "Adopt spec p = (if spec_TimeoutSeconds spec \<le> 0 then spec\<lparr> spec_TimeoutSeconds := MaxTimeoutSeconds (cfg p) \<rparr> else spec)"

text \<open>The admission of \<^verbatim>\<open>start\<close>, up to the release of the pool's lock; the bundle directory it read goes on.\<close>

definition start_admit :: "Spec \<Rightarrow> int \<Rightarrow> Pool \<Rightarrow> (bg_error + nat \<times> bytes option) \<times> Pool" where
  "start_admit spec0 now p =
     (let spec = spec0\<lparr> spec_SessionID := trim_space (spec_SessionID spec0),
                        spec_Kind := (if spec_Kind spec0 = [] then KindCommand else spec_Kind spec0) \<rparr> in
      if spec_Kind spec = KindCommand \<and> trim_space (spec_Command spec) = [] then (Inl ErrEmptyCommand, p)
      else if draining p then (Inl ErrDraining, p)
      else if \<not> spec_system spec \<and> runningForSession (spec_SessionID spec) p \<ge> MaxConcurrent (cfg p)
        then (Inl (ErrPoolFull (MaxConcurrent (cfg p))), p)
      else let p1 = p\<lparr> seq := wrap64 (seq p + 1) \<rparr> in
        (Inr (length (heap p), map_of (sessionDirs p) (spec_SessionID spec)),
         registerLocked (new_task spec now p1) p1))"

text \<open>The task's directory; \<open>ok\<close> is whether it could be made.\<close>

definition start_dir :: "bool \<Rightarrow> nat \<Rightarrow> bytes option \<Rightarrow> Pool \<Rightarrow> Pool" where
  "start_dir ok r sessionDir p =
     (case sessionDir of
        None \<Rightarrow> p
      | Some d \<Rightarrow>
          if d = [] then p
          else let k = (d, ID (snap (heap p ! r)));
                   p = upd_task r (\<lambda>t. t\<lparr> dir := Some d \<rparr>) p
               in if ok \<and> map_of (disk p) k = None then p\<lparr> disk := AList.update k None (disk p) \<rparr> else p)"

text \<open>The launch failed.\<close>

definition start_failed :: "bytes \<Rightarrow> int \<Rightarrow> bool \<Rightarrow> nat \<Rightarrow> Pool \<Rightarrow> Pool" where
  "start_failed err now ok r p =
     (let p = upd_task r (\<lambda>t. t\<lparr> snap := (snap t)\<lparr> Status := StatusFailed, Error := err, FinishedAt := Some now \<rparr>,
                                   settled := True \<rparr>) p
      in bg_notify r (persist ok r p))"

text \<open>The launch handed its handle over: \<^verbatim>\<open>attachHandle\<close>, and the stop of a task claimed meanwhile.\<close>

definition attach :: "int \<Rightarrow> bool \<Rightarrow> nat \<Rightarrow> Pool \<Rightarrow> Pool" where
  "attach pid ok r p =
     (let p = upd_task r (\<lambda>t. t\<lparr> handle := True, snap := (snap t)\<lparr> PID := pid \<rparr>,
                 stops := (if termReason t \<noteq> None then stops t + 1 else stops t) \<rparr>) p
      in bg_notify r (persist ok r p))"

text \<open>\<^verbatim>\<open>claimTermination\<close> with the stop of the handle it returns, by a caller of \<^verbatim>\<open>Stop\<close> or by the timer.\<close>

definition claimTermination :: "Status \<Rightarrow> task \<Rightarrow> bool \<times> task" where
  "claimTermination reason t =
     (if exitObserved t \<or> Finished (Status (snap t)) \<or> termReason t \<noteq> None then (False, t)
      else (True, t\<lparr> termReason := Some reason, stops := (if handle t then stops t + 1 else stops t) \<rparr>))"

definition claim :: "Status \<Rightarrow> nat \<Rightarrow> Pool \<Rightarrow> Pool" where
  "claim reason r p = upd_task r (\<lambda>t. snd (claimTermination reason t)) p"

definition markExitObserved :: "nat \<Rightarrow> Pool \<Rightarrow> Pool" where
  "markExitObserved r p = upd_task r (\<lambda>t. t\<lparr> exitObserved := True \<rparr>) p"

text \<open>The end of \<^verbatim>\<open>supervise\<close>: the outcome, and then the record, the waiters and the watchers.\<close>

definition outcome :: "int \<Rightarrow> bytes option \<Rightarrow> int \<Rightarrow> task \<Rightarrow> task" where
  "outcome code err now t =
     (let s = (case termReason t of
                 Some reason \<Rightarrow> (snap t)\<lparr> Status := reason \<rparr>
               | None \<Rightarrow>
                   (case err of
                      Some e \<Rightarrow> (snap t)\<lparr> Status := StatusFailed, Error := e \<rparr>
                    | None \<Rightarrow> if code = 0 then (snap t)\<lparr> Status := StatusSucceeded \<rparr>
                              else (snap t)\<lparr> Status := StatusFailed \<rparr>))
      in t\<lparr> snap := s\<lparr> ExitCode := Some code, FinishedAt := Some now \<rparr> \<rparr>)"

definition supervise_outcome :: "int \<Rightarrow> bytes option \<Rightarrow> int \<Rightarrow> nat \<Rightarrow> Pool \<Rightarrow> Pool" where
  "supervise_outcome code err now r p = upd_task r (outcome code err now) p"

definition supervise_publish :: "bool \<Rightarrow> nat \<Rightarrow> Pool \<Rightarrow> Pool" where
  "supervise_publish ok r p = bg_notify r (upd_task r (\<lambda>t. t\<lparr> settled := True \<rparr>) (persist ok r p))"

definition task_Write :: "bytes \<Rightarrow> int \<Rightarrow> nat \<Rightarrow> Pool \<Rightarrow> Pool" where
  "task_Write b now r p = upd_task r (\<lambda>t. t\<lparr> sink := sink_Write b now (sink t) \<rparr>) p"

section \<open>Records on disk\<close>

text \<open>The rows of a bundle directory, by name as \<^verbatim>\<open>os.ReadDir\<close> lists them.\<close>

definition dir_rows :: "bytes \<Rightarrow> Pool \<Rightarrow> (bytes \<times> Snapshot option) list" where
  "dir_rows d p =
     sort_key (\<lambda>r. map (of_char :: char \<Rightarrow> nat) (fst r))
       (map (\<lambda>r. (snd (fst r), snd r)) (filter (\<lambda>r. fst (fst r) = d) (disk p)))"

definition orphan :: "Snapshot \<Rightarrow> Snapshot" where
  "orphan s = (if Finished (Status s) then s else s\<lparr> Status := StatusOrphaned \<rparr>)"

definition LoadPersisted :: "bytes \<Rightarrow> Pool \<Rightarrow> Snapshot list" where
  "LoadPersisted sessionDir p =
     (let d = trim_space sessionDir in
      if d = [] then []
      else sort_key StartedAt
        (map orphan (filter (\<lambda>s. ID s \<noteq> [])
          (concat (map (\<lambda>r. case snd r of None \<Rightarrow> [] | Some s \<Rightarrow> [s]) (dir_rows d p))))))"

definition task_number :: "bytes \<Rightarrow> int option" where
  "task_number name = (if has_prefix name taskIDPrefix then Atoi (drop (length taskIDPrefix) name) else None)"

definition highestPersistedTaskNumber :: "bytes \<Rightarrow> Pool \<Rightarrow> int" where
  "highestPersistedTaskNumber d p =
     fold (\<lambda>r h. case task_number (fst r) of None \<Rightarrow> h | Some n \<Rightarrow> max h n) (dir_rows d p) 0"

definition SetSessionDir :: "bytes \<Rightarrow> bytes \<Rightarrow> Pool \<Rightarrow> Pool" where
  "SetSessionDir sid0 d0 p =
     (let sid = trim_space sid0; d = trim_space d0 in
      if sid = [] then p
      else if d = [] then p\<lparr> sessionDirs := AList.delete sid (sessionDirs p) \<rparr>
      else p\<lparr> sessionDirs := AList.update sid d (sessionDirs p),
             seq := max (seq p) (highestPersistedTaskNumber d p) \<rparr>)"

section \<open>Results, wakes and usage\<close>

definition SetAgentUsageStatus :: "bytes \<Rightarrow> bytes \<Rightarrow> int \<Rightarrow> int \<Rightarrow> bool \<Rightarrow> Pool \<Rightarrow> bool \<times> Pool" where
  "SetAgentUsageStatus sid tid i out incomplete p =
     (case lookup_task sid tid p of
        None \<Rightarrow> (False, p)
      | Some r \<Rightarrow>
          (case Agent (snap (heap p ! r)) of
             None \<Rightarrow> (False, p)
           | Some a \<Rightarrow>
               (True, upd_task r (\<lambda>t. t\<lparr> snap := (snap t)\<lparr> Agent := Some (a\<lparr> InputTokens := max 0 i,
                  OutputTokens := max 0 out, UsageIncomplete := UsageIncomplete a \<or> incomplete \<rparr>) \<rparr> \<rparr>) p)))"

definition MarkWokeAgent_one :: "bool \<Rightarrow> bytes \<Rightarrow> bytes \<Rightarrow> Pool \<Rightarrow> Pool" where
  "MarkWokeAgent_one ok sid tid p =
     (case lookup_task sid tid p of
        None \<Rightarrow> p
      | Some r \<Rightarrow>
          let marked = WokeAgent (snap (heap p ! r));
              p = upd_task r (\<lambda>t. t\<lparr> snap := (snap t)\<lparr> WokeAgent := True \<rparr> \<rparr>) p
          in if \<not> marked then persist ok r p else p)"

definition MarkWokeAgent :: "bool \<Rightarrow> bytes \<Rightarrow> bytes list \<Rightarrow> Pool \<Rightarrow> Pool" where
  "MarkWokeAgent ok sid tids p = fold (MarkWokeAgent_one ok sid) tids p"

definition AcknowledgeResult :: "bytes \<Rightarrow> bytes \<Rightarrow> Pool \<Rightarrow> (bg_error + unit) \<times> Pool" where
  "AcknowledgeResult sid tid p =
     (case lookup_task sid tid p of
        None \<Rightarrow> (Inl ErrNotFound, p)
      | Some r \<Rightarrow> (Inr (), upd_task r (\<lambda>t. t\<lparr> resultAcknowledged := True \<rparr>) p))"

definition WakePending :: "bytes \<Rightarrow> bytes \<Rightarrow> Pool \<Rightarrow> bool" where
  "WakePending sid tid p =
     (case lookup_task sid tid p of
        None \<Rightarrow> False
      | Some r \<Rightarrow>
          let t = heap p ! r in
          NotifyOnFinish (snap t) \<and> Finished (Status (snap t)) \<and> \<not> resultAcknowledged t \<and> \<not> WokeAgent (snap t))"

definition List_tasks :: "bytes \<Rightarrow> Pool \<Rightarrow> Snapshot list" where
  "List_tasks sid0 p =
     (let sid = trim_space sid0 in
      sort_key StartedAt (concat (map (\<lambda>key. case map_of (tasks p) key of
          None \<Rightarrow> []
        | Some r \<Rightarrow> if SessionID (snap (heap p ! r)) = sid then [Snapshot_of (heap p ! r)] else []) (order p))))"

definition Get :: "bytes \<Rightarrow> bytes \<Rightarrow> Pool \<Rightarrow> bg_error + Snapshot" where
  "Get sid tid p = (case lookup_task sid tid p of None \<Rightarrow> Inl ErrNotFound | Some r \<Rightarrow> Inr (Snapshot_of (heap p ! r)))"

text \<open>\<open>decode\<close> is the conversion of a window to text.\<close>

definition Output :: "(bytes \<Rightarrow> bytes) \<Rightarrow> bytes \<Rightarrow> bytes \<Rightarrow> int \<Rightarrow> Pool \<Rightarrow> bg_error + bytes \<times> Snapshot" where
  "Output decode sid tid n p =
     (case lookup_task sid tid p of
        None \<Rightarrow> Inl ErrNotFound
      | Some r \<Rightarrow> Inr (TailLines (decode (buf (sink (heap p ! r)))) n, Snapshot_of (heap p ! r)))"

definition SessionTasks :: "bytes \<Rightarrow> bytes \<Rightarrow> Pool \<Rightarrow> Snapshot list" where
  "SessionTasks sid sessionDir p =
     (let live = List_tasks sid p in
      live @ map (\<lambda>s. s\<lparr> SessionID := sid \<rparr>)
        (filter (\<lambda>s. ID s \<notin> ID ` set live) (LoadPersisted sessionDir p)))"

definition RunningCountsBySession :: "Pool \<Rightarrow> bytes \<Rightarrow> nat" where
  "RunningCountsBySession p sid =
     length (filter (\<lambda>e. let s = snap (heap p ! snd e) in \<not> SystemTask s \<and> \<not> Finished (Status s) \<and> SessionID s = sid) (tasks p))"

definition CountUnfinished :: "Pool \<Rightarrow> bytes \<Rightarrow> Status \<Rightarrow> nat" where
  "CountUnfinished p kind status =
     length (filter (\<lambda>e. let s = snap (heap p ! snd e) in
       \<not> SystemTask s \<and> \<not> Finished (Status s) \<and> Kind s = kind \<and> Status s = status) (tasks p))"

section \<open>Stopping and clearing\<close>

text \<open>\<open>alive\<close> is \<^verbatim>\<open>platform.ProcessGroupAlive\<close> of a recorded process group.\<close>

definition is_survivor :: "(int \<Rightarrow> bool) \<Rightarrow> Snapshot \<Rightarrow> bool" where
  "is_survivor alive s \<longleftrightarrow> Status s = StatusOrphaned \<and> 0 < PID s \<and> alive (PID s)"

definition writePersistedSnapshot :: "bool \<Rightarrow> bytes \<Rightarrow> Snapshot \<Rightarrow> Pool \<Rightarrow> Pool" where
  "writePersistedSnapshot ok d s p =
     (if trim_space d = [] \<or> trim_space (ID s) = [] then p
      else if ok \<and> map_of (disk p) (d, ID s) \<noteq> None
        then p\<lparr> disk := AList.update (d, ID s) (Some s) (disk p) \<rparr> else p)"

definition Survivors :: "(int \<Rightarrow> bool) \<Rightarrow> bytes \<Rightarrow> Pool \<Rightarrow> Snapshot list" where
  "Survivors alive sid p =
     (case map_of (sessionDirs p) (trim_space sid) of
        None \<Rightarrow> []
      | Some d \<Rightarrow>
          if d = [] then []
          else filter (\<lambda>s. ID s \<notin> ID ` set (List_tasks sid p) \<and> is_survivor alive s) (LoadPersisted d p))"

text \<open>The terminated process groups are the second result.\<close>

definition ReapSurvivors :: "(int \<Rightarrow> bool) \<Rightarrow> bool \<Rightarrow> int \<Rightarrow> bytes \<Rightarrow> Pool \<Rightarrow> Snapshot list \<times> int list \<times> Pool" where
  "ReapSurvivors alive ok now sid p =
     (let reaped = Survivors alive sid p;
          rows = map (\<lambda>s. s\<lparr> Status := StatusStopped, FinishedAt := Some now \<rparr>) reaped
      in (rows, map PID reaped,
          (case map_of (sessionDirs p) (trim_space sid) of
             None \<Rightarrow> p
           | Some d \<Rightarrow> if d = [] then p else fold (writePersistedSnapshot ok d) rows p)))"

definition stopSurvivor :: "(int \<Rightarrow> bool) \<Rightarrow> bool \<Rightarrow> int \<Rightarrow> bytes \<Rightarrow> bytes \<Rightarrow> Pool \<Rightarrow> Snapshot option \<times> int list \<times> Pool" where
  "stopSurvivor alive ok now sid tid p =
     (case map_of (sessionDirs p) (trim_space sid) of
        None \<Rightarrow> (None, [], p)
      | Some d \<Rightarrow>
          if d = [] then (None, [], p)
          else (case filter (\<lambda>s. ID s = trim_space tid) (LoadPersisted d p) of
                  [] \<Rightarrow> (None, [], p)
                | s # _ \<Rightarrow>
                    if is_survivor alive s
                    then let s' = s\<lparr> Status := StatusStopped, FinishedAt := Some now \<rparr> in
                      (Some s', [PID s], writePersistedSnapshot ok d s' p)
                    else (Some s, [], p)))"

text \<open>\<^verbatim>\<open>Stop\<close> up to its wait for the task to settle.\<close>

definition Stop :: "(int \<Rightarrow> bool) \<Rightarrow> bool \<Rightarrow> int \<Rightarrow> bytes \<Rightarrow> bytes \<Rightarrow> Pool \<Rightarrow> int list \<times> Pool" where
  "Stop alive ok now sid tid p =
     (case lookup_task sid tid p of
        None \<Rightarrow> snd (stopSurvivor alive ok now sid tid p)
      | Some r \<Rightarrow> ([], claim StatusStopped r p))"

text \<open>
  \<^verbatim>\<open>StopSession\<close> and \<^verbatim>\<open>StopAll\<close>: one stop after another, each up to its wait. \<open>sids\<close> is the
  order in which the iteration of the map of sessions gives them.
\<close>

definition StopSession :: "(int \<Rightarrow> bool) \<Rightarrow> bool \<Rightarrow> int \<Rightarrow> bytes \<Rightarrow> Pool \<Rightarrow> Pool" where
  "StopSession alive ok now sid p =
     fold (\<lambda>s q. snd (Stop alive ok now sid (ID s) q)) (filter (\<lambda>s. \<not> Finished (Status s)) (List_tasks sid p)) p"

definition task_sessions :: "Pool \<Rightarrow> bytes set" where
  "task_sessions p = (\<lambda>e. SessionID (snap (heap p ! snd e))) ` set (tasks p)"

definition StopAll :: "(int \<Rightarrow> bool) \<Rightarrow> bool \<Rightarrow> int \<Rightarrow> bytes list \<Rightarrow> Pool \<Rightarrow> Pool" where
  "StopAll alive ok now sids p = fold (StopSession alive ok now) sids p"

definition SetDraining :: "bool \<Rightarrow> Pool \<Rightarrow> Pool" where
  "SetDraining b p = p\<lparr> draining := b \<rparr>"

definition SetConfig :: "Config \<Rightarrow> Pool \<Rightarrow> Pool" where
  "SetConfig c p = p\<lparr> cfg := normalised c \<rparr>"

text \<open>\<^verbatim>\<open>os.RemoveAll\<close> of a task's directory.\<close>

definition remove_dir :: "bytes option \<Rightarrow> bytes \<Rightarrow> Pool \<Rightarrow> Pool" where
  "remove_dir d tid p = (case d of None \<Rightarrow> p | Some d \<Rightarrow> p\<lparr> disk := AList.delete (d, tid) (disk p) \<rparr>)"

definition finished_key :: "bytes \<Rightarrow> Pool \<Rightarrow> bytes \<Rightarrow> bool" where
  "finished_key sid p key =
     (case map_of (tasks p) key of
        None \<Rightarrow> False
      | Some r \<Rightarrow> SessionID (snap (heap p ! r)) = sid \<and> Finished (Status (snap (heap p ! r))))"

definition drop_keys :: "bytes list \<Rightarrow> Pool \<Rightarrow> Pool" where
  "drop_keys keys p = p\<lparr> tasks := filter (\<lambda>e. fst e \<notin> set keys) (tasks p),
     order := filter (\<lambda>key. map_of (tasks p) key \<noteq> None \<and> key \<notin> set keys) (order p) \<rparr>"

definition ClearFinished :: "bytes \<Rightarrow> Pool \<Rightarrow> int \<times> Pool" where
  "ClearFinished sid0 p =
     (let sid = trim_space sid0;
          removed = filter (finished_key sid p) (order p);
          gone = map (\<lambda>key. heap p ! the (map_of (tasks p) key)) removed;
          p1 = fold (\<lambda>t. remove_dir (dir t) (ID (snap t))) gone (drop_keys removed p)
      in case map_of (sessionDirs p) sid of
           None \<Rightarrow> (int (length removed), p1)
         | Some d \<Rightarrow>
             if d = [] then (int (length removed), p1)
             else let old = filter (\<lambda>s. ID s \<notin> ID ` set (List_tasks sid p1) \<and> Finished (Status s)) (LoadPersisted d p1)
                  in (int (length removed) + int (length old), fold (\<lambda>s. remove_dir (Some d) (ID s)) old p1))"

text \<open>\<open>Base\<close> is \<^verbatim>\<open>filepath.Base\<close>.\<close>

definition Forget :: "(bytes \<Rightarrow> bytes) \<Rightarrow> bytes \<Rightarrow> bytes \<Rightarrow> Pool \<Rightarrow> (bg_error + unit) \<times> Pool" where
  "Forget Base sid0 tid0 p =
     (let sid = trim_space sid0; tid = trim_space tid0 in
      if tid = [] \<or> tid \<noteq> Base tid \<or> has_prefix tid ''.'' then (Inl ErrNotFound, p)
      else (case map_of (tasks p) (taskKey sid tid) of
              Some r \<Rightarrow>
                if \<not> Finished (Status (snap (heap p ! r))) then (Inl ErrTaskRunning, p)
                else (Inr (), remove_dir (dir (heap p ! r)) (ID (snap (heap p ! r)))
                       (p\<lparr> tasks := AList.delete (taskKey sid tid) (tasks p),
                           order := filter (\<lambda>k. k \<noteq> taskKey sid tid) (order p) \<rparr>))
            | None \<Rightarrow>
                (case map_of (sessionDirs p) sid of
                   None \<Rightarrow> (Inl ErrNotFound, p)
                 | Some d \<Rightarrow>
                     (case map_of (disk p) (d, tid) of
                        Some (Some _) \<Rightarrow> (Inr (), remove_dir (Some d) tid p)
                      | _ \<Rightarrow> (Inl ErrNotFound, p)))))"

definition ReleaseSession :: "bytes \<Rightarrow> Pool \<Rightarrow> Pool" where
  "ReleaseSession sid0 p =
     (let sid = trim_space sid0 in
      if sid = [] then p
      else (drop_keys (filter (finished_key sid p) (order p)) p)
             \<lparr> sessionDirs := AList.delete sid (sessionDirs p) \<rparr>)"

end
