(* ===== verification/BgTask_Correct.thy ===== *)
theory BgTask_Correct
  imports BgTask
begin

text \<open>
  What the pool of background tasks promises over any sequence of its critical sections: an
  outcome is final and published once, a handle is stopped at most once, the per-session cap holds,
  ids are not used twice even across processes, and no unfinished task is lost.
\<close>

section \<open>Runs\<close>

datatype bevent =
    BStart Spec int bool
  | BFailed bytes int bool nat
  | BAttach int bool nat
  | BTimer nat
  | BStop bytes bytes bool int "int list"
  | BExit nat
  | BOutcome int "bytes option" int nat
  | BPublish bool nat
  | BWrite bytes int nat
  | BUsage bytes bytes int int bool
  | BWoke bytes "bytes list" bool
  | BAck bytes bytes
  | BReap bytes bool int "int list"
  | BClear bytes
  | BForget bytes bytes
  | BRelease bytes
  | BDraining bool
  | BSetDir bytes bytes
  | BConfig Config

text \<open>
  The guards are what the code's own control flow gives: a launch returns once, the supervising
  goroutine exists once a handle does, it sees the exit, then writes the outcome, then publishes
  it. The process groups that are alive are listed in the event; the directory a task gets is made
  with its admission.
\<close>

definition live :: "nat \<Rightarrow> Pool \<Rightarrow> bool" where
  "live r p \<longleftrightarrow> r < length (heap p) \<and> \<not> settled (heap p ! r)"

fun bstep :: "(bytes \<Rightarrow> bytes) \<Rightarrow> bevent \<Rightarrow> Pool \<Rightarrow> Pool" where
  "bstep B (BStart spec now ok) p =
     (case start_admit spec now p of
        (Inl _, p') \<Rightarrow> p'
      | (Inr (r, d), p') \<Rightarrow> start_dir ok r d p')"
| "bstep B (BFailed err now ok r) p =
     (if live r p \<and> \<not> handle (heap p ! r) then start_failed err now ok r p else p)"
| "bstep B (BAttach pid ok r) p = (if live r p \<and> \<not> handle (heap p ! r) then attach pid ok r p else p)"
| "bstep B (BTimer r) p = (if live r p \<and> handle (heap p ! r) then claim StatusTimedOut r p else p)"
| "bstep B (BStop sid tid ok now alive) p = snd (Stop (\<lambda>pid. pid \<in> set alive) ok now sid tid p)"
| "bstep B (BExit r) p = (if live r p \<and> handle (heap p ! r) then markExitObserved r p else p)"
| "bstep B (BOutcome code err now r) p =
     (if live r p \<and> handle (heap p ! r) \<and> exitObserved (heap p ! r) \<and> \<not> Finished (Status (snap (heap p ! r)))
      then supervise_outcome code err now r p else p)"
| "bstep B (BPublish ok r) p =
     (if live r p \<and> handle (heap p ! r) \<and> Finished (Status (snap (heap p ! r))) then supervise_publish ok r p else p)"
| "bstep B (BWrite b now r) p = task_Write b now r p"
| "bstep B (BUsage sid tid i out inc) p = snd (SetAgentUsageStatus sid tid i out inc p)"
| "bstep B (BWoke sid tids ok) p = MarkWokeAgent ok sid tids p"
| "bstep B (BAck sid tid) p = snd (AcknowledgeResult sid tid p)"
| "bstep B (BReap sid ok now alive) p = snd (snd (ReapSurvivors (\<lambda>pid. pid \<in> set alive) ok now sid p))"
| "bstep B (BClear sid) p = snd (ClearFinished sid p)"
| "bstep B (BForget sid tid) p = snd (Forget B sid tid p)"
| "bstep B (BRelease sid) p = ReleaseSession sid p"
| "bstep B (BDraining b) p = SetDraining b p"
| "bstep B (BSetDir sid d) p = SetSessionDir sid d p"
| "bstep B (BConfig c) p = SetConfig c p"

definition brun :: "(bytes \<Rightarrow> bytes) \<Rightarrow> bevent list \<Rightarrow> Pool \<Rightarrow> Pool" where
  "brun B es p = fold (bstep B) es p"

lemma brun_append: "brun B (es @ fs) p = brun B fs (brun B es p)"
  by (simp add: brun_def)

lemma brun_snoc: "brun B (es @ [e]) p = bstep B e (brun B es p)"
  by (simp add: brun_def)

section \<open>What a step does to the heap\<close>

text \<open>
  The operations on records and tables leave the heap alone; every other operation changes one
  cell. \<open>cell_step\<close> names the change of one cell, whatever became of the tables.
\<close>

definition same_heap :: "Pool \<Rightarrow> Pool \<Rightarrow> bool" where
  "same_heap p q \<longleftrightarrow> heap q = heap p \<and> notified q = notified p"

lemma same_heap_refl [simp]: "same_heap p p"
  by (simp add: same_heap_def)

lemma persist_fields [simp]:
  "heap (persist ok r p) = heap p" "notified (persist ok r p) = notified p"
  "tasks (persist ok r p) = tasks p" "cfg (persist ok r p) = cfg p" "seq (persist ok r p) = seq p"
  "sessionDirs (persist ok r p) = sessionDirs p" "order (persist ok r p) = order p"
  by (simp_all add: persist_def Let_def split: option.split)

lemma bg_notify_fields [simp]:
  "heap (bg_notify r p) = heap p" "tasks (bg_notify r p) = tasks p" "cfg (bg_notify r p) = cfg p"
  "seq (bg_notify r p) = seq p" "sessionDirs (bg_notify r p) = sessionDirs p" "disk (bg_notify r p) = disk p"
  "notified (bg_notify r p) = notified p @ [(r, Snapshot_of (heap p ! r))]"
  by (simp_all add: bg_notify_def)

lemma upd_task_fields [simp]:
  "tasks (upd_task r f p) = tasks p" "cfg (upd_task r f p) = cfg p" "seq (upd_task r f p) = seq p"
  "sessionDirs (upd_task r f p) = sessionDirs p" "disk (upd_task r f p) = disk p"
  "notified (upd_task r f p) = notified p" "length (heap (upd_task r f p)) = length (heap p)"
  by (simp_all add: upd_task_def)

lemma upd_task_nth: "i < length (heap p) \<Longrightarrow> heap (upd_task r f p) ! i = (if i = r then f (heap p ! i) else heap p ! i)"
  by (simp add: upd_task_def nth_list_update)

lemma writePersisted_fields [simp]:
  "heap (writePersistedSnapshot ok d s p) = heap p" "notified (writePersistedSnapshot ok d s p) = notified p"
  "tasks (writePersistedSnapshot ok d s p) = tasks p" "cfg (writePersistedSnapshot ok d s p) = cfg p"
  "seq (writePersistedSnapshot ok d s p) = seq p" "sessionDirs (writePersistedSnapshot ok d s p) = sessionDirs p"
  by (simp_all add: writePersistedSnapshot_def)


lemma fold_writePersisted [simp]:
  "heap (fold (writePersistedSnapshot ok d) xs p) = heap p" "notified (fold (writePersistedSnapshot ok d) xs p) = notified p"
  "tasks (fold (writePersistedSnapshot ok d) xs p) = tasks p" "cfg (fold (writePersistedSnapshot ok d) xs p) = cfg p"
  "seq (fold (writePersistedSnapshot ok d) xs p) = seq p"
  "sessionDirs (fold (writePersistedSnapshot ok d) xs p) = sessionDirs p"
  by (induction xs arbitrary: p) simp_all

lemma remove_dir_fields [simp]:
  "heap (remove_dir d t p) = heap p" "notified (remove_dir d t p) = notified p" "tasks (remove_dir d t p) = tasks p"
  "cfg (remove_dir d t p) = cfg p" "seq (remove_dir d t p) = seq p" "sessionDirs (remove_dir d t p) = sessionDirs p"
  by (simp_all add: remove_dir_def split: option.split)

lemma fold_remove_dir [simp]:
  "heap (fold (\<lambda>x. remove_dir (f x) (g x)) xs p) = heap p"
  "notified (fold (\<lambda>x. remove_dir (f x) (g x)) xs p) = notified p"
  "tasks (fold (\<lambda>x. remove_dir (f x) (g x)) xs p) = tasks p"
  "cfg (fold (\<lambda>x. remove_dir (f x) (g x)) xs p) = cfg p" "seq (fold (\<lambda>x. remove_dir (f x) (g x)) xs p) = seq p"
  "sessionDirs (fold (\<lambda>x. remove_dir (f x) (g x)) xs p) = sessionDirs p"
  by (induction xs arbitrary: p) simp_all

lemma drop_keys_fields [simp]:
  "heap (drop_keys ks p) = heap p" "notified (drop_keys ks p) = notified p" "cfg (drop_keys ks p) = cfg p"
  "seq (drop_keys ks p) = seq p" "sessionDirs (drop_keys ks p) = sessionDirs p" "disk (drop_keys ks p) = disk p"
  "tasks (drop_keys ks p) = filter (\<lambda>e. fst e \<notin> set ks) (tasks p)"
  by (simp_all add: drop_keys_def)

section \<open>One task\<close>

text \<open>
  How often the finished task \<open>r\<close> was published, what holds of its cell, and what its cell may
  become: a written outcome stays, a claimed reason stays, and once the exit was seen no reason is
  claimed any more.
\<close>

definition published :: "nat \<Rightarrow> Pool \<Rightarrow> nat" where
  "published r p = length (filter (\<lambda>e. fst e = r \<and> Finished (Status (snd e))) (notified p))"

definition cell_ok :: "nat \<Rightarrow> task \<Rightarrow> bool" where
  "cell_ok n t \<longleftrightarrow>
     stops t = (if handle t \<and> termReason t \<noteq> None then 1 else 0) \<and>
     n = (if settled t then 1 else 0) \<and>
     (settled t \<longrightarrow> Finished (Status (snap t))) \<and>
     (Finished (Status (snap t)) \<longrightarrow> (if handle t then exitObserved t else settled t)) \<and>
     (exitObserved t \<longrightarrow> handle t) \<and>
     termReason t \<in> {None, Some StatusStopped, Some StatusTimedOut} \<and>
     (handle t \<and> Finished (Status (snap t)) \<longrightarrow> (case termReason t of None \<Rightarrow> True | Some s \<Rightarrow> Status (snap t) = s))"

definition same_outcome :: "Snapshot \<Rightarrow> Snapshot \<Rightarrow> bool" where
  "same_outcome a b \<longleftrightarrow> Status b = Status a \<and> ExitCode b = ExitCode a \<and> Error b = Error a \<and> FinishedAt b = FinishedAt a"

definition evolves :: "task \<Rightarrow> task \<Rightarrow> bool" where
  "evolves t u \<longleftrightarrow>
     ID (snap u) = ID (snap t) \<and> SessionID (snap u) = SessionID (snap t) \<and> SystemTask (snap u) = SystemTask (snap t) \<and>
     (Finished (Status (snap t)) \<longrightarrow> same_outcome (snap t) (snap u)) \<and>
     (\<forall>s. termReason t = Some s \<longrightarrow> termReason u = Some s) \<and>
     (exitObserved t \<longrightarrow> exitObserved u \<and> termReason u = termReason t)"

definition pool_ok :: "Pool \<Rightarrow> bool" where
  "pool_ok p \<longleftrightarrow> (\<forall>r<length (heap p). cell_ok (published r p) (heap p ! r)) \<and> (\<forall>e\<in>set (notified p). fst e < length (heap p))"

definition pool_evolves :: "Pool \<Rightarrow> Pool \<Rightarrow> bool" where
  "pool_evolves p q \<longleftrightarrow> length (heap p) \<le> length (heap q) \<and> (\<forall>r<length (heap p). evolves (heap p ! r) (heap q ! r))"

named_theorems cell_defs
lemmas [cell_defs] = cell_ok_def evolves_def same_outcome_def

lemma same_outcome_refl [simp]: "same_outcome a a"
  by (simp add: same_outcome_def)

lemma same_outcome_trans: "same_outcome a b \<Longrightarrow> same_outcome b c \<Longrightarrow> same_outcome a c"
  by (simp add: same_outcome_def)

lemma evolves_refl [simp]: "evolves t t"
  by (simp add: evolves_def)

lemma evolves_trans: "evolves t u \<Longrightarrow> evolves u v \<Longrightarrow> evolves t v"
  unfolding evolves_def same_outcome_def by metis

lemma pool_evolves_refl [simp]: "pool_evolves p p"
  by (simp add: pool_evolves_def)

lemma pool_evolves_trans: "pool_evolves p q \<Longrightarrow> pool_evolves q s \<Longrightarrow> pool_evolves p s"
  unfolding pool_evolves_def by (meson evolves_trans le_trans less_le_trans)

lemma Finished_simps [simp]:
  "Finished StatusStopped" "Finished StatusTimedOut" "Finished StatusFailed" "Finished StatusSucceeded"
  "Finished StatusOrphaned" "\<not> Finished StatusRunning" "\<not> Finished StatusQueued"
  by (simp_all add: Finished_def)

text \<open>The steps of one cell: the invariant, with the publication the step makes, and the evolution.\<close>

lemma cell_claim:
  assumes "cell_ok n t" "reason \<in> {StatusStopped, StatusTimedOut}"
  shows "cell_ok n (snd (claimTermination reason t)) \<and> evolves t (snd (claimTermination reason t))"
proof (cases "exitObserved t \<or> Finished (Status (snap t)) \<or> termReason t \<noteq> None")
  case True
  then have "claimTermination reason t = (False, t)" by (simp add: claimTermination_def)
  with assms(1) show ?thesis by simp
next
  case False
  with assms show ?thesis by (simp add: claimTermination_def cell_defs)
qed

lemma cell_exit:
  assumes "cell_ok n t" "handle t"
  shows "cell_ok n (t\<lparr> exitObserved := True \<rparr>) \<and> evolves t (t\<lparr> exitObserved := True \<rparr>)"
  using assms by (auto simp: cell_defs)

lemma cell_outcome:
  assumes "cell_ok n t" "handle t" "exitObserved t" "\<not> Finished (Status (snap t))"
  shows "cell_ok n (outcome code err now t) \<and> evolves t (outcome code err now t)"
  using assms by (auto simp: outcome_def cell_defs SystemTask_def Let_def split: option.splits)

lemma cell_settle:
  assumes "cell_ok n t" "\<not> settled t" "Finished (Status (snap t))"
  shows "cell_ok (Suc n) (t\<lparr> settled := True \<rparr>) \<and> evolves t (t\<lparr> settled := True \<rparr>)"
  using assms by (auto simp: cell_defs split: if_splits)

lemma cell_failed:
  assumes "cell_ok n t" "\<not> settled t" "\<not> handle t"
  shows "cell_ok (Suc n) (t\<lparr> snap := (snap t)\<lparr> Status := StatusFailed, Error := e, FinishedAt := f \<rparr>, settled := True \<rparr>)
    \<and> evolves t (t\<lparr> snap := (snap t)\<lparr> Status := StatusFailed, Error := e, FinishedAt := f \<rparr>, settled := True \<rparr>)"
  using assms by (auto simp: cell_defs SystemTask_def)

lemma cell_attach:
  assumes "cell_ok n t" "\<not> settled t" "\<not> handle t"
  shows "let u = t\<lparr> handle := True, snap := (snap t)\<lparr> PID := pid \<rparr>,
                 stops := (if termReason t \<noteq> None then stops t + 1 else stops t) \<rparr>
         in cell_ok n u \<and> evolves t u \<and> Status (snap u) = Status (snap t) \<and> \<not> Finished (Status (snap t))"
  using assms by (auto simp: cell_defs SystemTask_def Let_def)

section \<open>Lifting to the pool\<close>

definition good_step :: "Pool \<Rightarrow> Pool \<Rightarrow> bool" where
  "good_step p q \<longleftrightarrow> pool_ok q \<and> pool_evolves p q"

lemma good_step_trans: "good_step p q \<Longrightarrow> good_step q s \<Longrightarrow> good_step p s"
  by (auto simp: good_step_def intro: pool_evolves_trans)

lemma good_step_refl: "pool_ok p \<Longrightarrow> good_step p p"
  by (simp add: good_step_def)

lemma good_step_same:
  assumes "pool_ok p" "heap q = heap p" "notified q = notified p"
  shows "good_step p q"
  using assms by (simp add: good_step_def pool_ok_def pool_evolves_def published_def)

lemma published_same: "notified q = notified p \<Longrightarrow> published r q = published r p"
  by (simp add: published_def)

lemma Snapshot_of_status [simp]: "Status (Snapshot_of t) = Status (snap t)"
  by (simp add: Snapshot_of_def Let_def split: option.split)

lemma published_notify [simp]:
  "published i (bg_notify r p) = published i p + (if i = r \<and> Finished (Status (snap (heap p ! r))) then 1 else 0)"
  by (auto simp: published_def)

lemma good_step_cell:
  assumes ok: "pool_ok p" and r: "r < length (heap p) \<Longrightarrow>
      cell_ok (published r p) (f (heap p ! r)) \<and> evolves (heap p ! r) (f (heap p ! r))"
  shows "good_step p (upd_task r f p)"
proof -
  have "published i (upd_task r f p) = published i p" for i by (rule published_same) simp
  with ok r show ?thesis
    by (auto simp: good_step_def pool_ok_def pool_evolves_def upd_task_nth)
qed

lemma good_step_notify:
  assumes ok: "pool_ok p" and r: "r < length (heap p)"
    and h: "heap q = (heap p)[r := t]" and n: "notified q = notified p"
    and c: "cell_ok (published r p + (if Finished (Status (snap t)) then 1 else 0)) t" and e: "evolves (heap p ! r) t"
  shows "good_step p (bg_notify r q)"
proof -
  have pub: "published i q = published i p" for i by (rule published_same) (rule n)
  have "pool_ok (bg_notify r q)"
    unfolding pool_ok_def
  proof (intro conjI allI impI ballI)
    fix i assume "i < length (heap (bg_notify r q))"
    then show "cell_ok (published i (bg_notify r q)) (heap (bg_notify r q) ! i)"
      using ok c r by (cases "i = r") (simp_all add: h pub pool_ok_def)
  next
    fix x assume "x \<in> set (notified (bg_notify r q))"
    then show "fst x < length (heap (bg_notify r q))" using ok r by (auto simp: h n pool_ok_def)
  qed
  moreover have "pool_evolves p (bg_notify r q)"
    using e r by (auto simp: pool_evolves_def h nth_list_update)
  ultimately show ?thesis by (simp add: good_step_def)
qed

lemma good_step_append:
  assumes ok: "pool_ok p" and h: "heap q = heap p @ [t]" and n: "notified q = notified p" and c: "cell_ok 0 t"
  shows "good_step p q"
proof -
  have pub: "published i q = published i p" for i by (rule published_same) (rule n)
  have "published (length (heap p)) p = 0"
    using ok by (auto simp: published_def pool_ok_def filter_empty_conv)
  with ok h n c pub show ?thesis
    by (auto simp: good_step_def pool_ok_def pool_evolves_def nth_append less_Suc_eq)
qed

lemma pool_ok_cell: "pool_ok p \<Longrightarrow> r < length (heap p) \<Longrightarrow> cell_ok (published r p) (heap p ! r)"
  by (simp add: pool_ok_def)

section \<open>Every step is good\<close>

lemma start_dir_heap: "heap (start_dir ok r d p) = (case d of None \<Rightarrow> heap p | Some d' \<Rightarrow>
    if d' = [] \<or> \<not> r < length (heap p) then heap p else (heap p)[r := (heap p ! r)\<lparr> dir := Some d' \<rparr>])"
  by (simp add: start_dir_def upd_task_def Let_def split: option.split)

lemma start_dir_fields [simp]:
  "notified (start_dir ok r d p) = notified p" "tasks (start_dir ok r d p) = tasks p" "cfg (start_dir ok r d p) = cfg p"
  "seq (start_dir ok r d p) = seq p" "sessionDirs (start_dir ok r d p) = sessionDirs p"
  by (simp_all add: start_dir_def Let_def split: option.split)

lemma start_admit_cases:
  obtains (refused) e where "start_admit spec now p = (Inl e, p)"
  | (admitted) spec' where "start_admit spec now p = (Inr (length (heap p), map_of (sessionDirs p) (spec_SessionID spec')),
       registerLocked (new_task spec' now (p\<lparr> seq := wrap64 (seq p + 1) \<rparr>)) (p\<lparr> seq := wrap64 (seq p + 1) \<rparr>))"
     "\<not> draining p" "\<not> spec_system spec' \<Longrightarrow> runningForSession (spec_SessionID spec') p < MaxConcurrent (cfg p)"
     "trim_space (spec_SessionID spec') = spec_SessionID spec'"
proof (cases "fst (start_admit spec now p)")
  case (Inl e)
  then have "start_admit spec now p = (Inl e, p)"
    by (auto simp: start_admit_def Let_def split: if_splits)
  then show thesis by (rule refused)
next
  case (Inr x)
  define spec' where "spec' = spec\<lparr> spec_SessionID := trim_space (spec_SessionID spec),
                        spec_Kind := (if spec_Kind spec = [] then KindCommand else spec_Kind spec) \<rparr>"
  have "start_admit spec now p = (Inr (length (heap p), map_of (sessionDirs p) (spec_SessionID spec')),
       registerLocked (new_task spec' now (p\<lparr> seq := wrap64 (seq p + 1) \<rparr>)) (p\<lparr> seq := wrap64 (seq p + 1) \<rparr>))"
    "\<not> draining p" "\<not> spec_system spec' \<Longrightarrow> runningForSession (spec_SessionID spec') p < MaxConcurrent (cfg p)"
    using Inr unfolding start_admit_def spec'_def[symmetric] by (auto simp: Let_def split: if_splits)
  then show thesis by (rule admitted) (simp_all add: spec'_def)
qed

lemma new_task_ok: "cell_ok 0 (new_task spec now p)" "cell_ok 0 ((new_task spec now p)\<lparr> dir := d \<rparr>)"
  by (simp_all add: new_task_def cell_ok_def)

lemma registerLocked_fields [simp]:
  "heap (registerLocked t p) = heap p @ [t]" "notified (registerLocked t p) = notified p" "cfg (registerLocked t p) = cfg p"
  "seq (registerLocked t p) = seq p" "sessionDirs (registerLocked t p) = sessionDirs p" "disk (registerLocked t p) = disk p"
  "tasks (registerLocked t p) = AList.update (taskKey (SessionID (snap t)) (ID (snap t))) (length (heap p)) (tasks p)"
  by (simp_all add: registerLocked_def Let_def)

lemma start_heap:
  assumes "heap p1 = heap p"
  shows "\<exists>d. heap (start_dir ok (length (heap p)) D (registerLocked (new_task s now p1) p1)) = heap p @ [(new_task s now p1)\<lparr> dir := d \<rparr>]"
proof -
  have "new_task s now p1 = (new_task s now p1)\<lparr> dir := None \<rparr>" by (simp add: new_task_def)
  then show ?thesis using assms by (auto simp: start_dir_heap split: option.split)
qed

lemma good_start: "pool_ok p \<Longrightarrow> good_step p (bstep B (BStart spec now ok) p)"
proof (cases rule: start_admit_cases[of spec now p])
  case (refused e)
  then show "pool_ok p \<Longrightarrow> ?thesis" by (simp add: good_step_refl)
next
  case (admitted spec')
  let ?d = "map_of (sessionDirs p) (spec_SessionID spec')"
  let ?t = "new_task spec' now (p\<lparr> seq := wrap64 (seq p + 1) \<rparr>)"
  let ?q = "bstep B (BStart spec now ok) p"
  have q: "?q = start_dir ok (length (heap p)) ?d (registerLocked ?t (p\<lparr> seq := wrap64 (seq p + 1) \<rparr>))"
    by (simp add: admitted(1))
  assume ok: "pool_ok p"
  have "\<exists>d. heap ?q = heap p @ [?t\<lparr> dir := d \<rparr>]"
    unfolding q by (rule start_heap) simp
  then obtain d where h: "heap ?q = heap p @ [?t\<lparr> dir := d \<rparr>]" by blast
  show ?thesis by (rule good_step_append[OF ok h]) (simp_all add: q new_task_ok del: bstep.simps)
qed

lemma good_failed:
  assumes "pool_ok p" shows "good_step p (bstep B (BFailed err now ok r) p)"
proof (cases "live r p \<and> \<not> handle (heap p ! r)")
  case True
  then have r: "r < length (heap p)" "\<not> settled (heap p ! r)" "\<not> handle (heap p ! r)" by (auto simp: live_def)
  define u where "u = (heap p ! r)\<lparr> snap := (snap (heap p ! r))\<lparr> Status := StatusFailed, Error := err,
    FinishedAt := Some now \<rparr>, settled := True \<rparr>"
  have c: "cell_ok (Suc (published r p)) u" "evolves (heap p ! r) u"
    using cell_failed[OF pool_ok_cell[OF assms r(1)] r(2,3), of "Some now" err] unfolding u_def[symmetric] by simp_all
  have "Finished (Status (snap u))" by (simp add: u_def)
  with c r have "good_step p (start_failed err now ok r p)"
    unfolding start_failed_def Let_def
    by (intro good_step_notify[OF assms r(1), where t = u]) (simp_all add: upd_task_def flip: u_def)
  with True show ?thesis by simp
qed (use assms in \<open>auto simp: good_step_refl\<close>)

lemma good_attach:
  assumes "pool_ok p" shows "good_step p (bstep B (BAttach pid ok r) p)"
proof (cases "live r p \<and> \<not> handle (heap p ! r)")
  case True
  then have r: "r < length (heap p)" "\<not> settled (heap p ! r)" "\<not> handle (heap p ! r)" by (auto simp: live_def)
  define u where "u = (heap p ! r)\<lparr> handle := True, snap := (snap (heap p ! r))\<lparr> PID := pid \<rparr>,
    stops := (if termReason (heap p ! r) \<noteq> None then stops (heap p ! r) + 1 else stops (heap p ! r)) \<rparr>"
  have c: "cell_ok (published r p) u" "evolves (heap p ! r) u" "\<not> Finished (Status (snap u))"
    using cell_attach[OF pool_ok_cell[OF assms r(1)] r(2,3), of pid] unfolding Let_def u_def[symmetric] by simp_all
  have "good_step p (attach pid ok r p)"
    unfolding attach_def Let_def
    by (rule good_step_notify[OF assms r(1), where t = u]) (use c r in \<open>simp_all add: upd_task_def u_def\<close>)
  with True show ?thesis by simp
qed (use assms in \<open>auto simp: good_step_refl\<close>)

lemma good_claim:
  "pool_ok p \<Longrightarrow> reason \<in> {StatusStopped, StatusTimedOut} \<Longrightarrow> good_step p (claim reason r p)"
  unfolding claim_def by (rule good_step_cell, assumption, rule cell_claim, rule pool_ok_cell)

lemma stopSurvivor_fields [simp]:
  "heap (snd (snd (stopSurvivor alive ok now sid tid p))) = heap p"
  "notified (snd (snd (stopSurvivor alive ok now sid tid p))) = notified p"
  "tasks (snd (snd (stopSurvivor alive ok now sid tid p))) = tasks p"
  "cfg (snd (snd (stopSurvivor alive ok now sid tid p))) = cfg p"
  "seq (snd (snd (stopSurvivor alive ok now sid tid p))) = seq p"
  "sessionDirs (snd (snd (stopSurvivor alive ok now sid tid p))) = sessionDirs p"
  by (simp_all add: stopSurvivor_def Let_def split: option.split list.split)

lemma Stop_good:
  assumes "pool_ok p" shows "good_step p (snd (Stop alive ok now sid tid p))"
  using assms by (auto simp: Stop_def good_claim good_step_same split: option.split)

lemma good_stop: "pool_ok p \<Longrightarrow> good_step p (bstep B (BStop sid tid ok now alive) p)"
  by (simp add: Stop_good)

lemma good_timer: "pool_ok p \<Longrightarrow> good_step p (bstep B (BTimer r) p)"
  by (simp add: good_claim good_step_refl)

lemma good_exit: "pool_ok p \<Longrightarrow> good_step p (bstep B (BExit r) p)"
  by (auto simp: markExitObserved_def good_step_refl
      intro: good_step_cell[where f = "exitObserved_update (\<lambda>_. True)", OF _ cell_exit[OF pool_ok_cell]])

lemma good_outcome: "pool_ok p \<Longrightarrow> good_step p (bstep B (BOutcome code err now r) p)"
  by (auto simp: supervise_outcome_def good_step_refl
      intro: good_step_cell[where f = "outcome code err now", OF _ cell_outcome[OF pool_ok_cell]])

lemma good_publish:
  assumes "pool_ok p" shows "good_step p (bstep B (BPublish ok r) p)"
proof (cases "live r p \<and> handle (heap p ! r) \<and> Finished (Status (snap (heap p ! r)))")
  case True
  then have r: "r < length (heap p)" "\<not> settled (heap p ! r)" "Finished (Status (snap (heap p ! r)))" by (auto simp: live_def)
  note c = cell_settle[OF pool_ok_cell[OF assms r(1)] r(2,3)]
  have "good_step p (supervise_publish ok r p)"
    unfolding supervise_publish_def
    by (rule good_step_notify[OF assms r(1), where t = "(heap p ! r)\<lparr> settled := True \<rparr>"])
      (use c r in \<open>simp_all add: upd_task_def\<close>)
  with True show ?thesis by simp
qed (use assms in \<open>auto simp: good_step_refl\<close>)

text \<open>Changes of a cell that no law of its life mentions.\<close>

lemma cell_irrelevant:
  assumes "cell_ok n t" "handle u = handle t" "settled u = settled t" "termReason u = termReason t" "exitObserved u = exitObserved t"
    "stops u = stops t" "same_outcome (snap t) (snap u)" "ID (snap u) = ID (snap t)" "SessionID (snap u) = SessionID (snap t)"
    "SystemTask (snap u) = SystemTask (snap t)"
  shows "cell_ok n u \<and> evolves t u"
  using assms by (simp add: cell_ok_def evolves_def same_outcome_def split: option.splits)

lemma good_irrelevant:
  assumes "pool_ok p" and "\<And>t. t = heap p ! r \<Longrightarrow> handle (f t) = handle t \<and> settled (f t) = settled t \<and> termReason (f t) = termReason t \<and>
     exitObserved (f t) = exitObserved t \<and> stops (f t) = stops t \<and> same_outcome (snap t) (snap (f t)) \<and> ID (snap (f t)) = ID (snap t) \<and>
     SessionID (snap (f t)) = SessionID (snap t) \<and> SystemTask (snap (f t)) = SystemTask (snap t)"
  shows "good_step p (upd_task r f p)"
  using assms(2)[OF refl] by (intro good_step_cell[OF assms(1)] cell_irrelevant pool_ok_cell[OF assms(1)]) simp_all

lemma good_write: "pool_ok p \<Longrightarrow> good_step p (bstep B (BWrite b now r) p)"
  unfolding bstep.simps task_Write_def by (rule good_irrelevant) simp_all

lemma good_ack: "pool_ok p \<Longrightarrow> good_step p (bstep B (BAck sid tid) p)"
  by (auto simp: AcknowledgeResult_def good_step_refl intro!: good_irrelevant split: option.split)

lemma good_usage: "pool_ok p \<Longrightarrow> good_step p (bstep B (BUsage sid tid i out inc) p)"
  by (auto simp: SetAgentUsageStatus_def good_step_refl same_outcome_def SystemTask_def
      intro!: good_irrelevant split: option.split)

lemma good_woke_one: "pool_ok p \<Longrightarrow> good_step p (MarkWokeAgent_one ok sid tid p)"
proof (cases "lookup_task sid tid p")
  case (Some r)
  assume ok: "pool_ok p"
  let ?q = "upd_task r (\<lambda>t. t\<lparr> snap := (snap t)\<lparr> WokeAgent := True \<rparr> \<rparr>) p"
  have q: "good_step p ?q"
    by (rule good_irrelevant[OF ok]) (simp add: same_outcome_def SystemTask_def)
  then have "good_step p (persist ok r ?q)"
    by (rule good_step_trans) (use q in \<open>auto simp: good_step_def[of p] intro: good_step_same\<close>)
  with q Some show ?thesis by (simp add: MarkWokeAgent_one_def Let_def)
qed (simp add: MarkWokeAgent_one_def good_step_refl)

lemma good_woke: "pool_ok p \<Longrightarrow> good_step p (MarkWokeAgent ok sid tids p)"
proof (induction tids arbitrary: p)
  case (Cons tid tids)
  have one: "good_step p (MarkWokeAgent_one ok sid tid p)" by (rule good_woke_one[OF Cons.prems])
  then have "pool_ok (MarkWokeAgent_one ok sid tid p)" by (simp add: good_step_def)
  from good_step_trans[OF one Cons.IH[OF this]] show ?case by (simp add: MarkWokeAgent_def)
qed (simp add: MarkWokeAgent_def good_step_refl)

lemma table_steps_heap [simp]:
  "heap (snd (snd (ReapSurvivors alive ok now sid p))) = heap p" "notified (snd (snd (ReapSurvivors alive ok now sid p))) = notified p"
  "heap (snd (ClearFinished sid p)) = heap p" "notified (snd (ClearFinished sid p)) = notified p"
  "heap (snd (Forget B sid tid p)) = heap p" "notified (snd (Forget B sid tid p)) = notified p"
  "heap (ReleaseSession sid p) = heap p" "notified (ReleaseSession sid p) = notified p"
  "heap (SetDraining b p) = heap p" "notified (SetDraining b p) = notified p"
  "heap (SetSessionDir sid d p) = heap p" "notified (SetSessionDir sid d p) = notified p"
  "heap (SetConfig c p) = heap p" "notified (SetConfig c p) = notified p"
  by (simp_all add: ReapSurvivors_def ClearFinished_def Forget_def ReleaseSession_def SetDraining_def SetSessionDir_def
      SetConfig_def Let_def split: option.split)

theorem bstep_good: "pool_ok p \<Longrightarrow> good_step p (bstep B e p)"
proof (cases e)
  case (BWoke sid tids ok)
  then show "pool_ok p \<Longrightarrow> ?thesis" by (simp add: good_woke)
qed (use good_start good_failed good_attach good_timer good_stop good_exit good_outcome good_publish good_write good_usage
    good_ack in \<open>auto intro: good_step_same simp del: bstep.simps\<close>, auto intro: good_step_same)

lemma brun_good: "pool_ok p \<Longrightarrow> good_step p (brun B es p)"
proof (induction es arbitrary: p)
  case (Cons e es)
  have one: "good_step p (bstep B e p)" by (rule bstep_good[OF Cons.prems])
  then have "pool_ok (bstep B e p)" by (simp add: good_step_def)
  from good_step_trans[OF one Cons.IH[OF this]] show ?case by (simp add: brun_def)
qed (simp add: brun_def good_step_refl)

lemma NewPool_ok: "pool_ok (NewPool c records)"
  by (simp add: pool_ok_def NewPool_def)

section \<open>The life of a task\<close>

lemma reached_ok: "pool_ok (brun B es (NewPool c records))"
  using brun_good[OF NewPool_ok] by (simp add: good_step_def)


text \<open>
  A task that is stopped before its launch handed over a handle is stopped when it does, ends as
  stopped although its process failed, and a later stop and a clear leave that.
\<close>

definition demo_spec :: Spec where
  "demo_spec = \<lparr> spec_SessionID = ''s'', spec_Kind = [], spec_Label = ''build'', spec_Command = ''make'',
     spec_ExpectedSeconds = 0, spec_TimeoutSeconds = 0, spec_NoTimeout = False, spec_URL = [], spec_NotifyOnFinish = True,
     spec_StartedAt = None, spec_Agent = None \<rparr>"

definition demo_events :: "bevent list" where
  "demo_events = [BSetDir ''s'' ''d'', BStart demo_spec 5 True, BStop ''s'' ''bg_1'' True 6 [], BAttach 77 True 0,
     BTimer 0, BExit 0, BOutcome 1 (Some ''killed'') 9 0, BPublish True 0]"

definition demo_config :: Config where
  "demo_config = \<lparr> MaxConcurrent = 2, DefaultTimeoutSeconds = 0, MaxTimeoutSeconds = 0, OutputBufferBytes = 0 \<rparr>"


text \<open>
  Watchers and waiters hear of the end of a task exactly once: of every task of the heap, as
  many finished snapshots were published as its waiters were released, which is at most once, and
  only after the outcome was written; and every published snapshot is of a task the pool admitted.
\<close>
theorem finish_published_once:
  assumes "r < length (heap (brun B es (NewPool c records)))"
  shows "let q = brun B es (NewPool c records) in
    length (filter (\<lambda>e. fst e = r \<and> Finished (Status (snd e))) (notified q)) = (if settled (heap q ! r) then 1 else 0) \<and>
    (settled (heap q ! r) \<longrightarrow> Finished (Status (snap (heap q ! r)))) \<and> (\<forall>e\<in>set (notified q). fst e < length (heap q))"
  using pool_ok_cell[OF reached_ok assms] reached_ok[of B es c records]
  by (simp add: cell_ok_def published_def Let_def) (simp add: pool_ok_def)

lemma finish_published_once_witness:
  "let q = brun id demo_events (NewPool demo_config []) in settled (heap q ! 0) \<and>
     length (filter (\<lambda>e. fst e = 0 \<and> Finished (Status (snd e))) (notified q)) = 1"
proof -
  have l: "0 < length (heap (brun id demo_events (NewPool demo_config [])))" by code_simp
  have f: "settled (heap (brun id demo_events (NewPool demo_config [])) ! 0)" by code_simp
  show ?thesis using finish_published_once[OF l] f by (simp add: Let_def)
qed

text \<open>
  C37: A task whose process runs settles: in every reachable state, the exit of a task that has a
  handle, its outcome and the publication lead to a settled task, whatever was claimed before, and
  unless the outcome was already written it is the claimed reason, else failed for a wait error or
  a nonzero exit code, else succeeded, with that exit code and instant.
\<close>
theorem running_task_settles:
  assumes "r < length (heap (brun B es (NewPool c records)))" "handle (heap (brun B es (NewPool c records)) ! r)"
  shows "let t = heap (brun B es (NewPool c records)) ! r;
             u = heap (brun B (es @ [BExit r, BOutcome code err now r, BPublish ok r]) (NewPool c records)) ! r in
    settled u \<and> (\<not> Finished (Status (snap t)) \<longrightarrow>
      Status (snap u) = (case termReason t of Some s \<Rightarrow> s
                         | None \<Rightarrow> if err = None \<and> code = 0 then StatusSucceeded else StatusFailed) \<and>
      ExitCode (snap u) = Some code \<and> FinishedAt (snap u) = Some now)"
proof -
  let ?q = "brun B es (NewPool c records)"
  let ?t = "heap ?q ! r"
  have c: "cell_ok (published r ?q) ?t" by (rule pool_ok_cell[OF reached_ok assms(1)])
  consider (settled) "settled ?t" | (pending) "\<not> settled ?t" by blast
  then show ?thesis
  proof cases
    case settled
    then have f: "Finished (Status (snap ?t))" using c by (simp add: cell_ok_def)
    have "brun B [BExit r, BOutcome code err now r, BPublish ok r] ?q = ?q"
      using settled by (simp add: brun_def live_def)
    with settled f show ?thesis by (simp add: brun_append Let_def)
  next
    case pending
    let ?q1 = "bstep B (BExit r) ?q"
    let ?q2 = "bstep B (BOutcome code err now r) ?q1"
    have q1: "heap ?q1 = (heap ?q)[r := ?t\<lparr> exitObserved := True \<rparr>]"
      using pending assms by (simp add: live_def markExitObserved_def upd_task_def)
    define v where "v = (if Finished (Status (snap ?t)) then ?t\<lparr> exitObserved := True \<rparr>
      else outcome code err now (?t\<lparr> exitObserved := True \<rparr>))"
    have q2: "heap ?q2 = (heap ?q)[r := v]"
      using pending assms by (simp add: live_def q1 supervise_outcome_def upd_task_def v_def del: bstep.simps(6))
    have v: "handle v" "\<not> settled v" "Finished (Status (snap v))"
      using pending assms c by (auto simp: v_def outcome_def Let_def cell_ok_def split: option.split)
    have "heap (bstep B (BPublish ok r) ?q2) = (heap ?q)[r := v\<lparr> settled := True \<rparr>]"
      using v assms by (simp add: live_def q2 supervise_publish_def upd_task_def del: bstep.simps(6,7))
    then have "heap (brun B (es @ [BExit r, BOutcome code err now r, BPublish ok r]) (NewPool c records)) ! r
        = v\<lparr> settled := True \<rparr>"
      using assms(1) by (simp add: brun_append brun_def del: bstep.simps)
    then show ?thesis by (auto simp: v_def outcome_def Let_def split: option.split)
  qed
qed

lemma running_task_settles_witness:
  "let u = heap (brun id ([BStart demo_spec 5 True, BAttach 77 True 0]
       @ [BExit 0, BOutcome 0 None 9 0, BPublish False 0]) (NewPool demo_config [])) ! 0 in
   settled u \<and> Status (snap u) = StatusSucceeded"
proof -
  let ?es = "[BStart demo_spec 5 True, BAttach 77 True 0]"
  have l: "0 < length (heap (brun id ?es (NewPool demo_config [])))" by code_simp
  have h: "handle (heap (brun id ?es (NewPool demo_config [])) ! 0)" by code_simp
  have f: "\<not> Finished (Status (snap (heap (brun id ?es (NewPool demo_config [])) ! 0)))
    \<and> termReason (heap (brun id ?es (NewPool demo_config [])) ! 0) = None" by code_simp
  show ?thesis
    using running_task_settles[OF l h, of 0 None 9 False] f unfolding Let_def by simp
qed

end
