(* ===== verification/BgTask_Tables.thy ===== *)
theory BgTask_Tables
  imports BgTask_Correct
begin

text \<open>
  The table of the pool over any run: only an admission adds to it, and the unfinished tasks of a
  session stay within the cap.
\<close>

section \<open>The table shrinks except at an admission\<close>

definition table_ok :: "Pool \<Rightarrow> bool" where
  "table_ok p \<longleftrightarrow> (\<forall>e\<in>set (tasks p). snd e < length (heap p))"

definition is_start :: "bevent \<Rightarrow> bool" where
  "is_start e = (case e of BStart _ _ _ \<Rightarrow> True | _ \<Rightarrow> False)"

lemma filter_all: "xs = filter (\<lambda>_. True) xs"
  by simp

definition shrinks :: "Pool \<Rightarrow> Pool \<Rightarrow> bool" where
  "shrinks p q \<longleftrightarrow> (\<exists>P. tasks q = filter P (tasks p))"

lemma shrinks_same [intro]: "tasks q = tasks p \<Longrightarrow> shrinks p q"
  unfolding shrinks_def using filter_all by metis

lemma shrinks_filter [intro]: "tasks q = filter P (tasks p) \<Longrightarrow> shrinks p q"
  unfolding shrinks_def by blast

lemma MarkWokeAgent_fields [simp]:
  "tasks (MarkWokeAgent ok sid tids p) = tasks p" "cfg (MarkWokeAgent ok sid tids p) = cfg p"
  "seq (MarkWokeAgent ok sid tids p) = seq p" "sessionDirs (MarkWokeAgent ok sid tids p) = sessionDirs p"
  "order (MarkWokeAgent ok sid tids p) = order p"
  unfolding MarkWokeAgent_def
  by (induction tids arbitrary: p)
    (simp_all add: MarkWokeAgent_one_def upd_task_def Let_def split: option.split)

lemmas op_defs = start_failed_def attach_def claim_def markExitObserved_def supervise_outcome_def supervise_publish_def
  task_Write_def SetAgentUsageStatus_def AcknowledgeResult_def ReapSurvivors_def ReleaseSession_def SetDraining_def
  SetSessionDir_def SetConfig_def Stop_def

text \<open>What is forgotten or cleared is finished, and the rest of the table stays.\<close>

lemma Forget_tables:
  fixes sid tid defines "key \<equiv> taskKey (trim_space sid) (trim_space tid)"
  obtains (kept) "tasks (snd (Forget B sid tid p)) = tasks p" "order (snd (Forget B sid tid p)) = order p"
  | (dropped) r where "map_of (tasks p) key = Some r" "Finished (Status (snap (heap p ! r)))"
      "tasks (snd (Forget B sid tid p)) = filter (\<lambda>e. fst e \<notin> {key}) (tasks p)"
      "order (snd (Forget B sid tid p)) = filter (\<lambda>k. k \<notin> {key}) (order p)"
proof (cases "trim_space tid = [] \<or> trim_space tid \<noteq> B (trim_space tid) \<or> has_prefix (trim_space tid) ''.''")
  case True
  then show thesis by (intro kept) (auto simp: Forget_def Let_def)
next
  case ok: False
  show thesis
  proof (cases "map_of (tasks p) key")
    case None
    then show thesis using ok
      by (intro kept) (simp_all add: Forget_def Let_def key_def remove_dir_def split: option.split)
  next
    case (Some r)
    show thesis
    proof (cases "Finished (Status (snap (heap p ! r)))")
      case True
      with ok Some show thesis
        by (intro dropped) (simp_all add: Forget_def Let_def key_def delete_filter remove_dir_def split: option.split)
    next
      case False
      with ok Some show thesis by (intro kept) (simp_all add: Forget_def Let_def key_def)
    qed
  qed
qed

lemma bstep_shrinks: "\<not> is_start e \<Longrightarrow> shrinks p (bstep B e p)"
proof (cases e)
  case (BClear sid)
  then show ?thesis
    by (auto simp: ClearFinished_def Let_def intro!: shrinks_filter split: option.split)
next
  case (BForget sid tid)
  then show ?thesis by (cases rule: Forget_tables[where B = B and sid = sid and tid = tid and p = p]) auto
qed (auto simp: is_start_def op_defs Let_def split: option.split)

lemma bstep_cfg: "cfg (bstep B e p) = (case e of BConfig c \<Rightarrow> normalised c | _ \<Rightarrow> cfg p)"
proof (cases e)
  case (BStart spec now ok)
  then show ?thesis by (cases rule: start_admit_cases[of spec now p]) simp_all
next
  case (BClear sid)
  then show ?thesis by (auto simp: ClearFinished_def Let_def split: option.split)
next
  case (BForget sid tid)
  then show ?thesis by (auto simp: Forget_def Let_def split: option.split)
qed (auto simp: op_defs Let_def split: option.split)

lemma length_filter_update:
  "length (filter P (AList.update k v al)) \<le> length (filter P al) + (if P (k, v) then 1 else 0)"
  by (induction al) auto

section \<open>The cap of a session\<close>

lemma table_ok_step:
  assumes "pool_ok p" "table_ok p" shows "table_ok (bstep B e p)"
proof -
  have len: "length (heap p) \<le> length (heap (bstep B e p))"
    using bstep_good[OF assms(1)] by (simp add: good_step_def pool_evolves_def)
  show ?thesis
  proof (cases "is_start e")
    case False
    from bstep_shrinks[OF this, of p B] have "set (tasks (bstep B e p)) \<subseteq> set (tasks p)"
      by (auto simp: shrinks_def)
    with assms(2) len show ?thesis unfolding table_ok_def by (meson less_le_trans subsetD)
  next
    case True
    then obtain spec now ok where e: "e = BStart spec now ok" by (auto simp: is_start_def split: bevent.splits)
    show ?thesis
    proof (cases rule: start_admit_cases[of spec now p])
      case (admitted spec')
      have "length (heap (bstep B e p)) = Suc (length (heap p))"
        by (simp add: e admitted(1) start_dir_heap split: option.split)
      moreover have "\<exists>key. tasks (bstep B e p) = AList.update key (length (heap p)) (tasks p)"
        by (auto simp: e admitted(1))
      then obtain key where "tasks (bstep B e p) = AList.update key (length (heap p)) (tasks p)" ..
      moreover have "snd x < Suc (length (heap p))" if "x \<in> insert (key, length (heap p)) (set (tasks p))" for x
        using that assms(2) by (auto simp: table_ok_def less_SucI)
      ultimately show ?thesis
        unfolding table_ok_def by (metis set_update_sub subsetD)
    qed (simp add: e assms)
  qed
qed

lemma counted_shrinks:
  assumes "shrinks p q" "pool_evolves p q" "table_ok p"
  shows "runningForSession sid q \<le> runningForSession sid p"
proof -
  from assms(1) obtain P where q: "tasks q = filter P (tasks p)" by (auto simp: shrinks_def)
  have "counted_task sid p e" if "e \<in> set (tasks p)" "counted_task sid q e" for e
  proof -
    have "snd e < length (heap p)" using assms(3) that(1) by (simp add: table_ok_def)
    then have "evolves (heap p ! snd e) (heap q ! snd e)" using assms(2) by (simp add: pool_evolves_def)
    with that(2) show ?thesis by (auto simp: counted_task_def evolves_def same_outcome_def Let_def)
  qed
  then have "length (filter (counted_task sid q) (filter P (tasks p))) \<le> length (filter (counted_task sid p) (tasks p))"
    unfolding filter_filter by (intro length_filter_mono) blast
  then show ?thesis by (simp add: runningForSession_def q)
qed

lemma counted_start:
  assumes "pool_ok p" "table_ok p" "runningForSession sid p \<le> M" "MaxConcurrent (cfg p) \<le> M" "is_start e"
  shows "runningForSession sid (bstep B e p) \<le> M"
proof -
  from assms(5) obtain spec now ok where e: "e = BStart spec now ok" by (auto simp: is_start_def split: bevent.splits)
  show ?thesis
  proof (cases rule: start_admit_cases[of spec now p])
    case (admitted spec')
    let ?q = "bstep B e p"
    let ?t = "new_task spec' now (p\<lparr> seq := wrap64 (seq p + 1) \<rparr>)"
    let ?key = "taskKey (SessionID (snap ?t)) (ID (snap ?t))"
    have tq: "tasks ?q = AList.update ?key (length (heap p)) (tasks p)" by (simp add: e admitted(1))
    have hq: "\<exists>d. heap ?q = heap p @ [?t\<lparr> dir := d \<rparr>]"
      using start_heap[of "p\<lparr> seq := wrap64 (seq p + 1) \<rparr>" p] by (simp add: e admitted(1))
    have old: "length (filter (counted_task sid ?q) (tasks p)) = length (filter (counted_task sid p) (tasks p))"
    proof (rule arg_cong[where f = length], rule filter_cong)
      fix x assume "x \<in> set (tasks p)"
      then have "snd x < length (heap p)" using assms(2) by (simp add: table_ok_def)
      then show "counted_task sid ?q x = counted_task sid p x" using hq by (auto simp: counted_task_def nth_append)
    qed simp
    have new: "counted_task sid ?q (?key, length (heap p)) \<longleftrightarrow> spec_SessionID spec' = sid \<and> \<not> spec_system spec'"
      using hq by (auto simp: counted_task_def new_task_def SystemTask_def spec_system_def cloneAgentInfo_def split: option.split)
    have "length (filter (counted_task sid ?q) (tasks ?q)) \<le> length (filter (counted_task sid p) (tasks p))
        + (if spec_SessionID spec' = sid \<and> \<not> spec_system spec' then 1 else 0)"
      using length_filter_update[of "counted_task sid ?q" ?key "length (heap p)" "tasks p"]
      unfolding tq[symmetric] old new .
    then show ?thesis
      using assms(3,4) admitted(3) by (auto simp: runningForSession_def split: if_splits)
  qed (use assms in \<open>simp add: e\<close>)
qed

lemma cap_kept:
  assumes "pool_ok p" "table_ok p" "\<And>sid. runningForSession sid p \<le> M" "MaxConcurrent (cfg p) \<le> M"
    "\<forall>c. BConfig c \<in> set es \<longrightarrow> MaxConcurrent (normalised c) \<le> M"
  shows "runningForSession sid (brun B es p) \<le> M"
  using assms
proof (induction es arbitrary: p sid)
  case (Cons e es)
  have good: "good_step p (bstep B e p)" by (rule bstep_good[OF Cons.prems(1)])
  have "runningForSession sid (bstep B e p) \<le> M" for sid
  proof (cases "is_start e")
    case True
    then show ?thesis using Cons.prems by (intro counted_start) auto
  next
    case False
    have "runningForSession sid (bstep B e p) \<le> runningForSession sid p"
      using good by (intro counted_shrinks bstep_shrinks[OF False] Cons.prems(2)) (simp add: good_step_def)
    also have "\<dots> \<le> M" by (rule Cons.prems(3))
    finally show ?thesis .
  qed
  moreover have "MaxConcurrent (cfg (bstep B e p)) \<le> M"
    using Cons.prems(4,5) by (cases e) (simp_all add: bstep_cfg del: bstep.simps)
  ultimately have "runningForSession sid (brun B es (bstep B e p)) \<le> M"
    using good Cons.prems(2,5)
    by (intro Cons.IH table_ok_step Cons.prems(1,2)) (auto simp: good_step_def simp del: bstep.simps)
  then show ?case by (simp add: brun_def)
qed (simp add: brun_def)

text \<open>
  A session never has more unfinished tasks than the configuration allows. Whatever operations
  of the pool interleave, the number of tasks of a session that are neither finished nor the
  system's own stays within the largest cap the pool was ever configured with, the default cap
  standing in where the setting is not positive.
\<close>
theorem session_cap:
  assumes "MaxConcurrent (normalised c) \<le> M" "\<forall>c'. BConfig c' \<in> set es \<longrightarrow> MaxConcurrent (normalised c') \<le> M"
  shows "RunningCount sid (brun B es (NewPool c records)) \<le> M"
proof -
  have "0 < MaxConcurrent (normalised c)"
    by (simp add: normalised_def Let_def defaultMaxConcurrent_def)
  then show ?thesis
    using assms unfolding RunningCount_def
    by (intro cap_kept NewPool_ok) (simp_all add: NewPool_def table_ok_def runningForSession_def)
qed

lemma session_cap_witness:
  "RunningCount '' s '' (brun id [BStart demo_spec 1 True, BConfig (demo_config\<lparr> MaxConcurrent := 1 \<rparr>), BStart demo_spec 2 True,
      BConfig demo_config, BStart demo_spec 3 True, BStart demo_spec 4 True] (NewPool demo_config [])) \<le> 2 \<and>
   RunningCount '' s '' (brun id [BStart demo_spec 1 True, BConfig (demo_config\<lparr> MaxConcurrent := 1 \<rparr>), BStart demo_spec 2 True,
      BConfig demo_config, BStart demo_spec 3 True, BStart demo_spec 4 True] (NewPool demo_config [])) = 2"
proof (rule conjI)
  show "RunningCount '' s '' (brun id [BStart demo_spec 1 True, BConfig (demo_config\<lparr> MaxConcurrent := 1 \<rparr>), BStart demo_spec 2 True,
      BConfig demo_config, BStart demo_spec 3 True, BStart demo_spec 4 True] (NewPool demo_config [])) \<le> 2"
    by (rule session_cap) (auto simp: normalised_def demo_config_def Let_def)
qed code_simp

end
