(* ===== verification/BgTask_Ids.thy ===== *)
theory BgTask_Ids
  imports BgTask_Tables
begin

text \<open>
  Ids of tasks: an admission takes a number above every number in the table of its session and in
  the session's directory on disk, so neither a task of this process nor a record of an earlier
  one is ever overwritten; and therefore the table keeps every unfinished task.
\<close>

section \<open>Ids and keys\<close>

lemma task_number_inverse:
  assumes "0 \<le> n" "in_int64 n" shows "task_number (task_number_id n) = Some n"
  using Atoi_digits[of "nat n"] assms by (simp add: task_number_def task_number_id_def taskIDPrefix_def has_prefix_def)

lemma task_number_id_no_nul: "0 \<le> n \<Longrightarrow> CHR 0x00 \<notin> set (task_number_id n)"
  using digits_of_digits[of "nat n"] by (auto simp: task_number_id_def taskIDPrefix_def list_all_iff is_digit_def)

lemma task_number_id_trim: "0 \<le> n \<Longrightarrow> trim_space (task_number_id n) = task_number_id n"
proof -
  assume n: "0 \<le> n"
  obtain ds d where ds: "digits_of (nat n) = ds @ [d]" using digits_of_ne by (cases "digits_of (nat n)" rule: rev_cases) auto
  have d: "48 \<le> (of_char d :: nat)" "(of_char d :: nat) \<le> 57"
    using digits_of_digits[of "nat n"] by (simp_all add: ds is_digit_def)
  have "lead_enc space_encodings (task_number_id n) = None"
    unfolding task_number_id_def taskIDPrefix_def append_Cons by (rule lead_enc_hd) (auto simp: space_encodings_def)
  then have l: "trim_left (task_number_id n) = task_number_id n" by (simp add: trim_left_def trim_with_id)
  have "hd e \<noteq> d" if "e \<in> set (map rev space_encodings)" for e
    using that d by (auto simp: space_encodings_def)
  then have "lead_enc (map rev space_encodings) (d # cs) = None" for cs by (rule lead_enc_hd)
  then have "trim_right (task_number_id n) = task_number_id n"
    using n by (simp add: trim_right_def trim_with_id task_number_id_def ds)
  with l show ?thesis by (simp add: trim_space_def)
qed

lemma split_last:
  "xs @ [c] @ ys = xs' @ [c] @ ys' \<Longrightarrow> c \<notin> set ys \<Longrightarrow> c \<notin> set ys' \<Longrightarrow> xs = xs' \<and> ys = ys'"
proof -
  assume eq: "xs @ [c] @ ys = xs' @ [c] @ ys'" and n: "c \<notin> set ys" "c \<notin> set ys'"
  have "takeWhile (\<lambda>x. x \<noteq> c) (rev ys @ [c] @ rev xs) = rev ys"
       "takeWhile (\<lambda>x. x \<noteq> c) (rev ys' @ [c] @ rev xs') = rev ys'"
    using n by (subst takeWhile_append2; auto)+
  moreover have "rev ys @ [c] @ rev xs = rev ys' @ [c] @ rev xs'" using arg_cong[OF eq, of rev] by simp
  ultimately have "ys = ys'" by simp
  with eq show ?thesis by simp
qed

lemma taskKey_inject:
  "taskKey s (task_number_id m) = taskKey s' (task_number_id n) \<Longrightarrow> 0 \<le> m \<Longrightarrow> 0 \<le> n \<Longrightarrow> in_int64 m \<Longrightarrow> in_int64 n
    \<Longrightarrow> s = s' \<and> m = n"
  unfolding taskKey_def using split_last task_number_id_no_nul task_number_inverse by (metis option.inject)

lemma fold_max_ge:
  "(h :: int) \<le> fold (\<lambda>r h. case f r of None \<Rightarrow> h | Some n \<Rightarrow> max h n) xs h"
  by (induction xs arbitrary: h) (auto intro: order_trans[OF max.cobounded1] split: option.split)

lemma fold_max_mem:
  "r \<in> set xs \<Longrightarrow> f r = Some (n :: int) \<Longrightarrow> n \<le> fold (\<lambda>r h. case f r of None \<Rightarrow> h | Some n \<Rightarrow> max h n) xs h"
  by (induction xs arbitrary: h) (auto intro: order_trans[OF max.cobounded2 fold_max_ge])

lemma fold_max_le:
  "(\<And>r n. r \<in> set xs \<Longrightarrow> f r = Some n \<Longrightarrow> n \<le> N) \<Longrightarrow> h \<le> (N :: int)
    \<Longrightarrow> fold (\<lambda>r h. case f r of None \<Rightarrow> h | Some n \<Rightarrow> max h n) xs h \<le> N"
proof (induction xs arbitrary: h)
  case (Cons a xs)
  have "(case f a of None \<Rightarrow> h | Some n \<Rightarrow> max h n) \<le> N"
    using Cons.prems(1)[of a] Cons.prems(2) by (simp split: option.split)
  then show ?case unfolding fold_simps by (intro Cons.IH) (use Cons.prems(1) in auto)
qed simp

lemma set_dir_rows: "(t, x) \<in> set (dir_rows d p) \<longleftrightarrow> ((d, t), x) \<in> set (disk p)"
  by (force simp: dir_rows_def)

lemma highest_ge: "((d, t), x) \<in> set (disk p) \<Longrightarrow> task_number t = Some n \<Longrightarrow> n \<le> highestPersistedTaskNumber d p"
  unfolding highestPersistedTaskNumber_def
  by (rule fold_max_mem[where r = "(t, x)" and f = "\<lambda>r. task_number (fst r)"]) (simp_all add: set_dir_rows)

lemma highest_le:
  assumes "\<And>d t x n. ((d, t), x) \<in> set (disk p) \<Longrightarrow> task_number t = Some n \<Longrightarrow> n \<le> N" "0 \<le> N"
  shows "highestPersistedTaskNumber d p \<le> N"
  unfolding highestPersistedTaskNumber_def using assms
  by (intro fold_max_le) (auto simp: set_dir_rows)

lemma highest_nonneg: "0 \<le> highestPersistedTaskNumber d p"
  unfolding highestPersistedTaskNumber_def by (rule fold_max_ge)

section \<open>What the steps do to the records and the order\<close>

lemma persist_keys [simp]: "fst ` set (disk (persist ok r p)) = fst ` set (disk p)"
proof -
  have "fst ` set (AList.update k v (disk p)) = fst ` set (disk p)" if "map_of (disk p) k \<noteq> None" for k v
    using that by (auto simp: dom_update map_of_eq_None_iff)
  then show ?thesis by (simp add: persist_def Let_def split: option.split)
qed

lemma writePersisted_keys [simp]: "fst ` set (disk (writePersistedSnapshot ok d s p)) = fst ` set (disk p)"
  by (auto simp: writePersistedSnapshot_def dom_update map_of_eq_None_iff)

lemma fold_writePersisted_keys [simp]: "fst ` set (disk (fold (writePersistedSnapshot ok d) xs p)) = fst ` set (disk p)"
  by (induction xs arbitrary: p) simp_all

lemma remove_dir_keys: "fst ` set (disk (remove_dir d t p)) \<subseteq> fst ` set (disk p)"
  by (auto simp: remove_dir_def delete_filter split: option.split)

lemma fold_remove_dir_keys: "fst ` set (disk (fold (\<lambda>x. remove_dir (f x) (g x)) xs p)) \<subseteq> fst ` set (disk p)"
proof (induction xs arbitrary: p)
  case (Cons x xs)
  have "fst ` set (disk (fold (\<lambda>x. remove_dir (f x) (g x)) (x # xs) p)) \<subseteq> fst ` set (disk (remove_dir (f x) (g x) p))"
    using Cons.IH by simp
  also have "\<dots> \<subseteq> fst ` set (disk p)" by (rule remove_dir_keys)
  finally show ?case .
qed simp

lemma MarkWokeAgent_keys [simp]: "fst ` set (disk (MarkWokeAgent ok sid tids p)) = fst ` set (disk p)"
  unfolding MarkWokeAgent_def
  by (induction tids arbitrary: p) (simp_all add: MarkWokeAgent_one_def Let_def split: option.split)

lemma stopSurvivor_keys [simp]: "fst ` set (disk (snd (snd (stopSurvivor alive ok now sid tid p)))) = fst ` set (disk p)"
  by (simp add: stopSurvivor_def Let_def split: option.split list.split)

lemma ClearFinished_keys: "fst ` set (disk (snd (ClearFinished sid p))) \<subseteq> fst ` set (disk p)"
proof -
  let ?keys = "filter (finished_key (trim_space sid) p) (order p)"
  let ?gone = "map (\<lambda>key. heap p ! the (map_of (tasks p) key)) ?keys"
  let ?p1 = "fold (\<lambda>t. remove_dir (dir t) (ID (snap t))) ?gone (drop_keys ?keys p)"
  have one: "fst ` set (disk ?p1) \<subseteq> fst ` set (disk p)"
    using fold_remove_dir_keys[of dir "\<lambda>t. ID (snap t)" ?gone "drop_keys ?keys p"] by simp
  have "fst ` set (disk (fold (\<lambda>s. remove_dir (Some d) (ID s)) old ?p1)) \<subseteq> fst ` set (disk p)" for d old
    using fold_remove_dir_keys[of "\<lambda>_. Some d" ID old ?p1] one by (rule order_trans)
  note two = this
  show ?thesis
  proof (cases "map_of (sessionDirs p) (trim_space sid)")
    case None
    with one show ?thesis unfolding ClearFinished_def Let_def by simp
  next
    case (Some d)
    then show ?thesis unfolding ClearFinished_def Let_def
      by (cases "d = []") (use one two in \<open>simp_all only: option.case snd_conv if_True if_False simp_thms\<close>)
  qed
qed

lemma Forget_keys: "fst ` set (disk (snd (Forget B sid tid p))) \<subseteq> fst ` set (disk p)"
  using remove_dir_keys[of "Some _" "trim_space tid" p]
  by (auto simp: Forget_def Let_def remove_dir_def delete_filter split: option.split)

lemma bstep_disk_keys: "\<not> is_start e \<Longrightarrow> fst ` set (disk (bstep B e p)) \<subseteq> fst ` set (disk p)"
proof (cases e)
  case (BClear sid)
  then show ?thesis using ClearFinished_keys by simp
next
  case (BForget sid tid)
  then show ?thesis using Forget_keys by simp
next
  case (BRelease sid)
  then show ?thesis by (simp add: ReleaseSession_def drop_keys_def Let_def)
qed (auto simp: is_start_def op_defs Let_def split: option.split)

lemma bstep_seq_dirs: "\<not> is_start e \<Longrightarrow> (case e of BSetDir _ _ \<Rightarrow> False | _ \<Rightarrow> True)
    \<Longrightarrow> seq (bstep B e p) = seq p \<and> set (sessionDirs (bstep B e p)) \<subseteq> set (sessionDirs p)"
proof (cases e)
  case (BClear sid)
  then show ?thesis by (simp add: ClearFinished_def Let_def split: option.split)
next
  case (BForget sid tid)
  then show ?thesis by (simp add: Forget_def Let_def split: option.split)
qed (auto simp: is_start_def op_defs Let_def delete_filter split: option.split)

lemma map_of_filter_key: "P k \<Longrightarrow> map_of (filter (\<lambda>e. P (fst e)) xs) k = map_of xs k"
  by (induction xs) auto

definition listed :: "bytes \<Rightarrow> nat \<Rightarrow> Pool \<Rightarrow> bool" where
  "listed key r p \<longleftrightarrow> map_of (tasks p) key = Some r \<and> key \<in> set (order p)"

lemma listed_same: "tasks q = tasks p \<Longrightarrow> order q = order p \<Longrightarrow> listed key r p \<Longrightarrow> listed key r q"
  by (simp add: listed_def)

lemma listed_drop_keys:
  assumes "listed key r p" "key \<notin> set ks" shows "listed key r (drop_keys ks p)"
  using assms map_of_filter_key[of "\<lambda>k. k \<notin> set ks" key "tasks p"] by (simp add: listed_def drop_keys_def)

lemma not_finished_key: "listed key r p \<Longrightarrow> \<not> Finished (Status (snap (heap p ! r))) \<Longrightarrow> \<not> finished_key sid p key"
  by (simp add: listed_def finished_key_def)

lemma order_fields [simp]:
  "order (upd_task r f p) = order p" "order (bg_notify r p) = order p" "order (writePersistedSnapshot ok d s p) = order p"
  "order (remove_dir rd t p) = order p" "order (start_dir ok r sd p) = order p"
  "order (snd (snd (stopSurvivor alive ok now sid tid p))) = order p"
proof -
  show w: "order (writePersistedSnapshot ok d s p) = order p" for ok d s p by (simp add: writePersistedSnapshot_def)
  then show "order (snd (snd (stopSurvivor alive ok now sid tid p))) = order p"
    by (simp add: stopSurvivor_def Let_def split: option.split list.split)
qed (simp_all add: upd_task_def bg_notify_def remove_dir_def start_dir_def Let_def split: option.split)

lemma fold_order [simp]:
  "order (fold (writePersistedSnapshot ok d) xs p) = order p"
  "order (fold (\<lambda>x. remove_dir (f x) (g x)) ys p) = order p"
proof -
  show "order (fold (writePersistedSnapshot ok d) xs p) = order p" by (induction xs arbitrary: p) simp_all
  show "order (fold (\<lambda>x. remove_dir (f x) (g x)) ys p) = order p" by (induction ys arbitrary: p) simp_all
qed

lemma ClearFinished_tables:
  "tasks (snd (ClearFinished sid p)) = tasks (drop_keys (filter (finished_key (trim_space sid) p) (order p)) p)"
  "order (snd (ClearFinished sid p)) = order (drop_keys (filter (finished_key (trim_space sid) p) (order p)) p)"
  by (simp_all add: ClearFinished_def Let_def split: option.split)

text \<open>No step but an admission can take an unfinished task from the table.\<close>

lemma bstep_keeps:
  assumes "\<not> is_start e" "listed key r p" "\<not> Finished (Status (snap (heap p ! r)))"
  shows "listed key r (bstep B e p)"
proof (cases e)
  case (BClear sid)
  have "listed key r (drop_keys (filter (finished_key (trim_space sid) p) (order p)) p)"
    using not_finished_key[OF assms(2,3)] by (intro listed_drop_keys assms(2)) simp
  then show ?thesis using ClearFinished_tables[of sid p] by (simp add: BClear listed_def)
next
  case (BRelease sid)
  have "listed key r (drop_keys (filter (finished_key (trim_space sid) p) (order p)) p)"
    using not_finished_key[OF assms(2,3)] by (intro listed_drop_keys assms(2)) simp
  then show ?thesis using assms(2) by (simp add: BRelease ReleaseSession_def Let_def listed_def)
next
  case (BForget sid tid)
  let ?key = "taskKey (trim_space sid) (trim_space tid)"
  show ?thesis
  proof (cases rule: Forget_tables[where B = B and sid = sid and tid = tid and p = p])
    case kept
    with assms(2) show ?thesis by (simp add: BForget listed_def)
  next
    case (dropped r')
    then have "key \<noteq> ?key" using assms(2,3) by (auto simp: listed_def)
    with dropped assms(2) map_of_filter_key[of "\<lambda>k. k \<notin> {?key}" key "tasks p"] show ?thesis
      by (simp add: BForget listed_def)
  qed
qed (use assms in \<open>auto simp: is_start_def op_defs Let_def listed_def split: option.split\<close>)

section \<open>The invariant of ids\<close>

definition key_of :: "task \<Rightarrow> bytes" where
  "key_of t = taskKey (SessionID (snap t)) (ID (snap t))"

definition row_number_le :: "int \<Rightarrow> bytes \<times> bytes \<Rightarrow> bool" where
  "row_number_le n k \<longleftrightarrow> (\<forall>m. task_number (snd k) = Some m \<longrightarrow> m \<le> n)"

definition ids_ok :: "int \<Rightarrow> Pool \<Rightarrow> bool" where
  "ids_ok N p \<longleftrightarrow>
     0 \<le> seq p \<and> seq p \<le> N \<and>
     (\<forall>k\<in>fst ` set (disk p). row_number_le N k) \<and>
     (\<forall>sd\<in>set (sessionDirs p). snd sd \<noteq> [] \<and> (\<forall>k\<in>fst ` set (disk p). fst k = snd sd \<longrightarrow> row_number_le (seq p) k)) \<and>
     (\<forall>r<length (heap p). trim_space (SessionID (snap (heap p ! r))) = SessionID (snap (heap p ! r)) \<and>
        (\<exists>n. ID (snap (heap p ! r)) = task_number_id n \<and> 0 < n \<and> n \<le> seq p)) \<and>
     (\<forall>e\<in>set (tasks p). snd e < length (heap p) \<and> fst e = key_of (heap p ! snd e)) \<and>
     (\<forall>r<length (heap p). \<not> Finished (Status (snap (heap p ! r))) \<longrightarrow> listed (key_of (heap p ! r)) r p)"

lemma row_number_le_mono: "row_number_le m k \<Longrightarrow> m \<le> n \<Longrightarrow> row_number_le n k"
  by (auto simp: row_number_le_def)

lemma ids_okI:
  assumes "0 \<le> seq p" "seq p \<le> N" "\<And>k. k \<in> fst ` set (disk p) \<Longrightarrow> row_number_le N k"
    "\<forall>sd\<in>set (sessionDirs p). snd sd \<noteq> [] \<and> (\<forall>k\<in>fst ` set (disk p). fst k = snd sd \<longrightarrow> row_number_le (seq p) k)"
    "\<And>r. r < length (heap p) \<Longrightarrow> trim_space (SessionID (snap (heap p ! r))) = SessionID (snap (heap p ! r)) \<and>
        (\<exists>n. ID (snap (heap p ! r)) = task_number_id n \<and> 0 < n \<and> n \<le> seq p)"
    "\<And>e. e \<in> set (tasks p) \<Longrightarrow> snd e < length (heap p) \<and> fst e = key_of (heap p ! snd e)"
    "\<And>r. r < length (heap p) \<Longrightarrow> \<not> Finished (Status (snap (heap p ! r))) \<Longrightarrow> listed (key_of (heap p ! r)) r p"
  shows "ids_ok N p"
  unfolding ids_ok_def using assms by blast

lemma ids_rows: "ids_ok N p \<Longrightarrow> k \<in> fst ` set (disk p) \<Longrightarrow> row_number_le N k"
  by (simp only: ids_ok_def)

lemma bstep_len: "\<not> is_start e \<Longrightarrow> length (heap (bstep B e p)) = length (heap p)"
proof (cases e)
  case (BWoke sid tids ok)
  have "length (heap (MarkWokeAgent ok sid tids p)) = length (heap p)"
    unfolding MarkWokeAgent_def
    by (induction tids arbitrary: p) (simp_all add: MarkWokeAgent_one_def Let_def split: option.split)
  then show ?thesis by (simp add: BWoke)
qed (auto simp: is_start_def start_failed_def attach_def claim_def markExitObserved_def supervise_outcome_def
    supervise_publish_def task_Write_def SetAgentUsageStatus_def AcknowledgeResult_def Stop_def Let_def split: option.split)

lemma key_of_evolves: "evolves t u \<Longrightarrow> key_of u = key_of t"
  by (simp add: evolves_def key_of_def)

lemma SetSessionDir_fields:
  "tasks (SetSessionDir sid d p) = tasks p" "heap (SetSessionDir sid d p) = heap p" "order (SetSessionDir sid d p) = order p"
  "disk (SetSessionDir sid d p) = disk p" "seq p \<le> seq (SetSessionDir sid d p)"
  by (simp_all add: SetSessionDir_def Let_def)

text \<open>The tables of the directories and the counter, for every step but an admission.\<close>

lemma ids_dirs:
  assumes "ids_ok N p" "\<not> is_start e"
  shows "seq p \<le> seq (bstep B e p) \<and> seq (bstep B e p) \<le> N \<and>
    (\<forall>sd\<in>set (sessionDirs (bstep B e p)). snd sd \<noteq> [] \<and>
       (\<forall>k\<in>fst ` set (disk (bstep B e p)). fst k = snd sd \<longrightarrow> row_number_le (seq (bstep B e p)) k))"
proof (cases "case e of BSetDir _ _ \<Rightarrow> False | _ \<Rightarrow> True")
  case True
  from bstep_seq_dirs[OF assms(2) True] bstep_disk_keys[OF assms(2)] assms(1)
  show ?thesis unfolding ids_ok_def by (metis (no_types, lifting) order_refl subsetD)
next
  case False
  then obtain sid d0 where e: "e = BSetDir sid d0" by (auto split: bevent.splits)
  let ?d = "trim_space d0" and ?q = "bstep B e p"
  have ids: "0 \<le> seq p" "seq p \<le> N" "\<And>k. k \<in> fst ` set (disk p) \<Longrightarrow> row_number_le N k"
    "\<And>sd. sd \<in> set (sessionDirs p) \<Longrightarrow> snd sd \<noteq> [] \<and> (\<forall>k\<in>fst ` set (disk p). fst k = snd sd \<longrightarrow> row_number_le (seq p) k)"
    using assms(1) by (auto simp: ids_ok_def)
  consider (none) "trim_space sid = []" | (del) "trim_space sid \<noteq> []" "?d = []" | (set) "trim_space sid \<noteq> []" "?d \<noteq> []" by blast
  then show ?thesis
  proof cases
    case none then show ?thesis using ids by (simp add: e SetSessionDir_def)
  next
    case del
    then have q: "seq ?q = seq p" "disk ?q = disk p" "set (sessionDirs ?q) \<subseteq> set (sessionDirs p)"
      by (auto simp: e SetSessionDir_def delete_filter)
    with ids(2,4) show ?thesis by (metis order_refl subsetD)
  next
    case set
    let ?h = "highestPersistedTaskNumber ?d p"
    have q: "seq ?q = max (seq p) ?h" "disk ?q = disk p" "sessionDirs ?q = AList.update (trim_space sid) ?d (sessionDirs p)"
      using set by (simp_all add: e SetSessionDir_def Let_def)
    have "?h \<le> N"
    proof (rule highest_le)
      fix d t x n assume "((d, t), x) \<in> set (disk p)" "task_number t = Some n"
      then show "n \<le> N" using ids(3)[of "(d, t)"] by (force simp: row_number_le_def)
    qed (use ids in simp)
    moreover have "snd sd \<noteq> [] \<and> (\<forall>k\<in>fst ` set (disk p). fst k = snd sd \<longrightarrow> row_number_le (max (seq p) ?h) k)"
      if "sd \<in> insert (trim_space sid, ?d) (set (sessionDirs p))" for sd
    proof (cases "sd \<in> set (sessionDirs p)")
      case True
      then show ?thesis using ids(4) by (meson max.cobounded1 row_number_le_mono)
    next
      case False
      with that have sd: "snd sd = ?d" by auto
      have "row_number_le (max (seq p) ?h) k" if "k \<in> fst ` set (disk p)" "fst k = ?d" for k
        using that highest_ge[of ?d "snd k" _ p] by (force simp: row_number_le_def le_max_iff_disj)
      with sd set show ?thesis by simp
    qed
    ultimately show ?thesis
      using ids(2) set_update_sub[of "trim_space sid" ?d "sessionDirs p"] unfolding q by (meson max.bounded_iff max.cobounded1 subsetD)
  qed
qed

lemma ids_nonstart:
  assumes ids: "ids_ok N p" and ok: "pool_ok p" and ns: "\<not> is_start e"
  shows "ids_ok N (bstep B e p)"
proof -
  let ?q = "bstep B e p"
  note dirs = ids_dirs[OF ids ns, of B]
  have len: "length (heap ?q) = length (heap p)" by (rule bstep_len[OF ns])
  have ev: "evolves (heap p ! r) (heap ?q ! r)" if "r < length (heap p)" for r
    using bstep_good[OF ok, of B e] that by (simp add: good_step_def pool_evolves_def)
  have sub: "set (tasks ?q) \<subseteq> set (tasks p)" using bstep_shrinks[OF ns, of p B] by (auto simp: shrinks_def)
  have heap: "trim_space (SessionID (snap (heap ?q ! r))) = SessionID (snap (heap ?q ! r)) \<and>
      (\<exists>n. ID (snap (heap ?q ! r)) = task_number_id n \<and> 0 < n \<and> n \<le> seq ?q)" if "r < length (heap p)" for r
    using ids ev[OF that] that dirs unfolding ids_ok_def evolves_def by (metis order_trans)
  have tab: "snd x < length (heap ?q) \<and> fst x = key_of (heap ?q ! snd x)" if "x \<in> set (tasks ?q)" for x
    using ids sub that ev key_of_evolves len unfolding ids_ok_def by (metis subsetD)
  have lst: "listed (key_of (heap ?q ! r)) r ?q" if "r < length (heap p)" "\<not> Finished (Status (snap (heap ?q ! r)))" for r
  proof -
    have "\<not> Finished (Status (snap (heap p ! r)))"
      using ev[OF that(1)] that(2) by (auto simp: evolves_def same_outcome_def)
    moreover from this have "listed (key_of (heap p ! r)) r p" using ids that(1) by (simp add: ids_ok_def)
    ultimately show ?thesis using bstep_keeps[OF ns] key_of_evolves[OF ev[OF that(1)]] by simp
  qed
  have rows: "row_number_le N k" if "k \<in> fst ` set (disk ?q)" for k
  proof -
    have "k \<in> fst ` set (disk p)" by (rule subsetD[OF bstep_disk_keys[OF ns] that])
    then show ?thesis by (rule ids_rows[OF ids])
  qed
  have seq0: "0 \<le> seq ?q" using ids dirs unfolding ids_ok_def by (meson order_trans)
  show ?thesis
  proof (rule ids_okI)
    show "0 \<le> seq ?q" by (rule seq0)
    show "seq ?q \<le> N" "\<forall>sd\<in>set (sessionDirs ?q). snd sd \<noteq> [] \<and>
        (\<forall>k\<in>fst ` set (disk ?q). fst k = snd sd \<longrightarrow> row_number_le (seq ?q) k)" using dirs by blast+
  qed (rule rows tab heap[folded len] lst[folded len]; assumption)+
qed

section \<open>An admission takes a fresh number\<close>

lemma start_dir_keys:
  "fst ` set (disk (start_dir ok r d p)) \<subseteq> fst ` set (disk p) \<union> (case d of None \<Rightarrow> {} | Some d \<Rightarrow> {(d, ID (snap (heap p ! r)))})"
  by (auto simp: start_dir_def Let_def dom_update split: option.split if_splits)

text \<open>The new key, and the new row where the session has a directory, were not there before.\<close>

lemma start_fresh:
  assumes ids: "ids_ok N p" and N: "N < 2 ^ 63 - 1"
  shows "wrap64 (seq p + 1) = seq p + 1"
    and "map_of (tasks p) (taskKey s (task_number_id (seq p + 1))) = None"
    and "map_of (sessionDirs p) s = Some d \<Longrightarrow> (d, task_number_id (seq p + 1)) \<notin> fst ` set (disk p)"
proof -
  let ?n = "seq p + 1"
  have n: "0 \<le> ?n" "in_int64 ?n" using ids N by (auto simp: ids_ok_def in_int64_def)
  show "wrap64 ?n = ?n" using n(2) by simp
  show "map_of (tasks p) (taskKey s (task_number_id ?n)) = None"
  proof (rule ccontr)
    assume "map_of (tasks p) (taskKey s (task_number_id ?n)) \<noteq> None"
    then obtain r where "(taskKey s (task_number_id ?n), r) \<in> set (tasks p)" by (auto dest: map_of_SomeD)
    then have r: "r < length (heap p)" "taskKey s (task_number_id ?n) = key_of (heap p ! r)"
      using ids by (auto simp: ids_ok_def)
    then obtain m where m: "ID (snap (heap p ! r)) = task_number_id m" "0 < m" "m \<le> seq p"
      using ids unfolding ids_ok_def by blast
    moreover have "in_int64 m" using m n by (auto simp: in_int64_def)
    ultimately show False using r(2) n taskKey_inject[of s ?n "SessionID (snap (heap p ! r))" m] by (simp add: key_of_def)
  qed
  show "(d, task_number_id ?n) \<notin> fst ` set (disk p)" if "map_of (sessionDirs p) s = Some d"
  proof
    assume row: "(d, task_number_id ?n) \<in> fst ` set (disk p)"
    have "(s, d) \<in> set (sessionDirs p)" using that by (rule map_of_SomeD)
    then have "\<forall>k\<in>fst ` set (disk p). fst k = snd (s, d) \<longrightarrow> row_number_le (seq p) k" using ids unfolding ids_ok_def by blast
    with row have "row_number_le (seq p) (d, task_number_id ?n)" by fastforce
    then show False using task_number_inverse[OF n] by (simp add: row_number_le_def)
  qed
qed

lemma new_task_ids:
  "SessionID (snap (new_task s now p)) = spec_SessionID s" "ID (snap (new_task s now p)) = task_number_id (seq p)"
  by (simp_all add: new_task_def)

lemma ids_start:
  assumes ids: "ids_ok N p" and N: "N < 2 ^ 63 - 1" and st: "is_start e"
  shows "ids_ok (N + 1) (bstep B e p)"
proof -
  from st obtain spec now ok where e: "e = BStart spec now ok" by (auto simp: is_start_def split: bevent.splits)
  have mono: "row_number_le (N + 1) k" if "k \<in> fst ` set (disk p)" for k
    using ids_rows[OF ids that] by (rule row_number_le_mono) simp
  show ?thesis
  proof (cases rule: start_admit_cases[of spec now p])
    case (refused err)
    with ids mono show ?thesis by (simp add: e ids_ok_def)
  next
    case (admitted spec')
    let ?q = "bstep B e p" and ?n = "seq p + 1"
    let ?sid = "spec_SessionID spec'" and ?d = "map_of (sessionDirs p) (spec_SessionID spec')"
    let ?t = "new_task spec' now (p\<lparr> seq := wrap64 (seq p + 1) \<rparr>)"
    note fresh = start_fresh[OF ids N]
    have t: "SessionID (snap ?t) = ?sid" "ID (snap ?t) = task_number_id ?n" using fresh(1) by (simp_all add: new_task_ids)
    have q: "?q = start_dir ok (length (heap p)) ?d (registerLocked ?t (p\<lparr> seq := wrap64 ?n \<rparr>))"
      by (simp add: e admitted(1))
    have "\<exists>dr. heap ?q = heap p @ [?t\<lparr> dir := dr \<rparr>]"
      unfolding q by (rule start_heap) simp
    then obtain dr where h: "heap ?q = heap p @ [?t\<lparr> dir := dr \<rparr>]" ..
    let ?key = "taskKey ?sid (task_number_id ?n)"
    have tab: "tasks ?q = AList.update ?key (length (heap p)) (tasks p)" "order ?q = order p @ [?key]"
        "seq ?q = ?n" "sessionDirs ?q = sessionDirs p"
      unfolding q using fresh(1) by (simp_all add: new_task_ids) (simp add: registerLocked_def new_task_ids Let_def)
    have keys: "fst ` set (disk ?q) \<subseteq> fst ` set (disk p) \<union> {k. snd k = task_number_id ?n}"
      unfolding q by (rule order_trans[OF start_dir_keys]) (auto simp: t split: option.split)
    have num: "row_number_le ?n k" if "snd k = task_number_id ?n" for k
      using that ids N task_number_inverse[of ?n] by (auto simp: row_number_le_def ids_ok_def in_int64_def)
    have old: "map_of (tasks ?q) k = map_of (tasks p) k" if "map_of (tasks p) k \<noteq> None" for k
      using that fresh(2) by (auto simp: tab update_conv')
    show ?thesis
    proof (rule ids_okI)
      show "0 \<le> seq ?q" "seq ?q \<le> N + 1" using ids by (simp_all add: tab ids_ok_def)
    next
      fix k assume "k \<in> fst ` set (disk ?q)"
      with keys consider "k \<in> fst ` set (disk p)" | "snd k = task_number_id ?n" by blast
      then show "row_number_le (N + 1) k"
        using mono num[of k] row_number_le_mono[of ?n k "N + 1"] ids by cases (simp_all add: ids_ok_def)
    next
      show "\<forall>sd\<in>set (sessionDirs ?q). snd sd \<noteq> [] \<and> (\<forall>k\<in>fst ` set (disk ?q). fst k = snd sd \<longrightarrow> row_number_le (seq ?q) k)"
      proof (intro ballI conjI impI)
        fix sd assume sd: "sd \<in> set (sessionDirs ?q)"
        then show "snd sd \<noteq> []" using ids by (simp add: tab ids_ok_def)
        fix k assume k: "k \<in> fst ` set (disk ?q)" "fst k = snd sd"
        from k(1) keys consider "k \<in> fst ` set (disk p)" | "snd k = task_number_id ?n" by blast
        then show "row_number_le (seq ?q) k"
        proof cases
          case 1
          then have "row_number_le (seq p) k" using ids sd k(2) unfolding ids_ok_def tab by blast
          then show ?thesis unfolding tab by (rule row_number_le_mono) simp
        qed (simp add: tab num)
      qed
    next
      fix r assume "r < length (heap ?q)"
      then consider "r < length (heap p)" | "r = length (heap p)" by (auto simp: h less_Suc_eq)
      then show "trim_space (SessionID (snap (heap ?q ! r))) = SessionID (snap (heap ?q ! r)) \<and>
        (\<exists>n. ID (snap (heap ?q ! r)) = task_number_id n \<and> 0 < n \<and> n \<le> seq ?q)"
      proof cases
        case 1
        then have "heap ?q ! r = heap p ! r" by (simp add: h nth_append)
        moreover obtain n where "ID (snap (heap p ! r)) = task_number_id n" "0 < n" "n \<le> seq p"
            "trim_space (SessionID (snap (heap p ! r))) = SessionID (snap (heap p ! r))"
          using ids 1 unfolding ids_ok_def by blast
        ultimately show ?thesis unfolding tab by (auto intro!: exI[of _ n] simp del: bstep.simps)
      next
        case 2
        have "0 < ?n" using ids by (simp add: ids_ok_def)
        with 2 show ?thesis unfolding tab h by (auto simp: nth_append t admitted(4))
      qed
    next
      fix x assume "x \<in> set (tasks ?q)"
      then have "x \<in> insert (?key, length (heap p)) (set (tasks p))" unfolding tab by (rule subsetD[OF set_update_sub])
      then show "snd x < length (heap ?q) \<and> fst x = key_of (heap ?q ! snd x)"
        using ids by (auto simp: h nth_append ids_ok_def key_of_def t less_SucI simp del: bstep.simps)
    next
      fix r assume r: "r < length (heap ?q)" "\<not> Finished (Status (snap (heap ?q ! r)))"
      then consider "r < length (heap p)" | "r = length (heap p)" by (auto simp: h less_Suc_eq)
      then show "listed (key_of (heap ?q ! r)) r ?q"
      proof cases
        case 1
        then have same: "heap ?q ! r = heap p ! r" by (simp add: h nth_append)
        with r(2) have "listed (key_of (heap p ! r)) r p" using ids 1 by (simp add: ids_ok_def)
        then show ?thesis unfolding same using old[of "key_of (heap p ! r)"] by (simp add: listed_def tab(2) del: bstep.simps)
      next
        case 2
        have "key_of (heap ?q ! r) = ?key" by (simp add: h 2 nth_append key_of_def t)
        then show ?thesis by (simp add: listed_def tab 2 update_conv' del: bstep.simps)
      qed
    qed
  qed
qed

section \<open>Runs\<close>

definition small_numbers :: "((bytes \<times> bytes) \<times> Snapshot option) list \<Rightarrow> bool" where
  "small_numbers records \<longleftrightarrow>
     list_all (\<lambda>row. case task_number (snd (fst row)) of None \<Rightarrow> True | Some n \<Rightarrow> n \<le> 2 ^ 62) records"

lemma ids_mono:
  assumes ids: "ids_ok N p" and NM: "N \<le> M" shows "ids_ok M p"
proof (rule ids_okI)
  show "seq p \<le> M" using ids NM unfolding ids_ok_def by linarith
  show "row_number_le M k" if "k \<in> fst ` set (disk p)" for k
    by (rule row_number_le_mono[OF ids_rows[OF ids that] NM])
qed (use ids[unfolded ids_ok_def] in blast)+

lemma ids_run:
  assumes "ids_ok N p" "pool_ok p" "N + int (length es) < 2 ^ 63 - 1"
  shows "ids_ok (N + int (length es)) (brun B es p)"
  using assms
proof (induction es arbitrary: N p)
  case (Cons e es)
  have "ids_ok (N + 1) (bstep B e p)"
  proof (cases "is_start e")
    case True
    then show ?thesis using Cons.prems by (intro ids_start) simp_all
  next
    case False
    show ?thesis by (rule ids_mono[OF ids_nonstart[OF Cons.prems(1,2) False]]) simp
  qed
  moreover have "pool_ok (bstep B e p)" using bstep_good[OF Cons.prems(2)] by (simp add: good_step_def)
  ultimately have "ids_ok (N + 1 + int (length es)) (brun B es (bstep B e p))"
    using Cons.prems(3) by (intro Cons.IH) simp_all
  then show ?case by (simp add: brun_def algebra_simps)
qed (simp add: brun_def)

lemma ids_reached:
  assumes "small_numbers records" "length es < 2 ^ 61"
  shows "\<exists>N < 2 ^ 63 - 1. ids_ok N (brun B es (NewPool c records))"
proof (intro exI conjI)
  have "ids_ok (2 ^ 62) (NewPool c records)"
    using assms(1) by (intro ids_okI) (auto simp: NewPool_def small_numbers_def row_number_le_def list_all_iff split: option.splits)
  then show "ids_ok (2 ^ 62 + int (length es)) (brun B es (NewPool c records))"
    using assms(2) by (intro ids_run NewPool_ok) simp_all
  show "2 ^ 62 + int (length es) < 2 ^ 63 - 1" using assms(2) by simp
qed

text \<open>
  C25: Ids of background tasks are never used twice. Whatever ran before, in this process or in an
  earlier one whose records are still on disk, the task an admission registers has a key that is
  not in the pool's table and, where its session has a directory, an id no record or directory of
  that session bears; it is the only change of the table. (Numbers on disk up to \<open>2 ^ 62\<close>, fewer than
  \<open>2 ^ 61\<close> operations: the counter does not reach its 64-bit wrap.)
\<close>
theorem admission_is_fresh:
  assumes "small_numbers records" "length es < 2 ^ 61"
    and "start_admit spec now (brun B es (NewPool c records)) = (Inr (r, d), q)"
  shows "let p = brun B es (NewPool c records); t = snap (heap q ! r) in
    map_of (tasks p) (taskKey (SessionID t) (ID t)) = None \<and>
    map_of (tasks q) = (map_of (tasks p))(taskKey (SessionID t) (ID t) \<mapsto> r) \<and>
    (\<forall>d'. d = Some d' \<longrightarrow> map_of (disk p) (d', ID t) = None)"
proof -
  let ?p = "brun B es (NewPool c records)"
  obtain N where N: "N < 2 ^ 63 - 1" "ids_ok N ?p" using ids_reached[OF assms(1,2)] by blast
  note fresh = start_fresh[OF N(2,1)]
  show ?thesis
  proof (cases rule: start_admit_cases[of spec now ?p])
    case (refused e)
    with assms(3) show ?thesis by simp
  next
    case (admitted spec')
    let ?t = "new_task spec' now (?p\<lparr> seq := wrap64 (seq ?p + 1) \<rparr>)"
    have q: "q = registerLocked ?t (?p\<lparr> seq := wrap64 (seq ?p + 1) \<rparr>)" "r = length (heap ?p)"
      "d = map_of (sessionDirs ?p) (spec_SessionID spec')"
      using assms(3) admitted(1) by simp_all
    have t: "heap q ! r = ?t" by (simp add: q)
    have "ID (snap ?t) = task_number_id (seq ?p + 1)" by (simp add: new_task_ids fresh(1))
    then show ?thesis
      unfolding Let_def t using fresh(2,3) by (auto simp: q new_task_ids update_conv' map_of_eq_None_iff)
  qed
qed

lemma admission_is_fresh_witness:
  "let p = brun id [BSetDir ''s'' ''d'', BStart demo_spec 1 True] (NewPool demo_config [((''d'', ''bg_7''), None)]);
       q = snd (start_admit demo_spec 2 p); t = snap (heap q ! 1) in
    ID t = ''bg_9'' \<and> map_of (tasks p) (taskKey (SessionID t) (ID t)) = None \<and> map_of (disk p) (''d'', ID t) = None"
proof -
  let ?rec = "[((''d'', ''bg_7''), None)]" and ?es = "[BSetDir ''s'' ''d'', BStart demo_spec 1 True]"
  let ?p = "brun id ?es (NewPool demo_config ?rec)"
  have a: "fst (start_admit demo_spec 2 ?p) = Inr (1, Some ''d'')" by code_simp
  then have s: "start_admit demo_spec 2 ?p = (Inr (1, Some ''d''), snd (start_admit demo_spec 2 ?p))" by (metis prod.collapse)
  have r: "small_numbers ?rec" by code_simp
  have l: "length ?es < 2 ^ 61" by simp
  have i: "ID (snap (heap (snd (start_admit demo_spec 2 ?p)) ! 1)) = ''bg_9''" by code_simp
  show ?thesis using admission_is_fresh[OF r l s] i unfolding Let_def by simp
qed

text \<open>
  C24: No running task is lost. In every reachable state every task whose outcome is not written is
  in the table under its own key and listed for its session, whatever was cleared, forgotten,
  released or started in between.
\<close>
theorem unfinished_task_listed:
  assumes "small_numbers records" "length es < 2 ^ 61"
    and "r < length (heap (brun B es (NewPool c records)))"
    and "\<not> Finished (Status (snap (heap (brun B es (NewPool c records)) ! r)))"
  shows "let p = brun B es (NewPool c records); t = heap p ! r in
    lookup_task (SessionID (snap t)) (ID (snap t)) p = Some r \<and> Snapshot_of t \<in> set (List_tasks (SessionID (snap t)) p)"
proof -
  let ?p = "brun B es (NewPool c records)"
  let ?t = "heap ?p ! r"
  obtain N where N: "ids_ok N ?p" using ids_reached[OF assms(1,2)] by blast
  have l: "listed (key_of ?t) r ?p" and s: "trim_space (SessionID (snap ?t)) = SessionID (snap ?t)"
    and "\<exists>n. ID (snap ?t) = task_number_id n \<and> 0 < n \<and> n \<le> seq ?p"
    using N assms(3,4) unfolding ids_ok_def by blast+
  then obtain n where n: "ID (snap ?t) = task_number_id n" "0 < n" by blast
  have i: "trim_space (ID (snap ?t)) = ID (snap ?t)" unfolding n(1) by (rule task_number_id_trim) (use n(2) in simp)
  have "lookup_task (SessionID (snap ?t)) (ID (snap ?t)) ?p = Some r"
    using l by (simp add: lookup_task_def listed_def key_of_def s i)
  moreover have "Snapshot_of ?t \<in> set (List_tasks (SessionID (snap ?t)) ?p)"
    using l unfolding List_tasks_def Let_def s listed_def by (force intro: bexI[where x = "key_of ?t"])
  ultimately show ?thesis by (simp add: Let_def)
qed

lemma unfinished_task_listed_witness:
  "let p = brun id [BStart demo_spec 1 True, BClear ''s'', BForget ''s'' ''bg_1'', BRelease ''s'', BStart demo_spec 2 True]
             (NewPool demo_config []) in
    ID (snap (heap p ! 0)) = ''bg_1'' \<and> lookup_task ''s'' ''bg_1'' p = Some 0"
proof -
  let ?es = "[BStart demo_spec 1 True, BClear ''s'', BForget ''s'' ''bg_1'', BRelease ''s'', BStart demo_spec 2 True]"
  let ?p = "brun id ?es (NewPool demo_config [])"
  have r: "small_numbers []" by (simp add: small_numbers_def)
  have l: "length ?es < 2 ^ 61" by simp
  have h: "0 < length (heap ?p)" by code_simp
  have u: "\<not> Finished (Status (snap (heap ?p ! 0)))" by code_simp
  have i: "ID (snap (heap ?p ! 0)) = ''bg_1'' \<and> SessionID (snap (heap ?p ! 0)) = ''s''" by code_simp
  show ?thesis using unfinished_task_listed[OF r l h u] i unfolding Let_def by simp
qed

section \<open>Stopping everything\<close>

definition handled :: "task \<Rightarrow> bool" where
  "handled t \<longleftrightarrow> Finished (Status (snap t)) \<or> exitObserved t \<or> termReason t \<noteq> None"

lemma handled_evolves: "evolves t u \<Longrightarrow> handled t \<Longrightarrow> handled u"
  by (auto simp: handled_def evolves_def same_outcome_def)

lemma Stop_fields [simp]:
  "tasks (snd (Stop alive ok now sid tid p)) = tasks p" "order (snd (Stop alive ok now sid tid p)) = order p"
  "length (heap (snd (Stop alive ok now sid tid p))) = length (heap p)"
  by (simp_all add: Stop_def claim_def split: option.split)

lemma Stop_handles:
  "lookup_task sid tid p = Some r \<Longrightarrow> r < length (heap p) \<Longrightarrow> handled (heap (snd (Stop alive ok now sid tid p)) ! r)"
  by (auto simp: Stop_def claim_def upd_task_nth claimTermination_def handled_def)

text \<open>A good change that leaves the tables alone, and so what is listed and looked up.\<close>

definition stop_like :: "Pool \<Rightarrow> Pool \<Rightarrow> bool" where
  "stop_like p q \<longleftrightarrow> good_step p q \<and> tasks q = tasks p \<and> order q = order p \<and> length (heap q) = length (heap p)"

lemma stop_like_trans: "stop_like p q \<Longrightarrow> stop_like q s \<Longrightarrow> stop_like p s"
  by (auto simp: stop_like_def intro: good_step_trans)

lemma stop_like_Stop: "pool_ok p \<Longrightarrow> stop_like p (snd (Stop alive ok now sid tid p))"
  by (simp add: stop_like_def Stop_good)

lemma stop_like_ok: "stop_like p q \<Longrightarrow> pool_ok q"
  by (simp add: stop_like_def good_step_def)

lemma stop_like_nth: "stop_like p q \<Longrightarrow> r < length (heap p) \<Longrightarrow> evolves (heap p ! r) (heap q ! r)"
  by (simp add: stop_like_def good_step_def pool_evolves_def)

lemma stop_like_handled: "stop_like p q \<Longrightarrow> r < length (heap p) \<Longrightarrow> handled (heap p ! r) \<Longrightarrow> handled (heap q ! r)"
  using stop_like_nth handled_evolves by blast

lemma stops_fold:
  assumes "pool_ok p"
  shows "stop_like p (fold (\<lambda>s q. snd (Stop alive ok now sid (ID s) q)) ss p) \<and>
    (\<forall>s\<in>set ss. \<forall>r<length (heap p). lookup_task sid (ID s) p = Some r \<longrightarrow>
       handled (heap (fold (\<lambda>s q. snd (Stop alive ok now sid (ID s) q)) ss p) ! r))"
  using assms
proof (induction ss arbitrary: p)
  case Nil
  then show ?case by (simp add: stop_like_def good_step_refl)
next
  case (Cons s ss)
  let ?q = "snd (Stop alive ok now sid (ID s) p)"
  have pq: "stop_like p ?q" by (rule stop_like_Stop[OF Cons.prems])
  let ?f = "fold (\<lambda>s q. snd (Stop alive ok now sid (ID s) q)) ss ?q"
  have q: "stop_like ?q ?f \<and> (\<forall>s\<in>set ss. \<forall>r<length (heap ?q). lookup_task sid (ID s) ?q = Some r \<longrightarrow> handled (heap ?f ! r))"
    by (rule Cons.IH[OF stop_like_ok[OF pq]])
  have "handled (heap ?f ! r)" if "s' \<in> set (s # ss)" "r < length (heap p)" "lookup_task sid (ID s') p = Some r" for s' r
  proof (cases "s' = s")
    case True
    then have "handled (heap ?q ! r)" using that by (simp add: Stop_handles)
    then show ?thesis using q that(2) by (auto intro: stop_like_handled)
  next
    case False
    then show ?thesis using that q by (simp add: lookup_task_def)
  qed
  then show ?case using stop_like_trans[OF pq] q by simp
qed

lemma List_tasks_lookup:
  assumes "listed (key_of (heap p ! r)) r p" "SessionID (snap (heap p ! r)) = trim_space sid"
  shows "Snapshot_of (heap p ! r) \<in> set (List_tasks sid p)"
  using assms unfolding List_tasks_def Let_def listed_def by (force intro: bexI[where x = "key_of (heap p ! r)"])

lemma StopSession_handles:
  assumes "pool_ok p"
  shows "stop_like p (StopSession alive ok now sid p) \<and>
    (\<forall>r<length (heap p). listed (key_of (heap p ! r)) r p \<and> SessionID (snap (heap p ! r)) = trim_space sid \<and>
        trim_space (ID (snap (heap p ! r))) = ID (snap (heap p ! r)) \<longrightarrow> handled (heap (StopSession alive ok now sid p) ! r))"
proof -
  let ?ss = "filter (\<lambda>s. \<not> Finished (Status s)) (List_tasks sid p)"
  have f: "stop_like p (StopSession alive ok now sid p)"
    and h: "\<And>s r. s \<in> set ?ss \<Longrightarrow> r < length (heap p) \<Longrightarrow> lookup_task sid (ID s) p = Some r
       \<Longrightarrow> handled (heap (StopSession alive ok now sid p) ! r)"
    unfolding StopSession_def using stops_fold[OF assms, of alive ok now sid ?ss] by blast+
  have "handled (heap (StopSession alive ok now sid p) ! r)"
    if r: "r < length (heap p)" and l: "listed (key_of (heap p ! r)) r p" and s: "SessionID (snap (heap p ! r)) = trim_space sid"
      and i: "trim_space (ID (snap (heap p ! r))) = ID (snap (heap p ! r))" for r
  proof (cases "Finished (Status (snap (heap p ! r)))")
    case True
    then show ?thesis using stop_like_handled[OF f r] by (simp add: handled_def)
  next
    case False
    have ident: "ID (Snapshot_of (heap p ! r)) = ID (snap (heap p ! r))" by (simp add: Snapshot_of_def Let_def split: option.split)
    have "lookup_task sid (ID (Snapshot_of (heap p ! r))) p = Some r"
      using l unfolding ident by (simp add: lookup_task_def i listed_def key_of_def s)
    then show ?thesis using False List_tasks_lookup[OF l s] by (intro h[of "Snapshot_of (heap p ! r)"] r) simp_all
  qed
  with f show ?thesis by blast
qed

text \<open>
  A shutdown reaches every task. After \<^verbatim>\<open>StopAll\<close>, from any reachable state and in whatever
  order the sessions come, there is no task left that still runs unclaimed: each is finished, or
  its exit was already observed, or it is claimed, so that its handle is stopped or will be stopped
  when its launch returns.
\<close>
theorem stop_all_reaches:
  assumes "small_numbers records" "length es < 2 ^ 61"
    and "task_sessions (brun B es (NewPool c records)) \<subseteq> set sids"
    and "r < length (heap (brun B es (NewPool c records)))"
  shows "let t = heap (StopAll alive ok now sids (brun B es (NewPool c records))) ! r in
    (Finished (Status (snap t)) \<or> exitObserved t \<or> termReason t \<noteq> None) \<and>
    stops t = (if handle t \<and> termReason t \<noteq> None then 1 else 0)"
proof -
  let ?p = "brun B es (NewPool c records)"
  obtain N where N: "ids_ok N ?p" using ids_reached[OF assms(1,2)] by blast
  obtain n where n: "ID (snap (heap ?p ! r)) = task_number_id n" "0 < n"
      and s: "trim_space (SessionID (snap (heap ?p ! r))) = SessionID (snap (heap ?p ! r))"
    using N assms(4) unfolding ids_ok_def by blast
  have i: "trim_space (ID (snap (heap ?p ! r))) = ID (snap (heap ?p ! r))"
    unfolding n(1) by (rule task_number_id_trim) (use n(2) in simp)
  have all: "stop_like ?p q \<Longrightarrow> stop_like ?p (StopAll alive ok now ss q) \<and>
     (handled (heap q ! r) \<or> listed (key_of (heap ?p ! r)) r ?p \<and> SessionID (snap (heap ?p ! r)) \<in> set ss
       \<longrightarrow> handled (heap (StopAll alive ok now ss q) ! r))" for ss q
  proof (induction ss arbitrary: q)
    case (Cons sid ss)
    let ?q' = "StopSession alive ok now sid q"
    have ev: "evolves (heap ?p ! r) (heap q ! r)" by (rule stop_like_nth[OF Cons.prems assms(4)])
    have len: "r < length (heap q)" using Cons.prems assms(4) by (simp add: stop_like_def)
    have q': "stop_like q ?q'" "listed (key_of (heap q ! r)) r q \<Longrightarrow> SessionID (snap (heap q ! r)) = trim_space sid
        \<Longrightarrow> trim_space (ID (snap (heap q ! r))) = ID (snap (heap q ! r)) \<Longrightarrow> handled (heap ?q' ! r)"
      using StopSession_handles[OF stop_like_ok[OF Cons.prems], of alive ok now sid] len by blast+
    have pq': "stop_like ?p ?q'" by (rule stop_like_trans[OF Cons.prems q'(1)])
    have "handled (heap ?q' ! r)" if "handled (heap q ! r) \<or> listed (key_of (heap ?p ! r)) r ?p \<and> SessionID (snap (heap ?p ! r)) = sid"
      using that
    proof
      assume "listed (key_of (heap ?p ! r)) r ?p \<and> SessionID (snap (heap ?p ! r)) = sid"
      then show ?thesis
        using ev s i Cons.prems key_of_evolves[OF ev] by (intro q'(2)) (auto simp: evolves_def listed_def stop_like_def)
    qed (rule stop_like_handled[OF q'(1) len])
    with Cons.IH[OF pq'] show ?case by (auto simp: StopAll_def)
  qed (simp add: StopAll_def)
  have self: "stop_like ?p ?p" by (simp add: stop_like_def good_step_refl reached_ok)
  have "handled (heap ?p ! r) \<or> listed (key_of (heap ?p ! r)) r ?p \<and> SessionID (snap (heap ?p ! r)) \<in> set sids"
  proof (cases "Finished (Status (snap (heap ?p ! r)))")
    case False
    then have l: "listed (key_of (heap ?p ! r)) r ?p" using N assms(4) unfolding ids_ok_def by blast
    then have "(key_of (heap ?p ! r), r) \<in> set (tasks ?p)" by (auto simp: listed_def dest: map_of_SomeD)
    then have "SessionID (snap (heap ?p ! r)) \<in> task_sessions ?p" by (force simp: task_sessions_def)
    with l assms(3) show ?thesis by blast
  qed (simp add: handled_def)
  with all[OF self, of sids] have h: "handled (heap (StopAll alive ok now sids ?p) ! r)"
    and l: "stop_like ?p (StopAll alive ok now sids ?p)" by blast+
  have "r < length (heap (StopAll alive ok now sids ?p))" using l assms(4) by (simp add: stop_like_def)
  from pool_ok_cell[OF stop_like_ok[OF l] this] h show ?thesis by (simp add: handled_def cell_ok_def Let_def)
qed

lemma stop_all_reaches_witness:
  "let t = heap (StopAll (\<lambda>_. False) True 9 [''s''] (brun id [BStart demo_spec 1 True] (NewPool demo_config []))) ! 0 in
   termReason t = Some StatusStopped \<and> stops t = 0"
proof -
  let ?p = "brun id [BStart demo_spec 1 True] (NewPool demo_config [])"
  have r: "small_numbers []" by (simp add: small_numbers_def)
  have l: "length [BStart demo_spec 1 True] < 2 ^ 61" by simp
  have s: "task_sessions ?p \<subseteq> set [''s'']" by code_simp
  have h: "0 < length (heap ?p)" by code_simp
  have f: "let t = heap (StopAll (\<lambda>_. False) True 9 [''s''] ?p) ! 0 in
      termReason t = Some StatusStopped \<and> \<not> handle t" by code_simp
  show ?thesis using stop_all_reaches[OF r l s h, of "\<lambda>_. False" True 9] f unfolding Let_def by simp
qed

end
