(* ===== verification/BgTask_Limits.thy ===== *)
theory BgTask_Limits
  imports BgTask
begin

text \<open>
  The limits of a background task: its timeout, which always fits the clock and stays within the
  configured maximum, and the window of its output, which is the end of everything it wrote.
\<close>

section \<open>The timeout\<close>

lemma normalised_positive:
  "0 < MaxConcurrent (normalised c)" "0 < DefaultTimeoutSeconds (normalised c)" "0 < MaxTimeoutSeconds (normalised c)"
  "0 < OutputBufferBytes (normalised c)" "DefaultTimeoutSeconds (normalised c) \<le> MaxTimeoutSeconds (normalised c)"
  by (simp_all add: normalised_def Let_def defaultMaxConcurrent_def defaultTimeoutSeconds_def defaultMaxTimeoutSeconds_def
      defaultOutputBufferBytes_def)

text \<open>
  The timeout a task is given never overflows the clock: in nanoseconds it fits 63 bits for
  every request. A task that did not ask to run without a limit always has one, of at least one
  second and at most the configured maximum; what it asks for is honoured where it is within that;
  an estimate that does not overflow when tripled is given three times over, and at least a minute.
\<close>
theorem timeout_bounds:
  "let conf = normalised c; t = resolveTimeoutSeconds spec conf in
    0 \<le> t \<and> in_int64 (t * 1000000000) \<and>
    (\<not> spec_NoTimeout spec \<longrightarrow> 1 \<le> t \<and> t \<le> MaxTimeoutSeconds conf) \<and>
    (0 < spec_TimeoutSeconds spec \<and> spec_TimeoutSeconds spec \<le> MaxTimeoutSeconds conf \<and> in_int64 (spec_TimeoutSeconds spec * 1000000000)
       \<longrightarrow> t = spec_TimeoutSeconds spec) \<and>
    (\<not> spec_NoTimeout spec \<and> spec_TimeoutSeconds spec \<le> 0 \<and> 0 < spec_ExpectedSeconds spec \<and> in_int64 (3 * spec_ExpectedSeconds spec)
       \<and> MaxTimeoutSeconds conf \<le> maxClockTimeoutSeconds
       \<longrightarrow> t = min (max (3 * spec_ExpectedSeconds spec) 60) (MaxTimeoutSeconds conf))"
proof -
  define conf where "conf = normalised c"
  define t where "t = resolveTimeoutSeconds spec conf"
  have m: "maxClockTimeoutSeconds = 9223372036" by (simp add: maxClockTimeoutSeconds_def)
  note pos = normalised_positive[of c, folded conf_def]
  have one: "0 \<le> t \<and> t \<le> maxClockTimeoutSeconds"
    unfolding t_def resolveTimeoutSeconds_def Let_def using pos by (auto simp: m minEstimatedTimeoutSeconds_def)
  have two: "1 \<le> t \<and> t \<le> MaxTimeoutSeconds conf" if "\<not> spec_NoTimeout spec"
    unfolding t_def resolveTimeoutSeconds_def Let_def using pos that by (auto simp: m minEstimatedTimeoutSeconds_def)
  have three: "t = spec_TimeoutSeconds spec" if "0 < spec_TimeoutSeconds spec" "spec_TimeoutSeconds spec \<le> MaxTimeoutSeconds conf"
      "in_int64 (spec_TimeoutSeconds spec * 1000000000)"
    using that unfolding t_def resolveTimeoutSeconds_def Let_def in_int64_def by (auto simp: m)
  have four: "t = min (max (3 * spec_ExpectedSeconds spec) 60) (MaxTimeoutSeconds conf)"
    if "\<not> spec_NoTimeout spec" "spec_TimeoutSeconds spec \<le> 0" "0 < spec_ExpectedSeconds spec" "in_int64 (3 * spec_ExpectedSeconds spec)"
      "MaxTimeoutSeconds conf \<le> maxClockTimeoutSeconds"
    using that unfolding t_def resolveTimeoutSeconds_def Let_def
    by (simp add: timeoutEstimateMultiplier_def minEstimatedTimeoutSeconds_def mult.commute)
  show ?thesis unfolding Let_def conf_def[symmetric] t_def[symmetric] using one two three four by (auto simp: m in_int64_def)
qed

definition demo_request :: "int \<Rightarrow> Spec" where
  "demo_request estimate = \<lparr> spec_SessionID = [], spec_Kind = [], spec_Label = [], spec_Command = [], spec_ExpectedSeconds = estimate,
     spec_TimeoutSeconds = 0, spec_NoTimeout = False, spec_URL = [], spec_NotifyOnFinish = False, spec_StartedAt = None,
     spec_Agent = None \<rparr>"

lemma timeout_bounds_witness:
  "let c = \<lparr> MaxConcurrent = 5, DefaultTimeoutSeconds = 900, MaxTimeoutSeconds = 3600, OutputBufferBytes = 1 \<rparr> in
   1 \<le> resolveTimeoutSeconds (demo_request 100) (normalised c) \<and> resolveTimeoutSeconds (demo_request 100) (normalised c) = 300"
  using timeout_bounds[of "\<lparr> MaxConcurrent = 5, DefaultTimeoutSeconds = 900, MaxTimeoutSeconds = 3600, OutputBufferBytes = 1 \<rparr>"
      "demo_request 100"]
  by (simp add: Let_def demo_request_def in_int64_def normalised_def maxClockTimeoutSeconds_def)

text \<open>An estimate past a third of the 64-bit range wraps and is given the one-minute floor, not the maximum.\<close>

lemma huge_estimate_gets_a_minute:
  "resolveTimeoutSeconds (demo_request (2 ^ 62)) \<lparr> MaxConcurrent = 5, DefaultTimeoutSeconds = 900, MaxTimeoutSeconds = 3600, OutputBufferBytes = 1 \<rparr> = 60"
  by code_simp

section \<open>The output window\<close>

definition sink_writes :: "(bytes \<times> int) list \<Rightarrow> OutputSink \<Rightarrow> OutputSink" where
  "sink_writes ws s = fold (\<lambda>w. sink_Write (fst w) (snd w)) ws s"

lemma sink_Write_last:
  assumes "0 < sink_limit s" "length (buf s) \<le> nat (sink_limit s)"
  shows "buf (sink_Write p now s) = last_bytes (nat (sink_limit s)) (buf s @ p)" "sink_limit (sink_Write p now s) = sink_limit s"
    "sink_total (sink_Write p now s) = sink_total s + int (length p)"
    "truncated (sink_Write p now s) \<longleftrightarrow> truncated s \<or> length (buf s @ p) > nat (sink_limit s)"
    "lastWrite (sink_Write p now s) = Some now"
  using assms by (auto simp: sink_Write_def Let_def last_bytes_def)

text \<open>
  The captured output of a task is the end of everything it wrote: after any sequence of writes
  the window holds exactly the last bytes of their concatenation, as many as the limit allows; the
  byte count is the whole length, the truncation mark is set exactly when something was dropped,
  and the last activity is the instant of the last write.
\<close>
theorem output_window:
  "let s = sink_writes ws (NewOutputSink limit); written = concat (map fst ws);
       n = nat (if limit \<le> 0 then defaultOutputBufferBytes else limit) in
    buf s = drop (length written - n) written \<and> sink_total s = int (length written) \<and>
    (truncated s \<longleftrightarrow> n < length written) \<and> lastWrite s = (if ws = [] then None else Some (snd (last ws)))"
proof -
  define n where "n = nat (if limit \<le> 0 then defaultOutputBufferBytes else limit)"
  define s where "s = sink_writes ws (NewOutputSink limit)"
  define written where "written = concat (map fst ws)"
  have n: "0 < n" by (auto simp: n_def defaultOutputBufferBytes_def)
  have "sink_limit s = int n \<and> buf s = last_bytes n written \<and> sink_total s = int (length written) \<and>
    (truncated s \<longleftrightarrow> n < length written) \<and> lastWrite s = (if ws = [] then None else Some (snd (last ws)))"
    unfolding s_def written_def
  proof (induction ws rule: rev_induct)
    case Nil
    then show ?case by (simp add: sink_writes_def NewOutputSink_def n_def last_bytes_def defaultOutputBufferBytes_def)
  next
    case (snoc w ws)
    let ?s = "sink_writes ws (NewOutputSink limit)"
    have len: "length (buf ?s) \<le> nat (sink_limit ?s)" "0 < sink_limit ?s" using snoc n by (simp_all add: last_bytes_def)
    have "sink_writes (ws @ [w]) (NewOutputSink limit) = sink_Write (fst w) (snd w) ?s" by (simp add: sink_writes_def)
    moreover have "last_bytes n (last_bytes n (concat (map fst ws)) @ fst w) = last_bytes n (concat (map fst (ws @ [w])))"
      by (simp add: last_bytes_append)
    ultimately show ?case
      using snoc sink_Write_last[OF len(2,1), of "fst w" "snd w"] by (auto simp: last_bytes_def)
  qed
  then show ?thesis unfolding Let_def n_def[symmetric] s_def[symmetric] written_def[symmetric] by (simp add: last_bytes_def)
qed

end
