(* ===== verification/FilePatch.thy ===== *)
theory FilePatch
  imports GoWords
begin

text \<open>
  The tools that change a file's text (\<^verbatim>\<open>internal/tools/fs\<close>: line_endings.go, edit.go, patch.go,
  patch_v4a.go, lines.go). Reading and writing the file is outside: \<open>data\<close> is what the read
  returned, and the result is what is written. An error is a value; a run-time panic is the error
  \<open>Panic\<close>.
\<close>

section \<open>Line endings\<close>

definition LF :: char where "LF = CHR 0x0A"
definition CR :: char where "CR = CHR 0x0D"

fun detectLineEnding :: "bytes \<Rightarrow> bytes" where
  "detectLineEnding [] = [LF]"
| "detectLineEnding (c # text) =
     (if c = LF then [LF]
      else if c = CR then (case text of [] \<Rightarrow> [CR] | d # _ \<Rightarrow> if d = LF then [CR, LF] else [CR])
      else detectLineEnding text)"

definition normalizeLineEndings :: "bytes \<Rightarrow> bytes" where
  "normalizeLineEndings text = replace_all [CR] [LF] (replace_all [CR, LF] [LF] text)"

definition convertToLineEnding :: "bytes \<Rightarrow> bytes \<Rightarrow> bytes" where
  "convertToLineEnding text ending =
     (let normalized = normalizeLineEndings text in
      if ending = [LF] then normalized else replace_all [LF] ending normalized)"

definition hasFinalLineEnding :: "bytes \<Rightarrow> bool" where
  "hasFinalLineEnding text \<longleftrightarrow> has_suffix text [LF] \<or> has_suffix text [CR]"

definition restoreLineEndings :: "bytes \<Rightarrow> bytes \<Rightarrow> bytes" where
  "restoreLineEndings text source =
     (let normalized = normalizeLineEndings text;
          normalized = (if hasFinalLineEnding source
             then (if normalized \<noteq> [] then normalized @ [LF] else normalized)
             else trim_suffix normalized [LF])
      in convertToLineEnding normalized (detectLineEnding source))"

section \<open>The edit tool\<close>

record edit_args =
  OldString :: bytes
  NewString :: bytes
  ReplaceAll :: bool

datatype edit_error = EditSame | EditRead | EditNotFound

definition executeEdit :: "edit_args \<Rightarrow> bytes option \<Rightarrow> edit_error + bytes" where
  "executeEdit args data =
     (if OldString args = NewString args \<and> OldString args \<noteq> [] then Inl EditSame
      else case data of None \<Rightarrow> Inl EditRead
      | Some content \<Rightarrow>
          if OldString args = [] then Inr (NewString args)
          else
            (let ending = detectLineEnding content;
                 old = convertToLineEnding (OldString args) ending;
                 replacement = convertToLineEnding (NewString args) ending
             in if old = replacement then Inl EditSame
                else if ReplaceAll args then
                  (if \<not> str_contains content old then Inl EditNotFound else Inr (replace_all old replacement content))
                else (case str_index old content of
                    None \<Rightarrow> Inl EditNotFound
                  | Some i \<Rightarrow> Inr (take i content @ replacement @ drop (i + length old) content))))"

section \<open>Lines\<close>

definition splitFileLines :: "bytes \<Rightarrow> bytes list" where
  "splitFileLines original =
     (let lines = split_on LF original in if last lines = [] then butlast lines else lines)"

text \<open>The page of a file the read tool returns.\<close>

datatype slice_error = OffsetBeyondEnd int | SlicePanic

definition sliceLines :: "bytes \<Rightarrow> int \<Rightarrow> int \<Rightarrow> slice_error + bytes" where
  "sliceLines content start final =
     (if content = [] then Inl (OffsetBeyondEnd (max start 1))
      else
        (let lines = split_on LF content;
             hasTrailingNewline = (last lines = []);
             lines = (if hasTrailingNewline then butlast lines else lines);
             start = (if start < 1 then 1 else start)
         in if start > int (length lines) then Inl (OffsetBeyondEnd start)
            else
              (let final = (if final < 1 \<or> final > int (length lines) then int (length lines) else final)
               in if final < start - 1 then Inl SlicePanic
                  else
                    (let result = join [LF] (take (nat (final - (start - 1))) (drop (nat (start - 1)) lines))
                     in Inr (if hasTrailingNewline \<and> final = int (length lines) then result @ [LF] else result)))))"

section \<open>Unified diffs\<close>

datatype patch_error =
    OutsideHunk bytes | BadHeader bytes | HunkOverlaps int | StartOutOfRange int
  | SourceMismatch nat bytes | BadHunkLine bytes | CountMismatch | NoHunks
  | NoChangeHunks | OrphanEndOfFile | ContextNotFound | Panic

definition isUnifiedDiffMetadata :: "bytes \<Rightarrow> bool" where
  "isUnifiedDiffMetadata line \<longleftrightarrow>
     line = [] \<or> has_prefix line ''diff '' \<or> has_prefix line ''index '' \<or> has_prefix line ''--- '' \<or> has_prefix line ''+++ ''"

definition hunkOrigIndex :: "int \<Rightarrow> int" where
  "hunkOrigIndex origStart = (if origStart \<le> 0 then 0 else origStart - 1)"

record unifiedHunkHeader =
  hd_oldStart :: int
  hd_oldCount :: int
  hd_newCount :: int

definition parseUnifiedRange :: "bytes \<Rightarrow> char \<Rightarrow> (int \<times> int) option" where
  "parseUnifiedRange value pre =
     (if length value < 2 \<or> hd value \<noteq> pre then None
      else
        (case str_cut '','' (tl value) of (startText, countText, hasCount) \<Rightarrow>
          (case Atoi startText of
             None \<Rightarrow> None
           | Some start \<Rightarrow>
               (case (if hasCount then Atoi countText else Some 1) of
                  None \<Rightarrow> None
                | Some count \<Rightarrow> if start < 0 \<or> count < 0 then None else Some (start, count)))))"

definition parseUnifiedHunkHeader :: "bytes \<Rightarrow> unifiedHunkHeader option" where
  "parseUnifiedHunkHeader line =
     (let inner = trim_prefix line ''@@'' in
      case str_index ''@@'' inner of
        None \<Rightarrow> None
      | Some end_at \<Rightarrow>
          (case Fields (take end_at inner) of
             f # g # _ \<Rightarrow>
               (case parseUnifiedRange f (CHR ''-'') of
                  None \<Rightarrow> None
                | Some (oldStart, oldCount) \<Rightarrow>
                    (case parseUnifiedRange g (CHR ''+'') of
                       None \<Rightarrow> None
                     | Some (_, newCount) \<Rightarrow>
                         Some \<lparr> hd_oldStart = oldStart, hd_oldCount = oldCount, hd_newCount = newCount \<rparr>))
           | _ \<Rightarrow> None))"

definition verifyUnifiedSourceLine :: "bytes list \<Rightarrow> nat \<Rightarrow> bytes \<Rightarrow> bool" where
  "verifyUnifiedSourceLine lines index expected \<longleftrightarrow> index < length lines \<and> lines ! index = expected"

text \<open>
  The inner loop of \<^verbatim>\<open>applyUnifiedDiff\<close>: the lines of one hunk. It returns the result so far, the
  source index, the two counts and the lines of the diff that are left.
\<close>

fun hunk_lines ::
  "bytes list \<Rightarrow> bytes list \<Rightarrow> nat \<Rightarrow> int \<Rightarrow> int \<Rightarrow> bytes list
    \<Rightarrow> patch_error + bytes list \<times> nat \<times> int \<times> int \<times> bytes list" where
  "hunk_lines lines result sourceIndex oldSeen newSeen [] = Inr (result, sourceIndex, oldSeen, newSeen, [])"
| "hunk_lines lines result sourceIndex oldSeen newSeen (h # diff) =
     (if has_prefix h ''@@'' then Inr (result, sourceIndex, oldSeen, newSeen, h # diff)
      else if h = [] \<or> has_prefix h [CHR 0x5C] then hunk_lines lines result sourceIndex oldSeen newSeen diff
      else if hd h = CHR '' '' then
        (if verifyUnifiedSourceLine lines sourceIndex (tl h)
         then hunk_lines lines (result @ [tl h]) (sourceIndex + 1) (oldSeen + 1) (newSeen + 1) diff
         else Inl (SourceMismatch sourceIndex (tl h)))
      else if hd h = CHR ''-'' then
        (if verifyUnifiedSourceLine lines sourceIndex (tl h)
         then hunk_lines lines result (sourceIndex + 1) (oldSeen + 1) newSeen diff
         else Inl (SourceMismatch sourceIndex (tl h)))
      else if hd h = CHR ''+'' then hunk_lines lines (result @ [tl h]) sourceIndex oldSeen (newSeen + 1) diff
      else Inl (BadHunkLine h))"

lemma hunk_lines_shrinks:
  "hunk_lines lines result k os ns diff = Inr (result', k', os', ns', rest) \<Longrightarrow> length rest \<le> length diff"
  by (induction lines result k os ns diff rule: hunk_lines.induct) (auto split: if_splits)

text \<open>The outer loop.\<close>

function unified_hunks ::
  "bytes list \<Rightarrow> bytes list \<Rightarrow> nat \<Rightarrow> bool \<Rightarrow> bytes list \<Rightarrow> patch_error + bytes list" where
  "unified_hunks lines result sourceIndex sawHunk [] =
     (if \<not> sawHunk then Inl NoHunks else Inr (result @ drop sourceIndex lines))"
| "unified_hunks lines result sourceIndex sawHunk (line # diff) =
     (if \<not> has_prefix line ''@@'' then
        (if \<not> sawHunk \<and> isUnifiedDiffMetadata line \<or> line = []
         then unified_hunks lines result sourceIndex sawHunk diff
         else Inl (OutsideHunk line))
      else
        (case parseUnifiedHunkHeader line of
           None \<Rightarrow> Inl (BadHeader line)
         | Some header \<Rightarrow>
             (let hunkStart = hunkOrigIndex (hd_oldStart header) in
              if hunkStart < int sourceIndex then Inl (HunkOverlaps (hd_oldStart header))
              else if hunkStart > int (length lines) then Inl (StartOutOfRange (hd_oldStart header))
              else
                (case hunk_lines lines (result @ take (nat hunkStart - sourceIndex) (drop sourceIndex lines))
                        (nat hunkStart) 0 0 diff of
                   Inl e \<Rightarrow> Inl e
                 | Inr (result', sourceIndex', oldSeen, newSeen, rest) \<Rightarrow>
                     if oldSeen \<noteq> hd_oldCount header \<or> newSeen \<noteq> hd_newCount header then Inl CountMismatch
                     else unified_hunks lines result' sourceIndex' True rest))))"
  by pat_completeness auto
termination
  by (relation "measure (\<lambda>(lines, result, k, saw, diff). length diff)")
    (auto simp: le_imp_less_Suc dest: hunk_lines_shrinks sym)

definition applyUnifiedDiff :: "bytes \<Rightarrow> bytes \<Rightarrow> patch_error + bytes" where
  "applyUnifiedDiff original diff =
     (let lines = splitFileLines (normalizeLineEndings original) in
      case unified_hunks lines [] 0 False (split_on LF (normalizeLineEndings diff)) of
        Inl e \<Rightarrow> Inl e
      | Inr result \<Rightarrow> Inr (restoreLineEndings (join [LF] result) original))"

section \<open>V4A patches\<close>

record updateChunk =
  changeContext :: bytes
  oldLines :: "bytes list"
  newLines :: "bytes list"
  eof :: bool

definition isV4AHunkHeader :: "bytes \<Rightarrow> bool" where
  "isV4AHunkHeader line =
     (let trimmed = trim_space line in
      if \<not> has_prefix trimmed ''@@'' then False
      else
        (let inner = trim_space (trim_prefix trimmed ''@@'');
             inner = trim_space (trim_suffix inner ''@@'')
         in if inner = [] then True
            else if has_prefix inner ''-'' then
              (let oldPart = trim_prefix (fst (str_cut '' '' inner)) ''-'';
                   startStr = fst (str_cut '','' oldPart)
               in Atoi startStr = None)
            else True))"

definition isV4APatch :: "bytes \<Rightarrow> bool" where
  "isV4APatch diff \<longleftrightarrow> str_contains diff ''*** Begin Patch'' \<or> list_ex isV4AHunkHeader (split_on LF diff)"

definition empty_chunk :: "bytes \<Rightarrow> updateChunk" where
  "empty_chunk ctx = \<lparr> changeContext = ctx, oldLines = [], newLines = [], eof = False \<rparr>"

text \<open>The closure \<^verbatim>\<open>flush\<close>.\<close>

definition flush_chunk :: "updateChunk list \<Rightarrow> updateChunk option \<Rightarrow> updateChunk list" where
  "flush_chunk chunks cur =
     (case cur of None \<Rightarrow> chunks | Some c \<Rightarrow> if oldLines c \<noteq> [] \<or> newLines c \<noteq> [] then chunks @ [c] else chunks)"

definition skipped_line :: "bytes \<Rightarrow> bool" where
  "skipped_line trimmed \<longleftrightarrow>
     trimmed = ''*** Begin Patch'' \<or> trimmed = ''*** End Patch'' \<or> has_prefix trimmed ''*** Add File:'' \<or>
     has_prefix trimmed ''*** Delete File:'' \<or> has_prefix trimmed ''*** Update File:'' \<or>
     has_prefix trimmed ''*** Move to:'' \<or> has_prefix trimmed ''*** Environment ID:'' \<or>
     has_prefix trimmed ''---'' \<or> has_prefix trimmed ''+++''"

text \<open>A line inside a hunk.\<close>

definition chunk_line :: "bytes \<Rightarrow> updateChunk \<Rightarrow> patch_error + updateChunk" where
  "chunk_line line c =
     (if line = [] then Inr (c\<lparr> oldLines := oldLines c @ [[]], newLines := newLines c @ [[]] \<rparr>)
      else if hd line = CHR '' '' then Inr (c\<lparr> oldLines := oldLines c @ [tl line], newLines := newLines c @ [tl line] \<rparr>)
      else if hd line = CHR ''+'' then Inr (c\<lparr> newLines := newLines c @ [tl line] \<rparr>)
      else if hd line = CHR ''-'' then Inr (c\<lparr> oldLines := oldLines c @ [tl line] \<rparr>)
      else Inl (BadHunkLine line))"

fun parse_chunks :: "updateChunk list \<Rightarrow> updateChunk option \<Rightarrow> bytes list \<Rightarrow> patch_error + updateChunk list" where
  "parse_chunks chunks cur [] = Inr (flush_chunk chunks cur)"
| "parse_chunks chunks cur (line # diff) =
     (let trimmed = trim_space line in
      if skipped_line trimmed then parse_chunks chunks cur diff
      else if trimmed = ''@@'' \<or> has_prefix trimmed ''@@ '' then
        parse_chunks (flush_chunk chunks cur)
          (Some (empty_chunk (if trimmed \<noteq> ''@@'' then trim_space (trim_prefix trimmed ''@@'') else []))) diff
      else if trimmed = ''*** End of File'' then
        (case cur of None \<Rightarrow> Inl OrphanEndOfFile | Some c \<Rightarrow> parse_chunks chunks (Some (c\<lparr> eof := True \<rparr>)) diff)
      else if cur = None \<and> (line = [] \<or> hd line \<noteq> CHR '' '' \<and> hd line \<noteq> CHR ''+'' \<and> hd line \<noteq> CHR ''-'')
        then parse_chunks chunks cur diff
      else (case chunk_line line (case cur of None \<Rightarrow> empty_chunk [] | Some c \<Rightarrow> c) of
              Inl e \<Rightarrow> Inl e
            | Inr c \<Rightarrow> parse_chunks chunks (Some c) diff))"

definition parseV4AChunks :: "bytes \<Rightarrow> patch_error + updateChunk list" where
  "parseV4AChunks diff = parse_chunks [] None (split_on LF diff)"

record replacement =
  rp_start :: nat
  rp_oldLen :: nat
  rp_newLines :: "bytes list"

text \<open>\<^verbatim>\<open>linesSliceEqual\<close> and its two looser forms compare the lines under \<open>f\<close>.\<close>

definition trim_blanks :: "bytes \<Rightarrow> bytes" where
  "trim_blanks s = rev (dropWhile (\<lambda>c. c = CHR '' '' \<or> c = CHR 0x09) (rev s))"

definition lines_match :: "(bytes \<Rightarrow> bytes) \<Rightarrow> bytes list \<Rightarrow> bytes list \<Rightarrow> bool" where
  "lines_match f a b \<longleftrightarrow> map f a = map f b"

definition seek_with :: "(bytes \<Rightarrow> bytes) \<Rightarrow> bytes list \<Rightarrow> bytes list \<Rightarrow> nat \<Rightarrow> nat option" where
  "seek_with f lines pattern start =
     find (\<lambda>i. lines_match f (take (length pattern) (drop i lines)) pattern) [start..<length lines - length pattern + 1]"

definition seekSequence :: "bytes list \<Rightarrow> bytes list \<Rightarrow> nat \<Rightarrow> bool \<Rightarrow> nat option" where
  "seekSequence lines pattern start at_eof =
     (if pattern = [] then Some start
      else if length pattern > length lines then None
      else
        (let searchStart = (if at_eof then length lines - length pattern else start) in
         case seek_with id lines pattern searchStart of
           Some i \<Rightarrow> Some i
         | None \<Rightarrow> (case seek_with trim_blanks lines pattern searchStart of
               Some i \<Rightarrow> Some i
             | None \<Rightarrow> seek_with trim_space lines pattern searchStart)))"

text \<open>The search for one chunk's old lines, with and without a final empty line.\<close>

definition seek_chunk :: "bytes list \<Rightarrow> updateChunk \<Rightarrow> nat \<Rightarrow> (nat \<times> bytes list \<times> bytes list) option" where
  "seek_chunk original c lineIndex =
     (case seekSequence original (oldLines c) lineIndex (eof c) of
        Some start \<Rightarrow> Some (start, oldLines c, newLines c)
      | None \<Rightarrow>
          if oldLines c \<noteq> [] \<and> last (oldLines c) = [] then
            (let pattern = butlast (oldLines c);
                 new = (if newLines c \<noteq> [] \<and> last (newLines c) = [] then butlast (newLines c) else newLines c)
             in map_option (\<lambda>start. (start, pattern, new)) (seekSequence original pattern lineIndex (eof c)))
          else None)"

fun computeV4AReplacements :: "bytes list \<Rightarrow> nat \<Rightarrow> updateChunk list \<Rightarrow> patch_error + replacement list" where
  "computeV4AReplacements original lineIndex [] = Inr []"
| "computeV4AReplacements original lineIndex (c # chunks) =
     (case (if changeContext c \<noteq> [] then map_option Suc (seekSequence original [changeContext c] lineIndex False)
            else Some lineIndex) of
        None \<Rightarrow> Inl ContextNotFound
      | Some lineIndex \<Rightarrow>
          if oldLines c = [] then
            (let insertAt = (if original \<noteq> [] \<and> last original = [] then length original - 1 else length original) in
             case computeV4AReplacements original lineIndex chunks of
               Inl e \<Rightarrow> Inl e
             | Inr rs \<Rightarrow> Inr (\<lparr> rp_start = insertAt, rp_oldLen = 0, rp_newLines = newLines c \<rparr> # rs))
          else
            (case seek_chunk original c lineIndex of
               None \<Rightarrow> Inl ContextNotFound
             | Some (start, pattern, new) \<Rightarrow>
                 (case computeV4AReplacements original (start + length pattern) chunks of
                    Inl e \<Rightarrow> Inl e
                  | Inr rs \<Rightarrow> Inr (\<lparr> rp_start = start, rp_oldLen = length pattern, rp_newLines = new \<rparr> # rs))))"

fun delete_loop :: "nat \<Rightarrow> nat \<Rightarrow> bytes list \<Rightarrow> bytes list" where
  "delete_loop start 0 result = result"
| "delete_loop start (Suc n) result =
     delete_loop start n (if start < length result then take start result @ drop (Suc start) result else result)"

fun insert_loop :: "nat \<Rightarrow> bytes list \<Rightarrow> bytes list \<Rightarrow> bytes list option" where
  "insert_loop at [] result = Some result"
| "insert_loop at (nl # new) result =
     (if at > length result then None else insert_loop (Suc at) new (take at result @ [nl] @ drop at result))"

definition apply_replacement :: "replacement \<Rightarrow> bytes list \<Rightarrow> bytes list option" where
  "apply_replacement r result = insert_loop (rp_start r) (rp_newLines r) (delete_loop (rp_start r) (rp_oldLen r) result)"

text \<open>The replacements are made from the last to the first.\<close>

fun applyV4AReplacements :: "bytes list \<Rightarrow> replacement list \<Rightarrow> bytes list option" where
  "applyV4AReplacements lines [] = Some lines"
| "applyV4AReplacements lines (r # rs) = Option.bind (applyV4AReplacements lines rs) (apply_replacement r)"

definition applyV4APatch :: "bytes \<Rightarrow> bytes \<Rightarrow> patch_error + bytes" where
  "applyV4APatch original diff =
     (case parseV4AChunks (normalizeLineEndings diff) of
        Inl e \<Rightarrow> Inl e
      | Inr chunks \<Rightarrow>
          if chunks = [] then Inl NoChangeHunks
          else
            (let lines = splitFileLines (normalizeLineEndings original) in
             case computeV4AReplacements lines 0 chunks of
               Inl e \<Rightarrow> Inl e
             | Inr replacements \<Rightarrow>
                 (case applyV4AReplacements lines replacements of
                    None \<Rightarrow> Inl Panic
                  | Some patched \<Rightarrow> Inr (restoreLineEndings (join [LF] patched) original))))"

definition applyPatch :: "bytes \<Rightarrow> bytes \<Rightarrow> patch_error + bytes" where
  "applyPatch original diff = (if isV4APatch diff then applyV4APatch original diff else applyUnifiedDiff original diff)"

end
