(* ===== verification/FilePatch_Correct.thy ===== *)
theory FilePatch_Correct
  imports FilePatch
begin

text \<open>
  What the editing tools do to a file: line endings are a matter of encoding only, a unified diff
  does what its lines say or is refused, a V4A patch splices its chunks in, and the corners where
  the code does something else.
\<close>

section \<open>Line endings\<close>

text \<open>A text with line feeds only, written with another ending.\<close>

definition line_endings :: "bytes set" where
  "line_endings = {[LF], [CR], [CR, LF]}"

definition encode :: "bytes \<Rightarrow> bytes \<Rightarrow> bytes" where
  "encode e s = concat (map (\<lambda>c. if c = LF then e else [c]) s)"

lemma LF_CR [simp]: "LF \<noteq> CR" "CR \<noteq> LF"
  by (simp_all add: LF_def CR_def)

lemma encode_simps [simp]:
  "encode e [] = []" "encode e (c # s) = (if c = LF then e else [c]) @ encode e s" "encode e (s @ t) = encode e s @ encode e t"
  by (simp_all add: encode_def)

lemma encode_LF [simp]: "encode [LF] s = s"
  by (induction s) auto

lemma encode_Nil_iff: "e \<noteq> [] \<Longrightarrow> encode e s = [] \<longleftrightarrow> s = []"
  by (cases s) auto

lemma replace_all_absent: "hd old \<notin> set s \<Longrightarrow> replace_all old new s = s"
proof (induction s)
  case (Cons c s)
  then have "\<not> (old \<noteq> [] \<and> prefix old (c # s))" by (auto simp: prefix_Cons)
  then have "replace_all old new (c # s) = c # replace_all old new s" by (simp only: replace_all.simps if_False)
  with Cons show ?case by simp
qed simp

lemma replace_all_LF: "replace_all [LF] e s = encode e s"
  by (induction s) auto

lemma normalize_plain [simp]: "CR \<notin> set s \<Longrightarrow> normalizeLineEndings s = s"
  by (simp add: normalizeLineEndings_def replace_all_absent)

lemma normalize_CRLF: "CR \<notin> set s \<Longrightarrow> replace_all [CR, LF] [LF] (encode [CR, LF] s) = s"
  by (induction s) (auto simp: prefix_Cons)

lemma normalize_CR: "CR \<notin> set s \<Longrightarrow> replace_all [CR] [LF] (encode [CR] s) = s"
  by (induction s) auto

lemma no_CRLF_in_CR: "LF \<notin> set s \<Longrightarrow> replace_all [CR, LF] [LF] s = s"
proof (induction s)
  case (Cons c s)
  then have "\<not> prefix [CR, LF] (c # s)" by (cases s) auto
  with Cons show ?case by simp
qed simp

lemma set_encode: "set (encode e s) \<subseteq> set e \<union> (set s - {LF})"
  by (induction s) auto

lemma normalize_encode [simp]:
  assumes "e \<in> line_endings" "CR \<notin> set s" shows "normalizeLineEndings (encode e s) = s"
proof -
  consider "e = [LF]" | "e = [CR]" | "e = [CR, LF]" using assms(1) by (auto simp: line_endings_def)
  then show ?thesis
  proof cases
    case 2
    have "LF \<notin> set (encode [CR] s)" using set_encode [of "[CR]" s] by auto
    with 2 assms show ?thesis by (simp add: normalizeLineEndings_def no_CRLF_in_CR normalize_CR)
  next
    case 3
    with assms show ?thesis by (simp add: normalizeLineEndings_def normalize_CRLF replace_all_absent)
  qed (use assms in simp)
qed

lemma set_replace_all: "set (replace_all old new s) \<subseteq> set new \<union> set s"
proof (induction old new s rule: replace_all.induct)
  case (2 old new c s)
  have "set (drop (length old) (c # s)) \<subseteq> set (c # s)" by (rule set_drop_subset)
  with 2 show ?case by (auto split: if_splits)
qed simp

lemma replace_CR_no_CR: "CR \<notin> set (replace_all [CR] [LF] s)"
  by (induction s) auto

lemma normalize_no_CR [simp]: "CR \<notin> set (normalizeLineEndings s)"
  by (simp add: normalizeLineEndings_def replace_CR_no_CR)

lemma convert_encode [simp]: "convertToLineEnding text e = encode e (normalizeLineEndings text)"
  by (simp add: convertToLineEnding_def replace_all_LF Let_def)

lemma detect_encode:
  assumes "e \<in> line_endings" "CR \<notin> set s" "LF \<in> set s \<or> e = [LF]"
  shows "detectLineEnding (encode e s) = e"
  using assms(2,3)
proof (induction s)
  case (Cons c s)
  then show ?case
    using assms(1) by (cases s) (auto simp: line_endings_def)
qed simp

lemma has_final_encode:
  assumes "e \<in> line_endings" "CR \<notin> set s"
  shows "hasFinalLineEnding (encode e s) \<longleftrightarrow> has_suffix s [LF]"
  using assms by (cases s rule: rev_cases) (auto simp: hasFinalLineEnding_def has_suffix_def line_endings_def suffix_def)

section \<open>The edit tool works on the text, not on its encoding\<close>

lemma encode_hd:
  assumes "e \<in> line_endings" "CR \<notin> set old" "old \<noteq> []"
  shows "\<not> prefix (encode e old) (LF # t) \<or> e \<noteq> [CR, LF]"
  using assms by (cases old) (auto simp: line_endings_def)

lemma prefix_encode:
  assumes e: "e \<in> line_endings" and s: "CR \<notin> set old" "CR \<notin> set s"
  shows "prefix (encode e old) (encode e s) \<longleftrightarrow> prefix old s"
  using s
proof (induction old arbitrary: s)
  case (Cons c old)
  have ne: "e \<noteq> []" using e by (auto simp: line_endings_def)
  show ?case
  proof (cases s)
    case Nil
    then show ?thesis using ne by auto
  next
    case (Cons d t)
    then show ?thesis using Cons.prems Cons.IH [of t] e by (auto simp: line_endings_def)
  qed
qed simp

lemma drop_encode: "drop (length (encode e (take i s))) (encode e s) = encode e (drop i s)"
  by (metis append_eq_conv_conj append_take_drop_id encode_simps(3))

lemma index_encode:
  assumes e: "e \<in> line_endings" and s: "CR \<notin> set old" "CR \<notin> set s" "old \<noteq> []"
  shows "str_index (encode e old) (encode e s) = map_option (\<lambda>i. length (encode e (take i s))) (str_index old s)"
  using s(2)
proof (induction s)
  case Nil
  then show ?case using s(3) e by (auto simp: line_endings_def encode_Nil_iff)
next
  case (Cons c t)
  show ?case
  proof (cases "prefix old (c # t)")
    case True
    then have "prefix (encode e old) (encode e (c # t))" using prefix_encode [OF e s(1) Cons.prems] by simp
    moreover have "encode e (c # t) \<noteq> []" using e by (auto simp: line_endings_def)
    ultimately show ?thesis using True by (cases "encode e (c # t)") simp_all
  next
    case False
    then have no: "\<not> prefix (encode e old) (encode e (c # t))" using prefix_encode [OF e s(1) Cons.prems] by simp
    have IH: "str_index (encode e old) (encode e t) = map_option (\<lambda>i. length (encode e (take i t))) (str_index old t)"
      using Cons by simp
    have "str_index (encode e old) (encode e (c # t)) =
        map_option (\<lambda>i. length (encode e [c]) + i) (str_index (encode e old) (encode e t))"
      using e no encode_hd [OF e s(1,3)]
      by (auto simp: line_endings_def option.map_comp comp_def intro!: option.map_cong0)
    also have "\<dots> = map_option (\<lambda>i. length (encode e (take i (c # t)))) (str_index old (c # t))"
      using False by (auto simp: IH option.map_comp comp_def)
    finally show ?thesis .
  qed
qed

lemma take_encode_index: "take (length (encode e (take i s))) (encode e s) = encode e (take i s)"
  by (metis append_eq_conv_conj append_take_drop_id encode_simps(3))

lemma drop_after_index:
  assumes "str_index old s = Some i"
  shows "drop (length (encode e (take i s)) + length (encode e old)) (encode e s) = encode e (drop (i + length old) s)"
proof -
  obtain u where "drop i s = old @ u" using str_index_Some [OF assms] by (auto simp: prefix_def)
  then have s: "s = take i s @ old @ u" by (metis append_take_drop_id)
  have "i \<le> length s" using str_index_Some [OF assms] by simp
  then have "drop (i + length old) s = u" by (subst s) simp
  moreover have "encode e s = encode e (take i s) @ encode e old @ encode e u" by (subst s) simp
  ultimately show ?thesis by simp
qed

lemma replace_all_encode:
  assumes e: "e \<in> line_endings" and old: "CR \<notin> set old" "old \<noteq> []"
  shows "CR \<notin> set s \<Longrightarrow> replace_all (encode e old) (encode e new) (encode e s) = encode e (replace_all old new s)"
proof (induction "length s" arbitrary: s rule: less_induct)
  case less
  show ?case
  proof (cases s)
    case (Cons c t)
    have ne: "encode e old \<noteq> []" "encode e s \<noteq> []" using old(2) e Cons by (auto simp: line_endings_def encode_Nil_iff)
    note pe = prefix_encode [OF e old(1) less.prems]
    show ?thesis
    proof (cases "prefix old s")
      case True
      then obtain u where u: "s = old @ u" by (auto simp: prefix_def)
      have "replace_all (encode e old) (encode e new) (encode e u) = encode e (replace_all old new u)"
        using less u old(2) by auto
      moreover have "replace_all (encode e old) (encode e new) (encode e s) =
          encode e new @ replace_all (encode e old) (encode e new) (drop (length (encode e old)) (encode e s))"
        using ne pe True by (cases "encode e s") simp_all
      moreover have "replace_all old new s = new @ replace_all old new u"
        using True old(2) Cons u by (metis append_eq_conv_conj replace_all.simps(2))
      ultimately show ?thesis by (simp add: u)
    next
      case False
      have IH: "replace_all (encode e old) (encode e new) (encode e t) = encode e (replace_all old new t)"
        using less Cons by simp
      have "replace_all (encode e old) (encode e new) (encode e s) =
          encode e [c] @ replace_all (encode e old) (encode e new) (encode e t)"
        using e pe False encode_hd [OF e old] by (auto simp: line_endings_def Cons)
      with IH False show ?thesis by (simp add: Cons)
    qed
  qed simp
qed

text \<open>
  The edit tool works on the text and keeps the file's line endings. On a file written with one
  line ending (LF, CR or CRLF), whatever endings the two strings of the call use, the result is
  the edit of the plain text with plain strings, written with that same ending: the same
  occurrence is replaced, or every one, and the same calls are refused.
\<close>
theorem edit_keeps_endings:
  assumes "e \<in> line_endings" "CR \<notin> set s" "LF \<in> set s \<or> e = [LF]"
    and "normalizeLineEndings (OldString args) \<noteq> []" "OldString args \<noteq> NewString args"
  shows "executeEdit args (Some (encode e s)) =
    map_sum id (encode e) (executeEdit (args\<lparr> OldString := normalizeLineEndings (OldString args),
      NewString := normalizeLineEndings (NewString args) \<rparr>) (Some s))"
proof -
  let ?o = "normalizeLineEndings (OldString args)" and ?n = "normalizeLineEndings (NewString args)"
  have o: "OldString args \<noteq> []" using assms(4) by auto
  have det: "detectLineEnding (encode e s) = e" by (rule detect_encode [OF assms(1-3)])
  have inj: "encode e ?o = encode e ?n \<longleftrightarrow> ?o = ?n" using normalize_encode [OF assms(1)] by (metis normalize_no_CR)
  have plain: "convertToLineEnding ?o (detectLineEnding s) = ?o \<and> convertToLineEnding ?n (detectLineEnding s) = ?n"
    using detect_encode [of "[LF]" s] assms(2) by (simp add: line_endings_def)
  note index = index_encode [OF assms(1) normalize_no_CR assms(2,4)]
  note replace = replace_all_encode [OF assms(1) normalize_no_CR assms(4) assms(2)]
  show ?thesis
  proof (cases "?o = ?n")
    case True
    then show ?thesis using o assms(4,5) inj by (simp add: executeEdit_def det Let_def)
  next
    case False
    have big: "executeEdit args (Some (encode e s)) =
      (if ReplaceAll args then (if str_index ?o s = None then Inl EditNotFound else Inr (encode e (replace_all ?o ?n s)))
       else case str_index ?o s of None \<Rightarrow> Inl EditNotFound
         | Some i \<Rightarrow> Inr (encode e (take i s @ ?n @ drop (i + length ?o) s)))"
      using o assms(5) False inj index replace take_encode_index
      by (auto simp: executeEdit_def det Let_def str_contains_def drop_after_index split: option.split)
    show ?thesis
      unfolding big using assms(4) False plain by (auto simp: executeEdit_def Let_def str_contains_def split: option.split)
  qed
qed

lemma edit_keeps_endings_witness:
  "executeEdit \<lparr> OldString = ''b'' @ [LF] @ ''c'', NewString = ''x'' @ [CR, LF] @ ''y'', ReplaceAll = False \<rparr>
     (Some (''a'' @ [CR] @ ''b'' @ [CR] @ ''c'')) = Inr (''a'' @ [CR] @ ''x'' @ [CR] @ ''y'')"
proof -
  let ?args = "\<lparr> OldString = ''b'' @ [LF] @ ''c'', NewString = ''x'' @ [CR, LF] @ ''y'', ReplaceAll = False \<rparr>"
  have c: "[CR] \<in> line_endings" by (simp add: line_endings_def)
  have h: "CR \<notin> set (''a'' @ [LF] @ ''b'' @ [LF] @ ''c'')" "LF \<in> set (''a'' @ [LF] @ ''b'' @ [LF] @ ''c'') \<or> [CR] = [LF]"
    "normalizeLineEndings (OldString ?args) \<noteq> []" "OldString ?args \<noteq> NewString ?args" by code_simp+
  have e: "encode [CR] (''a'' @ [LF] @ ''b'' @ [LF] @ ''c'') = ''a'' @ [CR] @ ''b'' @ [CR] @ ''c''" by code_simp
  have r: "map_sum id (encode [CR]) (executeEdit (?args\<lparr> OldString := normalizeLineEndings (OldString ?args),
      NewString := normalizeLineEndings (NewString ?args) \<rparr>) (Some (''a'' @ [LF] @ ''b'' @ [LF] @ ''c'')))
      = Inr (''a'' @ [CR] @ ''x'' @ [CR] @ ''y'')" by code_simp
  show ?thesis using edit_keeps_endings [OF c h] unfolding e r .
qed

text \<open>
  Where the code and its description part: in a file of mixed endings a text that spans the other
  ending is not found; and an empty old string replaces the whole content of a file that is not
  empty, while it cannot create one.
\<close>

lemma edit_misses_mixed_endings:
  "executeEdit \<lparr> OldString = ''b'' @ [LF] @ ''c'', NewString = ''x'', ReplaceAll = False \<rparr>
     (Some (''a'' @ [CR, LF] @ ''b'' @ [LF] @ ''c'')) = Inl EditNotFound"
  by code_simp

lemma edit_empty_old_replaces_everything:
  "OldString args = [] \<Longrightarrow> executeEdit args (Some content) = Inr (NewString args) \<and> executeEdit args None = Inl EditRead"
  by (simp add: executeEdit_def)

end
