(* ===== verification/FilePatch_Unified.thy ===== *)
theory FilePatch_Unified
  imports FilePatch_Correct LineDiff_Script
begin

text \<open>
  Unified diffs: the code's one pass over the lines of a patch is equivalent to reading the patch
  into hunks and splicing them in; and the patches \<^verbatim>\<open>linediff.Unified\<close> renders apply.
\<close>

section \<open>Reading a patch, then splicing it in\<close>

definition line_changes :: "bytes \<Rightarrow> (char \<times> bytes) list" where
  "line_changes h = (if h = [] \<or> hd h = CHR 0x5C then [] else [(hd h, tl h)])"

definition changes :: "bytes list \<Rightarrow> (char \<times> bytes) list" where
  "changes body = concat (map line_changes body)"

definition readable_line :: "bytes \<Rightarrow> bool" where
  "readable_line h \<longleftrightarrow> h = [] \<or> hd h \<in> {CHR 0x5C, CHR '' '', CHR ''-'', CHR ''+''}"

definition old_side :: "(char \<times> bytes) list \<Rightarrow> bytes list" where
  "old_side ps = map snd (filter (\<lambda>p. fst p \<noteq> CHR ''+'') ps)"

definition new_side :: "(char \<times> bytes) list \<Rightarrow> bytes list" where
  "new_side ps = map snd (filter (\<lambda>p. fst p \<noteq> CHR ''-'') ps)"

definition in_hunk :: "bytes \<Rightarrow> bool" where
  "in_hunk h \<longleftrightarrow> \<not> has_prefix h ''@@''"

function read_hunks :: "bool \<Rightarrow> bytes list \<Rightarrow> (unifiedHunkHeader \<times> (char \<times> bytes) list) list option" where
  "read_hunks sawHunk [] = (if sawHunk then Some [] else None)"
| "read_hunks sawHunk (l # diff) =
     (if in_hunk l then
        (if \<not> sawHunk \<and> isUnifiedDiffMetadata l \<or> l = [] then read_hunks sawHunk diff else None)
      else
        (case parseUnifiedHunkHeader l of
           None \<Rightarrow> None
         | Some header \<Rightarrow>
             if list_all readable_line (takeWhile in_hunk diff)
             then map_option ((#) (header, changes (takeWhile in_hunk diff))) (read_hunks True (dropWhile in_hunk diff))
             else None))"
  by pat_completeness auto
termination
  by (relation "measure (\<lambda>(saw, diff). length diff)") (auto simp: le_imp_less_Suc length_dropWhile_le)

text \<open>Each hunk stands at the line its header names, has the sides its header counts, and its old side stands there.\<close>

fun splice_hunks :: "bytes list \<Rightarrow> nat \<Rightarrow> (unifiedHunkHeader \<times> (char \<times> bytes) list) list \<Rightarrow> bytes list option" where
  "splice_hunks lines k [] = Some (drop k lines)"
| "splice_hunks lines k ((h, ps) # hs) =
     (let s = nat (hunkOrigIndex (hd_oldStart h)) in
      if k \<le> s \<and> s \<le> length lines \<and> prefix (old_side ps) (drop s lines) \<and>
         int (length (old_side ps)) = hd_oldCount h \<and> int (length (new_side ps)) = hd_newCount h
      then map_option (\<lambda>out. take (s - k) (drop k lines) @ new_side ps @ out) (splice_hunks lines (s + length (old_side ps)) hs)
      else None)"

lemma sides_Cons [simp]:
  "old_side [] = []" "new_side [] = []"
  "old_side (p # ps) = (if fst p = CHR ''+'' then old_side ps else snd p # old_side ps)"
  "new_side (p # ps) = (if fst p = CHR ''-'' then new_side ps else snd p # new_side ps)"
  by (simp_all add: old_side_def new_side_def)

lemma changes_simps [simp]: "changes [] = []" "changes (h # body) = line_changes h @ changes body"
  by (simp_all add: changes_def)

lemma verify_prefix:
  "verifyUnifiedSourceLine lines k t \<and> prefix ts (drop (Suc k) lines) \<longleftrightarrow> prefix (t # ts) (drop k lines)"
  unfolding verifyUnifiedSourceLine_def
  by (cases "k < length lines") (auto simp flip: Cons_nth_drop_Suc)

lemma hunk_lines_reads:
  "hunk_lines lines result k os ns diff = Inr x \<longleftrightarrow>
     list_all readable_line (takeWhile in_hunk diff) \<and>
     (let ps = changes (takeWhile in_hunk diff) in
      prefix (old_side ps) (drop k lines) \<and>
      x = (result @ new_side ps, k + length (old_side ps), os + int (length (old_side ps)), ns + int (length (new_side ps)),
           dropWhile in_hunk diff))"
proof (induction lines result k os ns diff rule: hunk_lines.induct)
  case (2 lines result k os ns h diff)
  show ?case
  proof (cases "in_hunk h")
    case False
    then show ?thesis by (auto simp: in_hunk_def Let_def)
  next
    case True
    then have at: "\<not> has_prefix h ''@@''" by (simp add: in_hunk_def)
    consider "h = []" | "h \<noteq> []" "hd h = CHR 0x5C" | "h \<noteq> []" "hd h = CHR '' ''" | "h \<noteq> []" "hd h = CHR ''-''"
      | "h \<noteq> []" "hd h = CHR ''+''" | "h \<noteq> []" "hd h \<notin> {CHR 0x5C, CHR '' '', CHR ''-'', CHR ''+''}" by blast
    then show ?thesis
    proof cases
      case 1
      then show ?thesis using 2(1) at True by (simp add: readable_line_def line_changes_def)
    next
      case slash: 2
      then have "has_prefix h [CHR 0x5C]" by (cases h) (simp_all add: has_prefix_def)
      with slash show ?thesis using 2(1) at True by (simp add: readable_line_def line_changes_def)
    next
      case 3
      then have "\<not> has_prefix h [CHR 0x5C]" by (cases h) (simp_all add: has_prefix_def)
      with 3 show ?thesis
        using 2(2) at True verify_prefix [of lines k "tl h"]
        by (auto simp: readable_line_def line_changes_def Let_def)
    next
      case 4
      then have "\<not> has_prefix h [CHR 0x5C]" by (cases h) (simp_all add: has_prefix_def)
      with 4 show ?thesis
        using 2(3) at True verify_prefix [of lines k "tl h"]
        by (auto simp: readable_line_def line_changes_def Let_def)
    next
      case 5
      then have "\<not> has_prefix h [CHR 0x5C]" by (cases h) (simp_all add: has_prefix_def)
      with 5 show ?thesis using 2(4) at True by (auto simp: readable_line_def line_changes_def Let_def)
    next
      case 6
      then have "\<not> has_prefix h [CHR 0x5C]" by (cases h) (auto simp: has_prefix_def)
      with 6 show ?thesis using at True by (simp add: readable_line_def)
    qed
  qed
qed (auto simp: Let_def)

lemma hunkOrigIndex_nonneg [simp]: "0 \<le> hunkOrigIndex n"
  by (simp add: hunkOrigIndex_def)

lemma unified_hunks_reads:
  assumes "sourceIndex \<le> length lines"
  shows "unified_hunks lines result sourceIndex sawHunk diff = Inr out \<longleftrightarrow>
    (\<exists>hs rest. read_hunks sawHunk diff = Some hs \<and> splice_hunks lines sourceIndex hs = Some rest \<and> out = result @ rest)"
  using assms
proof (induction lines result sourceIndex sawHunk diff rule: unified_hunks.induct)
  case (2 lines result k saw l diff)
  show ?case
  proof (cases "in_hunk l")
    case True
    then show ?thesis using 2(1,3) by (auto simp: in_hunk_def)
  next
    case False
    then have at: "has_prefix l ''@@''" by (simp add: in_hunk_def)
    show ?thesis
    proof (cases "parseUnifiedHunkHeader l")
      case None
      then show ?thesis using False at by simp
    next
      case (Some header)
      let ?s = "hunkOrigIndex (hd_oldStart header)"
      let ?body = "takeWhile in_hunk diff" and ?rest = "dropWhile in_hunk diff"
      let ?ps = "changes ?body"
      let ?res = "result @ take (nat ?s - k) (drop k lines)"
      let ?fits = "list_all readable_line ?body \<and> prefix (old_side ?ps) (drop (nat ?s) lines)"
      show ?thesis
      proof (cases "int k \<le> ?s \<and> ?s \<le> int (length lines) \<and> ?fits \<and>
          int (length (old_side ?ps)) = hd_oldCount header \<and> int (length (new_side ?ps)) = hd_newCount header")
        case True
        then have hl: "hunk_lines lines ?res (nat ?s) 0 0 diff = Inr (?res @ new_side ?ps, nat ?s + length (old_side ?ps),
            int (length (old_side ?ps)), int (length (new_side ?ps)), ?rest)"
          by (simp add: hunk_lines_reads Let_def)
        have "nat ?s \<le> length lines" using True by (simp add: nat_le_iff)
        moreover have "length (old_side ?ps) \<le> length lines - nat ?s" using True prefix_length_le by fastforce
        ultimately have bound: "nat ?s + length (old_side ?ps) \<le> length lines" by arith
        have "unified_hunks lines result k saw (l # diff) =
            unified_hunks lines (?res @ new_side ?ps) (nat ?s + length (old_side ?ps)) True ?rest"
          using True at Some hl by (simp add: Let_def)
        moreover have IH: "unified_hunks lines (?res @ new_side ?ps) (nat ?s + length (old_side ?ps)) True ?rest = Inr out \<longleftrightarrow>
            (\<exists>hs rest. read_hunks True ?rest = Some hs \<and> splice_hunks lines (nat ?s + length (old_side ?ps)) hs = Some rest \<and>
               out = (?res @ new_side ?ps) @ rest)"
          by (rule 2(2) [of header ?s _ "?res @ new_side ?ps" _ "nat ?s + length (old_side ?ps)" _ "int (length (old_side ?ps))" _
                "int (length (new_side ?ps))" ?rest])
            (use True at Some hl bound in simp_all)
        ultimately show ?thesis using True False Some by (auto simp: Let_def nat_le_iff le_nat_iff)
      next
        case no: False
        have "\<not> (\<exists>hs rest. read_hunks saw (l # diff) = Some hs \<and> splice_hunks lines k hs = Some rest \<and> out = result @ rest)"
          using no False Some by (auto simp: Let_def nat_le_iff le_nat_iff split: if_splits)
        moreover have "unified_hunks lines result k saw (l # diff) \<noteq> Inr out"
        proof
          assume u: "unified_hunks lines result k saw (l # diff) = Inr out"
          then have s: "\<not> ?s < int k" "\<not> ?s > int (length lines)" using at Some by (auto simp: Let_def split: if_splits)
          obtain x where x: "hunk_lines lines ?res (nat ?s) 0 0 diff = Inr x"
            using u at Some s by (cases "hunk_lines lines ?res (nat ?s) 0 0 diff") (auto simp: Let_def)
          then have f: "?fits" "x = (?res @ new_side ?ps, nat ?s + length (old_side ?ps), int (length (old_side ?ps)),
              int (length (new_side ?ps)), ?rest)"
            by (simp_all add: hunk_lines_reads Let_def)
          with u at Some s x have "int (length (old_side ?ps)) = hd_oldCount header \<and> int (length (new_side ?ps)) = hd_newCount header"
            by (auto simp: Let_def split: if_splits)
          with no s f(1) show False by simp
        qed
        ultimately show ?thesis by blast
      qed
    qed
  qed
qed auto

lemma unified_diff_reads:
  "applyUnifiedDiff original diff = Inr out \<longleftrightarrow>
    (\<exists>hs patched. read_hunks False (split_on LF (normalizeLineEndings diff)) = Some hs \<and>
       splice_hunks (splitFileLines (normalizeLineEndings original)) 0 hs = Some patched \<and>
       out = restoreLineEndings (join [LF] patched) original)"
proof -
  have "applyUnifiedDiff original diff = Inr out \<longleftrightarrow>
    (\<exists>patched. unified_hunks (splitFileLines (normalizeLineEndings original)) [] 0 False (split_on LF (normalizeLineEndings diff)) = Inr patched
       \<and> out = restoreLineEndings (join [LF] patched) original)"
    by (auto simp: applyUnifiedDiff_def Let_def split: sum.split)
  then show ?thesis by (auto simp: unified_hunks_reads)
qed



end
