(* ===== verification/FilePatch_RoundTrip.thy ===== *)
theory FilePatch_RoundTrip
  imports FilePatch_Unified
begin

text \<open>
  The patches \<^verbatim>\<open>linediff.Unified\<close> renders, given to the patch tool: reading back the header of a
  hunk, the lines of a rendered patch, why every hunk with context holds an old line, and the
  round trip.
\<close>

section \<open>Headers\<close>

lemma newline_LF: "newline = LF"
  by (simp add: newline_def LF_def)

lemma str_index_first: "pat \<noteq> [] \<Longrightarrow> hd pat \<notin> set s \<Longrightarrow> str_index pat (s @ pat @ t) = Some (length s)"
proof (induction s)
  case Nil
  then show ?case by (cases pat) auto
next
  case (Cons c s)
  then have "\<not> prefix pat (c # s @ pat @ t)" by (cases pat) auto
  with Cons show ?case by simp
qed

lemma number_chars: "c \<in> set (number i) \<Longrightarrow> 48 \<le> (of_char c :: nat) \<and> (of_char c :: nat) \<le> 57"
  using digits_of_digits [of "nat i"] by (auto simp: number_def list_all_iff is_digit_def)

lemma number_not [simp]: "CHR '','' \<notin> set (number i)" "CHR 0x40 \<notin> set (number i)" "LF \<notin> set (number i)" "CR \<notin> set (number i)"
  by (auto simp: LF_def CR_def dest: number_chars)

lemma Atoi_number: "0 \<le> i \<Longrightarrow> in_int64 i \<Longrightarrow> Atoi (number i) = Some i"
  using Atoi_digits [of "nat i"] by (simp add: number_def)

lemma parse_range:
  assumes "0 \<le> a" "in_int64 a" "0 \<le> b" "in_int64 b"
  shows "parseUnifiedRange (pre # number a @ '','' @ number b) pre = Some (a, b)"
proof -
  have "str_index '','' (number a @ '','' @ number b) = Some (length (number a))"
    by (rule str_index_first) simp_all
  then have "str_cut '','' (number a @ '','' @ number b) = (number a, number b, True)"
    by (simp add: str_cut_def)
  then show ?thesis using assms by (simp add: parseUnifiedRange_def Atoi_number)
qed

lemma plain_word:
  assumes "w \<noteq> []" "\<And>c. c \<in> set w \<Longrightarrow> 33 \<le> (of_char c :: nat) \<and> (of_char c :: nat) \<le> 126"
  shows "word_like w"
  unfolding word_like_def
proof (intro conjI allI impI)
  fix us vs assume "w = us @ vs" "vs \<noteq> []"
  then obtain c cs where vs: "vs = c # cs" "c \<in> set w" by (cases vs) auto
  have "hd e \<noteq> c" if "e \<in> set space_encodings" for e
    using that assms(2) [OF vs(2)] by (auto simp: space_encodings_def)
  then show "lead_enc space_encodings vs = None" unfolding vs by (rule lead_enc_hd)
qed (rule assms(1))

definition header_line :: "hunk \<Rightarrow> bytes" where
  "header_line h = ''@@ -'' @ number (oldStart h) @ '','' @ number (oldCount h) @ '' +'' @
     number (newStart h) @ '','' @ number (newCount h) @ '' @@''"

definition sane_hunk :: "hunk \<Rightarrow> bool" where
  "sane_hunk h \<longleftrightarrow> 0 \<le> oldStart h \<and> in_int64 (oldStart h) \<and> 0 \<le> oldCount h \<and> in_int64 (oldCount h) \<and>
     0 \<le> newStart h \<and> in_int64 (newStart h) \<and> 0 \<le> newCount h \<and> in_int64 (newCount h)"

lemma parse_header:
  assumes "sane_hunk h"
  shows "parseUnifiedHunkHeader (header_line h) =
    Some \<lparr> hd_oldStart = oldStart h, hd_oldCount = oldCount h, hd_newCount = newCount h \<rparr>"
proof -
  define f where "f = CHR ''-'' # number (oldStart h) @ '','' @ number (oldCount h)"
  define g where "g = CHR ''+'' # number (newStart h) @ '','' @ number (newCount h)"
  define inner where "inner = '' '' @ f @ '' '' @ g @ '' ''"
  have words: "word_like f" "word_like g"
    unfolding f_def g_def by (rule plain_word; use number_chars in fastforce)+
  have "Fields inner = Fields [] @ Fields f @ Fields g @ Fields []"
    using Fields_space [of "[]" "f @ '' '' @ g @ '' ''"] Fields_space [of f "g @ '' ''"] Fields_space [of g "[]"]
    by (simp add: inner_def)
  moreover have "Fields [] = []" by (simp add: Fields_def)
  ultimately have fields: "Fields inner = [f, g]" using words by simp
  have line: "trim_prefix (header_line h) ''@@'' = inner @ ''@@''"
    by (simp add: header_line_def trim_prefix_def has_prefix_def inner_def f_def g_def)
  have "CHR 0x40 \<notin> set inner" by (simp add: inner_def f_def g_def)
  then have "str_index ''@@'' (inner @ ''@@'' @ []) = Some (length inner)" by (intro str_index_first) simp_all
  then have at: "str_index ''@@'' (inner @ ''@@'') = Some (length inner)" by simp
  have ranges: "parseUnifiedRange f (CHR ''-'') = Some (oldStart h, oldCount h)"
    "parseUnifiedRange g (CHR ''+'') = Some (newStart h, newCount h)"
    unfolding f_def g_def using assms by (simp_all only: sane_hunk_def parse_range)
  show ?thesis
    by (simp add: parseUnifiedHunkHeader_def line Let_def at fields ranges)
qed

section \<open>The lines of a rendered patch\<close>

definition terminated :: "bytes list \<Rightarrow> bytes" where
  "terminated ls = concat (map (\<lambda>l. l @ [LF]) ls)"

lemma terminated_simps [simp]:
  "terminated [] = []" "terminated (l # ls) = l @ LF # terminated ls" "terminated (ls @ ms) = terminated ls @ terminated ms"
  by (simp_all add: terminated_def)

lemma split_on_line: "d \<notin> set l \<Longrightarrow> split_on d (l @ d # s) = l # split_on d s"
  by (induction l) auto

lemma split_on_terminated: "(\<And>l. l \<in> set ls \<Longrightarrow> LF \<notin> set l) \<Longrightarrow> split_on LF (terminated ls) = ls @ [[]]"
  by (induction ls) (auto simp: split_on_line)

lemma split_on_no_sep: "w \<in> set (split_on d s) \<Longrightarrow> d \<notin> set w"
  by (induction d s arbitrary: w rule: split_on.induct) (fastforce split: if_splits list.splits)+

definition strip :: "bytes \<Rightarrow> bytes" where
  "strip l = trim_suffix l [newline]"

lemma split_after_on: "split_after s = map (\<lambda>l. l @ [LF]) (butlast (split_on LF s)) @ [last (split_on LF s)]"
proof (induction s)
  case (Cons c s)
  obtain w ws where w: "split_on LF s = w # ws" by (cases "split_on LF s") auto
  with Cons show ?case by (cases ws) (auto simp: newline_LF)
qed simp

lemma split_on_snoc: "split_on d (s @ [d]) = split_on d s @ [[]]"
proof (induction s)
  case (Cons c s)
  obtain w ws where "split_on d s = w # ws" by (cases "split_on d s") auto
  with Cons show ?case by simp
qed simp

lemma last_split_on: "s \<noteq> [] \<Longrightarrow> last s = LF \<Longrightarrow> last (split_on LF s) = []"
  by (cases s rule: rev_cases) (simp_all add: split_on_snoc)

definition ends_line :: "bytes \<Rightarrow> bool" where
  "ends_line s \<longleftrightarrow> s = [] \<or> last s = LF"

lemma splitLines_file:
  assumes "ends_line s"
  shows "splitLines s = map (\<lambda>l. l @ [LF]) (splitFileLines s)"
proof (cases "s = []")
  case False
  then have l: "last (split_on LF s) = []" using assms last_split_on by (simp add: ends_line_def)
  with False show ?thesis by (simp add: splitLines_def Let_def split_after_on splitFileLines_def)
qed (simp add: splitLines_def splitFileLines_def)

lemma splitFileLines_terminated:
  assumes "ends_line s" shows "s = terminated (splitFileLines s)" "\<And>l. l \<in> set (splitFileLines s) \<Longrightarrow> LF \<notin> set l"
proof -
  have "concat (splitLines s) = s" by (rule concat_splitLines)
  then show "s = terminated (splitFileLines s)" by (simp add: splitLines_file [OF assms] terminated_def)
  show "LF \<notin> set l" if "l \<in> set (splitFileLines s)" for l
    using that split_on_no_sep by (auto simp: splitFileLines_def Let_def split: if_splits dest: in_set_butlastD)
qed

lemma join_terminated: "ls \<noteq> [] \<Longrightarrow> join [LF] ls @ [LF] = terminated ls"
proof (induction ls)
  case (Cons l ls)
  then show ?case by (cases ls) (auto simp: join_Cons)
qed simp

lemma strip_line [simp]: "strip (l @ [LF]) = l"
  by (simp add: strip_def trim_suffix_def has_suffix_def newline_LF)

definition op_line :: "op \<Rightarrow> bytes" where
  "op_line x = marker (kind x) @ strip (line x)"

definition op_change :: "op \<Rightarrow> char \<times> bytes" where
  "op_change x = (hd (marker (kind x)), strip (line x))"

definition terminated_op :: "op \<Rightarrow> bool" where
  "terminated_op x \<longleftrightarrow> (\<exists>l. line x = l @ [LF] \<and> LF \<notin> set l)"

lemma op_text_line: "terminated_op x \<Longrightarrow> op_text x = op_line x @ [LF] \<and> LF \<notin> set (op_line x)"
  by (auto simp: terminated_op_def op_text_def op_line_def strip_def trim_suffix_def has_suffix_def newline_LF marker_def LF_def
      split: op_kind.split)

lemma op_line_reads:
  "in_hunk (op_line x)" "readable_line (op_line x)" "line_changes (op_line x) = [op_change x]"
  by (simp_all add: in_hunk_def op_line_def readable_line_def line_changes_def op_change_def marker_def has_prefix_def split: op_kind.split)

definition hunk_lines_of :: "hunk \<Rightarrow> bytes list" where
  "hunk_lines_of h = header_line h # map op_line (hunk_ops h)"

lemma hunk_text_terminated:
  assumes "list_all terminated_op (hunk_ops h)"
  shows "hunk_text h = terminated (hunk_lines_of h)" "\<And>l. l \<in> set (hunk_lines_of h) \<Longrightarrow> LF \<notin> set l"
proof -
  have "concat (map op_text ops) = terminated (map op_line ops)" if "list_all terminated_op ops" for ops
    using that by (induction ops) (simp_all add: op_text_line)
  with assms show "hunk_text h = terminated (hunk_lines_of h)"
    by (simp add: hunk_text_def hunk_lines_of_def hunk_header_def header_line_def newline_LF)
  have "LF \<notin> set (header_line h)" by (simp add: header_line_def) (simp add: LF_def)
  then show "LF \<notin> set l" if "l \<in> set (hunk_lines_of h)" for l
    using that assms op_text_line by (auto simp: hunk_lines_of_def list_all_iff)
qed

section \<open>Reading the rendered hunks back\<close>

definition as_read :: "hunk \<Rightarrow> unifiedHunkHeader \<times> (char \<times> bytes) list" where
  "as_read h = (\<lparr> hd_oldStart = oldStart h, hd_oldCount = oldCount h, hd_newCount = newCount h \<rparr>, map op_change (hunk_ops h))"

lemma changes_append [simp]: "changes (xs @ ys) = changes xs @ changes ys"
  by (simp add: changes_def)

lemma changes_ops [simp]: "changes (map op_line ops) = map op_change ops"
  by (induction ops) (simp_all add: op_line_reads)

lemma header_not_in_hunk [simp]: "\<not> in_hunk (header_line h)"
  by (simp add: in_hunk_def header_line_def has_prefix_def)

lemma read_hunk:
  assumes "sane_hunk h" "list_all readable_line (takeWhile in_hunk tail)"
  shows "read_hunks saw (hunk_lines_of h @ tail) =
    map_option ((#) (\<lparr> hd_oldStart = oldStart h, hd_oldCount = oldCount h, hd_newCount = newCount h \<rparr>,
      map op_change (hunk_ops h) @ changes (takeWhile in_hunk tail))) (read_hunks True (dropWhile in_hunk tail))"
proof -
  have "takeWhile in_hunk (map op_line (hunk_ops h) @ tail) = map op_line (hunk_ops h) @ takeWhile in_hunk tail"
    "dropWhile in_hunk (map op_line (hunk_ops h) @ tail) = dropWhile in_hunk tail"
    by (simp_all add: takeWhile_append dropWhile_append op_line_reads list_all_iff)
  moreover have "list_all readable_line (map op_line (hunk_ops h))" by (simp add: list_all_iff op_line_reads)
  ultimately show ?thesis using assms parse_header [of h] by (simp add: hunk_lines_of_def)
qed

lemma read_rendered:
  assumes "list_all sane_hunk hs" "hs \<noteq> [] \<or> saw"
  shows "read_hunks saw (concat (map hunk_lines_of hs) @ [[]]) = Some (map as_read hs)"
  using assms
proof (induction hs arbitrary: saw)
  case Nil
  then show ?case by (simp add: in_hunk_def has_prefix_def)
next
  case (Cons h hs)
  define tail where "tail = concat (map hunk_lines_of hs) @ [[]]"
  have stop: "takeWhile in_hunk tail = (if hs = [] then [[]] else [])" "dropWhile in_hunk tail = (if hs = [] then [] else tail)"
    unfolding tail_def by (cases hs; simp add: hunk_lines_of_def in_hunk_def has_prefix_def header_line_def)+
  have "read_hunks True (dropWhile in_hunk tail) = Some (map as_read hs)"
    using Cons.IH [of True] Cons.prems(1) unfolding stop by (cases "hs = []") (simp_all flip: tail_def)
  moreover have "list_all readable_line (takeWhile in_hunk tail)" "changes (takeWhile in_hunk tail) = []"
    unfolding stop by (simp_all add: readable_line_def line_changes_def)
  ultimately have "read_hunks saw (hunk_lines_of h @ tail) = Some (map as_read (h # hs))"
    using Cons.prems by (simp add: read_hunk as_read_def)
  then show ?case by (simp add: tail_def)
qed

lemma read_file_header:
  "read_hunks False ((''--- a/'' @ path) # (''+++ b/'' @ path) # ls) = read_hunks False ls"
  by (simp add: in_hunk_def has_prefix_def isUnifiedDiffMetadata_def)

section \<open>Splicing them into the old text\<close>

lemma sides_op_change [simp]:
  "old_side (map op_change ops) = map strip (old_lines ops)" "new_side (map op_change ops) = map strip (new_lines ops)"
  by (induction ops) (auto simp: old_lines_def new_lines_def op_change_def marker_def split: op_kind.split)

definition holds_old :: "op list \<Rightarrow> hunkRange \<Rightarrow> bool" where
  "holds_old ops r \<longleftrightarrow> old_lines (range_ops ops (h_start r) (h_end r)) \<noteq> []"

lemma length_sides_take:
  "length (old_lines (take n ops)) \<le> length (old_lines ops)" "length (new_lines (take n ops)) \<le> length (new_lines ops)"
  by (metis append_take_drop_id le_add1 length_append sides_append(1), metis append_take_drop_id le_add1 length_append sides_append(2))

lemma splice_covers:
  assumes "covers ops p rs" "0 \<le> p" "p \<le> int (length ops)" "list_all (holds_old ops) rs"
    and "length (old_lines ops) < 2 ^ 62" "length (new_lines ops) < 2 ^ 62"
  shows "\<exists>hs. map (hunk_of ops) rs = map Some hs \<and> list_all sane_hunk hs \<and>
    (\<forall>h\<in>set hs. set (hunk_ops h) \<subseteq> set ops) \<and>
    splice_hunks (map strip (old_lines ops)) (length (old_lines (take (nat p) ops))) (map as_read hs) =
      Some (map strip (new_lines (drop (nat p) ops)))"
  using assms
proof (induction rs arbitrary: p)
  case Nil
  have "list_all (\<lambda>x. kind x = opEqual) (drop (nat p) ops)"
    using Nil by (auto simp: list_all_length)
  then have "old_lines (drop (nat p) ops) = new_lines (drop (nat p) ops)" by (rule all_equal_sides)
  moreover have "old_lines ops = old_lines (take (nat p) ops) @ old_lines (drop (nat p) ops)" by (simp flip: sides_append)
  ultimately have "drop (length (old_lines (take (nat p) ops))) (old_lines ops) = new_lines (drop (nat p) ops)"
    by (metis append_eq_conv_conj)
  then show ?case by (intro exI [of _ "[]"]) (simp add: drop_map)
next
  case (Cons r rs)
  then have r: "p \<le> h_start r" "0 \<le> h_start r" "h_start r < h_end r" "h_end r \<le> int (length ops)" by auto
  obtain hs where hs: "map (hunk_of ops) rs = map Some hs" "list_all sane_hunk hs" "\<forall>h\<in>set hs. set (hunk_ops h) \<subseteq> set ops"
    "splice_hunks (map strip (old_lines ops)) (length (old_lines (take (nat (h_end r)) ops))) (map as_read hs) =
      Some (map strip (new_lines (drop (nat (h_end r)) ops)))"
    using Cons.IH [of "h_end r"] Cons.prems r by auto
  obtain h where h: "hunk_of ops r = Some h" "hunk_ops h = range_ops ops (h_start r) (h_end r)"
    "oldCount h = int (length (old_lines (hunk_ops h)))" "newCount h = int (length (new_lines (hunk_ops h)))"
    "(if oldCount h > 0 then oldStart h - 1 else oldStart h) = int (length (old_lines (take (nat (h_start r)) ops)))"
    "(if newCount h > 0 then newStart h - 1 else newStart h) = int (length (new_lines (take (nat (h_start r)) ops)))"
    using hunk_of_range [OF r(2-4)] by blast
  define gap where "gap = range_ops ops p (h_start r)"
  define part where "part = range_ops ops (h_start r) (h_end r)"
  define rest where "rest = drop (nat (h_end r)) ops"
  have upto: "take (nat (h_start r)) ops = take (nat p) ops @ gap"
    unfolding gap_def by (rule range_ops_take) (use Cons.prems r in auto)
  have upto': "take (nat (h_end r)) ops = take (nat p) ops @ gap @ part"
    using range_ops_take [of "h_start r" "h_end r" ops] r upto by (simp add: part_def)
  have ops: "ops = take (nat p) ops @ gap @ part @ rest"
    using upto' unfolding rest_def by (metis append.assoc append_take_drop_id)
  have dropp: "drop (nat p) ops = gap @ part @ rest" using ops by (metis append_take_drop_id same_append_eq)
  have "list_all (\<lambda>x. kind x = opEqual) gap"
    using Cons.prems r by (auto simp: gap_def range_ops_def list_all_length)
  then have gap: "old_lines gap = new_lines gap" by (rule all_equal_sides)
  let ?A = "old_lines (take (nat p) ops)"
  have old: "old_lines ops = ?A @ old_lines gap @ old_lines part @ old_lines rest" by (subst ops) simp
  have h_part: "hunk_ops h = part" by (simp add: h(2) part_def)
  have pos: "0 < oldCount h" using Cons.prems(4) h_part by (simp add: h(3) holds_old_def part_def)
  have start: "oldStart h = int (length ?A + length (old_lines gap)) + 1" using h(5) pos upto by simp
  have "length (new_lines ops) = length (new_lines (take (nat p) ops @ gap @ part @ rest))" using ops by simp
  then have new: "length (new_lines part) < 2 ^ 62" using Cons.prems(6) by simp
  have sane: "sane_hunk h"
    using h(3-6) length_sides_take [of "nat (h_start r)" ops] Cons.prems(5,6) pos old new
    by (auto simp: sane_hunk_def in_int64_def h_part start split: if_splits)
  have "set part \<subseteq> set ops" by (auto simp: part_def range_ops_def dest: in_set_takeD in_set_dropD)
  moreover have "splice_hunks (map strip (old_lines ops)) (length ?A) (map as_read (h # hs)) =
      Some (map strip (new_lines (drop (nat p) ops)))"
  proof -
    have at: "nat (hunkOrigIndex (oldStart h)) = length ?A + length (old_lines gap)"
      by (simp add: hunkOrigIndex_def start nat_add_distrib)
    have next_at: "length ?A + length (old_lines gap) + length (old_lines part) = length (old_lines (take (nat (h_end r)) ops))"
      by (simp add: upto')
    show ?thesis
      using hs(4) unfolding dropp old
      by (simp add: as_read_def at h(3,4) h_part gap next_at [symmetric] Let_def rest_def [symmetric] add.assoc)
  qed
  ultimately show ?case using hs h(1) sane by (intro exI [of _ "h # hs"]) (simp add: h_part)
qed

section \<open>Every hunk with context holds an old line\<close>

definition touches :: "op list \<Rightarrow> hunkRange \<Rightarrow> bool" where
  "touches ops r \<longleftrightarrow> h_start r = 0 \<and> h_end r = int (length ops) \<or>
    (\<exists>i<length ops. h_start r \<le> int i \<and> int i < h_end r \<and> kind (ops ! i) = opEqual)"

lemma padHunk_touches:
  assumes "1 \<le> context" "0 \<le> a" "a \<le> z" "z < int (length ops)"
    and before: "a = 0 \<or> kind (ops ! nat (a - 1)) = opEqual"
    and after: "z + 1 < int (length ops) \<Longrightarrow> kind (ops ! nat (z + 1)) = opEqual"
  shows "touches ops (padHunk a z (int (length ops)) context)"
proof -
  define q where "q = padHunk a z (int (length ops)) context"
  have r: "h_start q = max 0 (a - context)" "h_end q = min (int (length ops)) (z + 1 + context)"
    by (auto simp: q_def padHunk_def Let_def)
  consider "a = 0" "z + 1 = int (length ops)" | "0 < a" | "z + 1 < int (length ops)" using assms by linarith
  then have "touches ops q"
  proof cases
    case 2
    then show ?thesis unfolding touches_def using before assms by (intro disjI2 exI [of _ "nat (a - 1)"]) (auto simp: r)
  next
    case 3
    then show ?thesis unfolding touches_def using after assms by (intro disjI2 exI [of _ "nat (z + 1)"]) (auto simp: r)
  qed (use assms(1) in \<open>simp add: r touches_def\<close>)
  then show ?thesis by (simp add: q_def)
qed

lemma group_touches:
  assumes "1 \<le> context" "0 \<le> gs" "gs \<le> prev" "prev < int (length ops)" "sorted_wrt (<) (prev # changed)"
    and "\<And>i. prev < int i \<Longrightarrow> i < length ops \<Longrightarrow> kind (ops ! i) \<noteq> opEqual \<Longrightarrow> int i \<in> set changed"
    and "\<And>i. i \<in> set changed \<Longrightarrow> i < int (length ops)"
    and "gs = 0 \<or> kind (ops ! nat (gs - 1)) = opEqual"
    and "r \<in> set (group_changes context (int (length ops)) gs prev changed)"
  shows "touches ops r"
  using assms(2-)
proof (induction changed arbitrary: gs prev)
  case Nil
  have "kind (ops ! nat (prev + 1)) = opEqual" if "prev + 1 < int (length ops)"
    using Nil(5) [of "nat (prev + 1)"] Nil(1,2) that by fastforce
  with Nil assms(1) show ?case by (simp add: padHunk_touches)
next
  case (Cons i changed)
  show ?case
  proof (cases "i - prev > 2 * context + 1")
    case gap: True
    have quiet: "kind (ops ! j) = opEqual" if "prev < int j" "int j < i" for j
      using Cons.prems(5) [of j] Cons.prems(4) Cons.prems(6) [of i] that by fastforce
    from Cons.prems(8) gap consider "r = padHunk gs prev (int (length ops)) context"
      | "r \<in> set (group_changes context (int (length ops)) i i changed)" by auto
    then show ?thesis
    proof cases
      case 1
      have "kind (ops ! nat (prev + 1)) = opEqual" using quiet [of "nat (prev + 1)"] gap Cons.prems(1,2) assms(1) by simp
      with Cons.prems 1 assms(1) show ?thesis by (simp add: padHunk_touches)
    next
      case 2
      show ?thesis
      proof (rule Cons.IH [OF _ _ _ _ _ _ _ 2])
        show "0 \<le> i" using Cons.prems(1,2) gap assms(1) by linarith
        show "int j \<in> set changed" if "i < int j" "j < length ops" "kind (ops ! j) \<noteq> opEqual" for j
          using Cons.prems(4) Cons.prems(5) [of j] that by auto
        show "i = 0 \<or> kind (ops ! nat (i - 1)) = opEqual"
          using quiet [of "nat (i - 1)"] gap Cons.prems(1,2) assms(1) by simp
      qed (use Cons.prems in auto)
    qed
  next
    case False
    show ?thesis
    proof (rule Cons.IH)
      show "r \<in> set (group_changes context (int (length ops)) gs i changed)" using Cons.prems(8) False by simp
      show "int j \<in> set changed" if "i < int j" "j < length ops" "kind (ops ! j) \<noteq> opEqual" for j
        using Cons.prems(4) Cons.prems(5) [of j] that by auto
    qed (use Cons.prems in auto)
  qed
qed

lemma ranges_hold_old:
  assumes "1 \<le> context" "old_lines ops \<noteq> []"
  shows "list_all (holds_old ops) (hunkRanges ops context)"
proof (cases "changed_from 0 ops")
  case (Cons i changed)
  have mem: "j \<in> set (i # changed) \<longleftrightarrow> (\<exists>n. j = int n \<and> n < length ops \<and> kind (ops ! n) \<noteq> opEqual)" for j
    using set_changed_from [of 0 ops] Cons by auto
  have sorted: "sorted_wrt (<) (i # changed)" using sorted_changed_from [of 0 ops] Cons by simp
  have i: "0 \<le> i" "i < int (length ops)" using mem [of i] by auto
  show ?thesis
    unfolding list_all_iff
  proof
    fix r assume "r \<in> set (hunkRanges ops context)"
    then have r: "r \<in> set (group_changes context (int (length ops)) i i changed)" using Cons by (simp add: hunkRanges_def)
    have "touches ops r"
    proof (rule group_touches [OF assms(1) i(1) order.refl i(2) sorted _ _ _ r])
      show "int j \<in> set changed" if "i < int j" "j < length ops" "kind (ops ! j) \<noteq> opEqual" for j
        using mem [of "int j"] that by auto
      show "j < int (length ops)" if "j \<in> set changed" for j using mem [of j] that by auto
      show "i = 0 \<or> kind (ops ! nat (i - 1)) = opEqual"
      proof (rule ccontr)
        assume "\<not> ?thesis"
        then have "i - 1 \<in> set (i # changed)" using mem [of "i - 1"] i by (auto intro!: exI [of _ "nat (i - 1)"])
        then show False using sorted by auto
      qed
    qed
    then show "holds_old ops r" unfolding touches_def
    proof (elim disjE exE conjE)
      fix j assume j: "j < length ops" "h_start r \<le> int j" "int j < h_end r" "kind (ops ! j) = opEqual"
      have "ops ! j \<in> set (range_ops ops (h_start r) (h_end r))"
        unfolding range_ops_def in_set_conv_nth using j by (intro exI [of _ "j - nat (h_start r)"]) auto
      with j(4) show ?thesis by (auto simp: holds_old_def old_lines_def filter_empty_conv intro!: bexI [of _ "ops ! j"])
    qed (use assms(2) in \<open>simp add: holds_old_def range_ops_def\<close>)
  qed
qed (simp add: hunkRanges_def)

section \<open>The round trip\<close>

lemma length_terminated: "length ls \<le> length (terminated ls)"
  by (induction ls) simp_all

lemma lines_of_text:
  assumes "ends_line s" "l \<in> set (splitLines s)"
  shows "\<exists>w. l = w @ [LF] \<and> LF \<notin> set w" "set l \<subseteq> set s"
proof -
  show "\<exists>w. l = w @ [LF] \<and> LF \<notin> set w"
    using assms splitFileLines_terminated(2) [OF assms(1)] by (auto simp: splitLines_file)
  have "set (concat (splitLines s)) = set s" by (simp only: concat_splitLines)
  with assms(2) show "set l \<subseteq> set s" by auto
qed

lemma set_ops_lines: "x \<in> set ops \<Longrightarrow> line x \<in> set (old_lines ops) \<union> set (new_lines ops)"
  by (cases "kind x") (auto simp: old_lines_def new_lines_def)

lemma length_splitLines: "ends_line s \<Longrightarrow> length (splitLines s) \<le> length s"
  using length_terminated [of "splitFileLines s"] splitFileLines_terminated(1) [of s] by (simp add: splitLines_file)

lemma join_file:
  assumes "ends_line s" "s \<noteq> [LF]" "s \<noteq> []"
  shows "join [LF] (splitFileLines s) \<noteq> []" "join [LF] (splitFileLines s) @ [LF] = s"
proof -
  have ne: "splitFileLines s \<noteq> []" using splitFileLines_terminated(1) [OF assms(1)] assms(3) by auto
  then show j: "join [LF] (splitFileLines s) @ [LF] = s"
    using join_terminated splitFileLines_terminated(1) [OF assms(1)] by simp
  show "join [LF] (splitFileLines s) \<noteq> []" using j assms(2) by auto
qed

lemma restore_file:
  assumes "e \<in> line_endings" "CR \<notin> set before" "CR \<notin> set after" "before \<noteq> []" "ends_line before"
    and "ends_line after" "after \<noteq> [LF]"
  shows "restoreLineEndings (join [LF] (splitFileLines after)) (encode e before) = encode e after"
proof -
  have last: "has_suffix before [LF]"
    using assms(4,5) by (cases before rule: rev_cases) (auto simp: has_suffix_def ends_line_def)
  have lf: "LF \<in> set before" using last by (auto simp: has_suffix_def suffix_def)
  have cr: "CR \<notin> set (join [LF] (splitFileLines after))"
    using join_file [OF assms(6,7)] assms(3)
    by (cases "after = []") (simp add: splitFileLines_def, metis Un_iff set_append)
  have "hasFinalLineEnding (encode e before)" "detectLineEnding (encode e before) = e"
    using has_final_encode [OF assms(1,2)] detect_encode [OF assms(1,2)] last lf by simp_all
  with cr join_file [OF assms(6,7)] show ?thesis
    by (cases "after = []") (simp_all add: restoreLineEndings_def Let_def splitFileLines_def normalize_plain [OF assms(3)])
qed

text \<open>What \<^verbatim>\<open>Unified\<close> renders for two texts that end their lines.\<close>

lemma rendered_hunks:
  assumes "ends_line before" "ends_line after" "before \<noteq> []" "1 \<le> context"
    and "length before < 2 ^ 62" "length after < 2 ^ 62" "before \<noteq> after"
    and "Unified path before after context = Some (patch, False)"
  obtains hs where "patch = file_header path @ concat (map hunk_text hs)" "hs \<noteq> []" "list_all sane_hunk hs"
    "\<And>h x. h \<in> set hs \<Longrightarrow> x \<in> set (hunk_ops h) \<Longrightarrow> line x \<in> set (splitLines before) \<union> set (splitLines after)"
    "splice_hunks (splitFileLines before) 0 (map as_read hs) = Some (splitFileLines after)"
proof -
  obtain ops hs' where ops: "diffOps (splitLines before) (splitLines after) = Some ops"
    "map (hunk_of ops) (hunkRanges ops context) = map Some hs'" "patch = file_header path @ concat (map hunk_text hs')"
    using Unified_text [of before after "context" path] assms(4,7,8) by (auto simp: Let_def max_def split: if_splits)
  have sides: "old_lines ops = splitLines before" "new_lines ops = splitLines after"
    using diffOps_total [of "splitLines before" "splitLines after"] ops(1) by auto
  have "old_lines ops \<noteq> []" using assms(3) concat_splitLines [of before] by (auto simp: sides)
  then have holds: "list_all (holds_old ops) (hunkRanges ops context)" by (rule ranges_hold_old [OF assms(4)])
  have cover: "covers ops 0 (hunkRanges ops context)" by (rule hunkRanges_cover) (use assms(4) in simp)
  have strips: "map strip (splitLines s) = splitFileLines s" if "ends_line s" for s
    using that by (simp add: splitLines_file comp_def)
  from splice_covers [OF cover _ _ holds] obtain hs where hs: "map (hunk_of ops) (hunkRanges ops context) = map Some hs"
    "list_all sane_hunk hs" "\<forall>h\<in>set hs. set (hunk_ops h) \<subseteq> set ops"
    "splice_hunks (splitFileLines before) 0 (map as_read hs) = Some (splitFileLines after)"
    using assms length_splitLines [of before] length_splitLines [of after] by (auto simp: sides strips)
  have "inj (Some :: hunk \<Rightarrow> _)" by (simp add: inj_def)
  then have "hs' = hs" using hs(1) ops(2) by (metis map_injective)
  moreover have "hs \<noteq> []"
  proof
    assume "hs = []"
    then have "splitFileLines before = splitFileLines after" using hs(4) by simp
    then show False using assms(1,2,7) splitFileLines_terminated(1) by metis
  qed
  moreover have "line x \<in> set (splitLines before) \<union> set (splitLines after)" if "h \<in> set hs" "x \<in> set (hunk_ops h)" for h x
    using set_ops_lines [of x ops] that hs(3) unfolding sides by blast
  ultimately show ?thesis using that ops(3) hs by blast
qed

lemma rendered_text:
  assumes "ends_line before" "ends_line after" "CR \<notin> set before" "CR \<notin> set after" "CR \<notin> set path" "LF \<notin> set path"
    and "\<And>h x. h \<in> set hs \<Longrightarrow> x \<in> set (hunk_ops h) \<Longrightarrow> line x \<in> set (splitLines before) \<union> set (splitLines after)"
  defines "patch \<equiv> file_header path @ concat (map hunk_text hs)"
  shows "split_on LF patch = (''--- a/'' @ path) # (''+++ b/'' @ path) # concat (map hunk_lines_of hs) @ [[]]" "CR \<notin> set patch"
proof -
  have x: "terminated_op x" "CR \<notin> set (line x)" if "h \<in> set hs" "x \<in> set (hunk_ops h)" for h x
    using assms(7) [OF that] lines_of_text [OF assms(1)] lines_of_text [OF assms(2)] assms(3,4)
    by (fastforce simp: terminated_op_def)+
  then have ht: "hunk_text h = terminated (hunk_lines_of h)" "\<And>l. l \<in> set (hunk_lines_of h) \<Longrightarrow> LF \<notin> set l" if "h \<in> set hs" for h
    using hunk_text_terminated [of h] that by (simp_all add: list_all_iff)
  have body: "concat (map hunk_text hs) = terminated (concat (map hunk_lines_of hs))"
    using ht(1) by (induction hs) simp_all
  define ls where "ls = (''--- a/'' @ path) # (''+++ b/'' @ path) # concat (map hunk_lines_of hs)"
  have patch: "patch = terminated ls" by (simp add: patch_def body ls_def file_header_def newline_LF)
  have "LF \<notin> set l" if "l \<in> set ls" for l using that ht(2) assms(6) by (auto simp: ls_def LF_def)
  then show "split_on LF patch = (''--- a/'' @ path) # (''+++ b/'' @ path) # concat (map hunk_lines_of hs) @ [[]]"
    using split_on_terminated [of ls] by (simp add: patch ls_def)
  have strip: "set (strip l) \<subseteq> set l" for l
    by (auto simp: strip_def trim_suffix_def dest: in_set_takeD)
  have "CR \<notin> set (op_line x)" if "h \<in> set hs" "x \<in> set (hunk_ops h)" for h x
    using x(2) [OF that] strip [of "line x"] by (auto simp: op_line_def marker_def CR_def split: op_kind.split)
  moreover have "CR \<notin> set (header_line h)" for h by (simp add: header_line_def) (simp add: CR_def)
  ultimately have "CR \<notin> set l" if "l \<in> set ls" for l
    using that assms(5) by (auto simp: ls_def hunk_lines_of_def) (simp_all add: CR_def)
  then show "CR \<notin> set patch" unfolding patch by (auto simp: terminated_def)
qed



end
