(* ===== verification/FilePatch_V4A.thy ===== *)
theory FilePatch_V4A
  imports FilePatch_Correct
begin

text \<open>
  V4A patches: chunks that replace lines are found in order and spliced in where they were found;
  and the patches for which the code does something else than they say.
\<close>

section \<open>Searching\<close>

definition loosenings :: "(bytes \<Rightarrow> bytes) set" where
  "loosenings = {id, trim_blanks, trim_space}"

definition found_at :: "bytes list \<Rightarrow> bytes list \<Rightarrow> nat \<Rightarrow> bool" where
  "found_at lines pattern i \<longleftrightarrow> i + length pattern \<le> length lines \<and>
     (\<exists>f\<in>loosenings. lines_match f (take (length pattern) (drop i lines)) pattern)"

lemma seek_with_found:
  assumes "seek_with f lines pattern start = Some i" "f \<in> loosenings" "length pattern \<le> length lines"
  shows "start \<le> i \<and> found_at lines pattern i"
proof -
  let ?at = "\<lambda>i. lines_match f (take (length pattern) (drop i lines)) pattern"
  have "i \<in> set [start..<length lines - length pattern + 1] \<and> ?at i"
    using assms(1) unfolding seek_with_def find_Some_iff by (metis nth_mem)
  with assms(2,3) show ?thesis by (auto simp: found_at_def)
qed

lemma seekSequence_found:
  assumes "seekSequence lines pattern start False = Some i" "start \<le> length lines"
  shows "start \<le> i \<and> found_at lines pattern i"
proof (cases "pattern = []")
  case True
  then show ?thesis using assms by (auto simp: seekSequence_def found_at_def lines_match_def loosenings_def)
next
  case False
  with assms(1) have l: "length pattern \<le> length lines" by (auto simp: seekSequence_def split: if_splits)
  from False assms(1) l have "\<exists>f\<in>loosenings. seek_with f lines pattern start = Some i"
    by (auto simp: seekSequence_def Let_def loosenings_def split: option.splits)
  then show ?thesis using seek_with_found l by blast
qed

text \<open>The lines a chunk replaces: its old lines, or those without a final empty one.\<close>

definition chunk_sides :: "updateChunk \<Rightarrow> bytes list \<Rightarrow> bytes list \<Rightarrow> bool" where
  "chunk_sides c old new \<longleftrightarrow> old = oldLines c \<and> new = newLines c \<or>
     oldLines c = old @ [[]] \<and> (newLines c = new @ [[]] \<or> new = newLines c \<and> (new = [] \<or> last new \<noteq> []))"

lemma seek_chunk_found:
  assumes "seek_chunk lines c k = Some (start, old, new)" "\<not> eof c" "k \<le> length lines"
  shows "k \<le> start" "found_at lines old start" "chunk_sides c old new"
proof -
  have "k \<le> start \<and> found_at lines old start \<and> chunk_sides c old new"
  proof (cases "seekSequence lines (oldLines c) k False")
    case (Some i)
    then have "i = start" "old = oldLines c" "new = newLines c" using assms(1,2) by (simp_all add: seek_chunk_def)
    with Some show ?thesis using seekSequence_found [OF Some assms(3)] by (simp add: chunk_sides_def)
  next
    case None
    then have ne: "oldLines c \<noteq> []" "last (oldLines c) = []" and old: "old = butlast (oldLines c)"
      and new: "new = (if newLines c \<noteq> [] \<and> last (newLines c) = [] then butlast (newLines c) else newLines c)"
      and s: "seekSequence lines old k False = Some start"
      using assms(1,2) by (simp_all add: seek_chunk_def Let_def split: if_split_asm) auto
    have "oldLines c = old @ [[]]" using ne old by (metis append_butlast_last_id)
    moreover have "newLines c \<noteq> [] \<Longrightarrow> last (newLines c) = [] \<Longrightarrow> newLines c = butlast (newLines c) @ [[]]"
      by (metis append_butlast_last_id)
    ultimately show ?thesis using seekSequence_found [OF s assms(3)] new by (auto simp: chunk_sides_def)
  qed
  then show "k \<le> start" "found_at lines old start" "chunk_sides c old new" by simp_all
qed

section \<open>Chunks that replace lines\<close>

definition replaces :: "updateChunk \<Rightarrow> bool" where
  "replaces c \<longleftrightarrow> oldLines c \<noteq> [] \<and> \<not> eof c"

text \<open>Each chunk stands at or after the end of the one before it, and after its context line.\<close>

fun chunks_fit :: "bytes list \<Rightarrow> nat \<Rightarrow> updateChunk list \<Rightarrow> replacement list \<Rightarrow> bool" where
  "chunks_fit lines k [] [] \<longleftrightarrow> True"
| "chunks_fit lines k (c # cs) (r # rs) \<longleftrightarrow>
     k \<le> rp_start r \<and>
     (changeContext c \<noteq> [] \<longrightarrow> (\<exists>i. k \<le> i \<and> i < rp_start r \<and> found_at lines [changeContext c] i)) \<and>
     (\<exists>old. chunk_sides c old (rp_newLines r) \<and> length old = rp_oldLen r \<and> found_at lines old (rp_start r)) \<and>
     chunks_fit lines (rp_start r + rp_oldLen r) cs rs"
| "chunks_fit lines k _ _ \<longleftrightarrow> False"

fun splice_replacements :: "bytes list \<Rightarrow> nat \<Rightarrow> replacement list \<Rightarrow> bytes list" where
  "splice_replacements lines k [] = drop k lines"
| "splice_replacements lines k (r # rs) =
     take (rp_start r - k) (drop k lines) @ rp_newLines r @ splice_replacements lines (rp_start r + rp_oldLen r) rs"

lemma computed_chunks_fit:
  assumes "list_all replaces chunks" "k \<le> length lines" "computeV4AReplacements lines k chunks = Inr rs"
  shows "chunks_fit lines k chunks rs"
  using assms
proof (induction chunks arbitrary: k rs)
  case (Cons c cs)
  from Cons.prems obtain k' where k': "(if changeContext c \<noteq> [] then map_option Suc (seekSequence lines [changeContext c] k False)
            else Some k) = Some k'" by (auto split: option.splits if_splits)
  have ctx: "changeContext c \<noteq> [] \<longrightarrow> (\<exists>i. k \<le> i \<and> k' = Suc i \<and> found_at lines [changeContext c] i)"
    using k' seekSequence_found [OF _ Cons.prems(2)] by (auto split: if_splits)
  have bound: "k \<le> k'" "k' \<le> length lines"
    using ctx k' Cons.prems(2) by (auto simp: found_at_def split: if_splits)
  from Cons.prems k' obtain start old new where s: "seek_chunk lines c k' = Some (start, old, new)"
    by (auto simp: replaces_def split: option.splits)
  with Cons.prems k' obtain rs' where rs': "computeV4AReplacements lines (start + length old) cs = Inr rs'"
    "rs = \<lparr> rp_start = start, rp_oldLen = length old, rp_newLines = new \<rparr> # rs'"
    by (auto simp: replaces_def split: sum.splits)
  have f: "k' \<le> start" "found_at lines old start" "chunk_sides c old new"
    using seek_chunk_found [OF s _ bound(2)] Cons.prems(1) by (simp_all add: replaces_def)
  have "chunks_fit lines (start + length old) cs rs'"
    by (rule Cons.IH [OF _ _ rs'(1)]) (use Cons.prems(1) f(2) in \<open>simp_all add: found_at_def\<close>)
  with f ctx bound show ?case by (auto simp: rs'(2))
qed simp

section \<open>Making the replacements\<close>

lemma delete_loop_at: "n \<le> length part \<Longrightarrow> delete_loop (length p) n (p @ part) = p @ drop n part"
proof (induction n arbitrary: part)
  case (Suc n)
  then obtain l part' where "part = l # part'" by (cases part) auto
  with Suc show ?case by simp
qed simp

lemma insert_loop_at: "insert_loop (length p) new (p @ s) = Some (p @ new @ s)"
proof (induction new arbitrary: p)
  case (Cons l new)
  from Cons [of "p @ [l]"] show ?case by simp
qed simp

lemma apply_replacement_at:
  assumes "rp_start r = length p" "rp_oldLen r = length old"
  shows "apply_replacement r (p @ old @ s) = Some (p @ rp_newLines r @ s)"
  using delete_loop_at [of "length old" "old @ s" p] by (simp add: apply_replacement_def assms insert_loop_at)

lemma apply_fitting:
  assumes "chunks_fit lines k chunks rs" "k \<le> length lines"
  shows "applyV4AReplacements lines rs = Some (take k lines @ splice_replacements lines k rs)"
  using assms
proof (induction lines k chunks rs rule: chunks_fit.induct)
  case (2 lines k c cs r rs)
  let ?s = "rp_start r" and ?n = "rp_oldLen r"
  have b: "k \<le> ?s" "?s + ?n \<le> length lines" using 2(2) by (auto simp: found_at_def)
  have "take (?s + ?n) lines = take k lines @ take (?s - k) (drop k lines) @ take ?n (drop ?s lines)"
    using b(1) by (metis append.assoc le_add_diff_inverse take_add)
  moreover have "applyV4AReplacements lines rs = Some (take (?s + ?n) lines @ splice_replacements lines (?s + ?n) rs)"
    using 2 b by simp
  ultimately have rest: "applyV4AReplacements lines rs =
      Some ((take k lines @ take (?s - k) (drop k lines)) @ take ?n (drop ?s lines) @ splice_replacements lines (?s + ?n) rs)"
    by simp
  show ?case
    using apply_replacement_at [of r "take k lines @ take (?s - k) (drop k lines)" "take ?n (drop ?s lines)"] b
    by (simp add: rest)
qed simp_all



section \<open>Patches the code reads otherwise\<close>

text \<open>
  A removed line that starts with two dashes, or an added one that starts with two plus signs, looks
  like a file header after its marker and is skipped: the removal is lost and the new line added
  beside the old one.  A context line of three dashes is lost as well, and the chunk not found.
\<close>

lemma v4a_loses_dashed_removal:
  "applyPatch (''-- old'' @ [LF] @ ''select 1;'' @ [LF])
     (''@@'' @ [LF] @ ''--- old'' @ [LF] @ ''+-- new'' @ [LF] @ '' select 1;'' @ [LF]) =
   Inr (''-- old'' @ [LF] @ ''-- new'' @ [LF] @ ''select 1;'' @ [LF])"
  by code_simp

lemma v4a_loses_dashed_context:
  "applyPatch (''a'' @ [LF] @ ''---'' @ [LF] @ ''b'' @ [LF])
     (''@@'' @ [LF] @ '' a'' @ [LF] @ '' ---'' @ [LF] @ ''-b'' @ [LF] @ ''+c'' @ [LF]) = Inl ContextNotFound"
  by code_simp

text \<open>
  A chunk that only inserts is placed at the end of the original file, but is made after the chunks
  that follow it: those that shrink the file take the place away and the insertion panics, those
  that grow it move the insertion into the middle.
\<close>

lemma v4a_insertion_panics:
  "applyPatch (''a'' @ [LF] @ ''b'' @ [LF] @ ''c'' @ [LF])
     (''@@'' @ [LF] @ ''+x'' @ [LF] @ ''@@'' @ [LF] @ ''-a'' @ [LF] @ ''-b'' @ [LF] @ ''@@'') = Inl Panic"
  by code_simp

lemma v4a_insertion_misplaced:
  "applyPatch (''a'' @ [LF] @ ''b'' @ [LF] @ ''c'' @ [LF])
     (''@@'' @ [LF] @ ''+x'' @ [LF] @ ''@@'' @ [LF] @ ''-a'' @ [LF] @ ''+a1'' @ [LF] @ ''+a2'' @ [LF] @ ''@@'') =
   Inr (''a1'' @ [LF] @ ''a2'' @ [LF] @ ''b'' @ [LF] @ ''x'' @ [LF] @ ''c'' @ [LF])"
  by code_simp

text \<open>
  In a unified diff the start of a hunk that counts no old lines names the line before it, but is
  read as the line itself; a context line that starts with two at signs sends the whole diff to
  the V4A parser; and replacing the only line by an empty one empties the file.
\<close>

lemma unified_insertion_off_by_one:
  "applyPatch (''a'' @ [LF] @ ''b'' @ [LF] @ ''c'' @ [LF]) (''@@ -2,0 +3,1 @@'' @ [LF] @ ''+x'' @ [LF]) =
   Inr (''a'' @ [LF] @ ''x'' @ [LF] @ ''b'' @ [LF] @ ''c'' @ [LF])"
  by code_simp

lemma unified_misrouted:
  "applyPatch (''@@ x'' @ [LF] @ ''b'' @ [LF]) (''@@ -1,2 +1,2 @@'' @ [LF] @ '' @@ x'' @ [LF] @ ''-b'' @ [LF] @ ''+c'' @ [LF]) =
   Inl ContextNotFound"
  by code_simp

lemma unified_empties_file:
  "applyPatch (''a'' @ [LF]) (''@@ -1,1 +1,1 @@'' @ [LF] @ ''-a'' @ [LF] @ ''+'' @ [LF]) = Inr []"
  by code_simp

end
