(* ===== verification/Serve.thy ===== *)
theory Serve
  imports GoPrelude "HOL-Library.List_Lexorder" "HOL-Library.Char_ord"
begin

text \<open>
  The serving process (\<^verbatim>\<open>internal/serve\<close>: subsystem.go, supervisor.go, status.go, dispatcher.go):
  which surfaces a configuration starts, how the supervisor follows configurations as they are
  replaced, and how the dispatcher paces the restarts of a worker.  A configuration is a pointer of
  type \<open>'c\<close>, read only through the functions of the descriptors; what a surface does while it runs is
  outside, its end is an event.
\<close>

section \<open>Subsystems\<close>

record 'c subsystem =
  sub_Kind :: bytes
  ConfigKey :: bytes
  BuildTag :: bytes
  Available :: bool
  NeedsSessions :: bool
  Auxiliary :: bool
  Enabled :: "('c option \<Rightarrow> bool) option"
  Fingerprint :: "('c \<Rightarrow> bytes) option"
  RestartKey :: "('c \<Rightarrow> bytes) option"
  Address :: "('c \<Rightarrow> bytes) option"
  has_Run :: bool

definition sub_enabled :: "'c subsystem \<Rightarrow> 'c option \<Rightarrow> bool" where
  "sub_enabled sub cfg = (case Enabled sub of None \<Rightarrow> False | Some f \<Rightarrow> f cfg)"

definition sub_fingerprint :: "'c subsystem \<Rightarrow> 'c option \<Rightarrow> bytes" where
  "sub_fingerprint sub cfg =
     (case Fingerprint sub of None \<Rightarrow> [] | Some f \<Rightarrow> (case cfg of None \<Rightarrow> [] | Some c \<Rightarrow> f c))"

definition sub_restartKey :: "'c subsystem \<Rightarrow> 'c option \<Rightarrow> bytes" where
  "sub_restartKey sub cfg =
     (case RestartKey sub of None \<Rightarrow> [] | Some f \<Rightarrow> (case cfg of None \<Rightarrow> [] | Some c \<Rightarrow> f c))"

definition sub_address :: "'c subsystem \<Rightarrow> 'c option \<Rightarrow> bytes" where
  "sub_address sub cfg =
     (case cfg of None \<Rightarrow> []
      | Some c \<Rightarrow> (case Address sub of Some f \<Rightarrow> f c | None \<Rightarrow> sub_restartKey sub cfg))"

section \<open>The pre-flight\<close>

datatype resolve_error =
    NothingEnabled "bytes list" "bytes list"
  | NotBuilt bytes bytes bytes

text \<open>The loop of \<^verbatim>\<open>Resolve\<close>, with its four accumulators.\<close>

fun resolve_loop ::
  "'c option \<Rightarrow> 'c subsystem list \<Rightarrow> nat \<Rightarrow> bytes list \<Rightarrow> bytes list \<Rightarrow> 'c subsystem list
    \<Rightarrow> resolve_error + 'c subsystem list" where
  "resolve_loop cfg out surfaces keys auxil [] =
     (if surfaces = 0 then Inl (NothingEnabled (sort keys) (sort auxil)) else Inr out)"
| "resolve_loop cfg out surfaces keys auxil (sub # rest) =
     (let keys = (if Available sub \<and> \<not> Auxiliary sub then keys @ [ConfigKey sub] else keys) in
      if \<not> sub_enabled sub cfg then resolve_loop cfg out surfaces keys auxil rest
      else if \<not> Available sub then Inl (NotBuilt (sub_Kind sub) (ConfigKey sub) (BuildTag sub))
      else if Auxiliary sub then resolve_loop cfg (out @ [sub]) surfaces keys (auxil @ [ConfigKey sub]) rest
      else resolve_loop cfg (out @ [sub]) (surfaces + 1) keys auxil rest)"

definition Resolve :: "'c option \<Rightarrow> 'c subsystem list \<Rightarrow> resolve_error + 'c subsystem list" where
  "Resolve cfg subs = resolve_loop cfg [] 0 [] [] subs"

definition quote :: bytes where "quote = [CHR 0x22]"

definition shippedTags :: bytes where
  "shippedTags = ''http ui scheduler memory cli gateway swarm metrics''"

text \<open>\<^verbatim>\<open>Error()\<close> of the two errors.\<close>

fun resolve_message :: "resolve_error \<Rightarrow> bytes" where
  "resolve_message (NothingEnabled keys auxil) =
     (if auxil = [] then
        (if keys = []
         then ''no subsystem is enabled, and this binary was built with none of them (rebuild with -tags '' @ quote @ shippedTags @ quote @ '')''
         else ''no subsystem is enabled: set one of '' @ join '', '' keys @ '' to true in config.yaml'')
      else
        (let set = (if length auxil > 1 then join '', '' auxil @ '' are set, and they run''
                    else join '', '' auxil @ '' is set, and it runs'')
         in if keys = []
            then ''only '' @ set @ '' only beside a surface, but this binary was built with none (rebuild with -tags '' @ quote @ shippedTags @ quote @ '')''
            else ''only '' @ set @ '' only beside a surface: also set one of '' @ join '', '' keys @ '' to true in config.yaml''))"
| "resolve_message (NotBuilt kind key tag) =
     key @ '' is true but this binary has no '' @ kind @ '' support (rebuild with -tags '' @ tag @ '')''"

section \<open>The supervisor\<close>

text \<open>
  An instance is a cell of a heap: its goroutine holds the descriptor \<open>inst_sub\<close> it was started from,
  \<open>inst_cancelled\<close> is the instruction to stop and \<open>inst_done\<close> the closed channel.
\<close>

record 'c instance_cell =
  inst_sub :: "'c subsystem"
  inst_cancelled :: bool
  inst_done :: bool
  inst_fingerprint :: bytes
  inst_restartKey :: bytes
  inst_address :: bytes
  inst_auxiliary :: bool

record 'c supervisor =
  subs :: "'c subsystem list"
  Restartable :: bool
  Sessionless :: bool
  running :: "(bytes \<times> nat) list"
  instances :: "'c instance_cell list"
  applied :: "'c option"

definition NewSupervisor :: "'c subsystem list \<Rightarrow> bool \<Rightarrow> bool \<Rightarrow> 'c supervisor" where
  "NewSupervisor descriptors restartable sessionless =
     \<lparr> subs = descriptors, Restartable = restartable, Sessionless = sessionless, running = [], instances = [], applied = None \<rparr>"

definition live_instance :: "'c supervisor \<Rightarrow> bytes \<Rightarrow> nat option" where
  "live_instance s kind = map_of (running s) kind"

definition start_sub :: "'c subsystem \<Rightarrow> 'c option \<Rightarrow> 'c supervisor \<Rightarrow> 'c supervisor" where
  "start_sub sub cfg s =
     (let inst = \<lparr> inst_sub = sub, inst_cancelled = False, inst_done = False, inst_fingerprint = sub_fingerprint sub cfg,
            inst_restartKey = sub_restartKey sub cfg, inst_address = sub_address sub cfg, inst_auxiliary = Auxiliary sub \<rparr>
      in s\<lparr> instances := instances s @ [inst], running := AList.update (sub_Kind sub) (length (instances s)) (running s) \<rparr>)"

text \<open>Deleting the entry of an instance, if it is still its kind's.\<close>

definition forget_instance :: "bytes \<Rightarrow> nat \<Rightarrow> 'c supervisor \<Rightarrow> 'c supervisor" where
  "forget_instance kind r s =
     (if live_instance s kind = Some r then s\<lparr> running := AList.delete kind (running s) \<rparr> else s)"

text \<open>
  \<^verbatim>\<open>stop\<close> cancels, waits for the goroutine or for the drain to pass, and deletes; the ends of surfaces
  during the wait change nothing the two other sections read, and are events before it.
\<close>

definition cancel_instance :: "nat \<Rightarrow> 'c supervisor \<Rightarrow> 'c supervisor" where
  "cancel_instance r s = s\<lparr> instances := (instances s)[r := (instances s ! r)\<lparr> inst_cancelled := True \<rparr>] \<rparr>"

definition stop_sub :: "bytes \<Rightarrow> nat \<Rightarrow> 'c supervisor \<Rightarrow> 'c supervisor" where
  "stop_sub kind r s = forget_instance kind r (cancel_instance r s)"

definition markApplied :: "'c option \<Rightarrow> 'c supervisor \<Rightarrow> 'c supervisor" where
  "markApplied cfg s = s\<lparr> applied := cfg \<rparr>"

definition runningSurfaces :: "'c supervisor \<Rightarrow> nat" where
  "runningSurfaces s = length (filter (\<lambda>(kind, r). \<not> inst_auxiliary (instances s ! r)) (running s))"

definition fresh_needed :: "'c supervisor \<Rightarrow> 'c option \<Rightarrow> 'c subsystem \<Rightarrow> bool" where
  "fresh_needed s cfg sub \<longleftrightarrow> sub_enabled sub cfg \<and>
     (case live_instance s (sub_Kind sub) of
        None \<Rightarrow> Available sub \<and> NeedsSessions sub \<and> Sessionless s
      | Some r \<Rightarrow> sub_restartKey sub cfg \<noteq> inst_restartKey (instances s ! r))"

definition needsFreshProcess :: "'c supervisor \<Rightarrow> 'c option \<Rightarrow> bytes option" where
  "needsFreshProcess s cfg = map_option sub_Kind (find (fresh_needed s cfg) (subs s))"

definition canRunFresh :: "'c supervisor \<Rightarrow> 'c option \<Rightarrow> bool" where
  "canRunFresh s cfg = (case Resolve cfg (subs s) of Inl _ \<Rightarrow> False | Inr _ \<Rightarrow> True)"

text \<open>The body of the loop of \<^verbatim>\<open>applyConfig\<close>.\<close>

definition apply_sub :: "'c option \<Rightarrow> 'c subsystem \<Rightarrow> 'c supervisor \<Rightarrow> 'c supervisor" where
  "apply_sub cfg sub s =
     (let want = sub_enabled sub cfg in
      case live_instance s (sub_Kind sub) of
        None \<Rightarrow>
          if \<not> want then s
          else if \<not> Available sub then s
          else if NeedsSessions sub \<and> Sessionless s then s
          else start_sub sub cfg s
      | Some r \<Rightarrow>
          if \<not> want then
            (if \<not> Auxiliary sub \<and> runningSurfaces s = 1 then s else stop_sub (sub_Kind sub) r s)
          else if sub_restartKey sub cfg \<noteq> inst_restartKey (instances s ! r) then s
          else if Fingerprint sub = None then s
          else if sub_fingerprint sub cfg \<noteq> inst_fingerprint (instances s ! r)
          then start_sub sub cfg (stop_sub (sub_Kind sub) r s)
          else s)"

text \<open>What \<^verbatim>\<open>applyConfig\<close> decides before the loop.\<close>

datatype apply_plan = ApplyRefused | ApplyRestart | ApplyEach

definition plan_config :: "'c supervisor \<Rightarrow> 'c option \<Rightarrow> apply_plan" where
  "plan_config s cfg =
     (case needsFreshProcess s cfg of
        Some kind \<Rightarrow>
          if \<not> canRunFresh s cfg then ApplyRefused
          else if Restartable s then ApplyRestart
          else ApplyEach
      | None \<Rightarrow> ApplyEach)"

text \<open>\<^verbatim>\<open>applyConfig\<close> when no surface ends meanwhile; the first component asks for a restart.\<close>

definition applyConfig :: "'c option \<Rightarrow> 'c supervisor \<Rightarrow> bool \<times> 'c supervisor" where
  "applyConfig cfg s =
     (if cfg = None then (False, s)
      else (case plan_config s cfg of
          ApplyRefused \<Rightarrow> (False, markApplied cfg s)
        | ApplyRestart \<Rightarrow> (True, markApplied cfg s)
        | ApplyEach \<Rightarrow> (False, markApplied cfg (fold (apply_sub cfg) (subs s) s))))"

definition shutdown :: "'c supervisor \<Rightarrow> 'c supervisor" where
  "shutdown s =
     fold (\<lambda>sub s. case live_instance s (sub_Kind sub) of None \<Rightarrow> s | Some r \<Rightarrow> stop_sub (sub_Kind sub) r s)
       (rev (subs s)) s"

section \<open>Status\<close>

datatype sub_state = StateRunning | StateStarting | StateStopped | StateRetained

record sub_status =
  st_Kind :: bytes
  st_State :: sub_state
  st_Address :: bytes
  st_PendingAddress :: bytes

text \<open>The row of one subsystem, and whether it is pending.\<close>

definition status_row :: "'c supervisor \<Rightarrow> 'c option \<Rightarrow> 'c subsystem \<Rightarrow> sub_status list \<times> bool" where
  "status_row s live sub =
     (let inst = live_instance s (sub_Kind sub); want = sub_enabled sub live in
      if inst = None \<and> \<not> want then ([], False)
      else
        (let state = (if inst \<noteq> None \<and> want then StateRunning else if inst \<noteq> None then StateRetained
               else if applied s \<noteq> live then StateStarting else StateStopped)
         in case inst of
              Some r \<Rightarrow>
                (let key = sub_restartKey sub live; moved = want \<and> key \<noteq> inst_restartKey (instances s ! r) in
                 ([\<lparr> st_Kind = sub_Kind sub, st_State = state, st_Address = inst_address (instances s ! r),
                     st_PendingAddress = (if moved then key else []) \<rparr>], moved))
            | None \<Rightarrow>
                ([\<lparr> st_Kind = sub_Kind sub, st_State = state, st_Address = [], st_PendingAddress = [] \<rparr>],
                 want \<and> Available sub \<and> NeedsSessions sub \<and> Sessionless s)))"

definition supervisor_Status :: "'c supervisor \<Rightarrow> 'c option \<Rightarrow> sub_status list \<times> bool \<times> bytes" where
  "supervisor_Status s live =
     (let rows = map (status_row s live) (subs s); table = concat (map fst rows); pending = list_ex snd rows in
      if \<not> pending then (table, False, [])
      else if \<not> Restartable s then (table, True, [])
      else (case Resolve live (subs s) of
          Inl e \<Rightarrow> (table, True, resolve_message e)
        | Inr _ \<Rightarrow> (table, False, [])))"

section \<open>The life of the process\<close>

text \<open>What \<^verbatim>\<open>sub.Run\<close> returned, or that it panicked; \<^verbatim>\<open>runGuarded\<close> makes an error of it.\<close>

datatype surface_outcome = Returned "bytes option" | Panicked bytes

definition runGuarded :: "'c subsystem \<Rightarrow> surface_outcome \<Rightarrow> bytes option" where
  "runGuarded sub outcome =
     (if \<not> has_Run sub then Some ''subsystem has no Run''
      else case outcome of Returned err \<Rightarrow> err | Panicked v \<Rightarrow> Some (''panic: '' @ v))"

datatype run_result = RunEnded "(bytes \<times> bytes) option" | ErrRestartRequested

record 'c run =
  supv :: "'c supervisor"
  failures :: "(bytes \<times> bytes) list"
  ctx_done :: bool
  runErr :: "(bytes \<times> bytes) option"
  applying :: "('c option \<times> 'c subsystem list) option"
  run_result :: "run_result option"

text \<open>The goroutine of an instance ends; a full channel of failures holds it back.\<close>

definition surface_ends :: "nat \<Rightarrow> surface_outcome \<Rightarrow> 'c run \<Rightarrow> 'c run option" where
  "surface_ends r outcome R =
     (let s = supv R in
      if \<not> r < length (instances s) \<or> inst_done (instances s ! r) then None
      else
        (let inst = instances s ! r; sub = inst_sub inst; kind = sub_Kind sub;
             ended = s\<lparr> instances := (instances s)[r := inst\<lparr> inst_done := True \<rparr>] \<rparr>
         in if inst_cancelled inst \<or> ctx_done R then Some (R\<lparr> supv := ended \<rparr>)
            else
              (let err = (case runGuarded sub outcome of None \<Rightarrow> kind @ '' stopped on its own'' | Some e \<Rightarrow> e) in
               if Auxiliary sub then Some (R\<lparr> supv := forget_instance kind r ended \<rparr>)
               else if length (failures R) < length (subs s)
               then Some (R\<lparr> supv := ended, failures := failures R @ [(kind, err)] \<rparr>)
               else None)))"

text \<open>\<^verbatim>\<open>Run\<close>: the start, and the loop cut at the iterations of \<^verbatim>\<open>applyConfig\<close>.\<close>

definition start_if :: "'c option \<Rightarrow> 'c subsystem \<Rightarrow> 'c supervisor \<Rightarrow> 'c supervisor" where
  "start_if cfg sub s = (if sub_enabled sub cfg \<and> Available sub then start_sub sub cfg s else s)"

definition run_start :: "'c supervisor \<Rightarrow> 'c option \<Rightarrow> 'c run" where
  "run_start s cfg =
     \<lparr> supv = markApplied cfg (fold (start_if cfg) (subs s) s), failures = [], ctx_done = False, runErr = None,
       applying = None, run_result = None \<rparr>"

datatype 'c run_event =
    SurfaceEnds nat surface_outcome
  | Cancelled
  | SeesDone
  | TakesFailure
  | Reloads "'c option"
  | AppliesNext

fun run_step :: "'c run_event \<Rightarrow> 'c run \<Rightarrow> 'c run option" where
  "run_step (SurfaceEnds r outcome) R = surface_ends r outcome R"
| "run_step Cancelled R = Some (R\<lparr> ctx_done := True \<rparr>)"
| "run_step SeesDone R =
     (if run_result R = None \<and> applying R = None \<and> ctx_done R
      then Some (R\<lparr> supv := shutdown (supv R), run_result := Some (RunEnded (runErr R)), ctx_done := True \<rparr>)
      else None)"
| "run_step TakesFailure R =
     (if run_result R = None \<and> applying R = None
      then (case failures R of
          [] \<Rightarrow> None
        | err # rest \<Rightarrow> Some (R\<lparr> failures := rest, runErr := (if runErr R = None then Some err else runErr R), ctx_done := True \<rparr>))
      else None)"
| "run_step (Reloads cfg) R =
     (if run_result R = None \<and> applying R = None
      then (if cfg = None then Some R
        else (case plan_config (supv R) cfg of
            ApplyRefused \<Rightarrow> Some (R\<lparr> supv := markApplied cfg (supv R) \<rparr>)
          | ApplyRestart \<Rightarrow>
              Some (R\<lparr> supv := shutdown (markApplied cfg (supv R)), ctx_done := True,
                run_result := Some (case runErr R of None \<Rightarrow> ErrRestartRequested | Some err \<Rightarrow> RunEnded (Some err)) \<rparr>)
          | ApplyEach \<Rightarrow> Some (R\<lparr> applying := Some (cfg, subs (supv R)) \<rparr>)))
      else None)"
| "run_step AppliesNext R =
     (if run_result R = None
      then (case applying R of
          None \<Rightarrow> None
        | Some (cfg, []) \<Rightarrow> Some (R\<lparr> supv := markApplied cfg (supv R), applying := None \<rparr>)
        | Some (cfg, sub # rest) \<Rightarrow> Some (R\<lparr> supv := apply_sub cfg sub (supv R), applying := Some (cfg, rest) \<rparr>))
      else None)"

inductive run_reaches :: "'c run \<Rightarrow> 'c run \<Rightarrow> bool" where
  run_refl: "run_reaches R R"
| run_next: "run_reaches R R' \<Longrightarrow> run_step e R' = Some R'' \<Longrightarrow> run_reaches R R''"

section \<open>The dispatcher\<close>

text \<open>Durations are nanoseconds in 64 bits.\<close>

record restart_policy =
  rp_Min :: int
  rp_Max :: int
  rp_Steady :: int

definition ExitRestart :: int where "ExitRestart = 75"
definition defaultRestartMin :: int where "defaultRestartMin = 1000000000"
definition defaultRestartMax :: int where "defaultRestartMax = 30 * 1000000000"
definition defaultRestartSteady :: int where "defaultRestartSteady = 60 * 1000000000"

definition policy_normalized :: "restart_policy \<Rightarrow> restart_policy" where
  "policy_normalized p =
     (let p = (if rp_Min p \<le> 0 then p\<lparr> rp_Min := defaultRestartMin \<rparr> else p);
          p = (if rp_Max p < rp_Min p then p\<lparr> rp_Max := defaultRestartMax \<rparr> else p);
          p = (if rp_Max p < rp_Min p then p\<lparr> rp_Max := rp_Min p \<rparr> else p);
          p = (if rp_Steady p \<le> 0 then p\<lparr> rp_Steady := defaultRestartSteady \<rparr> else p)
      in p)"

definition policy_next :: "restart_policy \<Rightarrow> int \<Rightarrow> int" where
  "policy_next p prev =
     (if prev \<le> 0 then rp_Min p
      else let next = wrap64 (prev * 2) in if next > rp_Max p then rp_Max p else next)"

text \<open>
  One life of a worker: its exit status, whether it came with an error, how long it was up, whether
  the context had ended when it exited, and whether it ended during the pause that follows.
\<close>

record worker_life =
  life_code :: int
  life_err :: bool
  life_uptime :: int
  life_ctx_ended :: bool
  life_pause_cut :: bool

definition clean_exit :: "worker_life \<Rightarrow> bool" where
  "clean_exit w \<longleftrightarrow> life_code w = 0 \<and> \<not> life_err w"

definition wait_after :: "restart_policy \<Rightarrow> int \<Rightarrow> worker_life \<Rightarrow> int" where
  "wait_after policy wait w =
     (if life_code w = ExitRestart then 0
      else if life_uptime w \<ge> rp_Steady policy then rp_Min policy
      else policy_next policy wait)"

text \<open>
  \<^verbatim>\<open>Dispatcher.Run\<close> over the lives of its workers: the pauses it made, and whether it returned;
  \<open>False\<close> is a dispatcher that starts the next worker after all of these.
\<close>

fun dispatcher_run :: "restart_policy \<Rightarrow> int \<Rightarrow> worker_life list \<Rightarrow> int list \<times> bool" where
  "dispatcher_run policy wait [] = ([], False)"
| "dispatcher_run policy wait (w # lives) =
     (if life_ctx_ended w then ([], True)
      else if clean_exit w then ([], True)
      else
        (let wait' = wait_after policy wait w in
         if wait' > 0 \<and> life_pause_cut w then ([wait'], True)
         else (case dispatcher_run policy wait' lives of
             (pauses, ended) \<Rightarrow> ((if wait' > 0 then wait' # pauses else pauses), ended))))"

definition Dispatcher_Run :: "restart_policy \<Rightarrow> worker_life list \<Rightarrow> int list \<times> bool" where
  "Dispatcher_Run policy lives = dispatcher_run (policy_normalized policy) 0 lives"

end
