(* ===== verification/Serve_Correct.thy ===== *)
theory Serve_Correct
  imports Serve
begin

text \<open>
  The supervisor's table names one live instance per subsystem, a reload never takes the last surface
  away and brings every subsystem in line, a status foretells what a reload would do; the
  dispatcher's pauses double between their bounds.
\<close>

section \<open>The table of instances\<close>

lemma update_absent: "map_of al k = None \<Longrightarrow> AList.update k v al = al @ [(k, v)]"
  by (induction al) (auto split: if_splits)

lemma map_of_delete_other: "k' \<noteq> k \<Longrightarrow> map_of (AList.delete k al) k' = map_of al k'"
  by (simp add: delete_conv')

lemma length_filter_delete:
  assumes "distinct (map fst al)" "map_of al k = Some v"
  shows "length (filter P al) = length (filter P (AList.delete k al)) + (if P (k, v) then 1 else 0)"
  using assms
proof (induction al)
  case (Cons e al)
  show ?case
  proof (cases "fst e = k")
    case True
    then have "k \<notin> fst ` set al" using Cons.prems(1) by auto
    then have "AList.delete k al = al" by (simp add: delete_filter filter_id_conv) force
    with True Cons.prems(2) show ?thesis by (cases e) simp
  next
    case False
    then show ?thesis using Cons by (cases e) auto
  qed
qed simp

definition cell_ok :: "'c supervisor \<Rightarrow> bytes \<Rightarrow> nat \<Rightarrow> bool" where
  "cell_ok s kind r \<longleftrightarrow> r < length (instances s) \<and> inst_sub (instances s ! r) \<in> set (subs s) \<and>
     sub_Kind (inst_sub (instances s ! r)) = kind \<and> \<not> inst_cancelled (instances s ! r)"

definition supervisor_ok :: "'c supervisor \<Rightarrow> bool" where
  "supervisor_ok s \<longleftrightarrow> distinct (map sub_Kind (subs s)) \<and> distinct (map fst (running s)) \<and>
     (\<forall>(kind, r) \<in> set (running s). cell_ok s kind r) \<and>
     (\<forall>r < length (instances s). inst_auxiliary (instances s ! r) = Auxiliary (inst_sub (instances s ! r)) \<and>
        (inst_cancelled (instances s ! r) \<or> inst_done (instances s ! r) \<or>
         live_instance s (sub_Kind (inst_sub (instances s ! r))) = Some r))"

lemma supervisor_okD:
  assumes "supervisor_ok s" "live_instance s kind = Some r"
  shows "cell_ok s kind r" "(kind, r) \<in> set (running s)"
  using assms by (auto simp: supervisor_ok_def live_instance_def dest: map_of_SomeD)

lemma same_kind: "supervisor_ok s \<Longrightarrow> sub \<in> set (subs s) \<Longrightarrow> sub' \<in> set (subs s) \<Longrightarrow> sub_Kind sub = sub_Kind sub' \<Longrightarrow> sub = sub'"
  unfolding supervisor_ok_def by (metis distinct_map inj_onD)

lemma live_sub:
  assumes "supervisor_ok s" "sub \<in> set (subs s)" "live_instance s (sub_Kind sub) = Some r"
  shows "inst_sub (instances s ! r) = sub" "r < length (instances s)" "inst_auxiliary (instances s ! r) = Auxiliary sub"
proof -
  have c: "cell_ok s (sub_Kind sub) r" by (rule supervisor_okD [OF assms(1,3)])
  then show i: "inst_sub (instances s ! r) = sub" using same_kind [OF assms(1)] assms(2) by (auto simp: cell_ok_def)
  show r: "r < length (instances s)" using c by (simp add: cell_ok_def)
  show "inst_auxiliary (instances s ! r) = Auxiliary sub" using assms(1) i r by (auto simp: supervisor_ok_def)
qed

section \<open>Starting and stopping keep the table\<close>

lemma step_fields [simp]:
  "subs (start_sub sub cfg s) = subs s" "Sessionless (start_sub sub cfg s) = Sessionless s" "Restartable (start_sub sub cfg s) = Restartable s"
  "subs (stop_sub k r s) = subs s" "Sessionless (stop_sub k r s) = Sessionless s" "Restartable (stop_sub k r s) = Restartable s"
  "subs (markApplied cfg s) = subs s" "Restartable (markApplied cfg s) = Restartable s"
  "running (markApplied cfg s) = running s" "instances (markApplied cfg s) = instances s"
  "subs (apply_sub cfg sub s) = subs s" "Sessionless (apply_sub cfg sub s) = Sessionless s" "Restartable (apply_sub cfg sub s) = Restartable s"
  by (simp_all add: start_sub_def stop_sub_def cancel_instance_def forget_instance_def markApplied_def apply_sub_def Let_def split: option.split)

lemma markApplied_ok [simp]: "supervisor_ok (markApplied cfg s) = supervisor_ok s"
  by (simp add: supervisor_ok_def cell_ok_def live_instance_def)

lemma markApplied_surfaces [simp]: "runningSurfaces (markApplied cfg s) = runningSurfaces s"
  by (simp add: runningSurfaces_def)

lemma start_live [simp]:
  "live_instance (start_sub sub cfg s) k = (if k = sub_Kind sub then Some (length (instances s)) else live_instance s k)"
  by (simp add: live_instance_def start_sub_def update_conv' Let_def)

lemma start_instances:
  "r < length (instances s) \<Longrightarrow> instances (start_sub sub cfg s) ! r = instances s ! r"
  "length (instances (start_sub sub cfg s)) = Suc (length (instances s))"
  by (simp_all add: start_sub_def nth_append Let_def)

lemma start_ok:
  assumes ok: "supervisor_ok s" and sub: "sub \<in> set (subs s)" and absent: "live_instance s (sub_Kind sub) = None"
  shows "supervisor_ok (start_sub sub cfg s)"
proof -
  let ?s = "start_sub sub cfg s" and ?n = "length (instances s)"
  have al: "running ?s = running s @ [(sub_Kind sub, ?n)]"
    using absent by (simp add: start_sub_def live_instance_def update_absent Let_def)
  have new: "instances ?s ! ?n = \<lparr> inst_sub = sub, inst_cancelled = False, inst_done = False, inst_fingerprint = sub_fingerprint sub cfg,
            inst_restartKey = sub_restartKey sub cfg, inst_address = sub_address sub cfg, inst_auxiliary = Auxiliary sub \<rparr>"
    by (simp add: start_sub_def Let_def)
  have "sub_Kind sub \<notin> fst ` set (running s)" using absent by (simp add: live_instance_def map_of_eq_None_iff)
  then have 1: "distinct (map fst (running ?s))" using ok by (auto simp: al supervisor_ok_def)
  have old: "cell_ok ?s k r" if "(k, r) \<in> set (running s)" for k r
    using ok that by (auto simp: supervisor_ok_def cell_ok_def start_instances)
  have "cell_ok ?s (sub_Kind sub) ?n" using sub by (simp add: cell_ok_def new start_instances)
  with old have 2: "\<forall>(k, r) \<in> set (running ?s). cell_ok ?s k r" by (auto simp: al)
  have 3: "inst_auxiliary (instances ?s ! r) = Auxiliary (inst_sub (instances ?s ! r)) \<and>
        (inst_cancelled (instances ?s ! r) \<or> inst_done (instances ?s ! r) \<or>
         live_instance ?s (sub_Kind (inst_sub (instances ?s ! r))) = Some r)" if "r < length (instances ?s)" for r
  proof (cases "r = ?n")
    case False
    then have r: "r < ?n" using that by (simp add: start_instances)
    then show ?thesis using ok absent by (auto simp: supervisor_ok_def start_instances)
  qed (simp add: new)
  show ?thesis using 1 2 3 ok by (simp add: supervisor_ok_def)
qed

lemma stop_running:
  "live_instance s k = Some r \<Longrightarrow> running (stop_sub k r s) = AList.delete k (running s)"
  "instances (stop_sub k r s) = (instances s)[r := (instances s ! r)\<lparr> inst_cancelled := True \<rparr>]"
  by (simp_all add: stop_sub_def cancel_instance_def forget_instance_def live_instance_def)

lemma stop_live:
  "live_instance s k = Some r \<Longrightarrow> live_instance (stop_sub k r s) k' = (if k' = k then None else live_instance s k')"
  using stop_running(1) [of s k r] by (simp add: live_instance_def delete_conv')

text \<open>An instance that is not its kind's any more, or is told to stop, or ended.\<close>

lemma retire_ok:
  assumes ok: "supervisor_ok s" and live: "live_instance s k = Some r"
    and run: "running s' = AList.delete k (running s)" and cells: "instances s' = (instances s)[r := c]" and subs': "subs s' = subs s"
    and c: "inst_sub c = inst_sub (instances s ! r)" "inst_auxiliary c = inst_auxiliary (instances s ! r)" "inst_cancelled c \<or> inst_done c"
  shows "supervisor_ok s'"
proof -
  have r: "cell_ok s k r" by (rule supervisor_okD(1) [OF ok live])
  have al: "set (running s') = {e \<in> set (running s). fst e \<noteq> k}" "distinct (map fst (running s'))"
    using ok by (auto simp: run delete_filter supervisor_ok_def distinct_map inj_on_def)
  have live': "live_instance s' k' = (if k' = k then None else live_instance s k')" for k'
    by (simp add: live_instance_def run delete_conv')
  have "cell_ok s' k' r'" if "(k', r') \<in> set (running s')" for k' r'
  proof -
    have c': "cell_ok s k' r'" "k' \<noteq> k" using that al(1) ok by (auto simp: supervisor_ok_def)
    then have "r' \<noteq> r" using r by (auto simp: cell_ok_def)
    then show ?thesis using c' by (auto simp: cell_ok_def cells subs')
  qed
  moreover have "inst_auxiliary (instances s' ! r') = Auxiliary (inst_sub (instances s' ! r')) \<and>
        (inst_cancelled (instances s' ! r') \<or> inst_done (instances s' ! r') \<or>
         live_instance s' (sub_Kind (inst_sub (instances s' ! r'))) = Some r')" if "r' < length (instances s')" for r'
  proof (cases "r' = r")
    case True
    then show ?thesis using ok r c by (auto simp: cells supervisor_ok_def cell_ok_def)
  next
    case False
    then show ?thesis using ok that live by (auto simp: cells supervisor_ok_def live')
  qed
  ultimately show ?thesis using ok al(2) by (auto simp: supervisor_ok_def subs')
qed

lemma stop_ok:
  assumes "supervisor_ok s" "live_instance s k = Some r"
  shows "supervisor_ok (stop_sub k r s)"
  by (rule retire_ok [OF assms stop_running(1) [OF assms(2)] stop_running(2)]) simp_all

lemma apply_ok:
  assumes "supervisor_ok s" "sub \<in> set (subs s)"
  shows "supervisor_ok (apply_sub cfg sub s)"
proof (cases "live_instance s (sub_Kind sub)")
  case None
  then show ?thesis using assms start_ok by (auto simp: apply_sub_def Let_def)
next
  case (Some r)
  have "supervisor_ok (start_sub sub cfg (stop_sub (sub_Kind sub) r s))"
    by (rule start_ok) (use assms Some stop_ok stop_live [OF Some] in auto)
  then show ?thesis using assms Some stop_ok by (auto simp: apply_sub_def Let_def)
qed

lemma fold_ok:
  assumes "\<And>sub s. supervisor_ok s \<Longrightarrow> sub \<in> set (subs s) \<Longrightarrow> supervisor_ok (f sub s) \<and> subs (f sub s) = subs s"
  shows "supervisor_ok s \<Longrightarrow> set l \<subseteq> set (subs s) \<Longrightarrow> supervisor_ok (fold f l s) \<and> subs (fold f l s) = subs s"
proof (induction l arbitrary: s)
  case (Cons sub l)
  then have "supervisor_ok (f sub s) \<and> subs (f sub s) = subs s" using assms by simp
  with Cons show ?case by simp
qed simp

section \<open>At least one surface\<close>

lemma surfaces_start:
  assumes "supervisor_ok s" "live_instance s (sub_Kind sub) = None"
  shows "runningSurfaces (start_sub sub cfg s) = runningSurfaces s + (if Auxiliary sub then 0 else 1)"
proof -
  have al: "running (start_sub sub cfg s) = running s @ [(sub_Kind sub, length (instances s))]"
    using assms(2) by (simp add: start_sub_def live_instance_def update_absent Let_def)
  have "filter (\<lambda>(k, r). \<not> inst_auxiliary (instances (start_sub sub cfg s) ! r)) (running s) =
      filter (\<lambda>(k, r). \<not> inst_auxiliary (instances s ! r)) (running s)"
    using assms(1) by (intro filter_cong) (auto simp: supervisor_ok_def cell_ok_def start_instances)
  then show ?thesis by (simp add: runningSurfaces_def al) (simp add: start_sub_def Let_def)
qed

lemma surfaces_retire:
  assumes "supervisor_ok s" "live_instance s k = Some r" "running s' = AList.delete k (running s)"
    and "\<And>q. q < length (instances s) \<Longrightarrow> inst_auxiliary (instances s' ! q) = inst_auxiliary (instances s ! q)"
  shows "runningSurfaces s = runningSurfaces s' + (if inst_auxiliary (instances s ! r) then 0 else 1)"
proof -
  have "filter (\<lambda>(k, q). \<not> inst_auxiliary (instances s' ! q)) (running s') = filter (\<lambda>(k, q). \<not> inst_auxiliary (instances s ! q)) (running s')"
    using assms(1,3,4) by (intro filter_cong) (auto simp: delete_filter supervisor_ok_def cell_ok_def)
  then show ?thesis
    using length_filter_delete [of "running s" k r "\<lambda>(k, q). \<not> inst_auxiliary (instances s ! q)"] assms(1-3)
    by (simp add: runningSurfaces_def live_instance_def supervisor_ok_def)
qed

lemma surfaces_stop:
  assumes "supervisor_ok s" "sub \<in> set (subs s)" "live_instance s (sub_Kind sub) = Some r"
  shows "runningSurfaces s = runningSurfaces (stop_sub (sub_Kind sub) r s) + (if Auxiliary sub then 0 else 1)"
proof -
  have "inst_auxiliary (instances (stop_sub (sub_Kind sub) r s) ! q) = inst_auxiliary (instances s ! q)" for q
    using live_sub(2) [OF assms] by (cases "q = r") (simp_all add: stop_running)
  then show ?thesis
    using surfaces_retire [OF assms(1,3) stop_running(1) [OF assms(3)]] live_sub(3) [OF assms] by simp
qed

lemma surfaces_apply:
  assumes "supervisor_ok s" "sub \<in> set (subs s)" "1 \<le> runningSurfaces s"
  shows "1 \<le> runningSurfaces (apply_sub cfg sub s)"
proof (cases "live_instance s (sub_Kind sub)")
  case None
  then show ?thesis using assms(3) surfaces_start [OF assms(1) None, of cfg] by (simp add: apply_sub_def Let_def)
next
  case (Some r)
  let ?t = "stop_sub (sub_Kind sub) r s"
  note stop = surfaces_stop [OF assms(1,2) Some]
  have "runningSurfaces (start_sub sub cfg ?t) = runningSurfaces s"
    using surfaces_start [OF stop_ok [OF assms(1) Some], of sub cfg] stop_live [OF Some] stop by simp
  then show ?thesis using assms(3) Some stop by (auto simp: apply_sub_def Let_def)
qed

section \<open>Every reachable state\<close>

definition run_ok :: "'c run \<Rightarrow> bool" where
  "run_ok R \<longleftrightarrow> supervisor_ok (supv R) \<and>
     (\<forall>cfg rest. applying R = Some (cfg, rest) \<longrightarrow> set rest \<subseteq> set (subs (supv R))) \<and>
     (run_result R = None \<longrightarrow> 1 \<le> runningSurfaces (supv R)) \<and>
     (run_result R \<noteq> None \<longrightarrow> running (supv R) = [] \<and> ctx_done R)"

lemma surface_ends_ok:
  assumes ok: "run_ok R" and ends: "surface_ends r outcome R = Some R'"
  shows "run_ok R' \<and> subs (supv R') = subs (supv R)"
proof -
  let ?s = "supv R" and ?inst = "instances (supv R) ! r"
  have s: "supervisor_ok ?s" using ok by (simp add: run_ok_def)
  have r: "r < length (instances ?s)" using ends by (auto simp: surface_ends_def Let_def split: if_splits)
  define ended where "ended = ?s\<lparr> instances := (instances ?s)[r := ?inst\<lparr> inst_done := True \<rparr>] \<rparr>"
  have live: "live_instance ended k = live_instance ?s k" for k by (simp add: ended_def live_instance_def)
  have cells: "inst_auxiliary (instances ended ! q) = inst_auxiliary (instances ?s ! q)"
    "inst_sub (instances ended ! q) = inst_sub (instances ?s ! q)"
    "inst_cancelled (instances ended ! q) = inst_cancelled (instances ?s ! q)"
    "inst_done (instances ?s ! q) \<Longrightarrow> inst_done (instances ended ! q)" for q
    using r by (cases "q = r"; simp add: ended_def)+
  have "cell_ok ended k q = cell_ok ?s k q" for k q using cells by (simp add: cell_ok_def) (simp add: ended_def)
  then have ended_ok: "supervisor_ok ended"
    using s cells live unfolding supervisor_ok_def by (simp add: ended_def) blast
  have ended_n: "runningSurfaces ended = runningSurfaces ?s"
    unfolding runningSurfaces_def cells by (simp add: ended_def)
  have same: "subs ended = subs ?s" "running ended = running ?s" by (simp_all add: ended_def)
  define k where "k = sub_Kind (inst_sub ?inst)"
  have forget: "supervisor_ok (forget_instance k r ended) \<and> runningSurfaces (forget_instance k r ended) = runningSurfaces ?s"
    if aux: "Auxiliary (inst_sub ?inst)"
  proof (cases "live_instance ?s k = Some r")
    case True
    have run: "running (forget_instance k r ended) = AList.delete k (running ?s)"
      using True live by (simp add: forget_instance_def same)
    have i: "instances (forget_instance k r ended) = instances ended" "subs (forget_instance k r ended) = subs ?s"
      by (simp_all add: forget_instance_def same)
    have "inst_auxiliary ?inst" using aux s r by (simp add: supervisor_ok_def)
    then have n: "runningSurfaces (forget_instance k r ended) = runningSurfaces ?s"
      using surfaces_retire [OF s True run] by (simp add: i cells)
    have "supervisor_ok (forget_instance k r ended)"
      by (rule retire_ok [OF s True run, of "?inst\<lparr> inst_done := True \<rparr>"]) (simp_all add: i, simp add: ended_def)
    with n show ?thesis by simp
  next
    case False
    then show ?thesis using live ended_ok ended_n by (simp add: forget_instance_def)
  qed
  have fields: "subs (forget_instance k r ended) = subs ?s" "running ?s = [] \<Longrightarrow> running (forget_instance k r ended) = []"
    by (simp_all add: forget_instance_def same)
  from ends r consider "R' = R\<lparr> supv := ended \<rparr>" | "Auxiliary (inst_sub ?inst)" "R' = R\<lparr> supv := forget_instance k r ended \<rparr>"
    | f where "R' = R\<lparr> supv := ended, failures := f \<rparr>"
    by (auto simp: surface_ends_def Let_def ended_def [symmetric] k_def [symmetric] split: if_splits)
  then show ?thesis
    by cases (use ok ended_ok ended_n forget fields same in \<open>simp_all add: run_ok_def\<close>)
qed

lemma shutdown_live:
  assumes "supervisor_ok s" "set l \<subseteq> set (subs s)"
  defines "t \<equiv> fold (\<lambda>sub s. case live_instance s (sub_Kind sub) of None \<Rightarrow> s | Some r \<Rightarrow> stop_sub (sub_Kind sub) r s) l s"
  shows "supervisor_ok t \<and> subs t = subs s \<and> Restartable t = Restartable s \<and>
    (\<forall>k. live_instance t k = (if k \<in> sub_Kind ` set l then None else live_instance s k))"
  using assms(1,2) unfolding t_def
proof (induction l arbitrary: s)
  case (Cons sub l)
  show ?case
  proof (cases "live_instance s (sub_Kind sub)")
    case None
    then show ?thesis using Cons by auto
  next
    case (Some r)
    then show ?thesis
      using Cons.IH [of "stop_sub (sub_Kind sub) r s"] Cons.prems stop_ok [OF Cons.prems(1) Some] stop_live [OF Some] by auto
  qed
qed simp

lemma shutdown_ok:
  assumes "supervisor_ok s"
  shows "supervisor_ok (shutdown s)" "subs (shutdown s) = subs s" "Restartable (shutdown s) = Restartable s" "running (shutdown s) = []"
proof -
  note d = shutdown_live [OF assms, of "rev (subs s)", simplified, folded shutdown_def]
  then show "supervisor_ok (shutdown s)" "subs (shutdown s) = subs s" "Restartable (shutdown s) = Restartable s" by simp_all
  have "k \<in> sub_Kind ` set (subs s)" if "live_instance s k = Some r" for k r
    using supervisor_okD(1) [OF assms that] by (auto simp: cell_ok_def)
  then have "live_instance (shutdown s) k = None" for k using d by (cases "live_instance s k") auto
  then show "running (shutdown s) = []" by (cases "running (shutdown s)") (auto simp: live_instance_def split: if_splits, metis option.distinct(1))
qed

lemma run_step_ok:
  assumes "run_ok R" "run_step e R = Some R'"
  shows "run_ok R' \<and> subs (supv R') = subs (supv R) \<and> Restartable (supv R') = Restartable (supv R)"
proof (cases e)
  case (SurfaceEnds r outcome)
  moreover have "Restartable (supv R') = Restartable (supv R)" if "surface_ends r outcome R = Some R'"
    using that by (auto simp: surface_ends_def Let_def forget_instance_def split: if_splits)
  ultimately show ?thesis using surface_ends_ok assms by auto
next
  case SeesDone
  then show ?thesis using assms shutdown_ok [of "supv R"] by (auto simp: run_ok_def split: if_splits)
next
  case TakesFailure
  then show ?thesis using assms by (auto simp: run_ok_def split: if_splits list.splits)
next
  case (Reloads cfg)
  then show ?thesis
    using assms shutdown_ok [of "markApplied cfg (supv R)"]
    by (auto simp: run_ok_def split: if_splits apply_plan.splits)
next
  case AppliesNext
  then obtain cfg l where l: "applying R = Some (cfg, l)" "run_result R = None" "set l \<subseteq> set (subs (supv R))"
    using assms by (auto simp: run_ok_def split: if_splits option.splits)
  then show ?thesis
  proof (cases l)
    case (Cons sub rest)
    then have "R' = R\<lparr> supv := apply_sub cfg sub (supv R), applying := Some (cfg, rest) \<rparr>"
      using AppliesNext assms(2) l(1,2) by simp
    with assms(1) l Cons show ?thesis by (simp add: run_ok_def apply_ok surfaces_apply del: One_nat_def)
  qed (use AppliesNext assms in \<open>auto simp: run_ok_def\<close>)
qed (use assms in \<open>auto simp: run_ok_def\<close>)

lemma fold_start_if:
  assumes "supervisor_ok s" "set l \<subseteq> set (subs s)" "distinct (map sub_Kind l)" "\<And>sub. sub \<in> set l \<Longrightarrow> live_instance s (sub_Kind sub) = None"
  shows "supervisor_ok (fold (start_if cfg) l s) \<and> subs (fold (start_if cfg) l s) = subs s \<and>
    Restartable (fold (start_if cfg) l s) = Restartable s \<and> runningSurfaces (fold (start_if cfg) l s) =
      runningSurfaces s + length (filter (\<lambda>sub. sub_enabled sub cfg \<and> Available sub \<and> \<not> Auxiliary sub) l)"
  using assms
proof (induction l arbitrary: s)
  case (Cons sub l)
  have sub: "supervisor_ok (start_sub sub cfg s)"
    "runningSurfaces (start_sub sub cfg s) = runningSurfaces s + (if Auxiliary sub then 0 else 1)"
    using Cons.prems start_ok surfaces_start by force+
  have "live_instance (start_if cfg sub s) (sub_Kind q) = None" if "q \<in> set l" for q
    using Cons.prems that by (auto simp: start_if_def image_iff)
  then show ?case using Cons.IH [of "start_if cfg sub s"] Cons.prems sub by (auto simp: start_if_def)
qed simp

lemma resolve_loop_ok:
  "resolve_loop cfg out n keys auxil l = Inr res \<longleftrightarrow>
    (\<forall>sub \<in> set l. sub_enabled sub cfg \<longrightarrow> Available sub) \<and>
    n + length (filter (\<lambda>sub. sub_enabled sub cfg \<and> \<not> Auxiliary sub) l) > 0 \<and>
    res = out @ filter (\<lambda>sub. sub_enabled sub cfg) l"
  by (induction cfg out n keys auxil l rule: resolve_loop.induct) (auto simp: Let_def)

lemma Resolve_ok:
  "Resolve cfg l = Inr res \<longleftrightarrow> (\<forall>sub \<in> set l. sub_enabled sub cfg \<longrightarrow> Available sub) \<and>
    (\<exists>sub \<in> set l. sub_enabled sub cfg \<and> \<not> Auxiliary sub) \<and> res = filter (\<lambda>sub. sub_enabled sub cfg) l"
  by (auto simp: Resolve_def resolve_loop_ok filter_empty_conv)

lemma run_start_ok:
  assumes "distinct (map sub_Kind descriptors)" "Resolve cfg descriptors = Inr chosen"
  shows "run_ok (run_start (NewSupervisor descriptors restartable sessionless) cfg)"
    "subs (supv (run_start (NewSupervisor descriptors restartable sessionless) cfg)) = descriptors"
    "Restartable (supv (run_start (NewSupervisor descriptors restartable sessionless) cfg)) = restartable"
proof -
  let ?s = "NewSupervisor descriptors restartable sessionless"
  have "supervisor_ok ?s" using assms(1) by (simp add: supervisor_ok_def NewSupervisor_def)
  then have t: "supervisor_ok (fold (start_if cfg) (subs ?s) ?s) \<and> subs (fold (start_if cfg) (subs ?s) ?s) = subs ?s \<and>
      Restartable (fold (start_if cfg) (subs ?s) ?s) = Restartable ?s \<and>
      runningSurfaces (fold (start_if cfg) (subs ?s) ?s) =
        runningSurfaces ?s + length (filter (\<lambda>sub. sub_enabled sub cfg \<and> Available sub \<and> \<not> Auxiliary sub) (subs ?s))"
    using assms(1) by (intro fold_start_if) (simp_all add: NewSupervisor_def live_instance_def)
  have "filter (\<lambda>sub. sub_enabled sub cfg \<and> Available sub \<and> \<not> Auxiliary sub) (subs ?s) \<noteq> []"
    using assms(2) by (auto simp: Resolve_ok NewSupervisor_def filter_empty_conv)
  then have "1 \<le> length (filter (\<lambda>sub. sub_enabled sub cfg \<and> Available sub \<and> \<not> Auxiliary sub) (subs ?s))"
    by (simp add: Suc_le_eq)
  with t show "run_ok (run_start ?s cfg)" "subs (supv (run_start ?s cfg)) = descriptors" "Restartable (supv (run_start ?s cfg)) = restartable"
    by (simp_all add: run_ok_def run_start_def) (simp_all add: NewSupervisor_def)
qed

lemma run_reaches_ok:
  "run_reaches R R' \<Longrightarrow> run_ok R \<Longrightarrow> run_ok R' \<and> subs (supv R') = subs (supv R) \<and> Restartable (supv R') = Restartable (supv R)"
proof (induction rule: run_reaches.induct)
  case (run_next R R' e R'')
  then show ?case using run_step_ok [of R' e R''] by simp
qed simp

end
