(* ===== verification/Serve_Reload.thy ===== *)
theory Serve_Reload
  imports Serve_Correct
begin

text \<open>
  What a reload brings about, subsystem by subsystem; why a process ends; what a status foretells;
  and the dispatcher's pauses.
\<close>

section \<open>Subsystems do not touch each other\<close>

lemma apply_other:
  assumes "supervisor_ok s" "sub \<in> set (subs s)" "k \<noteq> sub_Kind sub"
  shows "live_instance (apply_sub cfg sub s) k = live_instance s k"
    "live_instance s k = Some r \<Longrightarrow> instances (apply_sub cfg sub s) ! r = instances s ! r"
proof -
  show "live_instance (apply_sub cfg sub s) k = live_instance s k"
    using assms(3) stop_live [of s "sub_Kind sub"] by (auto simp: apply_sub_def Let_def split: option.split)
  assume live: "live_instance s k = Some r"
  then have r: "cell_ok s k r" by (rule supervisor_okD [OF assms(1)])
  have "instances (start_sub sub cfg s) ! r = instances s ! r" using r by (simp add: cell_ok_def start_instances)
  moreover have "instances (stop_sub (sub_Kind sub) q s) ! r = instances s ! r \<and>
      instances (start_sub sub cfg (stop_sub (sub_Kind sub) q s)) ! r = instances s ! r"
    if "live_instance s (sub_Kind sub) = Some q" for q
  proof -
    have "q \<noteq> r" using r supervisor_okD(1) [OF assms(1) that] assms(3) by (auto simp: cell_ok_def)
    then show ?thesis using r by (simp add: cell_ok_def start_instances stop_running)
  qed
  ultimately show "instances (apply_sub cfg sub s) ! r = instances s ! r"
    by (auto simp: apply_sub_def Let_def split: option.split)
qed

lemma fold_apply_ok:
  "supervisor_ok s \<Longrightarrow> set l \<subseteq> set (subs s) \<Longrightarrow>
    supervisor_ok (fold (apply_sub cfg) l s) \<and> subs (fold (apply_sub cfg) l s) = subs s \<and>
    Sessionless (fold (apply_sub cfg) l s) = Sessionless s"
  by (induction l arbitrary: s) (simp_all add: apply_ok)

lemma fold_apply_other:
  assumes "supervisor_ok s" "set l \<subseteq> set (subs s)" "k \<notin> sub_Kind ` set l"
  shows "live_instance (fold (apply_sub cfg) l s) k = live_instance s k \<and>
    (\<forall>r. live_instance s k = Some r \<longrightarrow> instances (fold (apply_sub cfg) l s) ! r = instances s ! r)"
  using assms
proof (induction l arbitrary: s)
  case (Cons sub l)
  have "supervisor_ok (apply_sub cfg sub s)" using Cons.prems by (simp add: apply_ok)
  with Cons apply_other [OF Cons.prems(1), of sub k] show ?case by simp
qed simp

text \<open>The state in which a subsystem has its turn.\<close>

lemma fold_turn:
  assumes ok: "supervisor_ok s" and subs: "subs s = pre @ sub # post"
  defines "t \<equiv> \<lambda>cfg. fold (apply_sub cfg) pre s" and "s' \<equiv> \<lambda>cfg. fold (apply_sub cfg) (subs s) s"
  shows "supervisor_ok (t cfg)" "subs (t cfg) = subs s" "Sessionless (t cfg) = Sessionless s"
    "live_instance (t cfg) (sub_Kind sub) = live_instance s (sub_Kind sub)"
    "live_instance s (sub_Kind sub) = Some r \<Longrightarrow> instances (t cfg) ! r = instances s ! r"
    "live_instance (s' cfg) (sub_Kind sub) = live_instance (apply_sub cfg sub (t cfg)) (sub_Kind sub)"
    "live_instance (s' cfg) (sub_Kind sub) = Some r \<Longrightarrow> instances (s' cfg) ! r = instances (apply_sub cfg sub (t cfg)) ! r"
    "q \<in> set pre \<Longrightarrow> live_instance (s' cfg) (sub_Kind q) = live_instance (t cfg) (sub_Kind q)"
    "q \<in> set post \<Longrightarrow> live_instance (t cfg) (sub_Kind q) = live_instance s (sub_Kind q)"
proof -
  have d: "distinct (map sub_Kind (pre @ sub # post))" using ok by (simp add: supervisor_ok_def flip: subs)
  have t: "supervisor_ok (t cfg) \<and> subs (t cfg) = subs s \<and> Sessionless (t cfg) = Sessionless s"
    unfolding t_def by (rule fold_apply_ok) (use ok subs in auto)
  then show "supervisor_ok (t cfg)" "subs (t cfg) = subs s" "Sessionless (t cfg) = Sessionless s" by simp_all
  have a: "supervisor_ok (apply_sub cfg sub (t cfg))" using t subs by (simp add: apply_ok)
  have pre: "live_instance (t cfg) k = live_instance s k \<and> (\<forall>r. live_instance s k = Some r \<longrightarrow> instances (t cfg) ! r = instances s ! r)"
    if "k \<notin> sub_Kind ` set pre" for k
    unfolding t_def by (rule fold_apply_other) (use ok subs that in auto)
  then show "live_instance (t cfg) (sub_Kind sub) = live_instance s (sub_Kind sub)"
    "live_instance s (sub_Kind sub) = Some r \<Longrightarrow> instances (t cfg) ! r = instances s ! r"
    using d by auto
  have s': "s' cfg = fold (apply_sub cfg) post (apply_sub cfg sub (t cfg))" by (simp add: s'_def t_def subs)
  have post: "live_instance (s' cfg) k = live_instance (apply_sub cfg sub (t cfg)) k \<and>
      (\<forall>r. live_instance (apply_sub cfg sub (t cfg)) k = Some r \<longrightarrow> instances (s' cfg) ! r = instances (apply_sub cfg sub (t cfg)) ! r)"
    if "k \<notin> sub_Kind ` set post" for k
    unfolding s' by (rule fold_apply_other) (use a t subs that in auto)
  have sub: "sub_Kind sub \<notin> sub_Kind ` set post" using d by auto
  then show "live_instance (s' cfg) (sub_Kind sub) = live_instance (apply_sub cfg sub (t cfg)) (sub_Kind sub)"
    "live_instance (s' cfg) (sub_Kind sub) = Some r \<Longrightarrow> instances (s' cfg) ! r = instances (apply_sub cfg sub (t cfg)) ! r"
    using post [OF sub] by auto
  show "live_instance (s' cfg) (sub_Kind q) = live_instance (t cfg) (sub_Kind q)" if "q \<in> set pre"
  proof -
    have q: "sub_Kind q \<notin> sub_Kind ` set post" "sub_Kind q \<noteq> sub_Kind sub" using that d by (auto simp: image_iff)
    have "live_instance (s' cfg) (sub_Kind q) = live_instance (apply_sub cfg sub (t cfg)) (sub_Kind q)"
      using post [OF q(1)] by simp
    also have "\<dots> = live_instance (t cfg) (sub_Kind q)"
      by (rule apply_other(1)) (use t subs q(2) in auto)
    finally show ?thesis .
  qed
  show "live_instance (t cfg) (sub_Kind q) = live_instance s (sub_Kind q)" if "q \<in> set post"
  proof -
    have "sub_Kind q \<notin> sub_Kind ` set pre" using that d by (force simp: image_iff)
    then show ?thesis using pre by blast
  qed
qed

section \<open>One subsystem's turn\<close>

lemma start_cell: "instances (start_sub sub cfg s) ! length (instances s) =
  \<lparr> inst_sub = sub, inst_cancelled = False, inst_done = False, inst_fingerprint = sub_fingerprint sub cfg,
    inst_restartKey = sub_restartKey sub cfg, inst_address = sub_address sub cfg, inst_auxiliary = Auxiliary sub \<rparr>"
  by (simp add: start_sub_def Let_def)

definition runnable :: "'c supervisor \<Rightarrow> 'c subsystem \<Rightarrow> bool" where
  "runnable s sub \<longleftrightarrow> Available sub \<and> \<not> (NeedsSessions sub \<and> Sessionless s)"

definition unchanged :: "'c option \<Rightarrow> 'c supervisor \<Rightarrow> 'c subsystem \<Rightarrow> nat \<Rightarrow> bool" where
  "unchanged cfg s sub r \<longleftrightarrow> sub_restartKey sub cfg \<noteq> inst_restartKey (instances s ! r) \<or>
     Fingerprint sub = None \<or> sub_fingerprint sub cfg = inst_fingerprint (instances s ! r)"

lemma turn_wanted:
  assumes "sub_enabled sub cfg"
  shows "case live_instance s (sub_Kind sub) of
      None \<Rightarrow>
        (case live_instance (apply_sub cfg sub s) (sub_Kind sub) of
           None \<Rightarrow> \<not> runnable s sub
         | Some q \<Rightarrow> runnable s sub \<and> inst_fingerprint (instances (apply_sub cfg sub s) ! q) = sub_fingerprint sub cfg \<and>
             inst_restartKey (instances (apply_sub cfg sub s) ! q) = sub_restartKey sub cfg)
    | Some r \<Rightarrow>
        if unchanged cfg s sub r
        then live_instance (apply_sub cfg sub s) (sub_Kind sub) = Some r \<and> instances (apply_sub cfg sub s) ! r = instances s ! r
        else (\<exists>q. live_instance (apply_sub cfg sub s) (sub_Kind sub) = Some q \<and>
          inst_fingerprint (instances (apply_sub cfg sub s) ! q) = sub_fingerprint sub cfg \<and>
          inst_restartKey (instances (apply_sub cfg sub s) ! q) = sub_restartKey sub cfg)"
proof (cases "live_instance s (sub_Kind sub)")
  case None
  then show ?thesis using assms by (auto simp: apply_sub_def Let_def runnable_def start_cell)
next
  case (Some r)
  then show ?thesis using assms by (auto simp: apply_sub_def Let_def unchanged_def start_cell)
qed

lemma turn_unwanted:
  assumes "\<not> sub_enabled sub cfg" "live_instance (apply_sub cfg sub s) (sub_Kind sub) = Some r"
  shows "live_instance s (sub_Kind sub) = Some r" "\<not> Auxiliary sub" "runningSurfaces s = 1"
  using assms stop_live [of s "sub_Kind sub"] by (auto simp: apply_sub_def Let_def split: option.splits if_splits)

lemma only_surface:
  assumes ok: "supervisor_ok s" and "runningSurfaces s = 1"
    and "sub \<in> set (subs s)" "\<not> Auxiliary sub" "live_instance s (sub_Kind sub) = Some r"
    and "q \<in> set (subs s)" "\<not> Auxiliary q" "live_instance s (sub_Kind q) = Some r'"
  shows "q = sub"
proof (rule same_kind [OF ok assms(6,3)], rule ccontr)
  assume ne: "sub_Kind q \<noteq> sub_Kind sub"
  have "(sub_Kind sub, r) \<in> set (running s)" "(sub_Kind q, r') \<in> set (running s)"
    using supervisor_okD(2) [OF ok] assms(5,8) by auto
  moreover have "\<not> inst_auxiliary (instances s ! r)" "\<not> inst_auxiliary (instances s ! r')"
    using live_sub(3) [OF ok] assms(3-8) by auto
  ultimately have "{(sub_Kind sub, r), (sub_Kind q, r')} \<subseteq> set (filter (\<lambda>(k, r). \<not> inst_auxiliary (instances s ! r)) (running s))"
    by auto
  then have "card {(sub_Kind sub, r), (sub_Kind q, r')} \<le> card (set (filter (\<lambda>(k, r). \<not> inst_auxiliary (instances s ! r)) (running s)))"
    by (intro card_mono) simp_all
  also have "\<dots> \<le> runningSurfaces s" unfolding runningSurfaces_def by (rule card_length)
  finally show False using ne assms(2) by auto
qed

section \<open>What the whole process promises\<close>

text \<open>
  However surfaces fail and configurations come in, the supervisor's table is sound: it has one
  entry per subsystem, naming an instance of that very subsystem that was not told to stop; every
  other instance was told to stop or has ended; and once \<^verbatim>\<open>Run\<close> has returned there is no entry left.
\<close>
theorem one_instance_each:
  assumes "distinct (map sub_Kind descriptors)" "Resolve cfg descriptors = Inr chosen"
    and "run_reaches (run_start (NewSupervisor descriptors restartable sessionless) cfg) R"
  shows "distinct (map fst (running (supv R))) \<and>
    (\<forall>(kind, r) \<in> set (running (supv R)). r < length (instances (supv R)) \<and>
      inst_sub (instances (supv R) ! r) \<in> set descriptors \<and> sub_Kind (inst_sub (instances (supv R) ! r)) = kind \<and>
      \<not> inst_cancelled (instances (supv R) ! r)) \<and>
    (\<forall>r < length (instances (supv R)). inst_cancelled (instances (supv R) ! r) \<or> inst_done (instances (supv R) ! r) \<or>
      live_instance (supv R) (sub_Kind (inst_sub (instances (supv R) ! r))) = Some r) \<and>
    (run_result R \<noteq> None \<longrightarrow> running (supv R) = [])"
proof -
  have "run_ok R \<and> subs (supv R) = descriptors"
    using run_reaches_ok [OF assms(3)] run_start_ok [OF assms(1,2)] by simp
  then have "supervisor_ok (supv R)" "subs (supv R) = descriptors" "run_result R \<noteq> None \<longrightarrow> running (supv R) = []"
    by (auto simp: run_ok_def)
  then show ?thesis by (auto simp: supervisor_ok_def cell_ok_def)
qed


text \<open>Why a process ends.\<close>

definition from_surface :: "'c supervisor \<Rightarrow> bytes \<times> bytes \<Rightarrow> bool" where
  "from_surface s err \<longleftrightarrow> (\<exists>sub \<in> set (subs s). \<not> Auxiliary sub \<and> sub_Kind sub = fst err)"

definition end_ok :: "'c run \<Rightarrow> bool" where
  "end_ok R \<longleftrightarrow> list_all (from_surface (supv R)) (failures R) \<and>
     (\<forall>err. runErr R = Some err \<longrightarrow> from_surface (supv R) err) \<and>
     (\<forall>err. run_result R = Some (RunEnded (Some err)) \<longrightarrow> from_surface (supv R) err) \<and>
     (run_result R = Some ErrRestartRequested \<longrightarrow> Restartable (supv R) \<and> canRunFresh (supv R) (applied (supv R)))"

lemma shutdown_applied: "applied (shutdown s) = applied s"
proof -
  have "applied (fold (\<lambda>sub s. case live_instance s (sub_Kind sub) of None \<Rightarrow> s | Some r \<Rightarrow> stop_sub (sub_Kind sub) r s) l s) = applied s" for l
    by (induction l arbitrary: s) (auto simp: stop_sub_def cancel_instance_def forget_instance_def split: option.split)
  then show ?thesis by (simp add: shutdown_def)
qed

lemma end_step:
  assumes ok: "run_ok R" and e: "end_ok R" and step: "run_step e R = Some R'"
  shows "end_ok R'"
proof -
  note keep = run_step_ok [OF ok step]
  have from_same: "from_surface (supv R') = from_surface (supv R)" using keep by (simp add: from_surface_def fun_eq_iff)
  show ?thesis
  proof (cases e)
    case (SurfaceEnds r outcome)
    have r: "r < length (instances (supv R))" "surface_ends r outcome R = Some R'"
      using step SurfaceEnds by (auto simp: surface_ends_def Let_def split: if_splits)
    have same: "applied (supv R') = applied (supv R)" "run_result R' = run_result R" "runErr R' = runErr R"
      using r(2) by (auto simp: surface_ends_def Let_def forget_instance_def split: if_splits)
    have "inst_sub (instances (supv R) ! r) \<in> set (subs (supv R))"
      if "\<not> inst_cancelled (instances (supv R) ! r)" "\<not> inst_done (instances (supv R) ! r)"
      using ok r(1) that supervisor_okD(1) unfolding run_ok_def supervisor_ok_def cell_ok_def by blast
    then have "failures R' = failures R \<or> (\<exists>f. from_surface (supv R) f \<and> failures R' = failures R @ [f])"
      using r(2) by (auto simp: surface_ends_def Let_def from_surface_def split: if_splits)
    then show ?thesis using e same keep by (auto simp: end_ok_def from_same canRunFresh_def)
  next
    case (Reloads cfg)
    have sh: "applied (shutdown (markApplied cfg (supv R))) = cfg" by (simp add: shutdown_applied) (simp add: markApplied_def)
    have "subs (shutdown (markApplied cfg (supv R))) = subs (supv R)" "Restartable (shutdown (markApplied cfg (supv R))) = Restartable (supv R)"
      using ok shutdown_ok [of "markApplied cfg (supv R)"] by (simp_all add: run_ok_def)
    then have "Restartable (supv R) \<Longrightarrow> canRunFresh (supv R) cfg \<Longrightarrow>
        Restartable (shutdown (markApplied cfg (supv R))) \<and> canRunFresh (shutdown (markApplied cfg (supv R))) cfg"
      by (simp add: canRunFresh_def)
    then show ?thesis
      using e step Reloads from_same sh
      by (auto simp: end_ok_def plan_config_def split: if_splits option.splits)
  next
    case TakesFailure
    then show ?thesis using e step by (auto simp: end_ok_def split: if_splits list.splits)
  next
    case SeesDone
    then show ?thesis using e step from_same by (auto simp: end_ok_def split: if_splits)
  next
    case AppliesNext
    then show ?thesis using e step from_same by (auto simp: end_ok_def split: if_splits option.splits list.splits)
  qed (use e step in \<open>auto simp: end_ok_def\<close>)
qed

lemma end_reaches: "run_reaches R R' \<Longrightarrow> run_ok R \<Longrightarrow> end_ok R \<Longrightarrow> end_ok R'"
proof (induction rule: run_reaches.induct)
  case (run_next R R' e R'')
  then show ?case using run_reaches_ok [of R R'] end_step [of R' e R''] by simp
qed simp

text \<open>
  A process ends with an error only because a surface that is not auxiliary failed, which the
  error names; and it asks to be restarted only when a dispatcher stands behind it and the
  pre-flight of the new process accepts the configuration that was written.
\<close>
theorem process_end_reasons:
  assumes "distinct (map sub_Kind descriptors)" "Resolve cfg descriptors = Inr chosen"
    and "run_reaches (run_start (NewSupervisor descriptors restartable sessionless) cfg) R"
  shows "case run_result R of
      Some (RunEnded (Some err)) \<Rightarrow> \<exists>sub \<in> set descriptors. \<not> Auxiliary sub \<and> sub_Kind sub = fst err
    | Some ErrRestartRequested \<Rightarrow> restartable \<and> (\<exists>chosen'. Resolve (applied (supv R)) descriptors = Inr chosen')
    | _ \<Rightarrow> True"
proof -
  note start = run_start_ok [OF assms(1,2), where restartable = restartable and sessionless = sessionless]
  have "end_ok (run_start (NewSupervisor descriptors restartable sessionless) cfg)" by (simp add: end_ok_def run_start_def)
  then have "end_ok R" "subs (supv R) = descriptors" "Restartable (supv R) = restartable"
    using end_reaches [OF assms(3) start(1)] run_reaches_ok [OF assms(3) start(1)] start(2,3) by simp_all
  then show ?thesis
    by (auto simp: end_ok_def from_surface_def canRunFresh_def split: option.splits run_result.splits sum.splits)
qed

text \<open>
  What a reload brings about, subsystem by subsystem, when nothing fails meanwhile and no fresh
  process is needed or to be had. A wanted subsystem that was not running runs, on the new
  configuration, exactly when this process can run it; one that was running stays the very same
  instance unless its settings moved, and then runs on the new ones, except that a listener whose
  address moved is left as it is. One that is not wanted is stopped; the exception is a surface
  beside which no other ran that this reload did not itself start.
\<close>
theorem reload_settles:
  assumes "supervisor_ok s" "plan_config s (Some c) = ApplyEach" "applyConfig (Some c) s = (restart, s')" "sub \<in> set (subs s)"
  shows "\<not> restart \<and> applied s' = Some c \<and>
    (if sub_enabled sub (Some c) then
       (case live_instance s (sub_Kind sub) of
          None \<Rightarrow>
            (case live_instance s' (sub_Kind sub) of
               None \<Rightarrow> \<not> runnable s sub
             | Some q \<Rightarrow> runnable s sub \<and> inst_fingerprint (instances s' ! q) = sub_fingerprint sub (Some c) \<and>
                 inst_restartKey (instances s' ! q) = sub_restartKey sub (Some c))
        | Some r \<Rightarrow>
            if unchanged (Some c) s sub r
            then live_instance s' (sub_Kind sub) = Some r \<and> instances s' ! r = instances s ! r
            else (\<exists>q. live_instance s' (sub_Kind sub) = Some q \<and>
              inst_fingerprint (instances s' ! q) = sub_fingerprint sub (Some c) \<and>
              inst_restartKey (instances s' ! q) = sub_restartKey sub (Some c)))
     else
       (case live_instance s' (sub_Kind sub) of
          None \<Rightarrow> True
        | Some r \<Rightarrow> live_instance s (sub_Kind sub) = Some r \<and> \<not> Auxiliary sub \<and>
            (\<forall>q \<in> set (subs s). q \<noteq> sub \<and> \<not> Auxiliary q \<and> live_instance s' (sub_Kind q) \<noteq> None \<longrightarrow>
               live_instance s (sub_Kind q) = None)))"
proof -
  obtain pre post where subs: "subs s = pre @ sub # post" using split_list [OF assms(4)] by auto
  define t where "t = fold (apply_sub (Some c)) pre s"
  define u where "u = fold (apply_sub (Some c)) (subs s) s"
  note turn = fold_turn [OF assms(1) subs, where cfg = "Some c", folded t_def u_def]
  have s': "\<not> restart" "s' = markApplied (Some c) u" using assms(2,3) by (auto simp: applyConfig_def u_def)
  then have view: "live_instance s' k = live_instance u k" "instances s' = instances u" for k by (simp_all add: live_instance_def)
  have ap: "\<not> restart" "applied s' = Some c" using s' by (simp_all add: markApplied_def)
  have same: "runnable t = runnable s" using turn(3) by (simp add: runnable_def fun_eq_iff)
  have "sub_enabled sub (Some c) \<Longrightarrow> ?thesis"
  proof -
    assume want: "sub_enabled sub (Some c)"
    note w = turn_wanted [OF want, of t]
    show ?thesis
    proof (cases "live_instance s (sub_Kind sub)")
      case None
      then show ?thesis
        using w want ap turn(4,6,7) by (auto simp: view same split: option.splits)
    next
      case (Some r)
      have u: "unchanged (Some c) t sub r = unchanged (Some c) s sub r" using turn(5) [OF Some] by (simp add: unchanged_def)
      show ?thesis
        using w want ap Some turn(4,6,7) turn(5) [OF Some]
        by (auto simp: view u split: if_splits)
    qed
  qed
  moreover have "\<not> sub_enabled sub (Some c) \<Longrightarrow> ?thesis"
  proof -
    assume no: "\<not> sub_enabled sub (Some c)"
    have others: "live_instance s (sub_Kind q) = None"
      if "live_instance s' (sub_Kind sub) = Some r" "q \<in> set (subs s)" "q \<noteq> sub" "\<not> Auxiliary q" "live_instance s' (sub_Kind q) = Some r'" for r q r'
    proof -
      have a: "live_instance (apply_sub (Some c) sub t) (sub_Kind sub) = Some r" using that(1) turn(6) by (simp add: view)
      note k = turn_unwanted [OF no a]
      have out: "live_instance t (sub_Kind q) = None"
      proof (rule ccontr)
        assume "live_instance t (sub_Kind q) \<noteq> None"
        then obtain p where "live_instance t (sub_Kind q) = Some p" by auto
        then have "q = sub" using only_surface [OF turn(1) k(3) _ k(2,1) _ that(4)] assms(4) that(2) turn(2) by simp
        with that(3) show False ..
      qed
      have "q \<in> set pre \<or> q \<in> set post" using that(2,3) subs by auto
      then show ?thesis
        using out turn(8,9) [of q] that(5) by (auto simp: view)
    qed
    have "live_instance s (sub_Kind sub) = Some r \<and> \<not> Auxiliary sub" if "live_instance s' (sub_Kind sub) = Some r" for r
      using turn_unwanted [OF no, of t r] that turn(4,6) by (simp add: view)
    then show ?thesis using others no ap by (auto split: option.split)
  qed
  ultimately show ?thesis by blast
qed

text \<open>
  What the status page says is what a reload does: a restart by hand is required exactly when the
  configuration needs a fresh process and handing it to the supervisor would not restart this one,
  and the page gives the pre-flight's refusal exactly when the supervisor has a dispatcher behind
  it and would refuse the configuration whole.
\<close>
theorem status_foretells_reload:
  "case supervisor_Status s (Some c) of (table, required, refused) \<Rightarrow>
     (required \<longleftrightarrow> needsFreshProcess s (Some c) \<noteq> None \<and> \<not> fst (applyConfig (Some c) s)) \<and>
     (refused \<noteq> [] \<longleftrightarrow> Restartable s \<and> plan_config s (Some c) = ApplyRefused) \<and>
     (plan_config s (Some c) = ApplyRefused \<longrightarrow> applyConfig (Some c) s = (False, s\<lparr> applied := Some c \<rparr>))"
proof -
  have row: "snd (status_row s live sub) \<longleftrightarrow> fresh_needed s live sub" for live and sub :: "'a subsystem"
    by (auto simp: status_row_def fresh_needed_def Let_def split: option.split)
  have pending: "list_ex snd (map (status_row s live) (subs s)) \<longleftrightarrow> needsFreshProcess s live \<noteq> None" for live
    by (auto simp: list_ex_iff row needsFreshProcess_def find_None_iff)
  have message: "resolve_message e \<noteq> []" for e by (cases e) (auto simp: Let_def)
  show ?thesis
    unfolding supervisor_Status_def Let_def pending
    by (auto simp: applyConfig_def plan_config_def canRunFresh_def markApplied_def message split: option.split sum.split)
qed

section \<open>The dispatcher\<close>

lemma normalized_bounds:
  "0 < rp_Min (policy_normalized p)" "rp_Min (policy_normalized p) \<le> rp_Max (policy_normalized p)" "0 < rp_Steady (policy_normalized p)"
  by (simp_all add: policy_normalized_def Let_def defaultRestartMin_def defaultRestartMax_def defaultRestartSteady_def)

lemma double_id: "0 \<le> x \<Longrightarrow> x < 2 ^ 62 \<Longrightarrow> wrap64 (x * 2) = x * 2"
  by (simp add: in_int64_def)

lemma policy_next_bounds:
  assumes "0 < rp_Min p" "rp_Min p \<le> rp_Max p" "rp_Max p < 2 ^ 62" "prev = 0 \<or> rp_Min p \<le> prev \<and> prev \<le> rp_Max p"
  shows "rp_Min p \<le> policy_next p prev \<and> policy_next p prev \<le> rp_Max p"
  using assms double_id [of prev] by (auto simp: policy_next_def Let_def)

lemma wait_after_bounds:
  assumes "0 < rp_Min p" "rp_Min p \<le> rp_Max p" "rp_Max p < 2 ^ 62" "wait = 0 \<or> rp_Min p \<le> wait \<and> wait \<le> rp_Max p"
  shows "if life_code w = ExitRestart then wait_after p wait w = 0 else rp_Min p \<le> wait_after p wait w \<and> wait_after p wait w \<le> rp_Max p"
  using assms policy_next_bounds by (auto simp: wait_after_def)

lemma dispatcher_bounds:
  assumes p: "0 < rp_Min p" "rp_Min p \<le> rp_Max p" "rp_Max p < 2 ^ 62"
  shows "wait = 0 \<or> rp_Min p \<le> wait \<and> wait \<le> rp_Max p \<Longrightarrow> dispatcher_run p wait lives = (pauses, ended) \<Longrightarrow>
    (\<forall>d \<in> set pauses. rp_Min p \<le> d \<and> d \<le> rp_Max p) \<and>
    (ended \<longleftrightarrow> (\<exists>w \<in> set lives. life_ctx_ended w \<or> clean_exit w \<or> life_pause_cut w \<and> life_code w \<noteq> ExitRestart))"
proof (induction lives arbitrary: wait pauses ended)
  case (Cons w lives)
  define d where "d = wait_after p wait w"
  have d: "if life_code w = ExitRestart then d = 0 else rp_Min p \<le> d \<and> d \<le> rp_Max p"
    unfolding d_def by (rule wait_after_bounds [OF p Cons.prems(1)])
  obtain ps e where rest: "dispatcher_run p d lives = (ps, e)" by fastforce
  have IH: "(\<forall>d \<in> set ps. rp_Min p \<le> d \<and> d \<le> rp_Max p) \<and>
      (e \<longleftrightarrow> (\<exists>w \<in> set lives. life_ctx_ended w \<or> clean_exit w \<or> life_pause_cut w \<and> life_code w \<noteq> ExitRestart))"
    by (rule Cons.IH [OF _ rest]) (use d in \<open>auto split: if_splits\<close>)
  have pos: "d > 0 \<longleftrightarrow> life_code w \<noteq> ExitRestart" using d p(1) by (auto split: if_splits)
  show ?case
  proof (cases "life_ctx_ended w \<or> clean_exit w")
    case False
    then have run: "(pauses, ended) = (if 0 < d \<and> life_pause_cut w then ([d], True) else (if 0 < d then d # ps else ps, e))"
      using Cons.prems(2) unfolding dispatcher_run.simps Let_def d_def [symmetric] rest by (auto split: if_splits)
    show ?thesis
    proof (cases "life_code w = ExitRestart")
      case True
      with run d pos have "pauses = ps" "ended = e" by simp_all
      with IH True False show ?thesis by simp
    next
      case code: False
      then have "rp_Min p \<le> d \<and> d \<le> rp_Max p" "0 < d" using d pos by simp_all
      with run IH code False show ?thesis by (cases "life_pause_cut w") simp_all
    qed
  next
    case True
    then have "pauses = []" "ended" using Cons.prems(2) by (auto split: if_splits)
    with True show ?thesis by auto
  qed
qed simp

lemma dispatcher_pauses:
  assumes p: "0 < rp_Min p" "rp_Min p \<le> rp_Max p" "rp_Max p < 2 ^ 62"
  shows "dispatcher_run p wait lives = (pauses, False) \<Longrightarrow> wait = 0 \<or> rp_Min p \<le> wait \<and> wait \<le> rp_Max p \<Longrightarrow>
      length pauses = length (filter (\<lambda>w. life_code w \<noteq> ExitRestart) lives)"
proof (induction lives arbitrary: wait pauses)
  case (Cons w lives)
  define d where "d = wait_after p wait w"
  have d: "if life_code w = ExitRestart then d = 0 else rp_Min p \<le> d \<and> d \<le> rp_Max p"
    unfolding d_def by (rule wait_after_bounds [OF p Cons.prems(2)])
  obtain ps e where rest: "dispatcher_run p d lives = (ps, e)" by fastforce
  have run: "(pauses, False) = (if life_ctx_ended w \<or> clean_exit w then ([], True)
      else if 0 < d \<and> life_pause_cut w then ([d], True) else (if 0 < d then d # ps else ps, e))"
    using Cons.prems(1) unfolding dispatcher_run.simps Let_def d_def [symmetric] rest by (simp split: if_splits)
  then have e: "\<not> e" "pauses = (if 0 < d then d # ps else ps)" by (auto split: if_splits)
  have "length ps = length (filter (\<lambda>w. life_code w \<noteq> ExitRestart) lives)"
    by (rule Cons.IH [of d]) (use rest e d in \<open>auto split: if_splits\<close>)
  moreover have "d > 0 \<longleftrightarrow> life_code w \<noteq> ExitRestart" using d p(1) by (auto split: if_splits)
  ultimately show ?case using e(2) by simp
qed simp

text \<open>
  The dispatcher never gives up and never spins: whatever its workers do, it returns only because
  the context ended, a worker exited cleanly or a pause was cut short, and every pause it makes is
  at least the policy's minimum and at most its maximum, with no pause only for a worker that
  asked to be replaced.
\<close>
theorem dispatcher_persists:
  assumes "rp_Max (policy_normalized policy) < 2 ^ 62" "Dispatcher_Run policy lives = (pauses, ended)"
  shows "(\<forall>d \<in> set pauses. rp_Min (policy_normalized policy) \<le> d \<and> d \<le> rp_Max (policy_normalized policy)) \<and>
    (ended \<longleftrightarrow> (\<exists>w \<in> set lives. life_ctx_ended w \<or> clean_exit w \<or> life_pause_cut w \<and> life_code w \<noteq> ExitRestart)) \<and>
    (\<not> ended \<longrightarrow> length pauses = length (filter (\<lambda>w. life_code w \<noteq> ExitRestart) lives))"
proof -
  have run: "dispatcher_run (policy_normalized policy) 0 lives = (pauses, ended)" using assms(2) by (simp add: Dispatcher_Run_def)
  have zero: "0 = (0::int) \<or> rp_Min (policy_normalized policy) \<le> 0 \<and> 0 \<le> rp_Max (policy_normalized policy)" by simp
  note bounds = dispatcher_bounds [OF normalized_bounds(1,2) assms(1) zero run]
  have "length pauses = length (filter (\<lambda>w. life_code w \<noteq> ExitRestart) lives)" if "\<not> ended"
    by (rule dispatcher_pauses [OF normalized_bounds(1,2) assms(1) _ zero]) (use run that in simp)
  with bounds show ?thesis by blast
qed

definition quick_failure :: "restart_policy \<Rightarrow> worker_life \<Rightarrow> bool" where
  "quick_failure p w \<longleftrightarrow> \<not> life_ctx_ended w \<and> \<not> clean_exit w \<and> life_code w \<noteq> ExitRestart \<and> life_uptime w < rp_Steady p \<and> \<not> life_pause_cut w"

lemma quick_failures:
  assumes p: "0 < rp_Min p" "rp_Min p \<le> rp_Max p" "rp_Max p < 2 ^ 62"
  shows "list_all (quick_failure p) lives \<Longrightarrow> wait = (case n of 0 \<Rightarrow> 0 | Suc m \<Rightarrow> min (rp_Max p) (rp_Min p * 2 ^ m)) \<Longrightarrow>
    dispatcher_run p wait lives = (map (\<lambda>i. min (rp_Max p) (rp_Min p * 2 ^ i)) [n..<n + length lives], False)"
proof (induction lives arbitrary: n wait)
  case (Cons w lives)
  let ?d = "min (rp_Max p) (rp_Min p * 2 ^ n)"
  have q: "quick_failure p w" "list_all (quick_failure p) lives" using Cons.prems(1) by simp_all
  have next_wait: "policy_next p wait = ?d"
  proof (cases n)
    case (Suc m)
    have "0 < rp_Min p * 2 ^ m" using p(1) by simp
    then have w: "0 < wait" "wait < 2 ^ 62" using Cons.prems(2) Suc p by auto
    have "policy_next p wait = min (rp_Max p) (wait * 2)" using w double_id [of wait] by (auto simp: policy_next_def Let_def)
    also have "\<dots> = ?d" using Cons.prems(2) Suc p \<open>0 < rp_Min p * 2 ^ m\<close> by (auto simp: min_def)
    finally show ?thesis .
  qed (use Cons.prems(2) p in \<open>simp add: policy_next_def\<close>)
  then have d: "wait_after p wait w = ?d" using q(1) by (simp add: wait_after_def quick_failure_def)
  have "0 < ?d" using p by simp
  moreover have "dispatcher_run p ?d lives = (map (\<lambda>i. min (rp_Max p) (rp_Min p * 2 ^ i)) [Suc n..<Suc n + length lives], False)"
    by (rule Cons.IH [OF q(2), of ?d "Suc n"]) simp
  moreover have "[n..<n + length (w # lives)] = n # [Suc n..<Suc n + length lives]" by (simp add: upt_conv_Cons del: upt_Suc)
  ultimately show ?case using q(1) d by (simp add: Let_def quick_failure_def del: upt_Suc)
qed simp

text \<open>
  Workers that keep failing soon after their start are retried with pauses that double from the
  policy's minimum up to its maximum, for ever.
\<close>
theorem dispatcher_backoff:
  assumes "rp_Max (policy_normalized policy) < 2 ^ 62" "list_all (quick_failure (policy_normalized policy)) lives"
  shows "Dispatcher_Run policy lives =
    (map (\<lambda>i. min (rp_Max (policy_normalized policy)) (rp_Min (policy_normalized policy) * 2 ^ i)) [0..<length lives], False)"
  using quick_failures [OF normalized_bounds(1,2) assms(1,2), of 0 0] by (simp add: Dispatcher_Run_def)

section \<open>Witnesses\<close>

text \<open>Two surfaces and an exporter; the configuration says which of the surfaces runs.\<close>

definition demo_sub :: "bytes \<Rightarrow> bool \<Rightarrow> (bool option \<Rightarrow> bool) \<Rightarrow> bool subsystem" where
  "demo_sub kind auxil on = \<lparr> sub_Kind = kind, ConfigKey = kind, BuildTag = kind, Available = True, NeedsSessions = False,
     Auxiliary = auxil, Enabled = Some on, Fingerprint = Some (\<lambda>c. if c then ''x'' else ''y''), RestartKey = None, Address = None, has_Run = True \<rparr>"

definition demo_subs :: "bool subsystem list" where
  "demo_subs = [demo_sub ''httpserver'' False (\<lambda>c. c = Some False), demo_sub ''gateway'' False (\<lambda>c. c = Some True),
     demo_sub ''metrics'' True (\<lambda>c. True)]"

definition demo_start :: "bool run" where
  "demo_start = run_start (NewSupervisor demo_subs False False) (Some False)"

definition demo_failed :: "bool run" where
  "demo_failed = the (run_step (SurfaceEnds 0 (Panicked ''boom'')) demo_start)"

definition demo_ended :: "bool run" where
  "demo_ended = the (run_step SeesDone (the (run_step TakesFailure demo_failed)))"

lemma demo_ok: "distinct (map sub_Kind demo_subs)" "\<exists>chosen. Resolve (Some False) demo_subs = Inr chosen"
  by code_simp (simp add: Resolve_ok demo_subs_def demo_sub_def sub_enabled_def)

lemma demo_reaches: "run_reaches demo_start demo_failed" "run_reaches demo_start demo_ended"
proof -
  have "\<not> Option.is_none (run_step (SurfaceEnds 0 (Panicked ''boom'')) demo_start)"
    "\<not> Option.is_none (run_step TakesFailure demo_failed)" "\<not> Option.is_none (run_step SeesDone (the (run_step TakesFailure demo_failed)))"
    by code_simp+
  then have s: "run_step (SurfaceEnds 0 (Panicked ''boom'')) demo_start = Some demo_failed"
    "run_step TakesFailure demo_failed = Some (the (run_step TakesFailure demo_failed))"
    "run_step SeesDone (the (run_step TakesFailure demo_failed)) = Some demo_ended"
    by (simp_all add: demo_failed_def demo_ended_def Option.is_none_def)
  show "run_reaches demo_start demo_failed" by (rule run_next [OF run_refl s(1)])
  then show "run_reaches demo_start demo_ended" using s(2,3) run_next by metis
qed

lemma one_instance_each_witness: "distinct (map fst (running (supv demo_ended))) \<and> running (supv demo_ended) = []"
proof -
  have "run_result demo_ended = Some (RunEnded (Some (''httpserver'', ''panic: boom'')))" by code_simp
  then show ?thesis
    using one_instance_each [OF demo_ok(1), of "Some False" _ False False demo_ended] demo_ok(2) demo_reaches(2)
    by (auto simp: demo_start_def)
qed


lemma process_end_reasons_witness:
  "run_result demo_ended = Some (RunEnded (Some (''httpserver'', ''panic: boom''))) \<and> (\<exists>sub \<in> set demo_subs. \<not> Auxiliary sub \<and> sub_Kind sub = ''httpserver'')"
proof -
  have r: "run_result demo_ended = Some (RunEnded (Some (''httpserver'', ''panic: boom'')))" by code_simp
  have "case run_result demo_ended of
      Some (RunEnded (Some err)) \<Rightarrow> \<exists>sub \<in> set demo_subs. \<not> Auxiliary sub \<and> sub_Kind sub = fst err
    | Some ErrRestartRequested \<Rightarrow> False \<and> (\<exists>chosen'. Resolve (applied (supv demo_ended)) demo_subs = Inr chosen')
    | _ \<Rightarrow> True"
    using process_end_reasons [OF demo_ok(1), of "Some False" _ False False demo_ended] demo_ok(2) demo_reaches(2)
    by (auto simp: demo_start_def)
  with r show ?thesis by simp
qed

text \<open>
  A configuration that swaps one surface for another declared after it leaves both running: the first
  is kept because, when it has its turn, it is still the only one.
\<close>

lemma swap_keeps_both: "map fst (running (snd (applyConfig (Some True) (supv demo_start)))) = [''httpserver'', ''gateway'', ''metrics'']"
  by code_simp

lemma reload_settles_witness:
  "live_instance (snd (applyConfig (Some True) (supv demo_start))) ''gateway'' \<noteq> None"
proof -
  have ok: "supervisor_ok (supv demo_start)" using run_start_ok(1) [OF demo_ok(1)] demo_ok(2) by (auto simp: run_ok_def demo_start_def)
  have plan: "plan_config (supv demo_start) (Some True) = ApplyEach" by code_simp
  obtain restart s' where a: "applyConfig (Some True) (supv demo_start) = (restart, s')" by fastforce
  define sub where "sub = demo_sub ''gateway'' False (\<lambda>c. c = Some True)"
  have "subs (supv demo_start) = demo_subs" using run_start_ok(2) [OF demo_ok(1)] demo_ok(2) by (auto simp: demo_start_def)
  then have sub: "sub \<in> set (subs (supv demo_start))" by (simp add: sub_def demo_subs_def)
  have "Option.is_none (live_instance (supv demo_start) ''gateway'')" by code_simp
  then have "live_instance (supv demo_start) (sub_Kind sub) = None" by (simp add: sub_def demo_sub_def Option.is_none_def split: option.splits)
  moreover have "sub_enabled sub (Some True)" "runnable (supv demo_start) sub" "sub_Kind sub = ''gateway''"
    by (simp_all add: sub_def demo_sub_def sub_enabled_def runnable_def)
  ultimately show ?thesis
    using reload_settles [OF ok plan a sub] by (auto simp: a split: option.splits)
qed

definition demo_policy :: restart_policy where
  "demo_policy = \<lparr> rp_Min = 2, rp_Max = 5, rp_Steady = 100 \<rparr>"

definition demo_crash :: worker_life where
  "demo_crash = \<lparr> life_code = 1, life_err = False, life_uptime = 3, life_ctx_ended = False, life_pause_cut = False \<rparr>"

lemma dispatcher_backoff_witness: "Dispatcher_Run demo_policy [demo_crash, demo_crash, demo_crash] = ([2, 4, 5], False)"
proof -
  have h: "rp_Max (policy_normalized demo_policy) < 2 ^ 62" "list_all (quick_failure (policy_normalized demo_policy)) [demo_crash, demo_crash, demo_crash]"
    by code_simp+
  have e: "map (\<lambda>i. min (rp_Max (policy_normalized demo_policy)) (rp_Min (policy_normalized demo_policy) * 2 ^ i))
      [0..<length [demo_crash, demo_crash, demo_crash]] = [2, 4, 5]" by code_simp
  show ?thesis unfolding dispatcher_backoff [OF h] e ..
qed

lemma dispatcher_persists_witness: "list_all (\<lambda>d. 2 \<le> d \<and> d \<le> 5) (fst (Dispatcher_Run demo_policy [demo_crash, demo_crash\<lparr> life_code := 0 \<rparr>]))"
proof -
  have h: "rp_Max (policy_normalized demo_policy) < 2 ^ 62" by code_simp
  have b: "rp_Min (policy_normalized demo_policy) = 2" "rp_Max (policy_normalized demo_policy) = 5" by code_simp+
  show ?thesis using dispatcher_persists [OF h, of "[demo_crash, demo_crash\<lparr> life_code := 0 \<rparr>]"] unfolding b list_all_iff
    by (metis prod.collapse)
qed

lemma status_foretells_reload_witness:
  "case supervisor_Status (supv demo_start) (Some True) of (table, required, refused) \<Rightarrow>
     required = (needsFreshProcess (supv demo_start) (Some True) \<noteq> None \<and> \<not> fst (applyConfig (Some True) (supv demo_start)))"
  using status_foretells_reload [of "supv demo_start" True] by (simp split: prod.splits)

end
