(* ===== verification/Eviction.thy ===== *)
theory Eviction
  imports ToolPairing Permission LoopGuard GoWords
begin

text \<open>
  The projection of a history that is sent to the model: superseded results of read-only tools are
  replaced by short placeholders (\<^verbatim>\<open>internal/agent/result_eviction.go\<close>).  The decoders of a call's
  JSON arguments and the functions of \<^verbatim>\<open>path/filepath\<close> are parameters.
\<close>

section \<open>Sizes\<close>

definition partBytes :: "image_part \<Rightarrow> int" where
  "partBytes p =
     (if DataURL p \<noteq> [] then int (length (DataURL p))
      else int (length (''data:'' @ MIMEType p @ '';base64,'')) + (Size p + 2) div 3 * 4)"

definition resultBytes :: "message \<Rightarrow> int" where
  "resultBytes m = int (length (Content m)) + sum_list (map partBytes (ImageParts m))"

section \<open>What the code takes from its libraries\<close>

record read_args =
  ra_path :: bytes
  ra_offset :: int
  ra_limit :: int
  ra_keep :: bool

record grep_args =
  ga_pattern :: bytes
  ga_path :: bytes
  ga_keep :: bool

record pin_args =
  pa_path :: bytes
  pa_offset :: int
  pa_limit :: int
  pa_pattern :: bytes

text \<open>
  A decoder that is asked to go on after an error yields whatever it filled in; only the two of
  \<^verbatim>\<open>writeTargets\<close> are asked for the error.
\<close>

record evict_lib = path_lib +
  Clean :: "bytes \<Rightarrow> bytes"
  Rel :: "bytes \<Rightarrow> bytes \<Rightarrow> bytes option"
  ToSlash :: "bytes \<Rightarrow> bytes"
  Separator :: char
  on_windows :: bool
  EqualFold :: "bytes \<Rightarrow> bytes \<Rightarrow> bool"
  Quoted :: "bytes \<Rightarrow> bytes"
  json_read :: "bytes \<Rightarrow> read_args"
  json_grep :: "bytes \<Rightarrow> grep_args"
  json_pin :: "bytes \<Rightarrow> pin_args"
  json_glob :: "bytes \<Rightarrow> bytes \<times> bytes"
  json_tree :: "bytes \<Rightarrow> bytes"
  json_search :: "bytes \<Rightarrow> bytes"
  json_fetch :: "bytes \<Rightarrow> bytes"
  json_mv :: "bytes \<Rightarrow> (bytes \<times> bytes) option"
  json_write :: "bytes \<Rightarrow> bytes option"

section \<open>Paths\<close>

definition absPath :: "evict_lib \<Rightarrow> bytes \<Rightarrow> bytes \<Rightarrow> bytes" where
  "absPath L p cwd =
     (let resolved = ResolvePath (path_lib.truncate L) (trim_space p) cwd in
      case Abs L resolved of None \<Rightarrow> Clean L resolved | Some a \<Rightarrow> Clean L a)"

definition pathsEqual :: "evict_lib \<Rightarrow> bytes \<Rightarrow> bytes \<Rightarrow> bool" where
  "pathsEqual L a b = (if on_windows L then EqualFold L (Clean L a) (Clean L b) else Clean L a = Clean L b)"

definition pathWithin :: "evict_lib \<Rightarrow> bytes \<Rightarrow> bytes \<Rightarrow> bool" where
  "pathWithin L p dir =
     (let p = Clean L p; dir = Clean L dir;
          p = (if on_windows L then to_lower p else p);
          dir = (if on_windows L then to_lower dir else dir)
      in case Rel L dir p of
           None \<Rightarrow> False
         | Some rel \<Rightarrow> rel = ''.'' \<or> rel \<noteq> ''..'' \<and> \<not> has_prefix rel (''..'' @ [Separator L]))"

definition pathsRelated :: "evict_lib \<Rightarrow> bytes \<Rightarrow> bytes \<Rightarrow> bool" where
  "pathsRelated L a b \<longleftrightarrow> pathWithin L a b \<or> pathWithin L b a"

definition relForDisplay :: "evict_lib \<Rightarrow> bytes \<Rightarrow> bytes \<Rightarrow> bytes" where
  "relForDisplay L a cwd =
     (if trim_space cwd = [] then a
      else case Rel L cwd a of
          None \<Rightarrow> a
        | Some rel \<Rightarrow> if rel = [] \<or> has_prefix rel ''..'' then a else ToSlash L rel)"

section \<open>Candidates\<close>

record evReadResult =
  rd_msgIdx :: nat
  rd_path :: bytes
  rd_start :: int
  rd_end :: int
  rd_ranged :: bool
  rd_keep :: bool

record evGrepResult =
  gr_msgIdx :: nat
  gr_pattern :: bytes
  gr_searchPath :: bytes
  gr_keep :: bool
  gr_outPaths :: "bytes list"

record evListing =
  ls_msgIdx :: nat
  ls_step :: nat
  ls_tool :: bytes
  ls_root :: bytes
  ls_label :: bytes
  ls_lines :: nat

record evReadPin =
  rpin_msgIdx :: nat
  rpin_path :: bytes
  rpin_start :: int
  rpin_end :: int
  rpin_whole :: bool

record evGrepPin =
  gpin_msgIdx :: nat
  gpin_pattern :: bytes
  gpin_searchPath :: bytes

record evWrite =
  wr_msgIdx :: nat
  wr_path :: bytes

text \<open>The effective range of an offset and a limit: from the first line, to the end of the file as 0.\<close>

definition range_start :: "int \<Rightarrow> int" where
  "range_start offset = (if offset < 1 then 1 else offset)"

definition range_end :: "int \<Rightarrow> int \<Rightarrow> int" where
  "range_end offset limit = (if limit > 0 then wrap64 (wrap64 (range_start offset + limit) - 1) else 0)"

definition parseReadResult :: "evict_lib \<Rightarrow> nat \<Rightarrow> bytes \<Rightarrow> bytes \<Rightarrow> evReadResult" where
  "parseReadResult L i argsJSON cwd =
     (let a = json_read L argsJSON in
      \<lparr> rd_msgIdx = i, rd_path = absPath L (ra_path a) cwd, rd_start = range_start (ra_offset a),
        rd_end = range_end (ra_offset a) (ra_limit a), rd_ranged = (ra_offset a > 0 \<or> ra_limit a > 0), rd_keep = ra_keep a \<rparr>)"

text \<open>\<^verbatim>\<open>grepLineRe\<close> on one line: the shortest start, not empty, that a colon, digits and a colon follow.\<close>

fun line_number_follows :: "bytes \<Rightarrow> bool" where
  "line_number_follows (c # s) \<longleftrightarrow> c = CHR '':'' \<and> takeWhile is_digit s \<noteq> [] \<and> has_prefix (dropWhile is_digit s) '':''"
| "line_number_follows [] \<longleftrightarrow> False"

definition grep_line_path :: "bytes \<Rightarrow> bytes option" where
  "grep_line_path l = map_option (\<lambda>i. take i l) (find (\<lambda>i. line_number_follows (drop i l)) [1..<length l])"

definition grepOutputPaths :: "evict_lib \<Rightarrow> bytes \<Rightarrow> bytes \<Rightarrow> bytes list" where
  "grepOutputPaths L content searchPath =
     map (\<lambda>p. Clean L (if \<not> IsAbs L p then Join L searchPath p else p))
       (filter (\<lambda>p. p \<noteq> []) (map trim_space (List.map_filter grep_line_path (split_on (CHR 0x0A) content))))"

definition parseGrepResult :: "evict_lib \<Rightarrow> nat \<Rightarrow> bytes \<Rightarrow> bytes \<Rightarrow> bytes \<Rightarrow> evGrepResult" where
  "parseGrepResult L i argsJSON content cwd =
     (let a = json_grep L argsJSON;
          searchPath = (if trim_space (ga_path a) \<noteq> [] then absPath L (ga_path a) cwd else cwd)
      in \<lparr> gr_msgIdx = i, gr_pattern = ga_pattern a, gr_searchPath = searchPath, gr_keep = ga_keep a,
           gr_outPaths = grepOutputPaths L content searchPath \<rparr>)"

definition countLines :: "bytes \<Rightarrow> nat" where
  "countLines s =
     (let s = trim_suffix s [CHR 0x0A] in
      if s = [] then 0 else length (filter (\<lambda>c. c = CHR 0x0A) s) + 1)"

definition parseListingResult :: "evict_lib \<Rightarrow> nat \<Rightarrow> nat \<Rightarrow> ToolCall \<Rightarrow> bytes \<Rightarrow> bytes \<Rightarrow> evListing" where
  "parseListingResult L i step call content cwd =
     (let l = \<lparr> ls_msgIdx = i, ls_step = step, ls_tool = call_Name call, ls_root = [], ls_label = [], ls_lines = countLines content \<rparr>;
          j = InputJSON call
      in if call_Name call = ''glob'' then (case json_glob L j of (pat, p) \<Rightarrow> l\<lparr> ls_label := pat, ls_root := absPath L p cwd \<rparr>)
         else if call_Name call = ''print_tree'' then l\<lparr> ls_root := absPath L (json_tree L j) cwd \<rparr>
         else if call_Name call = ''websearch'' then l\<lparr> ls_label := trim_space (json_search L j) \<rparr>
         else if call_Name call = ''webfetch'' then l\<lparr> ls_label := join '' '' (Fields (json_fetch L j)) \<rparr>
         else l)"

definition filesystemWriteTool :: "bytes \<Rightarrow> bool" where
  "filesystemWriteTool name \<longleftrightarrow>
     name \<in> set [''write'', ''edit'', ''apply_patch'', ''mkdir'', ''rmdir'', ''touch'', ''rm'', ''mv'']"

definition permissionDeniedByUser :: bytes where "permissionDeniedByUser = ''permission denied by user''"
definition permissionNotGrantedPrefix :: bytes where "permissionNotGrantedPrefix = ''permission not granted: ''"
definition toolLoopSkippedResult :: bytes where
  "toolLoopSkippedResult = ''not executed: the loop guard stopped this turn after repeated identical tool calls''"
definition toolLoopNudge :: bytes where
  "toolLoopNudge =
     ''You have requested the same tool call with identical arguments several times in a row, so it was not executed again. '' @
     ''Repeating it will not produce a different result. Use what you already have: try a different tool or different arguments, '' @
     ''or answer the user with the information you have.''"

definition writeResultSucceeded :: "bytes \<Rightarrow> bool" where
  "writeResultSucceeded content =
     (let trimmed = trim_space content in
      if trimmed \<in> set [[], permissionDeniedByUser, toolLoopNudge, toolLoopSkippedResult] then False
      else if has_prefix trimmed permissionNotGrantedPrefix then False
      else \<not> has_prefix trimmed ''error:'')"

definition writeTargets :: "evict_lib \<Rightarrow> bytes \<Rightarrow> bytes \<Rightarrow> bytes \<Rightarrow> bytes list" where
  "writeTargets L toolName argsJSON cwd =
     (if toolName = ''mv'' then
        (case json_mv L argsJSON of
           None \<Rightarrow> []
         | Some (src, dst) \<Rightarrow>
             (if trim_space src \<noteq> [] then [absPath L src cwd] else []) @ (if trim_space dst \<noteq> [] then [absPath L dst cwd] else []))
      else
        (case json_write L argsJSON of
           None \<Rightarrow> []
         | Some p \<Rightarrow> if trim_space p = [] then [] else [absPath L p cwd]))"

section \<open>The scan\<close>

record resultEvictionOptions =
  opt_Enabled :: bool
  KeepRecent :: int
  MinResultBytes :: int
  opt_CWD :: bytes
  ListingTools :: "bytes list"
  KeepRecentSteps :: int

record pendingCall =
  pend_call :: ToolCall
  pend_step :: nat

record evict_scan =
  sc_reads :: "evReadResult list"
  sc_greps :: "evGrepResult list"
  sc_listings :: "evListing list"
  sc_readPins :: "evReadPin list"
  sc_grepPins :: "evGrepPin list"
  sc_writes :: "evWrite list"
  sc_pending :: "bytes \<Rightarrow> pendingCall option"

definition empty_scan :: evict_scan where
  "empty_scan = \<lparr> sc_reads = [], sc_greps = [], sc_listings = [], sc_readPins = [], sc_grepPins = [], sc_writes = [], sc_pending = Map.empty \<rparr>"

definition addKeepResultPin :: "evict_lib \<Rightarrow> nat \<Rightarrow> bytes \<Rightarrow> bytes \<Rightarrow> evict_scan \<Rightarrow> evict_scan" where
  "addKeepResultPin L i argsJSON cwd s =
     (let a = json_pin L argsJSON in
      if trim_space (pa_pattern a) \<noteq> [] then
        s\<lparr> sc_grepPins := sc_grepPins s @
             [\<lparr> gpin_msgIdx = i, gpin_pattern = pa_pattern a,
                gpin_searchPath = (if trim_space (pa_path a) \<noteq> [] then absPath L (pa_path a) cwd else []) \<rparr>] \<rparr>
      else if trim_space (pa_path a) = [] then s
      else
        s\<lparr> sc_readPins := sc_readPins s @
             [\<lparr> rpin_msgIdx = i, rpin_path = absPath L (pa_path a) cwd, rpin_start = range_start (pa_offset a),
                rpin_end = range_end (pa_offset a) (pa_limit a), rpin_whole = (pa_offset a \<le> 0 \<and> pa_limit a \<le> 0) \<rparr>] \<rparr>)"

text \<open>One call of a message, and its result row.\<close>

definition scan_call :: "evict_lib \<Rightarrow> resultEvictionOptions \<Rightarrow> nat \<Rightarrow> ToolCall \<Rightarrow> evict_scan \<Rightarrow> evict_scan" where
  "scan_call L opt i tc s =
     (let id = trim_space (call_ID tc);
          s = (if id \<noteq> [] then s\<lparr> sc_pending := (sc_pending s)(id \<mapsto> \<lparr> pend_call = tc, pend_step = i \<rparr>) \<rparr> else s)
      in if call_Name tc = ''keep_result'' then addKeepResultPin L i (InputJSON tc) (opt_CWD opt) s else s)"

definition scan_writes :: "evict_lib \<Rightarrow> resultEvictionOptions \<Rightarrow> nat \<Rightarrow> ToolCall \<Rightarrow> bytes \<Rightarrow> evict_scan \<Rightarrow> evict_scan" where
  "scan_writes L opt i call content s =
     (if filesystemWriteTool (call_Name call) \<and> writeResultSucceeded content
      then s\<lparr> sc_writes := sc_writes s @
             map (\<lambda>p. \<lparr> wr_msgIdx = i, wr_path = p \<rparr>) (writeTargets L (call_Name call) (InputJSON call) (opt_CWD opt)) \<rparr>
      else s)"

definition scan_result :: "evict_lib \<Rightarrow> resultEvictionOptions \<Rightarrow> nat \<Rightarrow> message \<Rightarrow> evict_scan \<Rightarrow> evict_scan" where
  "scan_result L opt i m s =
     (if role m \<noteq> RoleTool then s
      else case sc_pending s (ToolCallID m) of
          None \<Rightarrow> s
        | Some pc \<Rightarrow>
            (let call = pend_call pc;
                 s = scan_writes L opt i call (Content m) (s\<lparr> sc_pending := (sc_pending s)(ToolCallID m := None) \<rparr>)
             in if resultBytes m \<le> MinResultBytes opt then s
                else if call_Name call = ''read''
                then s\<lparr> sc_reads := sc_reads s @ [parseReadResult L i (InputJSON call) (opt_CWD opt)] \<rparr>
                else if call_Name call = ''grep''
                then s\<lparr> sc_greps := sc_greps s @ [parseGrepResult L i (InputJSON call) (Content m) (opt_CWD opt)] \<rparr>
                else if call_Name call \<in> set (ListingTools opt)
                then s\<lparr> sc_listings := sc_listings s @ [parseListingResult L i (pend_step pc) call (Content m) (opt_CWD opt)] \<rparr>
                else s))"

definition scan_message :: "evict_lib \<Rightarrow> resultEvictionOptions \<Rightarrow> nat \<times> message \<Rightarrow> evict_scan \<Rightarrow> evict_scan" where
  "scan_message L opt im s =
     (case im of (i, m) \<Rightarrow> scan_result L opt i m (fold (scan_call L opt i) (ToolCalls m) s))"

definition scan_history :: "evict_lib \<Rightarrow> resultEvictionOptions \<Rightarrow> message list \<Rightarrow> evict_scan" where
  "scan_history L opt history = fold (scan_message L opt) (enumerate 0 history) empty_scan"

section \<open>Windows, pins and staleness\<close>

text \<open>The last \<open>n\<close> elements of a list.\<close>

definition last_of :: "int \<Rightarrow> 'a list \<Rightarrow> 'a list" where
  "last_of n xs = drop (nat (int (length xs) - n)) xs"

definition recentCandidateWindow :: "evReadResult list \<Rightarrow> evGrepResult list \<Rightarrow> int \<Rightarrow> nat list" where
  "recentCandidateWindow reads greps keepRecent =
     (if keepRecent \<le> 0 then []
      else last_of keepRecent (sort (map rd_msgIdx reads @ map gr_msgIdx greps)))"

definition listingStepWindow :: "evListing list \<Rightarrow> int \<Rightarrow> nat list" where
  "listingStepWindow listings keepSteps =
     (if keepSteps \<le> 0 \<or> listings = [] then []
      else last_of keepSteps (sort (remdups (map ls_step listings))))"

definition max_int :: int where "max_int = 2 ^ 63 - 1"

definition rangesOverlap :: "int \<Rightarrow> int \<Rightarrow> int \<Rightarrow> int \<Rightarrow> bool" where
  "rangesOverlap aStart aEnd bStart bEnd =
     (let aEnd = (if aEnd = 0 then max_int else aEnd); bEnd = (if bEnd = 0 then max_int else bEnd)
      in aStart \<le> bEnd \<and> bStart \<le> aEnd)"

definition readPinned :: "evict_lib \<Rightarrow> evReadResult \<Rightarrow> evReadPin list \<Rightarrow> bool" where
  "readPinned L r pins =
     list_ex (\<lambda>p. rpin_msgIdx p > rd_msgIdx r \<and> pathsEqual L (rpin_path p) (rd_path r) \<and>
       (rpin_whole p \<or> rangesOverlap (rd_start r) (rd_end r) (rpin_start p) (rpin_end p))) pins"

definition grepPinned :: "evict_lib \<Rightarrow> evGrepResult \<Rightarrow> evGrepPin list \<Rightarrow> bool" where
  "grepPinned L g pins =
     list_ex (\<lambda>p. gpin_msgIdx p > gr_msgIdx g \<and> gpin_pattern p = gr_pattern g \<and>
       (gpin_searchPath p = [] \<or> pathsEqual L (gpin_searchPath p) (gr_searchPath g))) pins"

definition staleReadWrite :: "evict_lib \<Rightarrow> evReadResult \<Rightarrow> evWrite list \<Rightarrow> evWrite option" where
  "staleReadWrite L r writes = find (\<lambda>w. wr_msgIdx w > rd_msgIdx r \<and> pathsRelated L (wr_path w) (rd_path r)) writes"

definition staleGrepWrite :: "evict_lib \<Rightarrow> evGrepResult \<Rightarrow> evWrite list \<Rightarrow> evWrite option" where
  "staleGrepWrite L g writes =
     find (\<lambda>w. wr_msgIdx w > gr_msgIdx g \<and>
       (pathsRelated L (wr_path w) (gr_searchPath g) \<or> list_ex (pathsRelated L (wr_path w)) (gr_outPaths g))) writes"

definition staleListingWrite :: "evict_lib \<Rightarrow> evListing \<Rightarrow> evWrite list \<Rightarrow> evWrite option" where
  "staleListingWrite L l writes =
     (if ls_root l = [] then None
      else find (\<lambda>w. wr_msgIdx w > ls_msgIdx l \<and> pathsRelated L (wr_path w) (ls_root l)) writes)"

section \<open>Placeholders\<close>

definition number_text :: "int \<Rightarrow> bytes" where
  "number_text i = (if i < 0 then ''-'' @ digits_of (nat (- i)) else digits_of (nat i))"

definition readRangeLabel :: "evReadResult \<Rightarrow> bytes" where
  "readRangeLabel r =
     (if \<not> rd_ranged r then ''contents''
      else if rd_end r > 0 then ''lines '' @ number_text (rd_start r) @ ''-'' @ number_text (rd_end r)
      else ''from line '' @ number_text (rd_start r))"

definition readEvictedPlaceholder :: "evict_lib \<Rightarrow> evReadResult \<Rightarrow> bytes \<Rightarrow> bytes" where
  "readEvictedPlaceholder L r cwd =
     ''[evicted: '' @ relForDisplay L (rd_path r) cwd @ '' '' @ readRangeLabel r @
     '', not marked as useful; re-read if this range is needed again]''"

definition readStalePlaceholder :: "evict_lib \<Rightarrow> evReadResult \<Rightarrow> bytes \<Rightarrow> bytes" where
  "readStalePlaceholder L r cwd =
     ''[evicted: '' @ relForDisplay L (rd_path r) cwd @ '' was modified after this read; re-read for current contents]''"

definition grepEvictedPlaceholder :: "evict_lib \<Rightarrow> evGrepResult \<Rightarrow> bytes \<Rightarrow> bytes" where
  "grepEvictedPlaceholder L g cwd =
     ''[evicted: grep '' @ Quoted L (gr_pattern g) @ '' in '' @ relForDisplay L (gr_searchPath g) cwd @
     '', not marked as useful; re-run the search if needed]''"

definition grepStalePlaceholder :: "evict_lib \<Rightarrow> evGrepResult \<Rightarrow> evWrite \<Rightarrow> bytes \<Rightarrow> bytes" where
  "grepStalePlaceholder L g w cwd =
     ''[evicted: grep '' @ Quoted L (gr_pattern g) @ '' results are stale after '' @ relForDisplay L (wr_path w) cwd @
     '' was modified; re-run the search]''"

definition listingLabelMax :: nat where "listingLabelMax = 80"

text \<open>\<^verbatim>\<open>string([]rune)\<close>: the UTF-8 encoding of code points.\<close>

definition ellipsis :: nat where "ellipsis = 0x2026"

definition capRunes :: "bytes \<Rightarrow> nat \<Rightarrow> bytes" where
  "capRunes s n =
     (let r = runes s in
      if length r > n then concat (map encode_rune (take (n - 1) r)) @ encode_rune ellipsis else s)"

definition listingCall :: "evict_lib \<Rightarrow> bytes \<Rightarrow> bytes \<Rightarrow> bytes \<Rightarrow> bool \<Rightarrow> bytes" where
  "listingCall L tool label bare quoted =
     (let label = capRunes (trim_space label) listingLabelMax in
      if label = [] then bare
      else if quoted then tool @ '' '' @ Quoted L label
      else tool @ '' '' @ label)"

definition listingEvictedPlaceholder :: "evict_lib \<Rightarrow> evListing \<Rightarrow> bytes \<Rightarrow> bytes" where
  "listingEvictedPlaceholder L l cwd =
     (let lines = '' ('' @ digits_of (ls_lines l) @ '' lines); '' in
      if ls_tool l = ''glob'' then
        ''[evicted: '' @ listingCall L ''glob'' (ls_label l) ''glob'' True @ '' in '' @ relForDisplay L (ls_root l) cwd @ lines @ ''re-run if needed]''
      else if ls_tool l = ''print_tree'' then
        ''[evicted: print_tree of '' @ relForDisplay L (ls_root l) cwd @ lines @ ''re-run if needed]''
      else if ls_tool l = ''websearch'' then
        ''[evicted: '' @ listingCall L ''websearch'' (ls_label l) ''websearch result'' True @ lines @ ''re-run if needed]''
      else if ls_tool l = ''webfetch'' then
        ''[evicted: '' @ listingCall L ''webfetch'' (ls_label l) ''webfetch result'' False @ lines @ ''re-fetch if needed]''
      else ''[evicted: '' @ ls_tool l @ '' result'' @ lines @ ''re-run if needed]'')"

definition listingStalePlaceholder :: "evict_lib \<Rightarrow> evListing \<Rightarrow> evWrite \<Rightarrow> bytes \<Rightarrow> bytes" where
  "listingStalePlaceholder L l w cwd =
     (if ls_tool l = ''glob'' then
        ''[evicted: '' @ listingCall L ''glob'' (ls_label l) ''glob'' True @ '' in '' @ relForDisplay L (ls_root l) cwd @
        '' is stale after '' @ relForDisplay L (wr_path w) cwd @ '' was modified; re-run if needed]''
      else
        ''[evicted: '' @ ls_tool l @ '' of '' @ relForDisplay L (ls_root l) cwd @ '' is stale after '' @
        relForDisplay L (wr_path w) cwd @ '' was modified; re-run if needed]'')"

section \<open>The projection\<close>

text \<open>The bodies of the three loops: what is written over the row of a candidate, if anything.\<close>

definition read_fate :: "evict_lib \<Rightarrow> bytes \<Rightarrow> nat list \<Rightarrow> evict_scan \<Rightarrow> evReadResult \<Rightarrow> (nat \<times> bytes) option" where
  "read_fate L cwd window s r =
     (case staleReadWrite L r (sc_writes s) of
        Some w \<Rightarrow> Some (rd_msgIdx r, readStalePlaceholder L r cwd)
      | None \<Rightarrow>
          if rd_msgIdx r \<in> set window then None
          else if rd_keep r \<or> readPinned L r (sc_readPins s) then None
          else Some (rd_msgIdx r, readEvictedPlaceholder L r cwd))"

definition grep_fate :: "evict_lib \<Rightarrow> bytes \<Rightarrow> nat list \<Rightarrow> evict_scan \<Rightarrow> evGrepResult \<Rightarrow> (nat \<times> bytes) option" where
  "grep_fate L cwd window s g =
     (case staleGrepWrite L g (sc_writes s) of
        Some w \<Rightarrow> Some (gr_msgIdx g, grepStalePlaceholder L g w cwd)
      | None \<Rightarrow>
          if gr_msgIdx g \<in> set window then None
          else if gr_keep g \<or> grepPinned L g (sc_grepPins s) then None
          else Some (gr_msgIdx g, grepEvictedPlaceholder L g cwd))"

definition listing_fate :: "evict_lib \<Rightarrow> bytes \<Rightarrow> nat list \<Rightarrow> evict_scan \<Rightarrow> evListing \<Rightarrow> (nat \<times> bytes) option" where
  "listing_fate L cwd steps s l =
     (case staleListingWrite L l (sc_writes s) of
        Some w \<Rightarrow> Some (ls_msgIdx l, listingStalePlaceholder L l w cwd)
      | None \<Rightarrow> if ls_step l \<in> set steps then None else Some (ls_msgIdx l, listingEvictedPlaceholder L l cwd))"

text \<open>\<^verbatim>\<open>evict\<close>, on the copy of the history.\<close>

definition evict_row :: "nat \<times> bytes \<Rightarrow> message list \<Rightarrow> message list" where
  "evict_row e out = (case e of (i, placeholder) \<Rightarrow> out[i := (out ! i)\<lparr> Content := placeholder, ImageParts := [] \<rparr>])"

definition evictions :: "evict_lib \<Rightarrow> resultEvictionOptions \<Rightarrow> evict_scan \<Rightarrow> (nat \<times> bytes) list" where
  "evictions L opt s =
     (let window = recentCandidateWindow (sc_reads s) (sc_greps s) (KeepRecent opt);
          steps = listingStepWindow (sc_listings s) (max (KeepRecentSteps opt) 1)
      in List.map_filter (read_fate L (opt_CWD opt) window s) (sc_reads s) @
         List.map_filter (grep_fate L (opt_CWD opt) window s) (sc_greps s) @
         List.map_filter (listing_fate L (opt_CWD opt) steps s) (sc_listings s))"

definition pruneToolResults :: "evict_lib \<Rightarrow> message list \<Rightarrow> resultEvictionOptions \<Rightarrow> message list" where
  "pruneToolResults L history opt =
     (if \<not> opt_Enabled opt \<or> history = [] then history
      else
        (let s = scan_history L opt history in
         if sc_reads s = [] \<and> sc_greps s = [] \<and> sc_listings s = [] then history
         else fold evict_row (evictions L opt s) history))"

section \<open>When it is due\<close>

definition listingTools :: "bytes list" where
  "listingTools = [''glob'', ''print_tree'', ''websearch'', ''webfetch'']"

definition listingKeepRecentSteps :: int where "listingKeepRecentSteps = 3"

text \<open>
  What the agent reads of its configuration, of its turn and of its estimates: \<open>MaxContextTokens\<close> is
  that of the model's entry, \<open>window\<close> the one the session works with, \<open>tokens\<close> the estimate of a
  history.
\<close>

record eviction_state =
  eviction_enabled :: bool
  eviction_forced :: bool
  StartPercent :: int
  EffectiveKeepRecent :: int
  EffectiveMinResultBytes :: int
  MaxContextTokens :: "int option"
  context_window :: int
  requestOverhead :: int
  conversationTokens :: "message list \<Rightarrow> int"

definition evictionDue :: "eviction_state \<Rightarrow> message list \<Rightarrow> bool" where
  "evictionDue A msgs =
     (if \<not> eviction_enabled A then False
      else if eviction_forced A then True
      else if StartPercent A \<le> 0 then True
      else case MaxContextTokens A of
          None \<Rightarrow> True
        | Some most \<Rightarrow>
            if most \<le> 0 then True
            else wrap64 (wrap64 (requestOverhead A + conversationTokens A msgs) * 100) \<ge> wrap64 (StartPercent A * most))"

definition listingEvictionDue :: "eviction_state \<Rightarrow> message list \<Rightarrow> bool" where
  "listingEvictionDue A msgs =
     (if eviction_forced A then True
      else if StartPercent A \<le> 0 then True
      else if context_window A \<le> 0 then True
      else
        (let msgs = (case msgs of m # rest \<Rightarrow> if role m = RoleSystem then rest else msgs | [] \<Rightarrow> msgs)
         in wrap64 (wrap64 (requestOverhead A + conversationTokens A msgs) * 100) \<ge> wrap64 (StartPercent A * context_window A)))"

definition evictionOptions :: "eviction_state \<Rightarrow> bytes \<Rightarrow> resultEvictionOptions" where
  "evictionOptions A cwd =
     \<lparr> opt_Enabled = eviction_enabled A, KeepRecent = EffectiveKeepRecent A, MinResultBytes = EffectiveMinResultBytes A,
       opt_CWD = cwd, ListingTools = listingTools, KeepRecentSteps = listingKeepRecentSteps \<rparr>"

definition prunedForLLM :: "evict_lib \<Rightarrow> eviction_state \<Rightarrow> bytes \<Rightarrow> message list \<Rightarrow> message list" where
  "prunedForLLM L A cwd msgs =
     (if \<not> evictionDue A msgs then msgs
      else
        (let opt = evictionOptions A cwd;
             opt = (if \<not> listingEvictionDue A msgs then opt\<lparr> ListingTools := [] \<rparr> else opt)
         in pruneToolResults L msgs opt))"

end
