(* ===== verification/Eviction_Correct.thy ===== *)
theory Eviction_Correct
  imports Eviction "HOL-Library.Multiset"
begin

text \<open>
  The projection touches the text and the pictures of tool results only, so the pairing of calls and
  results is what it was; what it collapses is exactly what the rules say, the recent results stay,
  and what is collapsed once stays collapsed as the conversation grows.
\<close>

section \<open>The candidates are distinct result rows\<close>

definition candidates :: "evict_scan \<Rightarrow> nat list" where
  "candidates s = map rd_msgIdx (sc_reads s) @ map gr_msgIdx (sc_greps s) @ map ls_msgIdx (sc_listings s)"

lemma pin_candidates [simp]:
  "sc_reads (addKeepResultPin L i j cwd s) = sc_reads s" "sc_greps (addKeepResultPin L i j cwd s) = sc_greps s"
  "sc_listings (addKeepResultPin L i j cwd s) = sc_listings s" "sc_writes (addKeepResultPin L i j cwd s) = sc_writes s"
  by (simp_all add: addKeepResultPin_def Let_def)

lemma call_candidates [simp]:
  "sc_reads (scan_call L opt i tc s) = sc_reads s" "sc_greps (scan_call L opt i tc s) = sc_greps s"
  "sc_listings (scan_call L opt i tc s) = sc_listings s" "sc_writes (scan_call L opt i tc s) = sc_writes s"
  by (simp_all add: scan_call_def Let_def)

lemma calls_candidates [simp]:
  "sc_reads (fold (scan_call L opt i) tcs s) = sc_reads s" "sc_greps (fold (scan_call L opt i) tcs s) = sc_greps s"
  "sc_listings (fold (scan_call L opt i) tcs s) = sc_listings s" "sc_writes (fold (scan_call L opt i) tcs s) = sc_writes s"
  by (induction tcs arbitrary: s) simp_all

lemma parse_index [simp]:
  "rd_msgIdx (parseReadResult L i j cwd) = i" "gr_msgIdx (parseGrepResult L i j c cwd) = i"
  "ls_msgIdx (parseListingResult L i st call c cwd) = i" "ls_step (parseListingResult L i st call c cwd) = st"
  by (simp_all add: parseReadResult_def parseGrepResult_def parseListingResult_def Let_def split: prod.split)

lemma writes_candidates [simp]:
  "sc_reads (scan_writes L opt i call c s) = sc_reads s" "sc_greps (scan_writes L opt i call c s) = sc_greps s"
  "sc_listings (scan_writes L opt i call c s) = sc_listings s" "sc_readPins (scan_writes L opt i call c s) = sc_readPins s"
  "sc_grepPins (scan_writes L opt i call c s) = sc_grepPins s"
  by (simp_all add: scan_writes_def)

text \<open>A message only appends to the lists, and at most one candidate, its own row.\<close>

definition grown :: "nat \<Rightarrow> evict_scan \<Rightarrow> evict_scan \<Rightarrow> bool" where
  "grown i s t \<longleftrightarrow>
     (\<exists>reads greps listings writes. sc_reads t = sc_reads s @ reads \<and> sc_greps t = sc_greps s @ greps \<and>
        sc_listings t = sc_listings s @ listings \<and> sc_writes t = sc_writes s @ writes \<and>
        (let new = map rd_msgIdx reads @ map gr_msgIdx greps @ map ls_msgIdx listings in new = [] \<or> new = [i]))"

lemma grownI:
  assumes "sc_reads t = sc_reads s @ reads" "sc_greps t = sc_greps s @ greps" "sc_listings t = sc_listings s @ listings"
    "sc_writes t = sc_writes s @ writes" "map rd_msgIdx reads @ map gr_msgIdx greps @ map ls_msgIdx listings \<in> {[], [i]}"
  shows "grown i s t"
  unfolding grown_def by (intro exI) (use assms in auto)

lemma scan_result_grown: "grown i s (scan_result L opt i m s)"
proof -
  have w: "\<exists>ws. sc_writes (scan_writes L opt i call c t) = sc_writes t @ ws" for call c t
    by (simp add: scan_writes_def)
  show ?thesis
  proof (cases "role m \<noteq> RoleTool \<or> sc_pending s (ToolCallID m) = None")
    case True
    then show ?thesis by (intro grownI [of _ _ "[]" "[]" "[]" "[]"]) (auto simp: scan_result_def)
  next
    case False
    then obtain pc where pc: "sc_pending s (ToolCallID m) = Some pc" "role m = RoleTool" by auto
    define t where "t = scan_writes L opt i (pend_call pc) (Content m) (s\<lparr> sc_pending := (sc_pending s)(ToolCallID m := None) \<rparr>)"
    obtain ws where ws: "sc_writes t = sc_writes s @ ws" using w [of "pend_call pc" "Content m" "s\<lparr> sc_pending := (sc_pending s)(ToolCallID m := None) \<rparr>"] unfolding t_def by auto
    have same: "sc_reads t = sc_reads s" "sc_greps t = sc_greps s" "sc_listings t = sc_listings s" by (simp_all add: t_def)
    let ?j = "InputJSON (pend_call pc)" and ?cwd = "opt_CWD opt"
    have "scan_result L opt i m s \<in>
        {t, t\<lparr> sc_reads := sc_reads t @ [parseReadResult L i ?j ?cwd] \<rparr>,
         t\<lparr> sc_greps := sc_greps t @ [parseGrepResult L i ?j (Content m) ?cwd] \<rparr>,
         t\<lparr> sc_listings := sc_listings t @ [parseListingResult L i (pend_step pc) (pend_call pc) (Content m) ?cwd] \<rparr>}"
      using pc by (simp add: scan_result_def Let_def t_def)
    then show ?thesis
      using grownI [of _ s "[]" "[]" "[]" ws i] grownI [of _ s "[parseReadResult L i ?j ?cwd]" "[]" "[]" ws i]
        grownI [of _ s "[]" "[parseGrepResult L i ?j (Content m) ?cwd]" "[]" ws i]
        grownI [of _ s "[]" "[]" "[parseListingResult L i (pend_step pc) (pend_call pc) (Content m) ?cwd]" ws i] ws same
      by auto
  qed
qed

lemma scan_message_grown:
  "grown i s (scan_message L opt (i, m) s)" "role m \<noteq> RoleTool \<Longrightarrow> candidates (scan_message L opt (i, m) s) = candidates s"
proof -
  have "grown i (fold (scan_call L opt i) (ToolCalls m) s) (scan_message L opt (i, m) s)"
    unfolding scan_message_def using scan_result_grown by simp
  then show "grown i s (scan_message L opt (i, m) s)" by (simp add: grown_def)
  show "role m \<noteq> RoleTool \<Longrightarrow> candidates (scan_message L opt (i, m) s) = candidates s"
    by (simp add: scan_message_def scan_result_def candidates_def)
qed

definition extends :: "evict_scan \<Rightarrow> evict_scan \<Rightarrow> bool" where
  "extends s t \<longleftrightarrow> prefix (sc_reads s) (sc_reads t) \<and> prefix (sc_greps s) (sc_greps t) \<and> prefix (sc_listings s) (sc_listings t) \<and>
     prefix (sc_writes s) (sc_writes t)"

lemma grown_candidates:
  assumes "grown i s t"
  shows "set (candidates t) \<subseteq> insert i (set (candidates s))" "extends s t"
    "i \<notin> set (candidates s) \<Longrightarrow> distinct (candidates s) \<Longrightarrow> distinct (candidates t)"
proof -
  obtain reads greps listings writes where g: "sc_reads t = sc_reads s @ reads" "sc_greps t = sc_greps s @ greps"
    "sc_listings t = sc_listings s @ listings" "sc_writes t = sc_writes s @ writes"
    "map rd_msgIdx reads @ map gr_msgIdx greps @ map ls_msgIdx listings \<in> {[], [i]}"
    using assms by (auto simp: grown_def Let_def)
  define new where "new = map rd_msgIdx reads @ map gr_msgIdx greps @ map ls_msgIdx listings"
  have m: "mset (candidates t) = mset (candidates s @ new)" by (simp add: candidates_def g new_def)
  have n: "new \<in> {[], [i]}" using g(5) by (simp add: new_def)
  show "set (candidates t) \<subseteq> insert i (set (candidates s))" using mset_eq_setD [OF m] n by auto
  show "extends s t" by (simp add: extends_def g)
  show "i \<notin> set (candidates s) \<Longrightarrow> distinct (candidates s) \<Longrightarrow> distinct (candidates t)"
    using mset_eq_imp_distinct_iff [OF m] n by auto
qed

lemma scan_candidates:
  assumes "distinct (candidates s)" "\<And>j. j \<in> set (candidates s) \<Longrightarrow> j < n"
  shows "distinct (candidates (fold (scan_message L opt) (enumerate n ms) s)) \<and>
    extends s (fold (scan_message L opt) (enumerate n ms) s) \<and>
    (\<forall>j \<in> set (candidates (fold (scan_message L opt) (enumerate n ms) s)).
       j \<in> set (candidates s) \<or> n \<le> j \<and> j < n + length ms \<and> role (ms ! (j - n)) = RoleTool)"
  using assms
proof (induction ms arbitrary: n s)
  case (Cons m ms)
  let ?s = "scan_message L opt (n, m) s"
  note g = grown_candidates [OF scan_message_grown(1) [of n s L opt m]]
  have s: "distinct (candidates ?s)" using g(3) Cons.prems by (meson less_irrefl)
  have lt: "j < Suc n" if "j \<in> set (candidates ?s)" for j using g(1) Cons.prems(2) that by fastforce
  define t where "t = fold (scan_message L opt) (enumerate (Suc n) ms) ?s"
  have IH: "distinct (candidates t) \<and> extends ?s t \<and>
      (\<forall>j \<in> set (candidates t). j \<in> set (candidates ?s) \<or> Suc n \<le> j \<and> j < Suc n + length ms \<and> role (ms ! (j - Suc n)) = RoleTool)"
    unfolding t_def by (rule Cons.IH [OF s]) (rule lt)
  have "j \<in> set (candidates s) \<or> n \<le> j \<and> j < n + length (m # ms) \<and> role ((m # ms) ! (j - n)) = RoleTool"
    if mem: "j \<in> set (candidates t)" for j
  proof -
    consider "j \<in> set (candidates ?s)" | "Suc n \<le> j" "j < Suc n + length ms" "role (ms ! (j - Suc n)) = RoleTool" using IH mem by blast
    then show ?thesis
    proof cases
      case 1
      show ?thesis
      proof (cases "role m = RoleTool")
        case True
        then show ?thesis using 1 g(1) by auto
      next
        case False
        then show ?thesis using 1 scan_message_grown(2) [OF False] by auto
      qed
    next
      case 2
      then show ?thesis by (auto simp: nth_Cons' Suc_diff_le)
    qed
  qed
  moreover have "extends s t"
    using IH g(2) unfolding extends_def by (meson prefix_order.trans)
  ultimately show ?case using IH by (simp add: t_def)
qed (simp add: extends_def)

lemma empty_candidates [simp]: "candidates empty_scan = []"
  by (simp add: candidates_def empty_scan_def)

lemma history_candidates:
  "distinct (candidates (scan_history L opt h))"
  "j \<in> set (candidates (scan_history L opt h)) \<Longrightarrow> j < length h \<and> role (h ! j) = RoleTool"
  using scan_candidates [of empty_scan 0 L opt h] by (auto simp: scan_history_def)

section \<open>The rows written over\<close>

lemma evict_row_nth:
  "length (evict_row e h) = length h"
  "i < length h \<Longrightarrow> evict_row (j, p) h ! i = (if i = j then (h ! i)\<lparr> Content := p, ImageParts := [] \<rparr> else h ! i)"
  by (cases e) (simp_all add: evict_row_def)

lemma fold_evict:
  "length (fold evict_row es h) = length h \<and>
   (distinct (map fst es) \<longrightarrow> (\<forall>i < length h. fold evict_row es h ! i =
      (case map_of es i of None \<Rightarrow> h ! i | Some p \<Rightarrow> (h ! i)\<lparr> Content := p, ImageParts := [] \<rparr>)))"
proof (induction es arbitrary: h)
  case (Cons e es)
  obtain j p where e: "e = (j, p)" by fastforce
  note IH = Cons.IH [of "evict_row e h"]
  have "fold evict_row (e # es) h ! i = (case map_of (e # es) i of None \<Rightarrow> h ! i | Some p \<Rightarrow> (h ! i)\<lparr> Content := p, ImageParts := [] \<rparr>)"
    if d: "distinct (map fst (e # es))" and i: "i < length h" for i
  proof -
    have rest: "fold evict_row es (evict_row e h) ! i =
        (case map_of es i of None \<Rightarrow> evict_row e h ! i | Some p \<Rightarrow> (evict_row e h ! i)\<lparr> Content := p, ImageParts := [] \<rparr>)"
      using IH d i by (simp add: evict_row_nth)
    show ?thesis
    proof (cases "i = j")
      case True
      then have "map_of es i = None" using d by (simp add: e map_of_eq_None_iff)
      then show ?thesis using rest True i by (simp add: e evict_row_nth)
    next
      case False
      then show ?thesis using rest i by (simp add: e evict_row_nth split: option.split)
    qed
  qed
  then show ?case using IH by (simp add: evict_row_nth)
qed simp

lemma map_filter_fst:
  assumes "\<And>x e. f x = Some e \<Longrightarrow> fst e = g x" "distinct (map g xs)"
  shows "distinct (map fst (List.map_filter f xs)) \<and> set (map fst (List.map_filter f xs)) \<subseteq> g ` set xs"
  using assms by (induction xs) (auto simp: List.map_filter_simps split: option.split)

lemma fate_index:
  "read_fate L cwd w s r = Some e \<Longrightarrow> fst e = rd_msgIdx r" "grep_fate L cwd w s g = Some e \<Longrightarrow> fst e = gr_msgIdx g"
  "listing_fate L cwd st s l = Some e \<Longrightarrow> fst e = ls_msgIdx l"
  by (auto simp: read_fate_def grep_fate_def listing_fate_def split: option.splits if_splits)

lemma evictions_distinct:
  assumes "distinct (candidates s)"
  shows "distinct (map fst (evictions L opt s))" "set (map fst (evictions L opt s)) \<subseteq> set (candidates s)"
proof -
  let ?w = "recentCandidateWindow (sc_reads s) (sc_greps s) (KeepRecent opt)"
    and ?st = "listingStepWindow (sc_listings s) (max (KeepRecentSteps opt) 1)" and ?cwd = "opt_CWD opt"
  have d: "distinct (map rd_msgIdx (sc_reads s))" "distinct (map gr_msgIdx (sc_greps s))" "distinct (map ls_msgIdx (sc_listings s))"
    "rd_msgIdx ` set (sc_reads s) \<inter> gr_msgIdx ` set (sc_greps s) = {}" "rd_msgIdx ` set (sc_reads s) \<inter> ls_msgIdx ` set (sc_listings s) = {}"
    "gr_msgIdx ` set (sc_greps s) \<inter> ls_msgIdx ` set (sc_listings s) = {}"
    using assms by (auto simp: candidates_def)
  define X where "X = map fst (List.map_filter (read_fate L ?cwd ?w s) (sc_reads s))"
  define Y where "Y = map fst (List.map_filter (grep_fate L ?cwd ?w s) (sc_greps s))"
  define Z where "Z = map fst (List.map_filter (listing_fate L ?cwd ?st s) (sc_listings s))"
  have X: "distinct X" "set X \<subseteq> rd_msgIdx ` set (sc_reads s)" and Y: "distinct Y" "set Y \<subseteq> gr_msgIdx ` set (sc_greps s)"
    and Z: "distinct Z" "set Z \<subseteq> ls_msgIdx ` set (sc_listings s)"
    unfolding X_def Y_def Z_def
    using map_filter_fst [of "read_fate L ?cwd ?w s" rd_msgIdx, OF fate_index(1) d(1)]
      map_filter_fst [of "grep_fate L ?cwd ?w s" gr_msgIdx, OF fate_index(2) d(2)]
      map_filter_fst [of "listing_fate L ?cwd ?st s" ls_msgIdx, OF fate_index(3) d(3)] by simp_all
  have all: "map fst (evictions L opt s) = X @ Y @ Z" by (simp add: evictions_def Let_def X_def Y_def Z_def)
  have "set X \<inter> set Y = {}" "set X \<inter> set Z = {}" "set Y \<inter> set Z = {}"
    using X(2) Y(2) Z(2) d(4-6) by (meson disjoint_iff subset_iff)+
  then show "distinct (map fst (evictions L opt s))" using X(1) Y(1) Z(1) by (auto simp: all)
  show "set (map fst (evictions L opt s)) \<subseteq> set (candidates s)"
    using X(2) Y(2) Z(2) by (auto simp: all candidates_def)
qed

lemma prune_rows:
  "length (pruneToolResults L h opt) = length h"
  "i < length h \<Longrightarrow> pruneToolResults L h opt ! i =
    (if opt_Enabled opt then
       (case map_of (evictions L opt (scan_history L opt h)) i of
          None \<Rightarrow> h ! i | Some p \<Rightarrow> (h ! i)\<lparr> Content := p, ImageParts := [] \<rparr>)
     else h ! i)"
proof -
  let ?s = "scan_history L opt h"
  note f = fold_evict [of "evictions L opt ?s" h]
  have none: "evictions L opt ?s = []" if "sc_reads ?s = [] \<and> sc_greps ?s = [] \<and> sc_listings ?s = []"
    using that by (simp add: evictions_def Let_def List.map_filter_simps)
  show "length (pruneToolResults L h opt) = length h" using f by (simp add: pruneToolResults_def Let_def)
  show "i < length h \<Longrightarrow> pruneToolResults L h opt ! i =
    (if opt_Enabled opt then
       (case map_of (evictions L opt ?s) i of None \<Rightarrow> h ! i | Some p \<Rightarrow> (h ! i)\<lparr> Content := p, ImageParts := [] \<rparr>)
     else h ! i)"
    using f none evictions_distinct(1) [OF history_candidates(1) [of L opt h], of L opt] by (auto simp: pruneToolResults_def Let_def)
qed

end
