(* ===== verification/Eviction_Rules.thy ===== *)
theory Eviction_Rules
  imports Eviction_Correct
begin

text \<open>
  The projection and the pairing of tool calls; what is collapsed, result by result; the windows; a
  growing conversation.
\<close>

section \<open>The pairing does not read what the projection writes\<close>

definition same_frame :: "message \<Rightarrow> message \<Rightarrow> bool" where
  "same_frame m m' \<longleftrightarrow> role m = role m' \<and> ToolCalls m = ToolCalls m' \<and> ToolCallID m = ToolCallID m'"

lemma scan_results_frame: "list_all2 same_frame ms ms' \<Longrightarrow> scan_results j res ms = scan_results j res ms'"
proof (induction j res ms arbitrary: ms' rule: scan_results.induct)
  case (2 j res m ms)
  then obtain m' rest where ms': "ms' = m' # rest" "same_frame m m'" "list_all2 same_frame ms rest" by (auto simp: list_all2_Cons1)
  then have f: "role m' = role m" "ToolCallID m' = ToolCallID m" by (simp_all add: same_frame_def)
  show ?case
    using 2 ms'(3) by (simp add: ms'(1) f del: fun_upd_apply)
qed simp

lemma scan_batches_frame: "list_all2 same_frame ms ms' \<Longrightarrow> scan_batches i ms a = scan_batches i ms' a"
proof (induction "length ms" arbitrary: i ms ms' a rule: less_induct)
  case less
  show ?case
  proof (cases ms)
    case (Cons m tl)
    then obtain m' tl' where ms': "ms' = m' # tl'" "same_frame m m'" "list_all2 same_frame tl tl'"
      using less.prems by (auto simp: list_all2_Cons1)
    then have f: "opens_batch m' = opens_batch m" "ToolCalls m' = ToolCalls m" by (simp_all add: same_frame_def opens_batch_def)
    have IH: "scan_batches i' (drop n tl) a' = scan_batches i' (drop n tl') a'" for i' n a'
      by (rule less.hyps) (use Cons ms'(3) in \<open>simp_all add: list_all2_dropI\<close>)
    obtain ci occs where c: "scan_calls i (length (batches a)) [] (ToolCalls m) = (ci, occs)" by fastforce
    obtain ri res e where r: "scan_results (Suc i) Map.empty tl = (ri, res, e)" by (metis prod_cases3)
    have r': "scan_results (Suc i) Map.empty tl' = (ri, res, e)" using r scan_results_frame [OF ms'(3)] by simp
    show ?thesis using IH [of "Suc i" 0 a] IH by (simp add: Cons ms'(1) f c r r')
  qed (use less.prems in simp)
qed

lemma classify_frame:
  assumes "list_all2 same_frame ms ms'"
  shows "fold classify (enumerate n ms) a = fold classify (enumerate n ms') a"
  using assms
proof (induction ms arbitrary: ms' n a)
  case (Cons m ms)
  then obtain m' rest where "ms' = m' # rest" "same_frame m m'" "list_all2 same_frame ms rest" by (auto simp: list_all2_Cons1)
  moreover from this have f: "role m' = role m" "ToolCallID m' = ToolCallID m" by (simp_all add: same_frame_def)
  then have "classify (n, m) a = classify (n, m') a" by (simp only: classify_def prod.case f)
  ultimately show ?case using Cons.IH by simp
qed simp

lemma analyze_frame: "list_all2 same_frame ms ms' \<Longrightarrow> analyzeToolPairing ms = analyzeToolPairing ms'"
  by (simp add: analyzeToolPairing_def scan_batches_frame classify_frame)

text \<open>
  The projection for the model keeps the conversation's frame. It has as many messages, in the
  same order; a message that differs is a tool result, and differs in its text, which is a
  placeholder, and its pictures, which are gone, only; and the validation of the pairing of calls
  and results finds in it exactly what it finds in the history.
\<close>
theorem prune_keeps_frame:
  "length (pruneToolResults L history opt) = length history \<and>
   (\<forall>i < length history. pruneToolResults L history opt ! i \<noteq> history ! i \<longrightarrow>
      role (history ! i) = RoleTool \<and>
      (\<exists>p. pruneToolResults L history opt ! i = (history ! i)\<lparr> Content := p, ImageParts := [] \<rparr>)) \<and>
   ValidateToolPairing (map message.truncate (pruneToolResults L history opt)) = ValidateToolPairing (map message.truncate history)"
proof -
  let ?out = "pruneToolResults L history opt" and ?s = "scan_history L opt history"
  note rows = prune_rows(1) [of L history opt] prune_rows(2) [where L = L and h = history and opt = opt]
  have row: "\<exists>p. ?out ! i = (history ! i)\<lparr> Content := p, ImageParts := [] \<rparr> \<and> role (history ! i) = RoleTool"
    if i: "i < length history" and ne: "?out ! i \<noteq> history ! i" for i
  proof -
    obtain p where p: "map_of (evictions L opt ?s) i = Some p" "?out ! i = (history ! i)\<lparr> Content := p, ImageParts := [] \<rparr>"
      using rows(2) [OF i] ne by (auto split: if_splits option.splits)
    then have "i \<in> set (candidates ?s)"
      using evictions_distinct(2) [OF history_candidates(1)] by (force dest: map_of_SomeD)
    with p(2) show ?thesis using history_candidates(2) by blast
  qed
  have "same_frame (message.truncate (?out ! i)) (message.truncate (history ! i))" if "i < length history" for i
    using row [OF that] by (cases "?out ! i = history ! i") (auto simp: same_frame_def message.defs)
  then have "list_all2 same_frame (map message.truncate ?out) (map message.truncate history)"
    using rows(1) by (simp add: list_all2_conv_all_nth)
  then have "ValidateToolPairing (map message.truncate ?out) = ValidateToolPairing (map message.truncate history)"
    by (simp add: ValidateToolPairing_def analyze_frame)
  with rows(1) row show ?thesis by blast
qed

section \<open>The windows\<close>

lemma last_of_sorted:
  assumes "sorted xs" "distinct xs" "0 < n"
  shows "x \<in> set (last_of n xs) \<longleftrightarrow> x \<in> set xs \<and> int (card {y \<in> set xs. y > x}) < n"
proof -
  have strict: "sorted_wrt (<) xs" using assms(1,2) by (simp add: strict_sorted_iff)
  have card: "card {y \<in> set xs. y > xs ! k} = length xs - Suc k" if "k < length xs" for k
  proof -
    have "{y \<in> set xs. y > xs ! k} = set (drop (Suc k) xs)"
    proof (intro set_eqI iffI)
      fix y assume "y \<in> {y \<in> set xs. y > xs ! k}"
      then obtain j where j: "j < length xs" "y = xs ! j" "xs ! k < xs ! j" by (auto simp: in_set_conv_nth)
      then have "k < j" using sorted_nth_mono [OF assms(1), of j k] that by (cases "k < j") auto
      with j show "y \<in> set (drop (Suc k) xs)" by (auto simp: in_set_conv_nth intro!: exI [of _ "j - Suc k"])
    next
      fix y assume "y \<in> set (drop (Suc k) xs)"
      then obtain j where "j < length xs - Suc k" "y = xs ! (Suc k + j)" by (auto simp: in_set_conv_nth)
      then show "y \<in> {y \<in> set xs. y > xs ! k}" using strict by (auto simp: sorted_wrt_nth_less)
    qed
    then show ?thesis using assms(2) by (simp add: distinct_card)
  qed
  have mem: "x \<in> set (last_of n xs) \<longleftrightarrow> (\<exists>k < length xs. x = xs ! k \<and> nat (int (length xs) - n) \<le> k)"
    unfolding last_of_def in_set_conv_nth
  proof (intro iffI; elim exE conjE)
    fix j assume "j < length (drop (nat (int (length xs) - n)) xs)" "drop (nat (int (length xs) - n)) xs ! j = x"
    then show "\<exists>k<length xs. x = xs ! k \<and> nat (int (length xs) - n) \<le> k" by (intro exI [of _ "nat (int (length xs) - n) + j"]) auto
  next
    fix k assume "k < length xs" "x = xs ! k" "nat (int (length xs) - n) \<le> k"
    then show "\<exists>i<length (drop (nat (int (length xs) - n)) xs). drop (nat (int (length xs) - n)) xs ! i = x"
      by (intro exI [of _ "k - nat (int (length xs) - n)"]) auto
  qed
  have "int (length xs - Suc k) < n \<longleftrightarrow> nat (int (length xs) - n) \<le> k" if "k < length xs" for k
    using that by linarith
  with card mem show ?thesis by (auto simp: in_set_conv_nth)
qed

definition reads_and_greps :: "evict_scan \<Rightarrow> nat set" where
  "reads_and_greps s = set (map rd_msgIdx (sc_reads s) @ map gr_msgIdx (sc_greps s))"

lemma recent_window:
  assumes "distinct (candidates s)" "i \<in> reads_and_greps s"
  shows "i \<in> set (recentCandidateWindow (sc_reads s) (sc_greps s) n) \<longleftrightarrow> int (card {j \<in> reads_and_greps s. j > i}) < n"
proof (cases "n \<le> 0")
  case False
  have d: "distinct (sort (map rd_msgIdx (sc_reads s) @ map gr_msgIdx (sc_greps s)))" using assms(1) by (auto simp: candidates_def)
  show ?thesis
    using last_of_sorted [OF _ d, of n i] assms(2) False by (simp add: recentCandidateWindow_def reads_and_greps_def)
qed (auto simp: recentCandidateWindow_def)

definition listing_steps :: "evict_scan \<Rightarrow> nat set" where
  "listing_steps s = set (map ls_step (sc_listings s))"

lemma step_window:
  assumes "i \<in> listing_steps s" "0 < n"
  shows "i \<in> set (listingStepWindow (sc_listings s) n) \<longleftrightarrow> int (card {j \<in> listing_steps s. j > i}) < n"
  using last_of_sorted [of "sort (remdups (map ls_step (sc_listings s)))" n i] assms
  by (auto simp: listingStepWindow_def listing_steps_def)

section \<open>What is collapsed\<close>

definition evicted :: "evict_lib \<Rightarrow> resultEvictionOptions \<Rightarrow> message list \<Rightarrow> nat set" where
  "evicted L opt h = (if opt_Enabled opt then fst ` set (evictions L opt (scan_history L opt h)) else {})"

lemma map_filter_index:
  assumes "\<And>x e. f x = Some e \<Longrightarrow> fst e = g x"
  shows "i \<in> fst ` set (List.map_filter f xs) \<longleftrightarrow> (\<exists>x \<in> set xs. g x = i \<and> f x \<noteq> None)"
  using assms by (induction xs) (auto simp: List.map_filter_simps split: option.split)

lemma in_evictions:
  "i \<in> fst ` set (evictions L opt s) \<longleftrightarrow>
    (\<exists>r \<in> set (sc_reads s). rd_msgIdx r = i \<and>
       read_fate L (opt_CWD opt) (recentCandidateWindow (sc_reads s) (sc_greps s) (KeepRecent opt)) s r \<noteq> None) \<or>
    (\<exists>g \<in> set (sc_greps s). gr_msgIdx g = i \<and>
       grep_fate L (opt_CWD opt) (recentCandidateWindow (sc_reads s) (sc_greps s) (KeepRecent opt)) s g \<noteq> None) \<or>
    (\<exists>l \<in> set (sc_listings s). ls_msgIdx l = i \<and>
       listing_fate L (opt_CWD opt) (listingStepWindow (sc_listings s) (max (KeepRecentSteps opt) 1)) s l \<noteq> None)"
proof -
  note mf = map_filter_index [where i = i]
  show ?thesis
    unfolding evictions_def Let_def set_append image_Un Un_iff
    using mf [of "read_fate L (opt_CWD opt) (recentCandidateWindow (sc_reads s) (sc_greps s) (KeepRecent opt)) s" rd_msgIdx, OF fate_index(1)]
      mf [of "grep_fate L (opt_CWD opt) (recentCandidateWindow (sc_reads s) (sc_greps s) (KeepRecent opt)) s" gr_msgIdx, OF fate_index(2)]
      mf [of "listing_fate L (opt_CWD opt) (listingStepWindow (sc_listings s) (max (KeepRecentSteps opt) 1)) s" ls_msgIdx, OF fate_index(3)]
    by simp
qed

definition read_goes :: "evict_lib \<Rightarrow> resultEvictionOptions \<Rightarrow> evict_scan \<Rightarrow> evReadResult \<Rightarrow> bool" where
  "read_goes L opt s r \<longleftrightarrow> staleReadWrite L r (sc_writes s) \<noteq> None \<or>
     int (card {j \<in> reads_and_greps s. j > rd_msgIdx r}) \<ge> KeepRecent opt \<and> \<not> rd_keep r \<and> \<not> readPinned L r (sc_readPins s)"

definition grep_goes :: "evict_lib \<Rightarrow> resultEvictionOptions \<Rightarrow> evict_scan \<Rightarrow> evGrepResult \<Rightarrow> bool" where
  "grep_goes L opt s g \<longleftrightarrow> staleGrepWrite L g (sc_writes s) \<noteq> None \<or>
     int (card {j \<in> reads_and_greps s. j > gr_msgIdx g}) \<ge> KeepRecent opt \<and> \<not> gr_keep g \<and> \<not> grepPinned L g (sc_grepPins s)"

definition listing_goes :: "evict_lib \<Rightarrow> resultEvictionOptions \<Rightarrow> evict_scan \<Rightarrow> evListing \<Rightarrow> bool" where
  "listing_goes L opt s l \<longleftrightarrow> staleListingWrite L l (sc_writes s) \<noteq> None \<or>
     int (card {j \<in> listing_steps s. j > ls_step l}) \<ge> max (KeepRecentSteps opt) 1"

lemma evicted_iff:
  assumes "opt_Enabled opt" and s: "s = scan_history L opt h"
  shows "i \<in> evicted L opt h \<longleftrightarrow>
    (\<exists>r \<in> set (sc_reads s). rd_msgIdx r = i \<and> read_goes L opt s r) \<or>
    (\<exists>g \<in> set (sc_greps s). gr_msgIdx g = i \<and> grep_goes L opt s g) \<or>
    (\<exists>l \<in> set (sc_listings s). ls_msgIdx l = i \<and> listing_goes L opt s l)"
proof -
  have d: "distinct (candidates s)" by (simp add: s history_candidates)
  have r: "read_fate L (opt_CWD opt) (recentCandidateWindow (sc_reads s) (sc_greps s) (KeepRecent opt)) s r \<noteq> None \<longleftrightarrow> read_goes L opt s r"
    if "r \<in> set (sc_reads s)" for r
    using recent_window [OF d, of "rd_msgIdx r" "KeepRecent opt"] that
    by (auto simp: read_fate_def read_goes_def reads_and_greps_def split: option.split)
  have g: "grep_fate L (opt_CWD opt) (recentCandidateWindow (sc_reads s) (sc_greps s) (KeepRecent opt)) s g \<noteq> None \<longleftrightarrow> grep_goes L opt s g"
    if "g \<in> set (sc_greps s)" for g
    using recent_window [OF d, of "gr_msgIdx g" "KeepRecent opt"] that
    by (auto simp: grep_fate_def grep_goes_def reads_and_greps_def split: option.split)
  have l: "listing_fate L (opt_CWD opt) (listingStepWindow (sc_listings s) (max (KeepRecentSteps opt) 1)) s l \<noteq> None \<longleftrightarrow> listing_goes L opt s l"
    if "l \<in> set (sc_listings s)" for l
    using step_window [of "ls_step l" s "max (KeepRecentSteps opt) 1"] that
    by (auto simp: listing_fate_def listing_goes_def listing_steps_def split: option.split)
  have "i \<in> evicted L opt h \<longleftrightarrow> i \<in> fst ` set (evictions L opt s)" using assms by (simp add: evicted_def)
  then show ?thesis unfolding in_evictions using r g l by blast
qed

lemma map_filter_ex: "e \<in> set (List.map_filter f xs) \<Longrightarrow> \<exists>x \<in> set xs. f x = Some e"
  by (induction xs) (auto simp: List.map_filter_simps split: option.splits)

lemma fate_prefix:
  "read_fate L cwd w s r = Some e \<Longrightarrow> has_prefix (snd e) ''[evicted: ''"
  "grep_fate L cwd w s g = Some e \<Longrightarrow> has_prefix (snd e) ''[evicted: ''"
  "listing_fate L cwd st s l = Some e \<Longrightarrow> has_prefix (snd e) ''[evicted: ''"
  by (auto simp: read_fate_def grep_fate_def listing_fate_def readStalePlaceholder_def readEvictedPlaceholder_def
    grepStalePlaceholder_def grepEvictedPlaceholder_def listingStalePlaceholder_def listingEvictedPlaceholder_def
    has_prefix_def Let_def split: option.splits if_splits)

lemma placeholder_prefix: "e \<in> set (evictions L opt s) \<Longrightarrow> has_prefix (snd e) ''[evicted: ''"
  unfolding evictions_def Let_def set_append Un_iff using map_filter_ex fate_prefix by metis


section \<open>A growing conversation\<close>

definition keeps_nothing :: "message list \<Rightarrow> bool" where
  "keeps_nothing ms \<longleftrightarrow> (\<forall>m \<in> set ms. \<forall>tc \<in> set (ToolCalls m). call_Name tc \<noteq> ''keep_result'')"

lemma scan_call_pins:
  "call_Name tc \<noteq> ''keep_result'' \<Longrightarrow> sc_readPins (scan_call L opt i tc s) = sc_readPins s \<and> sc_grepPins (scan_call L opt i tc s) = sc_grepPins s"
  by (simp add: scan_call_def Let_def)

lemma scan_calls_pins:
  "(\<And>tc. tc \<in> set tcs \<Longrightarrow> call_Name tc \<noteq> ''keep_result'') \<Longrightarrow>
    sc_readPins (fold (scan_call L opt i) tcs s) = sc_readPins s \<and> sc_grepPins (fold (scan_call L opt i) tcs s) = sc_grepPins s"
  by (induction tcs arbitrary: s) (simp_all add: scan_call_pins)

lemma scan_pins:
  "keeps_nothing ms \<Longrightarrow> sc_readPins (fold (scan_message L opt) (enumerate n ms) s) = sc_readPins s \<and>
    sc_grepPins (fold (scan_message L opt) (enumerate n ms) s) = sc_grepPins s"
proof (induction ms arbitrary: n s)
  case (Cons m ms)
  have result: "sc_readPins (scan_result L opt n m t) = sc_readPins t \<and> sc_grepPins (scan_result L opt n m t) = sc_grepPins t" for t
    by (simp add: scan_result_def Let_def split: option.split)
  have "sc_readPins (scan_message L opt (n, m) s) = sc_readPins s \<and> sc_grepPins (scan_message L opt (n, m) s) = sc_grepPins s"
    using Cons.prems scan_calls_pins [of "ToolCalls m"] by (simp add: scan_message_def result keeps_nothing_def)
  moreover have "keeps_nothing ms" using Cons.prems by (simp add: keeps_nothing_def)
  ultimately show ?case using Cons.IH by simp
qed simp

lemma find_append: "find P (xs @ ys) = (case find P xs of Some x \<Rightarrow> Some x | None \<Rightarrow> find P ys)"
  by (induction xs) auto

lemma card_later: "finite B \<Longrightarrow> A \<subseteq> B \<Longrightarrow> card {j \<in> A. j > (i::nat)} \<le> card {j \<in> B. j > i}"
  by (rule card_mono) auto

lemma goes_mono:
  assumes ext: "extends s t" and pins: "sc_readPins t = sc_readPins s" "sc_grepPins t = sc_grepPins s"
  shows "read_goes L opt s r \<Longrightarrow> read_goes L opt t r" "grep_goes L opt s g \<Longrightarrow> grep_goes L opt t g"
    "listing_goes L opt s l \<Longrightarrow> listing_goes L opt t l"
proof -
  obtain ws where ws: "sc_writes t = sc_writes s @ ws" using ext by (auto simp: extends_def prefix_def)
  have stale: "staleReadWrite L r (sc_writes s) \<noteq> None \<Longrightarrow> staleReadWrite L r (sc_writes t) \<noteq> None"
    "staleGrepWrite L g (sc_writes s) \<noteq> None \<Longrightarrow> staleGrepWrite L g (sc_writes t) \<noteq> None"
    "staleListingWrite L l (sc_writes s) \<noteq> None \<Longrightarrow> staleListingWrite L l (sc_writes t) \<noteq> None"
    by (auto simp: staleReadWrite_def staleGrepWrite_def staleListingWrite_def ws find_append split: option.splits if_splits)
  have sub: "reads_and_greps s \<subseteq> reads_and_greps t" "listing_steps s \<subseteq> listing_steps t"
    using ext by (auto simp: extends_def reads_and_greps_def listing_steps_def prefix_def)
  have fin: "finite (reads_and_greps t)" "finite (listing_steps t)" by (simp_all add: reads_and_greps_def listing_steps_def)
  have later: "int (card {j \<in> reads_and_greps s. j > i}) \<le> int (card {j \<in> reads_and_greps t. j > i})"
    "int (card {j \<in> listing_steps s. j > i}) \<le> int (card {j \<in> listing_steps t. j > i})" for i
    using card_later [OF fin(1) sub(1), of i] card_later [OF fin(2) sub(2), of i] by simp_all
  show "read_goes L opt s r \<Longrightarrow> read_goes L opt t r" using stale(1) later(1) [of "rd_msgIdx r"] by (auto simp: read_goes_def pins)
  show "grep_goes L opt s g \<Longrightarrow> grep_goes L opt t g" using stale(2) later(1) [of "gr_msgIdx g"] by (auto simp: grep_goes_def pins)
  show "listing_goes L opt s l \<Longrightarrow> listing_goes L opt t l" using stale(3) later(2) [of "ls_step l"] by (auto simp: listing_goes_def)
qed

text \<open>
  The projection only moves one way: a result that is collapsed stays collapsed when the
  conversation goes on, whatever is read, listed or written next, unless the model pins a result
  with \<^verbatim>\<open>keep_result\<close>.
\<close>
theorem eviction_monotone:
  assumes "keeps_nothing rest" "i < length history" "pruneToolResults L history opt ! i \<noteq> history ! i"
  shows "i \<in> evicted L opt (history @ rest)"
proof -
  have on: "opt_Enabled opt" using assms(2,3) prune_rows(2) by (auto split: if_splits)
  let ?s = "scan_history L opt history" and ?t = "scan_history L opt (history @ rest)"
  have t: "?t = fold (scan_message L opt) (enumerate (length history) rest) ?s"
    by (simp add: scan_history_def enumerate_append_eq)
  have ext: "extends ?s ?t"
    unfolding t using scan_candidates [of ?s "length history" L opt rest] history_candidates(1) [of L opt history] history_candidates(2) [where L = L and opt = opt and h = history] by blast
  have pins: "sc_readPins ?t = sc_readPins ?s" "sc_grepPins ?t = sc_grepPins ?s" unfolding t using scan_pins [OF assms(1)] by auto
  have sub: "set (sc_reads ?s) \<subseteq> set (sc_reads ?t)" "set (sc_greps ?s) \<subseteq> set (sc_greps ?t)" "set (sc_listings ?s) \<subseteq> set (sc_listings ?t)"
    using ext by (auto simp: extends_def prefix_def)
  have "i \<in> evicted L opt history"
    using assms(2,3) on prune_rows(2) [OF assms(2)] by (auto simp: evicted_def map_of_eq_None_iff split: option.splits dest: map_of_SomeD)
      (metis image_eqI map_of_SomeD fst_conv)
  then show ?thesis
    unfolding evicted_iff [OF on refl] using goes_mono [OF ext pins] sub by blast
qed

section \<open>Witnesses\<close>

definition demo_lib :: evict_lib where
  "demo_lib = \<lparr> IsAbs = (\<lambda>p. has_prefix p ''/''), Join = (\<lambda>d p. d @ ''/'' @ p), Abs = Some, Clean = id,
     Rel = (\<lambda>d p. if p = d then Some ''.'' else if has_prefix p (d @ ''/'') then Some (drop (length d + 1) p) else Some ''..''),
     ToSlash = id, Separator = CHR ''/'', on_windows = False, EqualFold = (=), Quoted = id,
     json_read = (\<lambda>j. \<lparr> ra_path = j, ra_offset = 0, ra_limit = 0, ra_keep = False \<rparr>),
     json_grep = (\<lambda>j. \<lparr> ga_pattern = j, ga_path = [], ga_keep = False \<rparr>),
     json_pin = (\<lambda>j. \<lparr> pa_path = j, pa_offset = 0, pa_limit = 0, pa_pattern = [] \<rparr>),
     json_glob = (\<lambda>j. (j, [])), json_tree = id, json_search = id, json_fetch = id, json_mv = (\<lambda>_. None), json_write = Some \<rparr>"

definition demo_opt :: resultEvictionOptions where
  "demo_opt = \<lparr> opt_Enabled = True, KeepRecent = 1, MinResultBytes = 2, opt_CWD = ''/w'', ListingTools = listingTools, KeepRecentSteps = 3 \<rparr>"

definition demo_message :: "Role \<Rightarrow> bytes \<Rightarrow> ToolCall list \<Rightarrow> bytes \<Rightarrow> message" where
  "demo_message r content tcs i = \<lparr> role = r, Content = content, Reasoning = [], Truncated = False, ToolCalls = tcs, ToolCallID = i,
     PlanDocument = False, CompactionSummary = False, CompactionBlock = False, FollowUp = False, msg_Model = [], CreatedAt = [],
     ImageParts = [], Artifacts = [], ReasoningSignature = [], Rules = [], Ephemeral = False \<rparr>"

definition demo_call :: "bytes \<Rightarrow> bytes \<Rightarrow> bytes \<Rightarrow> ToolCall" where
  "demo_call i name j = \<lparr> call_ID = i, call_Name = name, InputJSON = j \<rparr>"

definition demo_reads :: "message list" where
  "demo_reads =
     [demo_message RoleAssistant [] [demo_call ''1'' ''read'' ''a.go'', demo_call ''2'' ''read'' ''b.go''] [],
      demo_message RoleTool ''package a'' [] ''1'', demo_message RoleTool ''package b'' [] ''2'']"

lemma demo_pruned: "map Content (pruneToolResults demo_lib demo_reads demo_opt) =
  [[], ''[evicted: a.go contents, not marked as useful; re-read if this range is needed again]'', ''package b'']"
  by code_simp

lemma prune_keeps_frame_witness:
  "role (demo_reads ! 1) = RoleTool \<and>
   (\<exists>p. pruneToolResults demo_lib demo_reads demo_opt ! 1 = (demo_reads ! 1)\<lparr> Content := p, ImageParts := [] \<rparr>)"
proof -
  have "Content (pruneToolResults demo_lib demo_reads demo_opt ! 1) \<noteq> Content (demo_reads ! 1)" by code_simp
  then have "pruneToolResults demo_lib demo_reads demo_opt ! 1 \<noteq> demo_reads ! 1" by metis
  moreover have "1 < length demo_reads" by (simp add: demo_reads_def)
  ultimately show ?thesis using prune_keeps_frame [of demo_lib demo_reads demo_opt] by blast
qed


lemma eviction_monotone_witness: "1 \<in> evicted demo_lib demo_opt (demo_reads @ [demo_message RoleUser ''go on'' [] []])"
proof -
  have "Content (pruneToolResults demo_lib demo_reads demo_opt ! 1) \<noteq> Content (demo_reads ! 1)" by code_simp
  then have "pruneToolResults demo_lib demo_reads demo_opt ! 1 \<noteq> demo_reads ! 1" by metis
  moreover have "keeps_nothing [demo_message RoleUser ''go on'' [] []]" by (simp add: keeps_nothing_def demo_message_def)
  moreover have "1 < length demo_reads" by (simp add: demo_reads_def)
  ultimately show ?thesis by (rule eviction_monotone [rotated 2])
qed

text \<open>
  A write that never ran counts as done when it was stopped by a hook, by an interruption or by the
  end of the turn: the read before it is collapsed, though the file is as it was read.
\<close>

lemma blocked_write_counts:
  "list_all writeResultSucceeded [''blocked by hook: not here'', ''cancelled before the tool ran'',
     ''not executed: the turn was interrupted before this tool call ran'']"
  by code_simp

lemma blocked_write_evicts_read:
  "map Content (pruneToolResults demo_lib
     [demo_message RoleAssistant [] [demo_call ''1'' ''read'' ''a.go''] [], demo_message RoleTool ''package a'' [] ''1'',
      demo_message RoleAssistant [] [demo_call ''2'' ''edit'' ''a.go''] [], demo_message RoleTool ''blocked by hook: not here'' [] ''2''] demo_opt) =
   [[], ''[evicted: a.go was modified after this read; re-read for current contents]'', [], ''blocked by hook: not here'']"
  by code_simp

end
