(* ===== verification/Pictures.thy ===== *)
theory Pictures
  imports ToolPairing_Correct Eviction
begin

text \<open>
  The pictures of a request (\<^verbatim>\<open>internal/agent/tool_images.go\<close>, \<^verbatim>\<open>internal/llm/attachments.go\<close>): which of
  the history's pictures go out, and the projection that moves those of tool results into a user message
  after each run of results. Sizes are integers: a history holds far fewer than \<open>2 ^ 63\<close> bytes. The reading
  of a picture's saved copy and \<^verbatim>\<open>filepath.Base\<close> are parameters.
\<close>

section \<open>What is a picture\<close>

definition isPictureType :: "bytes \<Rightarrow> bool" where
  "isPictureType mime \<longleftrightarrow> has_prefix mime ''image/'' \<and> mime \<noteq> ''image/svg+xml''"

definition data_url_type :: "bytes \<Rightarrow> bytes" where
  "data_url_type url =
     (if \<not> has_prefix url ''data:'' then []
      else (case str_cut '','' (trim_prefix url ''data:'') of
              (header, _, found) \<Rightarrow>
                if \<not> found then [] else to_lower (trim_space (hd (split_on (CHR '';'') header)))))"

definition IsPicture :: "image_part \<Rightarrow> bool" where
  "IsPicture p \<longleftrightarrow>
     (if DataURL p = [] then isPictureType (MIMEType p)
      else if \<not> has_prefix (DataURL p) ''data:'' then has_prefix (DataURL p) ''https://''
      else isPictureType (data_url_type (DataURL p)))"

section \<open>The window of pictures\<close>

definition toolImagesMaxCount :: int where "toolImagesMaxCount = 20"
definition toolImagesMaxBytes :: int where "toolImagesMaxBytes = 20 * 2 ^ 20"

text \<open>
  The state of the walk: the first picture of the window, how many it holds and their bytes. A picture
  past the end is an index out of range, \<open>None\<close>.
\<close>

function shrink :: "(nat \<Rightarrow> int \<Rightarrow> int \<Rightarrow> bool) \<Rightarrow> int list \<Rightarrow> nat \<times> int \<times> int \<Rightarrow> (nat \<times> int \<times> int) option" where
  "shrink go sizes (start, count, bulk) =
     (if go start count bulk then
        (if start < length sizes then shrink go sizes (start + 1, count - 1, bulk - sizes ! start) else None)
      else Some (start, count, bulk))"
  by pat_completeness auto
termination by (relation "measure (\<lambda>(go, sizes, start, _). length sizes - start)") auto

declare shrink.simps [simp del]

definition over_limits :: "int \<Rightarrow> int \<Rightarrow> bool" where
  "over_limits count bulk \<longleftrightarrow> count > toolImagesMaxCount \<or> bulk > toolImagesMaxBytes"

definition over_half :: "int \<Rightarrow> int \<Rightarrow> bool" where
  "over_half count bulk \<longleftrightarrow> count > toolImagesMaxCount div 2 \<or> bulk > toolImagesMaxBytes div 2"

definition leaves_earlier :: "nat list \<Rightarrow> nat \<Rightarrow> nat \<Rightarrow> int \<Rightarrow> int \<Rightarrow> bool" where
  "leaves_earlier steps k start count bulk \<longleftrightarrow> count > 1 \<and> steps ! start \<noteq> steps ! k \<and> over_half count bulk"

definition picture_step :: "int list \<Rightarrow> nat list \<Rightarrow> nat \<Rightarrow> nat \<times> int \<times> int \<Rightarrow> (nat \<times> int \<times> int) option" where
  "picture_step sizes steps k w =
     (case w of (start, count, bulk) \<Rightarrow>
        let count = count + 1; bulk = bulk + sizes ! k in
        if \<not> over_limits count bulk then Some (start, count, bulk)
        else Option.bind (shrink (leaves_earlier steps k) sizes (start, count, bulk))
               (shrink (\<lambda>_. over_limits) sizes))"

fun picture_walk :: "int list \<Rightarrow> nat list \<Rightarrow> nat list \<Rightarrow> nat \<times> int \<times> int \<Rightarrow> (nat \<times> int \<times> int) option" where
  "picture_walk sizes steps [] w = Some w"
| "picture_walk sizes steps (k # ks) w = Option.bind (picture_step sizes steps k w) (picture_walk sizes steps ks)"

definition pictureWindowStart :: "int list \<Rightarrow> nat list \<Rightarrow> nat option" where
  "pictureWindowStart sizes steps = map_option fst (picture_walk sizes steps [0..<length sizes] (0, 0, 0))"

section \<open>The pictures a request carries\<close>

text \<open>The pictures of the history: where they are, and what they are.\<close>

definition pictures_of :: "nat \<times> message \<Rightarrow> ((nat \<times> nat) \<times> image_part) list" where
  "pictures_of row =
     (case row of (i, m) \<Rightarrow>
        map (\<lambda>(j, p). ((i, j), p)) (filter (\<lambda>(j, p). IsPicture p) (enumerate 0 (ImageParts m))))"

definition all_pictures :: "message list \<Rightarrow> ((nat \<times> nat) \<times> image_part) list" where
  "all_pictures msgs = concat (map pictures_of (enumerate 0 msgs))"

record selection =
  sel_kept :: "((nat \<times> nat) \<times> bytes) list"
  sel_missing :: "(nat \<times> nat) list"

text \<open>\<open>load\<close> reads the saved copy of a picture; no loader (\<open>None\<close>) takes every copy to be there.\<close>

definition selectPictures :: "message list \<Rightarrow> bool \<Rightarrow> (image_part \<Rightarrow> bytes option) option \<Rightarrow> selection option" where
  "selectPictures msgs readsImages load =
     (if \<not> readsImages then Some \<lparr> sel_kept = [], sel_missing = [] \<rparr>
      else
        (let all = all_pictures msgs in
         map_option (\<lambda>start.
           (let loaded = map (\<lambda>(key, p). (key,
                  if DataURL p = [] then (case load of None \<Rightarrow> Some [] | Some f \<Rightarrow> f p) else Some (DataURL p))) (drop start all)
            in \<lparr> sel_kept = List.map_filter (\<lambda>(key, u). map_option (Pair key) u) loaded,
                 sel_missing = map fst (filter (\<lambda>(key, u). u = None) loaded) \<rparr>))
           (pictureWindowStart (map (partBytes \<circ> snd) all) (map (fst \<circ> fst) all))))"

definition untouched :: "message list \<Rightarrow> bool \<Rightarrow> selection \<Rightarrow> bool" where
  "untouched msgs readsImages sel \<longleftrightarrow>
     list_all (\<lambda>(i, m). list_all (\<lambda>(j, p).
        role m \<noteq> RoleTool \<and> (IsPicture p \<longrightarrow> readsImages \<and> map_of (sel_kept sel) (i, j) = Some (DataURL p)))
       (enumerate 0 (ImageParts m))) (enumerate 0 msgs)"

section \<open>The projection\<close>

abbreviation nl :: bytes where "nl \<equiv> [CHR 0x0A]"

definition new_message :: "Role \<Rightarrow> bytes \<Rightarrow> message" where
  "new_message r content =
     \<lparr> role = r, Content = content, Reasoning = [], Truncated = False, ToolCalls = [], ToolCallID = [],
       PlanDocument = False, CompactionSummary = False, CompactionBlock = False, FollowUp = False, msg_Model = [],
       CreatedAt = [], ImageParts = [], Artifacts = [], ReasoningSignature = [], Rules = [], Ephemeral = False \<rparr>"

definition withAttachmentsLeftOut :: "(bytes \<Rightarrow> bytes) \<Rightarrow> bytes \<Rightarrow> image_part list \<Rightarrow> bool \<Rightarrow> bytes" where
  "withAttachmentsLeftOut Base content parts readsImages =
     trim_right_set nl content @ nl @ nl @ ''[This message came with '' @
     (if readsImages then ''pictures left out of this request to keep it within what the provider takes''
      else ''pictures the current model cannot be shown'') @ '': '' @
     join '', '' (map (\<lambda>p. if part_Name p = [] then Base (FilePath p) else part_Name p) parts) @ ''.]''"

definition toolImagesMessage ::
    "image_part list \<Rightarrow> bytes list \<Rightarrow> bytes list \<Rightarrow> bytes list \<Rightarrow> bool \<Rightarrow> message" where
  "toolImagesMessage parts names omitted gone readsImages =
     (if \<not> readsImages then
        new_message RoleUser (''The tool calls above returned pictures the current model cannot be shown: '' @ join '', '' omitted @ ''.'')
      else
        (let shown = (if names \<noteq> [] then ''The pictures the tool calls above returned, in order:'' @ nl @ ''- '' @
               join (nl @ ''- '') names else []);
             left = (if omitted \<noteq> [] then (if shown \<noteq> [] then nl else []) @
               ''Pictures the tool calls above returned, left out of this request to keep it within what the provider takes; '' @
               ''read the file again or repeat the call to see one: '' @ join '', '' omitted @ ''.'' else []);
             lost = (if gone \<noteq> [] then (if shown @ left \<noteq> [] then nl else []) @
               ''Pictures the tool calls above returned whose saved copy is gone; '' @
               ''read the file again or repeat the call to see one: '' @ join '', '' gone @ ''.'' else [])
         in (new_message RoleUser (shown @ left @ lost))\<lparr> ImageParts := parts \<rparr>))"

text \<open>What the tool rows since the last other row have collected.\<close>

record collected =
  col_parts :: "image_part list"
  col_names :: "bytes list"
  col_omitted :: "bytes list"
  col_gone :: "bytes list"

definition nothing :: collected where
  "nothing = \<lparr> col_parts = [], col_names = [], col_omitted = [], col_gone = [] \<rparr>"

definition flush_pictures :: "bool \<Rightarrow> collected \<Rightarrow> message list" where
  "flush_pictures readsImages c =
     (if col_names c = [] \<and> col_omitted c = [] \<and> col_gone c = [] then []
      else [toolImagesMessage (col_parts c) (col_names c) (col_omitted c) (col_gone c) readsImages])"

definition collect_pictures :: "selection \<Rightarrow> nat \<Rightarrow> message \<Rightarrow> collected \<Rightarrow> collected" where
  "collect_pictures sel i m c =
     fold (\<lambda>(j, p) c.
        let label = part_Name p @ '' (from call '' @ ToolCallID m @ '')'' in
        case map_of (sel_kept sel) (i, j) of
          Some url \<Rightarrow> c\<lparr> col_parts := col_parts c @ [p\<lparr> DataURL := url \<rparr>], col_names := col_names c @ [label] \<rparr>
        | None \<Rightarrow> (if List.member (sel_missing sel) (i, j) then c\<lparr> col_gone := col_gone c @ [label] \<rparr>
                  else c\<lparr> col_omitted := col_omitted c @ [label] \<rparr>))
       (enumerate 0 (ImageParts m)) c"

definition prompt_pictures :: "(bytes \<Rightarrow> bytes) \<Rightarrow> bool \<Rightarrow> selection \<Rightarrow> nat \<Rightarrow> message \<Rightarrow> message" where
  "prompt_pictures Base readsImages sel i m =
     (let placed = map (\<lambda>(j, p).
            if \<not> IsPicture p then Inl p
            else (case map_of (sel_kept sel) (i, j) of Some url \<Rightarrow> Inl (p\<lparr> DataURL := url \<rparr>) | None \<Rightarrow> Inr p))
            (enumerate 0 (ImageParts m));
          parts = List.map_filter (case_sum Some (\<lambda>_. None)) placed;
          left = List.map_filter (case_sum (\<lambda>_. None) Some) placed
      in m\<lparr> Content := (if left \<noteq> [] then withAttachmentsLeftOut Base (Content m) left readsImages else Content m),
            ImageParts := parts \<rparr>)"

fun project_pictures :: "(bytes \<Rightarrow> bytes) \<Rightarrow> bool \<Rightarrow> selection \<Rightarrow> nat \<Rightarrow> collected \<Rightarrow> message list \<Rightarrow> message list" where
  "project_pictures Base readsImages sel i c [] = flush_pictures readsImages c"
| "project_pictures Base readsImages sel i c (m # ms) =
     (if role m \<noteq> RoleTool then
        flush_pictures readsImages c @
        (if ImageParts m \<noteq> [] then prompt_pictures Base readsImages sel i m else m) #
        project_pictures Base readsImages sel (Suc i) nothing ms
      else m\<lparr> ImageParts := [] \<rparr> # project_pictures Base readsImages sel (Suc i) (collect_pictures sel i m c) ms)"

definition withoutArtifacts :: "message list \<Rightarrow> message list" where
  "withoutArtifacts msgs = map (\<lambda>m. m\<lparr> Artifacts := [] \<rparr>) msgs"

definition withToolImages ::
    "(bytes \<Rightarrow> bytes) \<Rightarrow> (image_part \<Rightarrow> bytes option) \<Rightarrow> bool \<Rightarrow> message list \<Rightarrow> message list option" where
  "withToolImages Base load readsImages msgs =
     (let msgs = withoutArtifacts msgs in
      map_option (\<lambda>sel. if untouched msgs readsImages sel then msgs
                         else project_pictures Base readsImages sel 0 nothing msgs)
        (selectPictures msgs readsImages (Some load)))"

end
