(* ===== verification/Pictures_Correct.thy ===== *)
theory Pictures_Correct
  imports Pictures
begin

text \<open>
  The window of pictures keeps its limits and moves forward only; a request carries no picture outside it,
  and its pairing is that of the history.
\<close>

section \<open>The window\<close>

definition in_window :: "int list \<Rightarrow> nat \<Rightarrow> nat \<times> int \<times> int \<Rightarrow> bool" where
  "in_window sizes k w \<longleftrightarrow>
     (case w of (start, count, bulk) \<Rightarrow>
        start \<le> k \<and> k \<le> length sizes \<and> count = int (k - start) \<and> bulk = sum_list (drop start (take k sizes)))"

lemma in_window_next:
  assumes "in_window sizes k (start, count, bulk)" "start < k"
  shows "start < length sizes" "in_window sizes k (start + 1, count - 1, bulk - sizes ! start)"
proof -
  show "start < length sizes" using assms by (auto simp: in_window_def)
  then have "drop start (take k sizes) = sizes ! start # drop (start + 1) (take k sizes)"
    using assms(2) by (simp add: Cons_nth_drop_Suc [symmetric])
  then show "in_window sizes k (start + 1, count - 1, bulk - sizes ! start)"
    using assms by (auto simp: in_window_def)
qed

lemma shrink_window:
  assumes "in_window sizes k (start, count, bulk)" "\<And>s. \<not> go s 0 0"
  shows "\<exists>s c b. shrink go sizes (start, count, bulk) = Some (s, c, b) \<and> in_window sizes k (s, c, b) \<and> start \<le> s \<and> \<not> go s c b"
  using assms
proof (induction go sizes "(start, count, bulk)" arbitrary: start count bulk rule: shrink.induct)
  case (1 go sizes start count bulk)
  show ?case
  proof (cases "go start count bulk")
    case True
    have "start < k"
    proof (rule ccontr)
      assume "\<not> start < k"
      then have "count = 0 \<and> bulk = 0" using "1.prems"(1) by (auto simp: in_window_def)
      then show False using True "1.prems"(2) by simp
    qed
    note n = in_window_next [OF "1.prems"(1) this]
    show ?thesis using "1.hyps" [OF True n(1) n(2) "1.prems"(2)] True n(1) by (subst shrink.simps) auto
  next
    case False
    then show ?thesis using "1.prems" by (subst shrink.simps) auto
  qed
qed

lemma in_window_grows:
  "\<lbrakk> in_window sizes k (start, count, bulk); k < length sizes \<rbrakk> \<Longrightarrow> in_window sizes (Suc k) (start, count + 1, bulk + sizes ! k)"
  by (auto simp: in_window_def take_Suc_conv_app_nth)

lemma picture_step_window:
  assumes "in_window sizes k w" "k < length sizes"
  shows "\<exists>s c b. picture_step sizes steps k w = Some (s, c, b) \<and> in_window sizes (Suc k) (s, c, b) \<and> fst w \<le> s \<and> \<not> over_limits c b"
proof -
  obtain start count bulk where w: "w = (start, count, bulk)" by (metis prod_cases3)
  let ?c = "count + 1" and ?b = "bulk + sizes ! k"
  have grown: "in_window sizes (Suc k) (start, ?c, ?b)" using in_window_grows assms w by blast
  show ?thesis
  proof (cases "over_limits ?c ?b")
    case True
    obtain s1 c1 b1 where 1: "shrink (leaves_earlier steps k) sizes (start, ?c, ?b) = Some (s1, c1, b1)"
        "in_window sizes (Suc k) (s1, c1, b1)" "start \<le> s1"
      using shrink_window [OF grown, of "leaves_earlier steps k"] by (auto simp: leaves_earlier_def)
    obtain s2 c2 b2 where "shrink (\<lambda>_. over_limits) sizes (s1, c1, b1) = Some (s2, c2, b2)"
        "in_window sizes (Suc k) (s2, c2, b2)" "s1 \<le> s2" "\<not> over_limits c2 b2"
      using shrink_window [OF 1(2), of "\<lambda>_. over_limits"]
      by (auto simp: over_limits_def toolImagesMaxCount_def toolImagesMaxBytes_def)
    then show ?thesis using True 1 w by (auto simp: picture_step_def)
  next
    case False
    then show ?thesis using grown w by (auto simp: picture_step_def)
  qed
qed

lemma picture_walk_window:
  "\<lbrakk> in_window sizes k w; k + n \<le> length sizes; \<not> over_limits (fst (snd w)) (snd (snd w)) \<rbrakk> \<Longrightarrow>
   \<exists>s c b. picture_walk sizes steps [k..<k + n] w = Some (s, c, b) \<and> in_window sizes (k + n) (s, c, b) \<and>
     fst w \<le> s \<and> \<not> over_limits c b"
proof (induction n arbitrary: k w)
  case 0
  then show ?case by (cases w) auto
next
  case (Suc n)
  then obtain s1 c1 b1 where 1: "picture_step sizes steps k w = Some (s1, c1, b1)" "in_window sizes (Suc k) (s1, c1, b1)"
      "fst w \<le> s1" "\<not> over_limits c1 b1"
    using picture_step_window [of sizes k w steps] by auto
  moreover have "[k..<k + Suc n] = k # [Suc k..<Suc k + n]" by (simp add: upt_conv_Cons)
  ultimately show ?case using Suc.IH [OF 1(2)] Suc.prems by fastforce
qed

lemma empty_window: "in_window sizes 0 (0, 0, 0)" "\<not> over_limits 0 0"
  by (auto simp: in_window_def over_limits_def toolImagesMaxCount_def toolImagesMaxBytes_def)

lemma window_bounds:
  "\<exists>s. pictureWindowStart sizes steps = Some s \<and> s \<le> length sizes \<and>
     int (length sizes - s) \<le> toolImagesMaxCount \<and> sum_list (drop s sizes) \<le> toolImagesMaxBytes"
  using picture_walk_window [OF empty_window(1), of "length sizes" sizes steps] empty_window(2)
  by (auto simp: pictureWindowStart_def in_window_def over_limits_def)

text \<open>The walk over the older pictures does not see the newer ones.\<close>

lemma shrink_append:
  assumes "in_window sizes k (start, count, bulk)" "\<And>s. \<not> go s 0 0"
    and "\<And>s c b. in_window sizes k (s, c, b) \<Longrightarrow> go' s c b = go s c b"
  shows "shrink go' (sizes @ newer) (start, count, bulk) = shrink go sizes (start, count, bulk)"
  using assms
proof (induction go sizes "(start, count, bulk)" arbitrary: start count bulk rule: shrink.induct)
  case (1 go sizes start count bulk)
  show ?case
  proof (cases "go start count bulk")
    case True
    have "start < k"
    proof (rule ccontr)
      assume "\<not> start < k"
      then have "count = 0 \<and> bulk = 0" using "1.prems"(1) by (auto simp: in_window_def)
      then show False using True "1.prems"(2) by simp
    qed
    note n = in_window_next [OF "1.prems"(1) this]
    have "shrink go' (sizes @ newer) (start + 1, count - 1, bulk - sizes ! start) = shrink go sizes (start + 1, count - 1, bulk - sizes ! start)"
      using "1.hyps" [OF True n(1) n(2) "1.prems"(2)] "1.prems"(3) by blast
    then show ?thesis using True n(1) "1.prems"(3) [OF "1.prems"(1)] by (simp add: shrink.simps nth_append)
  next
    case False
    then show ?thesis using "1.prems"(3) [OF "1.prems"(1)] by (simp add: shrink.simps)
  qed
qed

lemma leaves_earlier_append:
  assumes "in_window sizes (Suc k) (s, c, b)" "k < length sizes" "length steps = length sizes"
  shows "leaves_earlier (steps @ newer) k s c b = leaves_earlier steps k s c b"
proof (cases "c > 1")
  case True
  then have "s < k" using assms(1) by (auto simp: in_window_def)
  then show ?thesis using assms(2,3) by (simp add: leaves_earlier_def nth_append)
qed (simp add: leaves_earlier_def)

lemma picture_step_append:
  assumes "in_window sizes k w" "k < length sizes" "length steps = length sizes"
  shows "picture_step (sizes @ newer) (steps @ newer_steps) k w = picture_step sizes steps k w"
proof -
  obtain start count bulk where w: "w = (start, count, bulk)" by (metis prod_cases3)
  have grown: "in_window sizes (Suc k) (start, count + 1, bulk + sizes ! k)" using in_window_grows assms w by blast
  have first: "shrink (leaves_earlier (steps @ newer_steps) k) (sizes @ newer) (start, count + 1, bulk + sizes ! k) =
      shrink (leaves_earlier steps k) sizes (start, count + 1, bulk + sizes ! k)"
    using leaves_earlier_append assms(2,3) by (intro shrink_append [OF grown]) (auto simp: leaves_earlier_def)
  obtain s1 c1 b1 where 1: "shrink (leaves_earlier steps k) sizes (start, count + 1, bulk + sizes ! k) = Some (s1, c1, b1)"
      "in_window sizes (Suc k) (s1, c1, b1)"
    using shrink_window [OF grown, of "leaves_earlier steps k"] by (auto simp: leaves_earlier_def)
  have "shrink (\<lambda>_. over_limits) (sizes @ newer) (s1, c1, b1) = shrink (\<lambda>_. over_limits) sizes (s1, c1, b1)"
    using empty_window(2) by (intro shrink_append [OF 1(2)]) auto
  then show ?thesis using first 1(1) assms(2) by (simp add: picture_step_def Let_def w nth_append)
qed

lemma picture_walk_append:
  "\<lbrakk> in_window sizes k w; k + n \<le> length sizes; length steps = length sizes; \<not> over_limits (fst (snd w)) (snd (snd w)) \<rbrakk> \<Longrightarrow>
   picture_walk (sizes @ newer) (steps @ newer_steps) [k..<k + n] w = picture_walk sizes steps [k..<k + n] w"
proof (induction n arbitrary: k w)
  case (Suc n)
  then obtain s1 c1 b1 where 1: "picture_step sizes steps k w = Some (s1, c1, b1)" "in_window sizes (Suc k) (s1, c1, b1)"
      "\<not> over_limits c1 b1"
    using picture_step_window [of sizes k w steps] by auto
  have "[k..<k + Suc n] = k # [Suc k..<Suc k + n]" by (simp add: upt_conv_Cons)
  moreover have "picture_walk (sizes @ newer) (steps @ newer_steps) [Suc k..<Suc k + n] (s1, c1, b1) =
      picture_walk sizes steps [Suc k..<Suc k + n] (s1, c1, b1)"
    using Suc.IH [OF 1(2)] Suc.prems 1(3) by simp
  ultimately show ?case using 1(1) picture_step_append [OF Suc.prems(1) _ Suc.prems(3), of newer newer_steps] Suc.prems(2) by simp
qed simp

lemma picture_walk_split: "picture_walk sizes steps (xs @ ys) w = Option.bind (picture_walk sizes steps xs w) (picture_walk sizes steps ys)"
proof (induction xs arbitrary: w)
  case (Cons k xs)
  then show ?case by (cases "picture_step sizes steps k w") simp_all
qed simp

text \<open>While the newer pictures fit, the window keeps its start.\<close>

lemma picture_walk_fits:
  "\<lbrakk> k + n \<le> length sizes; list_all (\<lambda>b. 0 \<le> b) sizes; \<not> over_limits (c + int n) (b + sum_list (take n (drop k sizes))) \<rbrakk> \<Longrightarrow>
   picture_walk sizes steps [k..<k + n] (s, c, b) = Some (s, c + int n, b + sum_list (take n (drop k sizes)))"
proof (induction n arbitrary: k c b)
  case (Suc n)
  have d: "drop k sizes = sizes ! k # drop (Suc k) sizes" using Suc.prems(1) by (simp add: Cons_nth_drop_Suc)
  have "0 \<le> sum_list (take n (drop (Suc k) sizes))"
    using Suc.prems(2) by (intro sum_list_nonneg) (auto simp: list_all_iff dest!: in_set_takeD in_set_dropD)
  then have "\<not> over_limits (c + 1) (b + sizes ! k)"
    using Suc.prems(3) by (auto simp: over_limits_def d)
  then have step: "picture_step sizes steps k (s, c, b) = Some (s, c + 1, b + sizes ! k)" by (simp add: picture_step_def)
  have ks: "[k..<k + Suc n] = k # [Suc k..<Suc k + n]" by (simp add: upt_conv_Cons)
  have fits: "\<not> over_limits (c + 1 + int n) (b + sizes ! k + sum_list (take n (drop (Suc k) sizes)))"
    using Suc.prems(3) by (simp add: d over_limits_def)
  have "picture_walk sizes steps [Suc k..<Suc k + n] (s, c + 1, b + sizes ! k) =
      Some (s, c + 1 + int n, b + sizes ! k + sum_list (take n (drop (Suc k) sizes)))"
    by (rule Suc.IH [OF _ Suc.prems(2) fits]) (use Suc.prems(1) in simp)
  then show ?case unfolding ks by (simp add: step d)
qed simp

text \<open>Growth of the history: the window never moves back.\<close>

lemma window_moves_forward:
  assumes "length steps = length sizes"
  shows "\<exists>s s'. pictureWindowStart sizes steps = Some s \<and> pictureWindowStart (sizes @ newer) (steps @ newer_steps) = Some s' \<and> s \<le> s'"
proof -
  obtain s c b where w: "picture_walk sizes steps [0..<length sizes] (0, 0, 0) = Some (s, c, b)"
      "in_window sizes (length sizes) (s, c, b)" "\<not> over_limits c b"
    using picture_walk_window [OF empty_window(1), of "length sizes" sizes steps] empty_window(2) by auto
  have old: "picture_walk (sizes @ newer) (steps @ newer_steps) [0..<length sizes] (0, 0, 0) = Some (s, c, b)"
    using picture_walk_append [OF empty_window(1), of "length sizes" sizes steps newer newer_steps] empty_window(2) assms w(1) by simp
  have "in_window (sizes @ newer) (length sizes) (s, c, b)" using w(2) by (auto simp: in_window_def)
  then obtain s' c' b' where "picture_walk (sizes @ newer) (steps @ newer_steps) [length sizes..<length sizes + length newer] (s, c, b) = Some (s', c', b')"
      "s \<le> s'"
    using picture_walk_window [of "sizes @ newer" "length sizes" "(s, c, b)" "length newer" "steps @ newer_steps"] w(3) by auto
  moreover have "[0..<length (sizes @ newer)] = [0..<length sizes] @ [length sizes..<length sizes + length newer]"
    using upt_add_eq_append [of 0 "length sizes" "length newer"] by simp
  ultimately show ?thesis using w(1) old by (auto simp: pictureWindowStart_def picture_walk_split)
qed

section \<open>The pictures of a request\<close>

definition chosen :: "selection \<Rightarrow> (nat \<times> nat) list" where
  "chosen sel = map fst (sel_kept sel) @ sel_missing sel"

lemma all_pictures_append:
  "all_pictures (msgs @ newer) = all_pictures msgs @ concat (map pictures_of (enumerate (length msgs) newer))"
  by (simp add: all_pictures_def enumerate_append_eq)

lemma enumerate_ge: "x \<in> set (enumerate n xs) \<Longrightarrow> n \<le> fst x"
  by (cases x) (auto simp: enumerate_eq_zip dest: set_zip_leftD)

lemma newer_pictures: "x \<in> set (concat (map pictures_of (enumerate n newer))) \<Longrightarrow> n \<le> fst (fst x)"
  by (auto simp: pictures_of_def dest!: enumerate_ge)

lemma split_loaded:
  "set (map fst (List.map_filter (\<lambda>(k, u). map_option (Pair k) u) xs)) \<union> set (map fst (filter (\<lambda>(k, u). u = None) xs)) = fst ` set xs"
  "length (List.map_filter (\<lambda>(k, u). map_option (Pair k) u) xs) + length (filter (\<lambda>(k, u). u = None) xs) = length xs"
  by (induction xs) (auto simp: List.map_filter_simps split: option.splits prod.splits)

lemma selectPictures_window:
  assumes "pictureWindowStart (map (partBytes \<circ> snd) (all_pictures msgs)) (map (fst \<circ> fst) (all_pictures msgs)) = Some start"
  shows "\<exists>sel. selectPictures msgs True load = Some sel \<and> set (chosen sel) = fst ` set (drop start (all_pictures msgs)) \<and>
    length (chosen sel) = length (all_pictures msgs) - start"
proof -
  define loaded where "loaded = map (\<lambda>(key, p). (key,
      if DataURL p = [] then (case load of None \<Rightarrow> Some [] | Some f \<Rightarrow> f p) else Some (DataURL p))) (drop start (all_pictures msgs))"
  have keys: "map fst loaded = map fst (drop start (all_pictures msgs))" by (simp add: loaded_def case_prod_unfold)
  let ?sel = "\<lparr> sel_kept = List.map_filter (\<lambda>(key, u). map_option (Pair key) u) loaded,
      sel_missing = map fst (filter (\<lambda>(key, u). u = None) loaded) \<rparr>"
  have "selectPictures msgs True load = Some ?sel"
    unfolding selectPictures_def loaded_def Let_def using assms by simp
  moreover have "set (chosen ?sel) = fst ` set (drop start (all_pictures msgs))"
    using split_loaded(1) [of loaded] arg_cong [OF keys, of set] by (simp add: chosen_def)
  moreover have "length (chosen ?sel) = length (all_pictures msgs) - start"
    using split_loaded(2) [of loaded] arg_cong [OF keys, of length] by (simp add: chosen_def)
  ultimately show ?thesis by blast
qed


end
