(* ===== verification/ToolCallIds.thy ===== *)
theory ToolCallIds
  imports GoPrelude Transcript
begin

text \<open>
  The ids the calls of one model response get (\<^verbatim>\<open>internal/agent/tool_call_ids.go\<close>): the provider's own
  id where no other call of the session carries it, else the first free form of it with a number. The
  directory of the session answers whether a call was recorded under an id; the set of the ids the
  history holds, and those handed out, are lists.
\<close>

record toolCallIDs =
  id_history :: "bytes list"
  given :: "(bytes \<times> bytes) list"
  taken :: "bytes list"

definition newToolCallIDs :: "message list \<Rightarrow> toolCallIDs" where
  "newToolCallIDs msgs =
     \<lparr> id_history = concat (map (\<lambda>m. map call_ID (ToolCalls m) @ (if ToolCallID m \<noteq> [] then [ToolCallID m] else [])) msgs),
       given = [], taken = [] \<rparr>"

text \<open>\<open>recorded\<close> is \<^verbatim>\<open>session.ToolCallRecorded\<close> in the session's directory, always false without one.\<close>

definition inUse :: "(bytes \<Rightarrow> bool) \<Rightarrow> toolCallIDs \<Rightarrow> bytes \<Rightarrow> bool" where
  "inUse recorded ids c \<longleftrightarrow> c \<in> set (taken ids) \<or> c \<in> set (id_history ids) \<or> recorded c"

definition suffixed :: "bytes \<Rightarrow> nat \<Rightarrow> bytes" where
  "suffixed c n = c @ ''_'' @ digits_of n"

text \<open>The search for a free number; \<open>None\<close> is a search that never ends.\<close>

partial_function (option) first_free :: "(bytes \<Rightarrow> bool) \<Rightarrow> bytes \<Rightarrow> nat \<Rightarrow> bytes option" where
  "first_free used c n = (if used (suffixed c n) then first_free used c (n + 1) else Some (suffixed c n))"

declare first_free.simps [code]

definition claim_id :: "(bytes \<Rightarrow> bool) \<Rightarrow> bytes \<Rightarrow> toolCallIDs \<Rightarrow> (bytes \<times> toolCallIDs) option" where
  "claim_id recorded c ids =
     map_option (\<lambda>out. (out, ids\<lparr> taken := out # taken ids \<rparr>))
       (if inUse recorded ids c then first_free (inUse recorded ids) c 2 else Some c)"

definition streamed :: "(bytes \<Rightarrow> bool) \<Rightarrow> bytes \<Rightarrow> toolCallIDs \<Rightarrow> (bytes \<times> toolCallIDs) option" where
  "streamed recorded c ids =
     (if trim_space c = [] then Some (c, ids)
      else (case map_of (given ids) c of
              Some got \<Rightarrow> Some (got, ids)
            | None \<Rightarrow> map_option (\<lambda>(got, ids). (got, ids\<lparr> given := (c, got) # given ids \<rparr>)) (claim_id recorded c ids)))"

text \<open>The calls the chunks of a stream carry, in their order, under the ids they end up with.\<close>

fun chunk_ids :: "(bytes \<Rightarrow> bool) \<Rightarrow> bytes list \<Rightarrow> toolCallIDs \<Rightarrow> (bytes list \<times> toolCallIDs) option" where
  "chunk_ids recorded [] ids = Some ([], ids)"
| "chunk_ids recorded (c # cs) ids =
     (case streamed recorded c ids of
        None \<Rightarrow> None
      | Some (got, ids) \<Rightarrow> map_option (\<lambda>(gots, ids). (got # gots, ids)) (chunk_ids recorded cs ids))"

text \<open>The calls of the response; \<open>placed\<close> are the provider's ids met so far.\<close>

fun place_calls :: "(bytes \<Rightarrow> bool) \<Rightarrow> bytes list \<Rightarrow> ToolCall list \<Rightarrow> toolCallIDs \<Rightarrow> (ToolCall list \<times> toolCallIDs) option" where
  "place_calls recorded placed [] ids = Some ([], ids)"
| "place_calls recorded placed (tc # tcs) ids =
     (if trim_space (call_ID tc) = [] then map_option (\<lambda>(out, ids). (tc # out, ids)) (place_calls recorded placed tcs ids)
      else (case (if call_ID tc \<in> set placed then claim_id recorded (call_ID tc) ids else streamed recorded (call_ID tc) ids) of
        None \<Rightarrow> None
      | Some (got, ids) \<Rightarrow>
          map_option (\<lambda>(out, ids). (tc\<lparr> call_ID := got \<rparr> # out, ids)) (place_calls recorded (call_ID tc # placed) tcs ids)))"

definition response_calls :: "(bytes \<Rightarrow> bool) \<Rightarrow> ToolCall list \<Rightarrow> toolCallIDs \<Rightarrow> (ToolCall list \<times> toolCallIDs) option" where
  "response_calls recorded tcs ids = place_calls recorded [] tcs ids"

section \<open>Ids are fresh\<close>

lemma suffixed_inject [simp]: "suffixed c m = suffixed c n \<longleftrightarrow> m = n"
  by (simp add: suffixed_def)

lemma trim_with_keeps_last:
  "s \<noteq> [] \<Longrightarrow> (\<And>e. e \<in> set encs \<Longrightarrow> e \<noteq> [] \<Longrightarrow> last e \<noteq> last s) \<Longrightarrow> trim_with encs s \<noteq> [] \<and> last (trim_with encs s) = last s"
proof (induction encs s rule: trim_with.induct)
  case (1 encs s)
  show ?case
  proof (cases "lead_enc encs s")
    case None
    then show ?thesis using 1(2) by (simp add: trim_with_id)
  next
    case (Some e)
    then have e: "e \<in> set encs" "e \<noteq> []" "prefix e s" by (auto dest: lead_enc_SomeD)
    then obtain t where t: "s = e @ t" by (auto simp: prefix_def)
    have "t \<noteq> []" using 1(3) [OF e(1,2)] e(2) t by auto
    then have "last t = last s" by (simp add: t)
    moreover have "trim_with encs s = trim_with encs t" using Some by (simp add: trim_with.simps [of encs s]) (simp add: t)
    ultimately show ?thesis using 1(1) [OF Some] 1(3) \<open>t \<noteq> []\<close> by (simp add: t)
  qed
qed

lemma last_digits: "\<exists>k < (10::nat). last (digits_of n) = (char_of (48 + k) :: char)"
  by (subst digits_of.simps) (auto intro: exI [of _ "n mod 10"] exI [of _ n])

lemma suffixed_not_blank: "trim_space (suffixed c n) \<noteq> []"
proof -
  have ne: "suffixed c n \<noteq> []" "last (suffixed c n) = last (digits_of n)"
    using last_digits [of n] by (auto simp: suffixed_def digits_of.simps [of n])
  obtain k :: nat where k: "k < 10" "last (suffixed c n) = (char_of (48 + k) :: char)" using last_digits ne(2) by metis
  have enc: "last e \<noteq> last (suffixed c n) \<and> hd e \<noteq> last (suffixed c n) \<and> e \<noteq> []" if "e \<in> set space_encodings" for e
  proof -
    have "\<forall>k \<in> {0..<10::nat}. (char_of (48 + k) :: char) \<in> set ''0123456789''" by code_simp
    then have "last (suffixed c n) \<in> set ''0123456789''" unfolding k(2) using k(1) by simp
    then show ?thesis using that by (auto simp: space_encodings_def)
  qed
  have left: "trim_left (suffixed c n) \<noteq> [] \<and> last (trim_left (suffixed c n)) = last (suffixed c n)"
    unfolding trim_left_def by (rule trim_with_keeps_last [OF ne(1)]) (use enc in blast)
  then have "lead_enc (map rev space_encodings) (rev (trim_left (suffixed c n))) = None"
    using enc by (fastforce simp: lead_enc_def find_None_iff prefix_def hd_append hd_rev dest: arg_cong [where f = hd])
  then show ?thesis using left by (simp add: trim_space_def trim_right_def trim_with_id)
qed

lemma first_free_least: "\<lbrakk> \<not> used (suffixed c (n + k)); \<And>j. j < k \<Longrightarrow> used (suffixed c (n + j)) \<rbrakk> \<Longrightarrow> first_free used c n = Some (suffixed c (n + k))"
proof (induction k arbitrary: n)
  case 0
  then show ?case by (subst first_free.simps) simp
next
  case (Suc k)
  have "used (suffixed c n)" using Suc.prems(2) [of 0] by simp
  moreover have "first_free used c (n + 1) = Some (suffixed c (n + 1 + k))"
    using Suc.prems(1) Suc.prems(2) [of "Suc j" for j] by (intro Suc.IH) auto
  ultimately show ?case by (subst first_free.simps) simp
qed

lemma first_free_free: "first_free used c n = Some out \<Longrightarrow> \<not> used out \<and> (\<exists>m. out = suffixed c m)"
  by (rule first_free.raw_induct [where P = "\<lambda>used c n out. \<not> used out \<and> (\<exists>m. out = suffixed c m)"]) (auto split: if_splits)

lemma first_free_ends: "finite {n. used (suffixed c n)} \<Longrightarrow> \<exists>m. first_free used c n = Some (suffixed c m) \<and> \<not> used (suffixed c m)"
proof -
  assume "finite {n. used (suffixed c n)}"
  then have "\<exists>k. \<not> used (suffixed c (n + k))"
    using finite_nat_set_iff_bounded_le [of "{n. used (suffixed c n)}"] by (metis le_add1 mem_Collect_eq not_less_eq_eq add_Suc_right add.commute)
  then obtain k where "\<not> used (suffixed c (n + k))" "\<And>j. j < k \<Longrightarrow> used (suffixed c (n + j))"
    unfolding exists_least_iff [of "\<lambda>k. \<not> used (suffixed c (n + k))"] by blast
  then show ?thesis using first_free_least by blast
qed


text \<open>What handing out ids keeps: the history is as it was, and what was handed out is free and not blank.\<close>

definition ids_ok :: "(bytes \<Rightarrow> bool) \<Rightarrow> toolCallIDs \<Rightarrow> bool" where
  "ids_ok recorded ids \<longleftrightarrow>
     (\<forall>c \<in> set (taken ids). c \<notin> set (id_history ids) \<and> \<not> recorded c \<and> trim_space c \<noteq> []) \<and>
     distinct (taken ids) \<and> distinct (map fst (given ids)) \<and> distinct (map snd (given ids)) \<and> snd ` set (given ids) \<subseteq> set (taken ids)"

lemma claim_id_fresh:
  assumes "claim_id recorded c ids = Some (out, ids')" "ids_ok recorded ids" "trim_space c \<noteq> []"
  shows "ids_ok recorded ids'" "out \<notin> set (taken ids)" "taken ids' = out # taken ids" "given ids' = given ids" "id_history ids' = id_history ids"
proof -
  have free: "\<not> inUse recorded ids out \<and> trim_space out \<noteq> []" and out: "ids' = ids\<lparr> taken := out # taken ids \<rparr>"
    using assms(1,3) first_free_free [of "inUse recorded ids" c 2 out] suffixed_not_blank by (auto simp: claim_id_def split: if_splits)
  show "ids_ok recorded ids'" "out \<notin> set (taken ids)" "taken ids' = out # taken ids" "given ids' = given ids" "id_history ids' = id_history ids"
    using free assms(2) by (auto simp: out ids_ok_def inUse_def)
qed

lemma claim_id_ends: "finite {n. recorded (suffixed c n)} \<Longrightarrow> \<exists>out ids'. claim_id recorded c ids = Some (out, ids')"
proof -
  assume "finite {n. recorded (suffixed c n)}"
  moreover have "finite ((suffixed c) -` (set (taken ids) \<union> set (id_history ids)))"
    by (rule finite_vimageI) (auto intro: injI)
  moreover have "{n. inUse recorded ids (suffixed c n)} \<subseteq>
      {n. recorded (suffixed c n)} \<union> (suffixed c) -` (set (taken ids) \<union> set (id_history ids))"
    by (auto simp: inUse_def)
  ultimately have "finite {n. inUse recorded ids (suffixed c n)}" by (meson finite_UnI finite_subset)
  then show ?thesis using first_free_ends [of "inUse recorded ids" c 2] by (auto simp: claim_id_def)
qed

lemma map_of_inj: "distinct (map snd xs) \<Longrightarrow> map_of xs a = Some g \<Longrightarrow> map_of xs b = Some g \<Longrightarrow> a = b"
  by (induction xs) (auto split: if_splits dest!: map_of_SomeD intro: rev_image_eqI)

lemma streamed_ok:
  assumes "streamed recorded c ids = Some (out, ids')" "ids_ok recorded ids" "trim_space c \<noteq> []"
  shows "ids_ok recorded ids'" "map_of (given ids') c = Some out" "out \<in> set (taken ids')" "id_history ids' = id_history ids"
    "\<And>d. d \<noteq> c \<Longrightarrow> map_of (given ids') d = map_of (given ids) d"
    "set (taken ids) \<subseteq> set (taken ids')" "map_of (given ids) c = None \<Longrightarrow> out \<notin> set (taken ids)"
proof -
  have "ids_ok recorded ids' \<and> map_of (given ids') c = Some out \<and> out \<in> set (taken ids') \<and> id_history ids' = id_history ids \<and>
    (\<forall>d. d \<noteq> c \<longrightarrow> map_of (given ids') d = map_of (given ids) d) \<and>
    set (taken ids) \<subseteq> set (taken ids') \<and> (map_of (given ids) c = None \<longrightarrow> out \<notin> set (taken ids))"
  proof (cases "map_of (given ids) c")
    case None
    then obtain ids1 where c: "claim_id recorded c ids = Some (out, ids1)" "ids' = ids1\<lparr> given := (c, out) # given ids1 \<rparr>"
      using assms(1,3) by (auto simp: streamed_def)
    from claim_id_fresh [OF c(1) assms(2,3)] None assms(2) show ?thesis
      by (auto simp: c(2) ids_ok_def map_of_eq_None_iff image_subset_iff)
  next
    case (Some got)
    then have "got \<in> set (taken ids)" using assms(2) by (auto simp: ids_ok_def dest!: map_of_SomeD)
    then show ?thesis using Some assms by (auto simp: streamed_def)
  qed
  then show "ids_ok recorded ids'" "map_of (given ids') c = Some out" "out \<in> set (taken ids')" "id_history ids' = id_history ids"
    "\<And>d. d \<noteq> c \<Longrightarrow> map_of (given ids') d = map_of (given ids) d"
    "set (taken ids) \<subseteq> set (taken ids')" "map_of (given ids) c = None \<Longrightarrow> out \<notin> set (taken ids)" by blast+
qed


lemma streamed_ends: "finite {n. recorded (suffixed c n)} \<Longrightarrow> \<exists>out ids'. streamed recorded c ids = Some (out, ids')"
  using claim_id_ends [of recorded c ids] by (auto simp: streamed_def split: option.split)

lemma chunk_ids_ok:
  assumes "chunk_ids recorded cs ids = Some (gots, ids')" "ids_ok recorded ids"
  shows "ids_ok recorded ids' \<and> id_history ids' = id_history ids \<and> length gots = length cs \<and>
    (\<forall>d g. map_of (given ids) d = Some g \<longrightarrow> map_of (given ids') d = Some g) \<and>
    (\<forall>k < length cs. trim_space (cs ! k) \<noteq> [] \<longrightarrow> map_of (given ids') (cs ! k) = Some (gots ! k))"
  using assms
proof (induction cs arbitrary: ids gots)
  case (Cons c cs)
  then obtain got ids1 gots1 where s: "streamed recorded c ids = Some (got, ids1)"
      "chunk_ids recorded cs ids1 = Some (gots1, ids')" "gots = got # gots1"
    by (auto split: option.splits)
  show ?case
  proof (cases "trim_space c = []")
    case True
    then have "ids1 = ids" using s(1) by (simp add: streamed_def)
    with Cons.IH [OF s(2)] Cons.prems(2) True show ?thesis by (auto simp: s(3) nth_Cons split: nat.split)
  next
    case False
    note step = streamed_ok [OF s(1) Cons.prems(2) False]
    have keep: "map_of (given ids1) d = Some g" if "map_of (given ids) d = Some g" for d g
      using that step(2,5) s(1) False by (cases "d = c") (auto simp: streamed_def)
    show ?thesis using Cons.IH [OF s(2) step(1)] step(2,4) keep by (auto simp: s(3) nth_Cons split: nat.split)
  qed
qed simp

lemma chunk_ids_ends: "(\<And>c. finite {n. recorded (suffixed c n)}) \<Longrightarrow> \<exists>gots ids'. chunk_ids recorded cs ids = Some (gots, ids')"
proof (induction cs arbitrary: ids)
  case (Cons c cs)
  obtain got ids1 where s: "streamed recorded c ids = Some (got, ids1)" using streamed_ends Cons.prems by blast
  obtain gots ids2 where "chunk_ids recorded cs ids1 = Some (gots, ids2)" using Cons.IH Cons.prems by blast
  then show ?case by (simp add: s)
qed simp

text \<open>The first call under a provider's id has the id that was given for it.\<close>

definition keeps_first :: "bytes list \<Rightarrow> (bytes \<times> bytes) list \<Rightarrow> ToolCall list \<Rightarrow> ToolCall list \<Rightarrow> bool" where
  "keeps_first placed gave tcs out \<longleftrightarrow>
     (\<forall>i < length tcs. trim_space (call_ID (tcs ! i)) \<noteq> [] \<longrightarrow> call_ID (tcs ! i) \<notin> set placed \<longrightarrow>
       (\<forall>j < i. call_ID (tcs ! j) \<noteq> call_ID (tcs ! i)) \<longrightarrow>
       (\<forall>g. map_of gave (call_ID (tcs ! i)) = Some g \<longrightarrow> call_ID (out ! i) = g))"

lemma keeps_first_blank:
  assumes "keeps_first placed gave tcs out" "trim_space (call_ID tc) = []"
  shows "keeps_first placed gave (tc # tcs) (x # out)"
  unfolding keeps_first_def
proof (intro allI impI)
  fix i g
  assume i: "i < length (tc # tcs)" "trim_space (call_ID ((tc # tcs) ! i)) \<noteq> []" "call_ID ((tc # tcs) ! i) \<notin> set placed"
    "\<forall>j < i. call_ID ((tc # tcs) ! j) \<noteq> call_ID ((tc # tcs) ! i)" "map_of gave (call_ID ((tc # tcs) ! i)) = Some g"
  then obtain k where k: "i = Suc k" using assms(2) by (cases i) auto
  have "\<forall>j < k. call_ID (tcs ! j) \<noteq> call_ID (tcs ! k)" using i(4) k by (metis Suc_less_eq nth_Cons_Suc)
  then show "call_ID ((x # out) ! i) = g" using assms(1) i k by (simp add: keeps_first_def)
qed

text \<open>\<open>Out\<close> are the ids the calls before got; one of them is never given to a provider id not met yet.\<close>

lemma place_calls_ok:
  assumes "place_calls recorded placed tcs ids = Some (out, ids')" "ids_ok recorded ids"
    and "Out \<subseteq> set (taken ids)" "\<And>d g. d \<notin> set placed \<Longrightarrow> map_of (given ids) d = Some g \<Longrightarrow> g \<notin> Out"
  shows "map (\<lambda>tc. tc\<lparr> call_ID := [] \<rparr>) out = map (\<lambda>tc. tc\<lparr> call_ID := [] \<rparr>) tcs \<and>
    map (\<lambda>tc. trim_space (call_ID tc) = []) out = map (\<lambda>tc. trim_space (call_ID tc) = []) tcs \<and>
    distinct (filter (\<lambda>c. trim_space c \<noteq> []) (map call_ID out)) \<and>
    (\<forall>tc \<in> set out. trim_space (call_ID tc) \<noteq> [] \<longrightarrow> call_ID tc \<notin> Out \<and> call_ID tc \<notin> set (id_history ids) \<and> \<not> recorded (call_ID tc)) \<and>
    keeps_first placed (given ids) tcs out"
  using assms
proof (induction tcs arbitrary: placed ids out Out)
  case (Cons tc tcs)
  let ?c = "call_ID tc"
  show ?case
  proof (cases "trim_space ?c = []")
    case True
    then obtain out1 where r: "place_calls recorded placed tcs ids = Some (out1, ids')" "out = tc # out1"
      using Cons.prems(1) by auto
    from Cons.IH [OF r(1) Cons.prems(2-4)] show ?thesis using True
      by (auto simp: r(2) keeps_first_blank)
  next
    case False
    obtain got ids1 out1 where s: "(if ?c \<in> set placed then claim_id recorded ?c ids else streamed recorded ?c ids) = Some (got, ids1)"
        "place_calls recorded (?c # placed) tcs ids1 = Some (out1, ids')" "out = tc\<lparr> call_ID := got \<rparr> # out1"
      using Cons.prems(1) False by (auto split: option.splits)
    have step: "ids_ok recorded ids1 \<and> got \<in> set (taken ids1) \<and> got \<notin> Out \<and> id_history ids1 = id_history ids \<and>
        set (taken ids) \<subseteq> set (taken ids1) \<and>
        (\<forall>d g. d \<notin> set (?c # placed) \<longrightarrow> map_of (given ids1) d = Some g \<longrightarrow> map_of (given ids) d = Some g \<and> g \<noteq> got) \<and>
        (\<forall>d g. d \<notin> set (?c # placed) \<longrightarrow> map_of (given ids) d = Some g \<longrightarrow> map_of (given ids1) d = Some g) \<and>
        (?c \<notin> set placed \<longrightarrow> (\<forall>g. map_of (given ids) ?c = Some g \<longrightarrow> got = g))"
    proof (cases "?c \<in> set placed")
      case True
      then have "claim_id recorded ?c ids = Some (got, ids1)" using s(1) by simp
      note c = claim_id_fresh [OF this Cons.prems(2) False]
      have "g \<in> set (taken ids)" if "map_of (given ids) d = Some g" for d g
        using Cons.prems(2) that by (auto simp: ids_ok_def dest!: map_of_SomeD)
      then show ?thesis using c Cons.prems(3) True by auto
    next
      case new: False
      then have str: "streamed recorded ?c ids = Some (got, ids1)" using s(1) by simp
      note c = streamed_ok [OF str Cons.prems(2) False]
      have inj: "d = ?c" if "map_of (given ids1) d = Some got" for d
        using map_of_inj [OF _ that c(2)] c(1) by (simp add: ids_ok_def)
      have "got \<notin> Out"
      proof (cases "map_of (given ids) ?c")
        case None
        then show ?thesis using c(7) Cons.prems(3) by blast
      next
        case (Some g)
        then show ?thesis using Cons.prems(4) [OF new Some] str False by (simp add: streamed_def)
      qed
      moreover have "got = g" if "map_of (given ids) ?c = Some g" for g using that str False by (simp add: streamed_def)
      moreover have "map_of (given ids1) d = map_of (given ids) d" if "d \<notin> set (?c # placed)" for d
        using c(5) that by simp
      moreover have "g \<noteq> got" if "d \<notin> set (?c # placed)" "map_of (given ids1) d = Some g" for d g
        using inj that by auto
      ultimately have rest: "got \<notin> Out" "\<And>g. map_of (given ids) ?c = Some g \<Longrightarrow> got = g"
          "\<And>d. d \<notin> set (?c # placed) \<Longrightarrow> map_of (given ids1) d = map_of (given ids) d"
          "\<And>d g. d \<notin> set (?c # placed) \<Longrightarrow> map_of (given ids1) d = Some g \<Longrightarrow> g \<noteq> got" by blast+
      show ?thesis
      proof (intro conjI allI impI)
        show "map_of (given ids) d = Some g" if "d \<notin> set (?c # placed)" "map_of (given ids1) d = Some g" for d g
          using rest(3) [OF that(1)] that(2) by simp
        show "map_of (given ids1) d = Some g" if "d \<notin> set (?c # placed)" "map_of (given ids) d = Some g" for d g
          using rest(3) [OF that(1)] that(2) by simp
      qed ((fact c(1) c(3) rest(1) c(4) c(6) rest(4)) | erule rest(2))+
    qed
    then have st: "ids_ok recorded ids1" "got \<in> set (taken ids1)" "got \<notin> Out" "id_history ids1 = id_history ids" by blast+
    have st_given: "map_of (given ids1) d = Some g" if "d \<notin> set (?c # placed)" "map_of (given ids) d = Some g" for d g
      using step that by blast
    have st_first: "got = g" if "?c \<notin> set placed" "map_of (given ids) ?c = Some g" for g using step that by blast
    have "insert got Out \<subseteq> set (taken ids1)" using step Cons.prems(3) by blast
    moreover have "g \<notin> insert got Out" if "d \<notin> set (?c # placed)" "map_of (given ids1) d = Some g" for d g
    proof -
      have "map_of (given ids) d = Some g \<and> g \<noteq> got" using step that by blast
      moreover have "d \<notin> set placed" using that(1) by simp
      ultimately show ?thesis using Cons.prems(4) by blast
    qed
    ultimately have IH: "map (\<lambda>tc. tc\<lparr> call_ID := [] \<rparr>) out1 = map (\<lambda>tc. tc\<lparr> call_ID := [] \<rparr>) tcs \<and>
      map (\<lambda>tc. trim_space (call_ID tc) = []) out1 = map (\<lambda>tc. trim_space (call_ID tc) = []) tcs \<and>
      distinct (filter (\<lambda>c. trim_space c \<noteq> []) (map call_ID out1)) \<and>
      (\<forall>tc \<in> set out1. trim_space (call_ID tc) \<noteq> [] \<longrightarrow> call_ID tc \<notin> insert got Out \<and> call_ID tc \<notin> set (id_history ids1) \<and> \<not> recorded (call_ID tc)) \<and>
      keeps_first (?c # placed) (given ids1) tcs out1"
      using Cons.IH [OF s(2) st(1), of "insert got Out"] by blast
    have got: "trim_space got \<noteq> []" "got \<notin> set (id_history ids)" "\<not> recorded got"
      using st by (auto simp: ids_ok_def)
    have first: "keeps_first placed (given ids) (tc # tcs) out"
      unfolding keeps_first_def
    proof (intro allI impI)
      fix i g
      assume i: "i < length (tc # tcs)" "trim_space (call_ID ((tc # tcs) ! i)) \<noteq> []"
        "call_ID ((tc # tcs) ! i) \<notin> set placed" "\<forall>j < i. call_ID ((tc # tcs) ! j) \<noteq> call_ID ((tc # tcs) ! i)"
        "map_of (given ids) (call_ID ((tc # tcs) ! i)) = Some g"
      show "call_ID (out ! i) = g"
      proof (cases i)
        case 0
        then show ?thesis using i st_first by (simp add: s(3))
      next
        case (Suc k)
        have "call_ID (tcs ! k) \<noteq> ?c" using i(4) Suc by fastforce
        moreover have "\<forall>j < k. call_ID (tcs ! j) \<noteq> call_ID (tcs ! k)" using i(4) Suc by (metis Suc_less_eq nth_Cons_Suc)
        moreover have "map_of (given ids1) (call_ID (tcs ! k)) = Some g"
          using i(3,5) Suc calculation(1) by (intro st_given) auto
        moreover have "keeps_first (?c # placed) (given ids1) tcs out1" using IH by blast
        ultimately show ?thesis using i(1-3) Suc by (simp add: s(3) keeps_first_def)
      qed
    qed
    have "got \<notin> set (filter (\<lambda>c. trim_space c \<noteq> []) (map call_ID out1))" using IH by auto
    then show ?thesis using IH got st(3,4) first by (simp add: s(3) False)
  qed
qed (simp add: keeps_first_def)

lemma place_calls_ends: "(\<And>c. finite {n. recorded (suffixed c n)}) \<Longrightarrow> \<exists>out ids'. place_calls recorded placed tcs ids = Some (out, ids')"
proof (induction tcs arbitrary: placed ids)
  case (Cons tc tcs)
  obtain got ids1 where s: "(if call_ID tc \<in> set placed then claim_id recorded (call_ID tc) ids else streamed recorded (call_ID tc) ids) = Some (got, ids1)"
    using streamed_ends claim_id_ends Cons.prems by (metis (full_types))
  obtain out1 ids2 where "place_calls recorded (call_ID tc # placed) tcs ids1 = Some (out1, ids2)" using Cons by blast
  moreover obtain out1 ids2 where "place_calls recorded placed tcs ids = Some (out1, ids2)" using Cons by blast
  ultimately show ?case using s by auto
qed simp


section \<open>The property\<close>

lemma new_ids_ok: "ids_ok recorded (newToolCallIDs msgs)"
  by (simp add: ids_ok_def newToolCallIDs_def)

definition ids_of :: "message list \<Rightarrow> bytes set" where
  "ids_of msgs = (\<Union>m \<in> set msgs. call_ID ` set (ToolCalls m)) \<union> (ToolCallID ` set msgs - {[]})"

lemma new_ids_history: "set (id_history (newToolCallIDs msgs)) = ids_of msgs"
  by (auto simp: newToolCallIDs_def ids_of_def split: if_splits)

text \<open>
  C1: Every call of a response gets an id no other call of the session carries. Whatever the provider
  sent - the chunks of a stream, then the complete calls, under ids that repeat or that an earlier call
  has - handing out the ids ends, changes nothing of the calls but their ids, leaves blank ids alone
  (the pairing check refuses those), and gives the others ids that are not blank, differ from each
  other, occur nowhere in the history and name no recorded call; and the first call under a provider's
  id has the id the chunks of that call were announced with. The directory of a session holds finitely
  many records.
\<close>

theorem tool_call_ids_fresh:
  assumes "\<And>c. finite {n. recorded (suffixed c n)}"
  shows "\<exists>gots ids out ids'. chunk_ids recorded cs (newToolCallIDs msgs) = Some (gots, ids) \<and> response_calls recorded tcs ids = Some (out, ids') \<and>
    map (\<lambda>tc. tc\<lparr> call_ID := [] \<rparr>) out = map (\<lambda>tc. tc\<lparr> call_ID := [] \<rparr>) tcs \<and>
    map (\<lambda>tc. trim_space (call_ID tc) = []) out = map (\<lambda>tc. trim_space (call_ID tc) = []) tcs \<and>
    distinct (filter (\<lambda>c. trim_space c \<noteq> []) (map call_ID out)) \<and>
    (\<forall>tc \<in> set out. trim_space (call_ID tc) \<noteq> [] \<longrightarrow> call_ID tc \<notin> ids_of msgs \<and> \<not> recorded (call_ID tc)) \<and>
    (\<forall>i < length tcs. \<forall>k < length cs. cs ! k = call_ID (tcs ! i) \<and> trim_space (cs ! k) \<noteq> [] \<and>
       (\<forall>j < i. call_ID (tcs ! j) \<noteq> call_ID (tcs ! i)) \<longrightarrow> call_ID (out ! i) = gots ! k)"
proof -
  obtain gots ids where c: "chunk_ids recorded cs (newToolCallIDs msgs) = Some (gots, ids)"
    using chunk_ids_ends assms by blast
  obtain out ids' where r: "place_calls recorded [] tcs ids = Some (out, ids')" using place_calls_ends assms by blast
  note cok = chunk_ids_ok [OF c new_ids_ok]
  have hist: "set (id_history ids) = ids_of msgs" using cok new_ids_history by simp
  have ok: "ids_ok recorded ids" using cok by blast
  have p: "map (\<lambda>tc. tc\<lparr> call_ID := [] \<rparr>) out = map (\<lambda>tc. tc\<lparr> call_ID := [] \<rparr>) tcs \<and>
    map (\<lambda>tc. trim_space (call_ID tc) = []) out = map (\<lambda>tc. trim_space (call_ID tc) = []) tcs \<and>
    distinct (filter (\<lambda>c. trim_space c \<noteq> []) (map call_ID out)) \<and>
    (\<forall>tc \<in> set out. trim_space (call_ID tc) \<noteq> [] \<longrightarrow> call_ID tc \<notin> {} \<and> call_ID tc \<notin> set (id_history ids) \<and> \<not> recorded (call_ID tc)) \<and>
    keeps_first [] (given ids) tcs out"
    by (rule place_calls_ok [OF r ok]) simp_all
  have "call_ID (out ! i) = gots ! k" if "i < length tcs" "k < length cs" "cs ! k = call_ID (tcs ! i)" "trim_space (cs ! k) \<noteq> []"
    "\<forall>j < i. call_ID (tcs ! j) \<noteq> call_ID (tcs ! i)" for i k
  proof -
    have "map_of (given ids) (cs ! k) = Some (gots ! k)" using cok that(2,4) by blast
    then show ?thesis using p that unfolding keeps_first_def by simp
  qed
  then show ?thesis using c r p hist by (auto simp: response_calls_def)
qed

text \<open>A model that writes its own ids: one an earlier call has, one twice in one response, one recorded.\<close>

definition demo_read_call :: "bytes \<Rightarrow> ToolCall" where
  "demo_read_call c = \<lparr> call_ID = c, call_Name = ''read'', InputJSON = ''{}'' \<rparr>"

definition demo_asked :: message where
  "demo_asked = \<lparr> role = RoleAssistant, Content = [], Reasoning = [], Truncated = False, ToolCalls = [demo_read_call ''read:0''], ToolCallID = [],
     PlanDocument = False, CompactionSummary = False, CompactionBlock = False, FollowUp = False, msg_Model = [], CreatedAt = [],
     ImageParts = [], Artifacts = [], ReasoningSignature = [], Rules = [], Ephemeral = False \<rparr>"

lemma tool_call_ids_fresh_witness:
  "\<exists>gots ids out ids'. chunk_ids (\<lambda>c. c = ''read:0_2'') [''read:0''] (newToolCallIDs [demo_asked]) = Some (gots, ids) \<and>
     response_calls (\<lambda>c. c = ''read:0_2'') [demo_read_call ''read:0'', demo_read_call ''read:0''] ids = Some (out, ids') \<and>
     length out = 2 \<and> distinct (map call_ID out)"
proof -
  have "finite {n. suffixed c n = ''read:0_2''}" for c
    by (rule finite_subset [of _ "(suffixed c) -` {''read:0_2''}"]) (auto intro!: finite_vimageI injI)
  from tool_call_ids_fresh [of "\<lambda>c. c = ''read:0_2''" "[''read:0'']" "[demo_asked]" "[demo_read_call ''read:0'', demo_read_call ''read:0'']", OF this]
  obtain gots ids out ids' where r: "chunk_ids (\<lambda>c. c = ''read:0_2'') [''read:0''] (newToolCallIDs [demo_asked]) = Some (gots, ids)"
    "response_calls (\<lambda>c. c = ''read:0_2'') [demo_read_call ''read:0'', demo_read_call ''read:0''] ids = Some (out, ids')"
    "map (\<lambda>tc. tc\<lparr> call_ID := [] \<rparr>) out = map (\<lambda>tc. tc\<lparr> call_ID := [] \<rparr>) [demo_read_call ''read:0'', demo_read_call ''read:0'']"
    "map (\<lambda>tc. trim_space (call_ID tc) = []) out = map (\<lambda>tc. trim_space (call_ID tc) = []) [demo_read_call ''read:0'', demo_read_call ''read:0'']"
    "distinct (filter (\<lambda>c. trim_space c \<noteq> []) (map call_ID out))" by blast
  have len: "length out = 2" using arg_cong [OF r(3), of length] by simp
  have "trim_space (call_ID (demo_read_call ''read:0'')) \<noteq> []" by code_simp
  then have "\<forall>tc \<in> set out. trim_space (call_ID tc) \<noteq> []" using arg_cong [OF r(4), of set] by auto
  then have "filter (\<lambda>c. trim_space c \<noteq> []) (map call_ID out) = map call_ID out" by (simp add: filter_id_conv)
  then show ?thesis using r(1,2,5) len by metis
qed

end
