(* ===== verification/AgentHistory.thy ===== *)
theory AgentHistory
  imports Pictures_Correct ToolCallIds
begin

text \<open>
  The rows of a turn's history in the agent's loop (\<^verbatim>\<open>internal/agent\<close>: react.go, output_limit.go,
  rules_activation.go, turn_context.go): the local-only messages of its recoveries, the history the model is
  sent, and what is stored for a response.
\<close>

section \<open>Recoveries\<close>

definition maxEmptyAssistantContinuations :: int where "maxEmptyAssistantContinuations = 2"
definition maxEmptyAssistantReissues :: int where "maxEmptyAssistantReissues = 1"
definition maxFirstTokenRetries :: int where "maxFirstTokenRetries = 1"
definition maxOutputLimitRecoveries :: int where "maxOutputLimitRecoveries = 2"
definition maxProviderRecoveries :: int where "maxProviderRecoveries = 2"
definition maxUnattendedProviderRecoveries :: int where "maxUnattendedProviderRecoveries = 5"
definition maxOverflowRecoveries :: int where "maxOverflowRecoveries = 1"
definition maxSettingsRetakes :: int where "maxSettingsRetakes = 3"

definition emptyAssistantContinuationNudge :: bytes where
  "emptyAssistantContinuationNudge =
     ''Your previous message had no answer text and no tool call. Continue now: call the appropriate tool to act, or write your reply to the user.''"

definition outputLimitNudge :: bytes where
  "outputLimitNudge =
     ''Your previous step hit the output limit (max_tokens) before it produced an answer or a tool call, so nothing from it was kept. '' @
     ''Keep your reasoning short and act now: call the appropriate tool, or write your reply to the user. '' @
     ''If the task needs a large file write or edit, split it into several smaller tool calls.''"

definition outputLimitContinueNudge :: bytes where
  "outputLimitContinueNudge =
     ''Your previous reply hit the output limit (max_tokens) and stopped partway through. Continue exactly where it stopped, '' @
     ''without repeating what you already wrote, and keep this step short: split a large file write or edit into several smaller tool calls.''"

definition streamLoopNudge :: bytes where
  "streamLoopNudge =
     ''Your previous response was cut off because it degenerated into repeating the same passage over and over. Do not continue that text. '' @
     ''Decide what is actually left to do, then either call the appropriate tool or write a short, concrete reply to the user.''"

definition reasoningLoopNudge :: bytes where
  "reasoningLoopNudge =
     ''Your previous turn was cut off because your reasoning kept repeating the same thought without reaching a conclusion. '' @
     ''Stop deliberating and act: call the appropriate tool, or write your reply to the user now.''"

definition providerRecoveryNudge :: bytes where
  "providerRecoveryNudge =
     ''Your previous response was cut off by a provider error before it finished. '' @
     ''Continue exactly where it stopped, without repeating what you already wrote.''"

definition toolCallInterruptedResult :: bytes where
  "toolCallInterruptedResult = ''not executed: the turn was interrupted before this tool call ran''"

definition hookStoppedResult :: bytes where
  "hookStoppedResult = ''not executed: a hook stopped the turn''"

text \<open>A message that is sent and never stored.\<close>

definition local_message :: "bytes \<Rightarrow> message" where
  "local_message text = (new_message RoleUser text)\<lparr> Ephemeral := True \<rparr>"

definition came_back_empty :: "message \<Rightarrow> bool" where
  "came_back_empty m \<longleftrightarrow> role m = RoleAssistant \<and> trim_space (Content m) = [] \<and> ToolCalls m = []"

definition emptyRecoveryProjection :: "message list \<Rightarrow> bytes list \<Rightarrow> message list" where
  "emptyRecoveryProjection msgs nudges =
     rev (dropWhile came_back_empty (rev msgs)) @ map local_message nudges"

definition restoreRecoveries :: "message list \<Rightarrow> bytes list \<Rightarrow> message list" where
  "restoreRecoveries msgs standing = emptyRecoveryProjection msgs standing"

section \<open>The history the model reads\<close>

definition isLLMHistoryMessage :: "message \<Rightarrow> bool" where
  "isLLMHistoryMessage m \<longleftrightarrow>
     \<not> (PlanDocument m \<and> trim_space (Content m) = [] \<and> ToolCalls m = [] \<and> trim_space (Reasoning m) = [])"

definition repliesNothing :: "message \<Rightarrow> bool" where
  "repliesNothing m \<longleftrightarrow>
     role m = RoleAssistant \<and> trim_space (Content m) = [] \<and> ToolCalls m = [] \<and> ReasoningSignature m = []"

text \<open>The rows that are kept; \<open>after\<close>: the last assistant row kept stops partway.\<close>

fun llm_rows :: "bool \<Rightarrow> message list \<Rightarrow> message list" where
  "llm_rows after [] = []"
| "llm_rows after (m # ms) =
     (if \<not> isLLMHistoryMessage m then llm_rows after ms
      else if role m = RoleAssistant then
        (let m = m\<lparr> Content := StripAssistantContent (Content m) after (Truncated m) \<rparr> in
         if repliesNothing m then llm_rows after ms else m # llm_rows (Truncated m) ms)
      else m # llm_rows False ms)"

definition foldsInto :: "message \<Rightarrow> message \<Rightarrow> bool" where
  "foldsInto prev next \<longleftrightarrow>
     role prev = RoleAssistant \<and> role next = RoleAssistant \<and> ToolCalls prev = [] \<and>
     ReasoningSignature prev = [] \<and> ReasoningSignature next = [] \<and> \<not> PlanDocument prev \<and> \<not> PlanDocument next \<and>
     ImageParts prev = [] \<and> ImageParts next = []"

definition joinAnswers :: "message \<Rightarrow> message \<Rightarrow> message" where
  "joinAnswers prev next =
     next\<lparr> Content :=
       (if Truncated prev then Content prev @ Content next
        else if trim_space (Content next) = [] then Content prev
        else if trim_space (Content prev) = [] then Content next
        else Content prev @ nl @ nl @ Content next) \<rparr>"

text \<open>\<open>p\<close> is the last row written.\<close>

fun fold_after :: "message \<Rightarrow> message list \<Rightarrow> message list" where
  "fold_after p [] = [p]"
| "fold_after p (m # ms) = (if foldsInto p m then fold_after (joinAnswers p m) ms else p # fold_after m ms)"

definition foldSplitAnswers :: "message list \<Rightarrow> message list" where
  "foldSplitAnswers msgs = (case msgs of [] \<Rightarrow> [] | m # ms \<Rightarrow> fold_after m ms)"

definition buildMessages :: "bytes \<Rightarrow> message list \<Rightarrow> message list option" where
  "buildMessages systemPrompt stored =
     map_option (\<lambda>history. new_message RoleSystem systemPrompt #
         fst (RepairMissingToolResults (foldSplitAnswers (llm_rows False history))))
       (MessagesForLLM stored)"

section \<open>The history that is sent\<close>

definition joinToolRules :: "bytes \<Rightarrow> bytes \<Rightarrow> bytes" where
  "joinToolRules content rulesText =
     (let content = trim_right_set nl content in
      if content = [] then rulesText else content @ nl @ nl @ rulesText)"

definition withToolRules :: "message list \<Rightarrow> message list" where
  "withToolRules msgs =
     map (\<lambda>m. if Rules m = [] then m else m\<lparr> Content := joinToolRules (Content m) (Rules m), Rules := [] \<rparr>) msgs"

definition withTurnContext :: "message list \<Rightarrow> bytes \<Rightarrow> message list" where
  "withTurnContext msgs block = (if trim_space block = [] then msgs else msgs @ [local_message block])"

section \<open>A response and what is stored of it\<close>

record response =
  resp_Content :: bytes
  resp_ToolCalls :: "ToolCall list"
  resp_StopReason :: bytes
  resp_Signature :: bytes

definition reasoningForStorage :: "bytes \<Rightarrow> bytes \<Rightarrow> response option \<Rightarrow> bytes \<times> bytes" where
  "reasoningForStorage trimmed exact resp =
     (case resp of
        Some r \<Rightarrow> if resp_Signature r \<noteq> [] then (exact, resp_Signature r) else (trimmed, [])
      | None \<Rightarrow> (trimmed, []))"

text \<open>\<open>json_valid\<close> is \<^verbatim>\<open>json.Valid\<close>.\<close>

definition argumentsStopShort :: "(bytes \<Rightarrow> bool) \<Rightarrow> bytes \<Rightarrow> bool" where
  "argumentsStopShort json_valid args \<longleftrightarrow> trim_space args \<noteq> [] \<and> \<not> json_valid (trim_space args)"

definition cutOffToolCall :: "(bytes \<Rightarrow> bool) \<Rightarrow> response \<Rightarrow> ToolCall option" where
  "cutOffToolCall json_valid r =
     (if resp_StopReason r \<noteq> ''max_tokens'' \<or> resp_ToolCalls r = [] then None
      else if \<not> argumentsStopShort json_valid (InputJSON (last (resp_ToolCalls r))) then None
      else Some (last (resp_ToolCalls r)))"

definition plainToolName :: "bytes \<Rightarrow> bool" where
  "plainToolName name \<longleftrightarrow> name \<noteq> [] \<and> length name \<le> 64 \<and>
     list_all (\<lambda>c. c \<in> set ''abcdefghijklmnopqrstuvwxyzABCDEFGHIJKLMNOPQRSTUVWXYZ0123456789_-.:'') name"

definition cutOffToolCallNudge :: "bytes \<Rightarrow> bytes" where
  "cutOffToolCallNudge name =
     ''Your previous step hit the output limit (max_tokens) in the middle of its last tool call'' @
     (if plainToolName name then '' ('' @ name @ '')'' else []) @
     '', so that call was cut off and was not run. Make it again in several smaller tool calls (write or edit a large file in parts) '' @
     ''and keep your reasoning short.''"

definition outputLimitStepNudge :: "bytes \<Rightarrow> ToolCall option \<Rightarrow> bytes" where
  "outputLimitStepNudge content cutCall =
     (case cutCall of
        Some tc \<Rightarrow> cutOffToolCallNudge (call_Name tc)
      | None \<Rightarrow> if trim_space content = [] then outputLimitNudge else outputLimitContinueNudge)"

definition stopsPartway :: "response \<Rightarrow> ToolCall option \<Rightarrow> bool" where
  "stopsPartway r cutCall \<longleftrightarrow>
     resp_StopReason r = ''max_tokens'' \<and> cutCall = None \<and> resp_ToolCalls r = [] \<and> trim_space (resp_Content r) \<noteq> []"

text \<open>The stored text of the last answer, as the request that runs the step again carries it.\<close>

definition keptAnswerOf :: "message list \<Rightarrow> message" where
  "keptAnswerOf stored =
     (let answer = last stored in
      answer\<lparr> Content := StripAssistantContent (Content answer) (FollowsTruncated (butlast stored)) (Truncated answer) \<rparr>)"

text \<open>The result of a call that was not executed, one for every id that is not blank.\<close>

definition skipped_rows :: "ToolCall list \<Rightarrow> bytes \<Rightarrow> message list" where
  "skipped_rows tcs reason =
     map (\<lambda>tc. (new_message RoleTool reason)\<lparr> ToolCallID := call_ID tc \<rparr>) (filter (\<lambda>tc. trim_space (call_ID tc) \<noteq> []) tcs)"

text \<open>\<open>pictures\<close> are those the call attached, \<open>artifact\<close> what \<^verbatim>\<open>sharedArtifact\<close> read of its result.\<close>

definition callResultMessage ::
    "ToolCall \<Rightarrow> bytes \<Rightarrow> bytes option \<Rightarrow> bytes \<Rightarrow> image_part list \<Rightarrow> bytes option \<Rightarrow> message" where
  "callResultMessage tc result execErr callRules pictures artifact =
     (let m = (new_message RoleTool (case execErr of None \<Rightarrow> result | Some e \<Rightarrow> ''error: '' @ e))
                \<lparr> ToolCallID := call_ID tc, Rules := callRules \<rparr>;
          m = (if execErr = None \<and> call_Name tc = ''share_file''
               then m\<lparr> Artifacts := (case artifact of Some i \<Rightarrow> [i] | None \<Rightarrow> []) \<rparr> else m)
      in if execErr = None \<and> pictures \<noteq> [] then m\<lparr> ImageParts := pictures \<rparr> else m)"

section \<open>The allowance of retries\<close>

text \<open>\<open>None\<close> is no allowance, which takes every retry.\<close>

definition NewRetryAllowance :: "int \<Rightarrow> int option" where
  "NewRetryAllowance retries = Some (max 0 retries)"

definition TakeRetry :: "int option \<Rightarrow> bool \<times> int option" where
  "TakeRetry a = (case a of None \<Rightarrow> (True, None) | Some n \<Rightarrow> if n = 0 then (False, a) else (True, Some (n - 1)))"

end
