(* ===== verification/AgentTurn.thy ===== *)
theory AgentTurn
  imports AgentHistory
begin

text \<open>
  The loop of a turn, \<^verbatim>\<open>runReActLoop\<close> in \<^verbatim>\<open>internal/agent/react.go\<close>: call the model, run the tools it asks
  for, recover from steps that failed, until it is done. One iteration of the loop is given a record of what
  it asks others for: the provider's stream and its end, the tools' results, the hooks, the follow-ups that
  wait, whether the turn was stopped at each place that asks. A panic, and a search for a free id that never
  ends, is \<open>None\<close>. Updates to clients, logs, token counts and clocks are left out.
\<close>

section \<open>What one iteration asks others for\<close>

text \<open>The places of the loop that ask whether the turn was stopped.\<close>

datatype site =
    AtTop | AfterStream | AtFirstToken | AtWait | AtRecovery | InPause | AtCanceled | AtOverflow | AfterFold
  | AtAnswer | AtOutputLimit | AtLimitEnd | AtCall nat

text \<open>The places that render the system prompt, or read the tools on offer, anew.\<close>

datatype rendering = ForSettings | ForVolatile | ForCompaction | ForOverflow | ForWorkspace | ForReload

record transport =
  lane_streaming :: bool
  lane_model :: bytes
  lane_key :: bytes
  lane_rev :: nat
  lane_agent :: bool

record system_prompt =
  prompt_Content :: bytes
  prompt_Volatile :: bool

text \<open>What a compaction of the transcript it is given inserts, and where; \<open>None\<close>: it folded nothing.\<close>

type_synonym folds = "message list \<Rightarrow> (int \<times> message) list option"

text \<open>A change of the transcript made inside a call: a summary inserted, or a row only surfaces show.\<close>

datatype change = Folded folds | Surface_Row message

record call_env =
  call_changes :: "change list"
  call_result :: bytes
  call_error :: "bytes option"
  call_rules :: bytes
  call_pictures :: "image_part list"
  call_artifact :: "bytes option"
  hook_stop_reason :: bytes

record stream_chunk =
  ReasoningDelta :: bytes
  TextDelta :: bytes
  chunk_named :: "ToolCall option"
  chunk_delta :: "ToolCall option"
  chunk_call :: "ToolCall option"
  chunk_agent_tool :: bool

text \<open>How the errors of a provider are classified; \<open>err_reset\<close> is the time left to a reset it named.\<close>

record stream_error =
  err_reset :: "int option"
  err_transient :: bool
  err_canceled :: bool
  err_truncated :: bool
  err_stalled :: bool
  err_overflow :: bool

record round_env =
  ctx_done :: "site \<Rightarrow> bool"
  user_cancelled :: "site \<Rightarrow> bool"
  queue_interrupt :: "site \<Rightarrow> bool"
  clock :: bytes
  queued :: "(bytes \<times> image_part list) list"
  settings_rev :: nat
  settings_key :: bytes
  new_provider :: "transport option"
  had_toolset :: bool
  has_toolset :: bool
  tool_names :: "rendering \<Rightarrow> bytes list"
  rendered :: "rendering \<Rightarrow> system_prompt"
  turn_block :: bytes
  auto_compacted :: folds
  late_rev :: nat
  late_key :: bytes
  cfg_retry_max :: int
  cfg_first_token_timeout :: int
  cfg_wait_for_reset :: bool
  cfg_wait_max :: int
  cfg_auto_compact :: bool
  cfg_stop_limit :: int
  eviction :: eviction_state
  eviction_cwd :: bytes
  reads_images :: bool
  load_picture :: "image_part \<Rightarrow> bytes option"
  call_recorded :: "bytes \<Rightarrow> bool"
  chunks :: "stream_chunk list"
  first_token_fired :: bool
  stream_response :: "response option"
  stream_err :: "stream_error option"
  wrapper_retries :: int
  agent_rows :: bool
  wait_took :: int
  wait_cut :: bool
  pause_cut :: bool
  overflow_folds :: folds
  stop_hook :: "bytes \<Rightarrow> bool \<Rightarrow> bytes option"
  queued_late :: "(bytes \<times> image_part list) list"
  tool_call :: "nat \<Rightarrow> call_env"
  context_compacted :: bool
  workspace_changed :: bool
  config_reloaded :: bool

text \<open>The settings the loop reads once, and the functions of libraries it uses.\<close>

record loop_cfg =
  max_turns :: int
  guard_on :: bool
  cfg_repeat_cycles :: int
  cfg_repeat_limit :: int
  cfg_nudge_max :: int
  subagent_depth :: int
  subagent_kind :: "bytes option"
  lib_evict :: evict_lib
  lib_Base :: "bytes \<Rightarrow> bytes"
  lib_json_valid :: "bytes \<Rightarrow> bool"
  lib_Canonical :: "bytes \<Rightarrow> bytes option"

section \<open>The state of the loop\<close>

record turn_state =
  turn :: int
  transcript :: "message list"
  working :: "message list"
  system :: system_prompt
  lane :: transport
  offered :: "bytes list"
  allowance :: "int option"
  emptyContinuations :: int
  emptyReissues :: int
  firstTokenRetries :: int
  outputLimitRecoveries :: int
  standing :: "bytes list"
  providerRecoveries :: int
  overflowRecoveries :: int
  overflowCompacted :: bool
  turnHadVisibleText :: bool
  toolRepeats :: "toolRepeatDetector option"
  loopNudges :: int
  stopHookActive :: bool
  stopBlocks :: int
  limit_waited :: int
  settingsRetakes :: int
  evictionForced :: bool

datatype stop_reason = StopEndTurn | StopMaxTokens | StopMaxTurns | StopRefused | StopCancelled

datatype loop_channel = LoopText | LoopReasoning

datatype loop_error =
    ErrPairing "ToolPairingIssue list"
  | ErrLoopAbort loop_channel
  | ErrToolLoop bytes
  | ErrNoFirstToken
  | ErrWaitInterrupted
  | ErrPauseInterrupted
  | ErrInterrupted
  | ErrOverflow bool
  | ErrFoldInterrupted
  | ErrLLM
  | ErrNoReply
  | ErrHookStop bytes

datatype round_outcome = Ended stop_reason "loop_error option" turn_state | Again turn_state

definition next_turn :: "turn_state \<Rightarrow> round_outcome" where
  "next_turn s = Again (s\<lparr> turn := turn s + 1 \<rparr>)"

definition resetRetries :: "turn_state \<Rightarrow> turn_state" where
  "resetRetries s = s\<lparr> allowance := None, emptyContinuations := 0, emptyReissues := 0, firstTokenRetries := 0,
     outputLimitRecoveries := 0, standing := [] \<rparr>"

abbreviation stopped :: "round_env \<Rightarrow> site \<Rightarrow> bool" where
  "stopped E w \<equiv> ctx_done E w \<or> user_cancelled E w"

abbreviation handed_over :: "round_env \<Rightarrow> site \<Rightarrow> bool" where
  "handed_over E w \<equiv> user_cancelled E w \<or> queue_interrupt E w"

section \<open>Rows\<close>

text \<open>\<^verbatim>\<open>State.AddMessage\<close>.\<close>

definition add_row :: "message \<Rightarrow> message list \<Rightarrow> message list" where
  "add_row m stored = stored @ [placePendingArtifacts stored m]"

definition insert_folds :: "(int \<times> message) list \<Rightarrow> message list \<Rightarrow> message list" where
  "insert_folds fs stored = fold (\<lambda>(i, m) msgs. fst (InsertCompactionSummary i m msgs)) fs stored"

definition add_both :: "message list \<Rightarrow> turn_state \<Rightarrow> turn_state" where
  "add_both ms s = s\<lparr> working := working s @ ms, transcript := fold add_row ms (transcript s) \<rparr>"

definition recordSkippedToolCalls :: "ToolCall list \<Rightarrow> bytes \<Rightarrow> turn_state \<Rightarrow> turn_state" where
  "recordSkippedToolCalls tcs reason s = add_both (skipped_rows tcs reason) s"

definition follow_up_row :: "bytes \<Rightarrow> bytes \<times> image_part list \<Rightarrow> message" where
  "follow_up_row now q =
     (new_message RoleUser (fst q))\<lparr> ImageParts := snd q, CreatedAt := now, FollowUp := True \<rparr>"

definition readQueuedMessages :: "bytes \<Rightarrow> (bytes \<times> image_part list) list \<Rightarrow> turn_state \<Rightarrow> bool \<times> turn_state" where
  "readQueuedMessages now qs s = (qs \<noteq> [], add_both (map (follow_up_row now) qs) s)"

definition set_system :: "bytes \<Rightarrow> message list \<Rightarrow> message list" where
  "set_system text msgs =
     (case msgs of m # ms \<Rightarrow> if role m = RoleSystem then m\<lparr> Content := text \<rparr> # ms else msgs | [] \<Rightarrow> [])"

definition rebuilt :: "turn_state \<Rightarrow> turn_state option" where
  "rebuilt s = map_option (\<lambda>ms. s\<lparr> working := ms \<rparr>) (buildMessages (prompt_Content (system s)) (transcript s))"

section \<open>The top of a step\<close>

definition offer_again :: "round_env \<Rightarrow> rendering \<Rightarrow> turn_state \<Rightarrow> turn_state" where
  "offer_again E w s =
     (if tool_names E w \<noteq> offered s
      then s\<lparr> offered := tool_names E w, system := rendered E w,
               working := set_system (prompt_Content (rendered E w)) (working s) \<rparr>
      else s)"

definition take_settings :: "round_env \<Rightarrow> turn_state \<Rightarrow> bool \<times> turn_state" where
  "take_settings E s =
     (if settings_rev E = lane_rev (lane s) then (False, s)
      else
        (let (switched, s) =
               (if settings_key E = lane_key (lane s) then (False, s\<lparr> lane := (lane s)\<lparr> lane_rev := settings_rev E \<rparr> \<rparr>)
                else (case new_provider E of
                        None \<Rightarrow> (False, s\<lparr> lane := (lane s)\<lparr> lane_rev := settings_rev E \<rparr> \<rparr>)
                      | Some next \<Rightarrow> (True, s\<lparr> lane := next \<rparr>)))
         in (switched,
             if had_toolset E \<or> has_toolset E then offer_again E ForSettings s else s)))"

definition render_volatile :: "round_env \<Rightarrow> turn_state \<Rightarrow> turn_state" where
  "render_volatile E s =
     (case working s of
        m # _ \<Rightarrow> if prompt_Volatile (system s) \<and> role m = RoleSystem
                 then s\<lparr> system := rendered E ForVolatile, working := set_system (prompt_Content (rendered E ForVolatile)) (working s) \<rparr>
                 else s
      | [] \<Rightarrow> s)"

definition auto_compact :: "round_env \<Rightarrow> bool \<Rightarrow> turn_state \<Rightarrow> turn_state option" where
  "auto_compact E switched s =
     (if turn s > 0 \<or> switched then
        (case auto_compacted E (transcript s) of
           None \<Rightarrow> Some s
         | Some fs \<Rightarrow> map_option (\<lambda>s. s\<lparr> working := restoreRecoveries (working s) (standing s) \<rparr>)
             (rebuilt (s\<lparr> system := rendered E ForCompaction, transcript := insert_folds fs (transcript s) \<rparr>)))
      else Some s)"

section \<open>The request and its stream\<close>

definition outgoing :: "loop_cfg \<Rightarrow> round_env \<Rightarrow> turn_state \<Rightarrow> message list option" where
  "outgoing C E s =
     map_option (\<lambda>ms. fst (RepairMissingToolResults (withTurnContext ms (turn_block E))))
       (withToolImages (lib_Base C) (load_picture E) (reads_images E)
         (withToolRules (prunedForLLM (lib_evict C) ((eviction E)\<lparr> eviction_forced := evictionForced s \<rparr>)
           (eviction_cwd E) (working s))))"

record stream_state =
  st_ids :: toolCallIDs
  st_reasoning :: bytes
  st_answer :: bytes
  st_any :: bool
  st_reason_loop :: "streamRepeatDetector option"
  st_text_loop :: "streamRepeatDetector option"
  st_abort :: "loop_channel option"

definition chunk_calls :: "stream_chunk \<Rightarrow> ToolCall list" where
  "chunk_calls c = List.map_filter id [chunk_named c, chunk_delta c, chunk_call c]"

definition announced_name :: "stream_chunk \<Rightarrow> bytes" where
  "announced_name c =
     (case chunk_call c of Some tc \<Rightarrow> call_Name tc
      | None \<Rightarrow> (case chunk_named c of Some tc \<Rightarrow> call_Name tc | None \<Rightarrow> []))"

definition take_reasoning :: "bytes \<Rightarrow> stream_state \<Rightarrow> stream_state option" where
  "take_reasoning d s =
     (if d = [] then Some s
      else map_option (\<lambda>((_, tripped), loop).
             s\<lparr> st_any := True, st_reasoning := st_reasoning s @ d, st_reason_loop := loop,
                st_abort := (if tripped then Some LoopReasoning else None) \<rparr>)
           (stream_Add d (st_reason_loop s)))"

definition take_text :: "bytes \<Rightarrow> stream_state \<Rightarrow> stream_state option" where
  "take_text d s =
     (if d = [] then Some s
      else map_option (\<lambda>((_, tripped), loop).
             s\<lparr> st_any := True, st_answer := st_answer s @ d, st_text_loop := loop,
                st_abort := (if tripped then Some LoopText else None) \<rparr>)
           (stream_Add d (st_text_loop s)))"

text \<open>A chunk that arrives after the guard closed the stream is dropped.\<close>

definition on_chunk :: "(bytes \<Rightarrow> bool) \<Rightarrow> stream_chunk \<Rightarrow> stream_state \<Rightarrow> stream_state option" where
  "on_chunk recorded c s =
     (if st_abort s \<noteq> None then Some s
      else Option.bind (chunk_ids recorded (map call_ID (chunk_calls c)) (st_ids s)) (\<lambda>(_, ids).
           Option.bind (take_reasoning (ReasoningDelta c) (s\<lparr> st_ids := ids \<rparr>)) (\<lambda>s.
             if st_abort s \<noteq> None then Some s
             else Option.bind (take_text (TextDelta c) s) (\<lambda>s.
               if st_abort s \<noteq> None then Some s
               else Some (s\<lparr> st_any := st_any s \<or> chunk_agent_tool c \<or> chunk_delta c \<noteq> None \<or> announced_name c \<noteq> [] \<rparr>)))))"

fun on_chunks :: "(bytes \<Rightarrow> bool) \<Rightarrow> stream_chunk list \<Rightarrow> stream_state \<Rightarrow> stream_state option" where
  "on_chunks recorded [] s = Some s"
| "on_chunks recorded (c # cs) s = Option.bind (on_chunk recorded c s) (on_chunks recorded cs)"

definition cycles :: "loop_cfg \<Rightarrow> int" where
  "cycles C = (if guard_on C then cfg_repeat_cycles C else 0)"

definition open_stream :: "loop_cfg \<Rightarrow> message list \<Rightarrow> stream_state" where
  "open_stream C msgs =
     \<lparr> st_ids = newToolCallIDs msgs, st_reasoning = [], st_answer = [], st_any = False,
       st_reason_loop = newStreamRepeatDetector (cycles C), st_text_loop = newStreamRepeatDetector (cycles C), st_abort = None \<rparr>"

text \<open>The stream, and the response with its calls under ids of their own.\<close>

definition stream_call :: "loop_cfg \<Rightarrow> round_env \<Rightarrow> message list \<Rightarrow> (stream_state \<times> response option) option" where
  "stream_call C E msgs =
     Option.bind (on_chunks (call_recorded E) (chunks E) (open_stream C msgs)) (\<lambda>S.
       (case stream_response E of
          None \<Rightarrow> Some (S, None)
        | Some r \<Rightarrow> map_option (\<lambda>(tcs, ids). (S\<lparr> st_ids := ids \<rparr>, Some (r\<lparr> resp_ToolCalls := tcs \<rparr>)))
            (response_calls (call_recorded E) (resp_ToolCalls r) (st_ids S))))"

text \<open>The allowance of this call, after the wrapper of the provider took its retries from it.\<close>

definition called_allowance :: "round_env \<Rightarrow> turn_state \<Rightarrow> int option" where
  "called_allowance E s =
     map_option (\<lambda>n. max 0 (n - max 0 (wrapper_retries E)))
       (case allowance s of None \<Rightarrow> NewRetryAllowance (cfg_retry_max E) | a \<Rightarrow> a)"

section \<open>A step that ended in an error\<close>

definition nonblank :: "bytes \<Rightarrow> bool" where
  "nonblank s \<longleftrightarrow> trim_space s \<noteq> []"

definition response_says :: "response option \<Rightarrow> bool" where
  "response_says r = (case r of None \<Rightarrow> False | Some r \<Rightarrow> nonblank (resp_Content r) \<or> resp_ToolCalls r \<noteq> [])"

text \<open>The row of a stream the loop guard cut; \<open>Some None\<close> stores nothing.\<close>

definition loop_aborted_row :: "loop_cfg \<Rightarrow> round_env \<Rightarrow> bytes \<Rightarrow> stream_state \<Rightarrow> response option \<Rightarrow> message option option" where
  "loop_aborted_row C E model S r =
     Option.bind (trimRepeatedTail (case r of Some r \<Rightarrow> resp_Content r | None \<Rightarrow> []) (cycles C)) (\<lambda>(content, _).
     Option.bind (trimRepeatedTail (st_reasoning S) (cycles C)) (\<lambda>(raw, shortened).
       (let trimmed = trim_space raw;
            tcs = (case r of Some r \<Rightarrow> resp_ToolCalls r | None \<Rightarrow> []);
            (reason, sig) = (if shortened then (trimmed, []) else reasoningForStorage trimmed raw r)
        in Some (if \<not> nonblank content \<and> \<not> nonblank reason \<and> tcs = [] \<and> \<not> agent_rows E then None
                 else Some ((new_message RoleAssistant content)\<lparr> Reasoning := reason, ReasoningSignature := sig,
                              ToolCalls := tcs, msg_Model := model, CreatedAt := clock E \<rparr>)))))"

definition store_aborted :: "message option \<Rightarrow> turn_state \<Rightarrow> turn_state" where
  "store_aborted row s =
     (case row of
        None \<Rightarrow> s
      | Some m \<Rightarrow> s\<lparr> transcript := fold add_row (skipped_rows (ToolCalls m) toolCallInterruptedResult) (add_row m (transcript s)) \<rparr>)"

definition guard_cut :: "loop_cfg \<Rightarrow> round_env \<Rightarrow> loop_channel \<Rightarrow> stream_state \<Rightarrow> response option \<Rightarrow> turn_state \<Rightarrow> round_outcome option" where
  "guard_cut C E channel S r s =
     Option.bind (loop_aborted_row C E (lane_model (lane s)) S r) (\<lambda>row.
       (let s = store_aborted row s;
            nudge = (case channel of LoopReasoning \<Rightarrow> reasoningLoopNudge | LoopText \<Rightarrow> streamLoopNudge)
        in if loopNudges s \<ge> cfg_nudge_max C then Some (Ended StopRefused (Some (ErrLoopAbort channel)) s)
           else map_option (\<lambda>s. next_turn ((resetRetries (s\<lparr> working := working s @ [local_message nudge] \<rparr>))\<lparr> standing := [nudge] \<rparr>))
                  (rebuilt (s\<lparr> loopNudges := loopNudges s + 1 \<rparr>))))"

definition limitResetToWaitFor :: "loop_cfg \<Rightarrow> round_env \<Rightarrow> stream_error \<Rightarrow> stream_state \<Rightarrow> response option \<Rightarrow> turn_state \<Rightarrow> bool" where
  "limitResetToWaitFor C E e S r s =
     (case err_reset e of
        None \<Rightarrow> False
      | Some remaining \<Rightarrow>
          cfg_wait_for_reset E \<and> subagent_depth C \<le> 0 \<and> \<not> st_any S \<and> \<not> nonblank (st_reasoning S) \<and> \<not> response_says r \<and>
          cfg_wait_max E > 0 \<and> limit_waited s + remaining \<le> cfg_wait_max E)"

definition wait_for_reset :: "round_env \<Rightarrow> turn_state \<Rightarrow> round_outcome" where
  "wait_for_reset E s =
     (let s = s\<lparr> limit_waited := limit_waited s + max 0 (wait_took E) \<rparr> in
      if wait_cut E then
        (if handed_over E AtWait then Ended StopCancelled None s else Ended StopRefused (Some ErrWaitInterrupted) s)
      else Again (resetRetries s))"

definition providerRecoveryBudget :: "loop_cfg \<Rightarrow> int" where
  "providerRecoveryBudget C =
     (case subagent_kind C of Some [] \<Rightarrow> maxUnattendedProviderRecoveries | _ \<Rightarrow> maxProviderRecoveries)"

definition keepInterruptedAnswer :: "round_env \<Rightarrow> bytes \<Rightarrow> stream_state \<Rightarrow> turn_state \<Rightarrow> bool \<times> turn_state" where
  "keepInterruptedAnswer E model S s =
     (if \<not> nonblank (st_answer S) \<and> \<not> nonblank (st_reasoning S) \<and> \<not> agent_rows E then (False, s)
      else (nonblank (st_answer S),
            s\<lparr> transcript := add_row ((new_message RoleAssistant (st_answer S))\<lparr> Reasoning := trim_space (st_reasoning S),
                 Truncated := nonblank (st_answer S) \<and> FollowsTruncated (transcript s), msg_Model := model, CreatedAt := clock E \<rparr>)
                 (transcript s) \<rparr>))"

definition recovers :: "loop_cfg \<Rightarrow> round_env \<Rightarrow> stream_error \<Rightarrow> turn_state \<Rightarrow> bool" where
  "recovers C E e s \<longleftrightarrow>
     providerRecoveries s < providerRecoveryBudget C \<and> cfg_retry_max E > 0 \<and> \<not> stopped E AtRecovery \<and>
     turn s + 1 < max_turns C \<and> err_transient e"

definition recover_provider :: "round_env \<Rightarrow> stream_state \<Rightarrow> turn_state \<Rightarrow> round_outcome" where
  "recover_provider E S s =
     (let (keeps, s) = keepInterruptedAnswer E (lane_model (lane s)) S (s\<lparr> providerRecoveries := providerRecoveries s + 1 \<rparr>) in
      if pause_cut E then
        (if handed_over E InPause then Ended StopCancelled None s else Ended StopRefused (Some ErrPauseInterrupted) s)
      else
        (let s = (if keeps then s\<lparr> working := working s @ [keptAnswerOf (transcript s), local_message providerRecoveryNudge],
                                  standing := [providerRecoveryNudge] \<rparr> else s)
         in next_turn (s\<lparr> allowance := None \<rparr>)))"

text \<open>The partial answer of a stream that was cut, kept like that of a turn the user stopped.\<close>

definition keep_partial :: "round_env \<Rightarrow> stream_error \<Rightarrow> stream_state \<Rightarrow> response option \<Rightarrow> turn_state \<Rightarrow> turn_state" where
  "keep_partial E e S r s =
     (case r of
        None \<Rightarrow> s
      | Some r \<Rightarrow>
          (let trimmed = trim_space (st_reasoning S); (reason, sig) = reasoningForStorage trimmed (st_reasoning S) (Some r) in
           if (err_canceled e \<or> err_truncated e \<or> err_stalled e) \<and> (response_says (Some r) \<or> trimmed \<noteq> [] \<or> agent_rows E) then
             recordSkippedToolCalls (resp_ToolCalls r) toolCallInterruptedResult
               (add_both [(new_message RoleAssistant (resp_Content r))\<lparr> Reasoning := reason, ReasoningSignature := sig,
                  ToolCalls := resp_ToolCalls r, msg_Model := lane_model (lane s), CreatedAt := clock E \<rparr>] s)
           else s))"

definition recover_overflow :: "loop_cfg \<Rightarrow> round_env \<Rightarrow> stream_state \<Rightarrow> turn_state \<Rightarrow> round_outcome option" where
  "recover_overflow C E S s =
     (if \<not> st_any S \<and> overflowRecoveries s < maxOverflowRecoveries \<and> \<not> stopped E AtOverflow \<and> turn s + 1 < max_turns C \<and>
         cfg_auto_compact E
      then
        (let s = s\<lparr> overflowRecoveries := overflowRecoveries s + 1, evictionForced := True \<rparr> in
         case overflow_folds E (transcript s) of
           Some fs \<Rightarrow>
             map_option (\<lambda>s. next_turn (s\<lparr> working := restoreRecoveries (working s) (standing s), allowance := None \<rparr>))
               (rebuilt (s\<lparr> overflowCompacted := True, system := rendered E ForOverflow, transcript := insert_folds fs (transcript s) \<rparr>))
         | None \<Rightarrow>
             Some (if ctx_done E AfterFold then
                     (if handed_over E AfterFold then Ended StopCancelled None s
                      else Ended StopRefused (Some ErrFoldInterrupted) s)
                   else Ended StopRefused (Some (ErrOverflow (overflowCompacted s))) s))
      else Some (Ended StopRefused (Some (ErrOverflow (overflowCompacted s))) s))"

definition stream_failed :: "loop_cfg \<Rightarrow> round_env \<Rightarrow> stream_error \<Rightarrow> stream_state \<Rightarrow> response option \<Rightarrow> turn_state \<Rightarrow> round_outcome option" where
  "stream_failed C E e S r s =
     (if limitResetToWaitFor C E e S r s then Some (wait_for_reset E s)
      else if recovers C E e s then Some (recover_provider E S s)
      else
        (let s = keep_partial E e S r s in
         if err_canceled e then
           Some (if response_says r \<or> r \<noteq> None \<and> nonblank (st_reasoning S) \<or> handed_over E AtCanceled
                 then Ended StopCancelled None s else Ended StopRefused (Some ErrInterrupted) s)
         else if err_overflow e then recover_overflow C E S s
         else Some (Ended StopRefused (Some ErrLLM) s)))"

text \<open>The cut of the first-token timer: what it was before anything came out.\<close>

definition first_token_cut :: "round_env \<Rightarrow> stream_error \<Rightarrow> stream_state \<Rightarrow> response option \<Rightarrow> turn_state \<Rightarrow> bool" where
  "first_token_cut E e S r s \<longleftrightarrow>
     lane_streaming (lane s) \<and> cfg_first_token_timeout E > 0 \<and> \<not> lane_agent (lane s) \<and> first_token_fired E \<and>
     err_canceled e \<and> \<not> stopped E AtFirstToken \<and>
     \<not> (st_any S \<or> nonblank (st_reasoning S) \<or> response_says r)"

definition retry_first_token :: "loop_cfg \<Rightarrow> turn_state \<Rightarrow> round_outcome" where
  "retry_first_token C s =
     (if firstTokenRetries s < maxFirstTokenRetries \<and> fst (TakeRetry (allowance s)) then
        (let s = s\<lparr> allowance := snd (TakeRetry (allowance s)) \<rparr> in
         if turn s + 1 \<ge> max_turns C then Ended StopMaxTurns None s
         else next_turn (s\<lparr> firstTokenRetries := firstTokenRetries s + 1 \<rparr>))
      else Ended StopRefused (Some ErrNoFirstToken) s)"

section \<open>A step that ended with a response\<close>

definition may_ask_after_limit :: "loop_cfg \<Rightarrow> round_env \<Rightarrow> turn_state \<Rightarrow> bool" where
  "may_ask_after_limit C E s \<longleftrightarrow>
     outputLimitRecoveries s < maxOutputLimitRecoveries \<and> turn s + 1 < max_turns C \<and> \<not> stopped E AtOutputLimit \<and>
     fst (TakeRetry (allowance s))"

definition end_on_limit :: "round_env \<Rightarrow> turn_state \<Rightarrow> round_outcome" where
  "end_on_limit E s = (if stopped E AtLimitEnd then Ended StopCancelled None s else Ended StopMaxTokens None s)"

definition cut_without_call :: "loop_cfg \<Rightarrow> round_env \<Rightarrow> bytes \<Rightarrow> ToolCall option \<Rightarrow> turn_state \<Rightarrow> round_outcome" where
  "cut_without_call C E content cutCall s =
     (if may_ask_after_limit C E s then
        (let nudge = outputLimitStepNudge content cutCall in
         next_turn (s\<lparr> allowance := snd (TakeRetry (allowance s)), outputLimitRecoveries := outputLimitRecoveries s + 1,
                       standing := standing s @ [nudge], working := emptyRecoveryProjection (working s) [nudge] \<rparr>))
      else end_on_limit E s)"

definition last_answer :: "bytes \<Rightarrow> message list \<Rightarrow> bytes" where
  "last_answer content stored =
     (if stored \<noteq> [] \<and> role (last stored) = RoleAssistant
      then StripArtifactMarkers (ContinuedAnswer stored (length stored - 1)) else content)"

definition end_of_turn :: "loop_cfg \<Rightarrow> round_env \<Rightarrow> bytes \<Rightarrow> turn_state \<Rightarrow> round_outcome" where
  "end_of_turn C E content s =
     (case stop_hook E (last_answer content (transcript s)) (stopHookActive s) of
        Some follow \<Rightarrow>
          (if stopBlocks s \<ge> cfg_stop_limit E \<or> turn s + 1 \<ge> max_turns C then Ended StopEndTurn None s
           else next_turn (resetRetries (add_both
             [(new_message RoleUser (StopHookPrefix @ follow))\<lparr> CreatedAt := clock E \<rparr>]
             (s\<lparr> stopBlocks := stopBlocks s + 1, stopHookActive := True \<rparr>))))
      | None \<Rightarrow>
          (if turn s + 1 < max_turns C \<and> queued_late E \<noteq> []
           then next_turn (resetRetries (snd (readQueuedMessages (clock E) (queued_late E) s)))
           else Ended StopEndTurn None s))"

definition without_calls :: "loop_cfg \<Rightarrow> round_env \<Rightarrow> response \<Rightarrow> ToolCall option \<Rightarrow> turn_state \<Rightarrow> round_outcome" where
  "without_calls C E r cutCall s =
     (let empty = \<not> nonblank (resp_Content r); retry = TakeRetry (allowance s) in
      if resp_StopReason r = ''max_tokens'' then cut_without_call C E (resp_Content r) cutCall s
      else if stopped E AtAnswer then Ended StopCancelled None s
      else if empty \<and> emptyReissues s < maxEmptyAssistantReissues \<and>
              working s \<noteq> [] \<and> role (last (working s)) = RoleAssistant \<and> fst retry then
        (if turn s + 1 \<ge> max_turns C then Ended StopMaxTurns None (s\<lparr> allowance := snd retry \<rparr>)
         else next_turn (s\<lparr> allowance := snd retry, emptyReissues := emptyReissues s + 1,
                            working := emptyRecoveryProjection (working s) [] \<rparr>))
      else if empty \<and> emptyContinuations s < maxEmptyAssistantContinuations \<and> fst retry then
        (if turn s + 1 \<ge> max_turns C then Ended StopMaxTurns None (s\<lparr> allowance := snd retry \<rparr>)
         else next_turn (s\<lparr> allowance := snd retry, emptyContinuations := emptyContinuations s + 1,
                            standing := standing s @ [emptyAssistantContinuationNudge],
                            working := emptyRecoveryProjection (working s) [emptyAssistantContinuationNudge] \<rparr>))
      else if empty \<and> \<not> turnHadVisibleText s then Ended StopRefused (Some ErrNoReply) s
      else end_of_turn C E (resp_Content r) s)"

section \<open>The calls of a response\<close>

fun apply_change :: "change \<Rightarrow> message list \<Rightarrow> message list" where
  "apply_change (Folded f) stored = (case f stored of None \<Rightarrow> stored | Some fs \<Rightarrow> insert_folds fs stored)"
| "apply_change (Surface_Row m) stored = add_row m stored"

definition run_call :: "call_env \<Rightarrow> ToolCall \<Rightarrow> turn_state \<Rightarrow> turn_state" where
  "run_call K tc s =
     add_both [callResultMessage tc (call_result K) (call_error K) (call_rules K) (call_pictures K) (call_artifact K)]
       (s\<lparr> transcript := fold apply_change (call_changes K) (transcript s) \<rparr>)"

text \<open>The \<open>i\<close>-th call, with the calls after it; a stop of the turn, or none, and the state.\<close>

definition execute_call :: "round_env \<Rightarrow> nat \<Rightarrow> ToolCall \<Rightarrow> ToolCall list \<Rightarrow> turn_state
    \<Rightarrow> (stop_reason \<times> loop_error option) option \<times> turn_state" where
  "execute_call E i tc rest s =
     (let s = run_call (tool_call E i) tc s; reason = hook_stop_reason (tool_call E i) in
      if reason \<noteq> [] then (Some (StopRefused, Some (ErrHookStop reason)), recordSkippedToolCalls rest hookStoppedResult s)
      else (None, s))"

text \<open>\<open>seen\<close> and \<open>blocked\<close> are the keys of the response's calls so far.\<close>

definition call_step :: "loop_cfg \<Rightarrow> round_env \<Rightarrow> nat \<Rightarrow> bytes list \<Rightarrow> bytes list \<Rightarrow> ToolCall \<Rightarrow> ToolCall list \<Rightarrow> turn_state
    \<Rightarrow> ((stop_reason \<times> loop_error option) option \<times> turn_state) \<times> bytes list \<times> bytes list" where
  "call_step C E i seen blocked tc rest s =
     (let key = canonicalToolCallKey (lib_Canonical C) (call_Name tc) (InputJSON tc) in
      if ctx_done E (AtCall i) then
        ((Some (StopCancelled, None), recordSkippedToolCalls (tc # rest) toolCallInterruptedResult s), seen, blocked)
      else if List.member seen key then
        (if List.member blocked key then ((None, recordSkippedToolCalls [tc] toolLoopNudge s), seen, blocked)
         else (execute_call E i tc rest s, seen, blocked))
      else
        (case Observe (lib_Canonical C) (call_Name tc) (InputJSON tc) (toolRepeats s) of
           ((_, tripped), det) \<Rightarrow>
             (let s = s\<lparr> toolRepeats := det \<rparr> in
              if \<not> tripped then (execute_call E i tc rest s, key # seen, blocked)
              else if loopNudges s \<ge> cfg_nudge_max C then
                ((Some (StopRefused, Some (ErrToolLoop (call_Name tc))), recordSkippedToolCalls (tc # rest) toolLoopSkippedResult s),
                 key # seen, key # blocked)
              else ((None, recordSkippedToolCalls [tc] toolLoopNudge (s\<lparr> loopNudges := loopNudges s + 1 \<rparr>)),
                    key # seen, key # blocked))))"

fun run_calls :: "loop_cfg \<Rightarrow> round_env \<Rightarrow> nat \<Rightarrow> bytes list \<Rightarrow> bytes list \<Rightarrow> ToolCall list \<Rightarrow> turn_state
    \<Rightarrow> (stop_reason \<times> loop_error option) option \<times> turn_state" where
  "run_calls C E i seen blocked [] s = (None, s)"
| "run_calls C E i seen blocked (tc # tcs) s =
     (case call_step C E i seen blocked tc tcs s of
        ((Some why, s), _) \<Rightarrow> (Some why, s)
      | ((None, s), seen, blocked) \<Rightarrow> run_calls C E (Suc i) seen blocked tcs s)"

text \<open>What the batch changed for the next request.\<close>

definition after_batch :: "round_env \<Rightarrow> turn_state \<Rightarrow> turn_state option" where
  "after_batch E s =
     map_option (\<lambda>s. if config_reloaded E then offer_again E ForReload s else s)
       (Option.bind (if context_compacted E then rebuilt s else Some s) (\<lambda>s.
          if workspace_changed E
          then rebuilt (s\<lparr> offered := tool_names E ForWorkspace, system := rendered E ForWorkspace \<rparr>)
          else Some s))"

definition with_calls :: "loop_cfg \<Rightarrow> round_env \<Rightarrow> response \<Rightarrow> ToolCall option \<Rightarrow> turn_state \<Rightarrow> round_outcome option" where
  "with_calls C E r cutCall s =
     (case run_calls C E 0 [] [] (resp_ToolCalls r) s of
        (Some (why, err), s) \<Rightarrow> Some (Ended why err s)
      | (None, s) \<Rightarrow>
          map_option (\<lambda>s.
            case cutCall of
              None \<Rightarrow> next_turn (resetRetries s)
            | Some tc \<Rightarrow>
                (let s = s\<lparr> allowance := NewRetryAllowance (cfg_retry_max E) \<rparr> in
                 if may_ask_after_limit C E s then
                   (let nudge = cutOffToolCallNudge (call_Name tc) in
                    next_turn ((resetRetries s)\<lparr> working := working s @ [local_message nudge],
                      outputLimitRecoveries := outputLimitRecoveries s + 1, standing := [nudge],
                      allowance := snd (TakeRetry (allowance s)) \<rparr>))
                 else end_on_limit E s))
          (after_batch E s))"

definition response_row :: "round_env \<Rightarrow> bytes \<Rightarrow> bytes \<Rightarrow> response \<Rightarrow> ToolCall option \<Rightarrow> message" where
  "response_row E model reasoning r cutCall =
     (let (reason, sig) = reasoningForStorage (trim_space reasoning) reasoning (Some r) in
      (new_message RoleAssistant (resp_Content r))\<lparr> Reasoning := reason, ReasoningSignature := sig,
        Truncated := stopsPartway r cutCall, ToolCalls := resp_ToolCalls r, msg_Model := model, CreatedAt := clock E \<rparr>)"

text \<open>The response is stored; \<open>r\<close> is without the call that was cut.\<close>

definition store_answer :: "round_env \<Rightarrow> stream_state \<Rightarrow> response \<Rightarrow> ToolCall option \<Rightarrow> turn_state \<Rightarrow> turn_state" where
  "store_answer E S r cutCall s =
     (let s = add_both [response_row E (lane_model (lane s)) (st_reasoning S) r cutCall] s in
      s\<lparr> providerRecoveries := 0, overflowRecoveries := 0, overflowCompacted := False,
         outputLimitRecoveries := (if resp_StopReason r \<noteq> ''max_tokens'' then 0 else outputLimitRecoveries s),
         turnHadVisibleText := turnHadVisibleText s \<or> nonblank (resp_Content r),
         standing := (if response_says (Some r) then [] else standing s) \<rparr>)"

definition answered :: "loop_cfg \<Rightarrow> round_env \<Rightarrow> stream_state \<Rightarrow> response \<Rightarrow> turn_state \<Rightarrow> round_outcome option" where
  "answered C E S r s =
     (let cutCall = cutOffToolCall (lib_json_valid C) r;
          r = (if cutCall \<noteq> None then r\<lparr> resp_ToolCalls := butlast (resp_ToolCalls r) \<rparr> else r);
          s = store_answer E S r cutCall s
      in if resp_ToolCalls r = [] then Some (without_calls C E r cutCall s) else with_calls C E r cutCall s)"

section \<open>One step, and the loop\<close>

text \<open>From the end of the stream; a stream without an error and without a response is a nil dereference.\<close>

definition stream_ended :: "loop_cfg \<Rightarrow> round_env \<Rightarrow> stream_state \<Rightarrow> response option \<Rightarrow> turn_state \<Rightarrow> round_outcome option" where
  "stream_ended C E S r s =
     (case stream_err E of
        None \<Rightarrow> Option.bind r (\<lambda>r. answered C E S r s)
      | Some e \<Rightarrow>
          if first_token_cut E e S r s then Some (retry_first_token C s) else stream_failed C E e S r s)"

definition after_stream :: "loop_cfg \<Rightarrow> round_env \<Rightarrow> stream_state \<Rightarrow> response option \<Rightarrow> turn_state \<Rightarrow> round_outcome option" where
  "after_stream C E S r s =
     (case st_abort S of
        Some channel \<Rightarrow> if stopped E AfterStream then stream_ended C E S r s else guard_cut C E channel S r s
      | None \<Rightarrow> stream_ended C E S r s)"

definition call_model :: "loop_cfg \<Rightarrow> round_env \<Rightarrow> turn_state \<Rightarrow> round_outcome option" where
  "call_model C E s =
     Option.bind (outgoing C E s) (\<lambda>sent.
       (let issues = ValidateToolPairing sent; s = s\<lparr> settingsRetakes := 0 \<rparr> in
        if issues \<noteq> [] then Some (Ended StopRefused (Some (ErrPairing issues)) s)
        else Option.bind (stream_call C E (working s)) (\<lambda>(S, r).
               after_stream C E S r (s\<lparr> allowance := called_allowance E s \<rparr>))))"

definition step_top :: "round_env \<Rightarrow> turn_state \<Rightarrow> bool \<times> turn_state" where
  "step_top E s =
     (case readQueuedMessages (clock E) (queued E) s of
        (read, s) \<Rightarrow> take_settings E (if read then resetRetries s else s))"

definition retakes :: "round_env \<Rightarrow> turn_state \<Rightarrow> bool" where
  "retakes E s \<longleftrightarrow>
     settingsRetakes s < maxSettingsRetakes \<and> late_rev E \<noteq> lane_rev (lane s) \<and> late_key E \<noteq> lane_key (lane s)"

definition loop_turn :: "loop_cfg \<Rightarrow> round_env \<Rightarrow> turn_state \<Rightarrow> round_outcome option" where
  "loop_turn C E s =
     (if ctx_done E AtTop then Some (Ended StopCancelled None s)
      else
        (case step_top E s of
           (switched, s) \<Rightarrow>
             Option.bind (auto_compact E switched (render_volatile E s)) (\<lambda>s.
               if retakes E s then Some (Again (s\<lparr> settingsRetakes := settingsRetakes s + 1 \<rparr>))
               else call_model C E s)))"

datatype loop_result = Returned stop_reason "loop_error option" turn_state | Running turn_state

fun runReActLoop :: "loop_cfg \<Rightarrow> round_env list \<Rightarrow> turn_state \<Rightarrow> loop_result option" where
  "runReActLoop C Es s =
     (if turn s \<ge> max_turns C then Some (Returned StopMaxTurns None s)
      else (case Es of
              [] \<Rightarrow> Some (Running s)
            | E # Es \<Rightarrow>
                (case loop_turn C E s of
                   None \<Rightarrow> None
                 | Some (Ended why err s) \<Rightarrow> Some (Returned why err s)
                 | Some (Again s) \<Rightarrow> runReActLoop C Es s)))"

declare runReActLoop.simps [simp del]

text \<open>The start of a turn.\<close>

definition start_loop :: "loop_cfg \<Rightarrow> message list \<Rightarrow> message list \<Rightarrow> system_prompt \<Rightarrow> transport \<Rightarrow> bytes list \<Rightarrow> int \<Rightarrow> bool \<Rightarrow> turn_state" where
  "start_loop C stored msgs prompt t tools waited forced =
     \<lparr> turn = 0, transcript = stored, working = msgs, system = prompt, lane = t, offered = tools, allowance = None,
       emptyContinuations = 0, emptyReissues = 0, firstTokenRetries = 0, outputLimitRecoveries = 0, standing = [],
       providerRecoveries = 0, overflowRecoveries = 0, overflowCompacted = False, turnHadVisibleText = False,
       toolRepeats = (if guard_on C then newToolRepeatDetector (cfg_repeat_limit C) else None), loopNudges = 0,
       stopHookActive = False, stopBlocks = 0, limit_waited = waited, settingsRetakes = 0, evictionForced = forced \<rparr>"

end
