(* ===== verification/AgentTurn_Bounds.thy ===== *)
theory AgentTurn_Bounds
  imports AgentTurn LoopGuard_Correct Transcript_Correct Eviction_Rules
begin

text \<open>
  The loop of a turn returns: a step never panics, and every step moves the turn on, goes back to its top
  because settings moved, or waits for a reset; the settings may do so three times, and the waits share a
  maximum. A model that only fails to answer ends the turn whatever its number of steps is.
\<close>

section \<open>A step does not panic\<close>

lemma periodicSuffix_total: "c < 2 ^ 54 \<Longrightarrow> periodicSuffix norm c \<noteq> None"
proof (cases "c < 2")
  case False
  assume "c < 2 ^ 54"
  then have "nat c < 2 ^ 54" using False by simp
  from periodicSuffix_reports [OF this, of norm] show ?thesis using False by auto
qed (simp add: periodicSuffix_def)

lemma stream_Add_total:
  assumes "\<And>x. d = Some x \<Longrightarrow> minCycles x < 2 ^ 54"
  shows "\<exists>r d'. stream_Add delta d = Some (r, d') \<and> (\<forall>x. d' = Some x \<longrightarrow> minCycles x < 2 ^ 54)"
proof (cases d)
  case (Some x)
  then have small: "minCycles x < 2 ^ 54" using assms by simp
  obtain out sp where sc: "scan_delta (inSpace x) delta = (out, sp)" by (metis prod.collapse)
  define y where "y = x\<lparr> inSpace := sp, tail := tail x @ out \<rparr>"
  define z where "z = y\<lparr> tail := drop (length (tail y) - streamRepeatWindow) (tail y), pending := pending y + int (length out) \<rparr>"
  have cycles: "minCycles y = minCycles x" "minCycles z = minCycles x" by (simp_all add: y_def z_def)
  obtain r where r: "periodicSuffix (tail z) (minCycles z) = Some r"
    using periodicSuffix_total [of "minCycles z" "tail z"] small cycles by auto
  have "stream_Add delta d =
      (if delta = [] then Some ((0, False), Some x) else if out = [] then Some ((0, False), Some y)
       else if pending z < streamRepeatCheckEvery then Some ((0, False), Some z)
       else Some (r, Some (z\<lparr> pending := 0 \<rparr>)))"
    using r by (simp add: stream_Add_def Some sc Let_def y_def z_def)
  then show ?thesis using small cycles by (cases r) (auto intro: exI [of _ False])
qed (auto simp: stream_Add_def intro: exI [of _ False])

lemma trimRepeatedTail_total: "c < 2 ^ 54 \<Longrightarrow> trimRepeatedTail s c \<noteq> None"
proof (cases "c < 2")
  case True
  then show ?thesis by (simp add: trimRepeatedTail_def periodicSuffix_def Let_def)
next
  case False
  assume "c < 2 ^ 54"
  then have "2 \<le> nat c" "nat c < 2 ^ 54" using False by auto
  from trimRepeatedTail_spec [OF this, of s] have "trimRepeatedTail s (int (nat c)) \<noteq> None" by (auto split: if_splits)
  then show ?thesis using False by simp
qed

definition small_loop :: "streamRepeatDetector option \<Rightarrow> bool" where
  "small_loop d \<longleftrightarrow> (\<forall>x. d = Some x \<longrightarrow> minCycles x < 2 ^ 54)"

abbreviation small_loops :: "stream_state \<Rightarrow> bool" where
  "small_loops S \<equiv> small_loop (st_reason_loop S) \<and> small_loop (st_text_loop S)"

lemma take_reasoning_total: "small_loops S \<Longrightarrow> \<exists>S'. take_reasoning d S = Some S' \<and> small_loops S' \<and> st_ids S' = st_ids S"
  using stream_Add_total [of "st_reason_loop S" d] by (fastforce simp: take_reasoning_def small_loop_def)

lemma take_text_total: "small_loops S \<Longrightarrow> \<exists>S'. take_text d S = Some S' \<and> small_loops S' \<and> st_ids S' = st_ids S"
  using stream_Add_total [of "st_text_loop S" d] by (fastforce simp: take_text_def small_loop_def)

lemma on_chunk_total:
  assumes "small_loops S" "\<And>c. finite {n. recorded (suffixed c n)}"
  shows "\<exists>S'. on_chunk recorded c S = Some S' \<and> small_loops S'"
proof -
  obtain gots ids where i: "chunk_ids recorded (map call_ID (chunk_calls c)) (st_ids S) = Some (gots, ids)"
    using chunk_ids_ends assms(2) by blast
  obtain S1 where 1: "take_reasoning (ReasoningDelta c) (S\<lparr> st_ids := ids \<rparr>) = Some S1" "small_loops S1"
    using take_reasoning_total [of "S\<lparr> st_ids := ids \<rparr>"] assms(1) by auto
  obtain S2 where 2: "take_text (TextDelta c) S1 = Some S2" "small_loops S2" using take_text_total [OF 1(2)] by blast
  show ?thesis using i 1 2 assms(1) by (auto simp: on_chunk_def)
qed

lemma on_chunks_total:
  "\<lbrakk> small_loops S; \<And>c. finite {n. recorded (suffixed c n)} \<rbrakk> \<Longrightarrow> \<exists>S'. on_chunks recorded cs S = Some S'"
proof (induction cs arbitrary: S)
  case (Cons c cs)
  obtain S' where "on_chunk recorded c S = Some S'" "small_loops S'" using on_chunk_total [OF Cons.prems] by blast
  then show ?case using Cons by simp
qed simp

text \<open>
  What is asked of the surroundings: a sane number of cycles, a directory of finitely many records, and a
  provider that answers with a response or an error.
\<close>

definition provider_answers :: "loop_cfg \<Rightarrow> round_env \<Rightarrow> bool" where
  "provider_answers C E \<longleftrightarrow> cycles C < 2 ^ 54 \<and> (\<forall>c. finite {n. call_recorded E (suffixed c n)}) \<and>
     (stream_err E \<noteq> None \<or> stream_response E \<noteq> None)"

lemma stream_call_total:
  assumes "provider_answers C E"
  shows "\<exists>S r. stream_call C E msgs = Some (S, r) \<and> (stream_response E \<noteq> None \<longrightarrow> r \<noteq> None)"
proof -
  have fin: "\<And>c. finite {n. call_recorded E (suffixed c n)}" and "small_loops (open_stream C msgs)"
    using assms by (auto simp: provider_answers_def open_stream_def small_loop_def newStreamRepeatDetector_def split: if_splits)
  then obtain S where S: "on_chunks (call_recorded E) (chunks E) (open_stream C msgs) = Some S"
    using on_chunks_total by blast
  show ?thesis
  proof (cases "stream_response E")
    case (Some r)
    obtain tcs ids where "response_calls (call_recorded E) (resp_ToolCalls r) (st_ids S) = Some (tcs, ids)"
      using place_calls_ends fin unfolding response_calls_def by blast
    then show ?thesis using S Some by (simp add: stream_call_def)
  qed (simp add: stream_call_def S)
qed

lemma rebuilt_total: "\<exists>ms. rebuilt s = Some (s\<lparr> working := ms \<rparr>) \<and>
    buildMessages (prompt_Content (system s)) (transcript s) = Some ms"
  by (simp add: rebuilt_def buildMessages_def MessagesForLLM_eq)

lemma outgoing_total: "outgoing C E s \<noteq> None"
  using window_bounds by (fastforce simp: outgoing_def withToolImages_def selectPictures_def Let_def)

lemma after_batch_total: "after_batch E s \<noteq> None"
proof -
  have "\<exists>x. (if context_compacted E then rebuilt s else Some s) = Some x" using rebuilt_total [of s] by auto
  then obtain x where "(if context_compacted E then rebuilt s else Some s) = Some x" by blast
  moreover have "\<exists>y. (if workspace_changed E
      then rebuilt (x\<lparr> offered := tool_names E ForWorkspace, system := rendered E ForWorkspace \<rparr>) else Some x) = Some y"
    using rebuilt_total [of "x\<lparr> offered := tool_names E ForWorkspace, system := rendered E ForWorkspace \<rparr>"] by auto
  ultimately show ?thesis by (simp add: after_batch_def)
qed

lemma loop_aborted_row_total: "cycles C < 2 ^ 54 \<Longrightarrow> loop_aborted_row C E model S r \<noteq> None"
proof -
  assume small: "cycles C < 2 ^ 54"
  obtain x where "trimRepeatedTail (case r of Some r \<Rightarrow> resp_Content r | None \<Rightarrow> []) (cycles C) = Some x"
    using trimRepeatedTail_total [OF small] by blast
  moreover obtain y where "trimRepeatedTail (st_reasoning S) (cycles C) = Some y" using trimRepeatedTail_total [OF small] by blast
  ultimately show ?thesis by (simp add: loop_aborted_row_def Let_def split: prod.split)
qed

lemma after_stream_total:
  assumes "provider_answers C E" "stream_err E = None \<Longrightarrow> r \<noteq> None"
  shows "after_stream C E S r s \<noteq> None"
proof -
  have "guard_cut C E ch S r s \<noteq> None" for ch
  proof -
    obtain row where "loop_aborted_row C E (lane_model (lane s)) S r = Some row"
      using loop_aborted_row_total assms(1) unfolding provider_answers_def by blast
    then show ?thesis using rebuilt_total by (simp add: guard_cut_def Let_def) blast
  qed
  moreover have "recover_overflow C E S x \<noteq> None" for x
    using rebuilt_total by (simp add: recover_overflow_def Let_def split: option.split) blast
  then have "stream_failed C E e S r s \<noteq> None" for e by (simp add: stream_failed_def Let_def)
  moreover have "answered C E S q s \<noteq> None" for q
    using after_batch_total by (auto simp: answered_def with_calls_def Let_def split: option.splits prod.splits)
  ultimately show ?thesis using assms(2) by (auto simp: after_stream_def stream_ended_def split: option.splits)
qed

lemma auto_compact_total: "auto_compact E sw s \<noteq> None"
  using rebuilt_total by (simp add: auto_compact_def split: option.split) blast

lemma loop_turn_total:
  assumes "provider_answers C E"
  shows "loop_turn C E s \<noteq> None"
proof -
  have "call_model C E x \<noteq> None" for x
  proof -
    obtain sent where "outgoing C E x = Some sent" using outgoing_total by blast
    moreover obtain S r where "stream_call C E (working x) = Some (S, r)" "stream_response E \<noteq> None \<longrightarrow> r \<noteq> None"
      using stream_call_total [OF assms] by blast
    moreover have "stream_err E = None \<Longrightarrow> r \<noteq> None" using calculation assms by (auto simp: provider_answers_def)
    note after_stream_total [OF assms this]
    ultimately show ?thesis by (simp add: call_model_def Let_def)
  qed
  moreover obtain y where "auto_compact E (fst (step_top E s)) (render_volatile E (snd (step_top E s))) = Some y"
    using auto_compact_total by blast
  ultimately show ?thesis by (simp add: loop_turn_def case_prod_beta)
qed

section \<open>How a step moves\<close>

text \<open>What bounds the loop: the step it is at, how often it was taken again, and the time spent on limits.\<close>

definition tick :: "turn_state \<Rightarrow> int \<times> int \<times> int" where
  "tick s = (turn s, settingsRetakes s, limit_waited s)"

named_theorems tick_simps

lemma tick_reset [tick_simps]: "tick (resetRetries s) = tick s" by (simp add: tick_def resetRetries_def)
lemma tick_add [tick_simps]: "tick (add_both ms s) = tick s" by (simp add: tick_def add_both_def)
lemma tick_skip [tick_simps]: "tick (recordSkippedToolCalls tcs why s) = tick s" by (simp add: recordSkippedToolCalls_def tick_add)
lemma tick_rebuilt: "rebuilt s = Some s' \<Longrightarrow> tick s' = tick s" by (auto simp: rebuilt_def tick_def)
lemma tick_offer [tick_simps]: "tick (offer_again E w s) = tick s" by (simp add: offer_again_def tick_def)

lemma tick_call [tick_simps]: "tick (run_call K tc s) = tick s"
  by (simp add: run_call_def tick_simps) (simp add: tick_def)

lemma tick_execute [tick_simps]: "tick (snd (execute_call E i tc rest s)) = tick s"
  by (simp add: execute_call_def Let_def tick_simps)

lemma tick_update [tick_simps]:
  "tick (s\<lparr> toolRepeats := d \<rparr>) = tick s" "tick (s\<lparr> loopNudges := n \<rparr>) = tick s" "tick (s\<lparr> transcript := t \<rparr>) = tick s"
  "tick (s\<lparr> working := t \<rparr>) = tick s" "tick (s\<lparr> allowance := a \<rparr>) = tick s" "tick (s\<lparr> standing := l \<rparr>) = tick s"
  "tick (s\<lparr> outputLimitRecoveries := n \<rparr>) = tick s" "tick (s\<lparr> emptyReissues := n \<rparr>) = tick s" "tick (s\<lparr> emptyContinuations := n \<rparr>) = tick s"
  "tick (s\<lparr> providerRecoveries := n \<rparr>) = tick s" "tick (s\<lparr> overflowRecoveries := n \<rparr>) = tick s" "tick (s\<lparr> overflowCompacted := b \<rparr>) = tick s"
  "tick (s\<lparr> evictionForced := b \<rparr>) = tick s" "tick (s\<lparr> system := p \<rparr>) = tick s" "tick (s\<lparr> stopBlocks := n \<rparr>) = tick s"
  "tick (s\<lparr> stopHookActive := b \<rparr>) = tick s" "tick (s\<lparr> firstTokenRetries := n \<rparr>) = tick s" "tick (s\<lparr> turnHadVisibleText := b \<rparr>) = tick s"
  "tick (s\<lparr> offered := os \<rparr>) = tick s" "tick (s\<lparr> lane := l' \<rparr>) = tick s"
  by (simp_all add: tick_def)

lemma tick_call_step: "tick (snd (fst (call_step C E i seen blocked tc rest s))) = tick s"
  by (simp add: call_step_def Let_def tick_simps split: prod.split)

lemma tick_run_calls: "tick (snd (run_calls C E i seen blocked tcs s)) = tick s"
proof (induction tcs arbitrary: i seen blocked s)
  case (Cons tc tcs)
  have "tick (snd (fst (call_step C E i seen blocked tc tcs s))) = tick s" by (rule tick_call_step)
  then show ?case using Cons by (auto split: prod.split option.split)
qed simp

lemma tick_after_batch: "after_batch E s = Some s' \<Longrightarrow> tick s' = tick s"
  by (auto simp: after_batch_def tick_simps dest!: tick_rebuilt split: if_splits Option.bind_splits)

text \<open>The step goes on: the next one, or the same one after a wait for a reset.\<close>

definition waited :: "round_env \<Rightarrow> turn_state \<Rightarrow> turn_state \<Rightarrow> bool" where
  "waited E s s' \<longleftrightarrow> (\<exists>e remaining. stream_err E = Some e \<and> err_reset e = Some remaining \<and>
     limit_waited s + remaining \<le> cfg_wait_max E \<and>
     tick s' = (turn s, settingsRetakes s, limit_waited s + max 0 (wait_took E)))"

definition stepped :: "turn_state \<Rightarrow> turn_state \<Rightarrow> bool" where
  "stepped s s' \<longleftrightarrow> tick s' = (turn s + 1, settingsRetakes s, limit_waited s)"

lemma stepped_next: "next_turn x = Again s' \<Longrightarrow> tick x = tick s \<Longrightarrow> stepped s s'"
  by (auto simp: next_turn_def stepped_def tick_def)

lemma next_turn_not_ended [simp]: "next_turn x \<noteq> Ended why err y" "Ended why err y \<noteq> next_turn x"
  by (simp_all add: next_turn_def)

lemma stepped_guard: "guard_cut C E ch S r s = Some (Again s') \<Longrightarrow> stepped s s'"
  by (auto simp: guard_cut_def store_aborted_def Let_def tick_simps dest!: tick_rebuilt
      elim!: stepped_next split: Option.bind_splits option.splits if_splits)

lemma stepped_retry: "retry_first_token C s = Again s' \<Longrightarrow> stepped s s'"
  by (auto simp: retry_first_token_def Let_def tick_simps elim!: stepped_next split: if_splits)

lemma tick_keep [tick_simps]:
  "tick (snd (keepInterruptedAnswer E model S s)) = tick s" "tick (keep_partial E e S r s) = tick s"
  by (simp_all add: keepInterruptedAnswer_def keep_partial_def Let_def tick_simps split: option.split prod.split)

lemma stepped_recover: "recover_provider E S s = Again s' \<Longrightarrow> stepped s s'"
proof -
  assume a: "recover_provider E S s = Again s'"
  obtain b x where k: "keepInterruptedAnswer E (lane_model (lane s)) S (s\<lparr> providerRecoveries := providerRecoveries s + 1 \<rparr>) = (b, x)"
    by (metis prod.collapse)
  then have x: "tick x = tick s"
    using tick_keep(1) [of E "lane_model (lane s)" S "s\<lparr> providerRecoveries := providerRecoveries s + 1 \<rparr>"] by (simp add: tick_simps)
  show ?thesis using a x by (auto simp: recover_provider_def k tick_simps elim!: stepped_next split: if_splits)
qed

lemma stepped_overflow: "recover_overflow C E S x = Some (Again s') \<Longrightarrow> tick x = tick s \<Longrightarrow> stepped s s'"
  by (auto simp: recover_overflow_def Let_def tick_simps dest!: tick_rebuilt elim!: stepped_next split: if_splits option.splits)

lemma stream_failed_moves: "stream_failed C E e S r s = Some (Again s') \<Longrightarrow> stream_err E = Some e \<Longrightarrow> stepped s s' \<or> waited E s s'"
proof -
  assume a: "stream_failed C E e S r s = Some (Again s')" "stream_err E = Some e"
  consider "limitResetToWaitFor C E e S r s" | "\<not> limitResetToWaitFor C E e S r s" "recovers C E e s"
    | "\<not> limitResetToWaitFor C E e S r s" "\<not> recovers C E e s" by blast
  then show ?thesis
  proof cases
    case 1
    then have "s' = resetRetries (s\<lparr> limit_waited := limit_waited s + max 0 (wait_took E) \<rparr>)"
      using a by (auto simp: stream_failed_def wait_for_reset_def Let_def split: if_splits)
    then have "tick s' = (turn s, settingsRetakes s, limit_waited s + max 0 (wait_took E))"
      by (simp add: tick_simps) (simp add: tick_def)
    then show ?thesis using 1 a(2) by (auto simp: limitResetToWaitFor_def waited_def split: option.splits)
  next
    case 2
    then show ?thesis using a stepped_recover by (auto simp: stream_failed_def)
  next
    case 3
    then have "recover_overflow C E S (keep_partial E e S r s) = Some (Again s')"
      using a by (auto simp: stream_failed_def Let_def split: if_splits)
    from stepped_overflow [OF this] show ?thesis by (simp add: tick_simps)
  qed
qed

lemma stepped_end_of_turn: "end_of_turn C E content x = Again s' \<Longrightarrow> tick x = tick s \<Longrightarrow> stepped s s'"
  by (auto simp: end_of_turn_def readQueuedMessages_def tick_simps elim!: stepped_next split: if_splits option.splits)

lemma stepped_without_calls: "without_calls C E r cutCall x = Again s' \<Longrightarrow> tick x = tick s \<Longrightarrow> stepped s s'"
  by (auto simp: without_calls_def cut_without_call_def end_on_limit_def Let_def tick_simps
      elim!: stepped_next stepped_end_of_turn split: if_splits)

lemma stepped_with_calls: "with_calls C E r cutCall x = Some (Again s') \<Longrightarrow> tick x = tick s \<Longrightarrow> stepped s s'"
proof -
  assume a: "with_calls C E r cutCall x = Some (Again s')" "tick x = tick s"
  obtain why y where y: "run_calls C E 0 [] [] (resp_ToolCalls r) x = (why, y)" by (metis prod.collapse)
  then have ty: "tick y = tick s" using tick_run_calls [of C E 0 "[]" "[]" "resp_ToolCalls r" x] a(2) by simp
  from a(1) y obtain z where z: "why = None" "after_batch E y = Some z"
      "(case cutCall of None \<Rightarrow> next_turn (resetRetries z)
        | Some tc \<Rightarrow>
           (let s = z\<lparr> allowance := NewRetryAllowance (cfg_retry_max E) \<rparr> in
            if may_ask_after_limit C E s then
              (let nudge = cutOffToolCallNudge (call_Name tc) in
               next_turn ((resetRetries s)\<lparr> working := working s @ [local_message nudge],
                 outputLimitRecoveries := outputLimitRecoveries s + 1, standing := [nudge],
                 allowance := snd (TakeRetry (allowance s)) \<rparr>))
            else end_on_limit E s)) = Again s'"
    by (cases why) (auto simp: with_calls_def split: prod.splits)
  have "tick z = tick s" using tick_after_batch [OF z(2)] ty by simp
  then show ?thesis using z(3)
    by (auto simp: Let_def end_on_limit_def tick_simps elim!: stepped_next split: option.splits if_splits)
qed

lemma tick_store [tick_simps]: "tick (store_answer E S r cutCall s) = tick s"
  by (simp add: store_answer_def Let_def tick_simps)

lemma stepped_answered: "answered C E S r s = Some (Again s') \<Longrightarrow> stepped s s'"
  by (auto simp: answered_def Let_def tick_simps elim!: stepped_without_calls stepped_with_calls split: if_splits)

lemma after_stream_moves: "after_stream C E S r s = Some (Again s') \<Longrightarrow> stepped s s' \<or> waited E s s'"
  by (auto simp: after_stream_def stream_ended_def split: option.splits if_splits Option.bind_splits
      dest: stepped_guard stepped_retry stepped_answered stream_failed_moves)

text \<open>One step: taken again, moved on, or waited.\<close>

definition retaken :: "turn_state \<Rightarrow> turn_state \<Rightarrow> bool" where
  "retaken s s' \<longleftrightarrow> settingsRetakes s < maxSettingsRetakes \<and> tick s' = (turn s, settingsRetakes s + 1, limit_waited s)"

definition moved :: "turn_state \<Rightarrow> turn_state \<Rightarrow> bool" where
  "moved s s' \<longleftrightarrow> tick s' = (turn s + 1, 0, limit_waited s)"

lemma tick_step_top: "tick (snd (step_top E s)) = tick s"
  by (simp add: step_top_def readQueuedMessages_def take_settings_def Let_def tick_simps split: option.split)

lemma tick_auto_compact: "auto_compact E sw s = Some s' \<Longrightarrow> tick s' = tick s"
  by (auto simp: auto_compact_def tick_simps dest!: tick_rebuilt split: if_splits option.splits)

lemma tick_volatile [tick_simps]: "tick (render_volatile E s) = tick s"
  by (simp add: render_volatile_def tick_simps split: list.split)

lemma loop_turn_moves:
  assumes "loop_turn C E s = Some (Again s')"
  shows "retaken s s' \<or> moved s s' \<or> (waited E (s\<lparr> settingsRetakes := 0 \<rparr>) s')"
proof -
  obtain sw x where x: "step_top E s = (sw, x)" by (metis prod.collapse)
  then have tx: "tick x = tick s" using tick_step_top [of E s] by simp
  obtain y where y: "auto_compact E sw (render_volatile E x) = Some y"
      "(if retakes E y then Some (Again (y\<lparr> settingsRetakes := settingsRetakes y + 1 \<rparr>)) else call_model C E y) = Some (Again s')"
    using assms x by (auto simp: loop_turn_def split: if_splits Option.bind_splits)
  then have ty: "tick y = tick s" using tick_auto_compact [OF y(1)] tx by (simp add: tick_simps)
  show ?thesis
  proof (cases "retakes E y")
    case True
    then have "retaken s s'" using y(2) ty by (auto simp: retaken_def retakes_def tick_def)
    then show ?thesis by blast
  next
    case False
    then obtain S r where "after_stream C E S r (y\<lparr> settingsRetakes := 0, allowance := called_allowance E (y\<lparr> settingsRetakes := 0 \<rparr>) \<rparr>) = Some (Again s')"
      using y(2) by (auto simp: call_model_def Let_def split: Option.bind_splits if_splits)
    from after_stream_moves [OF this] show ?thesis
      using ty by (auto simp: stepped_def moved_def waited_def tick_def)
  qed
qed

section \<open>The loop returns\<close>

text \<open>
  A reset lies at least \<open>m\<close> nanoseconds ahead, the wait for it takes at least that long, and the maximum of
  the turn's waits is at most \<open>most\<close>.
\<close>

definition resets_ahead :: "int \<Rightarrow> int \<Rightarrow> round_env \<Rightarrow> bool" where
  "resets_ahead m most E \<longleftrightarrow> cfg_wait_max E \<le> most \<and>
     (\<forall>e remaining. stream_err E = Some e \<longrightarrow> err_reset e = Some remaining \<longrightarrow> m \<le> remaining \<and> remaining \<le> wait_took E)"

definition waits_left :: "int \<Rightarrow> int \<Rightarrow> turn_state \<Rightarrow> nat" where
  "waits_left m most s = nat ((most - limit_waited s) div m)"

definition steps_left :: "loop_cfg \<Rightarrow> int \<Rightarrow> int \<Rightarrow> turn_state \<Rightarrow> nat" where
  "steps_left C m most s = 4 * (nat (max_turns C - turn s) + waits_left m most s) - nat (settingsRetakes s)"

lemma waits_left_waited:
  assumes "waited E s s'" "0 < m" "resets_ahead m most E"
  shows "waits_left m most s' < waits_left m most s" "turn s' = turn s" "settingsRetakes s' = settingsRetakes s"
proof -
  obtain e remaining where e: "stream_err E = Some e" "err_reset e = Some remaining" "limit_waited s + remaining \<le> cfg_wait_max E"
      and t: "tick s' = (turn s, settingsRetakes s, limit_waited s + max 0 (wait_took E))"
    using assms(1) by (auto simp: waited_def)
  then have m: "m \<le> remaining" "remaining \<le> wait_took E" "cfg_wait_max E \<le> most" using assms(3) by (auto simp: resets_ahead_def)
  let ?d = "most - limit_waited s"
  have "most - limit_waited s' \<le> ?d - m" "m \<le> ?d" using t m e(3) by (auto simp: tick_def)
  then have "(most - limit_waited s') div m \<le> (?d - m) div m" using assms(2) by (simp add: zdiv_mono1)
  also have "\<dots> = ?d div m - 1" using div_mult_self1 [of m ?d "- 1"] assms(2) by simp
  finally have "(most - limit_waited s') div m \<le> ?d div m - 1" .
  moreover have "1 \<le> ?d div m" using \<open>m \<le> ?d\<close> assms(2) by (simp add: pos_imp_zdiv_pos_iff int_one_le_iff_zero_less)
  ultimately show "waits_left m most s' < waits_left m most s" by (auto simp: waits_left_def)
  show "turn s' = turn s" "settingsRetakes s' = settingsRetakes s" using t by (simp_all add: tick_def)
qed

lemma steps_left_less:
  assumes "loop_turn C E s = Some (Again s')" "turn s < max_turns C" "0 \<le> settingsRetakes s" "settingsRetakes s \<le> maxSettingsRetakes"
    and "0 < m" "resets_ahead m most E"
  shows "steps_left C m most s' < steps_left C m most s" "0 \<le> settingsRetakes s'" "settingsRetakes s' \<le> maxSettingsRetakes"
proof -
  have r: "nat (settingsRetakes s) \<le> 3" using assms(4) by (simp add: maxSettingsRetakes_def)
  have pos: "1 \<le> nat (max_turns C - turn s)" using assms(2) by simp
  consider "retaken s s'" | "moved s s'" | "waited E (s\<lparr> settingsRetakes := 0 \<rparr>) s'" using loop_turn_moves [OF assms(1)] by blast
  then have "steps_left C m most s' < steps_left C m most s \<and> 0 \<le> settingsRetakes s' \<and> settingsRetakes s' \<le> maxSettingsRetakes"
  proof cases
    case 1
    then have "turn s' = turn s" "settingsRetakes s' = settingsRetakes s + 1" "waits_left m most s' = waits_left m most s"
        "settingsRetakes s < 3"
      by (auto simp: retaken_def tick_def waits_left_def maxSettingsRetakes_def)
    then show ?thesis using assms(3) pos by (simp add: steps_left_def maxSettingsRetakes_def nat_add_distrib)
  next
    case 2
    then have "nat (max_turns C - turn s') + 1 = nat (max_turns C - turn s)" "waits_left m most s' = waits_left m most s" "settingsRetakes s' = 0"
      using assms(2) by (auto simp: moved_def tick_def waits_left_def)
    then show ?thesis using r by (simp add: steps_left_def maxSettingsRetakes_def)
  next
    case 3
    have "waits_left m most (s\<lparr> settingsRetakes := 0 \<rparr>) = waits_left m most s" by (simp add: waits_left_def)
    then have "waits_left m most s' < waits_left m most s" "turn s' = turn s" "settingsRetakes s' = 0"
      using waits_left_waited [OF 3 assms(5,6)] by simp_all
    then show ?thesis using r by (simp add: steps_left_def maxSettingsRetakes_def)
  qed
  then show "steps_left C m most s' < steps_left C m most s" "0 \<le> settingsRetakes s'" "settingsRetakes s' \<le> maxSettingsRetakes"
    by blast+
qed

lemma loop_returns_from:
  assumes "\<forall>E \<in> set Es. provider_answers C E \<and> resets_ahead m most E" "0 < m" "0 \<le> settingsRetakes s" "settingsRetakes s \<le> maxSettingsRetakes"
    and "steps_left C m most s \<le> length Es"
  shows "\<exists>why err s'. runReActLoop C Es s = Some (Returned why err s')"
  using assms
proof (induction Es arbitrary: s)
  case Nil
  then have "turn s \<ge> max_turns C"
    by (auto simp: steps_left_def maxSettingsRetakes_def)
  then show ?case by (simp add: runReActLoop.simps)
next
  case (Cons E Es)
  show ?case
  proof (cases "turn s \<ge> max_turns C")
    case False
    have E: "provider_answers C E" "resets_ahead m most E" using Cons.prems(1) by auto
    obtain out where out: "loop_turn C E s = Some out" using loop_turn_total [OF E(1)] by blast
    show ?thesis
    proof (cases out)
      case (Again s')
      note n = steps_left_less [OF out [unfolded Again] _ Cons.prems(3,4,2) E(2)]
      have "\<exists>why err s''. runReActLoop C Es s' = Some (Returned why err s'')"
        using Cons.prems(1,2,5) n False by (intro Cons.IH) auto
      then show ?thesis using False out Again by (subst runReActLoop.simps) simp
    qed (use False out in \<open>subst runReActLoop.simps, simp\<close>)
  qed (simp add: runReActLoop.simps)
qed

text \<open>
  C7: A turn comes to an end. Whatever the model, the tools, the hooks, the operator and the settings do, the
  loop of a turn returns, and has not panicked, after at most four iterations for each of its \<open>max_turns\<close>
  steps and four for each wait on a usage limit: a step is taken again from its top three times at most, every
  other iteration counts, and the waits share the configured maximum \<open>most\<close>, so there are at most \<open>most div m\<close> of
  them when every reset lies at least \<open>m\<close> nanoseconds ahead. A sane number of cycles for the loop guard, finitely
  many records in the session's directory, and a provider that returns something are assumed.
\<close>
theorem turn_returns:
  assumes "\<forall>E \<in> set Es. provider_answers C E \<and> resets_ahead m most E" "0 < m"
    and "4 * (nat (max_turns C) + nat (most div m)) \<le> length Es"
  shows "\<exists>why err s'. runReActLoop C Es (start_loop C stored msgs prompt t tools 0 forced) = Some (Returned why err s')"
  using assms by (intro loop_returns_from [of Es C m most]) (auto simp: start_loop_def steps_left_def waits_left_def maxSettingsRetakes_def)

section \<open>Witnesses\<close>

definition demo_loop :: loop_cfg where
  "demo_loop = \<lparr> max_turns = 2, guard_on = True, cfg_repeat_cycles = 4, cfg_repeat_limit = 3, cfg_nudge_max = 1, subagent_depth = 0,
     subagent_kind = None, lib_evict = demo_lib, lib_Base = id, lib_json_valid = (\<lambda>_. True), lib_Canonical = Some \<rparr>"

definition demo_tool :: call_env where
  "demo_tool = \<lparr> call_changes = [], call_result = ''ok'', call_error = None, call_rules = [], call_pictures = [], call_artifact = None,
     hook_stop_reason = [] \<rparr>"

definition demo_prompt :: system_prompt where "demo_prompt = \<lparr> prompt_Content = ''be brief'', prompt_Volatile = False \<rparr>"

definition demo_lane :: transport where
  "demo_lane = \<lparr> lane_streaming = True, lane_model = ''m'', lane_key = ''m'', lane_rev = 0, lane_agent = False \<rparr>"

definition demo_eviction :: eviction_state where
  "demo_eviction = \<lparr> eviction_enabled = False, eviction_forced = False, StartPercent = 0, EffectiveKeepRecent = 1,
     EffectiveMinResultBytes = 0, MaxContextTokens = None, context_window = 0, requestOverhead = 0, conversationTokens = (\<lambda>_. 0) \<rparr>"

text \<open>An iteration in which the model answers with \<open>r\<close>, or fails with \<open>e\<close>, and nothing else happens.\<close>

definition demo_round :: "response option \<Rightarrow> stream_error option \<Rightarrow> round_env" where
  "demo_round r e = \<lparr> ctx_done = (\<lambda>_. False), user_cancelled = (\<lambda>_. False), queue_interrupt = (\<lambda>_. False), clock = [], queued = [],
     settings_rev = 0, settings_key = ''m'', new_provider = None, had_toolset = False, has_toolset = False, tool_names = (\<lambda>_. []),
     rendered = (\<lambda>_. demo_prompt), turn_block = [], auto_compacted = (\<lambda>_. None), late_rev = 0, late_key = ''m'', cfg_retry_max = 3,
     cfg_first_token_timeout = 90, cfg_wait_for_reset = True, cfg_wait_max = 100, cfg_auto_compact = True, cfg_stop_limit = 3,
     eviction = demo_eviction, eviction_cwd = ''/w'', reads_images = False, load_picture = (\<lambda>_. None), call_recorded = (\<lambda>_. False),
     chunks = [], first_token_fired = False, stream_response = r, stream_err = e, wrapper_retries = 0, agent_rows = False,
     wait_took = 40, wait_cut = False, pause_cut = False, overflow_folds = (\<lambda>_. None), stop_hook = (\<lambda>_ _. None), queued_late = [],
     tool_call = (\<lambda>_. demo_tool), context_compacted = False, workspace_changed = False, config_reloaded = False \<rparr>"

definition demo_limit :: stream_error where
  "demo_limit = \<lparr> err_reset = Some 40, err_transient = False, err_canceled = False, err_truncated = False, err_stalled = False, err_overflow = False \<rparr>"

lemma turn_returns_witness:
  "\<exists>why err s'. runReActLoop demo_loop (replicate 16 (demo_round None (Some demo_limit)))
     (start_loop demo_loop [] [] demo_prompt demo_lane [] 0 False) = Some (Returned why err s')"
proof (rule turn_returns [where m = 40 and most = 100])
  show "\<forall>E \<in> set (replicate 16 (demo_round None (Some demo_limit))). provider_answers demo_loop E \<and> resets_ahead 40 100 E"
    by (simp add: provider_answers_def resets_ahead_def demo_round_def demo_limit_def demo_loop_def cycles_def)
  show "4 * (nat (max_turns demo_loop) + nat (100 div 40)) \<le> length (replicate 16 (demo_round None (Some demo_limit)))"
    by (simp add: demo_loop_def)
qed simp

end
