(* ===== verification/AgentTurn_Stall.thy ===== *)
theory AgentTurn_Stall
  imports AgentTurn_Bounds
begin

text \<open>
  A model that gives nothing to act on: the recoveries of the loop are bounded by their own counters, so a
  turn without tool calls and without follow-ups ends whatever its number of steps is.
\<close>

section \<open>The counters\<close>

definition effort :: "turn_state \<Rightarrow> int list" where
  "effort s = [emptyContinuations s, emptyReissues s, firstTokenRetries s, outputLimitRecoveries s, providerRecoveries s,
     overflowRecoveries s, loopNudges s, stopBlocks s]"

text \<open>What is left of the recoveries before the next one that starts them afresh, and of those.\<close>

definition recoveries_left :: "turn_state \<Rightarrow> int" where
  "recoveries_left s =
     ((3 - emptyReissues s - emptyContinuations s) * 4 + (3 - outputLimitRecoveries s - firstTokenRetries s)) * 7 +
     (6 - providerRecoveries s - overflowRecoveries s)"

definition fresh_starts_left :: "loop_cfg \<Rightarrow> int \<Rightarrow> turn_state \<Rightarrow> int" where
  "fresh_starts_left C K s = int (nat (cfg_nudge_max C - loopNudges s)) + int (nat (K - stopBlocks s))"

definition turn_rank :: "loop_cfg \<Rightarrow> int \<Rightarrow> turn_state \<Rightarrow> int" where
  "turn_rank C K s = fresh_starts_left C K s * 112 + recoveries_left s"

definition within :: "turn_state \<Rightarrow> bool" where
  "within s \<longleftrightarrow>
     0 \<le> emptyReissues s \<and> emptyReissues s \<le> 1 \<and> 0 \<le> emptyContinuations s \<and> emptyContinuations s \<le> 2 \<and>
     0 \<le> firstTokenRetries s \<and> firstTokenRetries s \<le> 1 \<and> 0 \<le> outputLimitRecoveries s \<and> outputLimitRecoveries s \<le> 2 \<and>
     0 \<le> providerRecoveries s \<and> providerRecoveries s \<le> 5 \<and> 0 \<le> overflowRecoveries s \<and> overflowRecoveries s \<le> 1"

lemma effort_same: "effort s' = effort s \<Longrightarrow> turn_rank C K s' = turn_rank C K s \<and> within s' = within s"
  by (simp add: effort_def turn_rank_def recoveries_left_def fresh_starts_left_def within_def)

lemma recoveries_left_range: "within s \<Longrightarrow> 0 \<le> recoveries_left s \<and> recoveries_left s \<le> 111"
  by (simp add: within_def recoveries_left_def)

lemma rank_nonneg: "within s \<Longrightarrow> 0 \<le> turn_rank C K s"
  using recoveries_left_range [of s] by (simp add: turn_rank_def fresh_starts_left_def)

definition lower :: "loop_cfg \<Rightarrow> int \<Rightarrow> turn_state \<Rightarrow> turn_state \<Rightarrow> bool" where
  "lower C K s' s \<longleftrightarrow> within s' \<and> turn_rank C K s' < turn_rank C K s"

lemma lower_fresh:
  assumes "within s'" "within s" "fresh_starts_left C K s' < fresh_starts_left C K s"
  shows "lower C K s' s"
  using recoveries_left_range [OF assms(1)] recoveries_left_range [OF assms(2)] assms by (simp add: lower_def turn_rank_def)

named_theorems effort_simps

lemma effort_update [effort_simps]:
  "effort (s\<lparr> transcript := t \<rparr>) = effort s" "effort (s\<lparr> working := t \<rparr>) = effort s" "effort (s\<lparr> allowance := a \<rparr>) = effort s"
  "effort (s\<lparr> standing := l \<rparr>) = effort s" "effort (s\<lparr> overflowCompacted := b \<rparr>) = effort s" "effort (s\<lparr> evictionForced := b \<rparr>) = effort s"
  "effort (s\<lparr> system := p \<rparr>) = effort s" "effort (s\<lparr> stopHookActive := b \<rparr>) = effort s" "effort (s\<lparr> turnHadVisibleText := b \<rparr>) = effort s"
  "effort (s\<lparr> offered := os \<rparr>) = effort s" "effort (s\<lparr> lane := l' \<rparr>) = effort s" "effort (s\<lparr> turn := n \<rparr>) = effort s"
  "effort (s\<lparr> settingsRetakes := n \<rparr>) = effort s"
  by (simp_all add: effort_def)

lemma effort_add [effort_simps]: "effort (add_both ms s) = effort s" by (simp add: effort_def add_both_def)
lemma effort_skip [effort_simps]: "effort (recordSkippedToolCalls tcs why s) = effort s" by (simp add: recordSkippedToolCalls_def effort_add)
lemma effort_rebuilt: "rebuilt s = Some s' \<Longrightarrow> effort s' = effort s" by (auto simp: rebuilt_def effort_def)
lemma effort_offer [effort_simps]: "effort (offer_again E w s) = effort s" by (simp add: offer_again_def effort_def)
lemma effort_volatile [effort_simps]: "effort (render_volatile E s) = effort s"
  by (simp add: render_volatile_def effort_simps split: list.split)

lemma effort_auto_compact: "auto_compact E sw s = Some s' \<Longrightarrow> effort s' = effort s"
  by (auto simp: auto_compact_def effort_simps dest!: effort_rebuilt split: if_splits option.splits)

lemma effort_fields: "effort s' = effort s \<longleftrightarrow> emptyContinuations s' = emptyContinuations s \<and> emptyReissues s' = emptyReissues s \<and>
    firstTokenRetries s' = firstTokenRetries s \<and> outputLimitRecoveries s' = outputLimitRecoveries s \<and>
    providerRecoveries s' = providerRecoveries s \<and> overflowRecoveries s' = overflowRecoveries s \<and> loopNudges s' = loopNudges s \<and>
    stopBlocks s' = stopBlocks s"
  by (auto simp: effort_def)

section \<open>Every recovery costs\<close>

lemma lower_guard:
  assumes "guard_cut C E ch S r s = Some (Again s')" "within s"
  shows "lower C K s' s"
proof -
  obtain row where "loop_aborted_row C E (lane_model (lane s)) S r = Some row"
    using assms(1) by (auto simp: guard_cut_def split: Option.bind_splits)
  moreover define x where "x = store_aborted row s"
  ultimately have g: "\<not> loopNudges x \<ge> cfg_nudge_max C"
      "map_option (\<lambda>s. next_turn ((resetRetries (s\<lparr> working := working s @ [local_message
         (case ch of LoopReasoning \<Rightarrow> reasoningLoopNudge | LoopText \<Rightarrow> streamLoopNudge)] \<rparr>))\<lparr> standing :=
         [case ch of LoopReasoning \<Rightarrow> reasoningLoopNudge | LoopText \<Rightarrow> streamLoopNudge] \<rparr>))
       (rebuilt (x\<lparr> loopNudges := loopNudges x + 1 \<rparr>)) = Some (Again s')"
    using assms(1) by (auto simp: guard_cut_def Let_def split: if_splits)
  have x: "effort x = effort s" by (simp add: x_def store_aborted_def effort_simps split: option.split)
  from g(2) obtain y where y: "rebuilt (x\<lparr> loopNudges := loopNudges x + 1 \<rparr>) = Some y"
      "s' = (resetRetries (y\<lparr> working := working y @ [local_message (case ch of LoopReasoning \<Rightarrow> reasoningLoopNudge | LoopText \<Rightarrow> streamLoopNudge)] \<rparr>))
         \<lparr> standing := [case ch of LoopReasoning \<Rightarrow> reasoningLoopNudge | LoopText \<Rightarrow> streamLoopNudge], turn := turn y + 1 \<rparr>"
    by (auto simp: next_turn_def resetRetries_def)
  have "loopNudges s' = loopNudges s + 1" "stopBlocks s' = stopBlocks s" "within s'"
    using effort_rebuilt [OF y(1)] x assms(2) by (auto simp: effort_fields y(2) resetRetries_def within_def)
  moreover have "loopNudges s < cfg_nudge_max C" using g(1) x by (simp add: effort_fields)
  ultimately show ?thesis using assms(2) by (intro lower_fresh) (auto simp: fresh_starts_left_def)
qed

lemma lower_retry: "retry_first_token C s = Again s' \<Longrightarrow> within s \<Longrightarrow> lower C K s' s"
  by (auto simp: retry_first_token_def next_turn_def Let_def lower_def within_def turn_rank_def recoveries_left_def fresh_starts_left_def
      maxFirstTokenRetries_def split: if_splits)

lemma budget_range: "providerRecoveryBudget C \<le> 5"
  by (simp add: providerRecoveryBudget_def maxUnattendedProviderRecoveries_def maxProviderRecoveries_def split: option.split list.split)

lemma lower_one_more:
  assumes "within s" "effort s' = (effort s)[4 := providerRecoveries s + 1]" "providerRecoveries s < 5"
  shows "lower C K s' s"
  using assms by (simp add: effort_def lower_def within_def turn_rank_def recoveries_left_def fresh_starts_left_def)

lemma lower_recover:
  assumes "recover_provider E S s = Again s'" "recovers C E e s" "within s"
  shows "lower C K s' s"
proof -
  obtain b x where k: "keepInterruptedAnswer E (lane_model (lane s)) S (s\<lparr> providerRecoveries := providerRecoveries s + 1 \<rparr>) = (b, x)"
    by (metis prod.collapse)
  have "effort (snd (keepInterruptedAnswer E m S y)) = effort y" for m y
    by (simp add: keepInterruptedAnswer_def effort_simps)
  from this [of "lane_model (lane s)" "s\<lparr> providerRecoveries := providerRecoveries s + 1 \<rparr>"]
  have x: "effort x = (effort s)[4 := providerRecoveries s + 1]" by (simp add: k) (simp add: effort_def)
  have "effort s' = effort x"
    using assms(1) by (auto simp: recover_provider_def k next_turn_def effort_simps split: if_splits)
  then show ?thesis
    using x assms(2,3) budget_range [of C] by (intro lower_one_more) (auto simp: recovers_def)
qed

lemma lower_overflow:
  assumes "recover_overflow C E S x = Some (Again s')" "effort x = effort s" "within s"
  shows "lower C K s' s"
proof -
  obtain y z where "effort y = (effort s)[5 := overflowRecoveries s + 1]" "effort z = effort y" "s' = z\<lparr> turn := turn z + 1 \<rparr>" "overflowRecoveries s < 1"
  proof -
    let ?y = "x\<lparr> overflowRecoveries := overflowRecoveries x + 1, evictionForced := True, overflowCompacted := True,
                system := rendered E ForOverflow \<rparr>"
    have y: "effort ?y = (effort s)[5 := overflowRecoveries s + 1]" using assms(2) by (simp add: effort_def)
    obtain fs w where "overflow_folds E (transcript x) = Some fs" "rebuilt (?y\<lparr> transcript := insert_folds fs (transcript x) \<rparr>) = Some w"
        "s' = (w\<lparr> working := restoreRecoveries (working w) (standing w), allowance := None \<rparr>)\<lparr> turn := turn w + 1 \<rparr>"
        and lt: "overflowRecoveries x < 1"
      using assms(1) by (auto simp: recover_overflow_def next_turn_def Let_def maxOverflowRecoveries_def split: if_splits option.splits)
    moreover have "overflowRecoveries s < 1" using lt assms(2) by (simp add: effort_fields)
    ultimately show ?thesis
      using y by (intro that [of ?y "w\<lparr> working := restoreRecoveries (working w) (standing w), allowance := None \<rparr>"])
        (auto simp: effort_simps dest!: effort_rebuilt)
  qed
  then have "effort s' = (effort s)[5 := overflowRecoveries s + 1]" "overflowRecoveries s < 1" by (simp_all add: effort_simps)
  then show ?thesis using assms(3)
    by (simp add: effort_def lower_def within_def turn_rank_def recoveries_left_def fresh_starts_left_def)
qed

section \<open>A round that gives nothing to act on\<close>

text \<open>
  No follow-up waits, the response has no tool call, no usage limit is waited for, and the Stop hooks may
  send the agent back at most \<open>K\<close> times.
\<close>

definition idle_round :: "int \<Rightarrow> round_env \<Rightarrow> bool" where
  "idle_round K E \<longleftrightarrow> queued E = [] \<and> queued_late E = [] \<and> cfg_stop_limit E \<le> K \<and>
     (\<forall>r. stream_response E = Some r \<longrightarrow> resp_ToolCalls r = []) \<and>
     (\<forall>e. stream_err E = Some e \<longrightarrow> err_reset e = None)"

lemma lower_failed:
  assumes "stream_failed C E e S r s = Some (Again s')" "idle_round K E" "stream_err E = Some e" "within s"
  shows "lower C K s' s"
proof -
  have no: "\<not> limitResetToWaitFor C E e S r s" using assms(2,3) by (simp add: idle_round_def limitResetToWaitFor_def)
  show ?thesis
  proof (cases "recovers C E e s")
    case True
    then show ?thesis using assms(1,4) no lower_recover by (auto simp: stream_failed_def)
  next
    case False
    have "effort (keep_partial E e S r s) = effort s"
      by (simp add: keep_partial_def Let_def effort_simps split: option.split prod.split)
    moreover have "recover_overflow C E S (keep_partial E e S r s) = Some (Again s')"
      using assms(1) no False by (auto simp: stream_failed_def Let_def split: if_splits)
    ultimately show ?thesis using lower_overflow assms(4) by blast
  qed
qed

text \<open>After an answer the lane's counters start afresh, and that of the output limit unless it cut the step.\<close>

definition answered_from :: "turn_state \<Rightarrow> response \<Rightarrow> turn_state \<Rightarrow> bool" where
  "answered_from s r x \<longleftrightarrow> providerRecoveries x = 0 \<and> overflowRecoveries x = 0 \<and>
     outputLimitRecoveries x = (if resp_StopReason r \<noteq> ''max_tokens'' then 0 else outputLimitRecoveries s) \<and>
     emptyReissues x = emptyReissues s \<and> emptyContinuations x = emptyContinuations s \<and> firstTokenRetries x = firstTokenRetries s \<and>
     loopNudges x = loopNudges s \<and> stopBlocks x = stopBlocks s"

lemma lower_end_of_turn:
  assumes "end_of_turn C E content x = Again s'" "idle_round K E" "answered_from s r x" "within s"
  shows "lower C K s' s"
proof -
  have h: "stopBlocks x < cfg_stop_limit E"
      "s' = (resetRetries (add_both [(new_message RoleUser (StopHookPrefix @ (the (stop_hook E (last_answer content (transcript x)) (stopHookActive x)))))
         \<lparr> CreatedAt := clock E \<rparr>] (x\<lparr> stopBlocks := stopBlocks x + 1, stopHookActive := True \<rparr>)))\<lparr> turn := turn x + 1 \<rparr>"
    using assms(1,2) by (auto simp: end_of_turn_def idle_round_def next_turn_def resetRetries_def add_both_def split: option.splits if_splits)
  have "loopNudges s' = loopNudges s" "stopBlocks s' = stopBlocks s + 1" "within s'"
    using assms(3,4) by (auto simp: h(2) resetRetries_def add_both_def answered_from_def within_def)
  moreover have "stopBlocks s < K" using h(1) assms(2,3) by (simp add: idle_round_def answered_from_def)
  ultimately show ?thesis using assms(4) by (intro lower_fresh) (auto simp: fresh_starts_left_def)
qed

lemma lower_without_calls:
  assumes "without_calls C E r cutCall x = Again s'" "idle_round K E" "answered_from s r x" "within s"
  shows "lower C K s' s"
proof -
  let ?retry = "TakeRetry (allowance x)"
  consider (limit) "resp_StopReason r = ''max_tokens''" "outputLimitRecoveries x < 2"
        "effort s' = (effort x)[3 := outputLimitRecoveries x + 1]"
    | (again) "emptyReissues x < 1" "effort s' = (effort x)[1 := emptyReissues x + 1]"
    | (words) "emptyContinuations x < 2" "effort s' = (effort x)[0 := emptyContinuations x + 1]"
    | (ended) "end_of_turn C E (resp_Content r) x = Again s'"
    using assms(1)
    by (auto simp: without_calls_def cut_without_call_def end_on_limit_def may_ask_after_limit_def next_turn_def Let_def effort_def
        maxOutputLimitRecoveries_def maxEmptyAssistantReissues_def maxEmptyAssistantContinuations_def split: if_splits)
  then show ?thesis
  proof cases
    case ended
    then show ?thesis using lower_end_of_turn assms by blast
  qed (use assms(3,4) in \<open>auto simp: effort_def answered_from_def lower_def within_def turn_rank_def recoveries_left_def
      fresh_starts_left_def split: if_splits\<close>)
qed

lemma lower_answered:
  assumes "answered C E S r s = Some (Again s')" "idle_round K E" "resp_ToolCalls r = []" "within s"
  shows "lower C K s' s"
proof -
  have "cutOffToolCall (lib_json_valid C) r = None" using assms(3) by (simp add: cutOffToolCall_def)
  then have "without_calls C E r None (store_answer E S r None s) = Again s'"
    using assms(1,3) by (simp add: answered_def)
  moreover have "answered_from s r (store_answer E S r None s)"
    by (simp add: answered_from_def store_answer_def add_both_def Let_def)
  ultimately show ?thesis using lower_without_calls assms(2,4) by blast
qed

lemma lower_after_stream:
  assumes "after_stream C E S r s = Some (Again s')" "idle_round K E" "\<forall>q. r = Some q \<longrightarrow> resp_ToolCalls q = []" "within s"
  shows "lower C K s' s"
proof -
  have ended: "stream_ended C E S r s = Some (Again s') \<Longrightarrow> lower C K s' s"
    using assms(2-4) lower_answered lower_retry lower_failed
    by (auto simp: stream_ended_def split: option.splits if_splits Option.bind_splits)
  show ?thesis
    using assms(1,4) ended lower_guard by (auto simp: after_stream_def split: option.splits if_splits)
qed

lemma idle_response: "stream_call C E msgs = Some (S, r) \<Longrightarrow> idle_round K E \<Longrightarrow> \<forall>q. r = Some q \<longrightarrow> resp_ToolCalls q = []"
  by (auto simp: stream_call_def idle_round_def response_calls_def split: option.splits Option.bind_splits)

lemma effort_step_top: "queued E = [] \<Longrightarrow> effort (snd (step_top E s)) = effort s"
  by (simp add: step_top_def readQueuedMessages_def take_settings_def Let_def effort_simps split: option.split)

lemma idle_turn:
  assumes "loop_turn C E s = Some (Again s')" "idle_round K E" "within s"
  shows "(effort s' = effort s \<and> retaken s s') \<or> (lower C K s' s \<and> settingsRetakes s' = 0)"
proof -
  obtain sw x where x: "step_top E s = (sw, x)" by (metis prod.collapse)
  then have ex: "effort x = effort s" "tick x = tick s"
    using effort_step_top [of E s] tick_step_top [of E s] assms(2) by (simp_all add: idle_round_def)
  obtain y where y: "auto_compact E sw (render_volatile E x) = Some y"
      "(if retakes E y then Some (Again (y\<lparr> settingsRetakes := settingsRetakes y + 1 \<rparr>)) else call_model C E y) = Some (Again s')"
    using assms(1) x by (auto simp: loop_turn_def split: if_splits Option.bind_splits)
  then have ey: "effort y = effort s" "tick y = tick s"
    using effort_auto_compact [OF y(1)] tick_auto_compact [OF y(1)] ex by (simp_all add: effort_simps tick_simps)
  show ?thesis
  proof (cases "retakes E y")
    case True
    then have "effort s' = effort s" "retaken s s'" using y(2) ey by (auto simp: retaken_def retakes_def tick_def effort_simps)
    then show ?thesis by blast
  next
    case False
    let ?z = "y\<lparr> settingsRetakes := 0, allowance := called_allowance E (y\<lparr> settingsRetakes := 0 \<rparr>) \<rparr>"
    obtain S r where r: "stream_call C E (working y) = Some (S, r)" "after_stream C E S r ?z = Some (Again s')"
      using y(2) False by (auto simp: call_model_def Let_def split: Option.bind_splits if_splits)
    have z: "effort ?z = effort s" using ey by (simp add: effort_simps)
    then have "lower C K s' ?z"
      using lower_after_stream [OF r(2) assms(2) idle_response [OF r(1) assms(2)]] effort_same [OF z] assms(3) by blast
    then have "lower C K s' s" using effort_same [OF z] by (simp add: lower_def)
    moreover have "settingsRetakes s' = 0" using after_stream_moves [OF r(2)] by (auto simp: stepped_def waited_def tick_def)
    ultimately show ?thesis by blast
  qed
qed

lemma idle_loop_returns:
  assumes "\<forall>E \<in> set Es. provider_answers C E \<and> idle_round K E" "within s" "0 \<le> settingsRetakes s" "settingsRetakes s \<le> 3"
    and "4 * turn_rank C K s + 4 - settingsRetakes s \<le> int (length Es)"
  shows "\<exists>why err s'. runReActLoop C Es s = Some (Returned why err s')"
  using assms
proof (induction Es arbitrary: s)
  case Nil
  then show ?case using rank_nonneg [of s C K] by simp
next
  case (Cons E Es)
  show ?case
  proof (cases "turn s \<ge> max_turns C")
    case False
    have E: "provider_answers C E" "idle_round K E" using Cons.prems(1) by auto
    obtain out where out: "loop_turn C E s = Some out" using loop_turn_total [OF E(1)] by blast
    show ?thesis
    proof (cases out)
      case (Again s')
      have n: "within s' \<and> 0 \<le> settingsRetakes s' \<and> settingsRetakes s' \<le> 3 \<and>
          4 * turn_rank C K s' + 4 - settingsRetakes s' < 4 * turn_rank C K s + 4 - settingsRetakes s"
        using idle_turn [OF out [unfolded Again] E(2) Cons.prems(2)]
      proof
        assume "effort s' = effort s \<and> retaken s s'"
        then show ?thesis using effort_same [of s' s C K] Cons.prems(2,3)
          by (auto simp: retaken_def tick_def maxSettingsRetakes_def)
      next
        assume "lower C K s' s \<and> settingsRetakes s' = 0"
        then show ?thesis using Cons.prems(4) by (simp add: lower_def)
      qed
      have "\<exists>why err s''. runReActLoop C Es s' = Some (Returned why err s'')"
        using Cons.prems(1,5) n by (intro Cons.IH) auto
      then show ?thesis using False out Again by (subst runReActLoop.simps) simp
    qed (use False out in \<open>subst runReActLoop.simps, simp\<close>)
  qed (simp add: runReActLoop.simps)
qed

text \<open>
  C8: A model that gives nothing to act on cannot hold a turn open, however many steps the turn may take. When
  no response has a tool call, nobody writes a follow-up, no usage limit is waited for and the Stop hooks may
  send the agent back \<open>K\<close> times, the loop returns within \<open>448\<close> iterations for the start, for every nudge of the
  loop guard and for every Stop hook: empty answers, cut answers, loops, silent and failing providers and refused
  requests, in whatever order they come, use up their counters.
\<close>
theorem idle_turn_returns:
  assumes "\<forall>E \<in> set Es. provider_answers C E \<and> idle_round K E"
    and "448 * (nat (cfg_nudge_max C) + nat K + 1) \<le> length Es"
  shows "\<exists>why err s'. runReActLoop C Es (start_loop C stored msgs prompt t tools spent forced) = Some (Returned why err s')"
proof -
  let ?s = "start_loop C stored msgs prompt t tools spent forced"
  define X where "X = int (nat (cfg_nudge_max C)) + int (nat K)"
  have turn_rank: "turn_rank C K ?s \<le> 112 * X + 111" and ok: "within ?s" "settingsRetakes ?s = 0"
    by (simp_all add: X_def turn_rank_def recoveries_left_def fresh_starts_left_def within_def start_loop_def)
  have "448 * (X + 1) \<le> int (length Es)"
    using iffD2 [OF of_nat_le_iff [where 'a = int] assms(2)] by (simp add: X_def algebra_simps)
  with turn_rank have "4 * turn_rank C K ?s + 4 \<le> int (length Es)" by simp
  with assms(1) ok show ?thesis by (intro idle_loop_returns [of Es C K]) auto
qed

definition demo_silence :: response where
  "demo_silence = \<lparr> resp_Content = [], resp_ToolCalls = [], resp_StopReason = ''end_turn'', resp_Signature = [] \<rparr>"

lemma idle_turn_returns_witness:
  "\<exists>why err s'. runReActLoop (demo_loop\<lparr> max_turns := 10 ^ 6 \<rparr>) (replicate 2240 (demo_round (Some demo_silence) None))
     (start_loop (demo_loop\<lparr> max_turns := 10 ^ 6 \<rparr>) [] [] demo_prompt demo_lane [] 0 False) = Some (Returned why err s')"
proof (rule idle_turn_returns [where K = 3])
  show "\<forall>E \<in> set (replicate 2240 (demo_round (Some demo_silence) None)). provider_answers (demo_loop\<lparr> max_turns := 10 ^ 6 \<rparr>) E \<and> idle_round 3 E"
    by (simp add: provider_answers_def idle_round_def demo_round_def demo_loop_def cycles_def demo_silence_def)
qed (simp add: demo_loop_def)

end
