(* ===== verification/GoalState.thy ===== *)
theory GoalState
  imports GoWords Transcript LoopGuard
begin

text \<open>
  The objective of a session and the operator's commands on it (\<^verbatim>\<open>internal/session\<close>: goal.go, the
  operations of goal_command.go; \<^verbatim>\<open>internal/config/supervisor.go\<close>). The instants that are stored and
  the random identifiers are inputs. An operation under the state's lock is one definition.
\<close>

section \<open>Settings of the supervisor\<close>

text \<open>A field that may be missing is an option, like the pointer in the code.\<close>

record Supervisor =
  sup_Enable :: bool
  sup_Verify :: "bool option"
  StallSeconds :: "int option"
  MaxNudges :: "int option"
  MaxContinuations :: "int option"
  LoopRepeat :: "int option"
  TokenBudget :: "int option"
  MaxChainSessions :: "int option"

definition effectiveSupervisorInt :: "int option \<Rightarrow> int \<Rightarrow> int" where
  "effectiveSupervisorInt v fallback = (case v of Some n \<Rightarrow> n | None \<Rightarrow> fallback)"

definition ContinuationLimit :: "Supervisor \<Rightarrow> int" where
  "ContinuationLimit s = effectiveSupervisorInt (MaxContinuations s) 10"

definition NudgeLimit :: "Supervisor \<Rightarrow> int" where
  "NudgeLimit s = effectiveSupervisorInt (MaxNudges s) 2"

definition LoopRepeatLimit :: "Supervisor \<Rightarrow> int" where
  "LoopRepeatLimit s = effectiveSupervisorInt (LoopRepeat s) 3"

definition VerifyEnabled :: "Supervisor \<Rightarrow> bool" where
  "VerifyEnabled s = (case sup_Verify s of None \<Rightarrow> True | Some b \<Rightarrow> b)"

definition ChainSessionLimit :: "Supervisor \<Rightarrow> int" where
  "ChainSessionLimit s = effectiveSupervisorInt (MaxChainSessions s) 10"

definition EffectiveTokenBudget :: "Supervisor \<Rightarrow> int" where
  "EffectiveTokenBudget s = max (effectiveSupervisorInt (TokenBudget s) 0) 0"

text \<open>The silence a turn may keep, in nanoseconds; the product wraps like any Go product.\<close>

definition StallTimeout :: "Supervisor \<Rightarrow> int" where
  "StallTimeout s = wrap64 (effectiveSupervisorInt (StallSeconds s) 300 * 1000000000)"

section \<open>The goal\<close>

text \<open>\<open>NoStatus\<close> is the empty string of the zero value.\<close>

datatype GoalStatus = NoStatus | GoalActive | GoalPaused | GoalBlocked | GoalComplete | GoalLimited

text \<open>The answers of the supervisor's check are strings.\<close>

type_synonym GoalVerdict = bytes

definition GoalVerdictMet :: GoalVerdict where "GoalVerdictMet = ''met''"
definition GoalVerdictNotMet :: GoalVerdict where "GoalVerdictNotMet = ''not_met''"
definition GoalVerdictNeedsUser :: GoalVerdict where "GoalVerdictNeedsUser = ''needs_user''"
definition GoalVerdictImpossible :: GoalVerdict where "GoalVerdictImpossible = ''impossible''"

lemmas verdict_defs = GoalVerdictMet_def GoalVerdictNotMet_def GoalVerdictNeedsUser_def GoalVerdictImpossible_def

record GoalItem =
  it_Text :: bytes
  it_Status :: bytes
  it_Evidence :: bytes

record GoalCheck =
  ck_Verdict :: GoalVerdict
  ck_Reason :: bytes
  ck_Remaining :: "bytes list"
  ck_Verified :: bool
  ck_At :: bytes
  ck_Model :: bytes

text \<open>The workspace a goal was set in: the folder and the commit; what git recorded of its files is opaque.\<close>

record GoalStart =
  start_Dir :: bytes
  start_Head :: bytes

record GoalState =
  g_ID :: bytes
  Objective :: bytes
  g_Status :: GoalStatus
  StatusReason :: bytes
  SetAt :: bytes
  UpdatedAt :: bytes
  Continuations :: int
  Checks :: int
  ActiveMs :: int
  TokensUsed :: int
  TokensBase :: int
  LastCheck :: "GoalCheck option"
  Checklist :: "GoalItem list"
  g_Model :: bytes
  g_Reasoning :: bytes
  ThenFile :: bytes
  ChainIndex :: int
  ContinuedFrom :: bytes
  ContinuedIn :: bytes
  g_Start :: "GoalStart option"
  AcceptedFiles :: "(bytes \<times> bytes) list"

definition no_goal :: GoalState where
  "no_goal = \<lparr> g_ID = [], Objective = [], g_Status = NoStatus, StatusReason = [], SetAt = [], UpdatedAt = [],
     Continuations = 0, Checks = 0, ActiveMs = 0, TokensUsed = 0, TokensBase = 0, LastCheck = None, Checklist = [],
     g_Model = [], g_Reasoning = [], ThenFile = [], ChainIndex = 0, ContinuedFrom = [], ContinuedIn = [],
     g_Start = None, AcceptedFiles = [] \<rparr>"

definition goal_Set :: "GoalState \<Rightarrow> bool" where
  "goal_Set g \<longleftrightarrow> trim_space (Objective g) \<noteq> []"

definition goal_Active :: "GoalState \<Rightarrow> bool" where
  "goal_Active g \<longleftrightarrow> goal_Set g \<and> g_Status g = GoalActive"

definition BudgetTokens :: "GoalState \<Rightarrow> int" where
  "BudgetTokens g = max (wrap64 (TokensUsed g - TokensBase g)) 0"

definition MaxGoalObjectiveRunes :: nat where "MaxGoalObjectiveRunes = 4000"

definition NewGoal :: "bytes \<Rightarrow> bytes \<Rightarrow> bytes \<Rightarrow> bytes + GoalState" where
  "NewGoal now fresh_id objective =
     (let objective = trim_space objective; n = length (runes objective) in
      if objective = [] then Inl ''the goal objective is empty''
      else if n > MaxGoalObjectiveRunes
      then Inl (''a goal objective is limited to '' @ digits_of MaxGoalObjectiveRunes @ '' characters (got '' @ digits_of n @
        ''); put the details in a file and name it in the goal'')
      else Inr (no_goal\<lparr> g_ID := fresh_id, Objective := objective, g_Status := GoalActive, SetAt := now, UpdatedAt := now \<rparr>))"

text \<open>A text cut to a number of runes.\<close>

definition clipRunes :: "bytes \<Rightarrow> nat \<Rightarrow> bytes" where
  "clipRunes s n = (if length (runes s) \<le> n then s else concat (map encode_rune (take n (runes s))) @ ''...'')"

text \<open>\<^verbatim>\<open>%d\<close> of an int.\<close>

definition int_text :: "int \<Rightarrow> bytes" where
  "int_text n = (if n < 0 then CHR ''-'' # digits_of (nat (- n)) else digits_of (nat n))"

section \<open>The goal in its session\<close>

text \<open>
  The marker of a goal turn, the rows of the conversation with the fields the goal's rules read
  (\<open>row_GoalTurn\<close> and \<open>row_Wake\<close> are whether the pointers are set), and the part of
  \<^verbatim>\<open>session.State\<close> a goal touches: \<open>ui_notices\<close> is what \<^verbatim>\<open>AppendUILogNotice\<close> stored, with the user
  turn it stands at, and \<open>published\<close> the notices the snapshots were published with.
\<close>

datatype GoalTurnKind = TurnKickoff | TurnContinue | TurnRecover | TurnResume | TurnWrapUp

record GoalTurn =
  gt_Kind :: GoalTurnKind
  gt_Index :: int
  gt_Limit :: int
  gt_Objective :: bytes
  gt_Reason :: bytes
  gt_Remaining :: "bytes list"

record goal_row = message +
  row_Goal :: bytes
  RiskAcknowledged :: bool
  row_GoalTurn :: bool
  row_Wake :: bool

record gsession =
  goal :: GoalState
  rows :: "goal_row list"
  ui_notices :: "(int \<times> bytes) list"
  turn_stop_notice :: bytes
  published :: "bytes list"
  edits :: nat

text \<open>
  \<^verbatim>\<open>updateGoal\<close>: the change sees the goal and the rest of the state, since it runs under the state's
  lock; \<open>None\<close> is a change that declines. An objective that became empty clears the goal.
\<close>

definition updateGoal ::
    "bytes \<Rightarrow> bytes \<Rightarrow> (GoalState \<Rightarrow> gsession \<Rightarrow> (GoalState \<times> gsession) option) \<Rightarrow> gsession \<Rightarrow> bool \<times> gsession" where
  "updateGoal now notice fn s =
     (case fn (goal s) s of
        None \<Rightarrow> (False, s)
      | Some (next, s') \<Rightarrow>
          let next = next\<lparr> Objective := trim_space (Objective next) \<rparr>;
              next = (if goal_Set next then next\<lparr> UpdatedAt := now \<rparr> else no_goal)
          in (True, s'\<lparr> goal := next, published := published s' @ [notice] \<rparr>))"

definition UpdateGoal :: "bytes \<Rightarrow> bytes \<Rightarrow> (GoalState \<Rightarrow> GoalState option) \<Rightarrow> gsession \<Rightarrow> bool \<times> gsession" where
  "UpdateGoal now notice fn s = updateGoal now notice (\<lambda>g s. map_option (\<lambda>g'. (g', s)) (fn g)) s"

definition SetGoalWithNotice :: "bytes \<Rightarrow> GoalState \<Rightarrow> bytes \<Rightarrow> gsession \<Rightarrow> gsession" where
  "SetGoalWithNotice now g notice s = snd (UpdateGoal now notice (\<lambda>_. Some g) s)"

definition RestoreGoalWithoutPersist :: "GoalState \<Rightarrow> gsession \<Rightarrow> gsession" where
  "RestoreGoalWithoutPersist g s = (if goal_Set g then s\<lparr> goal := g \<rparr> else s)"

text \<open>\<^verbatim>\<open>AppendUILogNotice\<close> at the current user turn, and the notice a turn ends with.\<close>

definition user_turns :: "gsession \<Rightarrow> int" where
  "user_turns s = CountUserTurns (map message.truncate (rows s))"

definition log_notice :: "bytes \<Rightarrow> gsession \<Rightarrow> gsession" where
  "log_notice text s =
     (let msg = trim_space text in
      if msg = [] then s else s\<lparr> ui_notices := ui_notices s @ [(max (user_turns s) 1, msg)] \<rparr>)"

definition SetTurnStopNotice :: "bytes \<Rightarrow> gsession \<Rightarrow> gsession" where
  "SetTurnStopNotice text s = s\<lparr> turn_stop_notice := text \<rparr>"

definition TakeTurnStopNotice :: "gsession \<Rightarrow> bytes \<times> gsession" where
  "TakeTurnStopNotice s = (turn_stop_notice s, s\<lparr> turn_stop_notice := [] \<rparr>)"

text \<open>A row stored while the goal is active carries the goal's id.\<close>

definition stampGoalLocked :: "gsession \<Rightarrow> goal_row \<Rightarrow> goal_row" where
  "stampGoalLocked s m = (if goal_Active (goal s) then m\<lparr> row_Goal := g_ID (goal s) \<rparr> else m)"

section \<open>Clearing, pausing, setting\<close>

definition clearGoal :: "bytes \<Rightarrow> gsession \<Rightarrow> bytes \<times> gsession" where
  "clearGoal now s =
     (if \<not> goal_Set (goal s) then (''No goal is set.'', s)
      else let notice = ''Goal cleared: '' @ Objective (goal s) in (notice, SetGoalWithNotice now no_goal notice s))"

definition pauseGoal :: "bytes \<Rightarrow> bytes \<Rightarrow> gsession \<Rightarrow> (bytes + bytes) \<times> gsession" where
  "pauseGoal now reason s =
     (let g = goal s in
      if \<not> goal_Set g then (Inl ''no goal is set'', s)
      else if g_Status g = GoalPaused then (Inr ''Goal is already paused.'', s)
      else if g_Status g = GoalComplete then (Inl ''the goal is complete; /goal <objective> sets a new one'', s)
      else let notice = ''Goal paused: '' @ Objective g in
        (Inr notice, snd (UpdateGoal now notice (\<lambda>g. Some (g\<lparr> g_Status := GoalPaused, StatusReason := reason \<rparr>)) s)))"

text \<open>\<open>start\<close> is the answer of git about the workspace.\<close>

definition SetGoalObjective ::
    "bytes \<Rightarrow> bytes \<Rightarrow> GoalStart option \<Rightarrow> bytes \<Rightarrow> gsession \<Rightarrow> (bytes + GoalState) \<times> gsession" where
  "SetGoalObjective now fresh_id start objective s =
     (case NewGoal now fresh_id objective of
        Inl e \<Rightarrow> (Inl e, s)
      | Inr g \<Rightarrow> let g = g\<lparr> g_Start := start \<rparr> in (Inr g, SetGoalWithNotice now g (''Goal set: '' @ Objective g) s))"

end
