(* ===== verification/GoalRisk.thy ===== *)
theory GoalRisk
  imports GoalState "HOL-Library.List_Lexorder" "HOL-Library.Char_ord"
begin

text \<open>
  The rules over the evidence of a goal's turns (\<^verbatim>\<open>internal/session/goal_risk.go\<close>, and the parts of
  goal_digest.go they use). The decoding of a call's JSON, the runes outside ASCII that are letters
  or digits, and the answers of git are parameters; the regular expressions are written out.
\<close>

section \<open>Did a call run?\<close>

definition ToolResultDeniedByUser :: bytes where "ToolResultDeniedByUser = ''permission denied by user''"
definition ToolResultNotGrantedPrefix :: bytes where "ToolResultNotGrantedPrefix = ''permission not granted: ''"
definition ToolResultHookBlockedPrefix :: bytes where "ToolResultHookBlockedPrefix = ''blocked by hook: ''"
definition ToolResultNotExecutedPrefix :: bytes where "ToolResultNotExecutedPrefix = ''not executed: ''"
definition ToolResultCancelledBeforeRun :: bytes where "ToolResultCancelledBeforeRun = ''cancelled before the tool ran''"
definition ToolResultUnsafePrefix :: bytes where "ToolResultUnsafePrefix = ''command rejected as unsafe: ''"
definition ToolResultCommandNotRunPrefix :: bytes where "ToolResultCommandNotRunPrefix = ''command not executed: ''"
definition ToolResultHookChangedArguments :: bytes where
  "ToolResultHookChangedArguments = ''cancelled: a hook changed the approved arguments after the approval; run the call again''"
definition ToolResultArgsNotPersistedPrefix :: bytes where
  "ToolResultArgsNotPersistedPrefix = ''cancelled: the arguments could not be persisted before the permission prompt: ''"
definition ToolResultLoopGuardNudge :: bytes where
  "ToolResultLoopGuardNudge = ''You have requested the same tool call with identical arguments several times in a row, '' @
     ''so it was not executed again. Repeating it will not produce a different result. Use what you already have: '' @
     ''try a different tool or different arguments, or answer the user with the information you have.''"
definition ToolResultPlanModeFormat :: bytes where
  "ToolResultPlanModeFormat = ''error: tool %q is not available in Plan mode because it is outside the plan tool set; '' @
     ''the user can switch to Agent mode to use it''"
definition ToolResultAskModeFormat :: bytes where
  "ToolResultAskModeFormat = ''error: tool %q is not available in Ask mode because it is not read-only''"
definition ToolResultToolsetFormat :: bytes where
  "ToolResultToolsetFormat = ''error: tool %q is not offered: this session runs with the toolset %q. Use one of the tools you were given.''"
definition ToolResultSubagentToolFormat :: bytes where
  "ToolResultSubagentToolFormat = ''tool %s is not available to this subagent''"
definition ToolResultTurnNoteDefault :: bytes where "ToolResultTurnNoteDefault = ''this tool is not available in this turn''"
definition ToolResultTurnNoteAdminOnly :: bytes where
  "ToolResultTurnNoteAdminOnly = ''only the bot'' @ [CHR 0x27] @ ''s admins can do this''"
definition ToolResultOutsideWorkspaceFormat :: bytes where
  "ToolResultOutsideWorkspaceFormat = ''%s: %s (%s is outside the session'' @ [CHR 0x27] @ ''s working directory)''"
definition toolErrorLead :: bytes where "toolErrorLead = ''error: ''"

definition notRunTexts :: "bytes list" where
  "notRunTexts = [ToolResultDeniedByUser, ToolResultCancelledBeforeRun, ToolResultHookChangedArguments, ToolResultLoopGuardNudge]"

definition notRunPrefixes :: "bytes list" where
  "notRunPrefixes =
     [ToolResultNotGrantedPrefix, ToolResultHookBlockedPrefix, ToolResultNotExecutedPrefix,
      ToolResultUnsafePrefix, ToolResultCommandNotRunPrefix, ToolResultArgsNotPersistedPrefix]"

definition notRunFormats :: "bytes list" where
  "notRunFormats =
     [ToolResultPlanModeFormat, ToolResultAskModeFormat, ToolResultToolsetFormat,
      toolErrorLead @ ToolResultSubagentToolFormat,
      toolErrorLead @ ''%s: '' @ ToolResultTurnNoteDefault,
      toolErrorLead @ ''%s: '' @ ToolResultTurnNoteAdminOnly,
      toolErrorLead @ ToolResultOutsideWorkspaceFormat]"

text \<open>
  The text of a format around its verbs; a \<^verbatim>\<open>%\<close> at the very end makes the slice panic (\<open>None\<close>).
\<close>

fun format_parts :: "bytes \<Rightarrow> bytes list option" where
  "format_parts [] = Some [[]]"
| "format_parts (c # s) =
     (if c = CHR ''%'' then (case s of [] \<Rightarrow> None | _ # rest \<Rightarrow> map_option ((#) []) (format_parts rest))
      else (case format_parts s of Some (p # ps) \<Rightarrow> Some ((c # p) # ps) | _ \<Rightarrow> None))"

fun middles :: "bytes \<Rightarrow> bytes list \<Rightarrow> bool" where
  "middles s [] = True"
| "middles s (mid # mids) =
     (case str_index mid s of None \<Rightarrow> False | Some i \<Rightarrow> middles (drop (i + length mid) s) mids)"

text \<open>With no verb the slice of the middle parts panics once the ends were compared.\<close>

definition matchesFormat :: "bytes \<Rightarrow> bytes \<Rightarrow> bool option" where
  "matchesFormat s format =
     (case format_parts format of
        None \<Rightarrow> None
      | Some parts \<Rightarrow>
          let first = hd parts; final = last parts in
          if length s < length first + length final \<or> \<not> has_prefix s first \<or> \<not> has_suffix s final then Some False
          else if length parts < 2 then None
          else Some (middles (take (length s - length final - length first) (drop (length first) s)) (butlast (tl parts))))"

definition toolCallRan :: "bytes \<Rightarrow> bool" where
  "toolCallRan result =
     (let r = trim_space result in
      r \<notin> set notRunTexts \<and> \<not> list_ex (has_prefix r) notRunPrefixes \<and>
      \<not> list_ex (\<lambda>f. matchesFormat r f = Some True) notRunFormats)"

section \<open>Docker steps\<close>

definition dockerVerbs :: "bytes list" where
  "dockerVerbs = [''up'', ''down'', ''rm'', ''stop'', ''restart'', ''create'', ''run'', ''kill'', ''prune'']"

text \<open>The replacer: at each position the first of its patterns, in their order.\<close>

fun clean_line :: "bytes \<Rightarrow> bytes" where
  "clean_line [] = []"
| "clean_line (c # s) =
     (if c = CHR 0x5C then
        (case s of
           [] \<Rightarrow> []
         | d # s1 \<Rightarrow>
             if d = CHR 0x0D \<and> (case s1 of [] \<Rightarrow> False | e # _ \<Rightarrow> e = CHR 0x0A) then CHR '' '' # clean_line (tl s1)
             else if d = CHR 0x0A then CHR '' '' # clean_line s1
             else clean_line s)
      else if c = CHR 0x22 \<or> c = CHR 0x27 then clean_line s
      else c # clean_line s)"

text \<open>\<^verbatim>\<open>strings.FieldsFunc\<close>: the maximal runs of runes that are kept.\<close>

function rune_fields :: "(nat \<Rightarrow> bool) \<Rightarrow> bytes \<Rightarrow> bytes \<Rightarrow> bytes list" where
  "rune_fields keep cur [] = (if cur = [] then [] else [cur])"
| "rune_fields keep cur (c # s) =
     (case decode_rune (c # s) of (r, n) \<Rightarrow>
        if keep r then rune_fields keep (cur @ take n (c # s)) (drop (n - 1) s)
        else (if cur = [] then [] else [cur]) @ rune_fields keep [] (drop (n - 1) s))"
  by pat_completeness auto
termination by (relation "measure (\<lambda>(keep, cur, s). length s)") (auto simp: less_Suc_eq_le)

text \<open>\<open>wide\<close> tells which runes outside ASCII are letters or digits.\<close>

definition docker_word_rune :: "(nat \<Rightarrow> bool) \<Rightarrow> nat \<Rightarrow> bool" where
  "docker_word_rune wide r =
     (if r < 0x80 then (48 \<le> r \<and> r \<le> 57) \<or> (65 \<le> r \<and> r \<le> 90) \<or> (97 \<le> r \<and> r \<le> 122) \<or> r \<in> {0x2D, 0x5F, 0x2E, 0x2F}
      else wide r)"

definition docker_words :: "(nat \<Rightarrow> bool) \<Rightarrow> bytes \<Rightarrow> bytes list" where
  "docker_words wide cmd = map (\<lambda>w. last (split_on (CHR ''/'') w)) (rune_fields (docker_word_rune wide) [] cmd)"

definition docker_step :: "(nat \<Rightarrow> bool) \<Rightarrow> bytes \<Rightarrow> bool" where
  "docker_step wide cmd =
     (let words = docker_words wide cmd in
      (''docker'' \<in> set words \<or> ''docker-compose'' \<in> set words) \<and> list_ex (\<lambda>w. w \<in> set dockerVerbs) words)"

definition dockerMutates :: "(nat \<Rightarrow> bool) \<Rightarrow> bytes \<Rightarrow> bool" where
  "dockerMutates wide line =
     list_ex (docker_step wide)
       (rune_fields (\<lambda>r. r \<notin> {0x3B, 0x26, 0x7C, 0x0A}) [] (clean_line (to_lower line)))"

section \<open>The findings\<close>

definition goalRiskQuote :: nat where "goalRiskQuote = 200"
definition goalRiskListed :: nat where "goalRiskListed = 20"

definition compactSpace :: "bytes \<Rightarrow> bytes" where "compactSpace s = join '' '' (Fields s)"

text \<open>What the rules take from outside: the command of a \<^verbatim>\<open>run_command\<close> call, and the letters.\<close>

record risk_lib =
  json_command :: "bytes \<Rightarrow> bytes option"
  wide_letter :: "nat \<Rightarrow> bool"

text \<open>The results right after the assistant row at \<open>i\<close>, the first of each id.\<close>

fun results_after :: "bytes \<Rightarrow> (bytes \<times> bytes) list \<Rightarrow> goal_row list \<Rightarrow> (bytes \<times> bytes) list" where
  "results_after gid out [] = out"
| "results_after gid out (m # ms) =
     (if isUIOnlyRow (message.truncate m) then results_after gid out ms
      else if role m \<noteq> RoleTool then out
      else if row_Goal m \<noteq> gid then results_after gid out ms
      else if map_of out (ToolCallID m) \<noteq> None then results_after gid out ms
      else results_after gid (out @ [(ToolCallID m, Content m)]) ms)"

definition callResults :: "goal_row list \<Rightarrow> nat \<Rightarrow> (bytes \<times> bytes) list" where
  "callResults msgs i = results_after (row_Goal (msgs ! i)) [] (drop (i + 1) msgs)"

definition docker_call :: "risk_lib \<Rightarrow> (bytes \<times> bytes) list \<Rightarrow> ToolCall \<Rightarrow> bytes option" where
  "docker_call L results call =
     (if call_Name call \<noteq> ''run_command'' then None
      else (case json_command L (InputJSON call) of
              None \<Rightarrow> None
            | Some cmd \<Rightarrow>
                if \<not> dockerMutates (wide_letter L) cmd then None
                else (case map_of results (call_ID call) of
                        Some result \<Rightarrow> if toolCallRan result then Some (clipRunes (compactSpace cmd) goalRiskQuote) else None
                      | None \<Rightarrow> Some (clipRunes (compactSpace cmd) goalRiskQuote))))"

definition dockerCommands :: "risk_lib \<Rightarrow> goal_row list \<Rightarrow> nat \<Rightarrow> bytes list" where
  "dockerCommands L msgs i =
     (if role (msgs ! i) \<noteq> RoleAssistant then []
      else List.map_filter (docker_call L (callResults msgs i)) (ToolCalls (msgs ! i)))"

section \<open>The paths and markers of a write call\<close>

definition writeTools :: "bytes list" where
  "writeTools = [''write'', ''edit'', ''apply_patch'', ''rm'', ''mv'', ''rmdir'']"

text \<open>A white space of the regular expressions, and what follows a run of it.\<close>

definition re_space :: "char \<Rightarrow> bool" where
  "re_space c \<longleftrightarrow> c \<in> set [CHR 0x09, CHR 0x0A, CHR 0x0C, CHR 0x0D, CHR 0x20]"

definition skip_spaces :: "bytes \<Rightarrow> bytes" where "skip_spaces s = dropWhile re_space s"

text \<open>
  \<^verbatim>\<open>"key"\s*:\s*"([^"]+)"\<close> at the front of a text: the captured value and what follows the match.
\<close>

definition key_value :: "bytes \<Rightarrow> bytes \<Rightarrow> (bytes \<times> bytes) option" where
  "key_value key s =
     (let quoted = CHR 0x22 # key @ [CHR 0x22]; s1 = skip_spaces (drop (length quoted) s); s2 = skip_spaces (tl s1);
          value = takeWhile (\<lambda>c. c \<noteq> CHR 0x22) (tl s2); s3 = drop (length value) (tl s2) in
      if \<not> prefix quoted s then None
      else if s1 = [] \<or> hd s1 \<noteq> CHR '':'' then None
      else if s2 = [] \<or> hd s2 \<noteq> CHR 0x22 then None
      else if value = [] \<or> s3 = [] then None
      else Some (value, tl s3))"

text \<open>\<^verbatim>\<open>\*\*\* (?:Add|Update|Delete) File: ([^\\\n]+)\<close> at the front of a text.\<close>

definition patch_file :: "bytes \<Rightarrow> (bytes \<times> bytes) option" where
  "patch_file s =
     (let heads = filter (\<lambda>h. prefix h s) (map (\<lambda>w. ''*** '' @ w @ '' File: '') [''Add'', ''Update'', ''Delete'']) in
      case heads of
        [] \<Rightarrow> None
      | h # _ \<Rightarrow>
          let rest = drop (length h) s; value = takeWhile (\<lambda>c. c \<noteq> CHR 0x5C \<and> c \<noteq> CHR 0x0A) rest in
          if value = [] then None else Some (value, drop (length value) rest))"

text \<open>
  \<^verbatim>\<open>FindAllStringSubmatch\<close>: the matches from left to right that do not overlap. A match that leaves
  no less than it took cannot happen; the test makes the recursion structural in the length.
\<close>

function find_all :: "(bytes \<Rightarrow> (bytes \<times> bytes) option) \<Rightarrow> bytes \<Rightarrow> bytes list" where
  "find_all at [] = []"
| "find_all at (c # s) =
     (case at (c # s) of
        Some (value, rest) \<Rightarrow> if length rest \<le> length s then value # find_all at rest else [value]
      | None \<Rightarrow> find_all at s)"
  by pat_completeness auto
termination by (relation "measure (\<lambda>(at, s). length s)") auto

definition callPaths :: "bytes \<Rightarrow> bytes list" where
  "callPaths input =
     concat (map (\<lambda>key. find_all (key_value key) input)
       [''path'', ''file_path'', ''src'', ''dst'', ''source'', ''destination'', ''target'']) @
     map trim_space (find_all patch_file input)"

text \<open>\<open>skipMarkers\<close>; \<^verbatim>\<open>\b\<close> after the digit asks for a byte that continues no word.\<close>

definition word_byte :: "char \<Rightarrow> bool" where
  "word_byte c \<longleftrightarrow> is_digit c \<or> c = CHR ''_'' \<or> (65 \<le> (of_char c :: nat) \<and> of_char c \<le> (90 :: nat)) \<or>
     (97 \<le> (of_char c :: nat) \<and> of_char c \<le> (122 :: nat))"

definition marker_at :: "bytes \<Rightarrow> bool" where
  "marker_at s \<longleftrightarrow>
     list_ex (\<lambda>p. prefix p s) [''t.Skip('', ''@pytest.mark.skip'', ''.skip('', ''xit('', ''@Disabled''] \<or>
     (prefix ''//'' s \<and> prefix ''nolint'' (skip_spaces (drop 2 s))) \<or>
     (prefix ''#'' s \<and> prefix ''noqa'' (skip_spaces (drop 1 s))) \<or>
     (prefix ''exit 0'' s \<and> (case drop 6 s of [] \<Rightarrow> True | c # _ \<Rightarrow> \<not> word_byte c))"

definition skip_marker :: "bytes \<Rightarrow> bool" where
  "skip_marker s = list_ex marker_at (suffixes s)"

text \<open>
  \<open>testPathPattern\<close>, whose letters also match the two runes outside ASCII that fold to one
  (U+017F and U+212A).
\<close>

function fold_letters :: "bytes \<Rightarrow> bytes" where
  "fold_letters [] = []"
| "fold_letters (c # s) =
     (if prefix [CHR 0xE2, CHR 0x84, CHR 0xAA] (c # s) then CHR ''k'' # fold_letters (drop 2 s)
      else if prefix [CHR 0xC5, CHR 0xBF] (c # s) then CHR ''s'' # fold_letters (drop 1 s)
      else lower_char c # fold_letters s)"
  by pat_completeness auto
termination by (relation "measure length") auto

definition testPathPattern :: "bytes \<Rightarrow> bool" where
  "testPathPattern path =
     (let p = fold_letters path; parts = split_on (CHR ''/'') p; base = last parts in
      list_ex (\<lambda>d. d \<in> set [''test'', ''tests'', ''__tests__'', ''spec'', ''testdata'', ''.github'']) (butlast parts) \<or>
      has_suffix p ''_test.go'' \<or>
      (has_prefix base ''test_'' \<and> has_suffix base ''.py'') \<or>
      has_suffix p ''_test.py'' \<or>
      list_ex (has_suffix p) [''.test.js'', ''.test.jsx'', ''.test.ts'', ''.test.tsx'', ''.spec.js'', ''.spec.jsx'', ''.spec.ts'', ''.spec.tsx''] \<or>
      base = ''conftest.py'')"

section \<open>The table and its lines\<close>

datatype goalRiskKind = testFilesChanged | skipMarkerAdded | dockerMutation | migrationChanged
datatype goalRiskSeverity = goalRiskAdvisory | goalRiskHard

definition all_kinds :: "goalRiskKind list" where
  "all_kinds = [testFilesChanged, skipMarkerAdded, dockerMutation, migrationChanged]"

fun rule_severity :: "goalRiskKind \<Rightarrow> goalRiskSeverity" where
  "rule_severity testFilesChanged = goalRiskAdvisory"
| "rule_severity skipMarkerAdded = goalRiskAdvisory"
| "rule_severity dockerMutation = goalRiskHard"
| "rule_severity migrationChanged = goalRiskHard"

fun rule_flag :: "goalRiskKind \<Rightarrow> bytes \<Rightarrow> bytes" where
  "rule_flag testFilesChanged s = ''tests, test data or CI files were changed: '' @ s @
     '' - check that the change serves the objective rather than loosening a check''"
| "rule_flag skipMarkerAdded s = ''calls add a skip or suppression marker: '' @ s"
| "rule_flag dockerMutation s = ''run_command changed docker containers or volumes: '' @ s"
| "rule_flag migrationChanged s = ''migration files that existed when the goal started were changed: '' @ s"

record goalFinding =
  f_kind :: goalRiskKind
  f_subject :: bytes
  f_acknowledged :: bool

text \<open>What the migration rule found: each file with its hash now, sorted by path when it is listed.\<close>

record goalFiles =
  gf_changed :: "(bytes \<times> bytes) list"
  gf_unavailable :: bytes

definition no_files :: goalFiles where "no_files = \<lparr> gf_changed = [], gf_unavailable = [] \<rparr>"

definition goalMigrationChanges :: "(bytes + (bytes \<times> bytes) list) \<Rightarrow> GoalState \<Rightarrow> goalFiles" where
  "goalMigrationChanges git g =
     (case g_Start g of
        None \<Rightarrow> no_files\<lparr> gf_unavailable := ''no start commit was recorded when the goal was set'' \<rparr>
      | Some st \<Rightarrow>
          if start_Head st = [] then no_files
          else (case git of Inl e \<Rightarrow> no_files\<lparr> gf_unavailable := e \<rparr> | Inr changed \<Rightarrow> no_files\<lparr> gf_changed := changed \<rparr>))"

definition skip_finding :: "ToolCall \<Rightarrow> goalFinding" where
  "skip_finding call = \<lparr> f_kind = skipMarkerAdded,
     f_subject = call_Name call @ '' `'' @ clipRunes (compactSpace (InputJSON call)) goalRiskQuote @ ''`'', f_acknowledged = False \<rparr>"

fun add_new :: "bytes list \<Rightarrow> bytes list \<Rightarrow> bytes list" where
  "add_new seen [] = seen"
| "add_new seen (p # ps) = add_new (if p \<in> set seen then seen else seen @ [p]) ps"

fun scan_writes_of :: "ToolCall list \<Rightarrow> bytes list \<times> goalFinding list \<Rightarrow> bytes list \<times> goalFinding list" where
  "scan_writes_of [] acc = acc"
| "scan_writes_of (call # calls) (changed, found) =
     scan_writes_of calls
       (if call_Name call \<notin> set writeTools then (changed, found)
        else (add_new changed (callPaths (InputJSON call)),
          if skip_marker (InputJSON call) then found @ [skip_finding call] else found))"

definition docker_finding :: "goal_row \<Rightarrow> bytes \<Rightarrow> goalFinding" where
  "docker_finding m cmd = \<lparr> f_kind = dockerMutation, f_subject = ''`'' @ cmd @ ''`'', f_acknowledged = RiskAcknowledged m \<rparr>"

definition row_findings :: "risk_lib \<Rightarrow> goal_row list \<Rightarrow> nat \<Rightarrow> bytes list \<times> goalFinding list \<Rightarrow> bytes list \<times> goalFinding list" where
  "row_findings L msgs i acc =
     (let (changed, found) = scan_writes_of (ToolCalls (msgs ! i)) acc in
      (changed, found @ map (docker_finding (msgs ! i)) (dockerCommands L msgs i)))"

definition file_finding :: "GoalState \<Rightarrow> bytes \<times> bytes \<Rightarrow> goalFinding" where
  "file_finding g f = \<lparr> f_kind = migrationChanged, f_subject = fst f, f_acknowledged = (map_of (AcceptedFiles g) (fst f) = Some (snd f)) \<rparr>"

text \<open>\<open>to_slash\<close> is \<^verbatim>\<open>filepath.ToSlash\<close>.\<close>

definition goalFindings ::
    "(bytes \<Rightarrow> bytes) \<Rightarrow> risk_lib \<Rightarrow> goal_row list \<Rightarrow> nat list \<Rightarrow> GoalState \<Rightarrow> goalFiles \<Rightarrow> bytes list \<times> goalFinding list" where
  "goalFindings to_slash L msgs row_ids g files =
     (let (changed, found) = fold (row_findings L msgs) row_ids ([], []);
          changed = sort changed in
      (changed, found
         @ map (\<lambda>p. \<lparr> f_kind = testFilesChanged, f_subject = p, f_acknowledged = False \<rparr>) (filter (testPathPattern \<circ> to_slash) changed)
         @ map (file_finding g) (sort_key fst (gf_changed files))))"

text \<open>The lines, one per kind that was found; what is beyond the bound is counted.\<close>

definition flag_subject :: "bool \<Rightarrow> goalFinding \<Rightarrow> bytes" where
  "flag_subject marked f = f_subject f @ (if marked \<and> f_acknowledged f then '' (acknowledged with /goal resume)'' else [])"

definition flag_line :: "goalFinding list \<Rightarrow> bool \<Rightarrow> goalRiskKind \<Rightarrow> bytes option" where
  "flag_line found marked k =
     (let subjects = add_new [] (map (flag_subject marked) (filter (\<lambda>f. f_kind f = k) found)); extra = length subjects - goalRiskListed in
      if subjects = [] then None
      else Some (rule_flag k (join '', '' (if extra > 0 then take goalRiskListed subjects @ [''and '' @ digits_of extra @ '' more''] else subjects))))"

definition flagLines :: "goalFinding list \<Rightarrow> bool \<Rightarrow> bytes list" where
  "flagLines found marked = List.map_filter (flag_line found marked) all_kinds"

section \<open>The rows of a goal, and accepting what blocks it\<close>

definition latestRequestIndex :: "goal_row list \<Rightarrow> nat" where
  "latestRequestIndex msgs =
     (case find (\<lambda>i. isRealUser (message.truncate (msgs ! i)) \<and> \<not> row_GoalTurn (msgs ! i) \<and> \<not> row_Wake (msgs ! i)) (rev [0..<length msgs]) of
        Some i \<Rightarrow> i | None \<Rightarrow> 0)"

definition goalRows :: "goal_row list \<Rightarrow> GoalState \<Rightarrow> bool \<Rightarrow> nat list" where
  "goalRows msgs g implicit =
     filter (\<lambda>i. implicit \<or> (g_ID g \<noteq> [] \<and> row_Goal (msgs ! i) = g_ID g))
       [(if implicit then latestRequestIndex msgs else 0)..<length msgs]"

definition fresh_findings :: "goalFinding list \<Rightarrow> goalFinding list" where
  "fresh_findings = filter (\<lambda>f. rule_severity (f_kind f) = goalRiskHard \<and> \<not> f_acknowledged f)"

definition accepts_row :: "risk_lib \<Rightarrow> goal_row list \<Rightarrow> GoalState \<Rightarrow> nat \<Rightarrow> bool" where
  "accepts_row L msgs g i \<longleftrightarrow>
     g_ID g \<noteq> [] \<and> row_Goal (msgs ! i) = g_ID g \<and> \<not> RiskAcknowledged (msgs ! i) \<and> dockerCommands L msgs i \<noteq> []"

definition accept_row :: "risk_lib \<Rightarrow> GoalState \<Rightarrow> nat \<Rightarrow> gsession \<Rightarrow> gsession" where
  "accept_row L g i s =
     (if accepts_row L (rows s) g i
      then s\<lparr> rows := (rows s)[i := (rows s ! i)\<lparr> RiskAcknowledged := True \<rparr>], edits := edits s + 1 \<rparr> else s)"

definition acceptGoalRisksLocked :: "risk_lib \<Rightarrow> goalFiles \<Rightarrow> GoalState \<times> gsession \<Rightarrow> GoalState \<times> gsession" where
  "acceptGoalRisksLocked L files st =
     (case st of (g, s) \<Rightarrow>
        (fold (\<lambda>(p, h) g. g\<lparr> AcceptedFiles := AList.update p h (AcceptedFiles g) \<rparr>) (gf_changed files) g,
         fold (accept_row L g) [0..<length (rows s)] s))"

text \<open>
  \<^verbatim>\<open>resumeGoal\<close>: what git says is asked for before the lock; the goal is resumed only if nobody
  changed it meanwhile, and \<open>s\<close> is the state when the lock is taken, \<open>g\<close> the goal read before.
\<close>

definition resumeGoal ::
    "risk_lib \<Rightarrow> bytes \<Rightarrow> (bytes + (bytes \<times> bytes) list) \<Rightarrow> bytes \<Rightarrow> bytes \<Rightarrow> GoalState \<Rightarrow> gsession \<Rightarrow> bytes option \<times> gsession" where
  "resumeGoal L now git model reasoning g s =
     (if \<not> goal_Set g then (Some ''no goal is set; /goal <objective> sets one'', s)
      else if g_Status g = GoalComplete then (Some ''the goal is complete; /goal <objective> sets a new one'', s)
      else
        let files = (if g_Status g = GoalBlocked then goalMigrationChanges git g else no_files);
            (done, s') = updateGoal now (''Goal resumed: '' @ Objective g)
              (\<lambda>n s. if g_ID n \<noteq> g_ID g \<or> g_Status n \<noteq> g_Status g then None
                 else
                   let (n, s) = (if g_Status n = GoalBlocked then acceptGoalRisksLocked L files (n, s) else (n, s)) in
                   Some (n\<lparr> g_Status := GoalActive, StatusReason := [], Continuations := 0, TokensBase := TokensUsed n,
                     g_Model := model, g_Reasoning := reasoning \<rparr>, s)) s
        in (if done then None else Some ''the goal changed meanwhile; /goal shows it'', s'))"

end
