(* ===== verification/GoalRun.thy ===== *)
theory GoalRun
  imports GoalRisk GoalJudge
begin

text \<open>
  One run of the supervisor over a prompt (\<^verbatim>\<open>internal/session/supervisor.go\<close>): it runs a turn, reads how
  it ended, and ends the run or starts the next turn. What the run asks others for is the record
  \<open>step_env\<close>: how the turn ended and what it left in the session, what the operator did to the goal
  meanwhile, what git, the check and the verifier answered, and whether the run was cancelled or a
  message queued at the points where the code looks. One record answers one turn of the loop.
\<close>

section \<open>What a run asks for\<close>

text \<open>
  How \<^verbatim>\<open>errors.Is\<close> and \<^verbatim>\<open>errors.As\<close> classify an error; the tests are independent, so more than one may
  hold.
\<close>

record turn_error =
  err_text :: bytes
  err_canceled :: bool
  err_loop :: "bytes option"
  err_quota :: bool
  err_transient :: bool

text \<open>What the operator may do to the goal from another surface.\<close>

datatype goal_op =
    OpPause
  | OpClear
  | OpSet GoalState
  | OpResume "bytes + (bytes \<times> bytes) list" bytes bytes

record step_env =
  e_now :: bytes
  e_stop :: bytes
  e_err :: "turn_error option"
  e_cause :: bytes
  e_calls :: int
  e_tokens :: int
  e_ms :: int
  e_rows :: "goal_row list"
  e_notice :: bytes
  e_turn_ops :: "goal_op list"
  e_turn_cancelled :: bool
  e_git :: "bytes + (bytes \<times> bytes) list"
  e_gate_ops :: "goal_op list"
  e_gate_cancelled :: bool
  e_queued :: bool
  e_awaited :: bool
  e_judge :: "bytes + GoalCheckResult"
  e_judge_ctx :: bool
  e_judge_again :: "bytes + GoalCheckResult"
  e_check_ops :: "goal_op list"
  e_verify :: "bytes + GoalCheckResult"
  e_verify_ctx :: bool
  e_check_cancelled :: bool
  e_check_queued :: bool

record run_cfg =
  rc_sup :: Supervisor
  rc_verifier :: bool
  rc_risk :: risk_lib
  rc_to_slash :: "bytes \<Rightarrow> bytes"

definition apply_op :: "run_cfg \<Rightarrow> bytes \<Rightarrow> goal_op \<Rightarrow> gsession \<Rightarrow> gsession" where
  "apply_op C now act s =
     (case act of
        OpPause \<Rightarrow> snd (pauseGoal now ''paused by the operator'' s)
      | OpClear \<Rightarrow> snd (clearGoal now s)
      | OpSet g \<Rightarrow> SetGoalWithNotice now g (''Goal set: '' @ Objective g) s
      | OpResume git model reasoning \<Rightarrow> snd (resumeGoal (rc_risk C) now git model reasoning (goal s) s))"

definition apply_ops :: "run_cfg \<Rightarrow> bytes \<Rightarrow> goal_op list \<Rightarrow> gsession \<Rightarrow> gsession" where
  "apply_ops C now acts s = fold (apply_op C now) acts s"

section \<open>The run\<close>

text \<open>\<open>handed\<close> are the goals handed to \<^verbatim>\<open>continueGoalChain\<close>, with its two other arguments.\<close>

record goal_run =
  persist :: bool
  implicit :: GoalState
  goalID :: bytes
  nudges :: int
  idle :: int
  run_files :: goalFiles
  handed :: "(GoalState \<times> bool \<times> bytes) list"

type_synonym run_state = "goal_run \<times> gsession"

definition stillOurs :: "run_state \<Rightarrow> bool" where
  "stillOurs = (\<lambda>(r, s). \<not> persist r \<or> (g_ID (goal s) = goalID r \<and> goal_Active (goal s)))"

definition run_goal :: "run_state \<Rightarrow> GoalState" where
  "run_goal = (\<lambda>(r, s). if persist r then goal s else implicit r)"

definition run_update :: "bytes \<Rightarrow> bytes \<Rightarrow> (GoalState \<Rightarrow> GoalState) \<Rightarrow> run_state \<Rightarrow> bool \<times> run_state" where
  "run_update now notice fn = (\<lambda>(r, s).
     if persist r then
       (let (done, s') = UpdateGoal now notice (\<lambda>g. if g_ID g \<noteq> goalID r \<or> \<not> goal_Active g then None else Some (fn g)) s in (done, r, s'))
     else (True, r\<lparr> implicit := fn (implicit r) \<rparr>, s))"

definition publishNotice :: "bytes \<Rightarrow> run_state \<Rightarrow> run_state" where
  "publishNotice notice = (\<lambda>(r, s). if persist r then (r, s\<lparr> published := published s @ [notice] \<rparr>) else (r, s))"

definition finish_run :: "bytes \<Rightarrow> GoalStatus \<Rightarrow> bytes \<Rightarrow> bytes \<Rightarrow> run_state \<Rightarrow> bool \<times> run_state" where
  "finish_run now status reason notice = (\<lambda>(r, s).
     if \<not> persist r then
       (False, r, if status = GoalBlocked \<or> status = GoalPaused then SetTurnStopNotice (''Supervisor stopped: '' @ reason) s else s)
     else
       (let (done, r', s') = run_update now notice (\<lambda>g. g\<lparr> g_Status := status, StatusReason := trim_space reason \<rparr>) (r, s) in
        if done then (True, r', if notice \<noteq> [] then log_notice notice s' else s') else (False, r', s')))"

section \<open>Budgets\<close>

definition overBudget :: "GoalState \<Rightarrow> Supervisor \<Rightarrow> bool" where
  "overBudget g lim \<longleftrightarrow> EffectiveTokenBudget lim > 0 \<and> BudgetTokens g \<ge> EffectiveTokenBudget lim"

definition limitReason :: "GoalState \<Rightarrow> Supervisor \<Rightarrow> bytes" where
  "limitReason g lim =
     (if overBudget g lim
      then ''the token budget is used up ('' @ int_text (BudgetTokens g) @ '' of '' @ int_text (EffectiveTokenBudget lim) @ '')''
      else ''all '' @ int_text (ContinuationLimit lim) @ '' automatic continuations are used'')"

definition stuckReason :: "bytes \<Rightarrow> run_state \<Rightarrow> bytes" where
  "stuckReason cause st =
     (let head = ''stuck after '' @ int_text (nudges (fst st)) @ '' recovery turns ('' @ trim_prefix cause ''the previous turn '' @ '')'' in
      case LastCheck (run_goal st) of
        Some c \<Rightarrow> if trim_space (ck_Reason c) \<noteq> [] then trim_space (ck_Reason c) @ '' - '' @ head else head
      | None \<Rightarrow> head)"

section \<open>One turn\<close>

text \<open>
  The turn leaves its rows and its notice; what the operator did meanwhile comes before the turn is
  charged to the goal.
\<close>

definition runStep :: "run_cfg \<Rightarrow> step_env \<Rightarrow> run_state \<Rightarrow> run_state" where
  "runStep C e = (\<lambda>(r, s).
     let s1 = apply_ops C (e_now e) (e_turn_ops e) (s\<lparr> rows := e_rows e, turn_stop_notice := e_notice e \<rparr>) in
     if persist r then
       (r, snd (UpdateGoal (e_now e) [] (\<lambda>g. if g_ID g \<noteq> goalID r then None
          else Some (g\<lparr> ActiveMs := wrap64 (ActiveMs g + e_ms e), TokensUsed := wrap64 (TokensUsed g + e_tokens e) \<rparr>)) s1))
     else (r, s1))"

definition gate :: "run_cfg \<Rightarrow> step_env \<Rightarrow> run_state \<Rightarrow> bool \<times> run_state" where
  "gate C e = (\<lambda>(r, s).
     if \<not> persist r then (False, r, s)
     else
       let files = goalMigrationChanges (e_git e) (goal s);
           s = apply_ops C (e_now e) (e_gate_ops e) s in
       if e_gate_cancelled e \<or> \<not> stillOurs (r, s) then (True, r, s)
       else
         let r = r\<lparr> run_files := files \<rparr>;
             found = fresh_findings (snd (goalFindings (rc_to_slash C) (rc_risk C) (rows s) (goalRows (rows s) (goal s) False) (goal s) files)) in
         if found = [] then (False, r, s)
         else let reason = join ''; '' (flagLines found False) in
           (True, snd (finish_run (e_now e) GoalBlocked reason (''Goal blocked: '' @ reason) (r, s))))"

datatype turnOutcome = turnDone | turnTransient | turnStuck | turnFatal

definition StopReasonEndTurn :: bytes where "StopReasonEndTurn = ''end_turn''"
definition StopReasonCancelled :: bytes where "StopReasonCancelled = ''cancelled''"
definition StopReasonRefused :: bytes where "StopReasonRefused = ''agent_refused''"

definition run_log :: "bytes \<Rightarrow> run_state \<Rightarrow> run_state" where
  "run_log text = (\<lambda>(r, s). (r, log_notice text s))"

definition unfinished :: "step_env \<Rightarrow> run_state \<Rightarrow> (bytes \<times> turnOutcome) \<times> run_state" where
  "unfinished e st =
     (if e_cause e \<noteq> [] then
        ((''the previous turn was interrupted because it was '' @ e_cause e, turnStuck),
         (case e_err e of Some err \<Rightarrow> if \<not> err_canceled err then run_log (''Turn interrupted: '' @ err_text err) st else st | None \<Rightarrow> st))
      else (case e_err e of
        Some err \<Rightarrow>
          (case err_loop err of
             Some msg \<Rightarrow>
               ((''the previous turn was '' @ trim_prefix msg ''stopped: '' @ '' and was stopped'', turnStuck),
                run_log (''Turn stopped: '' @ msg) (fst st, snd (TakeTurnStopNotice (snd st))))
           | None \<Rightarrow>
               if err_quota err then
                 (([], turnFatal), snd (finish_run (e_now e) GoalPaused (''usage limit reached: '' @ err_text err) ''Goal paused: usage limit reached'' st))
               else if err_transient err then
                 ((''the previous turn ended early: '' @ err_text err, turnTransient),
                  run_log (''Turn failed: '' @ err_text err @ ''; the supervisor continues the goal'') st)
               else
                 (([], turnFatal), snd (finish_run (e_now e) GoalPaused (''the turn failed: '' @ err_text err) ''Goal paused: the turn failed'' st)))
      | None \<Rightarrow>
          if e_stop e = StopReasonEndTurn \<or> e_stop e = StopReasonCancelled then (([], turnDone), st)
          else
            let notice = fst (TakeTurnStopNotice (snd st)); st = (fst st, snd (TakeTurnStopNotice (snd st))) in
            ((firstNonEmpty [notice, ''the previous turn stopped ('' @ e_stop e @ '')''], turnStuck),
             if notice \<noteq> [] then run_log notice st else st)))"

section \<open>The check\<close>

text \<open>The judge is asked once more when it failed and the run is not cancelled.\<close>

definition judged :: "step_env \<Rightarrow> bytes + GoalCheckResult" where
  "judged e = (case e_judge e of Inr res \<Rightarrow> Inr res | Inl m \<Rightarrow> if e_judge_ctx e then Inl m else e_judge_again e)"

definition settled_result :: "GoalCheckResult \<Rightarrow> GoalCheckResult" where
  "settled_result res = res\<lparr> res_Verdict := normalizeVerdict (res_Verdict res) \<rparr>"

text \<open>The verifier's answer over the check's: the result, and whether it is confirmed.\<close>

definition verified_result :: "GoalCheckResult \<Rightarrow> bytes + GoalCheckResult \<Rightarrow> GoalCheckResult \<times> bool" where
  "verified_result res v =
     (case v of
        Inl err \<Rightarrow> (res\<lparr> res_Reason := trim_space (res_Reason res @ '' (not verified: '' @ err @ '')''), res_unverified := err \<rparr>, False)
      | Inr vres \<Rightarrow>
          let vres = settled_result vres in
          if res_Verdict vres = GoalVerdictMet then
            (res\<lparr> res_Checklist := (if res_Checklist vres \<noteq> [] then res_Checklist vres else res_Checklist res),
               res_Reason := firstNonEmpty [res_Reason vres, res_Reason res] \<rparr>, True)
          else (if res_Model vres = [] then vres\<lparr> res_Model := res_Model res \<rparr> else vres, False))"

definition record_check :: "bytes \<Rightarrow> GoalCheckResult \<Rightarrow> bool \<Rightarrow> GoalState \<Rightarrow> GoalState" where
  "record_check now res confirmed g =
     g\<lparr> Checks := wrap64 (Checks g + 1),
        LastCheck := Some \<lparr> ck_Verdict = res_Verdict res, ck_Reason = trim_space (res_Reason res), ck_Remaining = res_Remaining res,
          ck_Verified = confirmed, ck_At = now, ck_Model = res_Model res \<rparr>,
        Checklist := (if res_Checklist res \<noteq> [] then res_Checklist res else Checklist g) \<rparr>"

definition opened_check :: "run_cfg \<Rightarrow> step_env \<Rightarrow> run_state \<Rightarrow> run_state" where
  "opened_check C e st =
     (let st = publishNotice ''Goal check: the supervisor is reviewing the turn'' st
      in (fst st, apply_ops C (e_now e) (e_check_ops e) (snd st)))"

definition asks :: "run_cfg \<Rightarrow> GoalCheckResult \<Rightarrow> run_state \<Rightarrow> bool" where
  "asks C res st \<longleftrightarrow> res_Verdict res = GoalVerdictMet \<and> persist (fst st) \<and> VerifyEnabled (rc_sup C) \<and> rc_verifier C"

definition close_check :: "run_cfg \<Rightarrow> step_env \<Rightarrow> GoalCheckResult \<Rightarrow> run_state \<Rightarrow> (bytes + GoalCheckResult) \<times> run_state" where
  "close_check C e res st =
     (let ask = asks C res st;
          st = (if ask then publishNotice ''Goal verification: a read-only subagent is checking the workspace'' st else st) in
      if ask \<and> e_verify_ctx e then (Inl ''context canceled'', st)
      else
        let (res, confirmed) = (if ask then verified_result res (e_verify e) else (res, False));
            res = res\<lparr> res_verifyRan := ask \<rparr>
        in (Inr res, snd (run_update (e_now e) [] (record_check (e_now e) res confirmed) st)))"

definition check_run :: "run_cfg \<Rightarrow> step_env \<Rightarrow> run_state \<Rightarrow> (bytes + GoalCheckResult) \<times> run_state" where
  "check_run C e st =
     (let st = opened_check C e st in
      case judged e of Inl err \<Rightarrow> (Inl err, st) | Inr res \<Rightarrow> close_check C e (settled_result res) st)"

definition completeNotice :: "GoalState \<Rightarrow> GoalCheckResult \<Rightarrow> run_state \<Rightarrow> bytes" where
  "completeNotice g res st =
     (case LastCheck (run_goal st) of
        Some c \<Rightarrow> if \<not> ck_Verified c \<and> res_unverified res \<noteq> []
          then ''Goal complete (not verified: '' @ res_unverified res @ ''): '' @ Objective g
          else ''Goal complete: '' @ Objective g
      | None \<Rightarrow> ''Goal complete: '' @ Objective g)"

definition complete_run :: "bytes \<Rightarrow> GoalState \<Rightarrow> GoalCheckResult \<Rightarrow> run_state \<Rightarrow> run_state" where
  "complete_run now g res st =
     (let (done, r, s) = finish_run now GoalComplete [] (completeNotice g res st) st; closed = goal s in
      if \<not> done \<or> g_ID closed \<noteq> goalID r \<or> g_Status closed \<noteq> GoalComplete \<or> trim_space (ThenFile closed) = [] then (r, s)
      else (r\<lparr> handed := handed r @ [(closed, res_verifyRan res, res_unverified res)] \<rparr>, s))"

section \<open>The loop\<close>

datatype loop_out = Returns bytes "turn_error option" | Goes GoalTurn

definition goalIdleTurnsLimit :: int where "goalIdleTurnsLimit = 2"

definition block_run :: "bytes \<Rightarrow> bytes \<Rightarrow> run_state \<Rightarrow> run_state" where
  "block_run now reason st = snd (finish_run now GoalBlocked reason (''Goal blocked: '' @ reason) st)"

text \<open>A verdict that ends the run, whatever the turn did.\<close>

definition verdict_ends :: "step_env \<Rightarrow> GoalState \<Rightarrow> GoalCheckResult \<Rightarrow> bytes \<Rightarrow> run_state \<Rightarrow> run_state option" where
  "verdict_ends e g res question st =
     (if res_Verdict res = GoalVerdictMet then Some (complete_run (e_now e) g res st)
      else if res_Verdict res = GoalVerdictNeedsUser \<or> res_Verdict res = GoalVerdictImpossible
      then Some (block_run (e_now e) (firstNonEmpty [res_Reason res, question]) st)
      else None)"

definition recover :: "run_cfg \<Rightarrow> step_env \<Rightarrow> bytes \<Rightarrow> bytes list \<Rightarrow> run_state \<Rightarrow> loop_out \<times> run_state" where
  "recover C e reason remaining st =
     (if nudges (fst st) \<ge> NudgeLimit (rc_sup C)
      then (Returns StopReasonEndTurn None, block_run (e_now e) (stuckReason reason st) st)
      else
        let st = ((fst st)\<lparr> nudges := nudges (fst st) + 1 \<rparr>, snd st) in
        (Goes \<lparr> gt_Kind = TurnRecover, gt_Index = nudges (fst st), gt_Limit = NudgeLimit (rc_sup C),
           gt_Objective = Objective (run_goal st), gt_Reason = reason, gt_Remaining = remaining \<rparr>, st))"

text \<open>A turn that was cut, stopped or refused is checked before it is recovered.\<close>

definition after_stuck :: "run_cfg \<Rightarrow> step_env \<Rightarrow> GoalState \<Rightarrow> bytes \<Rightarrow> run_state \<Rightarrow> loop_out \<times> run_state" where
  "after_stuck C e g reason st =
     (let (answer, st) = check_run C e st in
      if e_check_cancelled e then (Returns StopReasonCancelled None, st)
      else if e_check_queued e \<or> \<not> stillOurs st then (Returns StopReasonEndTurn None, st)
      else (case answer of
        Inl _ \<Rightarrow> recover C e reason [] st
      | Inr res \<Rightarrow>
          (case verdict_ends e g res reason st of
             Some st' \<Rightarrow> (Returns StopReasonEndTurn None, st')
           | None \<Rightarrow> recover C e reason (res_Remaining res) st)))"

text \<open>The next turn of a goal that is not met, if its budgets allow one; the last one wraps up.\<close>

definition continue_run :: "run_cfg \<Rightarrow> step_env \<Rightarrow> GoalCheckResult \<Rightarrow> run_state \<Rightarrow> loop_out \<times> run_state" where
  "continue_run C e res st =
     (let g = run_goal st; lim = rc_sup C in
      if Continuations g \<ge> ContinuationLimit lim \<or> overBudget g lim then
        (if \<not> persist (fst st)
         then (Returns StopReasonRefused None,
           (fst st, SetTurnStopNotice (''Supervisor stopped after '' @ int_text (Continuations g) @
              '' automatic continuations. Remaining: '' @ join ''; '' (res_Remaining res)) (snd st)))
         else (Goes \<lparr> gt_Kind = TurnWrapUp, gt_Index = 0, gt_Limit = 0, gt_Objective = Objective g, gt_Reason = limitReason g lim,
             gt_Remaining = res_Remaining res \<rparr>, st))
      else
        let used = Continuations g + 1; (done, st') = run_update (e_now e) [] (\<lambda>g. g\<lparr> Continuations := used \<rparr>) st in
        if \<not> done then (Returns (e_stop e) None, st')
        else (Goes \<lparr> gt_Kind = TurnContinue, gt_Index = used, gt_Limit = ContinuationLimit lim, gt_Objective = Objective g,
            gt_Reason = res_Reason res, gt_Remaining = res_Remaining res \<rparr>, st'))"

definition after_done :: "run_cfg \<Rightarrow> step_env \<Rightarrow> GoalState \<Rightarrow> run_state \<Rightarrow> loop_out \<times> run_state" where
  "after_done C e g st =
     (if e_awaited e then (Returns (e_stop e) None, publishNotice ''Goal check deferred: background work is still running'' st)
      else
        let (answer, st) = check_run C e st in
        if e_check_cancelled e then (Returns StopReasonCancelled None, st)
        else if e_check_queued e \<or> \<not> stillOurs st then (Returns (e_stop e) None, st)
        else (case answer of
          Inl err \<Rightarrow> (Returns (e_stop e) None,
            snd (finish_run (e_now e) GoalPaused (''the supervisor check failed: '' @ err) ''Goal paused: the supervisor check failed'' st))
        | Inr res \<Rightarrow>
            let st = ((fst st)\<lparr> idle := (if e_calls e = 0 \<and> res_Verdict res = GoalVerdictNotMet then idle (fst st) + 1 else 0) \<rparr>, snd st) in
            (case verdict_ends e g res ''the supervisor needs your decision'' st of
               Some st' \<Rightarrow> (Returns (e_stop e) None, st')
             | None \<Rightarrow>
                 if idle (fst st) \<ge> goalIdleTurnsLimit
                 then (Returns (e_stop e) None,
                   block_run (e_now e) (''no progress: '' @ int_text (idle (fst st)) @ '' turns in a row ended without a tool call'') st)
                 else continue_run C e res st)))"

definition loop_step :: "run_cfg \<Rightarrow> step_env \<Rightarrow> GoalTurn option \<Rightarrow> run_state \<Rightarrow> loop_out \<times> run_state" where
  "loop_step C e marker st =
     (let st = runStep C e st in
      if e_turn_cancelled e \<or> ((case e_err e of Some err \<Rightarrow> err_canceled err | None \<Rightarrow> False) \<and> e_cause e = [])
      then (Returns (e_stop e) (e_err e), st)
      else if \<not> stillOurs st then (Returns (e_stop e) (e_err e), st)
      else
        let (ends, st) = gate C e st in
        if ends then (Returns (e_stop e) (e_err e), st)
        else
          let g = run_goal st in
          if (case marker of Some m \<Rightarrow> gt_Kind m = TurnWrapUp | None \<Rightarrow> False) then
            (let ((reason, outcome), st) = unfinished e st in
             if outcome = turnFatal then (Returns (e_stop e) (e_err e), st)
             else (Returns StopReasonEndTurn None,
               snd (finish_run (e_now e) GoalLimited (limitReason g (rc_sup C)) (''Goal stopped: '' @ limitReason g (rc_sup C)) st)))
          else if e_queued e then (Returns (e_stop e) (e_err e), st)
          else
            let ((reason, outcome), st) = unfinished e st in
            (case outcome of
               turnFatal \<Rightarrow> (Returns (e_stop e) (e_err e), st)
             | turnTransient \<Rightarrow> recover C e reason [] st
             | turnStuck \<Rightarrow> after_stuck C e g reason st
             | turnDone \<Rightarrow> after_done C e g st))"

text \<open>
  The run over the answers: the turns it started, and how it returned, if the answers were enough.
\<close>

fun goal_loop :: "run_cfg \<Rightarrow> step_env list \<Rightarrow> GoalTurn option \<Rightarrow> run_state \<Rightarrow>
    GoalTurn option list \<times> (bytes \<times> turn_error option) option \<times> run_state" where
  "goal_loop C [] marker st = ([], None, st)"
| "goal_loop C (e # es) marker st =
     (case loop_step C e marker st of
        (Returns stop err, st') \<Rightarrow> ([marker], Some (stop, err), st')
      | (Goes m, st') \<Rightarrow>
          let (turns, out, st'') = goal_loop C es (Some m) st' in (marker # turns, out, st''))"

text \<open>\<^verbatim>\<open>loop\<close> takes the goal it works on from the session.\<close>

definition loop_run :: "run_cfg \<Rightarrow> step_env list \<Rightarrow> GoalTurn option \<Rightarrow> run_state \<Rightarrow>
    GoalTurn option list \<times> (bytes \<times> turn_error option) option \<times> run_state" where
  "loop_run C es marker st = goal_loop C es marker ((fst st)\<lparr> goalID := g_ID (run_goal st) \<rparr>, snd st)"

text \<open>A turn continued after a restart runs outside the loop and meets only the gate.\<close>

definition GateResumedTurn :: "run_cfg \<Rightarrow> step_env \<Rightarrow> goal_run \<Rightarrow> bytes \<Rightarrow> gsession \<Rightarrow> gsession" where
  "GateResumedTurn C e run0 goal_then s =
     (if (case e_err e of Some err \<Rightarrow> err_canceled err | None \<Rightarrow> False) then s
      else snd (snd (gate C e (run0\<lparr> persist := True, goalID := goal_then \<rparr>, s))))"

end
