(* ===== verification/GoalRun_Correct.thy ===== *)
theory GoalRun_Correct
  imports GoalRun
begin

text \<open>
  What a run of the supervisor promises: it ends within the turns its budgets allow, starts no turn on
  top of a destructive step nobody accepted, and calls a goal complete only on a check that says so.
\<close>

section \<open>Updates of the goal\<close>

lemma UpdateGoal_simps:
  "UpdateGoal now notice fn s =
     (case fn (goal s) of None \<Rightarrow> (False, s)
      | Some g \<Rightarrow> (True, s\<lparr> goal := (if goal_Set g then g\<lparr> Objective := trim_space (Objective g), UpdatedAt := now \<rparr> else no_goal),
          published := published s @ [notice] \<rparr>))"
  by (auto simp: UpdateGoal_def updateGoal_def Let_def goal_Set_def split: option.split)

lemma goal_Set_trim [simp]: "goal_Set (g\<lparr> Objective := trim_space (Objective g), UpdatedAt := now \<rparr>) = goal_Set g"
  by (simp add: goal_Set_def)

lemma no_goal_inactive [simp]: "\<not> goal_Active no_goal" "\<not> goal_Set no_goal"
  by (simp_all add: goal_Active_def goal_Set_def no_goal_def)

text \<open>
  What one change may do to a run that goes on: whoever still has the goal afterwards had it before,
  with the same continuations. \<open>keeps\<close> says so of two states of a run.
\<close>

definition keeps :: "run_state \<Rightarrow> run_state \<Rightarrow> bool" where
  "keeps st st' \<longleftrightarrow> persist (fst st') = persist (fst st) \<and> goalID (fst st') = goalID (fst st) \<and> nudges (fst st') = nudges (fst st) \<and>
     (stillOurs st' \<longrightarrow> stillOurs st \<and> Continuations (run_goal st') = Continuations (run_goal st))"

lemma keeps_refl [simp]: "keeps st st" by (simp add: keeps_def)

lemma keeps_trans: "keeps a b \<Longrightarrow> keeps b c \<Longrightarrow> keeps a c" by (auto simp: keeps_def)

lemma keeps_session:
  "goal s' = goal s \<Longrightarrow> keeps (r, s) (r, s')"
  by (auto simp: keeps_def stillOurs_def run_goal_def)

lemma keeps_update:
  assumes "\<And>g. Continuations (fn g) = Continuations g" "run_update now notice fn st = (done, st')"
  shows "keeps st st'"
proof -
  obtain r s where st: "st = (r, s)" by fastforce
  show ?thesis
    using assms
    by (auto simp: st run_update_def UpdateGoal_simps keeps_def stillOurs_def run_goal_def goal_Active_def split: if_splits)
qed

lemma keeps_finish: "keeps st (snd (finish_run now status reason notice st))"
proof -
  obtain r s where st: "st = (r, s)" by fastforce
  let ?fn = "\<lambda>g. g\<lparr> g_Status := status, StatusReason := trim_space reason \<rparr>"
  obtain ok r' s' where u: "run_update now notice ?fn (r, s) = (ok, r', s')" by (metis prod_cases3)
  have "keeps (r, s) (r', s')" using keeps_update [OF _ u] by simp
  moreover have "keeps (r', s') (r', log_notice notice s')" by (rule keeps_session) (simp add: log_notice_def Let_def)
  ultimately show ?thesis
    using u by (auto simp: st finish_run_def SetTurnStopNotice_def intro: keeps_session keeps_trans)
qed

lemma keeps_publish: "keeps st (publishNotice notice st)"
  by (cases st) (auto simp: publishNotice_def intro: keeps_session)

lemma keeps_log: "keeps st (run_log t st)"
  by (cases st) (auto simp: run_log_def log_notice_def Let_def intro: keeps_session)

section \<open>The operator's changes\<close>

text \<open>A new goal has an id of its own; only a resume gives the same goal a new budget.\<close>

fun calm :: "bytes \<Rightarrow> goal_op \<Rightarrow> bool" where
  "calm gid (OpSet g) = (g_ID g \<noteq> gid)"
| "calm gid (OpResume _ _ _) = False"
| "calm gid _ = True"

definition calm_env :: "bytes \<Rightarrow> step_env \<Rightarrow> bool" where
  "calm_env gid e = list_all (calm gid) (e_turn_ops e @ e_gate_ops e @ e_check_ops e)"

lemma keeps_op: "calm (goalID r) act \<Longrightarrow> persist r \<Longrightarrow> keeps (r, s) (r, apply_op C now act s)"
  by (cases act) (auto simp: apply_op_def pauseGoal_def clearGoal_def SetGoalWithNotice_def UpdateGoal_simps keeps_def
      stillOurs_def run_goal_def goal_Active_def Let_def)

lemma keeps_ops:
  "list_all (calm (goalID r)) acts \<Longrightarrow> persist r \<Longrightarrow> keeps (r, s) (r, apply_ops C now acts s)"
proof (induction acts arbitrary: s)
  case (Cons act acts)
  then show ?case using keeps_op [of r act s C now] Cons.IH [of "apply_op C now act s"]
    by (auto simp: apply_ops_def intro: keeps_trans)
qed (simp add: apply_ops_def)

text \<open>The implicit goal is not the session's: nothing the operator does there touches the run.\<close>

lemma keeps_any: "\<not> persist r \<Longrightarrow> keeps (r, s) (r, s')"
  by (simp add: keeps_def stillOurs_def run_goal_def)

lemma keeps_acts: "list_all (calm (goalID r)) acts \<Longrightarrow> keeps (r, s) (r, apply_ops C now acts s)"
  using keeps_ops keeps_any by (cases "persist r") auto

section \<open>The parts of a turn\<close>

lemma keeps_runStep: "calm_env (goalID (fst st)) e \<Longrightarrow> keeps st (runStep C e st)"
proof -
  assume calm: "calm_env (goalID (fst st)) e"
  obtain r s where st: "st = (r, s)" by fastforce
  let ?s0 = "s\<lparr> rows := e_rows e, turn_stop_notice := e_notice e \<rparr>"
  let ?s1 = "apply_ops C (e_now e) (e_turn_ops e) ?s0"
  have "keeps (r, s) (r, ?s0)" by (rule keeps_session) simp
  then have ops: "keeps (r, s) (r, ?s1)"
    using keeps_acts [of r "e_turn_ops e" ?s0 C] calm by (auto simp: calm_env_def st intro: keeps_trans)
  have "keeps (r, ?s1) (runStep C e st)"
    by (auto simp: st runStep_def UpdateGoal_simps keeps_def stillOurs_def run_goal_def goal_Active_def goal_Set_def no_goal_def Let_def)
  with ops show ?thesis unfolding st by (rule keeps_trans)
qed

lemma keeps_gate: "calm_env (goalID (fst st)) e \<Longrightarrow> keeps st (snd (gate C e st))"
proof -
  assume calm: "calm_env (goalID (fst st)) e"
  obtain r s where st: "st = (r, s)" by fastforce
  let ?s1 = "apply_ops C (e_now e) (e_gate_ops e) s"
  have ops: "keeps (r, s) (r, ?s1)"
    using keeps_acts [of r "e_gate_ops e" s C] calm by (auto simp: calm_env_def st)
  have files: "keeps (r, ?s1) (r\<lparr> run_files := f \<rparr>, ?s1)" for f by (simp add: keeps_def stillOurs_def run_goal_def)
  show ?thesis
    using keeps_trans [OF ops files] ops by (auto simp: st gate_def Let_def intro: keeps_trans keeps_finish)
qed

lemma gate_ours: "gate C e st = (False, st') \<Longrightarrow> stillOurs st'"
  by (cases st) (auto simp: gate_def Let_def stillOurs_def split: if_splits)

lemma keeps_unfinished: "keeps st (snd (unfinished e st))"
proof -
  have take: "keeps st (fst st, snd (TakeTurnStopNotice (snd st)))"
    using keeps_session [of "snd (TakeTurnStopNotice (snd st))" "snd st" "fst st"] by (simp add: TakeTurnStopNotice_def)
  show ?thesis
    by (auto simp: unfinished_def Let_def split: option.split intro: keeps_log keeps_finish take keeps_trans [OF take])
qed

lemma keeps_close: "keeps st (snd (close_check C e res st))"
proof -
  have upd: "keeps a (snd (run_update now [] (record_check now res ok) a))" for a now res ok
    using keeps_update [of "record_check now res ok" now "[]" a] by (cases "run_update now [] (record_check now res ok) a") (auto simp: record_check_def)
  show ?thesis
    by (auto simp: close_check_def Let_def split: prod.split intro: keeps_publish upd keeps_trans [OF keeps_publish upd])
qed

lemma keeps_opened: "calm_env (goalID (fst st)) e \<Longrightarrow> keeps st (opened_check C e st)"
proof -
  assume calm: "calm_env (goalID (fst st)) e"
  define st1 where "st1 = publishNotice ''Goal check: the supervisor is reviewing the turn'' st"
  have "fst st1 = fst st" by (cases st) (simp add: st1_def publishNotice_def)
  then have "keeps st1 (opened_check C e st)"
    using keeps_acts [of "fst st1" "e_check_ops e" "snd st1" C] calm
    by (cases st1) (simp add: opened_check_def st1_def [symmetric] calm_env_def)
  with keeps_publish show ?thesis unfolding st1_def by (rule keeps_trans)
qed

lemma keeps_check: "calm_env (goalID (fst st)) e \<Longrightarrow> keeps st (snd (check_run C e st))"
  by (auto simp: check_run_def Let_def split: sum.split intro: keeps_opened keeps_trans [OF keeps_opened keeps_close])

section \<open>A run ends\<close>

definition is_wrapup :: "GoalTurn option \<Rightarrow> bool" where
  "is_wrapup marker = (case marker of Some m \<Rightarrow> gt_Kind m = TurnWrapUp | None \<Rightarrow> False)"

definition turns_left :: "run_cfg \<Rightarrow> run_state \<Rightarrow> nat" where
  "turns_left C st = nat (ContinuationLimit (rc_sup C) - Continuations (run_goal st)) + nat (NudgeLimit (rc_sup C) - nudges (fst st))"

lemma unfinished_same:
  "unfinished e st = ((reason, outcome), st') \<Longrightarrow> outcome \<noteq> turnFatal \<Longrightarrow> fst st' = fst st \<and> goal (snd st') = goal (snd st)"
  by (cases st) (auto simp: unfinished_def run_log_def log_notice_def TakeTurnStopNotice_def Let_def split: option.splits if_splits)

lemma ours_same: "fst st' = fst st \<Longrightarrow> goal (snd st') = goal (snd st) \<Longrightarrow> stillOurs st' = stillOurs st \<and> run_goal st' = run_goal st"
  by (cases st; cases st') (simp add: stillOurs_def run_goal_def)

lemma keeps_ids: "keeps st st' \<Longrightarrow> goalID (fst st') = goalID (fst st) \<and> persist (fst st') = persist (fst st) \<and> nudges (fst st') = nudges (fst st)"
  by (simp add: keeps_def)

lemma keeps_left: "keeps st st' \<Longrightarrow> stillOurs st' \<Longrightarrow> turns_left C st' = turns_left C st"
  by (simp add: keeps_def turns_left_def)

text \<open>The two ways a run goes on with work: a recovery and a continuation.\<close>

lemma recover_goes:
  "recover C e reason remaining st = (Goes m, st') \<Longrightarrow>
    turns_left C st' < turns_left C st \<and> goalID (fst st') = goalID (fst st) \<and> gt_Kind m = TurnRecover"
  by (cases st) (auto simp: recover_def turns_left_def run_goal_def Let_def split: if_splits)

lemma continue_goes:
  "continue_run C e res st = (Goes m, st') \<Longrightarrow>
    goalID (fst st') = goalID (fst st) \<and>
    (gt_Kind m = TurnWrapUp \<and> st' = st \<or> gt_Kind m = TurnContinue \<and> turns_left C st' < turns_left C st)"
  by (cases st) (auto simp: continue_run_def run_update_def UpdateGoal_simps turns_left_def run_goal_def goal_Active_def goal_Set_def Let_def
      split: if_splits prod.splits)

lemma keeps_idle: "keeps st (r'\<lparr> idle := n \<rparr>, snd st) \<longleftrightarrow> keeps st (r', snd st)"
  by (simp add: keeps_def stillOurs_def run_goal_def)

lemma after_stuck_goes:
  assumes "after_stuck C e g reason st = (Goes m, st')" "calm_env (goalID (fst st)) e"
  shows "turns_left C st' < turns_left C st \<and> goalID (fst st') = goalID (fst st) \<and> gt_Kind m = TurnRecover"
proof -
  obtain answer st1 where c: "check_run C e st = (answer, st1)" by (metis prod.collapse)
  have k: "keeps st st1" using keeps_check [OF assms(2), of C] c by simp
  obtain remaining where r: "recover C e reason remaining st1 = (Goes m, st')" "stillOurs st1"
    using assms(1) c by (auto simp: after_stuck_def split: if_splits sum.splits option.splits)
  show ?thesis using recover_goes [OF r(1)] keeps_left [OF k r(2), of C] keeps_ids [OF k] by simp
qed

lemma after_done_goes:
  assumes "after_done C e g st = (Goes m, st')" "calm_env (goalID (fst st)) e"
  shows "goalID (fst st') = goalID (fst st) \<and> (gt_Kind m = TurnWrapUp \<or> turns_left C st' < turns_left C st)"
proof -
  obtain answer st1 where c: "check_run C e st = (answer, st1)" by (metis prod.collapse)
  have k: "keeps st st1" using keeps_check [OF assms(2), of C] c by simp
  obtain res n where r: "continue_run C e res ((fst st1)\<lparr> idle := n \<rparr>, snd st1) = (Goes m, st')" "stillOurs st1"
    using assms(1) c by (auto simp: after_done_def Let_def split: if_splits sum.splits option.splits)
  have k2: "keeps st ((fst st1)\<lparr> idle := n \<rparr>, snd st1)"
    by (rule keeps_trans [OF k]) (cases st1; simp add: keeps_def stillOurs_def run_goal_def)
  have ours: "stillOurs ((fst st1)\<lparr> idle := n \<rparr>, snd st1)" using r(2) by (cases st1) (simp add: stillOurs_def)
  show ?thesis using continue_goes [OF r(1)] keeps_left [OF k2 ours, of C] keeps_ids [OF k2] by auto
qed

lemma step_goes:
  assumes "loop_step C e marker st = (Goes m, st')" "calm_env (goalID (fst st)) e"
  shows "goalID (fst st') = goalID (fst st) \<and> \<not> is_wrapup marker \<and> (gt_Kind m = TurnWrapUp \<or> turns_left C st' < turns_left C st)"
proof -
  define st1 where "st1 = runStep C e st"
  have k1: "keeps st st1" using keeps_runStep [OF assms(2)] by (simp add: st1_def)
  obtain ends st2 where g: "gate C e st1 = (ends, st2)" by (metis prod.collapse)
  have k2: "keeps st st2" using keeps_gate [of st1 e C] g k1 assms(2) keeps_ids [OF k1] by (auto intro: keeps_trans)
  obtain reason outcome st3 where u: "unfinished e st2 = ((reason, outcome), st3)" by (metis prod.collapse)
  have step: "\<not> ends" "\<not> is_wrapup marker" "outcome \<noteq> turnFatal"
    "outcome = turnTransient \<Longrightarrow> recover C e reason [] st3 = (Goes m, st')"
    "outcome = turnStuck \<Longrightarrow> after_stuck C e (run_goal st2) reason st3 = (Goes m, st')"
    "outcome = turnDone \<Longrightarrow> after_done C e (run_goal st2) st3 = (Goes m, st')"
    using assms(1) unfolding loop_step_def Let_def st1_def [symmetric] g is_wrapup_def
    by (auto simp: u split: if_splits turnOutcome.splits)
  have ours: "stillOurs st2" using gate_ours g step(1) by auto
  have same: "fst st3 = fst st2" "goal (snd st3) = goal (snd st2)" using unfinished_same [OF u step(3)] by auto
  have left: "turns_left C st3 = turns_left C st"
    using keeps_left [OF k2 ours, of C] ours_same [OF same] same by (simp add: turns_left_def)
  have calm: "calm_env (goalID (fst st3)) e" and id: "goalID (fst st3) = goalID (fst st)"
    using assms(2) keeps_ids [OF k2] same by simp_all
  show ?thesis
    using step recover_goes [of C e reason "[]" st3 m st'] after_stuck_goes [OF _ calm, of C _ reason m st'] after_done_goes [OF _ calm, of C _ m st'] left id
    by (cases outcome) auto
qed

text \<open>
  C6: Every run of the supervisor ends. As long as the operator does not resume the goal of the run
  meanwhile (pausing, clearing and replacing it is fine), a run returns after at most as many turns as
  the goal has continuations left, plus the recoveries left to the run, plus two: the prompt it was
  started with and the turn that wraps up. This holds however the turns end and whatever the check,
  the verifier and git answer.
\<close>

theorem goal_run_bounded:
  assumes "list_all (calm_env (goalID (fst st))) es" "turns_left C st + 2 \<le> length es" "goal_loop C es marker st = (turns, out, st')"
  shows "\<exists>stop err. out = Some (stop, err) \<and> length turns \<le> turns_left C st + 2"
proof -
  have "\<exists>stop err. out = Some (stop, err) \<and> length turns \<le> (if is_wrapup marker then 1 else turns_left C st + 2)"
    if "list_all (calm_env (goalID (fst st))) es" "(if is_wrapup marker then 1 else turns_left C st + 2) \<le> length es"
      "goal_loop C es marker st = (turns, out, st')"
    for es marker st turns
    using that
  proof (induction es arbitrary: marker st turns)
    case (Cons e es)
    obtain o1 st1 where step: "loop_step C e marker st = (o1, st1)" by (metis prod.collapse)
    show ?case
    proof (cases o1)
      case (Returns stop err)
      then show ?thesis using Cons.prems(3) step by auto
    next
      case (Goes m)
      with step Cons.prems(1) have goes: "goalID (fst st1) = goalID (fst st)" "\<not> is_wrapup marker"
        "gt_Kind m = TurnWrapUp \<or> turns_left C st1 < turns_left C st"
        using step_goes [of C e marker st m st1] by auto
      obtain turns' where rest: "goal_loop C es (Some m) st1 = (turns', out, st')" "turns = marker # turns'"
        using Cons.prems(3) step Goes by (auto split: prod.splits)
      have "(if is_wrapup (Some m) then 1 else turns_left C st1 + 2) \<le> length es" "(if is_wrapup (Some m) then 1 else turns_left C st1 + 2) \<le> turns_left C st + 1"
        using Cons.prems(2) goes(2,3) by (auto simp: is_wrapup_def)
      with Cons.IH [OF _ this(1) rest(1)] Cons.prems(1) goes(1,2) rest(2) show ?thesis by (auto split: if_splits)
    qed
  qed (auto split: if_splits)
  from this [OF assms(1) _ assms(3)] assms(2) show ?thesis by (cases "is_wrapup marker") auto
qed

end
