(* ===== verification/GoalRun_Rules.thy ===== *)
theory GoalRun_Rules
  imports GoalRun_Correct
begin

text \<open>
  When a run of the supervisor goes on, and when it calls a goal complete; with the inputs on which the
  properties of runs are applied, and two behaviours that differ from what the code says of itself.
\<close>

section \<open>Going on\<close>

lemma recover_next:
  "recover C e reason remaining st = (Goes m, st') \<Longrightarrow>
    snd st' = snd st \<and> persist (fst st') = persist (fst st) \<and> goalID (fst st') = goalID (fst st) \<and> stillOurs st' = stillOurs st \<and>
    gt_Kind m = TurnRecover \<and> gt_Index m = nudges (fst st') \<and> gt_Index m \<le> NudgeLimit (rc_sup C)"
  by (cases st) (auto simp: recover_def stillOurs_def Let_def split: if_splits)

lemma continue_next:
  "continue_run C e res st = (Goes m, st') \<Longrightarrow> stillOurs st \<Longrightarrow>
    persist (fst st') = persist (fst st) \<and> stillOurs st' \<and>
    (gt_Kind m = TurnWrapUp \<and> persist (fst st') \<and> st' = st \<and>
       (ContinuationLimit (rc_sup C) \<le> Continuations (run_goal st) \<or> overBudget (run_goal st) (rc_sup C)) \<or>
     gt_Kind m = TurnContinue \<and> gt_Index m = Continuations (run_goal st') \<and> gt_Index m \<le> ContinuationLimit (rc_sup C) \<and>
       \<not> overBudget (run_goal st') (rc_sup C))"
  by (cases st) (auto simp: continue_run_def run_update_def UpdateGoal_simps run_goal_def goal_Active_def goal_Set_def stillOurs_def
      overBudget_def BudgetTokens_def Let_def split: if_splits prod.splits)

lemma check_run_persist: "persist (fst (snd (check_run C e st))) = persist (fst st)"
  by (cases st) (auto simp: check_run_def opened_check_def close_check_def publishNotice_def run_update_def Let_def split: sum.splits prod.splits)

lemma next_after_stuck:
  assumes "after_stuck C e g reason st = (Goes m, st')"
  shows "\<exists>remaining st1. recover C e reason remaining st1 = (Goes m, st') \<and> stillOurs st1 \<and> persist (fst st1) = persist (fst st)"
proof -
  obtain answer st1 where c: "check_run C e st = (answer, st1)" by (metis prod.collapse)
  then have "persist (fst st1) = persist (fst st)" using check_run_persist [of C e st] by simp
  moreover obtain remaining where "recover C e reason remaining st1 = (Goes m, st')" "stillOurs st1"
    using assms c by (auto simp: after_stuck_def split: if_splits sum.splits option.splits)
  ultimately show ?thesis by blast
qed

lemma next_after_done:
  assumes "after_done C e g st = (Goes m, st')"
  shows "\<exists>res st1. continue_run C e res st1 = (Goes m, st') \<and> stillOurs st1 \<and> persist (fst st1) = persist (fst st)"
proof -
  obtain answer st1 where c: "check_run C e st = (answer, st1)" by (metis prod.collapse)
  then have p: "persist (fst st1) = persist (fst st)" using check_run_persist [of C e st] by simp
  obtain res n where "continue_run C e res ((fst st1)\<lparr> idle := n \<rparr>, snd st1) = (Goes m, st')" "stillOurs st1"
    using assms c by (auto simp: after_done_def Let_def split: if_splits sum.splits option.splits)
  moreover have "stillOurs ((fst st1)\<lparr> idle := n \<rparr>, snd st1) = stillOurs st1" by (cases st1) (simp add: stillOurs_def)
  ultimately show ?thesis using p by (intro exI [of _ res] exI [of _ "((fst st1)\<lparr> idle := n \<rparr>, snd st1)"]) simp
qed

text \<open>The states a step passes when it goes on.\<close>

lemma step_next:
  assumes "loop_step C e marker st = (Goes m, st')"
  obtains st2 st3 reason outcome where
    "stillOurs (runStep C e st)" "gate C e (runStep C e st) = (False, st2)" "\<not> is_wrapup marker"
    "unfinished e st2 = ((reason, outcome), st3)" "fst st3 = fst st2" "goal (snd st3) = goal (snd st2)"
    "outcome = turnTransient \<and> recover C e reason [] st3 = (Goes m, st') \<or>
     outcome = turnStuck \<and> after_stuck C e (run_goal st2) reason st3 = (Goes m, st') \<or>
     outcome = turnDone \<and> after_done C e (run_goal st2) st3 = (Goes m, st')"
proof -
  obtain ends st2 where g: "gate C e (runStep C e st) = (ends, st2)" by (metis prod.collapse)
  obtain reason outcome st3 where u: "unfinished e st2 = ((reason, outcome), st3)" by (metis prod.collapse)
  have "stillOurs (runStep C e st)" "\<not> ends" "\<not> is_wrapup marker" and out: "outcome \<noteq> turnFatal"
    "outcome = turnTransient \<and> recover C e reason [] st3 = (Goes m, st') \<or>
     outcome = turnStuck \<and> after_stuck C e (run_goal st2) reason st3 = (Goes m, st') \<or>
     outcome = turnDone \<and> after_done C e (run_goal st2) st3 = (Goes m, st')"
    using assms unfolding loop_step_def Let_def is_wrapup_def g by (auto simp: u split: if_splits turnOutcome.splits)
  with that [of st2 reason outcome st3] g u unfinished_same [OF u out(1)] show ?thesis by auto
qed

lemma goes_from:
  assumes "outcome = turnTransient \<and> recover C e reason [] st3 = (Goes m, st') \<or>
     outcome = turnStuck \<and> after_stuck C e g reason st3 = (Goes m, st') \<or>
     outcome = turnDone \<and> after_done C e g st3 = (Goes m, st')" "stillOurs st3"
  shows "(\<exists>remaining st1. recover C e reason remaining st1 = (Goes m, st') \<and> stillOurs st1 \<and> persist (fst st1) = persist (fst st3)) \<or>
    (\<exists>res st1. continue_run C e res st1 = (Goes m, st') \<and> stillOurs st1 \<and> persist (fst st1) = persist (fst st3))"
  using assms next_after_stuck [of C e g reason st3 m st'] next_after_done [of C e g st3 m st'] by blast

text \<open>
  C10: No turn starts on top of a destructive step nobody accepted, nor against the operator. When a
  run over the session's goal starts another turn - a continuation, a recovery or the turn that wraps
  up - then the goal was still this run's and active when the turn before it ended, when the risk gate
  looked and when the new turn starts, and the gate's rules over the turn's rows, the migration files
  git named and what the operator accepted had no hard finding left.
\<close>

theorem next_turn_guarded:
  assumes "loop_step C e marker (r, s) = (Goes m, st')" "persist r"
  defines "s1 \<equiv> snd (runStep C e (r, s))"
  defines "s2 \<equiv> apply_ops C (e_now e) (e_gate_ops e) s1"
  shows "stillOurs (r, s1) \<and> stillOurs (r, s2) \<and> stillOurs st' \<and> \<not> e_turn_cancelled e \<and> \<not> e_gate_cancelled e \<and>
    fresh_findings (snd (goalFindings (rc_to_slash C) (rc_risk C) (rows s2) (goalRows (rows s2) (goal s2) False) (goal s2)
      (goalMigrationChanges (e_git e) (goal s1)))) = []"
proof -
  obtain st2 st3 reason outcome where n: "stillOurs (runStep C e (r, s))" "gate C e (runStep C e (r, s)) = (False, st2)"
    "fst st3 = fst st2" "goal (snd st3) = goal (snd st2)"
    "outcome = turnTransient \<and> recover C e reason [] st3 = (Goes m, st') \<or>
     outcome = turnStuck \<and> after_stuck C e (run_goal st2) reason st3 = (Goes m, st') \<or>
     outcome = turnDone \<and> after_done C e (run_goal st2) st3 = (Goes m, st')"
    by (rule step_next [OF assms(1)]) blast
  have run: "runStep C e (r, s) = (r, s1)" using assms(2) by (auto simp: s1_def runStep_def Let_def)
  have g: "\<not> e_gate_cancelled e" "stillOurs (r, s2)" "st2 = (r\<lparr> run_files := goalMigrationChanges (e_git e) (goal s1) \<rparr>, s2)"
    "fresh_findings (snd (goalFindings (rc_to_slash C) (rc_risk C) (rows s2) (goalRows (rows s2) (goal s2) False) (goal s2)
      (goalMigrationChanges (e_git e) (goal s1)))) = []"
    using n(2) assms(2) unfolding run gate_def s2_def by (auto simp: Let_def split: if_splits)
  have "stillOurs st3" using gate_ours [of C e "(r, s1)" st2] n(2) ours_same [OF n(3,4)] run by simp
  then have "stillOurs st'" using goes_from [OF n(5)] recover_next continue_next by blast
  moreover have "\<not> e_turn_cancelled e" using assms(1) by (auto simp: loop_step_def Let_def split: if_splits)
  ultimately show ?thesis using n(1) g run by simp
qed

text \<open>
  A turn a run starts is within its budgets. A continuation has the number of continuations the
  goal has used, which is at most the limit, and the token budget is not used up when it starts; a
  recovery has the number of recoveries the run has used, which is at most their limit; the turn that
  wraps up starts only when the continuations or the tokens are used up, and only for the session's
  goal; and after the turn that wraps up the run starts none.
\<close>

theorem next_turn_within_budget:
  assumes "loop_step C e marker st = (Goes m, st')"
  shows "(case gt_Kind m of
      TurnContinue \<Rightarrow> gt_Index m = Continuations (run_goal st') \<and> gt_Index m \<le> ContinuationLimit (rc_sup C) \<and>
        \<not> overBudget (run_goal st') (rc_sup C)
    | TurnRecover \<Rightarrow> gt_Index m = nudges (fst st') \<and> gt_Index m \<le> NudgeLimit (rc_sup C)
    | TurnWrapUp \<Rightarrow> persist (fst st') \<and>
        (ContinuationLimit (rc_sup C) \<le> Continuations (run_goal st') \<or> overBudget (run_goal st') (rc_sup C))
    | _ \<Rightarrow> False) \<and> \<not> is_wrapup marker"
proof -
  obtain st2 st3 reason outcome where n: "gate C e (runStep C e st) = (False, st2)" "\<not> is_wrapup marker"
    "fst st3 = fst st2" "goal (snd st3) = goal (snd st2)"
    "outcome = turnTransient \<and> recover C e reason [] st3 = (Goes m, st') \<or>
     outcome = turnStuck \<and> after_stuck C e (run_goal st2) reason st3 = (Goes m, st') \<or>
     outcome = turnDone \<and> after_done C e (run_goal st2) st3 = (Goes m, st')"
    by (rule step_next [OF assms]) blast
  have "stillOurs st3" using gate_ours [OF n(1)] ours_same [OF n(3,4)] by simp
  from goes_from [OF n(5) this] show ?thesis
  proof
    assume "\<exists>remaining st1. recover C e reason remaining st1 = (Goes m, st') \<and> stillOurs st1 \<and> persist (fst st1) = persist (fst st3)"
    then obtain remaining st1 where "recover C e reason remaining st1 = (Goes m, st')" by blast
    from recover_next [OF this] n(2) show ?thesis by simp
  next
    assume "\<exists>res st1. continue_run C e res st1 = (Goes m, st') \<and> stillOurs st1 \<and> persist (fst st1) = persist (fst st3)"
    then obtain res st1 where "continue_run C e res st1 = (Goes m, st')" "stillOurs st1" by blast
    from continue_next [OF this] n(2) show ?thesis by auto
  qed
qed

section \<open>Complete\<close>

text \<open>A goal the operator sets is a new one, hence active.\<close>

fun honest_op :: "goal_op \<Rightarrow> bool" where
  "honest_op (OpSet g) = (g_Status g \<noteq> GoalComplete)"
| "honest_op _ = True"

definition honest_env :: "step_env \<Rightarrow> bool" where
  "honest_env e = list_all honest_op (e_turn_ops e @ e_gate_ops e @ e_check_ops e)"

definition open_goal :: "gsession \<Rightarrow> bool" where
  "open_goal s \<longleftrightarrow> g_Status (goal s) \<noteq> GoalComplete"

lemma open_update:
  "open_goal s \<Longrightarrow> (\<And>g g'. fn g = Some g' \<Longrightarrow> g_Status g \<noteq> GoalComplete \<Longrightarrow> g_Status g' \<noteq> GoalComplete) \<Longrightarrow>
    open_goal (snd (UpdateGoal now notice fn s))"
  by (auto simp: open_goal_def UpdateGoal_simps no_goal_def split: option.split)

lemma open_updateGoal:
  "open_goal s \<Longrightarrow> (\<And>g' s'. fn (goal s) s = Some (g', s') \<Longrightarrow> g_Status g' \<noteq> GoalComplete) \<Longrightarrow>
    open_goal (snd (updateGoal now notice fn s))"
  by (auto simp: open_goal_def updateGoal_def Let_def no_goal_def split: option.split)

lemma open_resume:
  assumes "open_goal s"
  shows "open_goal (snd (resumeGoal L now git model reasoning g s))"
proof -
  have "open_goal (snd (updateGoal now notice
      (\<lambda>n s. if g_ID n \<noteq> g_ID g \<or> g_Status n \<noteq> g_Status g then None
         else let (n, s) = (if g_Status n = GoalBlocked then acceptGoalRisksLocked L files (n, s) else (n, s)) in
           Some (n\<lparr> g_Status := GoalActive, StatusReason := [], Continuations := 0, TokensBase := TokensUsed n,
             g_Model := model, g_Reasoning := reasoning \<rparr>, s)) s))" for notice files
    by (rule open_updateGoal [OF assms]) (simp only: Let_def split: if_splits prod.splits, auto)
  then show ?thesis using assms by (simp add: resumeGoal_def Let_def case_prod_beta')
qed

lemma open_pause: "open_goal s \<Longrightarrow> open_goal (snd (pauseGoal now reason s))"
  using open_update [of s "\<lambda>g. Some (g\<lparr> g_Status := GoalPaused, StatusReason := reason \<rparr>)" now "''Goal paused: '' @ Objective (goal s)"]
  by (simp add: pauseGoal_def Let_def)

lemma open_set: "open_goal s \<Longrightarrow> g_Status g \<noteq> GoalComplete \<Longrightarrow> open_goal (SetGoalWithNotice now g notice s)"
  unfolding SetGoalWithNotice_def by (rule open_update) simp_all

lemma open_clear: "open_goal s \<Longrightarrow> open_goal (snd (clearGoal now s))"
  by (simp add: clearGoal_def Let_def open_set no_goal_def)

lemma open_op: "honest_op act \<Longrightarrow> open_goal s \<Longrightarrow> open_goal (apply_op C now act s)"
  by (cases act) (simp_all add: apply_op_def open_pause open_clear open_set open_resume)

lemma open_ops: "list_all honest_op acts \<Longrightarrow> open_goal s \<Longrightarrow> open_goal (apply_ops C now acts s)"
  by (induction acts arbitrary: s) (auto simp: apply_ops_def open_op)

lemma open_same [simp]: "open_goal (log_notice t s) = open_goal s" "open_goal (SetTurnStopNotice t s) = open_goal s"
  by (simp_all add: open_goal_def log_notice_def SetTurnStopNotice_def Let_def)

lemma open_run_update:
  assumes "open_goal (snd st)" "\<And>g. g_Status g \<noteq> GoalComplete \<Longrightarrow> g_Status (fn g) \<noteq> GoalComplete"
  shows "open_goal (snd (snd (run_update now notice fn st)))"
proof -
  obtain r s where st: "st = (r, s)" by fastforce
  have "open_goal (snd (UpdateGoal now notice (\<lambda>g. if g_ID g \<noteq> goalID r \<or> \<not> goal_Active g then None else Some (fn g)) s))"
    by (rule open_update) (use assms st in \<open>auto split: if_splits\<close>)
  then show ?thesis using assms(1) by (simp add: st run_update_def case_prod_beta' Let_def)
qed

lemma open_finish:
  assumes "status \<noteq> GoalComplete" "open_goal (snd st)"
  shows "open_goal (snd (snd (finish_run now status reason notice st)))"
proof -
  obtain r s where st: "st = (r, s)" by fastforce
  obtain ok r' s' where u: "run_update now notice (\<lambda>g. g\<lparr> g_Status := status, StatusReason := trim_space reason \<rparr>) (r, s) = (ok, r', s')"
    by (metis prod_cases3)
  have "open_goal s'" using open_run_update [OF assms(2), of "\<lambda>g. g\<lparr> g_Status := status, StatusReason := trim_space reason \<rparr>" now notice] assms(1) u
    by (simp add: st)
  then show ?thesis using assms by (simp add: st finish_run_def u)
qed

lemma open_runStep: "honest_env e \<Longrightarrow> open_goal (snd st) \<Longrightarrow> open_goal (snd (runStep C e st))"
proof -
  assume h: "honest_env e" "open_goal (snd st)"
  obtain r s where st: "st = (r, s)" by fastforce
  have "open_goal (apply_ops C (e_now e) (e_turn_ops e) (s\<lparr> rows := e_rows e, turn_stop_notice := e_notice e \<rparr>))"
    by (rule open_ops) (use h in \<open>auto simp: st honest_env_def open_goal_def\<close>)
  then show ?thesis by (auto simp: st runStep_def Let_def intro!: open_update split: if_splits)
qed

lemma open_gate: "honest_env e \<Longrightarrow> open_goal (snd st) \<Longrightarrow> open_goal (snd (snd (gate C e st)))"
proof -
  assume h: "honest_env e" "open_goal (snd st)"
  obtain r s where st: "st = (r, s)" by fastforce
  have o: "open_goal (apply_ops C (e_now e) (e_gate_ops e) s)"
    by (rule open_ops) (use h in \<open>auto simp: st honest_env_def\<close>)
  then show ?thesis using h by (auto simp: st gate_def Let_def intro!: open_finish)
qed

lemma open_unfinished: "open_goal (snd st) \<Longrightarrow> open_goal (snd (snd (unfinished e st)))"
proof -
  assume h: "open_goal (snd st)"
  have log: "open_goal (snd (run_log t st')) = open_goal (snd st')" for t st'
    by (cases st') (simp add: run_log_def open_goal_def log_notice_def Let_def)
  have take: "open_goal (snd (TakeTurnStopNotice s)) = open_goal s" for s by (simp add: TakeTurnStopNotice_def open_goal_def)
  show ?thesis
    using h by (auto simp: unfinished_def Let_def log take open_finish split: option.split)
qed

text \<open>The check and the verification of a step say the goal is met.\<close>

definition asks_verifier :: "run_cfg \<Rightarrow> bool" where
  "asks_verifier C \<longleftrightarrow> VerifyEnabled (rc_sup C) \<and> rc_verifier C"

definition says_met :: "GoalCheckResult \<Rightarrow> bool" where
  "says_met res \<longleftrightarrow> normalizeVerdict (res_Verdict res) = GoalVerdictMet"

definition confirmed :: "run_cfg \<Rightarrow> step_env \<Rightarrow> bool \<Rightarrow> bool" where
  "confirmed C e verified \<longleftrightarrow>
     (\<exists>res. judged e = Inr res \<and> says_met res) \<and>
     (asks_verifier C \<longrightarrow> (\<forall>v. e_verify e = Inr v \<longrightarrow> says_met v)) \<and>
     (verified \<longleftrightarrow> asks_verifier C \<and> (\<exists>v. e_verify e = Inr v))"

definition recorded :: "run_cfg \<Rightarrow> step_env \<Rightarrow> gsession \<Rightarrow> bool" where
  "recorded C e s \<longleftrightarrow> (\<exists>c. LastCheck (goal s) = Some c \<and> ck_Verdict c = GoalVerdictMet \<and> confirmed C e (ck_Verified c))"

lemma open_publish [simp]: "open_goal (snd (publishNotice n a)) = open_goal (snd a)"
  by (cases a) (simp add: publishNotice_def open_goal_def)

lemma open_opened: "honest_env e \<Longrightarrow> open_goal (snd st) \<Longrightarrow> open_goal (snd (opened_check C e st))"
  by (simp add: opened_check_def Let_def honest_env_def open_ops)

lemma open_close: "open_goal (snd st) \<Longrightarrow> open_goal (snd (snd (close_check C e res st)))"
proof -
  assume o: "open_goal (snd st)"
  have "open_goal (snd (snd (run_update now [] (record_check now res ok) a)))" if "open_goal (snd a)" for now res ok a
    by (rule open_run_update [OF that]) (simp add: record_check_def)
  then show ?thesis using o by (auto simp: close_check_def Let_def split: prod.split)
qed

lemma check_open: "honest_env e \<Longrightarrow> open_goal (snd st) \<Longrightarrow> open_goal (snd (snd (check_run C e st)))"
  by (auto simp: check_run_def Let_def open_opened open_close split: sum.split)

lemma update_ours:
  assumes "run_update now notice fn st = (ok, st')" "persist (fst st)" "stillOurs st'"
  shows "\<exists>g. goal_Active g \<and> goal (snd st') = (fn g)\<lparr> Objective := trim_space (Objective (fn g)), UpdatedAt := now \<rparr> \<or> (st' = st \<and> \<not> stillOurs st)"
  using assms by (cases st) (auto simp: run_update_def UpdateGoal_simps stillOurs_def split: if_splits)

lemma close_recorded:
  assumes "close_check C e (settled_result res0) st = (Inr res, st1)" "judged e = Inr res0" "persist (fst st)" "stillOurs st1" "res_Verdict res = GoalVerdictMet"
  shows "recorded C e (snd st1)"
proof -
  define ask where "ask = asks C (settled_result res0) st"
  define st3 where "st3 = (if ask then publishNotice ''Goal verification: a read-only subagent is checking the workspace'' st else st)"
  obtain res1 ok where v: "(if ask then verified_result (settled_result res0) (e_verify e) else (settled_result res0, False)) = (res1, ok)" by fastforce
  have p3: "persist (fst st3)" using assms(3) by (cases st) (simp add: st3_def publishNotice_def)
  have run: "res = res1\<lparr> res_verifyRan := ask \<rparr>" "st1 = snd (run_update (e_now e) [] (record_check (e_now e) res ok) st3)"
    using assms(1) unfolding close_check_def Let_def ask_def [symmetric] st3_def [symmetric] v by (auto split: if_splits)
  have met: "res_Verdict res1 = GoalVerdictMet" using assms(5) run(1) by simp
  have conf: "confirmed C e ok"
  proof (cases ask)
    case True
    then show ?thesis using v met assms(2)
      by (auto simp: confirmed_def ask_def asks_def asks_verifier_def says_met_def settled_result_def verified_result_def Let_def split: if_splits sum.splits)
  next
    case False
    with v met have "res_Verdict (settled_result res0) = GoalVerdictMet" "\<not> ok" by simp_all
    with False assms(2,3) show ?thesis by (auto simp: confirmed_def ask_def asks_def asks_verifier_def says_met_def settled_result_def)
  qed
  obtain ok' where u: "run_update (e_now e) [] (record_check (e_now e) res ok) st3 = (ok', st1)" using run(2) by (metis prod.collapse)
  from update_ours [OF u p3 assms(4)] assms(4) obtain g where
    "goal (snd st1) = (record_check (e_now e) res ok g)\<lparr> Objective := trim_space (Objective (record_check (e_now e) res ok g)), UpdatedAt := e_now e \<rparr>"
    by auto
  then have "LastCheck (goal (snd st1)) = Some \<lparr> ck_Verdict = GoalVerdictMet, ck_Reason = trim_space (res_Reason res), ck_Remaining = res_Remaining res,
      ck_Verified = ok, ck_At = e_now e, ck_Model = res_Model res \<rparr>"
    using assms(5) by (simp add: record_check_def)
  with conf show ?thesis by (simp add: recorded_def)
qed

lemma check_recorded:
  assumes "check_run C e st = (Inr res, st1)" "persist (fst st)" "stillOurs st1" "res_Verdict res = GoalVerdictMet"
  shows "recorded C e (snd st1)"
proof -
  obtain res0 where "judged e = Inr res0" "close_check C e (settled_result res0) (opened_check C e st) = (Inr res, st1)"
    using assms(1) by (auto simp: check_run_def Let_def split: sum.splits)
  moreover have "persist (fst (opened_check C e st))" using assms(2) by (cases st) (simp add: opened_check_def publishNotice_def Let_def)
  ultimately show ?thesis using close_recorded assms(3,4) by blast
qed

lemma recorded_same [simp]: "recorded C e (log_notice t s) = recorded C e s"
  by (simp add: recorded_def log_notice_def Let_def)

lemma recorded_complete: "recorded C e (snd st) \<Longrightarrow> stillOurs st \<Longrightarrow> persist (fst st) \<Longrightarrow> recorded C e (snd (complete_run now g res st))"
  by (cases st) (auto simp: complete_run_def finish_run_def run_update_def UpdateGoal_simps stillOurs_def recorded_def goal_Active_def goal_Set_def
      log_notice_def Let_def)

text \<open>What a check leaves the run with: a verdict that closes the goal is on record.\<close>

lemma verdict_closes:
  assumes "verdict_ends e g res question st = Some st'" "open_goal (snd st)" "\<not> open_goal (snd st')"
  shows "res_Verdict res = GoalVerdictMet \<and> st' = complete_run (e_now e) g res st"
  using assms by (auto simp: verdict_ends_def block_run_def open_finish split: if_splits)

lemma stuck_closes:
  assumes "after_stuck C e g reason st = (out, st')" "honest_env e" "open_goal (snd st)" "persist (fst st)" "\<not> open_goal (snd st')"
  shows "recorded C e (snd st')"
proof -
  obtain answer st1 where c: "check_run C e st = (answer, st1)" by (metis prod.collapse)
  have o1: "open_goal (snd st1)" using check_open [OF assms(2,3), of C] c by simp
  have p1: "persist (fst st1)" using check_run_persist [of C e st] c assms(4) by simp
  have rec: "open_goal (snd (snd (recover C e reason r st1)))" for r
    using o1 by (auto simp: recover_def block_run_def Let_def intro!: open_finish)
  have "answer \<noteq> Inl x" for x using assms(1,5) c o1 rec [of "[]"] by (auto simp: after_stuck_def split: if_splits)
  then obtain res where r: "answer = Inr res" by (cases answer) auto
  then have "stillOurs st1" "verdict_ends e g res reason st1 = Some st'"
    using assms(1,5) c o1 rec [of "res_Remaining res"] by (auto simp: after_stuck_def split: if_splits option.splits)
  with verdict_closes [OF this(2) o1 assms(5)] check_recorded [of C e st res st1] recorded_complete p1 c r assms(4) show ?thesis by simp
qed

lemma done_closes:
  assumes "after_done C e g st = (out, st')" "honest_env e" "open_goal (snd st)" "persist (fst st)" "\<not> open_goal (snd st')"
  shows "recorded C e (snd st')"
proof -
  obtain answer st1 where c: "check_run C e st = (answer, st1)" by (metis prod.collapse)
  have o1: "open_goal (snd st1)" using check_open [OF assms(2,3), of C] c by simp
  have p1: "persist (fst st1)" using check_run_persist [of C e st] c assms(4) by simp
  have pub: "open_goal (snd (publishNotice n st)) = open_goal (snd st)" for n
    by (cases st) (simp add: publishNotice_def open_goal_def)
  have cont: "open_goal (snd (snd (continue_run C e res a)))" if "open_goal (snd a)" for res a
    using that open_run_update [of a "\<lambda>g. g\<lparr> Continuations := Continuations (run_goal a) + 1 \<rparr>" "e_now e" "[]"]
    by (auto simp: continue_run_def Let_def split: prod.split)
  have "\<not> e_awaited e" using assms(1,3,5) pub by (auto simp: after_done_def split: if_splits)
  moreover have "answer \<noteq> Inl x" for x
    using assms(1,5) c o1 open_finish [of GoalPaused st1] calculation by (auto simp: after_done_def split: if_splits)
  then obtain res where r: "answer = Inr res" by (cases answer) auto
  define st2 where "st2 = ((fst st1)\<lparr> idle := (if e_calls e = 0 \<and> res_Verdict res = GoalVerdictNotMet then idle (fst st1) + 1 else 0) \<rparr>, snd st1)"
  have o2: "open_goal (snd st2)" using o1 by (simp add: st2_def)
  have cont': "continue_run C e res st2 \<noteq> (out, st')" using cont [OF o2, of res] assms(5) by auto
  have "stillOurs st1" and v: "verdict_ends e g res ''the supervisor needs your decision'' st2 = Some st'"
    using assms(1,5) c o1 o2 r calculation cont' open_finish [of GoalBlocked st2]
    by (auto simp: after_done_def st2_def [symmetric] block_run_def Let_def split: if_splits option.splits)
  moreover have "stillOurs st2 = stillOurs st1" by (cases st1) (simp add: st2_def stillOurs_def)
  moreover have "recorded C e (snd st2) = recorded C e (snd st1)" by (simp add: st2_def)
  ultimately show ?thesis
    using verdict_closes [OF v o2 assms(5)] check_recorded [of C e st res st1] recorded_complete [of C e st2] p1 c r assms(4) by (simp add: st2_def)
qed

lemma goes_ours:
  assumes "loop_step C e marker st = (Goes m, st')"
  shows "stillOurs st' \<and> persist (fst st') = persist (fst st)"
proof -
  obtain st2 st3 reason outcome where n: "gate C e (runStep C e st) = (False, st2)"
    "fst st3 = fst st2" "goal (snd st3) = goal (snd st2)"
    "outcome = turnTransient \<and> recover C e reason [] st3 = (Goes m, st') \<or>
     outcome = turnStuck \<and> after_stuck C e (run_goal st2) reason st3 = (Goes m, st') \<or>
     outcome = turnDone \<and> after_done C e (run_goal st2) st3 = (Goes m, st')"
    by (rule step_next [OF assms]) blast
  have "persist (fst st3) = persist (fst st)"
    using n(1,2) by (cases st) (auto simp: gate_def runStep_def finish_run_def run_update_def Let_def split: if_splits prod.splits)
  moreover have "stillOurs st3" using gate_ours [OF n(1)] ours_same [OF n(2,3)] by simp
  then have "stillOurs st' \<and> persist (fst st') = persist (fst st3)"
    using goes_from [OF n(4)] recover_next continue_next by metis
  ultimately show ?thesis by simp
qed

lemma step_closes:
  assumes "loop_step C e marker st = (out, st')" "honest_env e" "persist (fst st)" "open_goal (snd st)" "\<not> open_goal (snd st')"
  shows "recorded C e (snd st')"
proof -
  define st1 where "st1 = runStep C e st"
  have o1: "open_goal (snd st1)" and p1: "persist (fst st1)"
    using open_runStep [OF assms(2,4), of C] assms(3) by (simp_all add: st1_def, cases st, simp add: runStep_def Let_def)
  obtain ends st2 where g: "gate C e st1 = (ends, st2)" by (metis prod.collapse)
  have o2: "open_goal (snd st2)" using open_gate [OF assms(2) o1, of C] g by simp
  have p2: "persist (fst st2)" if "\<not> ends"
    using g p1 that by (cases st1) (auto simp: gate_def Let_def split: if_splits)
  obtain reason outcome st3 where u: "unfinished e st2 = ((reason, outcome), st3)" by (metis prod.collapse)
  have o3: "open_goal (snd st3)" using open_unfinished [OF o2, of e] u by simp
  have rec: "recover C e reason r st3 \<noteq> (out, st')" for r
  proof -
    have "open_goal (snd (snd (recover C e reason r st3)))"
      using o3 by (auto simp: recover_def block_run_def Let_def intro!: open_finish)
    then show ?thesis using assms(5) by auto
  qed
  have "\<not> ends" "outcome \<noteq> turnFatal"
    "outcome = turnStuck \<and> after_stuck C e (run_goal st2) reason st3 = (out, st') \<or>
     outcome = turnDone \<and> after_done C e (run_goal st2) st3 = (out, st')"
    using assms(1,5) o1 o2 o3 rec open_finish [of GoalLimited st3] unfolding loop_step_def Let_def st1_def [symmetric] g
    by (auto simp: u split: if_splits turnOutcome.splits)
  moreover have "persist (fst st3)" using p2 calculation(1,2) unfinished_same [OF u] by simp
  ultimately show ?thesis using stuck_closes [OF _ assms(2) o3 _ assms(5)] done_closes [OF _ assms(2) o3 _ assms(5)] by blast
qed

text \<open>
  C9: A goal is complete only on a check that says so. If a run over the session's goal ends with the
  goal complete, which it was not before, then in one of its turns the judge's answer was ``met''; the
  verifier, where the supervisor has one to ask, did not answer anything else; the last check on record
  is that verdict; and it is recorded as verified exactly when the verifier confirmed it, so a goal
  completed because the verifier failed is never shown as verified. No ending of a turn, no budget and
  no act of the operator completes a goal.
\<close>

theorem complete_needs_met:
  assumes "list_all honest_env es" "persist (fst st)" "g_Status (goal (snd st)) \<noteq> GoalComplete"
    and "goal_loop C es marker st = (turns, out, st')" "g_Status (goal (snd st')) = GoalComplete"
  shows "\<exists>e \<in> set es. \<exists>c res. LastCheck (goal (snd st')) = Some c \<and> ck_Verdict c = GoalVerdictMet \<and>
    judged e = Inr res \<and> normalizeVerdict (res_Verdict res) = GoalVerdictMet \<and>
    (asks_verifier C \<longrightarrow> (\<forall>v. e_verify e = Inr v \<longrightarrow> normalizeVerdict (res_Verdict v) = GoalVerdictMet)) \<and>
    (ck_Verified c \<longleftrightarrow> asks_verifier C \<and> (\<exists>v. e_verify e = Inr v \<and> normalizeVerdict (res_Verdict v) = GoalVerdictMet))"
proof -
  have "\<exists>e \<in> set es. recorded C e (snd st')"
    using assms
  proof (induction es arbitrary: marker st turns)
    case (Cons e es)
    obtain o1 st1 where step: "loop_step C e marker st = (o1, st1)" by (metis prod.collapse)
    show ?case
    proof (cases o1)
      case (Returns stop err)
      then have "st1 = st'" using Cons.prems(4) step by simp
      then show ?thesis using step_closes [OF step] Cons.prems by (simp add: open_goal_def)
    next
      case (Goes m)
      obtain turns' where rest: "goal_loop C es (Some m) st1 = (turns', out, st')"
        using Cons.prems(4) step Goes by (auto split: prod.splits)
      have p: "persist (fst st1)" using goes_ours [of C e marker st m st1] step Goes Cons.prems(2) by simp
      have "stillOurs st1" using goes_ours [of C e marker st m st1] step Goes by simp
      then have "g_Status (goal (snd st1)) \<noteq> GoalComplete" using p by (cases st1) (simp add: stillOurs_def goal_Active_def)
      from Cons.IH [OF _ p this rest] Cons.prems(1,5) show ?thesis by auto
    qed
  qed auto
  then obtain e c where e: "e \<in> set es" "LastCheck (goal (snd st')) = Some c" "ck_Verdict c = GoalVerdictMet" "confirmed C e (ck_Verified c)"
    by (auto simp: recorded_def)
  then show ?thesis by (auto simp: confirmed_def says_met_def intro!: bexI [of _ e])
qed

section \<open>Witnesses\<close>

definition demo_lim :: Supervisor where
  "demo_lim = \<lparr> sup_Enable = False, sup_Verify = None, StallSeconds = None, MaxNudges = Some 1, MaxContinuations = Some 1,
     LoopRepeat = None, TokenBudget = None, MaxChainSessions = None \<rparr>"

definition demo_cfg :: run_cfg where
  "demo_cfg = \<lparr> rc_sup = demo_lim, rc_verifier = True, rc_risk = \<lparr> json_command = Some, wide_letter = (\<lambda>_. False) \<rparr>, rc_to_slash = id \<rparr>"

definition demo_result :: "bytes \<Rightarrow> GoalCheckResult" where
  "demo_result v = \<lparr> res_Verdict = v, res_Reason = ''tests fail'', res_Remaining = [''fix them''], res_Checklist = [], res_Model = ''m'',
     res_unverified = [], res_verifyRan = False \<rparr>"

definition demo_turn :: step_env where
  "demo_turn = \<lparr> e_now = ''t1'', e_stop = ''end_turn'', e_err = None, e_cause = [], e_calls = 1, e_tokens = 5, e_ms = 7, e_rows = [], e_notice = [],
     e_turn_ops = [], e_turn_cancelled = False, e_git = Inr [], e_gate_ops = [], e_gate_cancelled = False, e_queued = False, e_awaited = False,
     e_judge = Inr (demo_result ''not_met''), e_judge_ctx = False, e_judge_again = Inl ''down'', e_check_ops = [],
     e_verify = Inr (demo_result ''MET ''), e_verify_ctx = False, e_check_cancelled = False, e_check_queued = False \<rparr>"

definition demo_goal :: GoalState where
  "demo_goal = no_goal\<lparr> g_ID := ''g1'', Objective := ''make the tests pass'', g_Status := GoalActive \<rparr>"

definition demo_state :: run_state where
  "demo_state = (\<lparr> persist = True, implicit = no_goal, goalID = ''g1'', nudges = 0, idle = 0, run_files = no_files, handed = [] \<rparr>,
     \<lparr> goal = demo_goal, rows = [], ui_notices = [], turn_stop_notice = [], published = [], edits = 0 \<rparr>)"

lemma goal_run_bounded_witness:
  "case goal_loop demo_cfg (replicate 4 demo_turn) None demo_state of (turns, out, st') \<Rightarrow> out \<noteq> None \<and> length turns \<le> 4"
proof -
  obtain turns out st' where r: "goal_loop demo_cfg (replicate 4 demo_turn) None demo_state = (turns, out, st')" by (metis prod_cases3)
  have calm: "list_all (calm_env (goalID (fst demo_state))) (replicate 4 demo_turn)" by code_simp
  have left: "turns_left demo_cfg demo_state = 2" by code_simp
  have "\<exists>stop err. out = Some (stop, err) \<and> length turns \<le> turns_left demo_cfg demo_state + 2"
    by (rule goal_run_bounded [OF calm _ r]) (simp add: left)
  then show ?thesis by (auto simp: r left)
qed

lemma demo_goes: "\<exists>m st'. loop_step demo_cfg demo_turn None demo_state = (Goes m, st')"
proof -
  have "case fst (loop_step demo_cfg demo_turn None demo_state) of Goes m \<Rightarrow> True | _ \<Rightarrow> False" by code_simp
  then show ?thesis by (cases "loop_step demo_cfg demo_turn None demo_state") (auto split: loop_out.splits)
qed

lemma next_turn_guarded_witness: "stillOurs (snd (loop_step demo_cfg demo_turn None demo_state))"
proof -
  obtain m st' where s: "loop_step demo_cfg demo_turn None demo_state = (Goes m, st')" using demo_goes by blast
  moreover have "persist (fst demo_state)" by code_simp
  ultimately show ?thesis using next_turn_guarded [of demo_cfg demo_turn None "fst demo_state" "snd demo_state" m st'] by simp
qed

lemma next_turn_within_budget_witness:
  "\<exists>m st'. loop_step demo_cfg demo_turn None demo_state = (Goes m, st') \<and> gt_Kind m = TurnContinue \<and> gt_Index m \<le> ContinuationLimit demo_lim"
proof -
  obtain m st' where s: "loop_step demo_cfg demo_turn None demo_state = (Goes m, st')" using demo_goes by blast
  have "case fst (loop_step demo_cfg demo_turn None demo_state) of Goes m \<Rightarrow> gt_Kind m = TurnContinue | _ \<Rightarrow> False" by code_simp
  then have "gt_Kind m = TurnContinue" by (simp add: s)
  moreover have "rc_sup demo_cfg = demo_lim" by (simp add: demo_cfg_def)
  ultimately show ?thesis using s next_turn_within_budget [OF s] by simp
qed

definition demo_met :: step_env where "demo_met = demo_turn\<lparr> e_judge := Inr (demo_result ''met'') \<rparr>"

lemma complete_needs_met_witness:
  "map_option ck_Verdict (LastCheck (goal (snd (snd (snd (goal_loop demo_cfg [demo_met] None demo_state)))))) = Some GoalVerdictMet"
proof -
  obtain turns out st' where r: "goal_loop demo_cfg [demo_met] None demo_state = (turns, out, st')" by (metis prod_cases3)
  have "list_all honest_env [demo_met]" "persist (fst demo_state)" "g_Status (goal (snd demo_state)) \<noteq> GoalComplete" by code_simp+
  moreover have "g_Status (goal (snd (snd (snd (goal_loop demo_cfg [demo_met] None demo_state))))) = GoalComplete" by code_simp
  then have "g_Status (goal (snd st')) = GoalComplete" by (simp only: r snd_conv)
  ultimately have "\<exists>e \<in> set [demo_met]. \<exists>c. LastCheck (goal (snd st')) = Some c \<and> ck_Verdict c = GoalVerdictMet"
    using complete_needs_met [OF _ _ _ r] by blast
  then show ?thesis by (auto simp only: r snd_conv option.map)
qed

section \<open>Two behaviours\<close>

text \<open>
  A turn that called tools but failed on the way does not end a row of turns without one: two such turns
  around it block the goal, and the reason says they came in a row.
\<close>

definition demo_idle :: step_env where "demo_idle = demo_turn\<lparr> e_calls := 0 \<rparr>"

definition demo_broken :: step_env where
  "demo_broken = demo_turn\<lparr> e_calls := 9, e_err := Some \<lparr> err_text = ''503'', err_canceled = False, err_loop = None, err_quota = False, err_transient = True \<rparr> \<rparr>"

lemma idle_not_in_a_row:
  "(let s = snd (snd (snd (goal_loop demo_cfg [demo_idle, demo_broken, demo_idle] None demo_state))) in
     g_Status (goal s) = GoalBlocked \<and> StatusReason (goal s) = ''no progress: 2 turns in a row ended without a tool call'')"
  by code_simp

text \<open>A recovery starts although the token budget is used up.\<close>

lemma recovery_over_budget:
  "(let C = demo_cfg\<lparr> rc_sup := demo_lim\<lparr> TokenBudget := Some 5 \<rparr> \<rparr> in
     case loop_step C demo_broken None demo_state of (Goes m, st') \<Rightarrow> gt_Kind m = TurnRecover \<and> overBudget (run_goal st') (rc_sup C) | _ \<Rightarrow> False)"
  by code_simp

end
