(* ===== verification/GoalRisk_Correct.thy ===== *)
theory GoalRisk_Correct
  imports GoalRisk
begin

text \<open>
  What the rules of a goal read: a result is taken for a refusal exactly when a format could have
  printed it, and resuming a blocked goal accepts exactly what blocked it.
\<close>

section \<open>Formats\<close>

text \<open>A format filled in: the text around the verbs with arguments between.\<close>

fun fill :: "bytes list \<Rightarrow> bytes list \<Rightarrow> bytes" where
  "fill (p # ps) (a # as) = p @ a @ fill ps as"
| "fill (p # ps) [] = p"
| "fill [] as = []"

lemma format_parts_nonempty: "format_parts f = Some ps \<Longrightarrow> ps \<noteq> []"
  by (cases f) (auto split: if_splits list.splits option.splits)

lemma drop_split: "a \<le> b \<Longrightarrow> drop a xs = take (b - a) (drop a xs) @ drop b xs"
  by (metis append_take_drop_id drop_drop le_add_diff_inverse2)

text \<open>Taking the leftmost place for each part loses nothing.\<close>

lemma middles_prepend: "middles s mids \<Longrightarrow> middles (x @ s) mids"
proof (induction mids arbitrary: s x)
  case (Cons m mids)
  from Cons.prems obtain i where i: "str_index m s = Some i" "middles (drop (i + length m) s) mids"
    by (auto split: option.splits)
  have at: "prefix m (drop (length x + i) (x @ s))" using str_index_Some [OF i(1)] by simp
  then obtain j where j: "str_index m (x @ s) = Some j"
    using str_index_None by (metis option.exhaust)
  have "j \<le> length x + i" using str_index_Some [OF j] at not_le by blast
  then have "drop (j + length m) (x @ s) = take (length x + i - j) (drop (j + length m) (x @ s)) @ drop (i + length m) s"
    using drop_split [of "j + length m" "length x + i + length m" "x @ s"] by (simp del: drop_append take_append) simp
  then have "middles (drop (j + length m) (x @ s)) mids" using Cons.IH [OF i(2)] by metis
  with j show ?case by simp
qed simp

lemma middles_iff:
  "middles s mids \<longleftrightarrow> (\<exists>a as. length as = length mids \<and> s = a @ concat (map2 (@) mids as))"
proof (induction mids arbitrary: s)
  case (Cons m mids)
  show ?case
  proof
    assume "middles s (m # mids)"
    then obtain i where i: "str_index m s = Some i" "middles (drop (i + length m) s) mids"
      by (auto split: option.splits)
    then obtain a as where a: "length as = length mids" "drop (i + length m) s = a @ concat (map2 (@) mids as)"
      using Cons.IH by blast
    have "s = take i s @ m @ drop (i + length m) s"
      using str_index_Some [OF i(1)] by (metis add.commute append_take_drop_id drop_drop prefix_def append_eq_conv_conj)
    then show "\<exists>b bs. length bs = length (m # mids) \<and> s = b @ concat (map2 (@) (m # mids) bs)"
      using a by (intro exI [of _ "take i s"] exI [of _ "a # as"]) simp
  next
    assume "\<exists>b bs. length bs = length (m # mids) \<and> s = b @ concat (map2 (@) (m # mids) bs)"
    then obtain b a as where s: "length as = length mids" "s = b @ m @ (a @ concat (map2 (@) mids as))"
      by (auto simp: length_Suc_conv)
    then have rest: "middles (a @ concat (map2 (@) mids as)) mids" using Cons.IH by blast
    have "prefix m (drop (length b) s)" by (simp add: s(2))
    then obtain j where j: "str_index m s = Some j" using str_index_None by (metis option.exhaust)
    have le: "j \<le> length b" using str_index_Some [OF j] \<open>prefix m (drop (length b) s)\<close> not_le by blast
    have "drop (j + length m) s = take (length b - j) (drop (j + length m) s) @ drop (length b + length m) s"
      using drop_split [of "j + length m" "length b + length m" s] le by simp
    also have "drop (length b + length m) s = a @ concat (map2 (@) mids as)" by (simp add: s(2))
    finally have "middles (drop (j + length m) s) mids" using middles_prepend [OF rest] by metis
    with j show "middles s (m # mids)" by simp
  qed
qed simp

lemma fill_snoc: "length as = length mids \<Longrightarrow>
  fill (p # mids @ [q]) (a # as) = p @ a @ concat (map2 (@) mids as) @ q"
proof (induction mids arbitrary: p a as)
  case (Cons m mids)
  then show ?case by (cases as) auto
qed simp

text \<open>
  A recorded result is read as one of a format's texts exactly when the format could have printed
  it: for every format with at least one verb, \<^verbatim>\<open>matchesFormat\<close> says yes if and only if some arguments
  put between the parts of the format give that text. The greedy search for the middle parts misses
  no text, and it never panics on such a format.
\<close>

theorem matchesFormat_iff:
  assumes "format_parts f = Some parts" "2 \<le> length parts"
  shows "\<exists>b. matchesFormat s f = Some b \<and> (b \<longleftrightarrow> (\<exists>args. length args + 1 = length parts \<and> s = fill parts args))"
proof -
  obtain p mids q where parts: "parts = p # mids @ [q]"
    using assms(2) by (cases parts; cases "tl parts" rule: rev_cases) auto
  have args: "(\<exists>args. length args + 1 = length parts \<and> s = fill parts args) \<longleftrightarrow>
      (\<exists>a as. length as = length mids \<and> s = p @ a @ concat (map2 (@) mids as) @ q)"
  proof
    assume "\<exists>args. length args + 1 = length parts \<and> s = fill parts args"
    then obtain args where a: "length args = Suc (length mids)" "s = fill parts args" by (auto simp: parts)
    then obtain b bs where "args = b # bs" "length bs = length mids" by (auto simp: length_Suc_conv)
    with a fill_snoc [of bs mids p q b] show "\<exists>a as. length as = length mids \<and> s = p @ a @ concat (map2 (@) mids as) @ q"
      unfolding parts by blast
  next
    assume "\<exists>a as. length as = length mids \<and> s = p @ a @ concat (map2 (@) mids as) @ q"
    then obtain a as where a: "length as = length mids" "s = p @ a @ concat (map2 (@) mids as) @ q" by blast
    with fill_snoc [of as mids p q a] show "\<exists>args. length args + 1 = length parts \<and> s = fill parts args"
      unfolding parts by (intro exI [of _ "a # as"]) simp
  qed
  show ?thesis
  proof (cases "length s < length p + length q \<or> \<not> prefix p s \<or> \<not> suffix q s")
    case True
    then have "\<not> (\<exists>a as. length as = length mids \<and> s = p @ a @ concat (map2 (@) mids as) @ q)"
      by (auto simp: suffix_def)
    with True show ?thesis unfolding args by (auto simp: matchesFormat_def assms(1) parts has_prefix_def has_suffix_def)
  next
    case False
    then have len: "length p + length q \<le> length s" by simp
    from False obtain t where t: "s = p @ t" by (auto simp: prefix_def)
    from False obtain u where u: "s = u @ q" by (auto simp: suffix_def)
    have "length q \<le> length t" using len t by simp
    then obtain x where x: "t = x @ q" using t u by (auto simp: append_eq_append_conv2)
    have inner: "take (length s - length q - length p) (drop (length p) s) = x" by (simp add: t x)
    have "middles x mids \<longleftrightarrow> (\<exists>a as. length as = length mids \<and> s = p @ a @ concat (map2 (@) mids as) @ q)"
      unfolding middles_iff by (simp add: t x)
    then show ?thesis unfolding args
      using False inner by (auto simp: matchesFormat_def assms(1) parts has_prefix_def has_suffix_def)
  qed
qed

section \<open>Accepting what blocks\<close>

text \<open>The rules read nothing of a row's acknowledgement but the flag itself.\<close>

definition unmarked :: "goal_row \<Rightarrow> goal_row" where "unmarked m = m\<lparr> RiskAcknowledged := False \<rparr>"

lemma unmarked_fields [simp]:
  "message.truncate (unmarked m) = message.truncate m" "role (unmarked m) = role m" "Content (unmarked m) = Content m"
  "ToolCalls (unmarked m) = ToolCalls m" "ToolCallID (unmarked m) = ToolCallID m" "row_Goal (unmarked m) = row_Goal m"
  by (simp_all add: unmarked_def message.defs)

lemma results_after_unmarked: "results_after gid out (map unmarked ms) = results_after gid out ms"
  by (induction ms arbitrary: out) simp_all

lemma dockerCommands_unmarked: "i < length msgs \<Longrightarrow> dockerCommands L (map unmarked msgs) i = dockerCommands L msgs i"
  by (simp add: dockerCommands_def callResults_def drop_map results_after_unmarked)

lemma same_unmarked:
  assumes "map unmarked msgs = map unmarked msgs'" "i < length msgs"
  shows "dockerCommands L msgs i = dockerCommands L msgs' i" "row_Goal (msgs ! i) = row_Goal (msgs' ! i)"
proof -
  have len: "length msgs = length msgs'" using assms(1) map_eq_imp_length_eq by blast
  show "dockerCommands L msgs i = dockerCommands L msgs' i"
    using dockerCommands_unmarked [of i msgs L] dockerCommands_unmarked [of i msgs' L] assms len by simp
  show "row_Goal (msgs ! i) = row_Goal (msgs' ! i)"
    using arg_cong [OF assms(1), where f = "\<lambda>xs. row_Goal (xs ! i)"] assms(2) len by simp
qed

lemma accept_rows:
  assumes "k \<le> length (rows s)"
  shows "map unmarked (rows (fold (accept_row L g) [0..<k] s)) = map unmarked (rows s) \<and>
    goal (fold (accept_row L g) [0..<k] s) = goal s \<and>
    (\<forall>j < length (rows s). RiskAcknowledged (rows (fold (accept_row L g) [0..<k] s) ! j) \<longleftrightarrow>
       RiskAcknowledged (rows s ! j) \<or> j < k \<and> accepts_row L (rows s) g j)"
  using assms
proof (induction k)
  case (Suc k)
  define t where "t = fold (accept_row L g) [0..<k] s"
  have t: "map unmarked (rows t) = map unmarked (rows s)" "goal t = goal s"
    "\<And>j. j < length (rows s) \<Longrightarrow> RiskAcknowledged (rows t ! j) \<longleftrightarrow> RiskAcknowledged (rows s ! j) \<or> j < k \<and> accepts_row L (rows s) g j"
    using Suc by (auto simp: t_def)
  have len: "length (rows t) = length (rows s)" using t(1) map_eq_imp_length_eq by blast
  have k: "k < length (rows s)" using Suc by simp
  have "RiskAcknowledged (rows t ! k) = RiskAcknowledged (rows s ! k)" using t(3) [OF k] by simp
  then have acc: "accepts_row L (rows t) g k = accepts_row L (rows s) g k"
    using same_unmarked [OF t(1)] k len by (simp add: accepts_row_def)
  have marks: "map unmarked ((rows t)[k := (rows t ! k)\<lparr> RiskAcknowledged := True \<rparr>]) = map unmarked (rows t)"
    using k len by (intro nth_equalityI) (auto simp: nth_list_update unmarked_def)
  have step: "accept_row L g k t =
      (if accepts_row L (rows s) g k then t\<lparr> rows := (rows t)[k := (rows t ! k)\<lparr> RiskAcknowledged := True \<rparr>], edits := edits t + 1 \<rparr> else t)"
    by (simp add: accept_row_def acc)
  have "RiskAcknowledged (rows (accept_row L g k t) ! j) \<longleftrightarrow> RiskAcknowledged (rows s ! j) \<or> j < Suc k \<and> accepts_row L (rows s) g j"
    if "j < length (rows s)" for j
    unfolding step using t(3) [OF that] that k len by (auto simp: nth_list_update less_Suc_eq)
  moreover have "map unmarked (rows (accept_row L g k t)) = map unmarked (rows s)" "goal (accept_row L g k t) = goal s"
    unfolding step using t(1,2) marks by simp_all
  moreover have "fold (accept_row L g) [0..<Suc k] s = accept_row L g k t" by (simp add: t_def)
  ultimately show ?case by simp
qed simp

lemma accepted_files:
  "distinct (map fst files) \<Longrightarrow>
   (\<forall>p. map_of (AcceptedFiles (fold (\<lambda>(p, h) g. g\<lparr> AcceptedFiles := AList.update p h (AcceptedFiles g) \<rparr>) files g)) p =
      (case map_of files p of Some h \<Rightarrow> Some h | None \<Rightarrow> map_of (AcceptedFiles g) p)) \<and>
   (fold (\<lambda>(p, h) g. g\<lparr> AcceptedFiles := AList.update p h (AcceptedFiles g) \<rparr>) files g)\<lparr> AcceptedFiles := [] \<rparr> =
   g\<lparr> AcceptedFiles := [] \<rparr>"
proof (induction files arbitrary: g)
  case (Cons f files)
  obtain p h where f: "f = (p, h)" by (cases f)
  have none: "map_of files p = None" using Cons.prems f by (simp add: map_of_eq_None_iff)
  show ?case using Cons none by (auto simp: f update_conv' split: option.split)
qed simp

lemma scan_writes_found:
  "f \<in> set (snd (scan_writes_of calls acc)) \<Longrightarrow> f \<in> set (snd acc) \<or> f_kind f = skipMarkerAdded"
  by (induction calls acc rule: scan_writes_of.induct) (auto simp: skip_finding_def split: if_splits)

lemma scan_writes_keeps: "set (snd acc) \<subseteq> set (snd (scan_writes_of calls acc))"
  by (induction calls acc rule: scan_writes_of.induct) (auto split: if_splits)

lemma row_found:
  "f \<in> set (snd (fold (row_findings L msgs) is acc)) \<Longrightarrow>
     f \<in> set (snd acc) \<or> f_kind f = skipMarkerAdded \<or> (\<exists>i \<in> set is. f \<in> docker_finding (msgs ! i) ` set (dockerCommands L msgs i))"
proof (induction "is" arbitrary: acc)
  case (Cons i "is")
  from Cons.IH [of "row_findings L msgs i acc"] Cons.prems
  have "f \<in> set (snd (row_findings L msgs i acc)) \<or> f_kind f = skipMarkerAdded \<or>
      (\<exists>i \<in> set is. f \<in> docker_finding (msgs ! i) ` set (dockerCommands L msgs i))" by simp
  then show ?case
    using scan_writes_found [of f "ToolCalls (msgs ! i)" acc] by (auto simp: row_findings_def split: prod.splits)
qed simp

text \<open>The hard findings that nothing accepted, read off the rows and the files.\<close>

lemma fresh_only_files:
  assumes "\<And>i. i \<in> set ids \<Longrightarrow> dockerCommands L msgs i \<noteq> [] \<Longrightarrow> RiskAcknowledged (msgs ! i)"
  shows "fresh_findings (snd (goalFindings ts L msgs ids g files)) =
    map (file_finding g) (filter (\<lambda>f. map_of (AcceptedFiles g) (fst f) \<noteq> Some (snd f)) (sort_key fst (gf_changed files)))"
proof -
  have found: "fresh_findings (snd (fold (row_findings L msgs) ids ([], []))) = []"
    using row_found [of _ L msgs ids "([], [])"] assms
    by (fastforce simp: fresh_findings_def filter_empty_conv docker_finding_def)
  have tests: "fresh_findings (map (\<lambda>p. \<lparr> f_kind = testFilesChanged, f_subject = p, f_acknowledged = False \<rparr>) ps) = []" for ps
    by (auto simp: fresh_findings_def filter_empty_conv)
  have migr: "fresh_findings (map (file_finding g) fs) = map (file_finding g) (filter (\<lambda>f. map_of (AcceptedFiles g) (fst f) \<noteq> Some (snd f)) fs)" for fs
    by (induction fs) (auto simp: fresh_findings_def file_finding_def)
  have "fresh_findings (a @ b) = fresh_findings a @ fresh_findings b" for a b by (simp add: fresh_findings_def)
  then show ?thesis using found tests migr by (auto simp: goalFindings_def Let_def split: prod.splits)
qed

text \<open>
  \<^verbatim>\<open>/goal resume\<close> accepts exactly what blocked the goal. When a blocked goal is resumed with what git
  says now, it is active with a fresh continuation and token budget, and as long as the conversation
  stays as it is, the only thing the risk gate can still find is a migration file whose content is
  not the one accepted: not at the hash git just gave, and, for a file git did not name, not at the
  hash accepted earlier. No docker step that is already recorded blocks again; a file changed again
  does.
\<close>

theorem resume_accepts:
  assumes "goal s = g" "goal_Set g" "g_Status g = GoalBlocked" "g_ID g \<noteq> []"
    and "g_Start g = Some st" "start_Head st \<noteq> []" "distinct (map fst changed)"
    and "resumeGoal L now (Inr changed) model reasoning g s = (err, s')"
  shows "err = None \<and> goal_Active (goal s') \<and> Continuations (goal s') = 0 \<and> BudgetTokens (goal s') = 0 \<and>
    map f_subject (fresh_findings (snd (goalFindings ts L (rows s') (goalRows (rows s') (goal s') False) (goal s') later))) =
    map fst (filter (\<lambda>(p, h). (case map_of changed p of Some h' \<Rightarrow> Some h' | None \<Rightarrow> map_of (AcceptedFiles g) p) \<noteq> Some h)
      (sort_key fst (gf_changed later)))"
proof -
  define files where "files = no_files\<lparr> gf_changed := changed \<rparr>"
  define g1 where "g1 = fold (\<lambda>(p, h) g. g\<lparr> AcceptedFiles := AList.update p h (AcceptedFiles g) \<rparr>) changed g"
  define s1 where "s1 = fold (accept_row L g) [0..<length (rows s)] s"
  define g2 where "g2 = g1\<lparr> g_Status := GoalActive, StatusReason := [], Continuations := 0, TokensBase := TokensUsed g1,
    g_Model := model, g_Reasoning := reasoning, Objective := trim_space (Objective g), UpdatedAt := now \<rparr>"
  have git: "goalMigrationChanges (Inr changed) g = files"
    using assms(5,6) by (simp add: goalMigrationChanges_def files_def)
  have acc: "acceptGoalRisksLocked L files (g, s) = (g1, s1)"
    by (simp add: acceptGoalRisksLocked_def files_def g1_def s1_def no_files_def)
  note files1 = accepted_files [OF assms(7), of g, folded g1_def]
  have g1: "Objective g1 = Objective g" "g_ID g1 = g_ID g"
    using arg_cong [OF conjunct2 [OF files1], of Objective] arg_cong [OF conjunct2 [OF files1], of g_ID] by simp_all
  have set2: "trim_space (Objective g) \<noteq> []" using assms(2) by (simp add: goal_Set_def)
  have res: "err = None" "s' = s1\<lparr> goal := g2, published := published s1 @ [''Goal resumed: '' @ Objective g] \<rparr>"
    using assms(1-4,8) set2
    by (auto simp: resumeGoal_def updateGoal_def git acc g2_def g1 goal_Set_def Let_def)
  have s1: "map unmarked (rows s1) = map unmarked (rows s)"
    "\<And>j. j < length (rows s) \<Longrightarrow> RiskAcknowledged (rows s1 ! j) \<longleftrightarrow> RiskAcknowledged (rows s ! j) \<or> accepts_row L (rows s) g j"
    using accept_rows [of "length (rows s)" s L g] by (auto simp: s1_def)
  have len: "length (rows s1) = length (rows s)" using s1(1) map_eq_imp_length_eq by blast
  have marked: "RiskAcknowledged (rows s1 ! i)" if i: "i \<in> set (goalRows (rows s1) g2 False)" and d: "dockerCommands L (rows s1) i \<noteq> []" for i
  proof -
    have i': "i < length (rows s)" "row_Goal (rows s1 ! i) = g_ID g" using i len by (auto simp: goalRows_def g2_def g1)
    then show ?thesis
      using s1(2) [OF i'(1)] same_unmarked [OF s1(1), of i] d assms(4) len by (auto simp: accepts_row_def)
  qed
  have fresh: "fresh_findings (snd (goalFindings ts L (rows s1) (goalRows (rows s1) g2 False) g2 later)) =
      map (file_finding g2) (filter (\<lambda>f. map_of (AcceptedFiles g2) (fst f) \<noteq> Some (snd f)) (sort_key fst (gf_changed later)))"
    by (rule fresh_only_files) (rule marked)
  have "map_of (AcceptedFiles g2) p = (case map_of changed p of Some h \<Rightarrow> Some h | None \<Rightarrow> map_of (AcceptedFiles g) p)" for p
    using files1 by (simp add: g2_def)
  then have "map f_subject (fresh_findings (snd (goalFindings ts L (rows s1) (goalRows (rows s1) g2 False) g2 later))) =
      map fst (filter (\<lambda>(p, h). (case map_of changed p of Some h' \<Rightarrow> Some h' | None \<Rightarrow> map_of (AcceptedFiles g) p) \<noteq> Some h)
        (sort_key fst (gf_changed later)))"
    unfolding fresh by (simp add: file_finding_def case_prod_beta' comp_def)
  then show ?thesis
    using res set2 by (simp add: g2_def goal_Active_def goal_Set_def BudgetTokens_def wrap64_def)
qed

section \<open>Witnesses\<close>

lemma matchesFormat_iff_witness:
  "\<exists>b. matchesFormat ''error: tool x: y: this tool is not available in this turn'' (''error: %s: '' @ ToolResultTurnNoteDefault) = Some b \<and> b"
proof -
  have f: "format_parts (''error: %s: '' @ ToolResultTurnNoteDefault) = Some [''error: '', '': '' @ ToolResultTurnNoteDefault]" by code_simp
  obtain b where b: "matchesFormat ''error: tool x: y: this tool is not available in this turn'' (''error: %s: '' @ ToolResultTurnNoteDefault) = Some b"
      "b \<longleftrightarrow> (\<exists>args. length args + 1 = length [''error: '', '': '' @ ToolResultTurnNoteDefault] \<and>
        ''error: tool x: y: this tool is not available in this turn'' = fill [''error: '', '': '' @ ToolResultTurnNoteDefault] args)"
    using matchesFormat_iff [OF f] by fastforce
  have "length [''tool x: y''] + 1 = length [''error: '', '': '' @ ToolResultTurnNoteDefault]"
    "''error: tool x: y: this tool is not available in this turn'' = fill [''error: '', '': '' @ ToolResultTurnNoteDefault] [''tool x: y'']" by code_simp+
  then show ?thesis using b by blast
qed

text \<open>A blocked goal, a recorded docker step of its own and one migration file, which changes again later.\<close>

definition demo_risk_lib :: risk_lib where "demo_risk_lib = \<lparr> json_command = Some, wide_letter = (\<lambda>_. False) \<rparr>"

definition demo_row :: goal_row where
  "demo_row = \<lparr> role = RoleAssistant, Content = [], Reasoning = [], Truncated = False,
     ToolCalls = [\<lparr> call_ID = ''c1'', call_Name = ''run_command'', InputJSON = ''sudo docker compose -f x.yml up'' \<rparr>], ToolCallID = [],
     PlanDocument = False, CompactionSummary = False, CompactionBlock = False, FollowUp = False, msg_Model = [], CreatedAt = [],
     ImageParts = [], Artifacts = [], ReasoningSignature = [], Rules = [], Ephemeral = False,
     row_Goal = ''g1'', RiskAcknowledged = False, row_GoalTurn = False, row_Wake = False \<rparr>"

definition demo_blocked :: gsession where
  "demo_blocked = \<lparr> goal = no_goal\<lparr> g_ID := ''g1'', Objective := ''ship it'', g_Status := GoalBlocked,
       g_Start := Some \<lparr> start_Dir = ''/w'', start_Head = ''abc'' \<rparr> \<rparr>,
     rows = [demo_row], ui_notices = [], turn_stop_notice = [], published = [], edits = 0 \<rparr>"

lemma resume_accepts_witness:
  "let s' = snd (resumeGoal demo_risk_lib ''t2'' (Inr [(''m/1.sql'', ''h1'')]) ''m'' [] (goal demo_blocked) demo_blocked);
       found = (\<lambda>h. map f_subject (fresh_findings (snd (goalFindings id demo_risk_lib (rows s') (goalRows (rows s') (goal s') False) (goal s')
         (no_files\<lparr> gf_changed := [(''m/1.sql'', h)] \<rparr>)))))
   in found ''h1'' = [] \<and> found ''h2'' = [''m/1.sql'']"
proof -
  define s' where "s' = snd (resumeGoal demo_risk_lib ''t2'' (Inr [(''m/1.sql'', ''h1'')]) ''m'' [] (goal demo_blocked) demo_blocked)"
  obtain err where r: "resumeGoal demo_risk_lib ''t2'' (Inr [(''m/1.sql'', ''h1'')]) ''m'' [] (goal demo_blocked) demo_blocked = (err, s')"
    unfolding s'_def by (metis prod.collapse)
  have g: "goal_Set (goal demo_blocked)" "g_Status (goal demo_blocked) = GoalBlocked" "g_ID (goal demo_blocked) \<noteq> []"
    "g_Start (goal demo_blocked) = Some \<lparr> start_Dir = ''/w'', start_Head = ''abc'' \<rparr>" by code_simp+
  have "map f_subject (fresh_findings (snd (goalFindings id demo_risk_lib (rows s') (goalRows (rows s') (goal s') False) (goal s')
      (no_files\<lparr> gf_changed := [(''m/1.sql'', h)] \<rparr>)))) = (if h = ''h1'' then [] else [''m/1.sql''])" for h
    using resume_accepts [OF refl g _ _ r, of id "no_files\<lparr> gf_changed := [(''m/1.sql'', h)] \<rparr>"]
    by (auto simp: demo_blocked_def no_goal_def no_files_def)
  from this [of "''h1''"] this [of "''h2''"] show ?thesis unfolding Let_def s'_def [symmetric] by simp
qed

end
