(* ===== verification/TurnWatch.thy ===== *)
theory TurnWatch
  imports GoalState
begin

text \<open>
  The watchdog of a supervised turn (\<^verbatim>\<open>internal/session/supervisor_watch.go\<close>): every update of the turn
  passes it, and it cancels the turn when nothing happens for too long or when the tail of the finished
  tool operations is one cycle over and over. An update, a tick of its timer and the begin or end of a
  person's prompt are events; each is what one critical section does. SHA-256 and the canonical form of
  JSON are parameters. \<open>None\<close> is a panic.
\<close>

section \<open>Updates\<close>

record tool_event =
  te_ID :: bytes
  te_Status :: bytes
  te_Digest :: bytes
  te_Preview :: "bytes list"

text \<open>
  The kinds of update the watch tells apart: frames that prove nothing about the turn, the tokens it
  spent, the state of a tool call, and anything else.
\<close>

datatype turn_update =
    ClockFrame
  | TokenUsage int int int
  | ToolStatus tool_event
  | OtherUpdate

definition activity :: "turn_update \<Rightarrow> bool" where
  "activity u = (u \<noteq> ClockFrame)"

record turn_watch =
  w_stall :: int
  w_repeat :: int
  w_last :: int
  waiting :: int
  w_running :: "bytes list"
  ops :: "bytes list"
  seen :: "bytes list"
  w_calls :: int
  tokenSum :: int
  stoppedBy :: bytes
  w_cancelled :: bool

definition newTurnWatch :: "int \<Rightarrow> int \<Rightarrow> int \<Rightarrow> turn_watch" where
  "newTurnWatch now stall rep =
     \<lparr> w_stall = stall, w_repeat = rep, w_last = now, waiting = 0, w_running = [], ops = [], seen = [],
       w_calls = 0, tokenSum = 0, stoppedBy = [], w_cancelled = False \<rparr>"

section \<open>Fingerprints\<close>

record watch_lib =
  canonical :: "bytes \<Rightarrow> bytes option"
  result_sha :: "bytes \<Rightarrow> bytes"

definition canonicalArgs :: "watch_lib \<Rightarrow> bytes \<Rightarrow> bytes" where
  "canonicalArgs W input = (case canonical W input of Some out \<Rightarrow> out | None \<Rightarrow> trim_space input)"

definition findCall :: "goal_row list \<Rightarrow> bytes \<Rightarrow> ToolCall option" where
  "findCall msgs i = find (\<lambda>call. call_ID call = i) (concat (map ToolCalls (rev msgs)))"

definition resultDigest :: "watch_lib \<Rightarrow> tool_event \<Rightarrow> bytes" where
  "resultDigest W e =
     (if te_Digest e \<noteq> [] then te_Digest e
      else result_sha W (concat (map (\<lambda>p. CHR 0x00 # p) (te_Preview e))))"

definition fingerprint :: "watch_lib \<Rightarrow> goal_row list \<Rightarrow> tool_event \<Rightarrow> bytes" where
  "fingerprint W msgs e =
     (case findCall msgs (te_ID e) of
        None \<Rightarrow> []
      | Some call \<Rightarrow> call_Name call @ [CHR 0x00] @ canonicalArgs W (InputJSON call) @ [CHR 0x00] @ te_Status e @ [CHR 0x00] @ resultDigest W e)"

section \<open>Cycles\<close>

definition loopMaxPeriod :: nat where "loopMaxPeriod = 3"

definition distinctOps :: "bytes list \<Rightarrow> nat" where
  "distinctOps xs = length (remdups xs)"

text \<open>The rounds a cycle needs, times its period, as a Go product.\<close>

definition loop_need :: "int \<Rightarrow> nat \<Rightarrow> int" where
  "loop_need rep period = wrap64 (int period * (if period > 1 then max rep 2 else rep))"

definition tail_cycles :: "nat \<Rightarrow> bytes list \<Rightarrow> bool" where
  "tail_cycles period tl' \<longleftrightarrow>
     list_all (\<lambda>i. tl' ! i = tl' ! (i - period)) [period..<length tl'] \<and> distinctOps (take period tl') = period"

fun find_cycle :: "int \<Rightarrow> bytes list \<Rightarrow> nat list \<Rightarrow> bool option" where
  "find_cycle rep xs [] = Some False"
| "find_cycle rep xs (period # periods) =
     (if int (length xs) < loop_need rep period then find_cycle rep xs periods
      else if loop_need rep period < 0 then None
      else if tail_cycles period (drop (length xs - nat (loop_need rep period)) xs) then Some True
      else find_cycle rep xs periods)"

definition checkLoop :: "turn_watch \<Rightarrow> turn_watch option" where
  "checkLoop w =
     (if w_repeat w \<le> 0 \<or> stoppedBy w \<noteq> [] then Some w
      else map_option (\<lambda>found. if found
          then w\<lparr> stoppedBy := ''repeating the same tool operations with the same results'', w_cancelled := True \<rparr> else w)
        (find_cycle (w_repeat w) (ops w) [1..<Suc loopMaxPeriod]))"

section \<open>Events\<close>

definition finished :: "bytes \<Rightarrow> bool" where
  "finished st \<longleftrightarrow> st = ''completed'' \<or> st = ''failed''"

definition tool_update :: "watch_lib \<Rightarrow> goal_row list \<Rightarrow> tool_event \<Rightarrow> turn_watch \<Rightarrow> turn_watch option" where
  "tool_update W msgs e w =
     (if te_Status e = ''in_progress'' then Some (w\<lparr> w_running := List.insert (te_ID e) (w_running w) \<rparr>)
      else if finished (te_Status e) \<or> te_Status e = ''cancelled'' then
        (let w = w\<lparr> w_running := removeAll (te_ID e) (w_running w) \<rparr>;
             op = (if finished (te_Status e) then fingerprint W msgs e else []) in
         if te_ID e \<in> set (seen w) \<or> te_Status e = ''cancelled'' then Some w
         else
           let w = w\<lparr> seen := te_ID e # seen w, w_calls := wrap64 (w_calls w + 1) \<rparr> in
           if op = [] then Some w else checkLoop (w\<lparr> ops := ops w @ [op] \<rparr>))
      else Some w)"

definition SendSessionUpdate :: "watch_lib \<Rightarrow> int \<Rightarrow> goal_row list \<Rightarrow> turn_update \<Rightarrow> turn_watch \<Rightarrow> turn_watch option" where
  "SendSessionUpdate W now msgs u w =
     (let w = (if activity u then w\<lparr> w_last := now \<rparr> else w) in
      case u of
        TokenUsage inp cached out \<Rightarrow>
          Some (w\<lparr> tokenSum := wrap64 (tokenSum w + (max (wrap64 (inp - cached)) 0 + out)) \<rparr>)
      | ToolStatus e \<Rightarrow> tool_update W msgs e w
      | _ \<Rightarrow> Some w)"

definition setWaiting :: "int \<Rightarrow> int \<Rightarrow> turn_watch \<Rightarrow> turn_watch" where
  "setWaiting now delta w = w\<lparr> waiting := waiting w + delta, w_last := now \<rparr>"

text \<open>
  One tick of the stall timer: \<open>background\<close> is whether a command or a subagent is in flight,
  \<open>words\<close> the printed duration. \<open>wait_free\<close> is the first look under the lock.
\<close>

definition wait_free :: "turn_watch \<Rightarrow> bool" where
  "wait_free w \<longleftrightarrow> waiting w \<le> 0 \<and> w_running w = []"

definition stall_tick :: "int \<Rightarrow> bool \<Rightarrow> bytes \<Rightarrow> turn_watch \<Rightarrow> turn_watch" where
  "stall_tick now background words w =
     (if w_stall w \<le> 0 then w
      else if \<not> wait_free w \<or> background then w\<lparr> w_last := now \<rparr>
      else if now - w_last w \<ge> w_stall w \<and> stoppedBy w = []
      then w\<lparr> stoppedBy := ''stalled: nothing happened for '' @ words, w_cancelled := True \<rparr>
      else w)"

end
