(* ===== verification/TurnWatch_Correct.thy ===== *)
theory TurnWatch_Correct
  imports TurnWatch
begin

text \<open>The watchdog stops a turn exactly on a cycle of distinct tool operations.\<close>

section \<open>Rounds of a block\<close>

lemma length_rounds: "length (concat (replicate n b)) = n * length b"
  by (simp add: length_concat sum_list_replicate)

lemma nth_rounds: "i < n * length b \<Longrightarrow> concat (replicate n b) ! i = b ! (i mod length b)"
proof (induction n arbitrary: i)
  case (Suc n)
  show ?case
  proof (cases "i < length b")
    case False
    then have "i - length b < n * length b" "(i - length b) mod length b = i mod length b"
      using Suc.prems by (auto simp: le_mod_geq)
    with False Suc.IH [of "i - length b"] show ?thesis by (simp add: nth_append)
  qed (simp add: nth_append)
qed simp

lemma periodic_nth:
  assumes "\<And>i. p \<le> i \<Longrightarrow> i < length xs \<Longrightarrow> xs ! i = xs ! (i - p)" "0 < p"
  shows "i < length xs \<Longrightarrow> xs ! i = xs ! (i mod p)"
proof (induction i rule: less_induct)
  case (less i)
  show ?case
  proof (cases "i < p")
    case False
    then have "xs ! i = xs ! (i - p)" using assms(1) less.prems by simp
    also have "\<dots> = xs ! ((i - p) mod p)" using less False assms(2) by simp
    finally show ?thesis using False by (simp add: le_mod_geq)
  qed simp
qed

lemma distinctOps_iff: "distinctOps xs = length xs \<longleftrightarrow> distinct xs"
  by (simp add: distinctOps_def length_remdups_card_conv distinct_card card_distinct) (metis card_distinct distinct_card)

lemma tail_cycles_iff:
  assumes p: "0 < p" and len: "length xs = n * p" and n: "0 < n"
  shows "tail_cycles p xs \<longleftrightarrow> (\<exists>b. length b = p \<and> distinct b \<and> xs = concat (replicate n b))"
proof
  assume c: "tail_cycles p xs"
  define b where "b = take p xs"
  have "p \<le> length xs" using len n p by simp
  then have lb: "length b = p" by (simp add: b_def)
  have "xs ! i = xs ! (i - p)" if "p \<le> i" "i < length xs" for i
    using c that by (auto simp: tail_cycles_def list_all_iff)
  then have "xs ! i = b ! (i mod p)" if "i < length xs" for i
    using periodic_nth [OF _ p that] that p by (simp add: b_def)
  then have "xs = concat (replicate n b)"
    using len lb by (intro nth_equalityI) (simp_all add: length_rounds nth_rounds)
  moreover have "distinct b" using c lb distinctOps_iff [of b] by (simp add: tail_cycles_def b_def)
  ultimately show "\<exists>b. length b = p \<and> distinct b \<and> xs = concat (replicate n b)" using lb by blast
next
  assume "\<exists>b. length b = p \<and> distinct b \<and> xs = concat (replicate n b)"
  then obtain b where b: "length b = p" "distinct b" "xs = concat (replicate n b)" by blast
  have "xs ! i = xs ! (i - p)" if "p \<le> i" "i < length xs" for i
    using that len b by (simp add: nth_rounds le_mod_geq)
  moreover have "take p xs = b" using b n by (cases n) simp_all
  ultimately show "tail_cycles p xs"
    using b distinctOps_iff [of b] by (auto simp: tail_cycles_def list_all_iff)
qed

section \<open>The check\<close>

definition rounds :: "int \<Rightarrow> nat \<Rightarrow> nat" where
  "rounds rep p = nat (if p > 1 then max rep 2 else rep)"

definition ends_in_cycle :: "int \<Rightarrow> bytes list \<Rightarrow> nat \<Rightarrow> bool" where
  "ends_in_cycle rep xs p \<longleftrightarrow> (\<exists>pre b. length b = p \<and> distinct b \<and> xs = pre @ concat (replicate (rounds rep p) b))"

lemma need_rounds:
  assumes "0 < rep" "rep < 2 ^ 61" "p \<in> {1, 2, 3}"
  shows "loop_need rep p = int (rounds rep p * p)" "0 < rounds rep p"
  using assms by (auto simp: loop_need_def rounds_def in_int64_def)

lemma find_cycle_iff:
  assumes "0 < rep" "rep < 2 ^ 61" "set ps \<subseteq> {1, 2, 3}"
  shows "find_cycle rep xs ps = Some (\<exists>p \<in> set ps. ends_in_cycle rep xs p)"
  using assms(3)
proof (induction ps)
  case (Cons p ps)
  then have p: "p \<in> {1, 2, 3}" by simp
  note need = need_rounds [OF assms(1,2) p]
  show ?case
  proof (cases "length xs < rounds rep p * p")
    case True
    then have "\<not> ends_in_cycle rep xs p" by (auto simp: ends_in_cycle_def length_rounds mult.commute)
    with True Cons show ?thesis by (simp add: need(1) del: of_nat_mult)
  next
    case False
    define tl' where "tl' = drop (length xs - rounds rep p * p) xs"
    have len: "length tl' = rounds rep p * p" using False by (simp add: tl'_def)
    have "ends_in_cycle rep xs p \<longleftrightarrow> (\<exists>b. length b = p \<and> distinct b \<and> tl' = concat (replicate (rounds rep p) b))"
    proof
      assume "ends_in_cycle rep xs p"
      then obtain pre b where b: "length b = p" "distinct b" "xs = pre @ concat (replicate (rounds rep p) b)"
        by (auto simp: ends_in_cycle_def)
      then have "length xs = length pre + rounds rep p * p" by (simp add: length_rounds)
      then have "tl' = concat (replicate (rounds rep p) b)" unfolding tl'_def by (simp add: b(3))
      with b show "\<exists>b. length b = p \<and> distinct b \<and> tl' = concat (replicate (rounds rep p) b)" by blast
    next
      assume "\<exists>b. length b = p \<and> distinct b \<and> tl' = concat (replicate (rounds rep p) b)"
      then show "ends_in_cycle rep xs p"
        unfolding ends_in_cycle_def tl'_def by (metis append_take_drop_id)
    qed
    also have "\<dots> \<longleftrightarrow> tail_cycles p tl'"
      using tail_cycles_iff [OF _ len need(2)] p by auto
    finally have this_one: "ends_in_cycle rep xs p \<longleftrightarrow> tail_cycles p tl'" .
    have "find_cycle rep xs (p # ps) = (if tail_cycles p tl' then Some True else find_cycle rep xs ps)"
      using False by (simp add: need(1) tl'_def del: of_nat_mult)
    with this_one Cons show ?thesis by auto
  qed
qed simp



text \<open>Three rounds of edit, test, test are not cut, though the same operations come round.\<close>

lemma doubled_cycle_unseen:
  "map_option stoppedBy (checkLoop ((newTurnWatch 0 0 3)\<lparr> ops := concat (replicate 3 [''edit'', ''test'', ''test'']) \<rparr>)) = Some []"
  by code_simp

end
