(* ===== verification/Hooks.thy ===== *)
theory Hooks
  imports Complex_Main LoopGuard GoWords "HOL-Library.List_Lexorder" "HOL-Library.Char_ord"
begin

text \<open>
  The operator's hooks (\<^verbatim>\<open>internal/hooks\<close>: definition.go, matcher.go, payload.go, runner.go): how a
  definition is read, which handlers an event reaches, and how their answers merge. The decoding and
  encoding of JSON, the regular expressions of matchers, \<^verbatim>\<open>%q\<close> and the processes are parameters.
\<close>

section \<open>Events and documents\<close>

definition hook_events :: "bytes list" where
  "hook_events =
     [''SessionStart'', ''UserPromptSubmit'', ''PreToolUse'', ''PostToolUse'', ''PostToolUseFailure'', ''Stop'',
      ''SubagentStart'', ''SubagentStop'', ''PreCompact'', ''PostCompact'', ''Notification'']"

definition KnownEvent :: "bytes \<Rightarrow> bool" where
  "KnownEvent name \<longleftrightarrow> List.member hook_events name"

text \<open>A JSON document; one that was decoded is kept by its encoding (\<open>JDoc\<close>).\<close>

datatype json = JText bytes | JNumber int | JFlag bool | JDoc bytes | JObject "(bytes \<times> json) list"

record hook_subagent =
  hs_Name :: bytes
  hs_ParentSessionID :: bytes
  hs_Depth :: int
  hs_Kind :: bytes

record hook_session =
  hs_ID :: bytes
  hs_CWD :: bytes
  hs_TranscriptPath :: bytes
  hs_PermissionMode :: bytes
  hs_Mode :: bytes
  hs_Model :: bytes
  hs_Turn :: int
  hs_Subagent :: "hook_subagent option"

record hook_event =
  ev_Name :: bytes
  ev_Subject :: bytes
  ev_Fields :: "(bytes \<times> json) list"

definition set_fields :: "(bytes \<times> json) list \<Rightarrow> (bytes \<times> json) list \<Rightarrow> (bytes \<times> json) list" where
  "set_fields extra doc = fold (\<lambda>(k, v). AList.update k v) extra doc"

text \<open>The fields of the event win over those of the session.\<close>

definition hook_payload :: "hook_session \<Rightarrow> bytes \<Rightarrow> (bytes \<times> json) list \<Rightarrow> (bytes \<times> json) list" where
  "hook_payload s event extra =
     set_fields extra
       ([(''session_id'', JText (hs_ID s)), (''hook_event_name'', JText event), (''cwd'', JText (hs_CWD s)),
         (''transcript_path'', JText (hs_TranscriptPath s)), (''permission_mode'', JText (hs_PermissionMode s)),
         (''mode'', JText (hs_Mode s)), (''model'', JText (hs_Model s)), (''turn'', JNumber (hs_Turn s))] @
        (case hs_Subagent s of
           None \<Rightarrow> []
         | Some sub \<Rightarrow>
             [(''subagent'', JObject
               ([(''name'', JText (hs_Name sub)), (''parent_session_id'', JText (hs_ParentSessionID sub)),
                 (''depth'', JNumber (hs_Depth sub))] @
                (if hs_Kind sub \<noteq> [] then [(''kind'', JText (hs_Kind sub))] else [])))]))"

definition ToolEvent :: "bytes \<Rightarrow> bytes \<Rightarrow> json \<Rightarrow> bytes \<Rightarrow> hook_event" where
  "ToolEvent name tool input callID =
     \<lparr> ev_Name = name, ev_Subject = tool,
       ev_Fields = [(''tool_name'', JText tool), (''tool_input'', input), (''tool_use_id'', JText callID)] \<rparr>"

text \<open>\<open>decode\<close> reads one JSON object, kept by its encoding.\<close>

definition ToolInput :: "(bytes \<Rightarrow> bytes option) \<Rightarrow> bytes \<Rightarrow> json" where
  "ToolInput decode argsJSON =
     (case decode argsJSON of None \<Rightarrow> JObject [(''raw'', JText argsJSON)] | Some doc \<Rightarrow> JDoc doc)"

definition PromptEvent :: "bytes \<Rightarrow> hook_event" where
  "PromptEvent prompt = \<lparr> ev_Name = ''UserPromptSubmit'', ev_Subject = [], ev_Fields = [(''prompt'', JText prompt)] \<rparr>"

definition StopEvent :: "bool \<Rightarrow> bytes \<Rightarrow> hook_event" where
  "StopEvent active answer =
     \<lparr> ev_Name = ''Stop'', ev_Subject = [],
       ev_Fields = [(''stop_hook_active'', JFlag active), (''last_assistant_message'', JText answer)] \<rparr>"

definition SessionStartEvent :: "bytes \<Rightarrow> bytes \<Rightarrow> hook_event" where
  "SessionStartEvent source model =
     \<lparr> ev_Name = ''SessionStart'', ev_Subject = source,
       ev_Fields = [(''source'', JText source), (''model'', JText model)] \<rparr>"

definition CompactEvent :: "bytes \<Rightarrow> bytes \<Rightarrow> (bytes \<times> json) list \<Rightarrow> hook_event" where
  "CompactEvent name trigger extra =
     \<lparr> ev_Name = name, ev_Subject = trigger, ev_Fields = set_fields extra [(''trigger'', JText trigger)] \<rparr>"

definition SubagentStartEvent :: "bytes \<Rightarrow> bytes \<Rightarrow> bytes \<Rightarrow> bool \<Rightarrow> hook_event" where
  "SubagentStartEvent name childSessionID prompt background =
     \<lparr> ev_Name = ''SubagentStart'', ev_Subject = name,
       ev_Fields = [(''agent_name'', JText name), (''agent_session_id'', JText childSessionID),
                    (''prompt'', JText prompt), (''background'', JFlag background)] \<rparr>"

definition SubagentStopEvent :: "bytes \<Rightarrow> bytes \<Rightarrow> bytes \<Rightarrow> bytes \<Rightarrow> bytes \<Rightarrow> int \<Rightarrow> hook_event" where
  "SubagentStopEvent name childSessionID taskID status report turns =
     \<lparr> ev_Name = ''SubagentStop'', ev_Subject = name,
       ev_Fields = [(''agent_name'', JText name), (''agent_session_id'', JText childSessionID),
                    (''task_id'', JText taskID), (''status'', JText status), (''report'', JText report),
                    (''turns'', JNumber turns)] \<rparr>"

definition NotificationEvent :: "bytes \<Rightarrow> bytes \<Rightarrow> (bytes \<times> json) list \<Rightarrow> hook_event" where
  "NotificationEvent kind text extra =
     \<lparr> ev_Name = ''Notification'', ev_Subject = kind,
       ev_Fields = set_fields extra [(''notification_type'', JText kind), (''message'', JText text)] \<rparr>"

section \<open>Definitions\<close>

record hook_handler =
  hh_Type :: bytes
  hh_Command :: bytes
  hh_CommandWindows :: bytes
  hh_Args :: "bytes list"
  ExecForm :: bool
  hh_TimeoutSeconds :: int
  hh_Async :: bool
  FailClosed :: bool
  Unsupported :: bytes

record hook_group =
  hg_Matcher :: bytes
  Handlers :: "hook_handler list"

record hook_definition =
  hd_Events :: "(bytes \<times> hook_group list) list"
  hd_Warnings :: "bytes list"

record raw_handler =
  rh_Type :: bytes
  rh_Command :: bytes
  rh_CommandWindows :: bytes
  rh_CommandWindowsSnake :: bytes
  rh_Args :: "bytes list option"
  rh_Timeout :: "rat option"
  rh_Async :: bool
  rh_FailClosed :: "bool option"
  rh_FailClosedSnake :: "bool option"
  rh_If :: bytes

datatype hook_error =
    NotAnObject | BadDocument | HooksNotAnObject | BadHooks | BadEvent bytes | BadHandler bytes nat nat
  | Unreadable

text \<open>What the decoders answer; an absent key and \<^verbatim>\<open>null\<close> leave the zero value.\<close>

record hook_lib =
  json_hooks :: "bytes \<Rightarrow> bytes option"
  json_events :: "bytes \<Rightarrow> (bytes \<times> bytes) list option"
  json_groups :: "bytes \<Rightarrow> (bytes \<times> raw_handler list) list option"
  go_quoted :: "bytes \<Rightarrow> bytes"

text \<open>A timeout below \<open>2 ^ 63\<close> seconds is taken for granted. \<open>None\<close> is the error of a handler without a command.\<close>

definition handler_of :: "hook_lib \<Rightarrow> raw_handler \<Rightarrow> (hook_handler \<times> bytes) option" where
  "handler_of J rh =
     (let given = to_lower (trim_space (rh_Type rh));
          typ = (if given = [] then ''command'' else given);
          windows = trim_space (rh_CommandWindows rh);
          h = \<lparr> hh_Type = typ, hh_Command = trim_space (rh_Command rh),
                hh_CommandWindows = (if windows = [] then trim_space (rh_CommandWindowsSnake rh) else windows),
                hh_Args = (case rh_Args rh of None \<Rightarrow> [] | Some a \<Rightarrow> a), ExecForm = (rh_Args rh \<noteq> None),
                hh_TimeoutSeconds = (case rh_Timeout rh of None \<Rightarrow> 0 | Some t \<Rightarrow> if t > 0 then \<lceil>t\<rceil> else 0),
                hh_Async = rh_Async rh,
                FailClosed = (case rh_FailClosed rh of
                    Some b \<Rightarrow> b
                  | None \<Rightarrow> (case rh_FailClosedSnake rh of Some b \<Rightarrow> b | None \<Rightarrow> False)),
                Unsupported = [] \<rparr>
      in if typ \<noteq> ''command'' then
           (let why = ''handler type '' @ go_quoted J typ @ '' is not supported (only command handlers run)''
            in Some (h\<lparr> Unsupported := why \<rparr>, why))
         else if hh_Command h = [] then None
         else
           (let moot = hh_Async h \<and> FailClosed h;
                warnings =
                  (if moot then [''failClosed is ignored on an async handler: a detached hook can never block''] else []) @
                  (if trim_space (rh_If rh) \<noteq> [] then
                     [''the '' @ [CHR 0x22] @ ''if'' @ [CHR 0x22] @ '' filter '' @ go_quoted J (rh_If rh) @
                      '' is not supported and is ignored: the hook runs for every matching call'']
                   else [])
            in Some (if moot then h\<lparr> FailClosed := False \<rparr> else h, join ''; '' warnings)))"

text \<open>The handlers of a group and the groups of an event, with the warnings; the indexes are those of the first.\<close>

fun read_handlers :: "hook_lib \<Rightarrow> bytes \<Rightarrow> nat \<Rightarrow> nat \<Rightarrow> raw_handler list \<Rightarrow> hook_error + (hook_handler list \<times> bytes list)" where
  "read_handlers J name gi hi [] = Inr ([], [])"
| "read_handlers J name gi hi (rh # rhs) =
     (case handler_of J rh of
        None \<Rightarrow> Inl (BadHandler name gi hi)
      | Some (h, warn) \<Rightarrow>
          (case read_handlers J name gi (Suc hi) rhs of
             Inl e \<Rightarrow> Inl e
           | Inr (hs, ws) \<Rightarrow>
               Inr (h # hs,
                 (if warn \<noteq> [] then [''event '' @ name @ '' group '' @ digits_of gi @ '' hook '' @ digits_of hi @ '': '' @ warn]
                  else []) @ ws)))"

fun read_groups :: "hook_lib \<Rightarrow> bytes \<Rightarrow> nat \<Rightarrow> (bytes \<times> raw_handler list) list \<Rightarrow> hook_error + (hook_group list \<times> bytes list)" where
  "read_groups J name gi [] = Inr ([], [])"
| "read_groups J name gi ((matcher, rhs) # gs) =
     (case read_handlers J name gi 0 rhs of
        Inl e \<Rightarrow> Inl e
      | Inr (hs, ws) \<Rightarrow>
          (case read_groups J name (Suc gi) gs of
             Inl e \<Rightarrow> Inl e
           | Inr (groups, more_ws) \<Rightarrow> Inr (\<lparr> hg_Matcher = trim_space matcher, Handlers = hs \<rparr> # groups, ws @ more_ws)))"

fun read_events :: "hook_lib \<Rightarrow> (bytes \<times> bytes) list \<Rightarrow> hook_error + ((bytes \<times> hook_group list) list \<times> bytes list)" where
  "read_events J [] = Inr ([], [])"
| "read_events J ((name, raw) # rest) =
     (if \<not> KnownEvent name then
        (case read_events J rest of
           Inl e \<Rightarrow> Inl e
         | Inr (evs, ws) \<Rightarrow> Inr (evs, (''event '' @ go_quoted J name @ '' is not supported and was skipped'') # ws))
      else
        (case json_groups J raw of
           None \<Rightarrow> Inl (BadEvent name)
         | Some groups \<Rightarrow>
             (case read_groups J name 0 groups of
                Inl e \<Rightarrow> Inl e
              | Inr (gs, ws) \<Rightarrow>
                  (case read_events J rest of
                     Inl e \<Rightarrow> Inl e
                   | Inr (evs, more_ws) \<Rightarrow> Inr ((if gs = [] then evs else (name, gs) # evs), ws @ more_ws)))))"

text \<open>
  \<^verbatim>\<open>bytes.TrimSpace\<close> cuts the same blanks as \<^verbatim>\<open>strings.TrimSpace\<close>. The events are read in the order of
  their names.
\<close>

definition Parse :: "hook_lib \<Rightarrow> bytes \<Rightarrow> hook_error + hook_definition" where
  "Parse J data =
     (let trimmed = trim_space data in
      if \<not> has_prefix trimmed ''{'' then Inl NotAnObject
      else (case json_hooks J trimmed of
              None \<Rightarrow> Inl BadDocument
            | Some raw \<Rightarrow>
                (let body = trim_space raw in
                 if body = [] \<or> body = ''null'' then Inr \<lparr> hd_Events = [], hd_Warnings = [] \<rparr>
                 else if \<not> has_prefix body ''{'' then Inl HooksNotAnObject
                 else (case json_events J body of
                         None \<Rightarrow> Inl BadHooks
                       | Some evs \<Rightarrow>
                           (case read_events J (sort_key (map (of_char :: char \<Rightarrow> nat) \<circ> fst) evs) of
                              Inl e \<Rightarrow> Inl e
                            | Inr (events, ws) \<Rightarrow> Inr \<lparr> hd_Events = events, hd_Warnings = ws \<rparr>)))))"

section \<open>Matchers\<close>

definition simple_char :: "char \<Rightarrow> bool" where
  "simple_char c \<longleftrightarrow>
     between 0x41 0x5A c \<or> between 0x61 0x7A c \<or> between 0x30 0x39 c \<or> c \<in> {CHR ''_'', CHR ''-'', CHR '','', CHR ''|'', CHR '' ''}"

definition splitAlternatives :: "bytes \<Rightarrow> bytes list" where
  "splitAlternatives m = filter (\<lambda>p. p \<noteq> []) (map trim_space (concat (map (split_on (CHR '','')) (split_on (CHR ''|'') m))))"

text \<open>\<open>regex\<close> compiles an expression; \<open>None\<close> is an invalid one.\<close>

definition hook_Match :: "(bytes \<Rightarrow> (bytes \<Rightarrow> bool) option) \<Rightarrow> bytes \<Rightarrow> bytes \<Rightarrow> bool" where
  "hook_Match regex matcher subject =
     (let m = trim_space matcher in
      if m = [] \<or> m = ''*'' then True
      else if list_all simple_char m then List.member (splitAlternatives m) subject
      else (case regex m of None \<Rightarrow> False | Some matches \<Rightarrow> matches subject))"

definition toolAliases :: "bytes \<Rightarrow> bytes list" where
  "toolAliases tool =
     (case map_of
        [(''run_command'', [''Bash'', ''PowerShell'', ''Shell'']), (''edit'', [''Edit'']), (''write'', [''Write'']),
         (''apply_patch'', [''Edit'', ''Write'']), (''read'', [''Read'']), (''glob'', [''Glob'']), (''grep'', [''Grep'']),
         (''webfetch'', [''WebFetch'']), (''websearch'', [''WebSearch'']), (''spawn_agent'', [''Task'', ''Agent'']),
         (''question'', [''AskUserQuestion'']), (''plan_exit'', [''ExitPlanMode''])] tool of
        None \<Rightarrow> [] | Some names \<Rightarrow> names)"

definition hook_MatchTool :: "(bytes \<Rightarrow> (bytes \<Rightarrow> bool) option) \<Rightarrow> bytes \<Rightarrow> bytes \<Rightarrow> bool" where
  "hook_MatchTool regex matcher tool \<longleftrightarrow>
     hook_Match regex matcher tool \<or> list_ex (hook_Match regex matcher) (toolAliases tool) \<or>
     (str_contains tool ''__'' \<and> \<not> has_prefix tool ''mcp__'' \<and> hook_Match regex matcher (''mcp__'' @ tool))"

definition subjectMatches :: "(bytes \<Rightarrow> (bytes \<Rightarrow> bool) option) \<Rightarrow> hook_event \<Rightarrow> bytes \<Rightarrow> bool" where
  "subjectMatches regex ev matcher =
     (if List.member [''PreToolUse'', ''PostToolUse'', ''PostToolUseFailure''] (ev_Name ev)
      then hook_MatchTool regex matcher (ev_Subject ev)
      else if List.member [''UserPromptSubmit'', ''Stop''] (ev_Name ev) then True
      else hook_Match regex matcher (ev_Subject ev))"

section \<open>The runner\<close>

datatype hook_scope = ScopeUser | ScopeProject

datatype trust_state = TrustTrusted | TrustNeedsApproval

text \<open>A definition file as it was loaded; \<open>src_data\<close> is what its digest was made from, for a file that runs on a receipt.\<close>

record hook_source =
  src_Path :: bytes
  src_Display :: bytes
  src_Scope :: hook_scope
  src_Digest :: bytes
  src_Definition :: "hook_definition option"
  src_Err :: "hook_error option"
  src_Trust :: trust_state
  src_data :: "bytes option"
  src_cwd :: bytes
  withdrawn :: bool

definition Runnable :: "hook_source \<Rightarrow> bool" where
  "Runnable s \<longleftrightarrow> src_Err s = None \<and> src_Definition s \<noteq> None \<and> src_Trust s = TrustTrusted \<and> \<not> withdrawn s"

definition groups_of :: "hook_source \<Rightarrow> bytes \<Rightarrow> hook_group list" where
  "groups_of s name =
     (case src_Definition s of
        None \<Rightarrow> []
      | Some d \<Rightarrow> (case map_of (hd_Events d) name of None \<Rightarrow> [] | Some gs \<Rightarrow> gs))"

definition HasHandlers :: "hook_source list \<Rightarrow> bytes \<Rightarrow> bool" where
  "HasHandlers sources name \<longleftrightarrow>
     list_ex (\<lambda>s. Runnable s \<and> list_ex (\<lambda>g. list_ex (\<lambda>h. Unsupported h = []) (Handlers g)) (groups_of s name)) sources"

text \<open>
  The checks of a source's scripts are numbered: the \<open>k\<close>-th one digests the data, the definition and the folder
  of a source as the files then are. A source without data of its own is not bound to a digest.
\<close>

type_synonym digest_check = "nat \<Rightarrow> bytes \<Rightarrow> hook_definition option \<Rightarrow> bytes \<Rightarrow> bytes"

definition stillApproved :: "digest_check \<Rightarrow> nat \<Rightarrow> hook_source \<Rightarrow> bool" where
  "stillApproved digest_at k s \<longleftrightarrow>
     \<not> withdrawn s \<and>
     (case src_data s of None \<Rightarrow> True | Some data \<Rightarrow> digest_at k data (src_Definition s) (src_cwd s) = src_Digest s)"

text \<open>A check of the \<open>i\<close>-th source, which withdraws it when its scripts have changed.\<close>

definition check_source :: "digest_check \<Rightarrow> nat \<Rightarrow> nat \<Rightarrow> hook_source list \<Rightarrow> bool \<times> hook_source list" where
  "check_source digest_at k i sources =
     (let ok = stillApproved digest_at k (sources ! i) in
      (ok, if ok then sources else sources[i := (sources ! i)\<lparr> withdrawn := True \<rparr>]))"

definition handlers_for :: "(bytes \<Rightarrow> (bytes \<Rightarrow> bool) option) \<Rightarrow> hook_event \<Rightarrow> hook_source \<Rightarrow> hook_handler list" where
  "handlers_for regex ev s =
     concat (map (\<lambda>g. if subjectMatches regex ev (hg_Matcher g) then filter (\<lambda>h. Unsupported h = []) (Handlers g) else [])
       (groups_of s (ev_Name ev)))"

text \<open>The handlers an event reaches, each with the index of its source; with the sources and the next check.\<close>

fun matching :: "(bytes \<Rightarrow> (bytes \<Rightarrow> bool) option) \<Rightarrow> digest_check \<Rightarrow> hook_event \<Rightarrow> nat list
    \<Rightarrow> nat \<times> hook_source list \<Rightarrow> (nat \<times> hook_handler) list \<times> nat \<times> hook_source list" where
  "matching regex digest_at ev [] (k, sources) = ([], k, sources)"
| "matching regex digest_at ev (i # is) (k, sources) =
     (if \<not> Runnable (sources ! i) then matching regex digest_at ev is (k, sources)
      else
        (let (ok, sources) = check_source digest_at k i sources;
             (found, rest) = matching regex digest_at ev is (Suc k, sources)
         in ((if ok then map (Pair i) (handlers_for regex ev (sources ! i)) else []) @ found, rest)))"

text \<open>What one process left behind.\<close>

record exec_result =
  ex_started :: bool
  ex_exitCode :: int
  ex_stdout :: bytes
  ex_stderr :: bytes
  ex_timedOut :: bool
  ex_cancelled :: bool
  ex_timeout :: int
  ex_err :: "bytes option"
  ex_outputDropped :: bool

definition exec_failure :: "bytes \<Rightarrow> exec_result \<Rightarrow> bytes" where
  "exec_failure label res =
     (case (ex_err res, ex_started res) of
        (Some e, False) \<Rightarrow> ''hook in '' @ label @ '' could not start: '' @ e
      | _ \<Rightarrow>
          if ex_timedOut res then ''hook in '' @ label @ '' timed out after '' @ digits_of (nat (ex_timeout res)) @ ''s''
          else if ex_cancelled res then ''hook in '' @ label @ '' was interrupted before it answered''
          else (case ex_err res of Some e \<Rightarrow> ''hook in '' @ label @ '' failed: '' @ e | None \<Rightarrow> []))"

text \<open>The time a handler gets.\<close>

definition exec_seconds :: "int \<Rightarrow> hook_handler \<Rightarrow> int" where
  "exec_seconds configured h =
     (if hh_TimeoutSeconds h > 0 then hh_TimeoutSeconds h else if configured > 0 then configured else 60)"

record hook_specific =
  sp_PermissionDecision :: bytes
  sp_PermissionDecisionReason :: bytes
  sp_UpdatedInput :: "bytes option"
  sp_AdditionalContext :: bytes

record hook_output =
  ho_Continue :: "bool option"
  ho_StopReason :: bytes
  ho_SystemMessage :: bytes
  ho_Decision :: bytes
  ho_Reason :: bytes
  ho_Specific :: "hook_specific option"

record hook_outcome =
  out_Decision :: bytes
  out_Reason :: bytes
  out_UpdatedInput :: "bytes option"
  out_Context :: "bytes list"
  out_SystemMessages :: "bytes list"
  out_Stop :: bool
  out_StopReason :: bytes
  out_Errors :: "bytes list"
  out_Ran :: int

definition no_outcome :: hook_outcome where
  "no_outcome =
     \<lparr> out_Decision = [], out_Reason = [], out_UpdatedInput = None, out_Context = [], out_SystemMessages = [],
       out_Stop = False, out_StopReason = [], out_Errors = [], out_Ran = 0 \<rparr>"

definition Blocked :: "hook_outcome \<Rightarrow> bool" where
  "Blocked out \<longleftrightarrow> out_Decision out = ''deny'' \<or> out_Decision out = ''block''"

text \<open>The settings of a runner, and its parameters: JSON, expressions, the checks and the processes.\<close>

record hook_runner =
  run_Session :: hook_session
  run_TimeoutSeconds :: int
  run_MaxOutputChars :: int
  run_regex :: "bytes \<Rightarrow> (bytes \<Rightarrow> bool) option"
  run_encode :: "(bytes \<times> json) list \<Rightarrow> bytes + bytes"
  run_output :: "bytes \<Rightarrow> bytes + hook_output"
  run_digest :: digest_check
  run_exec :: "nat \<Rightarrow> hook_handler \<Rightarrow> bytes \<Rightarrow> exec_result"

fun rune_start :: "nat \<Rightarrow> bytes \<Rightarrow> nat" where
  "rune_start 0 s = 0"
| "rune_start (Suc n) s = (let w = snd (decode_rune s) in w + rune_start n (drop w s))"

definition hook_truncate :: "hook_runner \<Rightarrow> bytes \<Rightarrow> bytes" where
  "hook_truncate R s =
     (let limit = nat (if run_MaxOutputChars R \<le> 0 then 10000 else run_MaxOutputChars R) in
      if length (runes s) \<le> limit then s
      else take (rune_start limit s) s @ [CHR 0x0A] @ ''[truncated by hooks.max_output_chars]'')"

definition hook_firstLine :: "bytes \<Rightarrow> bytes" where
  "hook_firstLine s = trim_space (takeWhile (\<lambda>c. c \<noteq> CHR 0x0D \<and> c \<noteq> CHR 0x0A) (trim_space s))"

definition decisionRank :: "bytes \<Rightarrow> nat" where
  "decisionRank d = (if d = ''allow'' then 1 else if d = ''ask'' then 2 else if d = ''deny'' \<or> d = ''block'' then 3 else 0)"

definition mergeDecision :: "bytes \<Rightarrow> bytes \<Rightarrow> hook_outcome \<Rightarrow> hook_outcome" where
  "mergeDecision decision reason out =
     (let cur = decisionRank (out_Decision out); next_rank = decisionRank decision in
      if decision = [] then out
      else if next_rank > cur then out\<lparr> out_Decision := decision, out_Reason := reason \<rparr>
      else if next_rank = cur \<and> out_Reason out = [] \<and> reason \<noteq> [] then out\<lparr> out_Reason := reason \<rparr>
      else out)"

definition hook_block :: "bytes \<Rightarrow> bytes \<Rightarrow> hook_outcome \<Rightarrow> hook_outcome" where
  "hook_block event reason out = mergeDecision (if event = ''PreToolUse'' then ''deny'' else ''block'') reason out"

definition hook_fail :: "hook_runner \<Rightarrow> bytes \<Rightarrow> hook_handler \<Rightarrow> bytes \<Rightarrow> hook_outcome \<Rightarrow> hook_outcome" where
  "hook_fail R event h text out =
     (if FailClosed h then hook_block event (hook_truncate R text) out
      else out\<lparr> out_Errors := out_Errors out @ [text] \<rparr>)"

definition output_reason :: "hook_output \<Rightarrow> bytes" where
  "output_reason o' =
     (case ho_Specific o' of
        Some sp \<Rightarrow> (if trim_space (sp_PermissionDecisionReason sp) \<noteq> [] then trim_space (sp_PermissionDecisionReason sp)
                    else trim_space (ho_Reason o'))
      | None \<Rightarrow> trim_space (ho_Reason o'))"

definition or_blocked_by :: "bytes \<Rightarrow> bytes \<Rightarrow> bytes" where
  "or_blocked_by label reason = (if trim_space reason = [] then ''blocked by hook in '' @ label else trim_space reason)"

text \<open>The part of an answer outside \<^verbatim>\<open>hookSpecificOutput\<close>, and the part inside it.\<close>

definition apply_general :: "hook_runner \<Rightarrow> bytes \<Rightarrow> bytes \<Rightarrow> hook_output \<Rightarrow> hook_outcome \<Rightarrow> hook_outcome" where
  "apply_general R event label o' out =
     (let out = (if ho_Continue o' = Some False
                 then out\<lparr> out_Stop := True,
                           out_StopReason := (if out_StopReason out = [] then hook_truncate R (trim_space (ho_StopReason o'))
                                              else out_StopReason out) \<rparr>
                 else out);
          out = (if trim_space (ho_SystemMessage o') \<noteq> []
                 then out\<lparr> out_SystemMessages := out_SystemMessages out @ [hook_truncate R (trim_space (ho_SystemMessage o'))] \<rparr>
                 else out);
          d = to_lower (trim_space (ho_Decision o'))
      in if d = ''block'' \<or> d = ''deny'' then hook_block event (hook_truncate R (or_blocked_by label (ho_Reason o'))) out
         else if (d = ''allow'' \<or> d = ''approve'') \<and> event = ''PreToolUse'' then mergeDecision ''allow'' [] out
         else out)"

definition apply_specific :: "hook_runner \<Rightarrow> bytes \<Rightarrow> bytes \<Rightarrow> hook_specific \<Rightarrow> hook_outcome \<Rightarrow> hook_outcome" where
  "apply_specific R event label sp out =
     (let d = to_lower (trim_space (sp_PermissionDecision sp));
          out = (if d = ''deny'' then hook_block event (hook_truncate R (or_blocked_by label (sp_PermissionDecisionReason sp))) out
                 else if d = ''ask'' then mergeDecision ''ask'' (hook_truncate R (trim_space (sp_PermissionDecisionReason sp))) out
                 else if d = ''allow'' then mergeDecision ''allow'' [] out
                 else out);
          out = (if sp_UpdatedInput sp \<noteq> None \<and> event = ''PreToolUse''
                 then out\<lparr> out_UpdatedInput := sp_UpdatedInput sp \<rparr> else out)
      in if trim_space (sp_AdditionalContext sp) \<noteq> []
         then out\<lparr> out_Context := out_Context out @ [hook_truncate R (trim_space (sp_AdditionalContext sp))] \<rparr>
         else out)"

definition hook_apply :: "hook_runner \<Rightarrow> bytes \<Rightarrow> bytes \<Rightarrow> hook_output \<Rightarrow> hook_outcome \<Rightarrow> hook_outcome" where
  "hook_apply R event label o' out =
     (let out = apply_general R event label o' out in
      case ho_Specific o' of None \<Rightarrow> out | Some sp \<Rightarrow> apply_specific R event label sp out)"

definition blocking_reason :: "hook_runner \<Rightarrow> bytes \<Rightarrow> exec_result \<Rightarrow> bytes" where
  "blocking_reason R label res =
     (let stdout = trim_space (ex_stdout res);
          reason = (if has_prefix stdout ''{''
                    then (case run_output R stdout of Inr o' \<Rightarrow> output_reason o' | Inl _ \<Rightarrow> []) else []);
          reason = (if reason = [] then trim_space (ex_stderr res) else reason)
      in if reason = [] then ''blocked by hook in '' @ label @ '' (exit status 2)'' else reason)"

text \<open>\<^verbatim>\<open>%d\<close>.\<close>

definition decimal :: "int \<Rightarrow> bytes" where
  "decimal n = (if n < 0 then ''-'' @ digits_of (nat (- n)) else digits_of (nat n))"

definition hook_merge :: "hook_runner \<Rightarrow> bytes \<Rightarrow> bytes \<Rightarrow> hook_handler \<Rightarrow> exec_result \<Rightarrow> hook_outcome \<Rightarrow> hook_outcome" where
  "hook_merge R event label h res out =
     (let failure = exec_failure label res; stdout = trim_space (ex_stdout res) in
      if failure \<noteq> [] then hook_fail R event h failure out
      else if ex_exitCode res = 2 then hook_block event (hook_truncate R (blocking_reason R label res)) out
      else if ex_exitCode res \<noteq> 0 then
        hook_fail R event h
          (''hook in '' @ label @ '' exited with exit status '' @ decimal (ex_exitCode res) @
           (if hook_firstLine (ex_stderr res) \<noteq> [] then '': '' @ hook_firstLine (ex_stderr res) else [])) out
      else if has_prefix stdout ''{'' then
        (case run_output R stdout of
           Inl e \<Rightarrow>
             hook_fail R event h
               (if ex_outputDropped res
                then ''hook in '' @ label @ '' printed more than the 256 KiB capture limit; its answer was cut''
                else ''hook in '' @ label @ '' printed invalid JSON: '' @ e) out
         | Inr o' \<Rightarrow> hook_apply R event label o' out)
      else if stdout = [] then out
      else if event = ''SessionStart'' \<or> event = ''UserPromptSubmit''
      then out\<lparr> out_Context := out_Context out @ [hook_truncate R stdout] \<rparr>
      else out)"

text \<open>
  The state of a run: the outcome, the fields the next handler reads, the sources, the number of checks made,
  the processes awaited (with their source, the check before the start, the handler and the result), and the
  detached ones that wait for a slot.
\<close>

record started =
  st_source :: nat
  st_check :: nat
  st_handler :: hook_handler
  st_result :: exec_result

record hook_run =
  hr_out :: hook_outcome
  hr_fields :: "(bytes \<times> json) list"
  hr_sources :: "hook_source list"
  hr_checks :: nat
  hr_started :: "started list"
  hr_detached :: "(nat \<times> hook_handler \<times> bytes) list"

definition run_one :: "hook_runner \<Rightarrow> bytes \<Rightarrow> nat \<times> hook_handler \<Rightarrow> hook_run \<Rightarrow> hook_run" where
  "run_one R event b r =
     (case b of (i, h) \<Rightarrow>
        let label = src_Display (hr_sources r ! i) in
        case run_encode R (hook_payload (run_Session R) event (hr_fields r)) of
          Inl e \<Rightarrow> r\<lparr> hr_out := (hr_out r)\<lparr> out_Errors := out_Errors (hr_out r) @ [''hook in '' @ label @ '': encode payload: '' @ e] \<rparr> \<rparr>
        | Inr text \<Rightarrow>
            if hh_Async h then
              r\<lparr> hr_out := (hr_out r)\<lparr> out_Ran := out_Ran (hr_out r) + 1 \<rparr>, hr_detached := hr_detached r @ [(i, h, text)] \<rparr>
            else
              (let (ok, sources) = check_source (run_digest R) (hr_checks r) i (hr_sources r);
                   r' = r\<lparr> hr_sources := sources, hr_checks := Suc (hr_checks r) \<rparr>
               in if \<not> ok then r'
                  else
                    (let res = run_exec R (length (hr_started r)) h text;
                         out = hook_merge R event label h res ((hr_out r)\<lparr> out_Ran := out_Ran (hr_out r) + 1 \<rparr>)
                     in r'\<lparr> hr_out := out,
                            hr_fields := (case out_UpdatedInput out of
                                None \<Rightarrow> hr_fields r
                              | Some input \<Rightarrow> AList.update ''tool_input'' (JDoc input) (hr_fields r)),
                            hr_started := hr_started r @
                              [\<lparr> st_source = i, st_check = hr_checks r, st_handler = h, st_result = res \<rparr>] \<rparr>)))"

definition hook_Run :: "hook_runner \<Rightarrow> hook_source list \<Rightarrow> nat \<Rightarrow> hook_event \<Rightarrow> hook_run" where
  "hook_Run R sources k ev =
     (case matching (run_regex R) (run_digest R) ev [0..<length sources] (k, sources) of
        (handlers, k, sources) \<Rightarrow>
          fold (run_one R (ev_Name ev)) handlers
            \<lparr> hr_out = no_outcome, hr_fields = ev_Fields ev, hr_sources = sources, hr_checks = k, hr_started = [],
              hr_detached = [] \<rparr>)"

text \<open>A detached handler gets its slot: its source is checked again, and its answer is only logged.\<close>

definition start_detached :: "hook_runner \<Rightarrow> nat \<times> hook_handler \<times> bytes \<Rightarrow> hook_run \<Rightarrow> hook_run" where
  "start_detached R d r =
     (case d of (i, h, text) \<Rightarrow>
        let (ok, sources) = check_source (run_digest R) (hr_checks r) i (hr_sources r);
            r' = r\<lparr> hr_sources := sources, hr_checks := Suc (hr_checks r), hr_detached := remove1 d (hr_detached r) \<rparr>
        in if \<not> ok then r'
           else r'\<lparr> hr_started := hr_started r @
                      [\<lparr> st_source = i, st_check = hr_checks r, st_handler = h,
                         st_result = run_exec R (length (hr_started r)) h text \<rparr>] \<rparr>)"

end
