(* ===== verification/HookTrust.thy ===== *)
theory HookTrust
  imports Hooks Permission
begin

text \<open>
  Which hooks files a session loads and trusts (\<^verbatim>\<open>internal/hooks\<close>: loader.go, script_digest.go, trust.go; the
  workspaces of \<^verbatim>\<open>internal/mcp/trust.go\<close>). The file system is read as snapshots; \<^verbatim>\<open>path/filepath\<close>,
  SHA-256 and the folder of a linked worktree's main checkout are parameters.
\<close>

section \<open>Files and paths\<close>

datatype file_read = FileData bytes | FileMissing | FileUnreadable

datatype file_stat = StatRegular | StatOther | StatMissing | StatFails

record file_view =
  fv_read :: "bytes \<Rightarrow> file_read"
  fv_stat :: "bytes \<Rightarrow> file_stat"
  fv_EvalSymlinks :: "bytes \<Rightarrow> bytes option"
  fv_MainCheckout :: "bytes \<Rightarrow> bytes option"
  fv_UserHome :: "bytes option"

record trust_lib = path_lib +
  fp_Clean :: "bytes \<Rightarrow> bytes"
  fp_Rel :: "bytes \<Rightarrow> bytes \<Rightarrow> bytes option"
  fp_ToSlash :: "bytes \<Rightarrow> bytes"
  fp_Separator :: char
  sha_hex :: "bytes \<Rightarrow> bytes"
  defn_lib :: hook_lib

definition CanonicalWorkspace :: "trust_lib \<Rightarrow> file_view \<Rightarrow> bytes \<Rightarrow> bytes" where
  "CanonicalWorkspace L V dir =
     (let cwd = trim_space dir in
      if cwd = [] then []
      else
        (let abs_path = (case Abs L cwd of Some a \<Rightarrow> a | None \<Rightarrow> fp_Clean L cwd)
         in case fv_EvalSymlinks V abs_path of Some r \<Rightarrow> fp_Clean L r | None \<Rightarrow> fp_Clean L abs_path))"

definition TrustWorkspace :: "trust_lib \<Rightarrow> file_view \<Rightarrow> bytes \<Rightarrow> bytes" where
  "TrustWorkspace L V cwd =
     (let canonical = CanonicalWorkspace L V cwd in
      if canonical = [] then []
      else (case fv_MainCheckout V canonical of Some main \<Rightarrow> CanonicalWorkspace L V main | None \<Rightarrow> canonical))"

definition ReceiptCheckout :: "bytes \<Rightarrow> bytes \<Rightarrow> bytes" where
  "ReceiptCheckout checkout key = (if checkout \<noteq> [] then checkout else key)"

definition under :: "trust_lib \<Rightarrow> bytes \<Rightarrow> bytes \<Rightarrow> bool" where
  "under L path dir \<longleftrightarrow>
     dir \<noteq> [] \<and> path \<noteq> [] \<and> (path = dir \<or> has_prefix path (dir @ [fp_Separator L]))"

definition lexicalPath :: "trust_lib \<Rightarrow> bytes \<Rightarrow> bytes" where
  "lexicalPath L path =
     (let p = trim_space path in
      if p = [] then [] else fp_Clean L (case Abs L p of Some a \<Rightarrow> a | None \<Rightarrow> p))"

definition scopeFor :: "trust_lib \<Rightarrow> file_view \<Rightarrow> bytes \<Rightarrow> bytes \<Rightarrow> bytes \<Rightarrow> hook_scope" where
  "scopeFor L V path workspace lexicalWorkspace =
     (if workspace = [] \<and> lexicalWorkspace = [] then ScopeUser
      else if under L (CanonicalWorkspace L V path) workspace \<or> under L (lexicalPath L path) lexicalWorkspace
      then ScopeProject
      else ScopeUser)"

definition displayFor :: "trust_lib \<Rightarrow> bytes \<Rightarrow> hook_scope \<Rightarrow> bytes \<Rightarrow> bytes" where
  "displayFor L path scope cwd =
     (if scope = ScopeProject then
        (case fp_Rel L (lexicalPath L cwd) path of
           Some rel \<Rightarrow> (if has_prefix rel ''..'' then path else fp_ToSlash L rel)
         | None \<Rightarrow> path)
      else path)"

definition expandFile :: "trust_lib \<Rightarrow> file_view \<Rightarrow> bytes \<Rightarrow> bytes \<Rightarrow> bytes \<Rightarrow> bytes" where
  "expandFile L V given cwd home =
     (let path = trim_space given in
      if path = [] then []
      else
        (let path = (if home \<noteq> [] then replace_all ''${CODDY_HOME}'' home path else path) in
         if trim_space cwd = [] \<and> (str_contains path ''${CWD}'' \<or> \<not> IsAbs L path \<and> \<not> has_prefix path ''~'') then []
         else
           (let path = replace_all ''${CWD}'' cwd path;
                path = (if has_prefix path ''~/'' \<or> path = ''~''
                        then (case fv_UserHome V of
                                Some h \<Rightarrow> Join L h (trim_prefix (trim_prefix path ''~'') ''/'')
                              | None \<Rightarrow> path)
                        else path);
                path = (if \<not> IsAbs L path \<and> cwd \<noteq> [] then Join L cwd path else path)
            in fp_Clean L path)))"

section \<open>The files a hook runs\<close>

text \<open>\<^verbatim>\<open>os.Expand\<close>.\<close>

definition shell_special :: "char \<Rightarrow> bool" where
  "shell_special c \<longleftrightarrow> List.member ''*#$@!?-'' c \<or> between 0x30 0x39 c"

definition shell_alnum :: "char \<Rightarrow> bool" where
  "shell_alnum c \<longleftrightarrow> c = CHR ''_'' \<or> between 0x30 0x39 c \<or> between 0x61 0x7A c \<or> between 0x41 0x5A c"

definition getShellName :: "bytes \<Rightarrow> bytes \<times> nat" where
  "getShellName s =
     (case s of
        [] \<Rightarrow> ([], 0)
      | c # rest \<Rightarrow>
          if c = CHR ''{'' then
            (if length s > 2 \<and> shell_special (s ! 1) \<and> s ! 2 = CHR ''}'' then ([s ! 1], 3)
             else
               (let name = takeWhile (\<lambda>c. c \<noteq> CHR ''}'') rest in
                if length name < length rest then (if name = [] then ([], 2) else (name, length name + 2))
                else ([], 1)))
          else if shell_special c then ([c], 1)
          else (takeWhile shell_alnum s, length (takeWhile shell_alnum s)))"

function os_Expand :: "(bytes \<Rightarrow> bytes) \<Rightarrow> bytes \<Rightarrow> bytes" where
  "os_Expand value_of [] = []"
| "os_Expand value_of (c # rest) =
     (if c = CHR ''$'' \<and> rest \<noteq> [] then
        (case getShellName rest of
           (name, w) \<Rightarrow>
             (if name = [] then (if w > 0 then [] else [c]) else value_of name) @ os_Expand value_of (drop w rest))
      else c # os_Expand value_of rest)"
  by pat_completeness auto
termination by (relation "measure (length \<circ> snd)") auto

text \<open>The words of a shell line.\<close>

record split_state =
  ss_words :: "bytes list"
  ss_cur :: bytes
  ss_quote :: "char option"
  ss_started :: bool
  ss_output :: bool

abbreviation backslash :: char where "backslash \<equiv> CHR 0x5C"
abbreviation dquote :: char where "dquote \<equiv> CHR 0x22"
abbreviation squote :: char where "squote \<equiv> CHR 0x27"
abbreviation backtick :: char where "backtick \<equiv> CHR 0x60"

definition flush_word :: "split_state \<Rightarrow> split_state" where
  "flush_word st =
     (if \<not> ss_started st then st
      else st\<lparr> ss_words := (if ss_output st then ss_words st else ss_words st @ [ss_cur st]), ss_output := False,
               ss_cur := [], ss_started := False \<rparr>)"

definition take_char :: "char \<Rightarrow> split_state \<Rightarrow> split_state" where
  "take_char c st = st\<lparr> ss_cur := ss_cur st @ [c] \<rparr>"

definition word_break :: "char \<Rightarrow> bool" where
  "word_break c \<longleftrightarrow> List.member ([CHR '' '', CHR 0x09, CHR 0x0D, CHR 0x0A, backtick] @ '';&|()<='') c"

function split_line :: "bool \<Rightarrow> bytes \<Rightarrow> split_state \<Rightarrow> split_state" where
  "split_line escapes [] st = flush_word st"
| "split_line escapes (c # rest) st =
     (if ss_quote st = Some c then split_line escapes rest (st\<lparr> ss_quote := None \<rparr>)
      else if ss_quote st = Some dquote \<and> escapes \<and> c = backslash \<and> rest \<noteq> [] \<and>
              List.member [dquote, backslash, CHR ''$'', backtick] (hd rest)
      then split_line escapes (tl rest) (take_char (hd rest) st)
      else if ss_quote st \<noteq> None then split_line escapes rest (take_char c st)
      else if c = dquote \<or> c = squote then split_line escapes rest (st\<lparr> ss_quote := Some c, ss_started := True \<rparr>)
      else if escapes \<and> c = backslash \<and> rest \<noteq> []
      then split_line escapes (tl rest) ((take_char (hd rest) st)\<lparr> ss_started := True \<rparr>)
      else if c = CHR ''>'' then split_line escapes rest ((flush_word st)\<lparr> ss_output := True \<rparr>)
      else if word_break c then split_line escapes rest (flush_word st)
      else split_line escapes rest ((take_char c st)\<lparr> ss_started := True \<rparr>))"
  by pat_completeness auto
termination by (relation "measure (\<lambda>(escapes, s, st). length s)") (auto simp: less_Suc_eq_le)

text \<open>A word that names no other variable than the folder keeps its reference, \<open>${name}\<close>.\<close>

definition from_folder :: "trust_lib \<Rightarrow> bytes \<Rightarrow> bytes \<Rightarrow> bytes list" where
  "from_folder L folder word =
     (if folder = [] then []
      else
        (let moved = os_Expand (\<lambda>name. if name = ''PWD'' then folder else ''${'' @ name @ ''}'') word
         in (if moved \<noteq> word then [moved] else []) @
            (if \<not> IsAbs L word \<and> \<not> has_prefix word ''-'' \<and> CHR ''$'' \<notin> set word then [Join L folder word] else [])))"

fun withCdFolders :: "trust_lib \<Rightarrow> bytes \<Rightarrow> bytes list \<Rightarrow> bytes list" where
  "withCdFolders L folder [] = []"
| "withCdFolders L folder [w] = w # from_folder L folder w"
| "withCdFolders L folder (w # f # rest) =
     (if w = ''cd'' then w # f # withCdFolders L f rest
      else w # from_folder L folder w @ withCdFolders L folder (f # rest))"

definition splitShell :: "trust_lib \<Rightarrow> bool \<Rightarrow> bytes \<Rightarrow> bytes list" where
  "splitShell L escapes line =
     withCdFolders L [] (ss_words (split_line escapes line
       \<lparr> ss_words = [], ss_cur = [], ss_quote = None, ss_started = False, ss_output = False \<rparr>))"

definition shellWords :: "trust_lib \<Rightarrow> bytes \<Rightarrow> bytes list" where
  "shellWords L line = splitShell L True line @ (if backslash \<in> set line then splitShell L False line else [])"

definition handlerTokens :: "trust_lib \<Rightarrow> hook_handler \<Rightarrow> bytes list" where
  "handlerTokens L h =
     concat (map (\<lambda>line. if trim_space line = [] then [] else if ExecForm h then [line] else shellWords L line)
       [hh_Command h, hh_CommandWindows h]) @
     (if ExecForm h then hh_Args h else [])"

text \<open>The file a token names, and its state; \<open>None\<close> when it names none that counts.\<close>

definition scriptState :: "trust_lib \<Rightarrow> file_view \<Rightarrow> bytes \<Rightarrow> bytes \<Rightarrow> (bytes \<times> bytes) option" where
  "scriptState L V token workspace =
     (let tok = trim_space token in
      if tok = [] \<or> has_prefix tok ''-'' then None
      else
        (let tok = os_Expand (\<lambda>name. if List.member [''CODDY_PROJECT_DIR'', ''CLAUDE_PROJECT_DIR'', ''PWD''] name
                                    then workspace else ''${'' @ name @ ''}'') tok
         in if CHR ''$'' \<in> set tok then None
            else
              (let pathLike = (CHR ''/'' \<in> set tok \<or> backslash \<in> set tok);
                   abs_path = fp_Clean L (if IsAbs L tok then tok else Join L workspace tok)
               in case fp_Rel L workspace abs_path of
                    None \<Rightarrow> None
                  | Some r \<Rightarrow>
                      if r = ''..'' \<or> has_prefix r (''..'' @ [fp_Separator L]) then None
                      else
                        (let rel = fp_ToSlash L r in
                         case fv_stat V abs_path of
                           StatMissing \<Rightarrow> if pathLike then Some (rel, ''missing'') else None
                         | StatFails \<Rightarrow> None
                         | StatOther \<Rightarrow> None
                         | StatRegular \<Rightarrow>
                             (case fv_EvalSymlinks V abs_path of
                                Some resolved \<Rightarrow>
                                  if \<not> under L (CanonicalWorkspace L V resolved) (CanonicalWorkspace L V workspace) then None
                                  else Some (rel, case fv_read V abs_path of FileData d \<Rightarrow> sha_hex L d | _ \<Rightarrow> ''unreadable'')
                              | None \<Rightarrow> Some (rel, case fv_read V abs_path of FileData d \<Rightarrow> sha_hex L d | _ \<Rightarrow> ''unreadable''))))))"

text \<open>The handlers of a definition, and the files of the workspace they name.\<close>

definition all_handlers :: "hook_definition \<Rightarrow> hook_handler list" where
  "all_handlers d = concat (map (\<lambda>(name, gs). concat (map Handlers gs)) (hd_Events d))"

definition named_scripts :: "trust_lib \<Rightarrow> file_view \<Rightarrow> hook_definition \<Rightarrow> bytes \<Rightarrow> (bytes \<times> bytes) list" where
  "named_scripts L V d workspace =
     filter (\<lambda>(rel, state). rel \<noteq> [])
       (List.map_filter (\<lambda>tok. scriptState L V tok workspace) (concat (map (handlerTokens L) (all_handlers d))))"

definition script_table :: "trust_lib \<Rightarrow> file_view \<Rightarrow> hook_definition \<Rightarrow> bytes \<Rightarrow> (bytes \<times> bytes) list" where
  "script_table L V d workspace = fold (\<lambda>(rel, state). AList.update rel state) (named_scripts L V d workspace) []"

definition script_block :: "bytes \<times> bytes \<Rightarrow> bytes" where
  "script_block rs = [CHR 0x00] @ ''script'' @ [CHR 0x00] @ fst rs @ [CHR 0x00] @ snd rs"

definition digestWithScripts :: "trust_lib \<Rightarrow> file_view \<Rightarrow> bytes \<Rightarrow> hook_definition option \<Rightarrow> bytes \<Rightarrow> bytes" where
  "digestWithScripts L V data defn cwd =
     (let workspace = lexicalPath L cwd;
          scripts = (case defn of None \<Rightarrow> [] | Some d \<Rightarrow> if workspace = [] then [] else script_table L V d workspace)
      in if scripts = [] then ''sha256:'' @ sha_hex L data
         else ''sha256:'' @ sha_hex L (data @
                concat (map script_block (sort_key (map (of_char :: char \<Rightarrow> nat) \<circ> fst) scripts))))"

section \<open>Loading\<close>

definition trustFor :: "(bytes \<Rightarrow> bytes \<Rightarrow> bytes \<Rightarrow> bool) option \<Rightarrow> bytes \<Rightarrow> bytes \<Rightarrow> bytes \<Rightarrow> bytes \<Rightarrow> hook_source \<Rightarrow> hook_source" where
  "trustFor approved workspace policy cwd data s =
     (if src_Scope s \<noteq> ScopeProject \<or> policy = ''allow'' then s\<lparr> src_Trust := TrustTrusted \<rparr>
      else if src_Err s = None \<and> (case approved of None \<Rightarrow> False | Some f \<Rightarrow> f workspace (src_Display s) (src_Digest s))
      then s\<lparr> src_Trust := TrustTrusted, src_data := Some data, src_cwd := cwd \<rparr>
      else s\<lparr> src_Trust := TrustNeedsApproval \<rparr>)"

text \<open>One file; \<open>None\<close> is a file that is skipped.\<close>

definition load_file :: "trust_lib \<Rightarrow> file_view \<Rightarrow> (bytes \<Rightarrow> bytes \<Rightarrow> bytes \<Rightarrow> bool) option \<Rightarrow> bytes \<Rightarrow> bytes \<Rightarrow> bytes \<Rightarrow> hook_source option" where
  "load_file L V approved policy cwd path =
     (let workspace = CanonicalWorkspace L V cwd;
          scope = scopeFor L V path workspace (lexicalPath L cwd);
          src = \<lparr> src_Path = path, src_Display = displayFor L path scope cwd, src_Scope = scope, src_Digest = [],
                  src_Definition = None, src_Err = None, src_Trust = TrustNeedsApproval, src_data = None, src_cwd = [],
                  withdrawn = False \<rparr>
      in if scope = ScopeProject \<and> policy = ''deny'' then None
         else (case fv_read V path of
                 FileMissing \<Rightarrow> None
               | FileUnreadable \<Rightarrow> Some (src\<lparr> src_Err := Some Unreadable \<rparr>)
               | FileData data \<Rightarrow>
                   (let plain = ''sha256:'' @ sha_hex L data;
                        src = (case Parse (defn_lib L) data of
                            Inl e \<Rightarrow> src\<lparr> src_Digest := plain, src_Err := Some e \<rparr>
                          | Inr d \<Rightarrow> src\<lparr> src_Definition := Some d,
                              src_Digest := (if scope = ScopeProject then digestWithScripts L V data (Some d) cwd else plain) \<rparr>)
                    in Some (trustFor approved workspace policy cwd data src))))"

fun load_files :: "trust_lib \<Rightarrow> file_view \<Rightarrow> (bytes \<Rightarrow> bytes \<Rightarrow> bytes \<Rightarrow> bool) option \<Rightarrow> bytes \<Rightarrow> bytes \<Rightarrow> bytes \<Rightarrow> bytes list
    \<Rightarrow> bytes list \<Rightarrow> hook_source list" where
  "load_files L V approved policy cwd home seen [] = []"
| "load_files L V approved policy cwd home seen (raw # rest) =
     (let path = expandFile L V raw cwd home in
      if path = [] \<or> List.member seen path then load_files L V approved policy cwd home seen rest
      else (case load_file L V approved policy cwd path of None \<Rightarrow> [] | Some s \<Rightarrow> [s]) @
           load_files L V approved policy cwd home (path # seen) rest)"

text \<open>\<open>given\<close> is the policy as configured.\<close>

definition loader_policy :: "bytes \<Rightarrow> bytes" where
  "loader_policy given = (let policy = to_lower (trim_space given) in if policy = [] then ''ask'' else policy)"

definition Load :: "trust_lib \<Rightarrow> file_view \<Rightarrow> (bytes \<Rightarrow> bytes \<Rightarrow> bytes \<Rightarrow> bool) option \<Rightarrow> bytes \<Rightarrow> bytes \<Rightarrow> bytes \<Rightarrow> bytes list \<Rightarrow> hook_source list" where
  "Load L V approved given cwd home files =
     load_files L V approved (loader_policy given) cwd home [] files"

section \<open>Receipts\<close>

record trust_record =
  tr_File :: bytes
  tr_Digest :: bytes
  tr_ApprovedAt :: bytes
  tr_Checkout :: bytes

text \<open>The receipts by workspace; a file that cannot be read or decoded holds none (\<open>None\<close>).\<close>

type_synonym trust_file = "(bytes \<times> trust_record list) list"

definition receipts :: "trust_file option \<Rightarrow> bytes \<Rightarrow> trust_record list" where
  "receipts store workspace =
     (case store of
        None \<Rightarrow> []
      | Some f \<Rightarrow> (case map_of f workspace of None \<Rightarrow> [] | Some rs \<Rightarrow> rs))"

definition store_Approved :: "trust_lib \<Rightarrow> file_view \<Rightarrow> trust_file option \<Rightarrow> bytes \<Rightarrow> bytes \<Rightarrow> bytes \<Rightarrow> bool" where
  "store_Approved L V store dir file digest =
     (let workspace = TrustWorkspace L V dir in
      if workspace = [] \<or> file = [] \<or> digest = [] then False
      else list_ex (\<lambda>rec. tr_File rec = file \<and> tr_Digest rec = digest) (receipts store workspace))"

datatype trust_error = NothingToApprove | NeedsNoApproval | InvalidFile | NoKey | StoreNotLocked | StoreNotWritten

text \<open>\<open>locked\<close> and \<open>written\<close> tell whether the lock and the replacement of the file succeed; \<open>now\<close> is the time.\<close>

definition put_receipts :: "bool \<Rightarrow> trust_file \<Rightarrow> trust_file option \<Rightarrow> trust_error option \<times> trust_file option" where
  "put_receipts written new store = (if written then (None, Some new) else (Some StoreNotWritten, store))"

definition Approve :: "trust_lib \<Rightarrow> file_view \<Rightarrow> bool \<Rightarrow> bool \<Rightarrow> bytes \<Rightarrow> bytes \<Rightarrow> hook_source option \<Rightarrow> trust_file option
    \<Rightarrow> trust_error option \<times> trust_file option" where
  "Approve L V locked written now dir source store =
     (let checkout = CanonicalWorkspace L V dir; workspace = TrustWorkspace L V dir in
      case source of
        None \<Rightarrow> (Some NothingToApprove, store)
      | Some src \<Rightarrow>
          if src_Scope src \<noteq> ScopeProject then (Some NeedsNoApproval, store)
          else if src_Err src \<noteq> None then (Some InvalidFile, store)
          else if trim_space workspace = [] \<or> src_Digest src = [] then (Some NoKey, store)
          else if \<not> locked then (Some StoreNotLocked, store)
          else
            put_receipts written
              (AList.update workspace
                 (filter (\<lambda>rec. tr_File rec \<noteq> src_Display src \<or> ReceiptCheckout (tr_Checkout rec) workspace \<noteq> checkout)
                    (receipts store workspace) @
                  [\<lparr> tr_File = src_Display src, tr_Digest = src_Digest src, tr_ApprovedAt = now, tr_Checkout = checkout \<rparr>])
                 (case store of None \<Rightarrow> [] | Some f \<Rightarrow> f)) store)"

definition store_Revoke :: "trust_lib \<Rightarrow> file_view \<Rightarrow> bool \<Rightarrow> bool \<Rightarrow> bytes \<Rightarrow> bytes \<Rightarrow> trust_file option
    \<Rightarrow> (bool \<times> trust_error option) \<times> trust_file option" where
  "store_Revoke L V locked written dir file store =
     (let workspace = TrustWorkspace L V dir in
      if \<not> locked then ((False, Some StoreNotLocked), store)
      else
        (let left = filter (\<lambda>rec. tr_File rec \<noteq> file) (receipts store workspace) in
         if left = receipts store workspace then ((False, None), store)
         else
           (case put_receipts written
                (let f = (case store of None \<Rightarrow> [] | Some f \<Rightarrow> f) in
                 if left = [] then AList.delete workspace f else AList.update workspace left f) store of
              (e, store') \<Rightarrow> ((True, e), store'))))"

end
