(* ===== verification/Hooks_Correct.thy ===== *)
theory Hooks_Correct
  imports HookTrust
begin

text \<open>
  The strictest answer of an event's hooks wins, whatever their order; and a hook runs only while what the
  operator trusted is what is on disk.
\<close>

section \<open>The strictest answer\<close>

named_theorems ranks

lemma rank_merge [ranks]: "decisionRank (out_Decision (mergeDecision d reason out)) = max (decisionRank (out_Decision out)) (decisionRank d)"
  by (auto simp: mergeDecision_def Let_def decisionRank_def)

lemma rank_block [ranks]: "decisionRank (out_Decision (hook_block event reason out)) = max (decisionRank (out_Decision out)) 3"
  by (simp add: hook_block_def ranks) (simp add: decisionRank_def)

lemma rank_words [ranks]: "decisionRank [] = 0" "decisionRank ''allow'' = 1" "decisionRank ''ask'' = 2"
  by (simp_all add: decisionRank_def)

lemma rank_no_outcome [ranks]: "decisionRank (out_Decision no_outcome) = 0"
  by (simp add: no_outcome_def ranks)

lemma rank_fail [ranks]:
  "decisionRank (out_Decision (hook_fail R event h text out)) = max (decisionRank (out_Decision out)) (if FailClosed h then 3 else 0)"
  by (simp add: hook_fail_def ranks)

lemma rank_general [ranks]:
  "decisionRank (out_Decision (apply_general R event label o' out)) =
     max (decisionRank (out_Decision out)) (decisionRank (out_Decision (apply_general R event label o' no_outcome)))"
  by (simp add: apply_general_def Let_def ranks)

lemma rank_specific [ranks]:
  "decisionRank (out_Decision (apply_specific R event label sp out)) =
     max (decisionRank (out_Decision out)) (decisionRank (out_Decision (apply_specific R event label sp no_outcome)))"
  by (simp add: apply_specific_def Let_def ranks)

lemma rank_apply:
  "decisionRank (out_Decision (hook_apply R event label o' out)) =
     max (decisionRank (out_Decision out)) (decisionRank (out_Decision (hook_apply R event label o' no_outcome)))"
proof (cases "ho_Specific o'")
  case None
  then show ?thesis by (simp add: hook_apply_def Let_def rank_general [of R event label o' out])
next
  case (Some sp)
  then show ?thesis
    by (simp add: hook_apply_def Let_def rank_specific [of R event label sp "apply_general R event label o' out"]
          rank_specific [of R event label sp "apply_general R event label o' no_outcome"] rank_general [of R event label o' out] max.assoc)
qed

text \<open>What one handler says on its own.\<close>

definition lone_answer :: "hook_runner \<Rightarrow> hook_source list \<Rightarrow> bytes \<Rightarrow> started \<Rightarrow> hook_outcome" where
  "lone_answer R sources event st =
     hook_merge R event (src_Display (sources ! st_source st)) (st_handler st) (st_result st) no_outcome"

lemma rank_hook_merge:
  "decisionRank (out_Decision (hook_merge R event label h res out)) =
     max (decisionRank (out_Decision out)) (decisionRank (out_Decision (hook_merge R event label h res no_outcome)))"
  by (simp add: hook_merge_def Let_def rank_fail rank_block rank_no_outcome rank_apply [of R _ label _ out] split: sum.split)

lemma rank_blocked: "Blocked out \<longleftrightarrow> decisionRank (out_Decision out) = 3"
  by (auto simp: Blocked_def decisionRank_def)

section \<open>What a run keeps\<close>

definition steady :: "hook_source \<Rightarrow> hook_source" where "steady s = s\<lparr> withdrawn := False \<rparr>"

abbreviation same_sources :: "hook_source list \<Rightarrow> hook_source list \<Rightarrow> bool" where
  "same_sources new sources \<equiv> map steady new = map steady sources"

lemma steady_fields [simp]:
  "src_Path (steady s) = src_Path s" "src_Display (steady s) = src_Display s" "src_Scope (steady s) = src_Scope s"
  "src_Digest (steady s) = src_Digest s" "src_Definition (steady s) = src_Definition s" "src_Err (steady s) = src_Err s"
  "src_Trust (steady s) = src_Trust s" "src_data (steady s) = src_data s" "src_cwd (steady s) = src_cwd s"
  by (simp_all add: steady_def)

lemma same_nth: "\<lbrakk> same_sources new sources; i < length sources \<rbrakk> \<Longrightarrow> steady (new ! i) = steady (sources ! i)"
  by (metis length_map nth_map)

lemma same_length: "same_sources new sources \<Longrightarrow> length new = length sources"
  by (metis length_map)

lemma check_same: "same_sources (snd (check_source d k i sources)) sources"
proof (cases "i < length sources")
  case True
  then have "steady ((sources ! i)\<lparr> withdrawn := True \<rparr>) = map steady sources ! i" by (simp add: steady_def)
  then show ?thesis by (simp add: check_source_def Let_def map_update list_update_id)
qed (simp add: check_source_def Let_def list_update_beyond)

text \<open>A source bound to a digest has it at the \<open>k\<close>-th check.\<close>

definition bound_now :: "digest_check \<Rightarrow> nat \<Rightarrow> hook_source \<Rightarrow> bool" where
  "bound_now d k s \<longleftrightarrow>
     (case src_data s of None \<Rightarrow> True | Some data \<Rightarrow> d k data (src_Definition s) (src_cwd s) = src_Digest s)"

lemma bound_now_steady: "bound_now d k (steady s) = bound_now d k s"
  by (cases "src_data s") (simp_all add: bound_now_def)

lemma check_approved:
  "\<lbrakk> fst (check_source d k i new); same_sources new sources; i < length sources \<rbrakk> \<Longrightarrow>
   bound_now d k (sources ! i)"
  using same_nth [of new sources i] bound_now_steady [of d k "sources ! i"] bound_now_steady [of d k "new ! i"]
  by (simp add: check_source_def Let_def stillApproved_def bound_now_def [of d k "new ! i"])

section \<open>The rows of a run\<close>

definition strictest :: "nat list \<Rightarrow> nat" where "strictest ns = foldr max ns 0"

lemma strictest_snoc [simp]: "strictest (ns @ [n]) = max (strictest ns) n" "strictest [] = 0"
proof -
  have "foldr max ns n = max (foldr max ns 0) n" by (induction ns) auto
  then show "strictest (ns @ [n]) = max (strictest ns) n" by (simp add: strictest_def)
qed (simp add: strictest_def)

text \<open>A handler the event reached: of a source that could run, in one of its groups.\<close>

definition reached :: "hook_runner \<Rightarrow> hook_source list \<Rightarrow> hook_event \<Rightarrow> nat \<Rightarrow> hook_handler \<Rightarrow> bool" where
  "reached R sources ev i h \<longleftrightarrow>
     i < length sources \<and> Runnable (sources ! i) \<and> List.member (handlers_for (run_regex R) ev (sources ! i)) h"

text \<open>A process: its handler was reached, and the check before its start found the source as it was approved.\<close>

definition rightly_started :: "hook_runner \<Rightarrow> hook_source list \<Rightarrow> hook_event \<Rightarrow> started \<Rightarrow> bool" where
  "rightly_started R sources ev st \<longleftrightarrow>
     (let s = sources ! st_source st in
      reached R sources ev (st_source st) (st_handler st) \<and>
      bound_now (run_digest R) (st_check st) s)"

definition run_ok :: "hook_runner \<Rightarrow> hook_source list \<Rightarrow> hook_event \<Rightarrow> hook_run \<Rightarrow> bool" where
  "run_ok R sources ev r \<longleftrightarrow>
     same_sources (hr_sources r) sources \<and>
     list_all (rightly_started R sources ev) (hr_started r) \<and>
     list_all (\<lambda>(i, h, text). reached R sources ev i h \<and> hh_Async h) (hr_detached r) \<and>
     decisionRank (out_Decision (hr_out r)) =
       strictest (map (\<lambda>st. decisionRank (out_Decision (lone_answer R sources (ev_Name ev) st)))
         (filter (\<lambda>st. \<not> hh_Async (st_handler st)) (hr_started r)))"

lemma run_one_ok:
  assumes "run_ok R sources ev r" "reached R sources ev i h"
  shows "run_ok R sources ev (run_one R (ev_Name ev) (i, h) r)"
proof (cases "run_encode R (hook_payload (run_Session R) (ev_Name ev) (hr_fields r))")
  case (Inl e)
  then show ?thesis using assms(1) by (simp add: run_one_def run_ok_def Let_def)
next
  case (Inr doc)
  have same: "same_sources (hr_sources r) sources" and i: "i < length sources" using assms by (auto simp: run_ok_def reached_def)
  show ?thesis
  proof (cases "hh_Async h")
    case True
    then show ?thesis using assms(1,2) Inr by (simp add: run_one_def run_ok_def Let_def)
  next
    case False
    obtain ok new where c: "check_source (run_digest R) (hr_checks r) i (hr_sources r) = (ok, new)" by fastforce
    have new: "same_sources new sources" using check_same [of "run_digest R" "hr_checks r" i "hr_sources r"] same c by simp
    have label: "src_Display (hr_sources r ! i) = src_Display (sources ! i)"
      using same_nth [OF same i] by (metis steady_fields(2))
    show ?thesis
    proof (cases ok)
      case True
      define st where "st = \<lparr> st_source = i, st_check = hr_checks r, st_handler = h, st_result = run_exec R (length (hr_started r)) h doc \<rparr>"
      have "rightly_started R sources ev st"
        using check_approved [of "run_digest R" "hr_checks r" i "hr_sources r", OF _ same i] c True assms(2)
        by (simp add: rightly_started_def st_def)
      moreover have "decisionRank (out_Decision (hook_merge R (ev_Name ev) (src_Display (sources ! i)) h (st_result st) out)) =
          max (decisionRank (out_Decision out)) (decisionRank (out_Decision (lone_answer R sources (ev_Name ev) st)))" for out
        by (subst rank_hook_merge) (simp add: lone_answer_def st_def)
      ultimately show ?thesis
        using assms(1) Inr False c True new
        by (simp add: run_one_def run_ok_def Let_def label st_def)
    next
      case False
      then show ?thesis using assms(1) Inr \<open>\<not> hh_Async h\<close> c new by (simp add: run_one_def run_ok_def Let_def)
    qed
  qed
qed


lemma run_all_ok:
  assumes "\<forall>(i, h) \<in> set bs. reached R sources ev i h" "run_ok R sources ev r"
  shows "run_ok R sources ev (fold (run_one R (ev_Name ev)) bs r)"
  using assms
proof (induction bs arbitrary: r)
  case (Cons b bs)
  then show ?case using run_one_ok by (cases b) auto
qed simp

lemma start_detached_ok:
  assumes "run_ok R sources ev r" "List.member (hr_detached r) d"
  shows "run_ok R sources ev (start_detached R d r)"
proof -
  obtain i h doc where d: "d = (i, h, doc)" by (metis prod_cases3)
  have same: "same_sources (hr_sources r) sources" and h: "reached R sources ev i h" "hh_Async h"
    using assms(1,2) by (auto simp: run_ok_def d list_all_iff)
  then have i: "i < length sources" by (simp add: reached_def)
  obtain ok new where c: "check_source (run_digest R) (hr_checks r) i (hr_sources r) = (ok, new)" by fastforce
  have new: "same_sources new sources" using check_same [of "run_digest R" "hr_checks r" i "hr_sources r"] same c by simp
  have rest: "list_all (\<lambda>(i, h, text). reached R sources ev i h \<and> hh_Async h) (remove1 d (hr_detached r))"
    using assms(1) set_remove1_subset [of d "hr_detached r"] unfolding run_ok_def list_all_iff by blast
  show ?thesis
    using assms(1) c new rest h check_approved [of "run_digest R" "hr_checks r" i "hr_sources r" sources, OF _ same i]
    by (auto simp: start_detached_def run_ok_def Let_def d rightly_started_def)
qed

section \<open>What is reached\<close>

lemma Runnable_steady: "Runnable s \<longleftrightarrow> Runnable (steady s) \<and> \<not> withdrawn s"
  by (simp add: Runnable_def steady_def)

text \<open>A source that was withdrawn stays so.\<close>

definition later :: "hook_source list \<Rightarrow> hook_source list \<Rightarrow> bool" where
  "later new sources \<longleftrightarrow> same_sources new sources \<and> (\<forall>i < length sources. withdrawn (sources ! i) \<longrightarrow> withdrawn (new ! i))"

lemma later_runs: "\<lbrakk> later new sources; i < length sources; Runnable (new ! i) \<rbrakk> \<Longrightarrow> Runnable (sources ! i)"
  using same_nth [of new sources i] by (auto simp: later_def Runnable_steady [of "new ! i"] Runnable_steady [of "sources ! i"])

lemma later_check: "\<lbrakk> later new sources; check_source d k i new = (ok, new') \<rbrakk> \<Longrightarrow> later new' sources"
  using check_same [of d k i new] same_length [of new sources]
  by (cases "i < length new") (auto simp: later_def check_source_def Let_def nth_list_update list_update_beyond split: if_splits)

lemma handlers_steady: "handlers_for regex ev (steady s) = handlers_for regex ev s"
  by (simp add: handlers_for_def groups_of_def)

lemma matching_reached:
  "\<lbrakk> later new sources; \<forall>i \<in> set is. i < length sources; matching regex d ev is (k, new) = (found, k', left) \<rbrakk> \<Longrightarrow>
   later left sources \<and> (\<forall>(i, h) \<in> set found. i < length sources \<and> Runnable (sources ! i) \<and>
     List.member (handlers_for regex ev (sources ! i)) h)"
proof (induction "is" arbitrary: k new found)
  case (Cons i "is")
  show ?case
  proof (cases "Runnable (new ! i)")
    case False
    then show ?thesis using Cons by auto
  next
    case True
    obtain ok new' where c: "check_source d k i new = (ok, new')" by fastforce
    obtain found' where m: "matching regex d ev is (Suc k, new') = (found', k', left)"
        "found = (if ok then map (Pair i) (handlers_for regex ev (new' ! i)) else []) @ found'"
      using Cons.prems(3) True c by (auto split: prod.splits)
    have new': "later new' sources" using later_check Cons.prems(1) c by blast
    have i: "i < length sources" "Runnable (sources ! i)" using Cons.prems(2) later_runs [OF Cons.prems(1) _ True] by auto
    have "same_sources new' sources" using new' unfolding later_def by (rule conjunct1)
    from same_nth [OF this i(1)]
    have "handlers_for regex ev (new' ! i) = handlers_for regex ev (sources ! i)" by (metis handlers_steady)
    moreover have "later left sources \<and> (\<forall>(i, h) \<in> set found'. i < length sources \<and> Runnable (sources ! i) \<and>
        List.member (handlers_for regex ev (sources ! i)) h)"
      using Cons.IH [OF new' _ m(1)] Cons.prems(2) by simp
    ultimately show ?thesis using i unfolding m(2) by (cases ok) auto
  qed
qed simp

lemma Run_ok: "run_ok R sources ev (hook_Run R sources k ev)"
proof -
  obtain found k' left where m: "matching (run_regex R) (run_digest R) ev [0..<length sources] (k, sources) = (found, k', left)"
    by (metis prod_cases3)
  have "later left sources" "\<forall>(i, h) \<in> set found. reached R sources ev i h"
    using matching_reached [OF _ _ m, of sources] by (auto simp: later_def reached_def)
  then show ?thesis
    by (simp add: hook_Run_def m) (intro run_all_ok, auto simp: run_ok_def later_def ranks)
qed

text \<open>What may follow a run: detached handlers get their slots, in any order.\<close>

inductive after_run :: "hook_runner \<Rightarrow> hook_run \<Rightarrow> hook_run \<Rightarrow> bool" for R where
  Awaited: "after_run R r r"
| Detached: "\<lbrakk> after_run R r r'; List.member (hr_detached r') d \<rbrakk> \<Longrightarrow> after_run R r (start_detached R d r')"

lemma after_run_ok:
  assumes "after_run R r r'" "run_ok R sources ev r"
  shows "run_ok R sources ev r'"
  using assms by (induction rule: after_run.induct) (auto intro: start_detached_ok)


section \<open>What the operator trusted\<close>

text \<open>A source that may run, as it was loaded.\<close>

definition rightly_loaded :: "trust_lib \<Rightarrow> file_view \<Rightarrow> (bytes \<Rightarrow> bytes \<Rightarrow> bytes \<Rightarrow> bool) \<Rightarrow> bytes \<Rightarrow> bytes \<Rightarrow> hook_source \<Rightarrow> bool" where
  "rightly_loaded L V approved policy cwd s \<longleftrightarrow>
     (\<exists>data d. fv_read V (src_Path s) = FileData data \<and> Parse (defn_lib L) data = Inr d \<and> src_Definition s = Some d \<and>
        (src_Scope s = ScopeUser \<or>
         (policy = ''allow'' \<or> policy \<noteq> ''deny'' \<and> approved (CanonicalWorkspace L V cwd) (src_Display s) (src_Digest s) \<and>
            src_data s = Some data \<and> src_cwd s = cwd)))"

lemma load_file_rightly:
  "\<lbrakk> load_file L V (Some approved) policy cwd path = Some s; Runnable s \<rbrakk> \<Longrightarrow> rightly_loaded L V approved policy cwd s"
  by (auto simp: load_file_def Let_def trustFor_def Runnable_def rightly_loaded_def
      split: if_splits file_read.splits sum.splits) (metis hook_scope.exhaust)+

lemma load_files_rightly:
  "\<lbrakk> s \<in> set (load_files L V (Some approved) policy cwd home seen files); Runnable s \<rbrakk> \<Longrightarrow> rightly_loaded L V approved policy cwd s"
proof (induction files arbitrary: seen)
  case (Cons raw files)
  show ?case
  proof (cases "s \<in> set (load_files L V (Some approved) policy cwd home seen files) \<or>
      s \<in> set (load_files L V (Some approved) policy cwd home (expandFile L V raw cwd home # seen) files)")
    case True
    then show ?thesis using Cons.IH Cons.prems(2) by blast
  next
    case False
    then have "load_file L V (Some approved) policy cwd (expandFile L V raw cwd home) = Some s"
      using Cons.prems(1) by (auto simp: Let_def split: if_splits option.splits)
    then show ?thesis using load_file_rightly Cons.prems(2) by blast
  qed
qed simp

lemma groups_handlers:
  assumes "g \<in> set gs" "map_of (hd_Events d) name = Some gs" "h \<in> set (Handlers g)"
  shows "h \<in> set (all_handlers d)"
proof -
  have "(name, gs) \<in> set (hd_Events d)" using assms(2) by (rule map_of_SomeD)
  moreover have "h \<in> set (concat (map Handlers gs))" using assms(1,3) by auto
  ultimately show ?thesis unfolding all_handlers_def set_concat set_map by (intro UN_I [of "concat (map Handlers gs)"] image_eqI [of _ _ "(name, gs)"]) auto
qed

lemma handlers_of_definition:
  assumes "List.member (handlers_for regex ev s) h" "src_Definition s = Some d"
  shows "List.member (all_handlers d) h \<and> Unsupported h = []"
proof -
  obtain g where g: "g \<in> set (groups_of s (ev_Name ev))" "h \<in> set (Handlers g)" "Unsupported h = []"
    using assms(1) by (auto simp: handlers_for_def split: if_splits)
  then obtain gs where "map_of (hd_Events d) (ev_Name ev) = Some gs" "g \<in> set gs"
    using assms(2) by (cases "map_of (hd_Events d) (ev_Name ev)") (auto simp: groups_of_def)
  then show ?thesis using groups_handlers g by simp
qed


section \<open>Receipts\<close>

lemma receipts_update: "receipts (Some (AList.update w rs f)) v = (if v = w then rs else receipts (Some f) v)"
  by (simp add: receipts_def update_conv')

lemma receipts_delete: "receipts (Some (AList.delete w f)) v = (if v = w then [] else receipts (Some f) v)"
  by (simp add: receipts_def delete_conv')

lemma receipts_or_none: "receipts (Some (case store of None \<Rightarrow> [] | Some f \<Rightarrow> f)) v = receipts store v"
  by (cases store) (simp_all add: receipts_def)

lemma approve_writes:
  assumes "Approve L V locked written now dir (Some src) store = (None, store')"
  shows "receipts store' v =
    (if v = TrustWorkspace L V dir
     then filter (\<lambda>rec. tr_File rec \<noteq> src_Display src \<or> ReceiptCheckout (tr_Checkout rec) v \<noteq> CanonicalWorkspace L V dir) (receipts store v) @
       [\<lparr> tr_File = src_Display src, tr_Digest = src_Digest src, tr_ApprovedAt = now, tr_Checkout = CanonicalWorkspace L V dir \<rparr>]
     else receipts store v) \<and> src_Scope src = ScopeProject \<and> src_Err src = None \<and> TrustWorkspace L V dir \<noteq> [] \<and> src_Digest src \<noteq> []"
  using assms by (auto simp: Approve_def put_receipts_def Let_def receipts_update receipts_or_none split: if_splits)

lemma approve_binds:
  assumes "Approve L V locked written now dir (Some src) store = (None, store')" "src_Display src \<noteq> []"
  shows "store_Approved L V store' dir (src_Display src) (src_Digest src)"
    and "file \<noteq> src_Display src \<Longrightarrow> store_Approved L V store' dir file digest = store_Approved L V store dir file digest"
    and "TrustWorkspace L V other \<noteq> TrustWorkspace L V dir \<Longrightarrow>
      store_Approved L V store' other file digest = store_Approved L V store other file digest"
  using approve_writes [OF assms(1)] assms(2) by (auto simp: store_Approved_def Let_def list_ex_iff)

lemma revoke_forgets:
  assumes "store_Revoke L V locked written dir file store = ((removed, None), store')"
  shows "\<not> store_Approved L V store' dir file digest"
    and "f \<noteq> file \<Longrightarrow> store_Approved L V store' dir f digest = store_Approved L V store dir f digest"
proof -
  let ?w = "TrustWorkspace L V dir"
  let ?left = "filter (\<lambda>rec. tr_File rec \<noteq> file) (receipts store ?w)"
  have "receipts store' ?w = ?left"
    using assms receipts_or_none [of store ?w]
    by (auto simp: store_Revoke_def put_receipts_def Let_def receipts_update receipts_delete split: if_splits prod.splits)
  then show "\<not> store_Approved L V store' dir file digest"
    and "f \<noteq> file \<Longrightarrow> store_Approved L V store' dir f digest = store_Approved L V store dir f digest"
    by (auto simp: store_Approved_def Let_def list_ex_iff)
qed

section \<open>Witnesses\<close>

definition demo_raw :: raw_handler where
  "demo_raw = \<lparr> rh_Type = [], rh_Command = ''sh check.sh'', rh_CommandWindows = [], rh_CommandWindowsSnake = [], rh_Args = None,
     rh_Timeout = None, rh_Async = False, rh_FailClosed = Some True, rh_FailClosedSnake = None, rh_If = [] \<rparr>"

definition demo_defn :: hook_lib where
  "demo_defn = \<lparr> json_hooks = Some, json_events = (\<lambda>_. Some [(''PreToolUse'', [])]), json_groups = (\<lambda>_. Some [([], [demo_raw])]),
     go_quoted = id \<rparr>"

text \<open>Absolute paths, no links, and a digest that is the text itself.\<close>

definition demo_trust :: trust_lib where
  "demo_trust = \<lparr> IsAbs = (\<lambda>p. has_prefix p ''/''), Join = (\<lambda>a b. a @ ''/'' @ b), Abs = Some, fp_Clean = id,
     fp_Rel = (\<lambda>a b. if has_prefix b (a @ ''/'') then Some (drop (length a + 1) b) else None), fp_ToSlash = id,
     fp_Separator = CHR ''/'', sha_hex = id, defn_lib = demo_defn \<rparr>"

definition demo_view :: file_view where
  "demo_view = \<lparr> fv_read = (\<lambda>p. if p = ''/w/h'' then FileData ''{}'' else if p = ''/w/check.sh'' then FileData ''ok'' else FileMissing),
     fv_stat = (\<lambda>p. if p = ''/w/h'' \<or> p = ''/w/check.sh'' then StatRegular else StatMissing), fv_EvalSymlinks = Some,
     fv_MainCheckout = (\<lambda>_. None), fv_UserHome = None \<rparr>"

definition demo_digest :: bytes where
  "demo_digest = ''sha256:{}'' @ [CHR 0x00] @ ''script'' @ [CHR 0x00] @ ''check.sh'' @ [CHR 0x00] @ ''ok''"

definition demo_receipts :: "bytes \<Rightarrow> bytes \<Rightarrow> bytes \<Rightarrow> bool" where
  "demo_receipts w f d \<longleftrightarrow> w = ''/w'' \<and> f = ''h'' \<and> d = demo_digest"

definition demo_exec :: exec_result where
  "demo_exec = \<lparr> ex_started = True, ex_exitCode = 2, ex_stdout = [], ex_stderr = ''no'', ex_timedOut = False, ex_cancelled = False,
     ex_timeout = 60, ex_err = None, ex_outputDropped = False \<rparr>"

definition demo_session :: hook_session where
  "demo_session = \<lparr> hs_ID = [], hs_CWD = ''/w'', hs_TranscriptPath = [], hs_PermissionMode = ''ask'', hs_Mode = ''agent'', hs_Model = [],
     hs_Turn = 1, hs_Subagent = None \<rparr>"

definition demo_runner :: hook_runner where
  "demo_runner = \<lparr> run_Session = demo_session, run_TimeoutSeconds = 0, run_MaxOutputChars = 0, run_regex = (\<lambda>_. None),
     run_encode = (\<lambda>_. Inr []), run_output = (\<lambda>_. Inl []), run_digest = (\<lambda>k. digestWithScripts demo_trust demo_view),
     run_exec = (\<lambda>_ _ _. demo_exec) \<rparr>"

definition demo_sources :: "hook_source list" where
  "demo_sources = Load demo_trust demo_view (Some demo_receipts) [] ''/w'' [] [''/w/h'']"

definition demo_event :: hook_event where "demo_event = ToolEvent ''PreToolUse'' ''write'' (JDoc ''{}'') ''c1''"

lemma demo_loaded:
  "demo_sources = [\<lparr> src_Path = ''/w/h'', src_Display = ''h'', src_Scope = ScopeProject, src_Digest = demo_digest,
     src_Definition = Some \<lparr> hd_Events = [(''PreToolUse'', [\<lparr> hg_Matcher = [], Handlers =
       [\<lparr> hh_Type = ''command'', hh_Command = ''sh check.sh'', hh_CommandWindows = [], hh_Args = [], ExecForm = False,
          hh_TimeoutSeconds = 0, hh_Async = False, FailClosed = True, Unsupported = [] \<rparr>] \<rparr>])], hd_Warnings = [] \<rparr>,
     src_Err = None, src_Trust = TrustTrusted, src_data = Some ''{}'', src_cwd = ''/w'', withdrawn = False \<rparr>]"
  by code_simp

lemma demo_started:
  "hr_started (hook_Run demo_runner demo_sources 0 demo_event) =
     [\<lparr> st_source = 0, st_check = 1, st_handler = hd (all_handlers (the (src_Definition (hd demo_sources)))), st_result = demo_exec \<rparr>]"
  unfolding demo_loaded by code_simp


section \<open>Scripts the digest does not see\<close>

text \<open>A command substitution in double quotes is one word that holds a dollar sign, which names no file.\<close>

lemma quoted_substitution_unseen:
  "shellWords demo_trust (''echo '' @ [dquote] @ ''$(./run.sh)'' @ [dquote]) = [''echo'', ''$(./run.sh)'']"
  "scriptState demo_trust demo_view ''$(./run.sh)'' ''/w'' = None"
  "shellWords demo_trust ''echo $(./run.sh)'' = [''echo'', ''$'', ''./run.sh'']"
  by code_simp+

text \<open>The program of a process substitution passes for the file an output goes to.\<close>

lemma process_substitution_unseen: "shellWords demo_trust ''make > >(./filter.sh)'' = [''make'']"
  by code_simp

end
