(* ===== verification/ToolSets.thy ===== *)
theory ToolSets
  imports GoalRisk Permission
begin

text \<open>
  Which tools a session is offered and may call (\<^verbatim>\<open>internal/agent/toolsets.go\<close>, the definitions of a request in
  react.go, the rights of a child in subagent.go; \<^verbatim>\<open>internal/subagents\<close>: policy.go and the patterns of
  definition.go; \<^verbatim>\<open>internal/config/toolsets.go\<close>). A tool definition is its name. \<^verbatim>\<open>%q\<close> is a parameter.
\<close>

section \<open>Patterns\<close>

text \<open>An empty list stands for a nil slice too; where the code tells them apart the list is an option.\<close>

definition MatchPattern :: "bytes \<Rightarrow> bytes \<Rightarrow> bool" where
  "MatchPattern pattern tool =
     (let p = trim_space pattern; n = trim_space tool in
      if p = [] \<or> n = [] then False
      else if p = ''*'' then True
      else if has_suffix p ''*'' then has_prefix n (trim_suffix p ''*'')
      else p = n)"

definition AllowsTool :: "bytes list \<Rightarrow> bytes list \<Rightarrow> bytes \<Rightarrow> bool" where
  "AllowsTool allow deny tool \<longleftrightarrow>
     \<not> list_ex (\<lambda>p. MatchPattern p tool) deny \<and> (allow = [] \<or> list_ex (\<lambda>p. MatchPattern p tool) allow)"

section \<open>Toolsets of the configuration\<close>

record toolset =
  ts_Name :: bytes
  ts_Tools :: "bytes list"
  ts_DisallowedTools :: "bytes list"

definition trimToolPatterns :: "bytes list \<Rightarrow> bytes list" where
  "trimToolPatterns given = filter (\<lambda>s. s \<noteq> []) (map trim_space given)"

definition Normalize_toolset :: "toolset \<Rightarrow> toolset" where
  "Normalize_toolset t =
     \<lparr> ts_Name = trim_space (ts_Name t), ts_Tools = trimToolPatterns (ts_Tools t),
       ts_DisallowedTools = trimToolPatterns (ts_DisallowedTools t) \<rparr>"

definition Restricts :: "toolset \<Rightarrow> bool" where
  "Restricts t \<longleftrightarrow> ts_Tools t \<noteq> [] \<or> ts_DisallowedTools t \<noteq> []"

definition FindToolset :: "toolset list \<Rightarrow> bytes \<Rightarrow> toolset option" where
  "FindToolset presets name = find (\<lambda>t. ts_Name t = trim_space name) presets"

definition restricting :: "toolset option \<Rightarrow> toolset option" where
  "restricting t = (case t of Some t \<Rightarrow> if Restricts t then Some t else None | None \<Rightarrow> None)"

text \<open>\<open>models\<close> are the model rows, each with the toolset it names.\<close>

definition FindModelToolset :: "(bytes \<times> bytes) list \<Rightarrow> bytes \<Rightarrow> bytes option" where
  "FindModelToolset models ref = map_of models (trim_space ref)"

definition ResolveToolset :: "toolset list \<Rightarrow> (bytes \<times> bytes) list \<Rightarrow> bytes \<Rightarrow> bytes \<Rightarrow> toolset option" where
  "ResolveToolset presets models modelID given =
     (let choice = trim_space given;
          by_model = (case FindModelToolset models modelID of
              None \<Rightarrow> None
            | Some name \<Rightarrow> if name = [] then None else restricting (FindToolset presets name))
      in if choice = ''default'' then None
         else if choice = [] then by_model
         else (case FindToolset presets choice of Some t \<Rightarrow> restricting (Some t) | None \<Rightarrow> by_model))"

definition ValidToolsetChoice :: "toolset list \<Rightarrow> bytes \<Rightarrow> bool" where
  "ValidToolsetChoice presets choice \<longleftrightarrow> trim_space choice = ''default'' \<or> FindToolset presets (trim_space choice) \<noteq> None"

section \<open>Modes\<close>

definition planToolNames :: "bytes list" where
  "planToolNames =
     [''read'', ''keep_result'', ''glob'', ''grep'', ''print_tree'', ''websearch'', ''webfetch'', ''run_command'',
      ''background_list'', ''background_output'', ''background_wait'', ''background_stop'', ''question'', ''config_get'',
      ''config_changes'', ''plan_write'', ''plan_list'', ''plan_read'', ''load_skill'', ''spawn_agent'', ''compact_context'',
      ''session_describe'', ''switch_model'', ''coddy_docs_search'', ''coddy_docs_read'', ''worktree_list'']"

definition askToolNames :: "bytes list" where
  "askToolNames =
     [''read'', ''keep_result'', ''glob'', ''grep'', ''print_tree'', ''websearch'', ''webfetch'', ''question'', ''load_skill'',
      ''switch_model'', ''coddy_docs_search'', ''coddy_docs_read'', ''worktree_list'']"

record modePolicy =
  mp_tools :: "bytes list"
  mp_mcp :: bool
  mp_refusal :: bytes

definition modePolicies :: "bytes \<Rightarrow> modePolicy option" where
  "modePolicies mode =
     (if mode = ''plan'' then Some \<lparr> mp_tools = planToolNames, mp_mcp = True, mp_refusal = ToolResultPlanModeFormat \<rparr>
      else if mode = ''ask'' then Some \<lparr> mp_tools = askToolNames, mp_mcp = False, mp_refusal = ToolResultAskModeFormat \<rparr>
      else None)"

definition ToolSetForMode :: "bytes \<Rightarrow> bytes list" where
  "ToolSetForMode mode = (case modePolicies mode of None \<Rightarrow> [] | Some p \<Rightarrow> mp_tools p)"

definition modeOffersMCP :: "bytes \<Rightarrow> bool" where
  "modeOffersMCP mode = (case modePolicies mode of None \<Rightarrow> True | Some p \<Rightarrow> mp_mcp p)"

definition isMCPToolName :: "bytes \<Rightarrow> bool" where
  "isMCPToolName name = str_contains name ''__''"

definition set_Allows :: "bytes list \<Rightarrow> bytes \<Rightarrow> bool" where
  "set_Allows names name \<longleftrightarrow> names = [] \<or> List.member names name"

definition FilterToolDefinitions :: "bytes list \<Rightarrow> bytes list \<Rightarrow> bytes list" where
  "FilterToolDefinitions defs names = (if names = [] then defs else filter (set_Allows names) defs)"

definition modeAdmits :: "bytes \<Rightarrow> bytes \<Rightarrow> bool" where
  "modeAdmits mode name =
     (case modePolicies mode of
        None \<Rightarrow> True
      | Some p \<Rightarrow> set_Allows (mp_tools p) name \<or> mp_mcp p \<and> isMCPToolName name)"

definition modeToolNames :: "bytes \<Rightarrow> bytes list \<Rightarrow> bytes list option" where
  "modeToolNames mode names = (case modePolicies mode of None \<Rightarrow> None | Some _ \<Rightarrow> Some (filter (modeAdmits mode) names))"

text \<open>A format with its verbs filled in; \<open>quoted\<close> is \<^verbatim>\<open>%q\<close>.\<close>

definition plan_refusal :: "bytes \<Rightarrow> bytes" where
  "plan_refusal quoted_name =
     ''error: tool '' @ quoted_name @ '' is not available in Plan mode because it is outside the plan tool set; '' @
     ''the user can switch to Agent mode to use it''"

definition ask_refusal :: "bytes \<Rightarrow> bytes" where
  "ask_refusal quoted_name = ''error: tool '' @ quoted_name @ '' is not available in Ask mode because it is not read-only''"

definition toolCallRefusedByMode :: "(bytes \<Rightarrow> bytes) \<Rightarrow> bytes \<Rightarrow> bytes \<Rightarrow> bytes option" where
  "toolCallRefusedByMode quoted mode name =
     (if modeAdmits mode name then None
      else Some (if mode = ''plan'' then plan_refusal (quoted name) else ask_refusal (quoted name)))"

section \<open>The toolset of a session\<close>

text \<open>\<open>kind\<close> is that of a system child, \<open>offer\<close> the copy a running turn holds.\<close>

definition activeToolset :: "bytes option \<Rightarrow> toolset option option \<Rightarrow> toolset option \<Rightarrow> toolset option" where
  "activeToolset kind offer resolved =
     (case kind of
        Some k \<Rightarrow> if k \<noteq> [] then None else (case offer of Some t \<Rightarrow> t | None \<Rightarrow> resolved)
      | None \<Rightarrow> (case offer of Some t \<Rightarrow> t | None \<Rightarrow> resolved))"

definition setOfferModel :: "bytes \<Rightarrow> toolset option \<Rightarrow> toolset option option" where
  "setOfferModel model resolved = (if model = [] then None else Some resolved)"

definition toolsetAllows :: "toolset option \<Rightarrow> bytes \<Rightarrow> bool" where
  "toolsetAllows ts name = (case ts of None \<Rightarrow> True | Some t \<Rightarrow> AllowsTool (ts_Tools t) (ts_DisallowedTools t) name)"

definition narrow_by_toolset :: "bytes list \<Rightarrow> toolset option \<Rightarrow> bytes list" where
  "narrow_by_toolset names ts = (case ts of None \<Rightarrow> names | Some _ \<Rightarrow> filter (toolsetAllows ts) names)"

definition toolset_refusal :: "bytes \<Rightarrow> bytes \<Rightarrow> bytes" where
  "toolset_refusal quoted_name quoted_set =
     ''error: tool '' @ quoted_name @ '' is not offered: this session runs with the toolset '' @ quoted_set @
     ''. Use one of the tools you were given.''"

definition toolCallRefusedByToolset :: "(bytes \<Rightarrow> bytes) \<Rightarrow> toolset option \<Rightarrow> bytes \<Rightarrow> bytes option" where
  "toolCallRefusedByToolset quoted ts name =
     (if toolsetAllows ts name then None
      else (case ts of None \<Rightarrow> None | Some t \<Rightarrow> Some (toolset_refusal (quoted name) (quoted (ts_Name t)))))"

definition toolCallRefused :: "(bytes \<Rightarrow> bytes) \<Rightarrow> bytes \<Rightarrow> toolset option \<Rightarrow> bytes \<Rightarrow> bytes option" where
  "toolCallRefused quoted mode ts name =
     (case toolCallRefusedByMode quoted mode name of
        Some r \<Rightarrow> Some r
      | None \<Rightarrow> toolCallRefusedByToolset quoted ts name)"

section \<open>What a request offers\<close>

record child_meta =
  cm_Tools :: "bytes list"
  cm_Depth :: int
  cm_Spawns :: "bytes list"
  cm_Kind :: bytes

text \<open>What a session has to offer, apart from its mode.\<close>

record tool_stock =
  sk_registry :: "bytes list"
  sk_mcp :: "(bytes \<times> bytes) list"
  sk_mcp_filter :: "bytes \<Rightarrow> bytes \<Rightarrow> bool"
  sk_reloader :: bool
  sk_switcher :: bool
  sk_subagents :: bool
  sk_max_depth :: int
  sk_child :: "child_meta option"

definition subagentDepth :: "tool_stock \<Rightarrow> int" where
  "subagentDepth k = (case sk_child k of None \<Rightarrow> 0 | Some c \<Rightarrow> cm_Depth c)"

definition spawnAllowlist :: "tool_stock \<Rightarrow> bytes list" where
  "spawnAllowlist k = (case sk_child k of None \<Rightarrow> [] | Some c \<Rightarrow> cm_Spawns c)"

definition subagentAllows :: "tool_stock \<Rightarrow> bytes \<Rightarrow> bool" where
  "subagentAllows k name = (case sk_child k of None \<Rightarrow> True | Some c \<Rightarrow> List.member (cm_Tools c) name)"

definition mcpToolDefinitions :: "tool_stock \<Rightarrow> bytes list" where
  "mcpToolDefinitions k = map (\<lambda>(server, tool). server @ ''__'' @ tool) (filter (\<lambda>(server, tool). sk_mcp_filter k server tool) (sk_mcp k))"

definition config_editing :: "bytes list" where
  "config_editing = [''config_set'', ''config_changes'', ''config_commit'', ''config_revert'', ''config_rollback'']"

definition canSpawn :: "tool_stock \<Rightarrow> bool" where
  "canSpawn k =
     (if \<not> sk_subagents k then False
      else subagentDepth k < sk_max_depth k \<or> (subagentDepth k = sk_max_depth k \<and> spawnAllowlist k \<noteq> []))"

definition canSpawnInMode :: "tool_stock \<Rightarrow> bytes \<Rightarrow> bool" where
  "canSpawnInMode k mode \<longleftrightarrow> mode \<noteq> ''ask'' \<and> canSpawn k"

definition sessionToolDefinitions :: "tool_stock \<Rightarrow> bytes \<Rightarrow> bytes list" where
  "sessionToolDefinitions k mode =
     (let available = (if sk_reloader k then sk_registry k
                       else filter (\<lambda>n. \<not> List.member config_editing n) (sk_registry k));
          defs = FilterToolDefinitions available (ToolSetForMode mode);
          defs = (if \<not> sk_switcher k \<or> sk_child k \<noteq> None
                  then filter (\<lambda>n. n \<noteq> ''worktree_open'' \<and> n \<noteq> ''worktree_exit'') defs else defs);
          defs = (if modeOffersMCP mode then defs @ mcpToolDefinitions k else defs)
      in case sk_child k of
           Some c \<Rightarrow>
             (if cm_Tools c = [] then []
              else FilterToolDefinitions (filter (\<lambda>n. n \<noteq> ''share_file'') defs) (cm_Tools c))
         | None \<Rightarrow> if canSpawnInMode k mode then defs else filter (\<lambda>n. n \<noteq> ''spawn_agent'') defs)"

definition currentToolDefinitions :: "tool_stock \<Rightarrow> bytes \<Rightarrow> toolset option \<Rightarrow> bytes list" where
  "currentToolDefinitions k mode ts = narrow_by_toolset (sessionToolDefinitions k mode) ts"

section \<open>The rights of a child\<close>

definition NormalizePermissionMode :: "bytes \<Rightarrow> bytes option" where
  "NormalizePermissionMode given =
     (let v = to_lower (trim_space given) in
      if List.member [''ask'', ''default'', ''prompt''] v then Some ''ask''
      else if List.member [''accept_edits'', ''acceptedits'', ''accept-edits''] v then Some ''accept_edits''
      else if List.member [''bypass'', ''bypasspermissions'', ''bypass-permissions'', ''dontask''] v then Some ''bypass''
      else None)"

definition permissionRank :: "bytes \<Rightarrow> nat" where
  "permissionRank m = (if m = ''accept_edits'' then 1 else if m = ''bypass'' then 2 else 0)"

definition NarrowPermissionMode :: "bytes \<Rightarrow> bytes \<Rightarrow> bytes" where
  "NarrowPermissionMode parent requested =
     (let p = (case NormalizePermissionMode parent of Some p \<Rightarrow> p | None \<Rightarrow> ''ask'') in
      if trim_space requested = [] then p
      else (case NormalizePermissionMode requested of
              None \<Rightarrow> p
            | Some r \<Rightarrow> if permissionRank r < permissionRank p then r else p))"

record agent_definition =
  ad_Tools :: "bytes list"
  ad_DisallowedTools :: "bytes list"
  ad_Mode :: bytes
  ad_PermissionMode :: bytes
  ad_Spawns :: "bytes list"
  ad_project :: bool

definition EffectiveSpawns :: "agent_definition \<Rightarrow> bytes list" where
  "EffectiveSpawns d = (if ad_project d then [] else ad_Spawns d)"

definition MatchSpawns :: "bytes list \<Rightarrow> bytes \<Rightarrow> bool" where
  "MatchSpawns spawns name = list_ex (\<lambda>p. MatchPattern p name) spawns"

fun effective_from :: "(bytes \<Rightarrow> bool) \<Rightarrow> bytes list \<Rightarrow> bytes list \<Rightarrow> bytes list" where
  "effective_from ok seen [] = []"
| "effective_from ok seen (raw # rest) =
     (let name = trim_space raw in
      if name = [] \<or> List.member seen name \<or> \<not> ok name then effective_from ok seen rest
      else name # effective_from ok (name # seen) rest)"

definition EffectiveTools :: "bytes list \<Rightarrow> bytes list option \<Rightarrow> agent_definition \<Rightarrow> bytes list \<Rightarrow> bytes list" where
  "EffectiveTools parent modeSet d exclusions =
     sort_key (map (of_char :: char \<Rightarrow> nat))
       (effective_from
         (\<lambda>name. \<not> List.member (map trim_space exclusions) name \<and>
                 (case modeSet of None \<Rightarrow> True | Some ns \<Rightarrow> List.member (map trim_space ns) name) \<and>
                 AllowsTool (ad_Tools d) (ad_DisallowedTools d) name) [] parent)"

definition subagentMandatoryExclusions :: "bytes list" where
  "subagentMandatoryExclusions =
     [''question'', ''config_set'', ''config_changes'', ''config_commit'', ''config_revert'', ''config_rollback'', ''plan_exit'',
      ''switch_model'', ''worktree_open'', ''worktree_exit'']"

text \<open>What a spawn decides about a child: its mode, permission mode, depth and tools; \<open>None\<close> is a refusal.\<close>

record child_rights =
  cr_mode :: bytes
  cr_permission :: bytes
  cr_depth :: int
  cr_tools :: "bytes list"
  cr_spawns :: "bytes list"

definition spawn_barred :: "tool_stock \<Rightarrow> bytes \<Rightarrow> bool" where
  "spawn_barred k mode \<longleftrightarrow>
     mode = ''ask'' \<or> \<not> sk_subagents k \<or> subagentDepth k > sk_max_depth k \<or>
     subagentDepth k = sk_max_depth k \<and> spawnAllowlist k = []"

definition child_plan :: "tool_stock \<Rightarrow> bytes \<Rightarrow> bytes \<Rightarrow> agent_definition \<Rightarrow> toolset option \<Rightarrow> child_rights option" where
  "child_plan k mode permission d model_toolset =
     (if spawn_barred k mode then None
      else
        (let childMode = (if ad_Mode d \<noteq> [] \<and> modePolicies mode = None then ad_Mode d else mode);
             childDepth = subagentDepth k + 1;
             spawns = EffectiveSpawns d;
             exclusions = subagentMandatoryExclusions @
               (if childDepth > sk_max_depth k \<or> childDepth = sk_max_depth k \<and> spawns = [] then [''spawn_agent''] else []);
             parentNames = sort_key (map (of_char :: char \<Rightarrow> nat)) (sessionToolDefinitions k mode);
             effective = EffectiveTools parentNames (modeToolNames childMode parentNames) d exclusions
         in if effective = [] \<or> narrow_by_toolset effective model_toolset = [] then None
            else Some \<lparr> cr_mode = childMode, cr_permission = NarrowPermissionMode permission (ad_PermissionMode d),
                        cr_depth = childDepth, cr_tools = effective, cr_spawns = spawns \<rparr>))"

end
