(* ===== verification/ToolSets_Correct.thy ===== *)
theory ToolSets_Correct
  imports ToolSets
begin

text \<open>What a request offers can be called, and a child is given no right its parent does not have.\<close>

section \<open>Offers and calls\<close>

lemma set_filter_definitions: "set (FilterToolDefinitions defs names) = {n \<in> set defs. set_Allows names n}"
  by (auto simp: FilterToolDefinitions_def set_Allows_def)

lemma mcp_names: "n \<in> set (mcpToolDefinitions k) \<Longrightarrow> isMCPToolName n"
proof -
  assume "n \<in> set (mcpToolDefinitions k)"
  then obtain server tool where n: "n = server @ ''__'' @ tool" by (auto simp: mcpToolDefinitions_def)
  have "prefix ''__'' (drop (length server) n)" by (simp add: n)
  then show ?thesis using str_index_None by (auto simp: isMCPToolName_def str_contains_def)
qed

lemma mode_filter: "set_Allows (ToolSetForMode mode) n \<Longrightarrow> modeAdmits mode n"
  by (auto simp: ToolSetForMode_def modeAdmits_def split: option.splits)

lemma session_definitions_admitted:
  "n \<in> set (sessionToolDefinitions k mode) \<Longrightarrow> modeAdmits mode n \<and> subagentAllows k n"
  by (auto simp: sessionToolDefinitions_def Let_def set_filter_definitions subagentAllows_def
      modeAdmits_def [of mode] modeOffersMCP_def set_Allows_def [of "cm_Tools _"]
      dest: mcp_names mode_filter split: if_splits option.splits)

lemma narrowed: "n \<in> set (narrow_by_toolset names ts) \<longleftrightarrow> n \<in> set names \<and> toolsetAllows ts n"
  by (cases ts) (auto simp: narrow_by_toolset_def toolsetAllows_def)

text \<open>
  C14: Whatever a request offers can be called. A tool among the definitions of a request - built-in or of an MCP
  server, in any mode, under any toolset, in a session or a child - is not refused when the model calls it.
\<close>
theorem offered_is_callable:
  "list_all (\<lambda>n. toolCallRefused quoted mode ts n = None \<and> subagentAllows k n) (currentToolDefinitions k mode ts)"
  by (auto simp: list_all_iff currentToolDefinitions_def narrowed toolCallRefused_def toolCallRefusedByMode_def
      toolCallRefusedByToolset_def dest: session_definitions_admitted)

section \<open>Children\<close>

lemma effective_from_in: "n \<in> set (effective_from ok seen names) \<Longrightarrow> ok n \<and> n \<noteq> [] \<and> n \<in> trim_space ` set names"
  by (induction names arbitrary: seen) (auto simp: Let_def split: if_splits)

lemma effective_from_distinct: "distinct (effective_from ok seen names) \<and> set (effective_from ok seen names) \<inter> set seen = {}"
proof (induction names arbitrary: seen)
  case (Cons raw names)
  show ?case using Cons [of seen] Cons [of "trim_space raw # seen"] by (auto simp: Let_def)
qed simp

lemma narrow_rank: "permissionRank (NarrowPermissionMode parent requested) \<le>
    permissionRank (case NormalizePermissionMode parent of Some p \<Rightarrow> p | None \<Rightarrow> ''ask'')"
  by (auto simp: NarrowPermissionMode_def Let_def split: option.splits)

lemma effective_tool:
  assumes "n \<in> set (EffectiveTools parent modeSet d exclusions)"
  shows "\<not> List.member (map trim_space exclusions) n" "AllowsTool (ad_Tools d) (ad_DisallowedTools d) n" "n \<in> trim_space ` set parent"
    "modeSet = Some ns \<Longrightarrow> n \<in> trim_space ` set ns"
  using assms by (auto simp: EffectiveTools_def dest!: effective_from_in)

lemma exclusions_trimmed:
  "map trim_space subagentMandatoryExclusions = subagentMandatoryExclusions" "trim_space ''spawn_agent'' = ''spawn_agent''"
  by code_simp+

text \<open>The tool is one the parent is offered, by a name the mode admits.\<close>

lemma effective_admitted:
  assumes "n \<in> set (EffectiveTools parent (modeToolNames mode parent) d exclusions)"
  shows "\<exists>raw \<in> set parent. n = trim_space raw \<and> modeAdmits mode raw"
proof (cases "modePolicies mode")
  case None
  then show ?thesis using effective_tool(3) [OF assms] by (auto simp: modeAdmits_def)
next
  case (Some p)
  then have "modeToolNames mode parent = Some (filter (modeAdmits mode) parent)" by (simp add: modeToolNames_def)
  from effective_tool(4) [OF assms this] show ?thesis by auto
qed

lemma child_offered:
  assumes "map_option cm_Tools (sk_child k) = Some tools"
  shows "set (sessionToolDefinitions k mode) \<subseteq> set tools"
  using assms by (auto simp: sessionToolDefinitions_def Let_def set_filter_definitions set_Allows_def split: if_splits)

lemma child_plan_cases:
  assumes "child_plan k mode permission d model_toolset = Some r"
  obtains parent exclusions where
    "parent = sort_key (map (of_char :: char \<Rightarrow> nat)) (sessionToolDefinitions k mode)"
    "cr_mode r = (if ad_Mode d \<noteq> [] \<and> modePolicies mode = None then ad_Mode d else mode)"
    "exclusions = subagentMandatoryExclusions @
       (if cr_depth r > sk_max_depth k \<or> cr_depth r = sk_max_depth k \<and> cr_spawns r = [] then [''spawn_agent''] else [])"
    "cr_tools r = EffectiveTools parent (modeToolNames (cr_mode r) parent) d exclusions"
    "cr_permission r = NarrowPermissionMode permission (ad_PermissionMode d)" "cr_depth r = subagentDepth k + 1"
  using assms by (auto simp: child_plan_def Let_def split: if_splits)


section \<open>Witnesses\<close>

definition demo_stock :: tool_stock where
  "demo_stock = \<lparr> sk_registry = [''read'', ''write'', ''question'', ''spawn_agent''], sk_mcp = [(''gh'', ''list'')],
     sk_mcp_filter = (\<lambda>_ _. True), sk_reloader = False, sk_switcher = False, sk_subagents = True, sk_max_depth = 1, sk_child = None \<rparr>"

definition demo_agent :: agent_definition where
  "demo_agent = \<lparr> ad_Tools = [''read'', ''gh__*'', ''question''], ad_DisallowedTools = [], ad_Mode = ''plan'', ad_PermissionMode = ''bypass'',
     ad_Spawns = [], ad_project = False \<rparr>"


end
