(* ===== verification/SettingsState.thy ===== *)
theory SettingsState
  imports ToolSets "HOL-Library.Word"
begin

text \<open>
  The settings of a session (\<^verbatim>\<open>internal/session\<close>: settings_state.go, settings.go, the accessors of state.go): what the
  session itself is set to, what is armed for the next turns, what the running turn holds, and the one way they
  change. A configuration is present, and a model's reasoning choices, default level and whether it always thinks
  are given with its entry (\<^verbatim>\<open>internal/config/reasoning.go\<close>). Publishing a snapshot is output.
\<close>

section \<open>The settings of a turn\<close>

datatype setting = SettingModel | SettingReasoning | SettingToolset | SettingMode | SettingPermissionMode

definition settingOrder :: "setting list" where
  "settingOrder = [SettingModel, SettingReasoning, SettingToolset, SettingMode, SettingPermissionMode]"

definition MaxOverrideTurns :: int where "MaxOverrideTurns = 50"

record turn_values =
  tv_model :: bytes
  tv_reasoning :: bytes
  tv_toolset :: bytes
  tv_mode :: bytes
  tv_permissionMode :: bytes

definition no_values :: turn_values where
  "no_values = \<lparr> tv_model = [], tv_reasoning = [], tv_toolset = [], tv_mode = [], tv_permissionMode = [] \<rparr>"

fun tv_get :: "setting \<Rightarrow> turn_values \<Rightarrow> bytes" where
  "tv_get SettingModel v = tv_model v"
| "tv_get SettingReasoning v = tv_reasoning v"
| "tv_get SettingToolset v = tv_toolset v"
| "tv_get SettingMode v = tv_mode v"
| "tv_get SettingPermissionMode v = tv_permissionMode v"

fun tv_set :: "setting \<Rightarrow> bytes \<Rightarrow> turn_values \<Rightarrow> turn_values" where
  "tv_set SettingModel x v = v\<lparr> tv_model := x \<rparr>"
| "tv_set SettingReasoning x v = v\<lparr> tv_reasoning := x \<rparr>"
| "tv_set SettingToolset x v = v\<lparr> tv_toolset := x \<rparr>"
| "tv_set SettingMode x v = v\<lparr> tv_mode := x \<rparr>"
| "tv_set SettingPermissionMode x v = v\<lparr> tv_permissionMode := x \<rparr>"

text \<open>
  What a session keeps. \<open>se_armed\<close> holds values with the turns they have left; \<open>se_seq\<close> is the process-wide
  counter of revisions, \<open>se_default\<close> the permission mode new sessions start in, \<open>se_notes\<close> the lines a change of
  the agent left in the transcript, with their sources.
\<close>

record settings_state =
  se_Mode :: bytes
  se_PermissionMode :: bytes
  se_Model :: bytes
  se_Reasoning :: bytes
  se_Toolset :: bytes
  se_armed :: "setting \<Rightarrow> (bytes \<times> int) option"
  se_active :: turn_values
  se_last :: turn_values
  se_rev :: "64 word"
  se_seq :: "64 word"
  se_default :: bytes
  se_notes :: "(bytes \<times> bytes) list"

definition bumpSettingsRevision :: "settings_state \<Rightarrow> settings_state" where
  "bumpSettingsRevision s = s\<lparr> se_seq := se_seq s + 1, se_rev := se_seq s + 1 \<rparr>"

definition ArmTurnOverride :: "setting \<Rightarrow> bytes \<Rightarrow> int \<Rightarrow> settings_state \<Rightarrow> settings_state" where
  "ArmTurnOverride x v turns s =
     (if turns \<le> 0 then s
      else s\<lparr> se_armed := (se_armed s)(x := Some (v, if turns > MaxOverrideTurns then MaxOverrideTurns else turns)) \<rparr>)"

definition ClearTurnOverride :: "setting \<Rightarrow> settings_state \<Rightarrow> settings_state" where
  "ClearTurnOverride x s =
     bumpSettingsRevision (s\<lparr> se_armed := (se_armed s)(x := None), se_active := tv_set x [] (se_active s),
                              se_last := tv_set x [] (se_last s) \<rparr>)"

text \<open>What a turn takes of one armed setting, and what is left of it.\<close>

definition turn_takes :: "(bytes \<times> int) option \<Rightarrow> bytes" where
  "turn_takes a = (case a of Some (v, n) \<Rightarrow> if n \<le> 0 then [] else v | None \<Rightarrow> [])"

definition turn_leaves :: "(bytes \<times> int) option \<Rightarrow> (bytes \<times> int) option" where
  "turn_leaves a = (case a of Some (v, n) \<Rightarrow> if n \<le> 1 then None else Some (v, n - 1) | None \<Rightarrow> None)"

definition BeginOperatorTurnSettings :: "settings_state \<Rightarrow> settings_state" where
  "BeginOperatorTurnSettings s =
     (let held = fold (\<lambda>x. tv_set x (turn_takes (se_armed s x))) settingOrder no_values in
      bumpSettingsRevision (s\<lparr> se_armed := (\<lambda>x. turn_leaves (se_armed s x)), se_active := held, se_last := held \<rparr>))"

definition ResumeTurnSettings :: "settings_state \<Rightarrow> settings_state" where
  "ResumeTurnSettings s = bumpSettingsRevision (s\<lparr> se_active := se_last s \<rparr>)"

definition EndTurnSettings :: "settings_state \<Rightarrow> settings_state" where
  "EndTurnSettings s = bumpSettingsRevision (s\<lparr> se_active := no_values \<rparr>)"

definition SetTurnSetting :: "setting \<Rightarrow> bytes \<Rightarrow> settings_state \<Rightarrow> settings_state" where
  "SetTurnSetting x v s =
     bumpSettingsRevision (s\<lparr> se_active := tv_set x v (se_active s), se_last := tv_set x v (se_last s) \<rparr>)"

definition TurnSetting :: "settings_state \<Rightarrow> setting \<Rightarrow> bytes" where
  "TurnSetting s x = tv_get x (se_active s)"

record turn_override =
  to_Setting :: setting
  to_Value :: bytes
  to_TurnsLeft :: int
  to_Active :: bool

definition overrides_of :: "settings_state \<Rightarrow> setting \<Rightarrow> turn_override list" where
  "overrides_of s x =
     (let active = TurnSetting s x; held = \<lparr> to_Setting = x, to_Value = active, to_TurnsLeft = 0, to_Active = True \<rparr> in
      case se_armed s x of
        Some (v, n) \<Rightarrow>
          (if active \<noteq> [] \<and> v = active then [held\<lparr> to_TurnsLeft := n \<rparr>]
           else (if active \<noteq> [] then [held] else []) @
                [\<lparr> to_Setting = x, to_Value = v, to_TurnsLeft = n, to_Active = False \<rparr>])
      | None \<Rightarrow> (if active \<noteq> [] then [held] else []))"

definition TurnOverrides :: "settings_state \<Rightarrow> turn_override list" where
  "TurnOverrides s = concat (map (overrides_of s) settingOrder)"

text \<open>What the process keeps of a session a surface let go of.\<close>

record process_settings =
  ps_permissionMode :: bytes
  ps_armed :: "setting \<Rightarrow> (bytes \<times> int) option"
  ps_last :: turn_values

definition readProcessSettings :: "settings_state \<Rightarrow> process_settings" where
  "readProcessSettings s =
     \<lparr> ps_permissionMode = se_PermissionMode s,
       ps_armed = (\<lambda>x. case se_armed s x of Some (v, n) \<Rightarrow> if n > 0 then Some (v, n) else None | None \<Rightarrow> None),
       ps_last = se_last s \<rparr>"

definition restoreProcessSettings :: "process_settings \<Rightarrow> settings_state \<Rightarrow> settings_state" where
  "restoreProcessSettings p s =
     bumpSettingsRevision (s\<lparr> se_PermissionMode := ps_permissionMode p,
       se_armed := (\<lambda>x. case ps_armed p x of Some a \<Rightarrow> Some a | None \<Rightarrow> se_armed s x), se_last := ps_last p \<rparr>)"

section \<open>What a request uses\<close>

record model_entry =
  me_Model :: bytes
  me_Toolset :: bytes
  me_choices :: "bytes list"
  me_default :: bytes
  me_always_on :: bool

record settings_cfg =
  sc_Models :: "model_entry list"
  sc_Toolsets :: "toolset list"
  sc_AgentModel :: bytes
  sc_PermissionMode :: bytes

definition FindModelEntry :: "settings_cfg \<Rightarrow> bytes \<Rightarrow> model_entry option" where
  "FindModelEntry C ref = find (\<lambda>m. me_Model m = trim_space ref) (sc_Models C)"

definition choices_of :: "model_entry option \<Rightarrow> bytes list" where
  "choices_of m = (case m of None \<Rightarrow> [] | Some m \<Rightarrow> me_choices m)"

definition default_of :: "model_entry option \<Rightarrow> bytes" where
  "default_of m = (case m of None \<Rightarrow> [] | Some m \<Rightarrow> me_default m)"

definition normalizeModelID :: "settings_cfg \<Rightarrow> bytes \<Rightarrow> bytes" where
  "normalizeModelID C ident =
     (if ident = [] then []
      else if list_ex (\<lambda>m. me_Model m = ident) (sc_Models C) then ident
      else if sc_Models C \<noteq> [] then me_Model (hd (sc_Models C))
      else ident)"

definition ResolveModelID :: "settings_cfg \<Rightarrow> bytes \<Rightarrow> bytes" where
  "ResolveModelID C selected =
     (let sel = trim_space selected in
      if sel \<noteq> [] then normalizeModelID C sel else normalizeModelID C (trim_space (sc_AgentModel C)))"

definition SessionModelID :: "settings_cfg \<Rightarrow> settings_state \<Rightarrow> bytes" where
  "SessionModelID C s = ResolveModelID C (se_Model s)"

definition EffectiveModelID :: "settings_cfg \<Rightarrow> settings_state \<Rightarrow> bytes" where
  "EffectiveModelID C s =
     (let turn = TurnSetting s SettingModel in
      if turn \<noteq> [] \<and> FindModelEntry C turn \<noteq> None then turn else ResolveModelID C (se_Model s))"

definition EffectiveMode :: "settings_state \<Rightarrow> bytes" where
  "EffectiveMode s = (let m = TurnSetting s SettingMode in if m \<noteq> [] then m else se_Mode s)"

definition EffectivePermMode :: "settings_state \<Rightarrow> bytes" where
  "EffectivePermMode s =
     (let m = TurnSetting s SettingPermissionMode in if m \<noteq> [] then m else se_PermissionMode s)"

definition ResolvedPermissionMode :: "settings_cfg \<Rightarrow> settings_state \<Rightarrow> bytes" where
  "ResolvedPermissionMode C s =
     (let m = EffectivePermMode s in if m \<noteq> [] then m else sc_PermissionMode C)"

definition EffectiveToolset :: "settings_state \<Rightarrow> bytes" where
  "EffectiveToolset s = (let t = TurnSetting s SettingToolset in if t \<noteq> [] then t else se_Toolset s)"

definition level_for :: "model_entry \<Rightarrow> bytes \<Rightarrow> bytes" where
  "level_for m selected = (if List.member (me_choices m) (trim_space selected) then trim_space selected else me_default m)"

definition EffectiveReasoning :: "settings_cfg \<Rightarrow> settings_state \<Rightarrow> bytes" where
  "EffectiveReasoning C s =
     (case FindModelEntry C (EffectiveModelID C s) of
        None \<Rightarrow> []
      | Some m \<Rightarrow>
          (let turn = TurnSetting s SettingReasoning in
           if me_choices m = [] then []
           else if turn = ''default'' then me_default m
           else if turn \<noteq> [] \<and> List.member (me_choices m) turn then turn
           else level_for m (se_Reasoning s)))"

definition SessionReasoning :: "settings_cfg \<Rightarrow> settings_state \<Rightarrow> bytes" where
  "SessionReasoning C s =
     (case FindModelEntry C (SessionModelID C s) of
        None \<Rightarrow> []
      | Some m \<Rightarrow> if me_choices m = [] then [] else level_for m (se_Reasoning s))"

definition resolved_toolset :: "settings_cfg \<Rightarrow> bytes \<Rightarrow> bytes \<Rightarrow> toolset option" where
  "resolved_toolset C = ResolveToolset (sc_Toolsets C) (map (\<lambda>m. (me_Model m, me_Toolset m)) (sc_Models C))"

definition SessionToolset :: "settings_cfg \<Rightarrow> settings_state \<Rightarrow> bytes" where
  "SessionToolset C s =
     (let sel = trim_space (se_Toolset s) in
      if sel = ''default'' \<or> sel \<noteq> [] \<and> FindToolset (sc_Toolsets C) sel \<noteq> None then sel
      else (case resolved_toolset C (SessionModelID C s) [] of Some t \<Rightarrow> ts_Name t | None \<Rightarrow> ''default''))"

section \<open>A change\<close>

record settings_change =
  ch_Model :: "bytes option"
  ch_Reasoning :: "bytes option"
  ch_Toolset :: "bytes option"
  ch_Mode :: "bytes option"
  ch_PermissionMode :: "bytes option"
  ch_Turns :: int
  ch_Source :: bytes
  ch_SessionOnly :: bool

definition no_change :: settings_change where
  "no_change =
     \<lparr> ch_Model = None, ch_Reasoning = None, ch_Toolset = None, ch_Mode = None, ch_PermissionMode = None,
       ch_Turns = 0, ch_Source = [], ch_SessionOnly = False \<rparr>"

definition Empty_change :: "settings_change \<Rightarrow> bool" where
  "Empty_change c \<longleftrightarrow>
     ch_Model c = None \<and> ch_Reasoning c = None \<and> ch_Toolset c = None \<and> ch_Mode c = None \<and> ch_PermissionMode c = None"

definition ByAgent :: "settings_change \<Rightarrow> bool" where
  "ByAgent c \<longleftrightarrow> ch_Source c = ''model'' \<or> has_prefix (ch_Source c) ''skill:''"

datatype settings_error =
    SessionGone | SessionReadOnly | BadCount | NoModels | UnknownModel bytes
  | NoLevels bytes | AlwaysThinks bytes | OffNotOffered bytes | LevelNotOffered bytes bytes
  | UnknownToolset bytes | UnknownMode bytes | UnknownPermissionMode bytes

text \<open>The level \<^verbatim>\<open>/think\<close> without one means; a model with no choices was refused before.\<close>

definition thinkingOnLevel :: "model_entry option \<Rightarrow> bytes" where
  "thinkingOnLevel m =
     (let def = default_of m; choices = choices_of m; thinks = (\<lambda>lv. lv \<noteq> ''off'' \<and> lv \<noteq> ''none'') in
      if def \<noteq> [] \<and> thinks def then def
      else if List.member choices ''medium'' then ''medium''
      else (case find thinks choices of Some lv \<Rightarrow> lv | None \<Rightarrow> hd choices))"

definition check_model :: "settings_cfg \<Rightarrow> bytes option \<Rightarrow> settings_error + bytes option" where
  "check_model C given =
     (case given of
        None \<Rightarrow> Inr None
      | Some raw \<Rightarrow>
          (let v = trim_space raw in
           if sc_Models C = [] then Inl NoModels
           else if FindModelEntry C v = None \<or> v = [] then Inl (UnknownModel v)
           else Inr (Some v)))"

definition check_reasoning :: "settings_cfg \<Rightarrow> bytes \<Rightarrow> bytes option \<Rightarrow> settings_error + bytes option" where
  "check_reasoning C model given =
     (case given of
        None \<Rightarrow> Inr None
      | Some raw \<Rightarrow>
          (let v = to_lower (trim_space raw);
               v = (if v = [] then ''default'' else v);
               m = FindModelEntry C model;
               choices = choices_of m;
               v = (if v = ''on'' then thinkingOnLevel m else v)
           in if choices = [] then Inl (NoLevels model)
              else if v = ''off'' \<and> \<not> List.member choices v
              then Inl (if (case m of None \<Rightarrow> False | Some m \<Rightarrow> me_always_on m) then AlwaysThinks model else OffNotOffered model)
              else if v \<noteq> ''default'' \<and> \<not> List.member choices v then Inl (LevelNotOffered v model)
              else Inr (Some v)))"

definition check_toolset :: "settings_cfg \<Rightarrow> bytes option \<Rightarrow> settings_error + bytes option" where
  "check_toolset C given =
     (case given of
        None \<Rightarrow> Inr None
      | Some raw \<Rightarrow>
          (let v = trim_space raw; v = (if v = [] then ''default'' else v) in
           if ValidToolsetChoice (sc_Toolsets C) v then Inr (Some v) else Inl (UnknownToolset v)))"

definition IsValidMode :: "bytes \<Rightarrow> bool" where
  "IsValidMode mode \<longleftrightarrow> List.member [''agent'', ''plan'', ''ask''] mode"

definition check_mode :: "bytes option \<Rightarrow> settings_error + bytes option" where
  "check_mode given =
     (case given of
        None \<Rightarrow> Inr None
      | Some raw \<Rightarrow>
          (let v = to_lower (trim_space raw) in if IsValidMode v then Inr (Some v) else Inl (UnknownMode v)))"

definition check_permission :: "bytes option \<Rightarrow> settings_error + bytes option" where
  "check_permission given =
     (case given of
        None \<Rightarrow> Inr None
      | Some raw \<Rightarrow>
          (let v = to_lower (trim_space raw) in
           if List.member [''ask'', ''accept_edits'', ''bypass''] v then Inr (Some v) else Inl (UnknownPermissionMode v)))"

text \<open>The model a level is checked against: the one the change names, else the turn's or the session's.\<close>

definition reasoning_model :: "settings_cfg \<Rightarrow> settings_state \<Rightarrow> settings_change \<Rightarrow> bytes option \<Rightarrow> bytes" where
  "reasoning_model C s c model =
     (case model of
        Some v \<Rightarrow> v
      | None \<Rightarrow> if ch_Turns c > 0 then EffectiveModelID C s else SessionModelID C s)"

definition no_settings :: "setting \<Rightarrow> bytes option" where
  "no_settings = (\<lambda>_. None)"

definition validateSettingsChange :: "settings_cfg \<Rightarrow> settings_state \<Rightarrow> settings_change \<Rightarrow> settings_error + (setting \<Rightarrow> bytes option)" where
  "validateSettingsChange C s c =
     (if ch_Turns c < 0 \<or> ch_Turns c > MaxOverrideTurns then Inl BadCount
      else (case check_model C (ch_Model c) of
        Inl e \<Rightarrow> Inl e
      | Inr model \<Rightarrow> (case check_reasoning C (reasoning_model C s c model) (ch_Reasoning c) of
        Inl e \<Rightarrow> Inl e
      | Inr reasoning \<Rightarrow> (case check_toolset C (ch_Toolset c) of
        Inl e \<Rightarrow> Inl e
      | Inr preset \<Rightarrow> (case check_mode (ch_Mode c) of
        Inl e \<Rightarrow> Inl e
      | Inr mode \<Rightarrow> (case check_permission (ch_PermissionMode c) of
        Inl e \<Rightarrow> Inl e
      | Inr permission \<Rightarrow>
          Inr (no_settings(SettingModel := model, SettingReasoning := reasoning, SettingToolset := preset, SettingMode := mode,
                           SettingPermissionMode := permission))))))))"

definition sortedSettings :: "(setting \<Rightarrow> bytes option) \<Rightarrow> setting list" where
  "sortedSettings values = filter (\<lambda>x. values x \<noteq> None) settingOrder"

definition turnsScope :: "int \<Rightarrow> bytes" where
  "turnsScope turns =
     (if turns = 1 then ''for the next turn'' else ''for the next '' @ digits_of (nat turns) @ '' turns'')"

definition setting_label :: "setting \<Rightarrow> bytes" where
  "setting_label x =
     (case x of SettingModel \<Rightarrow> ''Model'' | SettingReasoning \<Rightarrow> ''Reasoning'' | SettingToolset \<Rightarrow> ''Toolset''
      | SettingMode \<Rightarrow> ''Mode'' | SettingPermissionMode \<Rightarrow> ''Permission mode'')"

definition value_of :: "(setting \<Rightarrow> bytes option) \<Rightarrow> setting \<Rightarrow> bytes" where
  "value_of values x = (case values x of Some v \<Rightarrow> v | None \<Rightarrow> [])"

definition settingsNotice :: "(setting \<Rightarrow> bytes option) \<Rightarrow> bytes \<Rightarrow> bytes" where
  "settingsNotice values scope =
     join ''; '' (map (\<lambda>x. setting_label x @ '': '' @ value_of values x @ '' '' @ scope) (sortedSettings values))"

text \<open>The write of one setting to the session.\<close>

definition write_model :: "settings_cfg \<Rightarrow> bool \<Rightarrow> bytes \<Rightarrow> settings_state \<Rightarrow> settings_state" where
  "write_model C level_named v s =
     (let s = bumpSettingsRevision (s\<lparr> se_Model := v \<rparr>); sel = trim_space (se_Reasoning s) in
      if \<not> level_named \<and> sel \<noteq> [] \<and> \<not> List.member (choices_of (FindModelEntry C v)) sel
      then bumpSettingsRevision (s\<lparr> se_Reasoning := [] \<rparr>) else s)"

definition write_setting :: "settings_cfg \<Rightarrow> settings_change \<Rightarrow> bool \<Rightarrow> setting \<Rightarrow> bytes \<Rightarrow> settings_state \<Rightarrow> settings_state" where
  "write_setting C c level_named x v s =
     ClearTurnOverride x
       (case x of
          SettingModel \<Rightarrow> write_model C level_named v s
        | SettingReasoning \<Rightarrow> bumpSettingsRevision (s\<lparr> se_Reasoning := (if v = ''default'' then [] else v) \<rparr>)
        | SettingToolset \<Rightarrow> bumpSettingsRevision (s\<lparr> se_Toolset := v \<rparr>)
        | SettingMode \<Rightarrow> bumpSettingsRevision (s\<lparr> se_Mode := v \<rparr>)
        | SettingPermissionMode \<Rightarrow>
            (let s = bumpSettingsRevision (s\<lparr> se_PermissionMode := v \<rparr>) in
             if ch_SessionOnly c then s else s\<lparr> se_default := v \<rparr>))"

definition writeSettings :: "settings_cfg \<Rightarrow> settings_change \<Rightarrow> (setting \<Rightarrow> bytes option) \<Rightarrow> settings_state \<Rightarrow> bytes \<times> settings_state" where
  "writeSettings C c values s =
     (if ch_Turns c > 0 then
        (settingsNotice values (turnsScope (ch_Turns c)),
         fold (\<lambda>x. ArmTurnOverride x (value_of values x) (ch_Turns c)) (sortedSettings values) s)
      else
        (settingsNotice values ''for this session'',
         fold (\<lambda>x. write_setting C c (values SettingReasoning \<noteq> None) x (value_of values x)) (sortedSettings values) s))"

definition noteSettingsChange :: "settings_change \<Rightarrow> bytes \<Rightarrow> settings_state \<Rightarrow> settings_state" where
  "noteSettingsChange c notice s =
     (if ByAgent c then s\<lparr> se_notes := se_notes s @ [(notice, ch_Source c)] \<rparr> else s)"

text \<open>\<open>gate\<close> is the refusal of a session that is gone or takes no changes.\<close>

definition applySessionSettings :: "settings_cfg \<Rightarrow> settings_error option \<Rightarrow> settings_change \<Rightarrow> settings_state
    \<Rightarrow> (settings_error + bytes) \<times> settings_state" where
  "applySessionSettings C gate c s =
     (case gate of
        Some e \<Rightarrow> (Inl e, s)
      | None \<Rightarrow>
          if Empty_change c then (Inr [], s)
          else (case validateSettingsChange C s c of
                  Inl e \<Rightarrow> (Inl e, s)
                | Inr values \<Rightarrow>
                    (case writeSettings C c values s of (notice, s') \<Rightarrow> (Inr notice, noteSettingsChange c notice s'))))"

definition ApplyTurnSettings :: "settings_cfg \<Rightarrow> bool \<Rightarrow> settings_change \<Rightarrow> settings_state
    \<Rightarrow> (settings_error + bytes) \<times> settings_state" where
  "ApplyTurnSettings C gone c s =
     (if gone then (Inl SessionGone, s)
      else if Empty_change c then (Inr [], s)
      else (case validateSettingsChange C s (c\<lparr> ch_Turns := 1 \<rparr>) of
              Inl e \<Rightarrow> (Inl e, s)
            | Inr values \<Rightarrow>
                (let s1 = fold (\<lambda>x. SetTurnSetting x (value_of values x)) (sortedSettings values) s;
                     lv = TurnSetting s1 SettingReasoning;
                     s2 = (if values SettingModel \<noteq> None \<and> values SettingReasoning = None \<and> lv \<noteq> [] \<and> lv \<noteq> ''default'' \<and>
                              \<not> List.member (choices_of (FindModelEntry C (value_of values SettingModel))) lv
                           then SetTurnSetting SettingReasoning [] s1 else s1);
                     notice = settingsNotice values ''for the rest of this turn''
                 in (Inr notice, noteSettingsChange c notice s2))))"

end
