(* ===== verification/SettingsCommands.thy ===== *)
theory SettingsCommands
  imports SettingsState GoWords
begin

text \<open>
  The settings commands at the start of a prompt (\<^verbatim>\<open>internal/session/commands.go\<close>), how a prompt gives them up
  (settings.go), and the text that asks for a change. Positions in the text are the text that is left. Usage lines
  and descriptions are not modelled.
\<close>

section \<open>The registry\<close>

datatype arg_kind = ArgRequired | ArgOptional | ArgNone

record settings_command =
  cmd_Name :: bytes
  cmd_Aliases :: "bytes list"
  cmd_Setting :: setting
  cmd_arg :: arg_kind
  cmd_value :: bytes

definition settingsCommands :: "settings_command list" where
  "settingsCommands =
     [\<lparr> cmd_Name = ''model'', cmd_Aliases = [], cmd_Setting = SettingModel, cmd_arg = ArgRequired, cmd_value = [] \<rparr>,
      \<lparr> cmd_Name = ''reasoning'', cmd_Aliases = [''effort''], cmd_Setting = SettingReasoning, cmd_arg = ArgRequired, cmd_value = [] \<rparr>,
      \<lparr> cmd_Name = ''think'', cmd_Aliases = [], cmd_Setting = SettingReasoning, cmd_arg = ArgOptional, cmd_value = ''on'' \<rparr>,
      \<lparr> cmd_Name = ''nothink'', cmd_Aliases = [''no_think''], cmd_Setting = SettingReasoning, cmd_arg = ArgNone, cmd_value = ''off'' \<rparr>,
      \<lparr> cmd_Name = ''toolset'', cmd_Aliases = [], cmd_Setting = SettingToolset, cmd_arg = ArgRequired, cmd_value = [] \<rparr>,
      \<lparr> cmd_Name = ''agent'', cmd_Aliases = [], cmd_Setting = SettingMode, cmd_arg = ArgNone, cmd_value = ''agent'' \<rparr>,
      \<lparr> cmd_Name = ''plan'', cmd_Aliases = [], cmd_Setting = SettingMode, cmd_arg = ArgNone, cmd_value = ''plan'' \<rparr>,
      \<lparr> cmd_Name = ''ask'', cmd_Aliases = [], cmd_Setting = SettingMode, cmd_arg = ArgNone, cmd_value = ''ask'' \<rparr>,
      \<lparr> cmd_Name = ''permissions'', cmd_Aliases = [], cmd_Setting = SettingPermissionMode, cmd_arg = ArgRequired, cmd_value = [] \<rparr>]"

definition LookupSettingsCommand :: "bytes \<Rightarrow> settings_command option" where
  "LookupSettingsCommand name =
     (let n = to_lower (trim_prefix (trim_space name) ''/'') in
      if n = [] then None else find (\<lambda>c. cmd_Name c = n \<or> List.member (cmd_Aliases c) n) settingsCommands)"

section \<open>Words\<close>

definition line_break :: "char \<Rightarrow> bool" where
  "line_break c \<longleftrightarrow> c = CHR 0x0A \<or> c = CHR 0x0D"

definition line_blank :: "char \<Rightarrow> bool" where
  "line_blank c \<longleftrightarrow> c = CHR '' '' \<or> c = CHR 0x09"

definition skipSpace :: "bool \<Rightarrow> bytes \<Rightarrow> bytes" where
  "skipSpace newlines s = dropWhile (\<lambda>c. line_blank c \<or> newlines \<and> line_break c) s"

definition word_char :: "char \<Rightarrow> bool" where
  "word_char c \<longleftrightarrow> \<not> line_blank c \<and> \<not> line_break c"

definition next_word :: "bytes \<Rightarrow> bytes" where
  "next_word s = takeWhile word_char s"

definition after_word :: "bytes \<Rightarrow> bytes" where
  "after_word s = dropWhile word_char s"

definition at_line_end :: "bytes \<Rightarrow> bool" where
  "at_line_end s \<longleftrightarrow> s = [] \<or> line_break (hd s)"

definition isReasoningLevelWord :: "bytes \<Rightarrow> bool" where
  "isReasoningLevelWord w \<longleftrightarrow> List.member [''minimal'', ''low'', ''medium'', ''high'', ''xhigh'', ''max''] (to_lower w)"

definition normalizePermissionWord :: "bytes \<Rightarrow> bytes" where
  "normalizePermissionWord v =
     (let folded = to_lower (replace_all ''-'' ''_'' (trim_space v)) in
      if List.member [''acceptedits'', ''accept_edits'', ''edits''] folded then ''accept_edits''
      else if List.member [''ask'', ''default''] folded then ''ask''
      else if List.member [''bypass'', ''bypasspermissions'', ''bypass_permissions'', ''yolo''] folded then ''bypass''
      else to_lower (trim_space v))"

section \<open>Reading commands\<close>

datatype command_error = BadTurns bytes bytes | UnknownFlag bytes bytes | NeedsValue bytes

lemma after_word_shorter: "s \<noteq> [] \<Longrightarrow> word_char (hd s) \<Longrightarrow> length (after_word s) < length s"
  by (cases s) (auto simp: after_word_def le_imp_less_Suc length_dropWhile_le)

lemma skipSpace_shorter: "length (skipSpace b s) \<le> length s"
  by (simp add: skipSpace_def length_dropWhile_le)

lemma skipSpace_hd: "skipSpace False s \<noteq> [] \<Longrightarrow> \<not> line_break (hd (skipSpace False s)) \<Longrightarrow> word_char (hd (skipSpace False s))"
  using hd_dropWhile [of line_blank s] by (simp add: skipSpace_def word_char_def)

lemma after_word_le: "length (after_word s) \<le> length s"
  by (simp add: after_word_def length_dropWhile_le)

text \<open>The value and the flags of a command: where they stop, the value and the number of turns.\<close>

function command_words :: "settings_command \<Rightarrow> bytes option \<Rightarrow> int \<Rightarrow> bytes \<Rightarrow> command_error + (bytes \<times> bytes option \<times> int)" where
  "command_words cmd v turns s =
     (let r = skipSpace False s; word = next_word r; rest = after_word r in
      if at_line_end r then Inr (r, v, turns)
      else if word = ''--once'' then command_words cmd v 1 rest
      else if word = ''--count'' \<or> has_prefix word ''--count='' then
        (let separate = (word = ''--count'');
             q = skipSpace False rest;
             raw = (if separate then next_word q else trim_prefix word ''--count='');
             after = (if separate then after_word q else rest)
         in case Atoi raw of
              None \<Rightarrow> Inl (BadTurns (cmd_Name cmd) raw)
            | Some n \<Rightarrow> if n < 1 \<or> n > MaxOverrideTurns then Inl (BadTurns (cmd_Name cmd) raw) else command_words cmd v n after)
      else if has_prefix word ''--'' then Inl (UnknownFlag (cmd_Name cmd) word)
      else if has_prefix word ''/'' \<and> LookupSettingsCommand word \<noteq> None then Inr (r, v, turns)
      else if v = None \<and> cmd_arg cmd = ArgRequired then command_words cmd (Some word) turns rest
      else if v = None \<and> cmd_arg cmd = ArgOptional \<and> isReasoningLevelWord word then command_words cmd (Some (to_lower word)) turns rest
      else Inr (r, v, turns))"
  by pat_completeness auto
termination
proof (relation "measure (\<lambda>(cmd, v, turns, s). length s)", goal_cases)
  case (3 cmd v turns s r word rest separate q raw after n)
  have "length rest < length s"
    using 3 after_word_shorter [of r] skipSpace_hd [of s] skipSpace_shorter [of False s] by (auto simp: at_line_end_def)
  moreover have "length (after_word q) \<le> length rest"
    using 3 after_word_le [of q] skipSpace_shorter [of False rest] by simp
  ultimately show ?case using 3 by (auto split: if_splits)
qed (auto simp: at_line_end_def intro: order_less_le_trans [OF after_word_shorter [OF _ skipSpace_hd] skipSpace_shorter])

declare command_words.simps [simp del]

definition parseCommandWords :: "settings_command \<Rightarrow> bytes \<Rightarrow> command_error + (bytes \<times> bytes \<times> int)" where
  "parseCommandWords cmd s =
     (case command_words cmd None 0 s of
        Inl e \<Rightarrow> Inl e
      | Inr (next, v, turns) \<Rightarrow>
          if cmd_arg cmd = ArgRequired \<and> v = None then Inl (NeedsValue (cmd_Name cmd))
          else
            (let given = (case v of Some w \<Rightarrow> w | None \<Rightarrow> cmd_value cmd);
                 given = (if cmd_Setting cmd = SettingPermissionMode then normalizePermissionWord given else given);
                 given = (if cmd_Setting cmd = SettingReasoning then to_lower given else given)
             in Inr (next, given, turns)))"

lemma command_words_shorter: "command_words cmd v turns s = Inr (next, w, n) \<Longrightarrow> length next \<le> length s"
proof (induction cmd v turns s rule: command_words.induct)
  case (1 cmd v turns s)
  have le: "length (after_word (skipSpace False s)) \<le> length s"
    using after_word_le skipSpace_shorter by (rule order_trans)
  then have le': "length (after_word (skipSpace False (after_word (skipSpace False s)))) \<le> length s"
    using order_trans [OF after_word_le skipSpace_shorter] by (rule order_trans [rotated])
  show ?case
    using 1(5) skipSpace_shorter [of False s] le le'
      1(1) [OF refl refl refl] 1(2) [OF refl refl refl _ _ _ refl refl refl refl] 1(3) [OF refl refl refl] 1(4) [OF refl refl refl]
    by (subst (asm) command_words.simps) (auto simp: Let_def split: if_splits option.splits intro: order_trans)
qed

section \<open>The line\<close>

record command_line =
  cl_Session :: settings_change
  cl_Turns :: "settings_change list"
  cl_Rest :: bytes
  cl_Names :: "bytes list"

definition put_value :: "setting \<Rightarrow> bytes \<Rightarrow> settings_change \<Rightarrow> settings_change" where
  "put_value x v c =
     (case x of
        SettingModel \<Rightarrow> c\<lparr> ch_Model := Some v \<rparr>
      | SettingReasoning \<Rightarrow> c\<lparr> ch_Reasoning := Some v \<rparr>
      | SettingToolset \<Rightarrow> c\<lparr> ch_Toolset := Some v \<rparr>
      | SettingMode \<Rightarrow> c\<lparr> ch_Mode := Some v \<rparr>
      | SettingPermissionMode \<Rightarrow> c\<lparr> ch_PermissionMode := Some v \<rparr>)"

fun put_turns :: "setting \<Rightarrow> bytes \<Rightarrow> int \<Rightarrow> settings_change list \<Rightarrow> settings_change list" where
  "put_turns x v n [] = [put_value x v (no_change\<lparr> ch_Turns := n \<rparr>)]"
| "put_turns x v n (c # cs) = (if ch_Turns c = n then put_value x v c # cs else c # put_turns x v n cs)"

definition add_command :: "settings_command \<Rightarrow> bytes \<Rightarrow> int \<Rightarrow> command_line \<Rightarrow> command_line" where
  "add_command cmd v turns l =
     (let l = l\<lparr> cl_Names := cl_Names l @ [cmd_Name cmd] \<rparr> in
      if turns > 0 then l\<lparr> cl_Turns := put_turns (cmd_Setting cmd) v turns (cl_Turns l) \<rparr>
      else l\<lparr> cl_Session := put_value (cmd_Setting cmd) v (cl_Session l) \<rparr>)"

definition empty_line :: command_line where
  "empty_line = \<lparr> cl_Session = no_change, cl_Turns = [], cl_Rest = [], cl_Names = [] \<rparr>"

function parse_from :: "command_line \<Rightarrow> bytes \<Rightarrow> command_error + (command_line \<times> bytes)" where
  "parse_from l s =
     (if \<not> has_prefix s ''/'' then Inr (l, s)
      else (case LookupSettingsCommand (next_word s) of
              None \<Rightarrow> Inr (l, s)
            | Some cmd \<Rightarrow>
                (case parseCommandWords cmd (after_word s) of
                   Inl e \<Rightarrow> Inl e
                 | Inr (next, v, turns) \<Rightarrow>
                     parse_from (add_command cmd v turns l) (if next \<noteq> [] \<and> line_break (hd next) then skipSpace True next else next))))"
  by pat_completeness auto
termination
proof (relation "measure (\<lambda>(l, s). length s)", goal_cases)
  case (2 l s cmd nvt left vt v turns)
  then obtain w where w: "command_words cmd None 0 (after_word s) = Inr (left, w, turns)"
    by (auto simp: parseCommandWords_def Let_def split: sum.splits option.splits if_splits)
  have "length left < length s"
    using command_words_shorter [OF w] after_word_shorter [of s] 2(1)
    by (cases s) (auto simp: has_prefix_def word_char_def line_blank_def line_break_def)
  then show ?case using skipSpace_shorter [of True left] by simp
qed auto

declare parse_from.simps [simp del]

definition trim_left_blanks :: "bytes \<Rightarrow> bytes" where
  "trim_left_blanks s = dropWhile (\<lambda>c. line_blank c \<or> line_break c) s"

definition ParseSettingsCommands :: "bytes \<Rightarrow> command_error + command_line" where
  "ParseSettingsCommands text =
     (case parse_from empty_line (skipSpace True text) of
        Inl e \<Rightarrow> Inl e
      | Inr (l, rest) \<Rightarrow>
          Inr (l\<lparr> cl_Rest := (if cl_Names l = [] then text else trim_left_blanks rest) \<rparr>))"

section \<open>The text of a change\<close>

definition changeValues :: "settings_change \<Rightarrow> setting \<Rightarrow> bytes option" where
  "changeValues c =
     (let or_default = map_option (\<lambda>v. if v = [] then ''default'' else v) in
      no_settings(SettingModel := ch_Model c, SettingReasoning := or_default (ch_Reasoning c),
                  SettingToolset := or_default (ch_Toolset c), SettingMode := ch_Mode c, SettingPermissionMode := ch_PermissionMode c))"

definition command_text :: "setting \<Rightarrow> bytes \<Rightarrow> bytes" where
  "command_text x v =
     (case x of
        SettingModel \<Rightarrow> ''/model '' @ v
      | SettingReasoning \<Rightarrow> ''/reasoning '' @ v
      | SettingToolset \<Rightarrow> ''/toolset '' @ v
      | SettingMode \<Rightarrow> ''/'' @ v
      | SettingPermissionMode \<Rightarrow> ''/permissions '' @ v)"

definition change_lines :: "settings_change \<Rightarrow> bytes list" where
  "change_lines c =
     (let flag = (if ch_Turns c > 0 then '' --count='' @ digits_of (nat (ch_Turns c)) else []); values = changeValues c in
      map (\<lambda>x. command_text x (value_of values x) @ flag) (sortedSettings values))"

definition FormatSettingsCommands :: "settings_change list \<Rightarrow> bytes" where
  "FormatSettingsCommands changes = join [CHR 0x0A] (concat (map change_lines changes))"

section \<open>A prompt\<close>

datatype prompt_block = TextBlock bytes | OtherBlock bytes

fun first_text :: "prompt_block list \<Rightarrow> nat option" where
  "first_text [] = None"
| "first_text (TextBlock t # bs) = Some 0"
| "first_text (OtherBlock b # bs) = map_option Suc (first_text bs)"

fun block_counts :: "prompt_block \<Rightarrow> bool" where
  "block_counts (TextBlock t) = (trim_space t \<noteq> [])"
| "block_counts (OtherBlock b) = True"

record taken_settings =
  tk_Prompt :: "prompt_block list"
  tk_TurnChanges :: "settings_change list"
  tk_Notice :: bytes
  tk_Handled :: bool
  tk_Names :: "bytes list"

datatype take_error = CommandError command_error | SettingsError settings_error

text \<open>The changes for a number of turns, one after another; the notices so far are kept.\<close>

fun apply_turn_changes :: "settings_cfg \<Rightarrow> settings_change list \<Rightarrow> bytes list \<Rightarrow> settings_state
    \<Rightarrow> (settings_error + bytes list) \<times> settings_state" where
  "apply_turn_changes C [] notices s = (Inr notices, s)"
| "apply_turn_changes C (c # cs) notices s =
     (case applySessionSettings C None c s of
        (Inl e, s') \<Rightarrow> (Inl e, s')
      | (Inr notice, s') \<Rightarrow> apply_turn_changes C cs (notices @ [notice]) s')"

fun first_refusal :: "settings_cfg \<Rightarrow> settings_state \<Rightarrow> settings_change list \<Rightarrow> settings_error option" where
  "first_refusal C s [] = None"
| "first_refusal C s (c # cs) =
     (case validateSettingsChange C s c of Inl e \<Rightarrow> Some e | Inr _ \<Rightarrow> first_refusal C s cs)"

definition apply_session_part :: "settings_cfg \<Rightarrow> settings_change \<Rightarrow> settings_state \<Rightarrow> (settings_error + bytes list) \<times> settings_state" where
  "apply_session_part C c s =
     (if Empty_change c then (Inr [], s)
      else (case applySessionSettings C None c s of
              (Inl e, s') \<Rightarrow> (Inl e, s')
            | (Inr notice, s') \<Rightarrow> (Inr [notice], s')))"

definition takeSettingsCommands :: "settings_cfg \<Rightarrow> settings_error option \<Rightarrow> prompt_block list \<Rightarrow> bytes \<Rightarrow> bool \<Rightarrow> settings_state
    \<Rightarrow> (take_error + taken_settings) \<times> settings_state" where
  "takeSettingsCommands C gate prompt source sessionOnly s =
     (let whole = \<lparr> tk_Prompt = prompt, tk_TurnChanges = [], tk_Notice = [], tk_Handled = False, tk_Names = [] \<rparr>;
          signed = (\<lambda>c. c\<lparr> ch_Source := source, ch_SessionOnly := sessionOnly \<rparr>)
      in case first_text prompt of
           None \<Rightarrow> (Inr whole, s)
         | Some i \<Rightarrow>
      (case ParseSettingsCommands (case prompt ! i of TextBlock t \<Rightarrow> t | OtherBlock _ \<Rightarrow> []) of
           Inl e \<Rightarrow> (Inl (CommandError e), s)
         | Inr l \<Rightarrow>
      (if cl_Names l = [] then (Inr whole, s)
       else case gate of
           Some e \<Rightarrow> (Inl (SettingsError e), s)
         | None \<Rightarrow>
      (case first_refusal C s (cl_Turns l) of
           Some e \<Rightarrow> (Inl (SettingsError e), s)
         | None \<Rightarrow>
      (case apply_session_part C (signed (cl_Session l)) s of
           (Inl e, s') \<Rightarrow> (Inl (SettingsError e), s')
         | (Inr notices, s') \<Rightarrow>
      (let rest = trim_space (cl_Rest l);
           others = list_ex block_counts (take i prompt @ drop (Suc i) prompt);
           turn_changes = map signed (cl_Turns l)
       in if rest = [] \<and> \<not> others
          then (case apply_turn_changes C turn_changes notices s' of
                  (Inl e, s'') \<Rightarrow> (Inl (SettingsError e), s'')
                | (Inr notices, s'') \<Rightarrow>
                    (Inr \<lparr> tk_Prompt = [], tk_TurnChanges = [], tk_Notice = join ''; '' notices, tk_Handled = True,
                           tk_Names = cl_Names l \<rparr>, s''))
          else (Inr \<lparr> tk_Prompt = take i prompt @ (if rest = [] then [] else [TextBlock (cl_Rest l)]) @ drop (Suc i) prompt,
                      tk_TurnChanges = turn_changes, tk_Notice = join ''; '' notices, tk_Handled = False,
                      tk_Names = cl_Names l \<rparr>, s')))))))"

text \<open>A turn an operator starts: the changes for its turns are armed under its lock, and it consumes one of each.\<close>

definition start_operator_turn :: "settings_cfg \<Rightarrow> settings_change list \<Rightarrow> settings_state \<Rightarrow> settings_error option \<times> settings_state" where
  "start_operator_turn C changes s =
     (case apply_turn_changes C changes [] s of
        (Inl e, s') \<Rightarrow> (Some e, s')
      | (Inr _, s') \<Rightarrow> (None, BeginOperatorTurnSettings s'))"

end
