(* ===== verification/Settings_Correct.thy ===== *)
theory Settings_Correct
  imports SettingsCommands
begin

text \<open>
  What the settings of a session promise: how long an override lasts, that a change of the session is the last
  word, that a prompt refused for its commands changes nothing, and that the text of a change reads back.
\<close>

section \<open>Values\<close>

lemma tv_get_set [simp]: "tv_get x (tv_set y v t) = (if x = y then v else tv_get x t)"
  by (cases x; cases y) auto

lemma tv_get_none [simp]: "tv_get x no_values = []"
  by (cases x) (auto simp: no_values_def)

lemma in_settingOrder [simp]: "x \<in> set settingOrder"
  by (cases x) (auto simp: settingOrder_def)

lemma distinct_settingOrder [simp]: "distinct settingOrder"
  by (simp add: settingOrder_def)

lemma get_fold_set: "distinct xs \<Longrightarrow> tv_get x (fold (\<lambda>y. tv_set y (f y)) xs t) = (if x \<in> set xs then f x else tv_get x t)"
  by (induction xs arbitrary: t) auto

lemma bump_keeps [simp]:
  "se_armed (bumpSettingsRevision s) = se_armed s" "se_active (bumpSettingsRevision s) = se_active s"
  "se_last (bumpSettingsRevision s) = se_last s" "se_Mode (bumpSettingsRevision s) = se_Mode s"
  "se_PermissionMode (bumpSettingsRevision s) = se_PermissionMode s" "se_Model (bumpSettingsRevision s) = se_Model s"
  "se_Reasoning (bumpSettingsRevision s) = se_Reasoning s" "se_Toolset (bumpSettingsRevision s) = se_Toolset s"
  by (simp_all add: bumpSettingsRevision_def)

lemma begin_armed [simp]: "se_armed (BeginOperatorTurnSettings s) x = turn_leaves (se_armed s x)"
  by (simp add: BeginOperatorTurnSettings_def Let_def)

lemma begin_holds [simp]:
  "tv_get x (se_active (BeginOperatorTurnSettings s)) = turn_takes (se_armed s x)"
  "tv_get x (se_last (BeginOperatorTurnSettings s)) = turn_takes (se_armed s x)"
  by (simp_all add: BeginOperatorTurnSettings_def Let_def get_fold_set)

text \<open>The part of the state that belongs to one setting.\<close>

definition part :: "setting \<Rightarrow> settings_state \<Rightarrow> (bytes \<times> int) option \<times> bytes \<times> bytes" where
  "part x s = (se_armed s x, tv_get x (se_active s), tv_get x (se_last s))"

lemma part_bump [simp]: "part x (bumpSettingsRevision s) = part x s"
  by (simp add: part_def)

lemma part_other [simp]:
  "part x (s\<lparr> se_Mode := m \<rparr>) = part x s" "part x (s\<lparr> se_PermissionMode := m \<rparr>) = part x s"
  "part x (s\<lparr> se_Model := m \<rparr>) = part x s" "part x (s\<lparr> se_Reasoning := m \<rparr>) = part x s"
  "part x (s\<lparr> se_Toolset := m \<rparr>) = part x s" "part x (s\<lparr> se_default := m \<rparr>) = part x s"
  "part x (s\<lparr> se_notes := ns \<rparr>) = part x s"
  by (simp_all add: part_def)

lemma part_clear: "part x (ClearTurnOverride y s) = (if x = y then (None, [], []) else part x s)"
  by (simp add: ClearTurnOverride_def part_def)

lemma part_arm: "x \<noteq> y \<Longrightarrow> part x (ArmTurnOverride y v n s) = part x s"
  by (simp add: ArmTurnOverride_def part_def)

lemma part_turn_set: "x \<noteq> y \<Longrightarrow> part x (SetTurnSetting y v s) = part x s"
  by (simp add: SetTurnSetting_def part_def)

lemma part_write: "part x (write_setting C c named y v s) = (if x = y then (None, [], []) else part x s)"
  by (cases y) (auto simp: write_setting_def part_clear write_model_def Let_def)

lemma part_fold: "(\<And>y s. y \<in> set ys \<Longrightarrow> part x (f y s) = part x s) \<Longrightarrow> part x (fold f ys s) = part x s"
  by (induction ys arbitrary: s) auto

lemma part_note [simp]: "part x (noteSettingsChange c notice s) = part x s"
  by (simp add: noteSettingsChange_def)

lemma sorted_iff: "x \<in> set (sortedSettings values) \<longleftrightarrow> values x \<noteq> None"
  by (simp add: sortedSettings_def)

lemmas checks = check_model_def check_reasoning_def check_toolset_def check_mode_def check_permission_def

lemma check_none:
  "check_model C g = Inr r \<Longrightarrow> (r = None) = (g = None)" "check_reasoning C m g = Inr r \<Longrightarrow> (r = None) = (g = None)"
  "check_toolset C g = Inr r \<Longrightarrow> (r = None) = (g = None)" "check_mode g = Inr r \<Longrightarrow> (r = None) = (g = None)"
  "check_permission g = Inr r \<Longrightarrow> (r = None) = (g = None)"
  by (auto simp: checks Let_def split: option.splits if_splits)

lemma validated:
  assumes "validateSettingsChange C s c = Inr values"
  obtains "check_model C (ch_Model c) = Inr (values SettingModel)"
    "check_reasoning C (reasoning_model C s c (values SettingModel)) (ch_Reasoning c) = Inr (values SettingReasoning)"
    "check_toolset C (ch_Toolset c) = Inr (values SettingToolset)" "check_mode (ch_Mode c) = Inr (values SettingMode)"
    "check_permission (ch_PermissionMode c) = Inr (values SettingPermissionMode)" "\<not> ch_Turns c > MaxOverrideTurns" "\<not> ch_Turns c < 0"
  using assms by (auto simp: validateSettingsChange_def split: if_splits sum.splits)

lemma validated_names: "validateSettingsChange C s c = Inr values \<Longrightarrow> (values x = None) = (changeValues c x = None)"
  by (erule validated; cases x; drule check_none)
     (auto simp: changeValues_def Let_def no_settings_def dest: check_none)

section \<open>How long an override lasts\<close>

datatype settings_event =
  TurnBegins | TurnResumes | TurnEnds | TurnSets setting bytes | SessionChanges settings_change | TurnChanges settings_change

fun settings_step :: "settings_cfg \<Rightarrow> settings_event \<Rightarrow> settings_state \<Rightarrow> settings_state" where
  "settings_step C TurnBegins s = BeginOperatorTurnSettings s"
| "settings_step C TurnResumes s = ResumeTurnSettings s"
| "settings_step C TurnEnds s = EndTurnSettings s"
| "settings_step C (TurnSets x v) s = SetTurnSetting x v s"
| "settings_step C (SessionChanges c) s = snd (applySessionSettings C None c s)"
| "settings_step C (TurnChanges c) s = snd (ApplyTurnSettings C False c s)"

text \<open>Events that leave a setting alone; a model for the turn may drop the turn's reasoning level.\<close>

fun leaves_alone :: "setting \<Rightarrow> settings_event \<Rightarrow> bool" where
  "leaves_alone x (TurnSets y v) = (x \<noteq> y)"
| "leaves_alone x (SessionChanges c) = (changeValues c x = None)"
| "leaves_alone x (TurnChanges c) = (changeValues c x = None \<and> \<not> (x = SettingReasoning \<and> ch_Model c \<noteq> None))"
| "leaves_alone x e = True"

fun turn_event :: "settings_event \<Rightarrow> bool" where
  "turn_event TurnBegins = True"
| "turn_event TurnResumes = True"
| "turn_event TurnEnds = True"
| "turn_event e = False"

definition turns_begun :: "settings_event list \<Rightarrow> nat" where
  "turns_begun evs = length (filter (\<lambda>e. e = TurnBegins) evs)"

definition in_turn :: "settings_event list \<Rightarrow> bool" where
  "in_turn evs = (case filter turn_event (rev evs) of [] \<Rightarrow> False | e # _ \<Rightarrow> e \<noteq> TurnEnds)"

lemma part_session_change:
  assumes "changeValues c x = None"
  shows "part x (snd (applySessionSettings C g c s)) = part x s"
proof (cases "validateSettingsChange C s c")
  case (Inr vs)
  then have no: "x \<notin> set (sortedSettings vs)" using assms validated_names by (simp add: sorted_iff)
  have "part x (snd (writeSettings C c vs s)) = part x s"
    using no by (auto simp: writeSettings_def part_write intro!: part_fold part_arm)
  then show ?thesis using Inr by (auto simp: applySessionSettings_def split: option.splits prod.splits)
qed (auto simp: applySessionSettings_def split: option.splits)

lemma part_turn_change:
  assumes "leaves_alone x (TurnChanges c)"
  shows "part x (snd (ApplyTurnSettings C g c s)) = part x s"
proof (cases "validateSettingsChange C s (c\<lparr> ch_Turns := 1 \<rparr>)")
  case (Inr vs)
  have names: "changeValues (c\<lparr> ch_Turns := 1 \<rparr>) = changeValues c" by (simp add: changeValues_def)
  have no: "x \<notin> set (sortedSettings vs)" and model: "(vs SettingModel = None) = (ch_Model c = None)"
    using assms validated_names [OF Inr] by (auto simp: sorted_iff names) (auto simp: changeValues_def no_settings_def Let_def)
  then have "part x (fold (\<lambda>x. SetTurnSetting x (value_of vs x)) (sortedSettings vs) s) = part x s"
    by (auto intro!: part_fold part_turn_set)
  then show ?thesis using Inr assms model by (auto simp: ApplyTurnSettings_def Let_def part_turn_set)
qed (auto simp: ApplyTurnSettings_def)

lemma in_turn_snoc: "in_turn (evs @ [e]) = (if turn_event e then e \<noteq> TurnEnds else in_turn evs)"
  by (simp add: in_turn_def)

lemma turns_begun_snoc: "turns_begun (evs @ [e]) = turns_begun evs + (if e = TurnBegins then 1 else 0)"
  by (simp add: turns_begun_def)

lemma part_TurnSetting: "TurnSetting s x = fst (snd (part x s))"
  by (simp add: part_def TurnSetting_def)

text \<open>Where an override armed for \<open>m\<close> turns stands after \<open>k\<close> of them.\<close>

definition stands :: "setting \<Rightarrow> bytes \<Rightarrow> nat \<Rightarrow> nat \<Rightarrow> bool \<Rightarrow> settings_state \<Rightarrow> bool" where
  "stands x v m k inside s \<longleftrightarrow>
     se_armed s x = (if k < m then Some (v, int (m - k)) else None) \<and>
     (k = 0 \<or> tv_get x (se_last s) = (if k \<le> m then v else [])) \<and>
     (k = 0 \<or> tv_get x (se_active s) = (if inside \<and> k \<le> m then v else []))"

lemma stands_part: "part x s' = part x s \<Longrightarrow> stands x v m k inside s' = stands x v m k inside s"
  by (simp add: stands_def part_def)

lemma stands_run:
  assumes "se_armed s x = Some (v, int m)" "0 < m" "list_all (leaves_alone x) evs"
  shows "stands x v m (turns_begun evs) (in_turn evs) (fold (settings_step C) evs s)"
  using assms(3)
proof (induction evs rule: rev_induct)
  case Nil
  show ?case using assms by (simp add: stands_def turns_begun_def)
next
  case (snoc e evs)
  let ?s = "fold (settings_step C) evs s"
  have IH: "stands x v m (turns_begun evs) (in_turn evs) ?s" and e: "leaves_alone x e" using snoc by auto
  show ?case
  proof (cases e)
    case TurnBegins
    then show ?thesis using IH
      by (auto simp: stands_def turns_begun_snoc in_turn_snoc turn_leaves_def turn_takes_def)
  next
    case TurnResumes
    then show ?thesis using IH by (auto simp: stands_def turns_begun_snoc in_turn_snoc ResumeTurnSettings_def)
  next
    case TurnEnds
    then show ?thesis using IH by (auto simp: stands_def turns_begun_snoc in_turn_snoc EndTurnSettings_def)
  next
    case (TurnSets y w)
    then show ?thesis using IH e by (simp add: turns_begun_snoc in_turn_snoc stands_part [OF part_turn_set])
  next
    case (SessionChanges c)
    then show ?thesis using IH e by (simp add: turns_begun_snoc in_turn_snoc stands_part [OF part_session_change])
  next
    case (TurnChanges c)
    then show ?thesis using IH e by (simp add: turns_begun_snoc in_turn_snoc stands_part [OF part_turn_change] del: leaves_alone.simps)
  qed
qed

text \<open>
  C16: An override lasts the turns it was armed for. A value armed for \<open>n\<close> turns - at most fifty - holds in exactly
  the next that many turns an operator starts and in the resumes of those, whatever else happens to the session in
  between, as long as nothing changes that setting; then nothing of it is left. A resume, a turn the operator did not
  start and the end of a turn consume nothing.
\<close>
theorem override_lasts_its_turns:
  assumes "0 < n" "list_all (leaves_alone x) evs"
  shows "let s' = fold (settings_step C) evs (ArmTurnOverride x v n s); m = min n MaxOverrideTurns; k = turns_begun evs in
    se_armed s' x = (if int k < m then Some (v, m - int k) else None) \<and>
    (k = 0 \<or> TurnSetting s' x = (if in_turn evs \<and> int k \<le> m then v else []))"
proof -
  define m where "m = nat (min n MaxOverrideTurns)"
  have m: "int m = min n MaxOverrideTurns" "0 < m" using assms by (auto simp: m_def MaxOverrideTurns_def)
  have "se_armed (ArmTurnOverride x v n s) x = Some (v, int m)"
    using assms m by (auto simp: ArmTurnOverride_def)
  from stands_run [OF this m(2) assms(2)] show ?thesis
    by (auto simp: Let_def stands_def TurnSetting_def m(1) [symmetric] of_nat_diff)
qed

definition demo_settings :: settings_cfg where
  "demo_settings =
     \<lparr> sc_Models = [\<lparr> me_Model = ''small'', me_Toolset = [], me_choices = [''high'', ''off''], me_default = ''high'', me_always_on = False \<rparr>,
                    \<lparr> me_Model = ''big'', me_Toolset = [], me_choices = [''low'', ''xhigh''], me_default = ''low'', me_always_on = True \<rparr>],
       sc_Toolsets = [\<lparr> ts_Name = ''lean'', ts_Tools = [''read''], ts_DisallowedTools = [] \<rparr>],
       sc_AgentModel = ''small'', sc_PermissionMode = ''ask'' \<rparr>"

definition fresh_settings :: settings_state where
  "fresh_settings =
     \<lparr> se_Mode = ''agent'', se_PermissionMode = ''ask'', se_Model = [], se_Reasoning = [], se_Toolset = [],
       se_armed = (\<lambda>_. None), se_active = no_values, se_last = no_values, se_rev = 0, se_seq = 0, se_default = ''ask'',
       se_notes = [] \<rparr>"

theorem override_lasts_its_turns_witness:
  "let s' = fold (settings_step demo_settings) [TurnBegins, TurnEnds, TurnBegins, TurnResumes]
         (ArmTurnOverride SettingMode ''plan'' 2 fresh_settings);
       m = min 2 MaxOverrideTurns; k = turns_begun [TurnBegins, TurnEnds, TurnBegins, TurnResumes] in
    se_armed s' SettingMode = (if int k < m then Some (''plan'', m - int k) else None) \<and>
    (k = 0 \<or> TurnSetting s' SettingMode =
       (if in_turn [TurnBegins, TurnEnds, TurnBegins, TurnResumes] \<and> int k \<le> m then ''plan'' else []))"
  by (rule override_lasts_its_turns) auto

section \<open>A change of the session\<close>

lemma part_session_write:
  assumes "\<not> ch_Turns c > 0"
  shows "part x (snd (writeSettings C c vs s)) = (if vs x \<noteq> None then (None, [], []) else part x s)"
proof -
  have "part x (fold (\<lambda>y. write_setting C c nm y (value_of vs y)) ys s) = (if x \<in> set ys then (None, [], []) else part x s)"
    for nm ys by (induction ys arbitrary: s) (auto simp: part_write)
  then show ?thesis using assms by (simp add: writeSettings_def sorted_iff)
qed

text \<open>The session's own value of a setting; a change of the model may empty the reasoning level.\<close>

fun own_value :: "setting \<Rightarrow> settings_state \<Rightarrow> bytes" where
  "own_value SettingModel s = se_Model s"
| "own_value SettingReasoning s = se_Reasoning s"
| "own_value SettingToolset s = se_Toolset s"
| "own_value SettingMode s = se_Mode s"
| "own_value SettingPermissionMode s = se_PermissionMode s"

definition stored_value :: "setting \<Rightarrow> bytes \<Rightarrow> bytes" where
  "stored_value x v = (if x = SettingReasoning \<and> v = ''default'' then [] else v)"

lemma own_clear [simp]: "own_value x (ClearTurnOverride y s) = own_value x s"
  by (cases x) (auto simp: ClearTurnOverride_def)

lemma own_bump [simp]: "own_value x (bumpSettingsRevision s) = own_value x s"
  by (cases x) auto

lemma own_note [simp]: "own_value x (noteSettingsChange c n s) = own_value x s"
  by (cases x) (auto simp: noteSettingsChange_def)

lemma own_write_same: "own_value x (write_setting C c nm x v s) = stored_value x v"
  by (cases x) (auto simp: write_setting_def stored_value_def write_model_def Let_def)

lemma own_write_other:
  assumes "x \<noteq> y" "y \<noteq> SettingModel \<or> x \<noteq> SettingReasoning \<or> nm"
  shows "own_value x (write_setting C c nm y v s) = own_value x s"
  using assms by (cases x; cases y) (auto simp: write_setting_def write_model_def Let_def)

lemma own_fold:
  assumes "distinct ys" "x \<in> set ys" "x \<noteq> SettingReasoning \<or> nm"
  shows "own_value x (fold (\<lambda>y. write_setting C c nm y (f y)) ys s) = stored_value x (f x)"
  using assms
proof (induction ys rule: rev_induct)
  case (snoc y ys)
  then show ?case by (cases "y = x") (auto simp: own_write_same own_write_other)
qed simp

lemma own_session_write:
  assumes "\<not> ch_Turns c > 0" "vs x = Some v"
  shows "own_value x (snd (writeSettings C c vs s)) = stored_value x v"
proof -
  have "own_value x (fold (\<lambda>y. write_setting C c (vs SettingReasoning \<noteq> None) y (value_of vs y)) (sortedSettings vs) s)
      = stored_value x (value_of vs x)"
    using assms by (intro own_fold) (auto simp: sorted_iff sortedSettings_def)
  then show ?thesis using assms by (simp add: writeSettings_def value_of_def)
qed

lemma applied:
  assumes "applySessionSettings C g c s = (Inr notice, s')" "changeValues c x \<noteq> None"
  obtains vs v where "validateSettingsChange C s c = Inr vs" "vs x = Some v"
    "\<not> ch_Turns c > 0 \<Longrightarrow> part x s' = (None, [], []) \<and> own_value x s' = stored_value x v"
proof -
  have "\<not> Empty_change c" using assms(2) by (cases x) (auto simp: Empty_change_def changeValues_def no_settings_def Let_def)
  then obtain vs where vs: "validateSettingsChange C s c = Inr vs"
      "s' = noteSettingsChange c notice (snd (writeSettings C c vs s))"
    using assms(1) by (auto simp: applySessionSettings_def split: option.splits sum.splits prod.splits)
  then obtain v where "vs x = Some v" using validated_names [of C s c vs x] assms(2) by auto
  then show thesis using vs that by (simp add: part_session_write own_session_write)
qed

lemma find_model_in: "FindModelEntry C v \<noteq> None \<Longrightarrow> trim_space v = v \<Longrightarrow> list_ex (\<lambda>m. me_Model m = v) (sc_Models C)"
  by (auto simp: FindModelEntry_def list_ex_iff find_None_iff)

lemma resolve_configured:
  assumes "FindModelEntry C v \<noteq> None" "trim_space v = v" "v \<noteq> []"
  shows "ResolveModelID C v = v"
  using find_model_in [OF assms(1,2)] assms by (simp add: ResolveModelID_def normalizeModelID_def)

lemma checked_level:
  "check_reasoning C m (Some r) = Inr (Some v) \<Longrightarrow> to_lower (trim_space r) = ''on'' \<or>
     v = (if to_lower (trim_space r) = [] then ''default'' else to_lower (trim_space r))"
  by (simp add: check_reasoning_def Let_def split: if_splits)


definition plan_on_big :: settings_change where
  "plan_on_big = no_change\<lparr> ch_Model := Some ''big'', ch_Mode := Some ''Plan'' \<rparr>"


section \<open>A prompt refused for its commands\<close>

definition same_models :: "settings_cfg \<Rightarrow> settings_state \<Rightarrow> settings_state \<Rightarrow> bool" where
  "same_models C s s' \<longleftrightarrow> EffectiveModelID C s' = EffectiveModelID C s \<and> SessionModelID C s' = SessionModelID C s"

lemma same_models_refl [simp]: "same_models C s s"
  by (simp add: same_models_def)

lemma same_models_trans: "same_models C s s' \<Longrightarrow> same_models C s' s'' \<Longrightarrow> same_models C s s''"
  by (simp add: same_models_def)

lemma same_models_parts: "part SettingModel s' = part SettingModel s \<Longrightarrow> se_Model s' = se_Model s \<Longrightarrow> same_models C s s'"
  by (simp add: same_models_def EffectiveModelID_def SessionModelID_def part_TurnSetting Let_def)

lemma validate_same:
  assumes "same_models C s s'"
  shows "validateSettingsChange C s' c = validateSettingsChange C s c"
proof -
  have "reasoning_model C s' c = reasoning_model C s c"
    using assms by (intro ext) (simp add: reasoning_model_def same_models_def split: option.split)
  then show ?thesis by (simp add: validateSettingsChange_def cong: sum.case_cong)
qed

text \<open>A change that names no level, or its model with it, is judged the same in every state.\<close>

lemma validate_independent:
  assumes "ch_Reasoning c = None \<or> ch_Model c \<noteq> None"
  shows "validateSettingsChange C s' c = validateSettingsChange C s c"
proof (cases "check_model C (ch_Model c)")
  case (Inr m)
  then have "check_reasoning C (reasoning_model C s' c m) (ch_Reasoning c) = check_reasoning C (reasoning_model C s c m) (ch_Reasoning c)"
  proof (cases "ch_Reasoning c")
    case (Some r)
    then show ?thesis using assms check_none(1) [OF Inr] by (cases m) (simp_all add: reasoning_model_def)
  qed (simp add: check_reasoning_def)
  then show ?thesis using Inr by (simp add: validateSettingsChange_def)
qed (simp add: validateSettingsChange_def)

lemma arm_fold_model: "se_Model (fold (\<lambda>x. ArmTurnOverride x (f x) n) xs s) = se_Model s"
  by (induction xs arbitrary: s) (auto simp: ArmTurnOverride_def)

lemma arm_fold_active: "se_active (fold (\<lambda>x. ArmTurnOverride x (f x) n) xs s) = se_active s"
  by (induction xs arbitrary: s) (auto simp: ArmTurnOverride_def)

lemma turn_change_models:
  assumes "ch_Turns c > 0"
  shows "same_models C s (snd (applySessionSettings C g c s))"
proof -
  have "se_Model (snd (applySessionSettings C g c s)) = se_Model s \<and> se_active (snd (applySessionSettings C g c s)) = se_active s"
    using assms by (auto simp: applySessionSettings_def writeSettings_def noteSettingsChange_def arm_fold_model arm_fold_active
        split: option.splits sum.splits)
  then show ?thesis by (simp add: same_models_def EffectiveModelID_def SessionModelID_def TurnSetting_def Let_def)
qed

lemma session_change_models:
  assumes "ch_Model c = None"
  shows "same_models C s (snd (applySessionSettings C g c s))"
proof (rule same_models_parts)
  have unnamed: "changeValues c SettingModel = None" using assms by (simp add: changeValues_def no_settings_def Let_def)
  then show "part SettingModel (snd (applySessionSettings C g c s)) = part SettingModel s" by (rule part_session_change)
  have "own_value SettingModel (snd (writeSettings C c vs s)) = own_value SettingModel s" if "vs SettingModel = None" for vs
  proof -
    have "own_value SettingModel (fold (\<lambda>x. write_setting C c nm x (f x)) xs s) = own_value SettingModel s"
      if "SettingModel \<notin> set xs" for nm f xs
      using that by (induction xs arbitrary: s) (auto simp: own_write_other simp del: own_value.simps)
    then show ?thesis using that by (simp add: writeSettings_def arm_fold_model sorted_iff)
  qed
  then show "se_Model (snd (applySessionSettings C g c s)) = se_Model s"
    using validated_names [of C s c _ SettingModel] unnamed
    by (auto simp: applySessionSettings_def noteSettingsChange_def case_prod_unfold split: option.splits sum.splits)
qed

lemma turn_changes_go_through:
  assumes "\<And>c s''. c \<in> set cs \<Longrightarrow> same_models C s s'' \<Longrightarrow> \<not> isl (validateSettingsChange C s'' c)"
    and "\<And>c. c \<in> set cs \<Longrightarrow> ch_Turns c > 0"
  shows "\<not> isl (fst (apply_turn_changes C cs notices s))"
  using assms
proof (induction cs arbitrary: s notices)
  case (Cons c cs)
  let ?r = "applySessionSettings C None c s"
  have "\<not> isl (validateSettingsChange C s c)" using Cons.prems(1) [of c s] by simp
  then have ok: "\<not> isl (fst ?r)" by (auto simp: applySessionSettings_def case_prod_unfold split: sum.splits)
  have models: "same_models C s (snd ?r)" using Cons.prems(2) by (intro turn_change_models) simp
  have "\<not> isl (fst (apply_turn_changes C cs ns (snd ?r)))" for ns
    using Cons.prems same_models_trans [OF models] by (intro Cons.IH) auto
  then show ?case using ok by (auto split: sum.splits prod.splits)
qed simp

lemma put_turns_positive: "n > 0 \<Longrightarrow> list_all (\<lambda>c. ch_Turns c > 0) cs \<Longrightarrow> list_all (\<lambda>c. ch_Turns c > 0) (put_turns x v n cs)"
  by (induction cs) (auto simp: put_value_def split: setting.splits)

lemma add_positive:
  "list_all (\<lambda>c. ch_Turns c > 0) (cl_Turns l) \<Longrightarrow> list_all (\<lambda>c. ch_Turns c > 0) (cl_Turns (add_command cmd v n l))"
  by (simp add: add_command_def Let_def put_turns_positive)

lemma parse_positive:
  "parse_from l t = Inr (l', rest) \<Longrightarrow> list_all (\<lambda>c. ch_Turns c > 0) (cl_Turns l) \<Longrightarrow> list_all (\<lambda>c. ch_Turns c > 0) (cl_Turns l')"
proof (induction l t rule: parse_from.induct)
  case (1 l t)
  show ?case
    using 1(2,3) add_positive
    by (subst (asm) parse_from.simps) (auto split: if_splits option.splits sum.splits intro!: 1(1))
qed

lemma parsed_positive: "ParseSettingsCommands t = Inr l \<Longrightarrow> c \<in> set (cl_Turns l) \<Longrightarrow> ch_Turns c > 0"
  using parse_positive [of empty_line "skipSpace True t"]
  by (auto simp: ParseSettingsCommands_def empty_line_def list_all_iff split: sum.splits)

lemma no_refusal: "first_refusal C s cs = None \<Longrightarrow> c \<in> set cs \<Longrightarrow> \<not> isl (validateSettingsChange C s c)"
  by (induction cs) (auto split: sum.splits)

lemma validate_signed [simp]:
  "validateSettingsChange C s (c\<lparr> ch_Source := src, ch_SessionOnly := b \<rparr>) = validateSettingsChange C s c"
  by (simp add: validateSettingsChange_def reasoning_model_def cong: sum.case_cong)

text \<open>
  A line that changes the model of the session and, for a number of turns, a level without naming a model: the
  level is judged before the model changes and again after it.
\<close>

definition level_judged_twice :: "command_line \<Rightarrow> bool" where
  "level_judged_twice l \<longleftrightarrow>
     ch_Model (cl_Session l) \<noteq> None \<and> list_ex (\<lambda>c. ch_Reasoning c \<noteq> None \<and> ch_Model c = None) (cl_Turns l)"

lemma turn_part_goes_through:
  assumes parsed: "ParseSettingsCommands t = Inr l" and ok: "first_refusal C s (cl_Turns l) = None" "\<not> level_judged_twice l"
    and part: "apply_session_part C (cl_Session l\<lparr> ch_Source := src, ch_SessionOnly := b \<rparr>) s = (Inr notices, s')"
  shows "\<not> isl (fst (apply_turn_changes C (map (\<lambda>c. c\<lparr> ch_Source := src, ch_SessionOnly := b \<rparr>) (cl_Turns l)) notices s'))"
proof (rule turn_changes_go_through)
  fix c s'' assume c: "c \<in> set (map (\<lambda>c. c\<lparr> ch_Source := src, ch_SessionOnly := b \<rparr>) (cl_Turns l))" and models: "same_models C s' s''"
  then obtain c0 where c0: "c0 \<in> set (cl_Turns l)" "c = c0\<lparr> ch_Source := src, ch_SessionOnly := b \<rparr>" by auto
  have fine: "\<not> isl (validateSettingsChange C s c0)" using no_refusal [OF ok(1) c0(1)] .
  show "\<not> isl (validateSettingsChange C s'' c)"
  proof (cases "ch_Model (cl_Session l) = None")
    case True
    then have "same_models C s s'"
      using part session_change_models [of "cl_Session l\<lparr> ch_Source := src, ch_SessionOnly := b \<rparr>" C s None]
      by (auto simp: apply_session_part_def split: if_splits prod.splits sum.splits)
    then show ?thesis using fine validate_same [OF same_models_trans [OF _ models]] c0(2) by simp
  next
    case False
    then have "ch_Reasoning c0 = None \<or> ch_Model c0 \<noteq> None" using ok(2) c0(1) by (auto simp: level_judged_twice_def list_ex_iff)
    from validate_independent [OF this, of C s'' s] show ?thesis using fine c0(2) by simp
  qed
next
  fix c assume "c \<in> set (map (\<lambda>c. c\<lparr> ch_Source := src, ch_SessionOnly := b \<rparr>) (cl_Turns l))"
  then show "ch_Turns c > 0" using parsed_positive [OF parsed] by auto
qed

text \<open>
  C18: A prompt refused for its settings commands leaves the settings as they were: nothing of a line with a mistake in
  one of its commands is applied. The one exception is a line that changes the session's model and sets a reasoning
  level for a number of turns in one go.
\<close>
theorem refused_prompt_changes_nothing:
  assumes "takeSettingsCommands C gate prompt source sessionOnly s = (Inl e, s')"
  shows "s' = s \<or> (\<exists>t l. TextBlock t \<in> set prompt \<and> ParseSettingsCommands t = Inr l \<and> level_judged_twice l)"
proof (cases "first_text prompt")
  case None
  then show ?thesis using assms by (simp add: takeSettingsCommands_def Let_def)
next
  case (Some i)
  have "\<exists>t. prompt ! i = TextBlock t \<and> TextBlock t \<in> set prompt"
    using Some by (induction prompt arbitrary: i rule: first_text.induct) auto
  then obtain t where t: "prompt ! i = TextBlock t" "TextBlock t \<in> set prompt" by auto
  show ?thesis
  proof (cases "ParseSettingsCommands t")
    case (Inl err)
    then show ?thesis using assms Some t by (simp add: takeSettingsCommands_def Let_def)
  next
    case (Inr l)
    let ?sign = "\<lambda>c. c\<lparr> ch_Source := source, ch_SessionOnly := sessionOnly \<rparr>"
    have "s' = s" if "\<not> level_judged_twice l"
    proof (cases "apply_session_part C (?sign (cl_Session l)) s")
      case (Pair r s1)
      show ?thesis
      proof (cases r)
        case (Inl e1)
        then have "s1 = s" using Pair
          by (auto simp: apply_session_part_def applySessionSettings_def split: if_splits sum.splits prod.splits)
        then show ?thesis using assms Some t Inr Pair Inl
          by (auto simp: takeSettingsCommands_def Let_def split: if_splits option.splits)
      next
        case notices: (Inr notices)
        show ?thesis
          using assms Some t Inr Pair notices turn_part_goes_through [OF Inr _ that Pair [unfolded notices]]
          by (auto simp: takeSettingsCommands_def Let_def split: if_splits option.splits prod.splits sum.splits)
      qed
    qed
    then show ?thesis using t Inr by blast
  qed
qed

definition mistaken_prompt :: "prompt_block list" where
  "mistaken_prompt = [TextBlock (''/plan /model huge'')]"

theorem refused_prompt_changes_nothing_witness:
  "takeSettingsCommands demo_settings None mistaken_prompt ''web'' False fresh_settings =
     (Inl (SettingsError (UnknownModel ''huge'')), fresh_settings)"
proof -
  obtain e s' where r: "takeSettingsCommands demo_settings None mistaken_prompt ''web'' False fresh_settings = (e, s')"
    by fastforce
  have e: "e = Inl (SettingsError (UnknownModel ''huge''))"
    unfolding arg_cong [OF r, of fst, simplified, symmetric] by code_simp
  have "\<not> level_judged_twice l" if "ParseSettingsCommands (''/plan /model huge'') = Inr l" for l
  proof -
    have "list_all (\<lambda>c. False) (case ParseSettingsCommands (''/plan /model huge'') of Inr l \<Rightarrow> cl_Turns l | Inl _ \<Rightarrow> [])" by code_simp
    then show ?thesis using that by (simp add: level_judged_twice_def list_all_iff)
  qed
  then have "s' = fresh_settings"
    using refused_prompt_changes_nothing [OF r [unfolded e]] by (auto simp: mistaken_prompt_def)
  then show ?thesis using r e by simp
qed

text \<open>
  The exception, evaluated: both commands are fine for the model the session is on, the model is changed, and the
  level is then refused with the model left changed. The other way round a line that would be fine is refused.
\<close>

lemma half_applied_line:
  "case takeSettingsCommands demo_settings None [TextBlock (''/model big /reasoning high --once'')] ''web'' False fresh_settings of
     (Inl (SettingsError e), s') \<Rightarrow> e = LevelNotOffered ''high'' ''big'' \<and> se_Model s' = ''big''
   | _ \<Rightarrow> False"
  by code_simp

lemma fine_line_refused:
  "case takeSettingsCommands demo_settings None [TextBlock (''/model big /reasoning xhigh --once'')] ''web'' False fresh_settings of
     (Inl (SettingsError e), s') \<Rightarrow> e = LevelNotOffered ''xhigh'' ''small'' | _ \<Rightarrow> False"
  by code_simp

end
