(* ===== verification/SettingsCommands_Correct.thy ===== *)
theory SettingsCommands_Correct
  imports SettingsCommands
begin

text \<open>
  The text that asks for a change of settings is read back as that change, and reading commands loses nothing of the
  prompt behind them.
\<close>

section \<open>One command\<close>

definition plain_word :: "bytes \<Rightarrow> bool" where
  "plain_word v \<longleftrightarrow> v \<noteq> [] \<and> list_all word_char v \<and> hd v \<noteq> CHR ''-'' \<and> hd v \<noteq> CHR ''/''"

definition ends_word :: "bytes \<Rightarrow> bool" where
  "ends_word r \<longleftrightarrow> r = [] \<or> \<not> word_char (hd r)"

lemma take_word: "list_all word_char w \<Longrightarrow> ends_word r \<Longrightarrow> next_word (w @ r) = w \<and> after_word (w @ r) = r"
  unfolding next_word_def after_word_def ends_word_def
  by (cases r) (auto simp: list_all_iff takeWhile_append dropWhile_append)

lemma skip_to_word: "w \<noteq> [] \<Longrightarrow> list_all word_char w \<Longrightarrow> skipSpace False (CHR '' '' # w @ r) = w @ r"
  by (cases w) (auto simp: skipSpace_def line_blank_def word_char_def)

lemma line_end_skip: "at_line_end r \<Longrightarrow> skipSpace False r = r"
  by (cases r) (auto simp: at_line_end_def skipSpace_def line_blank_def line_break_def)

lemma line_end_ends: "at_line_end r \<Longrightarrow> ends_word r"
  by (auto simp: at_line_end_def ends_word_def word_char_def)

lemma words_end: "at_line_end r \<Longrightarrow> command_words cmd v n r = Inr (r, v, n)"
  by (subst command_words.simps) (simp add: line_end_skip)

lemma word_not_line_end: "w \<noteq> [] \<Longrightarrow> list_all word_char w \<Longrightarrow> \<not> at_line_end (w @ r)"
  by (cases w) (auto simp: at_line_end_def word_char_def)

lemma plain_word_prefixes:
  "plain_word w \<Longrightarrow> w \<noteq> ''--once'' \<and> w \<noteq> ''--count'' \<and> \<not> has_prefix w ''--count='' \<and> \<not> has_prefix w ''--'' \<and> \<not> has_prefix w ''/''"
  by (cases w) (auto simp: plain_word_def has_prefix_def)

lemma words_value:
  assumes "plain_word w" "ends_word r" "cmd_arg cmd = ArgRequired"
  shows "command_words cmd None n (CHR '' '' # w @ r) = command_words cmd (Some w) n r"
proof -
  have w: "w \<noteq> []" "list_all word_char w" using assms(1) by (auto simp: plain_word_def)
  show ?thesis
    using plain_word_prefixes [OF assms(1)] take_word [OF w(2) assms(2)] skip_to_word [OF w, of r] word_not_line_end [OF w, of r] assms(3)
    by (subst command_words.simps) (simp add: Let_def)
qed

definition count_flag :: "int \<Rightarrow> bytes" where
  "count_flag n = (if n > 0 then '' --count='' @ digits_of (nat n) else [])"

lemma digit_word_char: "is_digit c \<Longrightarrow> word_char c"
  by (auto simp: is_digit_def word_char_def line_blank_def line_break_def)

lemma words_count:
  assumes "0 < n" "n \<le> MaxOverrideTurns" "ends_word r"
  shows "command_words cmd v k (count_flag n @ r) = command_words cmd v n r"
proof -
  let ?w = "''--count='' @ digits_of (nat n)"
  have w: "?w \<noteq> []" "list_all word_char ?w"
    using digits_of_digits [of "nat n"] digit_word_char by (auto simp: list_all_iff word_char_def line_blank_def line_break_def)
  have flag: "count_flag n @ r = CHR '' '' # ?w @ r" using assms(1) by (simp add: count_flag_def)
  have "in_int64 (int (nat n))" using assms by (simp add: in_int64_def MaxOverrideTurns_def)
  then have number: "Atoi (digits_of (nat n)) = Some n" using Atoi_digits [of "nat n"] assms(1) by simp
  have shape: "?w \<noteq> ''--once''" "?w \<noteq> ''--count''" "has_prefix ?w ''--count=''" "trim_prefix ?w ''--count='' = digits_of (nat n)"
    by (simp_all add: has_prefix_def trim_prefix_def)
  show ?thesis
    unfolding flag
    using take_word [OF w(2) assms(3)] skip_to_word [OF w, of r] word_not_line_end [OF w, of r] shape number assms
    by (subst command_words.simps) (simp add: Let_def del: append.simps)
qed

lemma words_flag:
  assumes "n \<le> MaxOverrideTurns" "at_line_end r"
  shows "command_words cmd v 0 (count_flag n @ r) = Inr (r, v, max n 0)"
  using assms words_count [of n r cmd v 0] words_end [OF assms(2)] line_end_ends [OF assms(2)]
  by (cases "n > 0") (auto simp: count_flag_def)

text \<open>The values a line can carry.\<close>

fun writable :: "setting \<Rightarrow> bytes \<Rightarrow> bool" where
  "writable SettingModel v = plain_word v"
| "writable SettingReasoning v = (plain_word v \<and> to_lower v = v)"
| "writable SettingToolset v = plain_word v"
| "writable SettingMode v = List.member [''agent'', ''plan'', ''ask''] v"
| "writable SettingPermissionMode v = List.member [''ask'', ''accept_edits'', ''bypass''] v"

text \<open>The command of a line: its word, and the rest of the line before its count.\<close>

fun line_word :: "setting \<Rightarrow> bytes \<Rightarrow> bytes" where
  "line_word SettingModel v = ''/model''"
| "line_word SettingReasoning v = ''/reasoning''"
| "line_word SettingToolset v = ''/toolset''"
| "line_word SettingMode v = ''/'' @ v"
| "line_word SettingPermissionMode v = ''/permissions''"

definition line_value :: "setting \<Rightarrow> bytes \<Rightarrow> bytes" where
  "line_value x v = (if x = SettingMode then [] else CHR '' '' # v)"

lemma command_text_split: "command_text x v = line_word x v @ line_value x v"
  by (cases x) (auto simp: command_text_def line_value_def)

lemma find_command:
  "writable x v \<Longrightarrow> \<exists>cmd. LookupSettingsCommand (line_word x v) = Some cmd \<and> cmd_Setting cmd = x \<and>
     cmd_arg cmd = (if x = SettingMode then ArgNone else ArgRequired) \<and> (x = SettingMode \<longrightarrow> cmd_value cmd = v)"
proof (cases x)
  case SettingMode
  assume "writable x v"
  then consider "v = ''agent''" | "v = ''plan''" | "v = ''ask''" by (auto simp: SettingMode)
  then show ?thesis
  proof cases
    case 1
    have "LookupSettingsCommand ''/agent'' = Some (settingsCommands ! 5)" by code_simp
    then show ?thesis using 1 SettingMode by (simp add: settingsCommands_def)
  next
    case 2
    have "LookupSettingsCommand ''/plan'' = Some (settingsCommands ! 6)" by code_simp
    then show ?thesis using 2 SettingMode by (simp add: settingsCommands_def)
  next
    case 3
    have "LookupSettingsCommand ''/ask'' = Some (settingsCommands ! 7)" by code_simp
    then show ?thesis using 3 SettingMode by (simp add: settingsCommands_def)
  qed
next
  case SettingModel
  have "LookupSettingsCommand ''/model'' = Some (settingsCommands ! 0)" by code_simp
  then show ?thesis using SettingModel by (simp add: settingsCommands_def)
next
  case SettingReasoning
  have "LookupSettingsCommand ''/reasoning'' = Some (settingsCommands ! 1)" by code_simp
  then show ?thesis using SettingReasoning by (simp add: settingsCommands_def)
next
  case SettingToolset
  have "LookupSettingsCommand ''/toolset'' = Some (settingsCommands ! 4)" by code_simp
  then show ?thesis using SettingToolset by (simp add: settingsCommands_def)
next
  case SettingPermissionMode
  have "LookupSettingsCommand ''/permissions'' = Some (settingsCommands ! 8)" by code_simp
  then show ?thesis using SettingPermissionMode by (simp add: settingsCommands_def)
qed

lemma writable_plain: "writable x v \<Longrightarrow> plain_word v"
  by (cases x) (auto simp: plain_word_def word_char_def line_blank_def line_break_def)

lemma line_word_chars: "writable x v \<Longrightarrow> list_all word_char (line_word x v) \<and> has_prefix (line_word x v) ''/''"
  by (drule writable_plain) (cases x; auto simp: plain_word_def word_char_def line_blank_def line_break_def has_prefix_def)

lemma permission_word_fixed:
  "List.member [''ask'', ''accept_edits'', ''bypass''] v \<Longrightarrow> normalizePermissionWord v = v"
proof -
  have "list_all (\<lambda>v. normalizePermissionWord v = v) [''ask'', ''accept_edits'', ''bypass'']" by code_simp
  then show "List.member [''ask'', ''accept_edits'', ''bypass''] v \<Longrightarrow> normalizePermissionWord v = v" by auto
qed

lemma flag_ends: "at_line_end r \<Longrightarrow> ends_word (count_flag n @ r)"
  using line_end_ends by (auto simp: count_flag_def ends_word_def word_char_def line_blank_def)

lemma parse_words_of_line:
  assumes "writable x v" "n \<le> MaxOverrideTurns" "at_line_end r"
    and cmd: "cmd_Setting cmd = x" "cmd_arg cmd = (if x = SettingMode then ArgNone else ArgRequired)" "x = SettingMode \<longrightarrow> cmd_value cmd = v"
  shows "parseCommandWords cmd (line_value x v @ count_flag n @ r) = Inr (r, v, max n 0)"
proof (cases "x = SettingMode")
  case True
  then show ?thesis using cmd words_flag [OF assms(2,3)] by (simp add: parseCommandWords_def line_value_def)
next
  case False
  have "command_words cmd None 0 (line_value x v @ count_flag n @ r) = Inr (r, Some v, max n 0)"
    using False words_value [OF writable_plain [OF assms(1)] flag_ends [OF assms(3)]] cmd words_flag [OF assms(2,3)]
    by (simp add: line_value_def)
  then show ?thesis using False assms(1) cmd permission_word_fixed by (cases x) (auto simp: parseCommandWords_def)
qed

text \<open>What a line does to a command line being read; the name taken is of no interest here.\<close>

definition put_item :: "setting \<times> bytes \<times> int \<Rightarrow> command_line \<Rightarrow> command_line" where
  "put_item i l = (case i of (x, v, n) \<Rightarrow>
     if n > 0 then l\<lparr> cl_Turns := put_turns x v n (cl_Turns l) \<rparr> else l\<lparr> cl_Session := put_value x v (cl_Session l) \<rparr>)"

definition same_changes :: "command_line \<Rightarrow> command_line \<Rightarrow> bool" where
  "same_changes l l' \<longleftrightarrow> cl_Session l = cl_Session l' \<and> cl_Turns l = cl_Turns l'"

definition item_text :: "setting \<times> bytes \<times> int \<Rightarrow> bytes" where
  "item_text i = (case i of (x, v, n) \<Rightarrow> command_text x v @ count_flag n)"

definition item_ok :: "setting \<times> bytes \<times> int \<Rightarrow> bool" where
  "item_ok i = (case i of (x, v, n) \<Rightarrow> writable x v \<and> 0 \<le> n \<and> n \<le> MaxOverrideTurns)"

lemma parse_line:
  assumes "item_ok i"
  obtains l' where "parse_from l (item_text i @ CHR 0x0A # t) = parse_from l' (skipSpace True t)" "same_changes l' (put_item i l)"
    "cl_Names l' \<noteq> []"
proof -
  obtain x v n where i: "i = (x, v, n)" by (cases i) auto
  have ok: "writable x v" "0 \<le> n" "n \<le> MaxOverrideTurns" using assms by (auto simp: item_ok_def i)
  obtain cmd where cmd: "LookupSettingsCommand (line_word x v) = Some cmd" "cmd_Setting cmd = x"
      "cmd_arg cmd = (if x = SettingMode then ArgNone else ArgRequired)" "x = SettingMode \<longrightarrow> cmd_value cmd = v"
    using find_command [OF ok(1)] by auto
  let ?r = "CHR 0x0A # t"
  let ?s = "line_word x v @ line_value x v @ count_flag n @ ?r"
  have end_r: "at_line_end ?r" by (simp add: at_line_end_def line_break_def)
  have "ends_word (line_value x v @ count_flag n @ ?r)"
    using flag_ends [OF end_r, of n] by (auto simp: line_value_def ends_word_def word_char_def line_blank_def)
  from take_word [OF _ this] have w: "next_word ?s = line_word x v" "after_word ?s = line_value x v @ count_flag n @ ?r"
    using line_word_chars [OF ok(1)] by auto
  have slash: "has_prefix ?s ''/''" using line_word_chars [OF ok(1)] by (auto simp: has_prefix_def prefix_def)
  have skip: "skipSpace True ?r = skipSpace True t" by (simp add: skipSpace_def line_break_def)
  have "parse_from l ?s = parse_from (add_command cmd v (max n 0) l) (skipSpace True t)"
    using slash w cmd(1) parse_words_of_line [OF ok(1,3) end_r cmd(2,3,4)] skip
    by (subst parse_from.simps) (simp add: line_break_def)
  moreover have "same_changes (add_command cmd v (max n 0) l) (put_item i l)" "cl_Names (add_command cmd v (max n 0) l) \<noteq> []"
    using ok cmd(2) by (auto simp: same_changes_def add_command_def put_item_def i Let_def)
  ultimately show thesis using that by (simp add: item_text_def i command_text_split)
qed

section \<open>The lines of changes\<close>

lemma same_put: "same_changes l l' \<Longrightarrow> same_changes (put_item i l) (put_item i l')"
  by (cases i) (auto simp: same_changes_def put_item_def)

lemma same_fold: "same_changes l l' \<Longrightarrow> same_changes (fold put_item is l) (fold put_item is l')"
  by (induction "is" arbitrary: l l') (auto simp: same_put)

lemma item_text_start: "item_ok i \<Longrightarrow> skipSpace True (item_text i @ t) = item_text i @ t"
proof -
  assume "item_ok i"
  then obtain x v n where i: "i = (x, v, n)" "writable x v" by (cases i) (auto simp: item_ok_def)
  then have "has_prefix (line_word x v) ''/''" using line_word_chars by simp
  then obtain w where "line_word x v = CHR ''/'' # w" by (auto simp: has_prefix_def prefix_def)
  then show ?thesis by (simp add: i item_text_def command_text_split skipSpace_def line_blank_def line_break_def)
qed

definition lines_text :: "(setting \<times> bytes \<times> int) list \<Rightarrow> bytes" where
  "lines_text is = concat (map (\<lambda>i. item_text i @ [CHR 0x0A]) is)"

lemma parse_lines:
  assumes "list_all item_ok is"
  shows "\<exists>l'. parse_from l (skipSpace True (lines_text is @ p)) = parse_from l' (skipSpace True p) \<and>
    same_changes l' (fold put_item is l) \<and> (cl_Names l \<noteq> [] \<or> is \<noteq> [] \<longrightarrow> cl_Names l' \<noteq> [])"
  using assms
proof (induction "is" arbitrary: l)
  case Nil
  show ?case by (auto simp: lines_text_def same_changes_def)
next
  case (Cons i "is")
  then have ok: "item_ok i" "list_all item_ok is" by auto
  obtain l1 where l1: "parse_from l (item_text i @ CHR 0x0A # lines_text is @ p) = parse_from l1 (skipSpace True (lines_text is @ p))"
      "same_changes l1 (put_item i l)" "cl_Names l1 \<noteq> []"
    using parse_line [OF ok(1)] by blast
  from Cons.IH [OF ok(2), of l1] obtain l2 where l2:
      "parse_from l1 (skipSpace True (lines_text is @ p)) = parse_from l2 (skipSpace True p)"
      "same_changes l2 (fold put_item is l1)" "cl_Names l2 \<noteq> []" using l1(3) by auto
  have "same_changes l2 (fold put_item (i # is) l)"
    using l2(2) same_fold [OF l1(2), of "is"] by (simp add: same_changes_def)
  moreover have "skipSpace True (lines_text (i # is) @ p) = item_text i @ CHR 0x0A # lines_text is @ p"
    using item_text_start [OF ok(1)] by (simp add: lines_text_def)
  ultimately show ?case using l1(1) l2 by auto
qed

definition items_of :: "settings_change \<Rightarrow> (setting \<times> bytes \<times> int) list" where
  "items_of c = map (\<lambda>x. (x, value_of (changeValues c) x, ch_Turns c)) (sortedSettings (changeValues c))"

lemma change_lines_items: "change_lines c = map item_text (items_of c)"
  by (simp add: change_lines_def items_of_def item_text_def count_flag_def Let_def)

lemma join_lines: "xs \<noteq> [] \<Longrightarrow> join [CHR 0x0A] xs @ [CHR 0x0A] = concat (map (\<lambda>l. l @ [CHR 0x0A]) xs)"
proof (induction xs)
  case (Cons x xs)
  then show ?case by (cases xs) (auto simp: join_Cons)
qed simp

text \<open>A change as it is read back: an empty level or toolset is the default, and its source is not part of the text.\<close>

definition read_back :: "settings_change \<Rightarrow> settings_change" where
  "read_back c =
     c\<lparr> ch_Reasoning := changeValues c SettingReasoning, ch_Toolset := changeValues c SettingToolset, ch_Source := [],
        ch_SessionOnly := False \<rparr>"

lemma put_all:
  "fold (\<lambda>x. put_value x (value_of (changeValues c) x)) (sortedSettings (changeValues c)) (no_change\<lparr> ch_Turns := ch_Turns c \<rparr>) = read_back c"
  by (cases "ch_Model c"; cases "ch_Reasoning c"; cases "ch_Toolset c"; cases "ch_Mode c"; cases "ch_PermissionMode c";
      simp add: sortedSettings_def settingOrder_def changeValues_def no_settings_def value_of_def put_value_def no_change_def
        read_back_def Let_def)

lemma put_turns_new: "n \<notin> ch_Turns ` set T \<Longrightarrow> put_turns x v n T = T @ [put_value x v (no_change\<lparr> ch_Turns := n \<rparr>)]"
  by (induction T) auto

lemma put_turns_last: "n \<notin> ch_Turns ` set T \<Longrightarrow> ch_Turns d = n \<Longrightarrow> put_turns x v n (T @ [d]) = T @ [put_value x v d]"
  by (induction T) auto

lemma put_value_turns [simp]: "ch_Turns (put_value x v c) = ch_Turns c"
  by (cases x) (auto simp: put_value_def)

lemma fold_turn_items:
  assumes "0 < n" "n \<notin> ch_Turns ` set T" "ch_Turns d = n" "cl_Turns l = T @ [d]"
  shows "cl_Turns (fold put_item (map (\<lambda>x. (x, f x, n)) xs) l) = T @ [fold (\<lambda>x. put_value x (f x)) xs d] \<and>
    cl_Session (fold put_item (map (\<lambda>x. (x, f x, n)) xs) l) = cl_Session l"
  using assms(3,4)
proof (induction xs arbitrary: d l)
  case (Cons x xs)
  have "put_item (x, f x, n) l = l\<lparr> cl_Turns := T @ [put_value x (f x) d] \<rparr>"
    using assms(1,2) Cons.prems by (simp add: put_item_def put_turns_last)
  then show ?case using Cons.IH [of "put_value x (f x) d" "l\<lparr> cl_Turns := T @ [put_value x (f x) d] \<rparr>"] Cons.prems by simp
qed simp

lemma fold_session_items:
  "cl_Turns (fold put_item (map (\<lambda>x. (x, f x, 0)) xs) l) = cl_Turns l \<and>
   cl_Session (fold put_item (map (\<lambda>x. (x, f x, 0)) xs) l) = fold (\<lambda>x. put_value x (f x)) xs (cl_Session l)"
  by (induction xs arbitrary: l) (auto simp: put_item_def)

lemma sorted_nonempty: "\<not> Empty_change c \<Longrightarrow> sortedSettings (changeValues c) \<noteq> []"
  by (auto simp: sortedSettings_def settingOrder_def changeValues_def no_settings_def Empty_change_def Let_def)

lemma put_change:
  assumes "\<not> Empty_change c" "0 \<le> ch_Turns c" "ch_Turns c = 0 \<longrightarrow> cl_Session l = no_change"
    "ch_Turns c \<notin> ch_Turns ` set (cl_Turns l)"
  shows "cl_Turns (fold put_item (items_of c) l) = cl_Turns l @ (if ch_Turns c > 0 then [read_back c] else []) \<and>
    cl_Session (fold put_item (items_of c) l) = (if ch_Turns c > 0 then cl_Session l else read_back c)"
proof (cases "ch_Turns c > 0")
  case True
  obtain x xs where xs: "sortedSettings (changeValues c) = x # xs" using sorted_nonempty [OF assms(1)] by (auto simp: neq_Nil_conv)
  let ?f = "value_of (changeValues c)"
  let ?d = "put_value x (?f x) (no_change\<lparr> ch_Turns := ch_Turns c \<rparr>)"
  have first: "put_item (x, ?f x, ch_Turns c) l = l\<lparr> cl_Turns := cl_Turns l @ [?d] \<rparr>"
    using True assms(4) by (simp add: put_item_def put_turns_new)
  have "fold (\<lambda>x. put_value x (?f x)) xs ?d = read_back c" using put_all [of c] by (simp add: xs)
  then show ?thesis
    using True fold_turn_items [OF True assms(4), of ?d "l\<lparr> cl_Turns := cl_Turns l @ [?d] \<rparr>" ?f xs]
    by (simp add: items_of_def xs first)
next
  case False
  then have zero: "ch_Turns c = 0" using assms(2) by simp
  have "no_change\<lparr> ch_Turns := 0 \<rparr> = no_change" by (simp add: no_change_def)
  then show ?thesis
    using zero assms(3) fold_session_items [of "value_of (changeValues c)" "sortedSettings (changeValues c)" l] put_all [of c]
    by (simp add: items_of_def zero)
qed

lemma put_changes:
  assumes "list_all (\<lambda>c. \<not> Empty_change c \<and> 0 \<le> ch_Turns c) cs" "distinct (map ch_Turns cs)"
    "0 \<in> ch_Turns ` set cs \<longrightarrow> cl_Session l = no_change" "ch_Turns ` set cs \<inter> ch_Turns ` set (cl_Turns l) = {}"
  shows "cl_Turns (fold put_item (concat (map items_of cs)) l) = cl_Turns l @ map read_back (filter (\<lambda>c. ch_Turns c > 0) cs) \<and>
    cl_Session (fold put_item (concat (map items_of cs)) l) =
      (case find (\<lambda>c. ch_Turns c = 0) cs of Some c \<Rightarrow> read_back c | None \<Rightarrow> cl_Session l)"
  using assms
proof (induction cs arbitrary: l)
  case (Cons c cs)
  let ?l = "fold put_item (items_of c) l"
  have put: "cl_Turns ?l = cl_Turns l @ (if ch_Turns c > 0 then [read_back c] else [])"
      "cl_Session ?l = (if ch_Turns c > 0 then cl_Session l else read_back c)"
    using put_change [of c l] Cons.prems by (auto simp: image_iff)
  have turns: "ch_Turns (read_back c) = ch_Turns c" by (simp add: read_back_def)
  have none: "find (\<lambda>c. ch_Turns c = 0) cs = None" if "ch_Turns c = 0"
    using that Cons.prems(2) by (auto simp: find_None_iff image_iff)
  have "cl_Turns (fold put_item (concat (map items_of cs)) ?l) = cl_Turns ?l @ map read_back (filter (\<lambda>c. ch_Turns c > 0) cs) \<and>
      cl_Session (fold put_item (concat (map items_of cs)) ?l) =
        (case find (\<lambda>c. ch_Turns c = 0) cs of Some c \<Rightarrow> read_back c | None \<Rightarrow> cl_Session ?l)"
  proof (rule Cons.IH)
    show "0 \<in> ch_Turns ` set cs \<longrightarrow> cl_Session ?l = no_change"
      using Cons.prems put(2) by (cases "ch_Turns c = 0") auto
    show "ch_Turns ` set cs \<inter> ch_Turns ` set (cl_Turns ?l) = {}"
      using Cons.prems(2,4) put(1) turns by (auto split: if_splits)
  qed (use Cons.prems in auto)
  then show ?case using put none Cons.prems by (auto split: option.splits)
qed simp

section \<open>The round trip\<close>

text \<open>A change that can be written as commands: it names something, and its values are words the commands take.\<close>

definition change_writable :: "settings_change \<Rightarrow> bool" where
  "change_writable c \<longleftrightarrow> \<not> Empty_change c \<and> 0 \<le> ch_Turns c \<and> list_all item_ok (items_of c)"

definition starts_no_command :: "bytes \<Rightarrow> bool" where
  "starts_no_command p \<longleftrightarrow>
     \<not> has_prefix (skipSpace True p) ''/'' \<or> LookupSettingsCommand (next_word (skipSpace True p)) = None"

lemma prompt_left: "starts_no_command p \<Longrightarrow> parse_from l (skipSpace True p) = Inr (l, skipSpace True p)"
  by (subst parse_from.simps) (auto simp: starts_no_command_def split: option.splits)

lemma drop_idem: "dropWhile P (dropWhile P xs) = dropWhile P xs"
  by (induction xs) auto

lemma trim_skip: "trim_left_blanks (skipSpace True p) = trim_left_blanks p"
  by (simp add: trim_left_blanks_def skipSpace_def drop_idem)


definition demo_changes :: "settings_change list" where
  "demo_changes =
     [no_change\<lparr> ch_Model := Some ''vendor/big'', ch_Mode := Some ''plan'' \<rparr>,
      no_change\<lparr> ch_Reasoning := Some ''high'', ch_PermissionMode := Some ''bypass'', ch_Turns := 3 \<rparr>]"


text \<open>Reading takes commands off the front and nothing else: what is left is an end of the text.\<close>

lemma skip_suffix: "suffix (skipSpace b s) s"
  by (simp add: skipSpace_def suffix_dropWhile)

lemma after_suffix: "suffix (after_word s) s"
  by (simp add: after_word_def suffix_dropWhile)

lemma demo_line:
  "FormatSettingsCommands demo_changes =
     ''/model vendor/big'' @ [CHR 0x0A] @ ''/plan'' @ [CHR 0x0A] @ ''/reasoning high --count=3'' @ [CHR 0x0A] @
     ''/permissions bypass --count=3''"
  by code_simp

end
