(* ===== verification/Spec2Isabelle.thy ===== *)
theory Spec2Isabelle
  imports TurnQueue_Correct Permission_Correct LineDiff_Script Transcript_Correct ToolPairing_Correct
    WebAuth_Correct LoopGuard_Correct BgTask_Ids BgTask_Limits FilePatch_RoundTrip FilePatch_V4A
    Serve_Reload Eviction_Rules AgentTurn_Stall GoalRun_Rules GoalRisk_Correct GoalJudge_Correct TurnWatch_Correct
    Hooks_Correct ToolSets_Correct Settings_Correct SettingsCommands_Correct
begin

text \<open>
  A verification development for the coddy agent, a Go program in which a language model works on
  a repository under an operator's eyes. Paths below are under \<^verbatim>\<open>src/\<close>.

  \<^descr> \<open>The program.\<close> A session holds a conversation; a turn drives the model, whose answers stream
  in and whose tool calls run, until it has nothing more to say. Around that loop stand the parts
  modelled here. While a turn runs, follow-up messages wait in a queue, and one of them may
  interrupt the turn. Each tool call passes a permission gate, which reads the command line the way
  the shell would and compares it with an allowlist and with the grants the operator gave in
  dialogs; which tools there are depends on the session's mode and toolset, and hooks of the operator
  may deny a call or change it. Long commands go to a pool of background tasks, whose ends wake the agent. A guard stops
  a model that repeats itself. The conversation is cut into windows for the model and pages for the
  operator, shortened by summaries, rewound and restored; before it is sent, its tool calls and
  results must pair up. Files are edited and patched, and
  the changes shown as line diffs. What the model is sent leaves out results that later work has
  superseded. A session may have a goal: after each turn a supervisor checks the evidence and starts the
  next one, within budgets and rules. The web server signs browsers in, and a supervisor keeps such surfaces in line with
  the configuration, itself kept alive by a dispatcher.

  \<^descr> \<open>GoPrelude.\<close> What the components share of Go: strings as bytes, indexing that may panic, the
  64-bit wrap-around, trimming, splitting and the fields of \<^verbatim>\<open>package strings\<close>, decimal numbers;
  association lists as tables and the end of a byte sequence. \<open>GoWords\<close> adds searching and
  replacing in strings, words and \<^verbatim>\<open>strconv.Atoi\<close>.

  \<^descr> \<open>TurnQueue, TurnQueue_Correct\<close> (\<^verbatim>\<open>internal/session\<close>: turn_queue.go, turn_interrupt.go,
  manager_queue.go; \<^verbatim>\<open>external/cli/queue.go\<close>). The record \<open>qstate\<close> is the queue's part of
  \<^verbatim>\<open>session.State\<close>; receipts are a heap, because the interruptible run and its reader share them by
  pointer; versions are 64-bit words. The interruptible run is cut at its critical sections, which
  the events of a run interleave freely. Lemmas: every message is in exactly one place or has
  left it in one of the named ways; a batch is read or handed over, never both; a console that
  applies frames in any order ends with the newest.

  \<^descr> \<open>CommandSegments\<close> (\<^verbatim>\<open>internal/tooling\<close>: command_segments.go, env.go). The scanner of a POSIX
  command line, byte by byte, against a declarative reading: each byte is tagged with the quoting
  state it is in, and the segments are the unquoted runs between operators. An allowed command has
  every segment allowed, or the allowlist names the whole line.

  \<^descr> \<open>Permission, Permission_Correct\<close> (\<^verbatim>\<open>internal/permission\<close>: permission.go, grants.go, program.go,
  http.go; \<^verbatim>\<open>internal/config/http_request.go\<close>; the grant lists of \<^verbatim>\<open>internal/session/state.go\<close>). Every
  decision of the gate, the options of its dialogs and what an answer stores. JSON, \<^verbatim>\<open>net/url\<close> and
  \<^verbatim>\<open>path/filepath\<close> are parameters (\<open>call_args\<close>, \<open>url\<close>, \<open>path_lib\<close>). Lemmas: a stored command grant
  covers single plain commands only; an HTTP grant is bound to the origin, files, proxy and output
  it was given for.

  \<^descr> \<open>LineDiff, LineDiff_Snake, LineDiff_Script\<close> (\<^verbatim>\<open>internal/linediff\<close>). Myers' linear-space search with
  its two arrays and Go indices; that it returns, within the grid, a snake that splits the problem
  (mirrored once, so the two halves of the search share their lemmas); the recursion, hunks and the
  patch. The loops are recursions on the number of rows left; running out of rows, an index out of
  range and an empty split are \<open>None\<close>, and the theorems say \<open>Some\<close>. Applying the hunks to the old
  text gives the new text.

  \<^descr> \<open>Transcript, Transcript_Correct\<close> (\<^verbatim>\<open>internal/session\<close>: compaction.go, message_window.go, rewind.go,
  rewind_undo.go, artifact_markers.go, ui_log.go). The window the model sees, the boundary a
  compaction chooses, the pages of the operator's view, the markers that link the artifacts of a turn in an
  answer, the cut of a rewind and its undo, whose digest is a parameter.

  \<^descr> \<open>ToolPairing, ToolPairing_Correct\<close> (\<^verbatim>\<open>internal/session/tool_pairing.go\<close>). Analysis, validation and
  repair of a history, against its division into batches of an assistant row and the results that
  follow it: validation accepts exactly the well paired histories, repair adds exactly the missing
  results and leaves the rest, and what it can complete validates.

  \<^descr> \<open>LoopGuard, LoopGuard_Correct\<close> (\<^verbatim>\<open>internal/agent/loopguard.go\<close>). Normalization, the periodic tail
  with its slices and products as Go ints, the trimming, the streamed detector and the counter of
  equal tool calls; the canonical JSON of a call is a parameter.

  \<^descr> \<open>WebAuth, WebAuth_Correct\<close> (\<^verbatim>\<open>internal/webauth\<close>: session.go, throttle.go). The store of sign-ins and
  the throttle of failed ones, both bounded tables; the locale \<open>capped_store\<close> states what a bounded
  table promises and is interpreted on both.

  \<^descr> \<open>BgTask, BgTask_Correct, BgTask_Tables, BgTask_Ids, BgTask_Limits\<close> (\<^verbatim>\<open>internal/bgtask\<close>: task.go,
  pool.go, persist.go, output.go, default.go). A task is a cell of a heap, since the table, its
  supervisor and a caller that stops it share it by pointer; each critical section is one
  operation, and the events of a run interleave them under the guards of the code's control flow.
  Lemmas: the life of one cell (an outcome is final, a handle is stopped once, an end is published
  once), lifted to the pool; the table shrinks except at an admission, hence the cap; numbers on
  disk never exceed the counter, hence fresh ids and no unfinished task lost; limits and output.

  \<^descr> \<open>FilePatch, FilePatch_Correct, FilePatch_Unified, FilePatch_RoundTrip, FilePatch_V4A\<close>
  (\<^verbatim>\<open>internal/tools/fs\<close>: edit.go, patch.go, patch_v4a.go, line_endings.go, lines.go). What the editing
  tools do to the text of a file; a panic is an error value. Lemmas: an edit works on the text
  whatever its line ending; a unified diff is applied exactly when it reads as hunks that stand in
  the file, and what \<^verbatim>\<open>linediff.Unified\<close> renders applies back; a V4A patch that replaces lines splices
  its chunks in order; the patches the code reads otherwise, evaluated.

  \<^descr> \<open>Eviction, Eviction_Correct, Eviction_Rules\<close> (\<^verbatim>\<open>internal/agent/result_eviction.go\<close>). The projection
  that replaces superseded read, search and listing results by placeholders: the scan of the
  history, windows, pins, the writes that make a result stale, and the gates that decide when it
  runs. JSON, \<^verbatim>\<open>path/filepath\<close> and \<^verbatim>\<open>strconv.Quote\<close> are parameters, token estimates inputs. Lemmas: only
  the contents and pictures of tool rows change, so pairing survives; the exact rule that decides
  each row; what is out stays out as the history grows, as long as nothing pins it.

  \<^descr> \<open>GoalState, GoalRisk, GoalJudge, TurnWatch, GoalRun\<close> and their \<open>_Correct\<close> and \<open>_Rules\<close> theories
  (\<^verbatim>\<open>internal/session\<close>: goal.go, goal_command.go, goal_risk.go, goal_digest.go, goal_judge.go,
  goal_prompts.go, supervisor.go, supervisor_watch.go; \<^verbatim>\<open>internal/config/supervisor.go\<close>). The goal of a
  session and the operator's acts on it; the rules over what its turns did, with the regular
  expressions written out; the reading of a verdict; the watchdog of a turn, as events; and the loop
  that runs, checks and continues turns. One iteration of the loop gets a record \<open>step_env\<close> with what it
  asks others for: the turn's end and rows, git, the judge, the verifier, cancellations, and what the
  operator did to the goal meanwhile, as a list of acts. JSON, the letters outside ASCII, SHA-256 and
  git are parameters. Lemmas: a run ends, within a number of turns its budgets give, whatever the
  answers are, unless the operator resumes or sets the same goal again meanwhile; a goal is complete only
  on a verdict; no turn starts on top of a destructive step nobody accepted; resuming accepts exactly
  what blocked.

  \<^descr> \<open>ToolCallIds\<close> (\<^verbatim>\<open>internal/agent/tool_call_ids.go\<close>). The ids under which the calls of a streamed answer are
  stored: a provider may repeat an id of an earlier answer or leave it out. The claims of one answer are an
  association list, its records on disk a predicate. Lemmas: the stored ids are nonblank, pairwise different and
  free, and the ids of the stream are those of the response.

  \<^descr> \<open>Pictures, Pictures_Correct\<close> (\<^verbatim>\<open>internal/agent/tool_images.go\<close>, \<^verbatim>\<open>internal/llm/attachments.go\<close>). Which
  pictures of a history a request carries, and the projection that moves those of tool results into a user message
  behind them. Lemmas: the window keeps its limits, never moves back as the history grows, and keeps its start
  while the newer pictures fit.

  \<^descr> \<open>AgentHistory, AgentTurn, AgentTurn_Bounds, AgentTurn_Stall\<close> (\<^verbatim>\<open>internal/agent\<close>: react.go, output_limit.go,
  limit_wait.go, message_queue.go, turn_context.go; the retry allowance of \<^verbatim>\<open>internal/llm/resilient.go\<close>). \<open>AgentHistory\<close>
  holds the rows and notes the loop writes and the messages it sends; \<open>AgentTurn\<close> is \<^verbatim>\<open>runReActLoop\<close>: the record
  \<open>turn_state\<close> holds its local variables, the session's rows and the working history, \<open>loop_turn\<close> is one iteration,
  from the follow-ups read at its top over the settings, the compaction, the projections, the stream and its
  errors to the answer and its calls. An iteration gets a record \<open>round_env\<close> with what it asks others for: the
  chunks and the response, the errors, the results of its calls, the texts it renders, the operator's follow-ups
  and stops, read at named places (\<open>site\<close>). \<open>None\<close> is a panic. Lemmas: an iteration does not panic; a turn returns
  within a number of iterations its limits give; and one in which the model gives nothing to act on returns
  within a number that does not depend on the limit of steps.

  \<^descr> \<open>Hooks, HookTrust, Hooks_Correct\<close> (\<^verbatim>\<open>internal/hooks\<close>: definition.go, matcher.go, payload.go, runner.go, loader.go,
  script_digest.go, trust.go; the workspaces of \<^verbatim>\<open>internal/mcp/trust.go\<close>). The operator's hooks: reading a file, which
  handlers an event reaches, how their answers merge into an outcome, and which files are trusted. A source is a
  cell of a list, since a check withdraws it for the rest of the turn; the checks are numbered, each a snapshot of
  the files, and processes are results. Lemmas: the strictest answer wins; what runs is what the operator's receipt
  names; the commands whose scripts the digest does not see, evaluated.

  \<^descr> \<open>ToolSets, ToolSets_Correct\<close> (\<^verbatim>\<open>internal/agent/toolsets.go\<close>, \<^verbatim>\<open>internal/config/toolsets.go\<close>,
  \<^verbatim>\<open>internal/subagents\<close>: policy.go, definition.go; the tool definitions of react.go and the start of a spawn in
  subagent.go). Tools are their names. Lemmas: what is offered is not refused; a child gets no tool, mode or
  permission its parent does not have.

  \<^descr> \<open>SettingsState, SettingsCommands, Settings_Correct, SettingsCommands_Correct\<close> (\<^verbatim>\<open>internal/session\<close>:
  settings_state.go, settings.go, commands.go, the accessors of state.go). Model, reasoning level, toolset, mode and
  permission mode of a session: its own values, what is armed for the next turns, what the running turn holds; the
  change that is validated and written; the commands a prompt starts with, whose positions are the text that is left.
  A model entry carries its reasoning choices. Lemmas: an override lasts the turns it was armed for; a change of the
  session is the last word; a refused prompt changes nothing, with one exception; what a client writes is read back.

  \<^descr> \<open>Serve, Serve_Correct, Serve_Reload\<close> (\<^verbatim>\<open>internal/serve\<close>: subsystem.go, supervisor.go, status.go,
  dispatcher.go). A configuration is an opaque pointer the descriptors answer about; instances are
  a heap, since a surface that ends compares its own with the table's. The loop of \<^verbatim>\<open>Run\<close> is a step
  relation in which the ends of surfaces, the signal and reloads interleave; \<^verbatim>\<open>applyConfig\<close> is a fold
  of its iterations. Lemmas: one live instance per kind; a reload never leaves the process without
  a surface; how a run may end; what a reload settles and what the status foretells; the pauses
  between the lives of a worker.

  \<^descr> \<open>Bounds and fuel.\<close> No model runs on fuel. Recursions that are not structural have a measure. The
  bounds in hypotheses are those of the 64-bit counters and products: fewer than \<open>2 ^ 61\<close> operations
  and numbers up to \<open>2 ^ 62\<close> on disk for the ids of tasks, cycles below \<open>2 ^ 54\<close> for the loop guard,
  files of fewer than \<open>2 ^ 62\<close> bytes for line numbers in patches, at most \<open>2 ^ 62\<close> nanoseconds for
  the longest pause of a restart policy. A turn of the agent is a list of iterations, one \<open>round_env\<close> each; the
  theorems say how long a list suffices.

  \<^descr> \<open>Not modelled.\<close> Clients of language models, the HTTP server's routes, the console's rendering, the
  messengers, browsers, git and MCP, because they are input and output around libraries; the
  session's files; how a tool call is executed behind its permission (the loop gets its result), the text of the
  system prompt, which rows a compaction folds and how it words them, the runs of subagents and the counting of tokens;
  chains of goals. Inside the modelled parts:
  what a message's pictures and mentions contain, the text of prompts, the locks themselves (an
  operation is what one lock section does), and processes and files except as the answers they
  give.
\<close>

end
